(* ===== verification/Prelude.thy ===== *)
theory Prelude
  imports Main "HOL-Library.Word" "HOL-Library.Monad_Syntax"
begin

text \<open>
  Shared vocabulary of the TempOS development: the machine integers of
  \<^verbatim>\<open>kernel/include/unistd.h\<close>, pointers, the flat byte memory and the
  generic lemmas on lists, options, maps and words that the component theories use.

  Conventions.
  \<^item> A pointer is a natural number and \<open>NULL\<close> is \<open>0\<close>; a typed store maps the
    addresses of the live objects of one C struct to records.
  \<^item> A function of type \<open>'a option\<close> yields \<open>None\<close> when the C code does not return
    normally: it dereferences a pointer with no object behind it, leaves an array, or
    loops for ever. Loops whose end depends on the data are
    \<^theory_text>\<open>partial_function (option)\<close>.
  \<^item> \<open>int\<close> results are HOL integers; the fixed-width types are words.
\<close>

unbundle bit_operations_syntax

section \<open>Machine types\<close>

type_synonym byte = "8 word"
type_synonym u16 = "16 word"
type_synonym u32 = "32 word"
type_synonym u64 = "64 word"

type_synonym ptr = nat

abbreviation (input) NULL :: ptr where "NULL \<equiv> 0"

text \<open>Flat memory: every address holds a byte.\<close>

type_synonym mem = "nat \<Rightarrow> byte"

named_theorems heap_simps "reading and updating typed stores"
named_theorems word_bounds "bounds of words read as numbers"

section \<open>Typed stores\<close>

text \<open>Assignment to fields of the object at \<open>a\<close>; \<open>None\<close> when there is no such object.\<close>

definition upd_at :: "(ptr \<rightharpoonup> 'a) \<Rightarrow> ptr \<Rightarrow> ('a \<Rightarrow> 'a) \<Rightarrow> (ptr \<rightharpoonup> 'a) option" where
  "upd_at h a f = (case h a of None \<Rightarrow> None | Some x \<Rightarrow> Some (h(a \<mapsto> f x)))"

lemma upd_at_Some [simp]: "h a = Some x \<Longrightarrow> upd_at h a f = Some (h(a \<mapsto> f x))"
  by (simp add: upd_at_def)

lemma upd_at_None [simp]: "h a = None \<Longrightarrow> upd_at h a f = None"
  by (simp add: upd_at_def)

lemma upd_at_eq_Some:
  "upd_at h a f = Some h' \<longleftrightarrow> (\<exists>x. h a = Some x \<and> h' = h(a \<mapsto> f x))"
  by (auto simp: upd_at_def split: option.splits)

text \<open>A field of the object at \<open>a\<close>, read through a default where there is none.\<close>

definition field_at :: "('a \<Rightarrow> 'b::zero) \<Rightarrow> (ptr \<rightharpoonup> 'a) \<Rightarrow> ptr \<Rightarrow> 'b" where
  "field_at f h a = (case h a of None \<Rightarrow> 0 | Some x \<Rightarrow> f x)"

lemma field_at_Some [simp]: "h a = Some x \<Longrightarrow> field_at f h a = f x"
  by (simp add: field_at_def)

lemma field_at_upd [simp]: "field_at f (h(a \<mapsto> x)) = (field_at f h)(a := f x)"
  by (auto simp: field_at_def fun_eq_iff)

lemma field_at_same: "h a = Some y \<Longrightarrow> f x = f y \<Longrightarrow> (field_at f h)(a := f x) = field_at f h"
  by (auto simp: field_at_def fun_eq_iff)

section \<open>Lists\<close>

lemma last_decomp: "xs \<noteq> [] \<Longrightarrow> \<exists>ys. xs = ys @ [last xs]"
  by (metis append_butlast_last_id)

lemma map_fst_notin_update [simp]:
  "a \<notin> set xs \<Longrightarrow> map (f(a := y)) xs = map f xs"
  by (induction xs) auto

lemma nth_last_append: "i = length xs \<Longrightarrow> (xs @ [x]) ! i = x"
  by simp

lemma distinct_split_notin:
  "distinct (xs @ a # ys) \<Longrightarrow> a \<notin> set xs \<and> a \<notin> set ys"
  by auto

section \<open>Words\<close>

lemma unat_byte_bound [word_bounds, simp]: "unat (b :: byte) < 256"
  using unsigned_less [of b] by simp

lemma unat_u16_bound [word_bounds]: "unat (w :: u16) < 65536"
  using unsigned_less [of w] by simp

lemma unat_u32_bound [word_bounds]: "unat (w :: u32) < 4294967296"
  using unsigned_less [of w] by simp

lemma unat_of_nat_small_u32: "n < 4294967296 \<Longrightarrow> unat (of_nat n :: u32) = n"
  by (simp add: unat_of_nat take_bit_nat_eq_self)

lemma unat_of_nat_small_byte: "n < 256 \<Longrightarrow> unat (of_nat n :: byte) = n"
  by (simp add: unat_of_nat take_bit_nat_eq_self)

section \<open>Little-endian fields\<close>

text \<open>
  What \<^verbatim>\<open>memcpy\<close> of a 16- or 32-bit field yields on the little-endian x86, lowest byte first,
  and the bytes of such a field.
\<close>

definition bytes16 :: "byte \<Rightarrow> byte \<Rightarrow> u16" where
  "bytes16 b0 b1 = ucast b0 OR push_bit 8 (ucast b1)"

definition bytes32 :: "byte \<Rightarrow> byte \<Rightarrow> byte \<Rightarrow> byte \<Rightarrow> u32" where
  "bytes32 b0 b1 b2 b3 = ucast b0 OR push_bit 8 (ucast b1) OR push_bit 16 (ucast b2) OR push_bit 24 (ucast b3)"

definition byte_list16 :: "u16 \<Rightarrow> byte list" where
  "byte_list16 w = [ucast w, ucast (drop_bit 8 w)]"

definition byte_list32 :: "u32 \<Rightarrow> byte list" where
  "byte_list32 w = [ucast w, ucast (drop_bit 8 w), ucast (drop_bit 16 w), ucast (drop_bit 24 w)]"

lemma length_byte_lists [simp]: "length (byte_list16 w) = 2" "length (byte_list32 v) = 4"
  by (simp_all add: byte_list16_def byte_list32_def)

lemma bytes16_split: "bytes16 (ucast w) (ucast (drop_bit 8 w)) = w"
  unfolding bytes16_def by (rule bit_word_eqI) (auto simp: bit_simps)

lemma bytes32_split:
  "bytes32 (ucast w) (ucast (drop_bit 8 w)) (ucast (drop_bit 16 w)) (ucast (drop_bit 24 w)) = w"
proof (rule bit_word_eqI)
  fix n
  assume n: "n < LENGTH(32)"
  then consider "n < 8" | "8 \<le> n" "n < 16" | "16 \<le> n" "n < 24" | "24 \<le> n" "n < 32" by fastforce
  then show "bit (bytes32 (ucast w) (ucast (drop_bit 8 w)) (ucast (drop_bit 16 w)) (ucast (drop_bit 24 w))) n = bit w n"
    using n by cases (auto simp: bytes32_def bit_simps)
qed

end
