(* ===== verification/List_Interface.thy ===== *)
theory List_Interface
  imports Prelude
begin

text \<open>
  What the kernel's clients (timer, wait queues, interrupt queues, disk queues, scheduler)
  rely on when they use the two pointer lists of \<^verbatim>\<open>kernel/lib\<close>. A state \<open>h\<close> holds
  the nodes of all lists; \<open>rep h l ns\<close> says that the head pointer \<open>l\<close> leads to exactly the
  nodes \<open>ns\<close>, each an address and the element stored there. Both
  \<^verbatim>\<open>linkedl.c\<close> and \<^verbatim>\<open>clinkedl.c\<close> are shown to meet \<open>ptr_seq\<close>; the singly
  linked list also meets \<open>ptr_list\<close>.
\<close>

section \<open>Vocabulary\<close>

definition first_index :: "ptr \<Rightarrow> ptr list \<Rightarrow> int" where
  "first_index e xs = (if e \<in> set xs then int (length (takeWhile (\<lambda>x. x \<noteq> e) xs)) else -1)"

lemma first_index_append: "e \<notin> set xs \<Longrightarrow> first_index e (xs @ [e]) = int (length xs)"
  by (simp add: first_index_def takeWhile_append)

lemma first_index_split: "e \<notin> set xs \<Longrightarrow> first_index e (xs @ e # ys) = int (length xs)"
  by (simp add: first_index_def takeWhile_append)

fun remove_node :: "ptr \<Rightarrow> (ptr \<times> ptr) list \<Rightarrow> (ptr \<times> ptr) list" where
  "remove_node e [] = []"
| "remove_node e ((a, x) # ns) = (if x = e then ns else (a, x) # remove_node e ns)"

lemma remove_node_elements: "map snd (remove_node e ns) = remove1 e (map snd ns)"
  by (induction ns rule: remove_node.induct) auto

lemma remove_node_notin: "e \<notin> snd ` set ns \<Longrightarrow> remove_node e ns = ns"
  by (induction ns rule: remove_node.induct) auto

lemma remove_node_split:
  "e \<notin> snd ` set xs \<Longrightarrow> remove_node e (xs @ (a, e) # ys) = xs @ ys"
  by (induction xs) auto

lemma split_first_node:
  "e \<in> snd ` set ns \<Longrightarrow> \<exists>xs a ys. ns = xs @ (a, e) # ys \<and> e \<notin> snd ` set xs"
proof (induction ns)
  case Nil
  then show ?case by simp
next
  case (Cons n ns)
  obtain b x where n: "n = (b, x)" by (cases n)
  show ?case
  proof (cases "x = e")
    case True
    then show ?thesis using n by (intro exI [of _ "[]"]) auto
  next
    case False
    with Cons n obtain xs a ys where "ns = xs @ (a, e) # ys" "e \<notin> snd ` set xs" by auto
    with False n show ?thesis by (intro exI [of _ "n # xs"]) auto
  qed
qed

text \<open>A client that inserts a whole sequence; each entry is an element and the node allocated for it.\<close>

fun add_all :: "('h \<Rightarrow> ptr \<Rightarrow> ptr \<Rightarrow> ptr \<Rightarrow> (int \<times> ptr \<times> 'h) option) \<Rightarrow>
    'h \<Rightarrow> ptr \<Rightarrow> (ptr \<times> ptr) list \<Rightarrow> (ptr \<times> 'h) option" where
  "add_all add h l [] = Some (l, h)"
| "add_all add h l ((e, new) # es) = do { (r, l', h') \<leftarrow> add h l e new; add_all add h' l' es }"

section \<open>Insertion, search and length\<close>

locale ptr_seq =
  fixes rep :: "'h \<Rightarrow> ptr \<Rightarrow> (ptr \<times> ptr) list \<Rightarrow> bool"
    and live :: "'h \<Rightarrow> ptr set"
    and add :: "'h \<Rightarrow> ptr \<Rightarrow> ptr \<Rightarrow> ptr \<Rightarrow> (int \<times> ptr \<times> 'h) option"
    and index_of :: "'h \<Rightarrow> ptr \<Rightarrow> ptr \<Rightarrow> int option"
    and len :: "'h \<Rightarrow> ptr \<Rightarrow> int option"
  assumes rep_empty: "rep h NULL []"
    and rep_live: "rep h l ns \<Longrightarrow> fst ` set ns \<subseteq> live h"
    and add_fail: "add h l e NULL = Some (0, l, h)"
    and add_ok: "\<lbrakk> rep h l ns; new \<noteq> NULL; new \<notin> live h \<rbrakk> \<Longrightarrow>
      \<exists>l' h'. add h l e new = Some (1, l', h') \<and> rep h' l' (ns @ [(new, e)]) \<and>
        live h' = insert new (live h)"
    and add_frame: "\<lbrakk> rep h l ns; new \<noteq> NULL; new \<notin> live h; add h l e new = Some (r, l', h');
      rep h m ms; fst ` set ms \<inter> fst ` set ns = {} \<rbrakk> \<Longrightarrow> rep h' m ms"
    and index_ok: "rep h l ns \<Longrightarrow> index_of h l e = Some (first_index e (map snd ns))"
    and len_ok: "rep h l ns \<Longrightarrow> len h l = Some (int (length ns))"
begin

lemma add_then_index:
  assumes "rep h l ns" and "new \<noteq> NULL" and "new \<notin> live h" and "e \<notin> snd ` set ns"
  shows "\<exists>l' h'. add h l e new = Some (1, l', h') \<and>
    index_of h' l' e = Some (int (length ns)) \<and> len h' l' = Some (int (length ns) + 1)"
proof -
  from add_ok [OF assms(1-3)] obtain l' h'
    where a: "add h l e new = Some (1, l', h')" "rep h' l' (ns @ [(new, e)])" by blast
  with assms(4) show ?thesis
    using index_ok [OF a(2), of e] len_ok [OF a(2)] by (simp add: first_index_append)
qed

lemma add_all_ok:
  assumes "rep h l ns" and "distinct (map snd es)" and "NULL \<notin> snd ` set es"
    and "snd ` set es \<inter> live h = {}"
  shows "\<exists>l' h'. add_all add h l es = Some (l', h') \<and>
    rep h' l' (ns @ map (\<lambda>(e, a). (a, e)) es) \<and> live h' = live h \<union> snd ` set es"
  using assms
proof (induction es arbitrary: h l ns)
  case Nil
  then show ?case by simp
next
  case (Cons x es)
  obtain e a where x: "x = (e, a)" by (cases x)
  from Cons.prems x have "a \<noteq> NULL" "a \<notin> live h" by auto
  from add_ok [OF Cons.prems(1) this, of e] obtain l1 h1
    where s: "add h l e a = Some (1, l1, h1)" "rep h1 l1 (ns @ [(a, e)])" "live h1 = insert a (live h)"
    by blast
  have fresh: "distinct (map snd es)" "NULL \<notin> snd ` set es" "snd ` set es \<inter> live h1 = {}"
    using Cons.prems x s(3) by auto
  from Cons.IH [OF s(2) this] obtain l2 h2
    where "add_all add h1 l1 es = Some (l2, h2)" "live h2 = live h1 \<union> snd ` set es"
      "rep h2 l2 ((ns @ [(a, e)]) @ map (\<lambda>(e, a). (a, e)) es)" by blast
  with s x show ?case by simp
qed

end

section \<open>Removal and positional access\<close>

locale ptr_list = ptr_seq +
  fixes remove :: "'a \<Rightarrow> ptr \<Rightarrow> ptr \<Rightarrow> (int \<times> ptr \<times> 'a) option"
    and nth_elem :: "'a \<Rightarrow> ptr \<Rightarrow> nat \<Rightarrow> ptr option"
  assumes remove_ok: "rep h l ns \<Longrightarrow>
      \<exists>l' h'. remove h l e = Some (if e \<in> snd ` set ns then 1 else 0, l', h') \<and>
        rep h' l' (remove_node e ns) \<and>
        live h' = live h - (fst ` set ns - fst ` set (remove_node e ns))"
    and nth_ok: "rep h l ns \<Longrightarrow>
      nth_elem h l i = Some (if i < length ns then snd (ns ! i) else NULL)"
begin

text \<open>Taking out what was just put in restores the list and releases the node.\<close>

lemma add_remove:
  assumes "rep h l ns" and "new \<noteq> NULL" and "new \<notin> live h" and "e \<notin> snd ` set ns"
  shows "\<exists>l1 h1 l2 h2. add h l e new = Some (1, l1, h1) \<and> remove h1 l1 e = Some (1, l2, h2) \<and>
    rep h2 l2 ns \<and> live h2 = live h"
proof -
  from add_ok [OF assms(1-3)] obtain l1 h1
    where a: "add h l e new = Some (1, l1, h1)" "rep h1 l1 (ns @ [(new, e)])"
      "live h1 = insert new (live h)" by blast
  have rn: "remove_node e (ns @ [(new, e)]) = ns"
    using remove_node_split [OF assms(4), of new "[]"] by simp
  from remove_ok [OF a(2), of e] rn obtain l2 h2
    where r: "remove h1 l1 e = Some (1, l2, h2)" "rep h2 l2 ns"
      "live h2 = live h1 - (fst ` set (ns @ [(new, e)]) - fst ` set ns)" by auto
  moreover have "new \<notin> fst ` set ns" using rep_live [OF assms(1)] assms(3) by blast
  ultimately have "live h2 = live h" using a(3) assms(3) by auto
  with a r show ?thesis by blast
qed

lemma add_all_nth:
  assumes "rep h l ns" and "distinct (map snd es)" and "NULL \<notin> snd ` set es"
    and "snd ` set es \<inter> live h = {}" and "i < length es"
  shows "\<exists>l' h'. add_all add h l es = Some (l', h') \<and>
    nth_elem h' l' (length ns + i) = Some (fst (es ! i))"
proof -
  from add_all_ok [OF assms(1-4)] obtain l' h'
    where a: "add_all add h l es = Some (l', h')" "rep h' l' (ns @ map (\<lambda>(e, a). (a, e)) es)" by blast
  with nth_ok [OF a(2), of "length ns + i"] assms(5) show ?thesis
    by (simp add: case_prod_beta)
qed

end

end
