(* ===== verification/Linked_List.thy ===== *)
theory Linked_List
  imports List_Interface
begin

text \<open>
  The singly linked list of \<^verbatim>\<open>kernel/lib/linkedl.c\<close>. Nodes live in a typed store;
  every operation takes the store and the list's head pointer and returns the result,
  the new head and the new store. The pointer that \<open>kmalloc\<close> returned for a new node
  is the argument \<open>new\<close> (\<open>NULL\<close> when the allocation failed); \<open>kfree\<close> takes the node out
  of the store, so that a later use of it has no result.
\<close>

section \<open>Model\<close>

record llist =
  ll_element :: ptr
  ll_next :: ptr

type_synonym lheap = "ptr \<rightharpoonup> llist"

definition llist_create :: "int \<times> ptr" where
  "llist_create = (1, NULL)"

definition kfree_node :: "lheap \<Rightarrow> ptr \<Rightarrow> lheap option" where
  "kfree_node h p = (case h p of None \<Rightarrow> None | Some _ \<Rightarrow> Some (h(p := None)))"

text \<open>The loop \<^verbatim>\<open>foreach(tmp, aux) kfree(aux)\<close>: the step reads \<open>aux->next\<close> after the body.\<close>

partial_function (option) llist_free_all :: "lheap \<Rightarrow> ptr \<Rightarrow> lheap option" where
  "llist_free_all h aux =
     (if aux \<noteq> NULL then do {
        h' \<leftarrow> kfree_node h aux;
        n \<leftarrow> h' aux;
        llist_free_all h' (ll_next n)
      } else Some h)"

definition llist_destroy :: "lheap \<Rightarrow> ptr \<Rightarrow> (int \<times> ptr \<times> lheap) option" where
  "llist_destroy h list =
     (if list \<noteq> NULL then do {
        n \<leftarrow> h list;
        h1 \<leftarrow> llist_free_all h (ll_next n);
        h2 \<leftarrow> kfree_node h1 (ll_next n);
        Some (1, NULL, h2)
      } else Some (1, NULL, h))"

partial_function (option) llist_last :: "lheap \<Rightarrow> ptr \<Rightarrow> ptr \<Rightarrow> ptr option" where
  "llist_last h tmp prev =
     (if tmp \<noteq> NULL then do { n \<leftarrow> h tmp; llist_last h (ll_next n) tmp } else Some prev)"

definition llist_add :: "lheap \<Rightarrow> ptr \<Rightarrow> ptr \<Rightarrow> ptr \<Rightarrow> (int \<times> ptr \<times> lheap) option" where
  "llist_add h list element new =
     (if new = NULL then Some (0, list, h)
      else let h1 = h(new \<mapsto> \<lparr>ll_element = element, ll_next = NULL\<rparr>) in
        if list = NULL then Some (1, new, h1)
        else do {
          prev \<leftarrow> llist_last h1 list list;
          if prev \<noteq> NULL
          then do { n \<leftarrow> h1 prev; Some (1, list, h1(prev \<mapsto> n\<lparr>ll_next := new\<rparr>)) }
          else Some (1, list, h1)
        })"

partial_function (option) llist_seek :: "lheap \<Rightarrow> nat \<Rightarrow> ptr \<Rightarrow> ptr \<Rightarrow> nat \<Rightarrow> (ptr \<times> ptr) option" where
  "llist_seek h pos tmp prev p =
     (if tmp \<noteq> NULL \<and> p < pos
      then do { n \<leftarrow> h tmp; llist_seek h pos (ll_next n) tmp (p + 1) }
      else Some (tmp, prev))"

definition llist_unlink :: "lheap \<Rightarrow> ptr \<Rightarrow> ptr \<Rightarrow> lheap option" where
  "llist_unlink h prev tmp = do {
     t \<leftarrow> h tmp;
     q \<leftarrow> h prev;
     kfree_node (h(prev \<mapsto> q\<lparr>ll_next := ll_next t\<rparr>)) tmp
   }"

definition llist_remove_nth :: "lheap \<Rightarrow> ptr \<Rightarrow> nat \<Rightarrow> (int \<times> ptr \<times> lheap) option" where
  "llist_remove_nth h list pos =
     (if pos = 0 then do {
        n \<leftarrow> h list;
        h' \<leftarrow> kfree_node h list;
        Some (1, ll_next n, h')
      } else do {
        (tmp, prev) \<leftarrow> llist_seek h pos list list 0;
        if prev \<noteq> NULL then
          if tmp \<noteq> NULL
          then do { h' \<leftarrow> llist_unlink h prev tmp; Some (1, list, h') }
          else Some (1, list, h)
        else Some (0, list, h)
      })"

partial_function (option) llist_find :: "lheap \<Rightarrow> ptr \<Rightarrow> ptr \<Rightarrow> ptr \<Rightarrow> (ptr \<times> ptr) option" where
  "llist_find h element tmp prev =
     (if tmp \<noteq> NULL
      then do {
        n \<leftarrow> h tmp;
        if ll_element n = element then Some (tmp, prev)
        else llist_find h element (ll_next n) tmp
      } else Some (tmp, prev))"

definition llist_remove :: "lheap \<Rightarrow> ptr \<Rightarrow> ptr \<Rightarrow> (int \<times> ptr \<times> lheap) option" where
  "llist_remove h list element =
     (if list = NULL then Some (0, list, h)
      else do {
        n \<leftarrow> h list;
        if ll_element n = element
        then do { h' \<leftarrow> kfree_node h list; Some (1, ll_next n, h') }
        else do {
          (tmp, prev) \<leftarrow> llist_find h element list list;
          if tmp \<noteq> NULL \<and> prev \<noteq> NULL
          then do { h' \<leftarrow> llist_unlink h prev tmp; Some (1, list, h') }
          else Some (0, list, h)
        }
      })"

partial_function (option) llist_nth_loop :: "lheap \<Rightarrow> nat \<Rightarrow> ptr \<Rightarrow> nat \<Rightarrow> ptr option" where
  "llist_nth_loop h index tmp p =
     (if tmp \<noteq> NULL \<and> p < index
      then do { n \<leftarrow> h tmp; llist_nth_loop h index (ll_next n) (p + 1) }
      else Some tmp)"

definition llist_nth :: "lheap \<Rightarrow> ptr \<Rightarrow> nat \<Rightarrow> ptr option" where
  "llist_nth h list index = do {
     tmp \<leftarrow> llist_nth_loop h index list 0;
     if tmp \<noteq> NULL then do { n \<leftarrow> h tmp; Some (ll_element n) } else Some NULL
   }"

partial_function (option) llist_index_loop :: "lheap \<Rightarrow> ptr \<Rightarrow> ptr \<Rightarrow> int \<Rightarrow> (ptr \<times> int) option" where
  "llist_index_loop h element tmp p =
     (if tmp \<noteq> NULL
      then do {
        n \<leftarrow> h tmp;
        if ll_element n = element then Some (tmp, p)
        else llist_index_loop h element (ll_next n) (p + 1)
      } else Some (tmp, p))"

definition llist_index :: "lheap \<Rightarrow> ptr \<Rightarrow> ptr \<Rightarrow> int option" where
  "llist_index h list element =
     (if list = NULL then Some (-1)
      else do {
        n \<leftarrow> h list;
        if ll_element n = element then Some 0
        else do {
          (tmp, p) \<leftarrow> llist_index_loop h element list 0;
          if tmp \<noteq> NULL then Some p else Some (-1)
        }
      })"

partial_function (option) llist_length_loop :: "lheap \<Rightarrow> ptr \<Rightarrow> int \<Rightarrow> int option" where
  "llist_length_loop h tmp sz =
     (if tmp \<noteq> NULL then do { n \<leftarrow> h tmp; llist_length_loop h (ll_next n) (sz + 1) }
      else Some sz)"

definition llist_length :: "lheap \<Rightarrow> ptr \<Rightarrow> int option" where
  "llist_length h list = llist_length_loop h list 0"

section \<open>Well-formed lists\<close>

text \<open>
  \<open>lseg h p ns q\<close>: following \<open>next\<close> from \<open>p\<close> visits the nodes \<open>ns\<close> (address and element)
  and arrives at \<open>q\<close>.
\<close>

fun lseg :: "lheap \<Rightarrow> ptr \<Rightarrow> (ptr \<times> ptr) list \<Rightarrow> ptr \<Rightarrow> bool" where
  "lseg h p [] q = (p = q)"
| "lseg h p ((a, e) # ns) q =
     (p = a \<and> a \<noteq> NULL \<and>
      (case h a of None \<Rightarrow> False | Some n \<Rightarrow> ll_element n = e \<and> lseg h (ll_next n) ns q))"

definition is_llist :: "lheap \<Rightarrow> ptr \<Rightarrow> (ptr \<times> ptr) list \<Rightarrow> bool" where
  "is_llist h p ns = (lseg h p ns NULL \<and> distinct (map fst ns))"

lemma lseg_append [heap_simps]:
  "lseg h p (xs @ ys) q = (\<exists>r. lseg h p xs r \<and> lseg h r ys q)"
  by (induction xs arbitrary: p) (auto split: option.splits)

lemma lseg_update_notin [heap_simps]:
  "a \<notin> fst ` set ns \<Longrightarrow> lseg (h(a := v)) p ns q = lseg h p ns q"
  by (induction ns arbitrary: p) (auto split: option.splits)

lemma lseg_NULL [simp]: "lseg h NULL ns q = (ns = [] \<and> q = NULL)"
  by (cases ns) auto

lemma lseg_nonnull: "lseg h p ns NULL \<Longrightarrow> p \<noteq> NULL \<Longrightarrow> \<exists>e ms. ns = (p, e) # ms"
  by (cases ns) auto

lemma lseg_in_heap: "lseg h p ns q \<Longrightarrow> fst ` set ns \<subseteq> dom h - {NULL}"
  by (induction ns arbitrary: p) (fastforce split: option.splits)+

section \<open>The loops\<close>

text \<open>One-step equations of the loops; the simplifier walks a list with them.\<close>

lemma llist_last_steps [simp]:
  "llist_last h NULL prev = Some prev"
  "p \<noteq> NULL \<Longrightarrow> h p = Some n \<Longrightarrow> llist_last h p prev = llist_last h (ll_next n) p"
  by (simp_all add: llist_last.simps)

lemma llist_seek_steps [simp]:
  "llist_seek h pos NULL prev k = Some (NULL, prev)"
  "\<not> k < pos \<Longrightarrow> llist_seek h pos p prev k = Some (p, prev)"
  "p \<noteq> NULL \<Longrightarrow> h p = Some n \<Longrightarrow> k < pos \<Longrightarrow>
     llist_seek h pos p prev k = llist_seek h pos (ll_next n) p (Suc k)"
  by (simp_all add: llist_seek.simps)

lemma llist_find_steps [simp]:
  "llist_find h e NULL prev = Some (NULL, prev)"
  "p \<noteq> NULL \<Longrightarrow> h p = Some n \<Longrightarrow>
     llist_find h e p prev =
       (if ll_element n = e then Some (p, prev) else llist_find h e (ll_next n) p)"
  by (simp_all add: llist_find.simps)

lemma llist_nth_loop_steps [simp]:
  "llist_nth_loop h i NULL k = Some NULL"
  "\<not> k < i \<Longrightarrow> llist_nth_loop h i p k = Some p"
  "p \<noteq> NULL \<Longrightarrow> h p = Some n \<Longrightarrow> k < i \<Longrightarrow>
     llist_nth_loop h i p k = llist_nth_loop h i (ll_next n) (Suc k)"
  by (simp_all add: llist_nth_loop.simps)

lemma llist_index_loop_steps [simp]:
  "llist_index_loop h e NULL k = Some (NULL, k)"
  "p \<noteq> NULL \<Longrightarrow> h p = Some n \<Longrightarrow>
     llist_index_loop h e p k =
       (if ll_element n = e then Some (p, k) else llist_index_loop h e (ll_next n) (k + 1))"
  by (simp_all add: llist_index_loop.simps)

lemma llist_length_loop_steps [simp]:
  "llist_length_loop h NULL k = Some k"
  "p \<noteq> NULL \<Longrightarrow> h p = Some n \<Longrightarrow>
     llist_length_loop h p k = llist_length_loop h (ll_next n) (k + 1)"
  by (simp_all add: llist_length_loop.simps)


lemma llist_last_spec:
  "lseg h p ns NULL \<Longrightarrow> llist_last h p prev = Some (if ns = [] then prev else fst (last ns))"
proof (induction ns arbitrary: p prev)
  case Nil
  then show ?case by simp
next
  case (Cons n ns)
  then show ?case
    by (cases n) (auto split: option.splits)
qed

lemma llist_seek_spec:
  "lseg h p ns NULL \<Longrightarrow> k \<le> pos \<Longrightarrow>
     llist_seek h pos p prev k =
       Some (if pos - k < length ns then fst (ns ! (pos - k)) else NULL,
             if pos - k = 0 \<or> ns = [] then prev
             else fst (ns ! (min (pos - k) (length ns) - 1)))"
proof (induction ns arbitrary: p prev k)
  case Nil
  then show ?case by simp
next
  case (Cons n ns)
  obtain a e where n: "n = (a, e)" by (cases n)
  show ?case
  proof (cases "k < pos")
    case False
    with Cons.prems n show ?thesis by simp
  next
    case True
    then obtain d where d: "pos - k = Suc d" "pos - Suc k = d" by (metis Suc_diff_Suc)
    from Cons.prems n obtain m where m: "h a = Some m" "lseg h (ll_next m) ns NULL" "p = a" "a \<noteq> NULL"
      by (auto split: option.splits)
    have "llist_seek h pos p prev k = llist_seek h pos (ll_next m) a (Suc k)"
      using m True by simp
    also have "\<dots> = Some (if d < length ns then fst (ns ! d) else NULL,
             if d = 0 \<or> ns = [] then a else fst (ns ! (min d (length ns) - 1)))"
      using Cons.IH [OF m(2), of "Suc k" a] True d by simp
    finally show ?thesis using d n by (cases d) (auto simp: min_def nth_Cons split: nat.splits)
  qed
qed

lemma llist_find_spec:
  assumes "lseg h p (xs @ (a, e) # ys) NULL" and "e \<notin> snd ` set xs"
  shows "llist_find h e p prev = Some (a, if xs = [] then prev else fst (last xs))"
  using assms
proof (induction xs arbitrary: p prev)
  case Nil
  then show ?case by (auto split: option.splits)
next
  case (Cons n xs)
  then show ?case
    by (cases n) (auto split: option.splits)
qed

lemma llist_find_none:
  "lseg h p ns NULL \<Longrightarrow> e \<notin> snd ` set ns \<Longrightarrow>
     llist_find h e p prev = Some (NULL, if ns = [] then prev else fst (last ns))"
proof (induction ns arbitrary: p prev)
  case Nil
  then show ?case by simp
next
  case (Cons n ns)
  then show ?case
    by (cases n) (auto split: option.splits)
qed

lemma llist_nth_loop_spec:
  "lseg h p ns NULL \<Longrightarrow> k \<le> i \<Longrightarrow>
     llist_nth_loop h i p k = Some (if i - k < length ns then fst (ns ! (i - k)) else NULL)"
proof (induction ns arbitrary: p k)
  case Nil
  then show ?case by simp
next
  case (Cons n ns)
  obtain a e where n: "n = (a, e)" by (cases n)
  show ?case
  proof (cases "k < i")
    case False
    with Cons.prems n show ?thesis by simp
  next
    case True
    then have d: "i - k = Suc (i - Suc k)" by simp
    from Cons.prems n obtain m where m: "h a = Some m" "lseg h (ll_next m) ns NULL" "p = a" "a \<noteq> NULL"
      by (auto split: option.splits)
    show ?thesis
      using m True Cons.IH [OF m(2), of "Suc k"] d n by simp
  qed
qed

lemma lseg_nth:
  "lseg h p ns q \<Longrightarrow> i < length ns \<Longrightarrow>
     \<exists>m. h (fst (ns ! i)) = Some m \<and> ll_element m = snd (ns ! i) \<and> fst (ns ! i) \<noteq> NULL"
proof (induction ns arbitrary: p i)
  case Nil
  then show ?case by simp
next
  case (Cons n ns)
  then show ?case by (cases n; cases i) (auto split: option.splits)
qed

lemma llist_index_loop_spec:
  "lseg h p ns NULL \<Longrightarrow> ns = xs @ (a, e) # ys \<Longrightarrow> e \<notin> snd ` set xs \<Longrightarrow>
     llist_index_loop h e p k = Some (a, k + int (length xs))"
proof (induction xs arbitrary: p k ns)
  case Nil
  then show ?case by (auto split: option.splits)
next
  case (Cons n xs)
  then show ?case
    by (cases n) (auto split: option.splits)
qed

lemma llist_index_loop_none:
  "lseg h p ns NULL \<Longrightarrow> e \<notin> snd ` set ns \<Longrightarrow>
     llist_index_loop h e p k = Some (NULL, k + int (length ns))"
proof (induction ns arbitrary: p k)
  case Nil
  then show ?case by simp
next
  case (Cons n ns)
  then show ?case
    by (cases n) (auto split: option.splits)
qed

lemma llist_length_loop_spec:
  "lseg h p ns NULL \<Longrightarrow> llist_length_loop h p k = Some (k + int (length ns))"
proof (induction ns arbitrary: p k)
  case Nil
  then show ?case by simp
next
  case (Cons n ns)
  then show ?case
    by (cases n) (auto split: option.splits)
qed

section \<open>Operations on well-formed lists\<close>

lemma lseg_unlink:
  assumes "lseg h p (xs @ (b, f) # (a, e) # ys) NULL"
    and "distinct (map fst (xs @ (b, f) # (a, e) # ys))"
  shows "\<exists>h'. llist_unlink h b a = Some h' \<and> lseg h' p (xs @ (b, f) # ys) NULL \<and>
    h' a = None \<and> dom h' = dom h - {a} \<and> (\<forall>c. c \<noteq> a \<and> c \<noteq> b \<longrightarrow> h' c = h c)"
proof -
  from assms(1) obtain n m where
    n: "h b = Some n" "ll_element n = f" "ll_next n = a" "b \<noteq> NULL" and
    m: "h a = Some m" "lseg h (ll_next m) ys NULL" "a \<noteq> NULL" and xs: "lseg h p xs b"
    by (auto simp: heap_simps split: option.splits)
  let ?h = "(h(b \<mapsto> n\<lparr>ll_next := ll_next m\<rparr>))(a := None)"
  have u: "llist_unlink h b a = Some ?h"
    using n m assms(2) by (auto simp: llist_unlink_def kfree_node_def)
  have "lseg ?h p (xs @ (b, f) # ys) NULL"
    using xs m n assms(2) by (auto simp: heap_simps)
  moreover have "dom ?h = dom h - {a}" using n assms(2) by (auto split: if_splits)
  ultimately show ?thesis using u by auto
qed

lemma llist_add_ok:
  assumes "is_llist h l ns" and "new \<noteq> NULL" and "new \<notin> dom h"
  shows "\<exists>l' h'. llist_add h l e new = Some (1, l', h') \<and> is_llist h' l' (ns @ [(new, e)]) \<and>
    dom h' = insert new (dom h) \<and> (\<forall>c. c \<noteq> new \<and> c \<notin> fst ` set ns \<longrightarrow> h' c = h c)"
proof (cases "l = NULL")
  case True
  with assms show ?thesis by (auto simp: is_llist_def llist_add_def)
next
  case False
  from assms(1) have seg: "lseg h l ns NULL" and d: "distinct (map fst ns)"
    by (auto simp: is_llist_def)
  have fresh: "new \<notin> fst ` set ns" using lseg_in_heap [OF seg] assms(3) by auto
  let ?h1 = "h(new \<mapsto> \<lparr>ll_element = e, ll_next = NULL\<rparr>)"
  obtain xs a f where ns: "ns = xs @ [(a, f)]"
    using False seg by (cases ns rule: rev_cases) auto
  have seg1: "lseg ?h1 l ns NULL" using seg fresh by (simp add: heap_simps)
  then obtain n where n: "?h1 a = Some n" "ll_element n = f" "a \<noteq> NULL" "lseg ?h1 l xs a" "a \<in> dom h"
    using ns fresh by (auto simp: heap_simps split: option.splits)
  let ?h2 = "?h1(a \<mapsto> n\<lparr>ll_next := new\<rparr>)"
  have "llist_add h l e new = Some (1, l, ?h2)"
    using False assms(2) llist_last_spec [OF seg1, of l] ns n by (simp add: llist_add_def)
  moreover have "lseg ?h2 l (ns @ [(new, e)]) NULL"
    using n ns fresh assms(2) d by (auto simp: heap_simps)
  moreover have "dom ?h2 = insert new (dom h)" using n by auto
  ultimately show ?thesis using d fresh ns by (auto simp: is_llist_def)
qed

lemma llist_remove_ok:
  assumes "is_llist h l ns"
  shows "\<exists>l' h'. llist_remove h l e = Some (if e \<in> snd ` set ns then 1 else 0, l', h') \<and>
    is_llist h' l' (remove_node e ns) \<and>
    dom h' = dom h - (fst ` set ns - fst ` set (remove_node e ns)) \<and>
    (\<forall>c. c \<notin> fst ` set ns \<longrightarrow> h' c = h c)"
proof -
  from assms have seg: "lseg h l ns NULL" and d: "distinct (map fst ns)"
    by (auto simp: is_llist_def)
  show ?thesis
  proof (cases "e \<in> snd ` set ns")
    case False
    then have rn: "remove_node e ns = ns" by (rule remove_node_notin)
    have "llist_remove h l e = Some (0, l, h)"
    proof (cases ns)
      case Nil
      with seg show ?thesis by (simp add: llist_remove_def)
    next
      case (Cons n ms)
      with seg False show ?thesis
        using llist_find_none [OF seg False, of l]
        by (cases n) (auto simp: llist_remove_def split: option.splits)
    qed
    with False rn assms show ?thesis by simp
  next
    case True
    from split_first_node [OF True] obtain xs a ys
      where ns: "ns = xs @ (a, e) # ys" and e: "e \<notin> snd ` set xs" by blast
    have rn: "remove_node e ns = xs @ ys" using remove_node_split [OF e] ns by simp
    show ?thesis
    proof (cases xs rule: rev_cases)
      case Nil
      with seg ns obtain n where n: "h a = Some n" "ll_element n = e" "l = a" "a \<noteq> NULL"
        "lseg h (ll_next n) ys NULL" by (auto split: option.splits)
      then have "llist_remove h l e = Some (1, ll_next n, h(a := None))"
        by (simp add: llist_remove_def kfree_node_def)
      moreover have "is_llist (h(a := None)) (ll_next n) ys"
        using n d ns Nil by (simp add: is_llist_def heap_simps)
      ultimately show ?thesis using True rn Nil ns d by (auto simp: is_llist_def)
    next
      case (snoc zs b)
      obtain bb f where b: "b = (bb, f)" by (cases b)
      have seg': "lseg h l (zs @ (bb, f) # (a, e) # ys) NULL" using seg ns snoc b by simp
      have d': "distinct (map fst (zs @ (bb, f) # (a, e) # ys))" using d ns snoc b by simp
      from lseg_unlink [OF seg' d'] obtain h' where u: "llist_unlink h bb a = Some h'"
        "lseg h' l (zs @ (bb, f) # ys) NULL" "dom h' = dom h - {a}"
        "\<forall>c. c \<noteq> a \<and> c \<noteq> bb \<longrightarrow> h' c = h c" by blast
      from lseg_nth [OF seg', of 0] seg' e snoc b obtain n0 where
        n0: "h l = Some n0" "ll_element n0 \<noteq> e" "l \<noteq> NULL"
        by (cases zs) (auto split: option.splits)
      have bb: "bb \<noteq> NULL" "a \<noteq> NULL" using lseg_in_heap [OF seg'] by auto
      have f: "llist_find h e l l = Some (a, bb)"
        using llist_find_spec [of h l xs a e ys l] seg ns e snoc b by simp
      have "llist_remove h l e = Some (1, l, h')"
        using n0 bb f u by (simp add: llist_remove_def)
      moreover have "is_llist h' l (remove_node e ns)"
        using u d' rn snoc b by (auto simp: is_llist_def)
      moreover have "dom h' = dom h - (fst ` set ns - fst ` set (remove_node e ns))"
        using u(3) d' ns snoc b rn by auto
      moreover have "\<forall>c. c \<notin> fst ` set ns \<longrightarrow> h' c = h c" using u(4) ns snoc b by auto
      ultimately show ?thesis using True by auto
    qed
  qed
qed

lemma llist_nth_ok:
  "is_llist h l ns \<Longrightarrow> llist_nth h l i = Some (if i < length ns then snd (ns ! i) else NULL)"
  using lseg_nth [of h l ns NULL i] by (auto simp: is_llist_def llist_nth_def llist_nth_loop_spec)

lemma llist_index_ok:
  assumes "is_llist h l ns"
  shows "llist_index h l e = Some (first_index e (map snd ns))"
proof (cases "e \<in> snd ` set ns")
  case False
  with assms llist_index_loop_none [of h l ns e 0] show ?thesis
    by (cases ns) (auto simp: is_llist_def llist_index_def first_index_def split: option.splits)
next
  case True
  from split_first_node [OF True] obtain xs a ys
    where ns: "ns = xs @ (a, e) # ys" and e: "e \<notin> snd ` set xs" by blast
  from assms have seg: "lseg h l ns NULL" by (simp add: is_llist_def)
  have fi: "first_index e (map snd ns) = int (length xs)"
    using first_index_split [of e "map snd xs" "map snd ys"] e ns by simp
  show ?thesis
  proof (cases xs)
    case Nil
    with seg ns fi show ?thesis by (auto simp: llist_index_def split: option.splits)
  next
    case (Cons x zs)
    with seg ns e fi llist_index_loop_spec [OF seg ns e, of 0] lseg_in_heap [OF seg] show ?thesis
      by (cases x) (auto simp: llist_index_def split: option.splits)
  qed
qed

lemma llist_length_ok: "is_llist h l ns \<Longrightarrow> llist_length h l = Some (int (length ns))"
  using llist_length_loop_spec [of h l ns 0] by (simp add: is_llist_def llist_length_def)

lemma is_llist_live: "is_llist h l ns \<Longrightarrow> fst ` set ns \<subseteq> dom h"
  using lseg_in_heap [of h l ns NULL] by (auto simp: is_llist_def)

lemma is_llist_cong:
  "is_llist h l ns \<Longrightarrow> \<forall>c \<in> fst ` set ns. h' c = h c \<Longrightarrow> is_llist h' l ns"
proof -
  have "lseg h p ms q \<Longrightarrow> \<forall>c \<in> fst ` set ms. h' c = h c \<Longrightarrow> lseg h' p ms q" for p q ms
    by (induction ms arbitrary: p) (auto split: option.splits)
  then show "is_llist h l ns \<Longrightarrow> \<forall>c \<in> fst ` set ns. h' c = h c \<Longrightarrow> is_llist h' l ns"
    by (simp add: is_llist_def)
qed

interpretation sll: ptr_list is_llist dom llist_add llist_index llist_length llist_remove llist_nth
proof unfold_locales
  fix h :: lheap and l new e r l' h' m ns ms
  assume pre: "is_llist h l ns" "new \<noteq> NULL" "new \<notin> dom h"
    and a: "llist_add h l e new = Some (r, l', h')" and ms: "is_llist h m ms"
    and dj: "fst ` set ms \<inter> fst ` set ns = {}"
  from llist_add_ok [OF pre, of e] obtain l1 h1
    where a1: "llist_add h l e new = Some (1, l1, h1)"
      and fr: "\<forall>c. c \<noteq> new \<and> c \<notin> fst ` set ns \<longrightarrow> h1 c = h c" by blast
  have "h1 = h'" using a a1 by simp
  with fr have "\<forall>c. c \<noteq> new \<and> c \<notin> fst ` set ns \<longrightarrow> h' c = h c" by blast
  moreover have "fst ` set ms \<subseteq> dom h" using ms by (rule is_llist_live)
  moreover have "new \<notin> fst ` set ms" "\<And>c. c \<in> fst ` set ms \<Longrightarrow> c \<notin> fst ` set ns"
    using calculation(2) pre(3) dj by blast+
  ultimately have "\<forall>c \<in> fst ` set ms. h' c = h c" by metis
  with ms show "is_llist h' m ms" by (rule is_llist_cong)
next
  fix h l ns
  assume "is_llist h l ns"
  then show "fst ` set ns \<subseteq> dom h" by (rule is_llist_live)
next
  fix h l new e ns
  assume "is_llist h l ns" "new \<noteq> NULL" "new \<notin> dom h"
  from llist_add_ok [OF this, of e]
  show "\<exists>l' h'. llist_add h l e new = Some (1, l', h') \<and> is_llist h' l' (ns @ [(new, e)]) \<and>
    dom h' = insert new (dom h)" by blast
next
  fix h l e ns
  assume "is_llist h l ns"
  from llist_remove_ok [OF this, of e]
  show "\<exists>l' h'. llist_remove h l e = Some (if e \<in> snd ` set ns then 1 else 0, l', h') \<and>
    is_llist h' l' (remove_node e ns) \<and>
    dom h' = dom h - (fst ` set ns - fst ` set (remove_node e ns))" by blast
qed (simp_all add: is_llist_def [of _ NULL "[]"] llist_add_def [of _ _ _ NULL] llist_index_ok llist_length_ok
    llist_nth_ok)

lemma llist_remove_nth_ok:
  assumes "is_llist h l ns" and "i < length ns"
  shows "\<exists>l' h'. llist_remove_nth h l i = Some (1, l', h') \<and>
    is_llist h' l' (take i ns @ drop (Suc i) ns) \<and> dom h' = dom h - {fst (ns ! i)}"
proof -
  from assms(1) have seg: "lseg h l ns NULL" and d: "distinct (map fst ns)"
    by (auto simp: is_llist_def)
  obtain a e where ae: "ns ! i = (a, e)" by (cases "ns ! i")
  define xs ys where "xs = take i ns" and "ys = drop (Suc i) ns"
  have ns: "ns = xs @ (a, e) # ys"
    using id_take_nth_drop [OF assms(2)] ae by (simp add: xs_def ys_def)
  have len: "length xs = i" using assms(2) by (simp add: xs_def)
  show ?thesis
  proof (cases "i = 0")
    case True
    with ns len seg obtain n where "h a = Some n" "l = a" "a \<noteq> NULL" "lseg h (ll_next n) ys NULL"
      by (auto split: option.splits)
    moreover have "a \<notin> fst ` set ys" "distinct (map fst ys)" using d ns by auto
    ultimately have "llist_remove_nth h l i = Some (1, ll_next n, h(a := None))"
      "is_llist (h(a := None)) (ll_next n) ys"
      using True by (simp_all add: llist_remove_nth_def kfree_node_def is_llist_def heap_simps)
    with True ae show ?thesis by (simp add: ys_def)
  next
    case False
    with len obtain zs b f where xs: "xs = zs @ [(b, f)]"
      by (cases xs rule: rev_cases) auto
    have seg': "lseg h l (zs @ (b, f) # (a, e) # ys) NULL" using seg ns xs by simp
    have d': "distinct (map fst (zs @ (b, f) # (a, e) # ys))" using d ns xs by simp
    from lseg_unlink [OF seg' d'] obtain h' where u: "llist_unlink h b a = Some h'"
      "lseg h' l (zs @ (b, f) # ys) NULL" "dom h' = dom h - {a}" by blast
    have "ns ! (i - 1) = (b, f)" using len xs ns by (auto simp: nth_append)
    then have s: "llist_seek h i l l 0 = Some (a, b)"
      using llist_seek_spec [OF seg, of 0 i l] False assms(2) ae by (auto simp: min_def)
    have nz: "a \<noteq> NULL" "b \<noteq> NULL" using lseg_in_heap [OF seg'] by auto
    have "llist_remove_nth h l i = Some (1, l, h')"
      using s nz u(1) False by (simp add: llist_remove_nth_def)
    moreover have "is_llist h' l (xs @ ys)" using u(2) d' xs by (simp add: is_llist_def)
    ultimately show ?thesis using u(3) ae by (simp add: xs_def ys_def)
  qed
qed

section \<open>Properties\<close>

text \<open>A store with a two-node list, on which the properties are tried.\<close>

definition chain2 :: lheap where
  "chain2 = [16 \<mapsto> \<lparr>ll_element = 101, ll_next = 32\<rparr>, 32 \<mapsto> \<lparr>ll_element = 102, ll_next = NULL\<rparr>]"

abbreviation chain2_nodes :: "(ptr \<times> ptr) list" where
  "chain2_nodes \<equiv> [(16, 101), (32, 102)]"

lemma chain2_ok: "is_llist chain2 16 chain2_nodes" "48 \<notin> dom chain2" "dom chain2 = {16, 32}"
  by (auto simp: is_llist_def chain2_def)

text \<open>\<open>llist_add\<close> refines appending to a sequence: when \<open>kmalloc\<close> returned a fresh node it
  returns 1 and the list then holds the old elements followed by the new one; nodes of other
  lists keep their contents.\<close>

theorem llist_add_appends:
  assumes "is_llist h l ns" and "new \<noteq> NULL" and "new \<notin> dom h"
  shows "\<exists>l' h'. llist_add h l e new = Some (1, l', h') \<and> is_llist h' l' (ns @ [(new, e)]) \<and>
    (\<forall>c. c \<noteq> new \<and> c \<notin> fst ` set ns \<longrightarrow> h' c = h c)"
  using llist_add_ok [OF assms, of e] by blast

theorem llist_add_appends_witness:
  "\<exists>l' h'. llist_add chain2 16 103 48 = Some (1, l', h') \<and>
    is_llist h' l' (chain2_nodes @ [(48, 103)])"
  using llist_add_appends [OF chain2_ok(1), of 48 103] chain2_ok(2) by auto

text \<open>C17: \<open>llist_remove\<close> refines the removal of the first occurrence: it returns 1 exactly when
  the element occurs, the remaining elements keep their order, and only the removed node is
  freed.\<close>

theorem llist_remove_removes_first:
  assumes "is_llist h l ns"
  shows "\<exists>l' h' ns'. llist_remove h l e = Some (if e \<in> set (map snd ns) then 1 else 0, l', h') \<and>
    is_llist h' l' ns' \<and> map snd ns' = remove1 e (map snd ns) \<and>
    dom h' = dom h - (fst ` set ns - fst ` set ns')"
proof -
  from llist_remove_ok [OF assms, of e] obtain l' h' where
    "llist_remove h l e = Some (if e \<in> snd ` set ns then 1 else 0, l', h')"
    "is_llist h' l' (remove_node e ns)"
    "dom h' = dom h - (fst ` set ns - fst ` set (remove_node e ns))" by blast
  then show ?thesis
    by (intro exI [of _ l'] exI [of _ h'] exI [of _ "remove_node e ns"])
      (simp add: remove_node_elements)
qed

theorem llist_remove_removes_first_witness:
  "\<exists>l' h' a. llist_remove chain2 16 102 = Some (1, l', h') \<and> is_llist h' l' [(a, 101)]"
  using llist_remove_removes_first [OF chain2_ok(1), of 102] by auto

text \<open>Insertions from the empty list are read back in order: after adding a sequence of
  elements, \<open>llist_nth\<close> at position \<open>i\<close> returns the \<open>i\<close>-th of them.\<close>

theorem llist_build_nth:
  assumes "distinct (map snd es)" and "NULL \<notin> snd ` set es" and "snd ` set es \<inter> dom h = {}"
    and "i < length es"
  shows "\<exists>l' h'. add_all llist_add h NULL es = Some (l', h') \<and>
    llist_nth h' l' i = Some (fst (es ! i))"
  using sll.add_all_nth [OF sll.rep_empty assms] by simp

theorem llist_build_nth_witness:
  "\<exists>l' h'. add_all llist_add chain2 NULL [(7, 48), (8, 64), (9, 80)] = Some (l', h') \<and>
    llist_nth h' l' 2 = Some 9"
  using llist_build_nth [of "[(7, 48), (8, 64), (9, 80)]" chain2 2] chain2_ok(3) by auto

text \<open>\<open>llist_remove\<close> undoes \<open>llist_add\<close> of an element that was not in the list: the same
  nodes are linked as before and the store holds the same live nodes (no leak).\<close>

theorem llist_add_remove_roundtrip:
  assumes "is_llist h l ns" and "new \<noteq> NULL" and "new \<notin> dom h" and "e \<notin> snd ` set ns"
  shows "\<exists>l1 h1 l2 h2. llist_add h l e new = Some (1, l1, h1) \<and>
    llist_remove h1 l1 e = Some (1, l2, h2) \<and> is_llist h2 l2 ns \<and> dom h2 = dom h"
  by (rule sll.add_remove [OF assms])

theorem llist_add_remove_roundtrip_witness:
  "\<exists>l1 h1 l2 h2. llist_add chain2 16 103 48 = Some (1, l1, h1) \<and>
    llist_remove h1 l1 103 = Some (1, l2, h2) \<and> is_llist h2 l2 chain2_nodes \<and> dom h2 = dom chain2"
  using llist_add_remove_roundtrip [OF chain2_ok(1), of 48 103] chain2_ok(2) by auto

text \<open>\<open>llist_remove_nth\<close> at a valid position unlinks and frees exactly that node.\<close>

theorem llist_remove_nth_removes:
  assumes "is_llist h l ns" and "i < length ns"
  shows "\<exists>l' h'. llist_remove_nth h l i = Some (1, l', h') \<and>
    is_llist h' l' (take i ns @ drop (Suc i) ns) \<and> dom h' = dom h - {fst (ns ! i)}"
  by (rule llist_remove_nth_ok [OF assms])

theorem llist_remove_nth_removes_witness:
  "\<exists>l' h'. llist_remove_nth chain2 16 1 = Some (1, l', h') \<and> is_llist h' l' [(16, 101)]"
  using llist_remove_nth_removes [OF chain2_ok(1), of 1] by auto

text \<open>\<open>llist_destroy\<close> never completes on a non-empty list: it reads \<open>aux->next\<close> of a node it
  has just freed, and for a single node it frees \<open>NULL\<close>.\<close>

theorem llist_destroy_uses_freed_node:
  assumes "is_llist h l ns" and "ns \<noteq> []" and "h NULL = None"
  shows "llist_destroy h l = None"
proof -
  from assms(2) obtain a e ms where ns: "ns = (a, e) # ms" by (cases ns) auto
  with assms(1) obtain n where n: "l = a" "a \<noteq> NULL" "h a = Some n"
    by (auto simp: is_llist_def split: option.splits)
  have "do { h1 \<leftarrow> llist_free_all h (ll_next n); kfree_node h1 (ll_next n) } = None"
  proof (cases "ll_next n = NULL")
    case True
    with assms(3) show ?thesis by (simp add: llist_free_all.simps kfree_node_def)
  next
    case False
    then show ?thesis by (auto simp: llist_free_all.simps kfree_node_def split: option.splits)
  qed
  with n show ?thesis
    by (cases "llist_free_all h (ll_next n)") (auto simp: llist_destroy_def)
qed

theorem llist_destroy_uses_freed_node_witness: "llist_destroy chain2 16 = None"
  using llist_destroy_uses_freed_node [OF chain2_ok(1)] by (simp add: chain2_def)

end
