(* ===== verification/Circular_List.thy ===== *)
theory Circular_List
  imports List_Interface
begin

text \<open>
  The circular doubly linked list of \<^verbatim>\<open>kernel/lib/clinkedl.c\<close>, which holds the
  scheduler's tasks. As in \<open>Linked_List\<close>, nodes live in a typed store and the pointer
  \<open>kmalloc\<close> returned is an argument of the insertion.
\<close>

section \<open>Model\<close>

record c_llist =
  cl_element :: ptr
  cl_prev :: ptr
  cl_next :: ptr

type_synonym cheap = "ptr \<rightharpoonup> c_llist"

definition set_next :: "cheap \<Rightarrow> ptr \<Rightarrow> ptr \<Rightarrow> cheap option" where
  "set_next h p v = do { n \<leftarrow> h p; Some (h(p \<mapsto> n\<lparr>cl_next := v\<rparr>)) }"

definition set_prev :: "cheap \<Rightarrow> ptr \<Rightarrow> ptr \<Rightarrow> cheap option" where
  "set_prev h p v = do { n \<leftarrow> h p; Some (h(p \<mapsto> n\<lparr>cl_prev := v\<rparr>)) }"

definition kfree_cnode :: "cheap \<Rightarrow> ptr \<Rightarrow> cheap option" where
  "kfree_cnode h p = (case h p of None \<Rightarrow> None | Some _ \<Rightarrow> Some (h(p := None)))"

definition c_llist_create :: "int \<times> ptr" where
  "c_llist_create = (1, NULL)"

partial_function (option) c_llist_free_all :: "cheap \<Rightarrow> ptr \<Rightarrow> cheap option" where
  "c_llist_free_all h tmp =
     (if tmp \<noteq> NULL then do {
        n \<leftarrow> h tmp;
        h' \<leftarrow> kfree_cnode h tmp;
        c_llist_free_all h' (cl_next n)
      } else Some h)"

definition c_llist_destroy :: "cheap \<Rightarrow> ptr \<Rightarrow> (int \<times> ptr \<times> cheap) option" where
  "c_llist_destroy h head =
     (if head = NULL then Some (1, head, h)
      else do {
        n \<leftarrow> h head;
        h1 \<leftarrow> set_next h (cl_prev n) NULL;
        h2 \<leftarrow> c_llist_free_all h1 head;
        Some (1, head, h2)
      })"

definition c_llist_add :: "cheap \<Rightarrow> ptr \<Rightarrow> ptr \<Rightarrow> ptr \<Rightarrow> (int \<times> ptr \<times> cheap) option" where
  "c_llist_add h head element new =
     (if new = NULL then Some (0, head, h)
      else if head = NULL then
        Some (1, new, h(new \<mapsto> \<lparr>cl_element = element, cl_prev = new, cl_next = new\<rparr>))
      else do {
        let h0 = h(new \<mapsto> \<lparr>cl_element = element, cl_prev = NULL, cl_next = NULL\<rparr>);
        hd_node \<leftarrow> h0 head;
        let last = cl_prev hd_node;
        h1 \<leftarrow> set_next h0 last new;
        h2 \<leftarrow> set_next h1 new head;
        h3 \<leftarrow> set_prev h2 new last;
        h4 \<leftarrow> set_prev h3 head new;
        Some (1, head, h4)
      })"

text \<open>\<^verbatim>\<open>aux1 = t->next; aux2 = t->prev; aux1->prev = aux2; aux2->next = aux1\<close>; yields \<open>aux1\<close> too.\<close>

definition c_llist_unlink :: "cheap \<Rightarrow> ptr \<Rightarrow> (ptr \<times> cheap) option" where
  "c_llist_unlink h t = do {
     n \<leftarrow> h t;
     h1 \<leftarrow> set_prev h (cl_next n) (cl_prev n);
     h2 \<leftarrow> set_next h1 (cl_prev n) (cl_next n);
     Some (cl_next n, h2)
   }"

partial_function (option) c_llist_seek :: "cheap \<Rightarrow> ptr \<Rightarrow> nat \<Rightarrow> ptr \<Rightarrow> nat \<Rightarrow> (ptr \<times> nat) option" where
  "c_llist_seek h head pos tmp p =
     (if tmp \<noteq> head \<and> p < pos
      then do { n \<leftarrow> h tmp; c_llist_seek h head pos (cl_next n) (p + 1) }
      else Some (tmp, p))"

definition c_llist_remove_nth :: "cheap \<Rightarrow> ptr \<Rightarrow> nat \<Rightarrow> (int \<times> ptr \<times> cheap) option" where
  "c_llist_remove_nth h head pos =
     (if head = NULL then Some (0, head, h)
      else if pos = 0 then do {
        (aux1, h2) \<leftarrow> c_llist_unlink h head;
        Some (1, aux1, h2)
      } else do {
        hd_node \<leftarrow> h head;
        (tmp0, p) \<leftarrow> c_llist_seek h head pos (cl_next hd_node) 0;
        t0 \<leftarrow> h tmp0;
        let tmp = cl_prev t0;
        if tmp \<noteq> head then do {
          (aux1, h2) \<leftarrow> c_llist_unlink h tmp;
          h3 \<leftarrow> kfree_cnode h2 tmp;
          Some (1, head, h3)
        } else Some (0, head, h)
      })"

partial_function (option) c_llist_find :: "cheap \<Rightarrow> ptr \<Rightarrow> ptr \<Rightarrow> ptr \<Rightarrow> int \<Rightarrow> (ptr \<times> int) option" where
  "c_llist_find h head element tmp p =
     (if tmp \<noteq> head then do {
        n \<leftarrow> h tmp;
        if cl_element n = element then Some (tmp, p)
        else c_llist_find h head element (cl_next n) (p + 1)
      } else Some (tmp, p))"

definition c_llist_remove :: "cheap \<Rightarrow> ptr \<Rightarrow> ptr \<Rightarrow> (int \<times> ptr \<times> cheap) option" where
  "c_llist_remove h head element =
     (if head = NULL then Some (0, head, h)
      else do {
        hd_node \<leftarrow> h head;
        if cl_element hd_node = element then do {
          (aux1, h2) \<leftarrow> c_llist_unlink h head;
          h3 \<leftarrow> kfree_cnode h2 head;
          Some (1, aux1, h3)
        } else do {
          (tmp, p) \<leftarrow> c_llist_find h head element (cl_next hd_node) 1;
          if tmp \<noteq> head then do {
            (aux1, h2) \<leftarrow> c_llist_unlink h tmp;
            h3 \<leftarrow> kfree_cnode h2 tmp;
            Some (1, head, h3)
          } else Some (0, head, h)
        }
      })"

definition c_llist_nth :: "cheap \<Rightarrow> ptr \<Rightarrow> nat \<Rightarrow> ptr option" where
  "c_llist_nth h head index =
     (if head = NULL then Some NULL
      else do {
        hd_node \<leftarrow> h head;
        if index = 0 then Some (cl_element hd_node)
        else do {
          (tmp, p) \<leftarrow> c_llist_seek h head index (cl_next hd_node) 0;
          if p = index then do { n \<leftarrow> h tmp; Some (cl_element n) } else Some NULL
        }
      })"

definition c_llist_index :: "cheap \<Rightarrow> ptr \<Rightarrow> ptr \<Rightarrow> int option" where
  "c_llist_index h list element =
     (if list = NULL then Some (-1)
      else do {
        hd_node \<leftarrow> h list;
        if cl_element hd_node = element then Some 0
        else do {
          (tmp, p) \<leftarrow> c_llist_find h list element (cl_next hd_node) 1;
          if tmp \<noteq> list then Some p else Some (-1)
        }
      })"

partial_function (option) c_llist_count :: "cheap \<Rightarrow> ptr \<Rightarrow> ptr \<Rightarrow> int \<Rightarrow> int option" where
  "c_llist_count h head tmp sz =
     (if tmp \<noteq> head then do { n \<leftarrow> h tmp; c_llist_count h head (cl_next n) (sz + 1) }
      else Some sz)"

definition c_llist_length :: "cheap \<Rightarrow> ptr \<Rightarrow> int option" where
  "c_llist_length h head =
     (if head = NULL then Some 0
      else do { n \<leftarrow> h head; c_llist_count h head (cl_next n) 1 })"

section \<open>Well-formed circular lists\<close>

text \<open>
  \<open>dseg h pv p ns nx lp\<close>: from \<open>p\<close> the nodes \<open>ns\<close> are linked both ways, the first one's
  \<open>prev\<close> is \<open>pv\<close>, the last one's \<open>next\<close> is \<open>nx\<close>, and \<open>lp\<close> is the last node
  (\<open>pv\<close> for no nodes).
\<close>

fun dseg :: "cheap \<Rightarrow> ptr \<Rightarrow> ptr \<Rightarrow> (ptr \<times> ptr) list \<Rightarrow> ptr \<Rightarrow> ptr \<Rightarrow> bool" where
  "dseg h pv p [] nx lp = (p = nx \<and> pv = lp)"
| "dseg h pv p ((a, e) # ns) nx lp =
     (p = a \<and> a \<noteq> NULL \<and>
      (case h a of None \<Rightarrow> False
       | Some n \<Rightarrow> cl_element n = e \<and> cl_prev n = pv \<and> dseg h a (cl_next n) ns nx lp))"

definition is_cllist :: "cheap \<Rightarrow> ptr \<Rightarrow> (ptr \<times> ptr) list \<Rightarrow> bool" where
  "is_cllist h l ns =
     (if ns = [] then l = NULL
      else distinct (map fst ns) \<and> dseg h (fst (last ns)) l ns l (fst (last ns)))"

lemma dseg_append [heap_simps]:
  "dseg h pv p (xs @ ys) nx lp = (\<exists>r q. dseg h pv p xs r q \<and> dseg h q r ys nx lp)"
proof (induction xs arbitrary: p pv)
  case Nil
  then show ?case by simp
next
  case (Cons n xs)
  obtain a e where "n = (a, e)" by (cases n)
  with Cons.IH show ?case by (cases "h a") auto
qed

lemma dseg_update_notin [heap_simps]:
  "a \<notin> fst ` set ns \<Longrightarrow> dseg (h(a := v)) pv p ns nx lp = dseg h pv p ns nx lp"
  by (induction ns arbitrary: p pv) (auto split: option.splits)

lemma dseg_in_heap: "dseg h pv p ns nx lp \<Longrightarrow> fst ` set ns \<subseteq> dom h - {NULL}"
  by (induction ns arbitrary: p pv) (fastforce split: option.splits)+

lemma dseg_last: "dseg h pv p ns nx lp \<Longrightarrow> lp = (if ns = [] then pv else fst (last ns))"
  by (induction ns arbitrary: p pv) (auto split: option.splits)

lemma dseg_first: "dseg h pv p ns nx lp \<Longrightarrow> p = (if ns = [] then nx else fst (hd ns))"
  by (cases ns) auto

lemma dseg_set_next:
  assumes "dseg h pv p ns nx lp" and "ns \<noteq> []" and "distinct (map fst ns)"
  shows "\<exists>h'. set_next h lp v = Some h' \<and> dseg h' pv p ns v lp \<and> dom h' = dom h \<and>
    (\<forall>c. c \<noteq> lp \<longrightarrow> h' c = h c)"
proof -
  obtain xs a e where ns: "ns = xs @ [(a, e)]"
    using assms(2) by (cases ns rule: rev_cases) auto
  with assms(1) obtain n q where n: "h a = Some n" "cl_element n = e" "a \<noteq> NULL" "lp = a"
    "dseg h pv p xs a q" "cl_prev n = q"
    by (auto simp: heap_simps split: option.splits)
  let ?h = "h(a \<mapsto> n\<lparr>cl_next := v\<rparr>)"
  have "dseg ?h pv p ns v lp" using n ns assms(3) by (auto simp: heap_simps)
  moreover have "set_next h lp v = Some ?h" "dom ?h = dom h" using n by (auto simp: set_next_def)
  ultimately show ?thesis using n(4) by auto
qed

lemma dseg_set_prev:
  assumes "dseg h pv p ns nx lp" and "ns \<noteq> []" and "distinct (map fst ns)"
  shows "\<exists>h'. set_prev h p v = Some h' \<and> dseg h' v p ns nx lp \<and> dom h' = dom h \<and>
    (\<forall>c. c \<noteq> p \<longrightarrow> h' c = h c)"
proof -
  obtain a e xs where ns: "ns = (a, e) # xs" using assms(2) by (cases ns) auto
  with assms(1) obtain n where n: "h a = Some n" "cl_element n = e" "a \<noteq> NULL" "p = a"
    "dseg h a (cl_next n) xs nx lp"
    by (auto split: option.splits)
  let ?h = "h(a \<mapsto> n\<lparr>cl_prev := v\<rparr>)"
  have "dseg ?h v p ns nx lp" using n ns assms(3) by (auto simp: heap_simps)
  moreover have "set_prev h p v = Some ?h" "dom ?h = dom h" using n by (auto simp: set_prev_def)
  ultimately show ?thesis using n(4) by auto
qed

lemma dseg_cong:
  "dseg h pv p ns nx lp \<Longrightarrow> (\<And>c. c \<in> fst ` set ns \<Longrightarrow> h' c = h c) \<Longrightarrow> dseg h' pv p ns nx lp"
  by (induction ns arbitrary: p pv) (auto split: option.splits)

section \<open>The loops\<close>

lemma c_llist_seek_steps [simp]:
  "c_llist_seek h head pos head k = Some (head, k)"
  "\<not> k < pos \<Longrightarrow> c_llist_seek h head pos p k = Some (p, k)"
  "p \<noteq> head \<Longrightarrow> h p = Some n \<Longrightarrow> k < pos \<Longrightarrow>
     c_llist_seek h head pos p k = c_llist_seek h head pos (cl_next n) (Suc k)"
  by (simp_all add: c_llist_seek.simps)

lemma c_llist_find_steps [simp]:
  "c_llist_find h head e head k = Some (head, k)"
  "p \<noteq> head \<Longrightarrow> h p = Some n \<Longrightarrow> c_llist_find h head e p k =
     (if cl_element n = e then Some (p, k) else c_llist_find h head e (cl_next n) (k + 1))"
  by (simp_all add: c_llist_find.simps)

lemma c_llist_count_steps [simp]:
  "c_llist_count h head head k = Some k"
  "p \<noteq> head \<Longrightarrow> h p = Some n \<Longrightarrow>
     c_llist_count h head p k = c_llist_count h head (cl_next n) (k + 1)"
  by (simp_all add: c_llist_count.simps)

lemma c_llist_free_all_steps [simp]:
  "c_llist_free_all h NULL = Some h"
  "p \<noteq> NULL \<Longrightarrow> h p = Some n \<Longrightarrow> c_llist_free_all h p = c_llist_free_all (h(p := None)) (cl_next n)"
  by (simp_all add: c_llist_free_all.simps kfree_cnode_def)

lemma c_llist_seek_spec:
  assumes "dseg h pv p ns l lp" and "l \<notin> fst ` set ns" and "k \<le> pos"
  shows "c_llist_seek h l pos p k =
    Some (if pos - k < length ns then fst (ns ! (pos - k)) else l, min pos (k + length ns))"
  using assms
proof (induction ns arbitrary: p pv k)
  case Nil
  then show ?case by (simp add: min_def)
next
  case (Cons n ns)
  obtain a e where n: "n = (a, e)" by (cases n)
  from Cons.prems n obtain m where m: "h a = Some m" "dseg h a (cl_next m) ns l lp" "p = a" "a \<noteq> l"
    by (auto split: option.splits)
  show ?case
  proof (cases "k < pos")
    case False
    with Cons.prems n m show ?thesis by (simp add: min_def)
  next
    case True
    then have d: "pos - k = Suc (pos - Suc k)" by simp
    from Cons.IH [OF m(2), of "Suc k"] True Cons.prems
    have "c_llist_seek h l pos (cl_next m) (Suc k) =
      Some (if pos - Suc k < length ns then fst (ns ! (pos - Suc k)) else l,
            min pos (Suc k + length ns))" by simp
    with m True show ?thesis by (simp add: d n)
  qed
qed

lemma c_llist_find_spec:
  "dseg h pv p (xs @ (a, e) # ys) l lp \<Longrightarrow> l \<notin> fst ` set (xs @ (a, e) # ys) \<Longrightarrow>
     e \<notin> snd ` set xs \<Longrightarrow> c_llist_find h l e p k = Some (a, k + int (length xs))"
proof (induction xs arbitrary: p pv k)
  case Nil
  then show ?case by (auto split: option.splits)
next
  case (Cons n xs)
  then show ?case by (cases n) (fastforce split: option.splits)
qed

lemma c_llist_find_none:
  "dseg h pv p ns l lp \<Longrightarrow> l \<notin> fst ` set ns \<Longrightarrow> e \<notin> snd ` set ns \<Longrightarrow>
     c_llist_find h l e p k = Some (l, k + int (length ns))"
proof (induction ns arbitrary: p pv k)
  case Nil
  then show ?case by simp
next
  case (Cons n ns)
  then show ?case by (cases n) (fastforce split: option.splits)
qed

lemma c_llist_count_spec:
  "dseg h pv p ns l lp \<Longrightarrow> l \<notin> fst ` set ns \<Longrightarrow>
     c_llist_count h l p k = Some (k + int (length ns))"
proof (induction ns arbitrary: p pv k)
  case Nil
  then show ?case by simp
next
  case (Cons n ns)
  then show ?case by (cases n) (fastforce split: option.splits)
qed

section \<open>Operations on well-formed lists\<close>

lemma is_cllist_Cons:
  "is_cllist h l ((a, e) # ns) \<Longrightarrow>
     l = a \<and> a \<noteq> NULL \<and> a \<notin> fst ` set ns \<and> distinct (map fst ns) \<and>
     (\<exists>n. h a = Some n \<and> cl_element n = e \<and> cl_prev n = fst (last ((a, e) # ns)) \<and>
       dseg h a (cl_next n) ns a (fst (last ((a, e) # ns))))"
  by (auto simp: is_cllist_def split: option.splits if_splits)

lemma is_cllist_live: "is_cllist h l ns \<Longrightarrow> fst ` set ns \<subseteq> dom h - {NULL}"
  using dseg_in_heap [of h "fst (last ns)" l ns l "fst (last ns)"]
  by (cases "ns = []") (simp_all add: is_cllist_def)

lemma is_cllist_cong:
  "is_cllist h l ns \<Longrightarrow> (\<And>c. c \<in> fst ` set ns \<Longrightarrow> h' c = h c) \<Longrightarrow> is_cllist h' l ns"
  by (auto simp: is_cllist_def intro: dseg_cong split: if_splits)

lemma c_llist_add_ok:
  assumes "is_cllist h l ns" and "new \<noteq> NULL" and "new \<notin> dom h"
  shows "\<exists>l' h'. c_llist_add h l e new = Some (1, l', h') \<and> is_cllist h' l' (ns @ [(new, e)]) \<and>
    dom h' = insert new (dom h) \<and> (\<forall>c. c \<noteq> new \<and> c \<notin> fst ` set ns \<longrightarrow> h' c = h c) \<and>
    (ns \<noteq> [] \<longrightarrow> l' = l)"
proof (cases "ns = []")
  case True
  with assms show ?thesis by (auto simp: is_cllist_def c_llist_add_def)
next
  case False
  define z where "z = fst (last ns)"
  from False assms(1) have seg: "dseg h z l ns l z" and d: "distinct (map fst ns)"
    by (auto simp: is_cllist_def z_def)
  have fresh: "new \<notin> fst ` set ns" using is_cllist_live [OF assms(1)] assms(3) by auto
  let ?h0 = "h(new \<mapsto> \<lparr>cl_element = e, cl_prev = NULL, cl_next = NULL\<rparr>)"
  have seg0: "dseg ?h0 z l ns l z" using seg fresh by (simp add: heap_simps)
  have l: "l \<in> fst ` set ns" "z \<in> fst ` set ns"
    using False dseg_first [OF seg] by (auto simp: z_def)
  from subsetD [OF is_cllist_live [OF assms(1)] l(1)] have l0: "l \<noteq> NULL" by simp
  obtain a f ms where "ns = (a, f) # ms" using False by (cases ns) auto
  with seg0 obtain n where n: "?h0 l = Some n" "cl_prev n = z"
    by (auto simp del: fun_upd_apply split: option.splits)
  from dseg_set_next [OF seg0 False d, of new] obtain h1 where
    h1: "set_next ?h0 z new = Some h1" "dseg h1 z l ns new z" "dom h1 = dom ?h0"
      "\<forall>c. c \<noteq> z \<longrightarrow> h1 c = ?h0 c" by blast
  have z_new: "z \<noteq> new" using l fresh by auto
  then have h1n: "h1 new = Some \<lparr>cl_element = e, cl_prev = NULL, cl_next = NULL\<rparr>" using h1(4) by simp
  define h3 where "h3 = h1(new \<mapsto> \<lparr>cl_element = e, cl_prev = z, cl_next = l\<rparr>)"
  have h3: "do { h2 \<leftarrow> set_next h1 new l; set_prev h2 new z } = Some h3"
    using h1n by (simp add: set_next_def set_prev_def h3_def)
  have seg3: "dseg h3 z l ns new z" using h1(2) fresh by (simp add: h3_def heap_simps)
  from dseg_set_prev [OF seg3 False d, of new] obtain h4 where
    h4: "set_prev h3 l new = Some h4" "dseg h4 new l ns new z" "dom h4 = dom h3"
      "\<forall>c. c \<noteq> l \<longrightarrow> h4 c = h3 c" by blast
  have "h4 new = Some \<lparr>cl_element = e, cl_prev = z, cl_next = l\<rparr>"
    using h4(4) l fresh by (auto simp: h3_def)
  then have "dseg h4 new l (ns @ [(new, e)]) l new"
    using h4(2) assms(2) by (auto simp: heap_simps)
  then have "is_cllist h4 l (ns @ [(new, e)])" using d fresh by (auto simp: is_cllist_def)
  moreover have "c_llist_add h l e new = Some (1, l, h4)"
    using l0 assms(2) n h1(1) h3 h4(1)
    by (cases "set_next h1 new l") (auto simp: c_llist_add_def Let_def)
  moreover have "dom h4 = insert new (dom h)" using h4(3) h1(3) by (auto simp: h3_def)
  moreover have "h4 c = h c" if "c \<noteq> new" "c \<notin> fst ` set ns" for c
  proof -
    from that(2) l have "c \<noteq> l" "c \<noteq> z" by metis+
    with that(1) h4(4) h1(4) show ?thesis by (simp add: h3_def)
  qed
  ultimately show ?thesis by blast
qed

text \<open>Unlinking a node other than the head.\<close>

lemma c_llist_unlink_inner:
  assumes "is_cllist h l (xs @ (a, e) # ys)" and "xs \<noteq> []"
  shows "\<exists>aux h' h''. c_llist_unlink h a = Some (aux, h') \<and> kfree_cnode h' a = Some h'' \<and>
    is_cllist h'' l (xs @ ys) \<and> dom h'' = dom h - {a} \<and> l \<noteq> a"
proof -
  let ?ns = "xs @ (a, e) # ys"
  define z where "z = fst (last ?ns)"
  define b where "b = fst (last xs)"
  from assms(1) have d: "distinct (map fst ?ns)" and seg: "dseg h z l ?ns l z"
    by (auto simp: is_cllist_def z_def)
  then obtain n where n: "h a = Some n" "cl_prev n = b" "a \<noteq> NULL"
    "dseg h z l xs a b" "dseg h a (cl_next n) ys l z"
    using dseg_last assms(2) by (fastforce simp: heap_simps b_def split: option.splits)
  have ab: "a \<notin> fst ` set xs" "a \<notin> fst ` set ys" "distinct (map fst xs)" "distinct (map fst ys)"
    "fst ` set xs \<inter> fst ` set ys = {}" using d by auto
  have lb: "l \<in> fst ` set xs" "b \<in> fst ` set xs"
    using dseg_first [OF n(4)] assms(2) by (auto simp: b_def)
  show ?thesis
  proof (cases "ys = []")
    case True
    with n(5) have cz: "cl_next n = l" "z = a" by auto
    from dseg_set_prev [OF n(4) assms(2) ab(3), of b] obtain h1 where
      h1: "set_prev h l b = Some h1" "dseg h1 b l xs a b" "dom h1 = dom h" by blast
    from dseg_set_next [OF h1(2) assms(2) ab(3), of l] obtain h2 where
      h2: "set_next h1 b l = Some h2" "dseg h2 b l xs l b" "dom h2 = dom h1" by blast
    have "c_llist_unlink h a = Some (l, h2)"
      using n cz h1(1) h2(1) by (simp add: c_llist_unlink_def)
    moreover have "kfree_cnode h2 a = Some (h2(a := None))"
      using n(1) h1(3) h2(3) by (auto simp: kfree_cnode_def split: option.splits)
    moreover have "is_cllist (h2(a := None)) l (xs @ ys)"
      using h2(2) ab assms(2) True by (simp add: is_cllist_def b_def heap_simps)
    ultimately show ?thesis using h1(3) h2(3) lb ab(1) by auto
  next
    case False
    define c where "c = cl_next n"
    have c: "c \<in> fst ` set ys" using dseg_first [OF n(5)] False by (simp add: c_def)
    from dseg_set_prev [OF n(5) False ab(4), of b] obtain h1 where
      h1: "set_prev h c b = Some h1" "dseg h1 b c ys l z" "dom h1 = dom h"
        "\<forall>x. x \<noteq> c \<longrightarrow> h1 x = h x" by (auto simp: c_def)
    have "dseg h1 z l xs a b" by (rule dseg_cong [OF n(4)]) (use h1(4) c ab(5) in auto)
    from dseg_set_next [OF this assms(2) ab(3), of c] obtain h2 where
      h2: "set_next h1 b c = Some h2" "dseg h2 z l xs c b" "dom h2 = dom h1"
        "\<forall>x. x \<noteq> b \<longrightarrow> h2 x = h1 x" by blast
    have "dseg h2 b c ys l z" by (rule dseg_cong [OF h1(2)]) (use h2(4) lb ab(5) in auto)
    with h2(2) have seg2: "dseg h2 z l (xs @ ys) l z" by (auto simp: heap_simps)
    have zl: "z = fst (last (xs @ ys))" using False by (simp add: z_def)
    have "c_llist_unlink h a = Some (c, h2)"
      using n h1(1) h2(1) by (simp add: c_llist_unlink_def c_def)
    moreover have "kfree_cnode h2 a = Some (h2(a := None))"
      using n(1) h1(3) h2(3) by (auto simp: kfree_cnode_def split: option.splits)
    moreover have "is_cllist (h2(a := None)) l (xs @ ys)"
      using seg2 ab zl d False by (auto simp: is_cllist_def heap_simps)
    ultimately show ?thesis using h1(3) h2(3) lb ab(1) by auto
  qed
qed

text \<open>Unlinking the head of a list with at least two nodes.\<close>

lemma c_llist_unlink_head:
  assumes "is_cllist h l ((a, e) # ys)" and "ys \<noteq> []"
  shows "\<exists>aux h' h''. c_llist_unlink h a = Some (aux, h') \<and> kfree_cnode h' a = Some h'' \<and>
    is_cllist h' aux ys \<and> is_cllist h'' aux ys \<and> dom h' = dom h \<and> dom h'' = dom h - {a}"
proof -
  define z where "z = fst (last ys)"
  from is_cllist_Cons [OF assms(1)] assms(2) obtain n where
    a: "l = a" "a \<noteq> NULL" "a \<notin> fst ` set ys" "distinct (map fst ys)" and
    n: "h a = Some n" "cl_prev n = z" "dseg h a (cl_next n) ys a z" by (auto simp: z_def)
  let ?c = "cl_next n"
  from dseg_set_prev [OF n(3) assms(2) a(4), of z] obtain h1 where
    h1: "set_prev h ?c z = Some h1" "dseg h1 z ?c ys a z" "dom h1 = dom h" by blast
  from dseg_set_next [OF h1(2) assms(2) a(4), of ?c] obtain h2 where
    h2: "set_next h1 z ?c = Some h2" "dseg h2 z ?c ys ?c z" "dom h2 = dom h1" by blast
  have u: "c_llist_unlink h a = Some (?c, h2)" using n h1(1) h2(1) by (simp add: c_llist_unlink_def)
  have k: "kfree_cnode h2 a = Some (h2(a := None))"
    using n(1) h1(3) h2(3) by (auto simp: kfree_cnode_def split: option.splits)
  have "is_cllist h2 ?c ys" "is_cllist (h2(a := None)) ?c ys"
    using h2(2) a assms(2) by (auto simp: is_cllist_def z_def heap_simps)
  with u k show ?thesis using h1(3) h2(3) by auto
qed

lemma c_llist_remove_ok:
  assumes "is_cllist h l ns" and "2 \<le> length ns \<or> e \<notin> snd ` set ns"
  shows "\<exists>l' h'. c_llist_remove h l e = Some (if e \<in> snd ` set ns then 1 else 0, l', h') \<and>
    is_cllist h' l' (remove_node e ns) \<and>
    dom h' = dom h - (fst ` set ns - fst ` set (remove_node e ns))"
proof (cases "e \<in> snd ` set ns")
  case False
  then have rn: "remove_node e ns = ns" by (rule remove_node_notin)
  have "c_llist_remove h l e = Some (0, l, h)"
  proof (cases ns)
    case Nil
    with assms(1) show ?thesis by (simp add: c_llist_remove_def is_cllist_def)
  next
    case (Cons n ms)
    obtain b x where "n = (b, x)" by (cases n)
    with Cons is_cllist_Cons [of h l b x ms] assms(1) False show ?thesis
      by (auto simp: c_llist_remove_def c_llist_find_none)
  qed
  with False rn assms(1) show ?thesis by simp
next
  case True
  from split_first_node [OF True] obtain xs a ys
    where ns: "ns = xs @ (a, e) # ys" and e: "e \<notin> snd ` set xs" by blast
  have rn: "remove_node e ns = xs @ ys" using remove_node_split [OF e] ns by simp
  have d: "distinct (map fst ns)" using assms(1) ns by (auto simp: is_cllist_def split: if_splits)
  show ?thesis
  proof (cases xs)
    case Nil
    then have ys: "ys \<noteq> []" using assms(2) True ns by auto
    have cl: "is_cllist h l ((a, e) # ys)" using assms(1) ns Nil by simp
    from c_llist_unlink_head [OF cl ys] obtain aux h1 h2 where
      u: "c_llist_unlink h a = Some (aux, h1)" "kfree_cnode h1 a = Some h2"
        "is_cllist h2 aux ys" "dom h2 = dom h - {a}" by blast
    from is_cllist_Cons [OF cl] u(1,2) have "c_llist_remove h l e = Some (1, aux, h2)"
      by (auto simp: c_llist_remove_def)
    with u True rn Nil ns d show ?thesis by auto
  next
    case (Cons x zs)
    obtain b f where x: "x = (b, f)" by (cases x)
    have cl: "is_cllist h l (xs @ (a, e) # ys)" using assms(1) ns by simp
    from c_llist_unlink_inner [OF cl] Cons obtain aux h1 h2 where
      u: "c_llist_unlink h a = Some (aux, h1)" "kfree_cnode h1 a = Some h2"
        "is_cllist h2 l (xs @ ys)" "dom h2 = dom h - {a}" "l \<noteq> a" by auto
    have cl': "is_cllist h l ((b, f) # zs @ (a, e) # ys)" using cl Cons x by simp
    from is_cllist_Cons [OF cl'] obtain n where
      n: "l = b" "b \<noteq> NULL" "b \<notin> fst ` set (zs @ (a, e) # ys)" "h b = Some n" "cl_element n = f"
        "dseg h b (cl_next n) (zs @ (a, e) # ys) b (fst (last ((b, f) # zs @ (a, e) # ys)))" by blast
    have "c_llist_find h b e (cl_next n) 1 = Some (a, 1 + int (length zs))"
      by (rule c_llist_find_spec [OF n(6,3)]) (use e Cons in auto)
    then have "c_llist_remove h l e = Some (1, l, h2)"
      using n u e Cons x by (auto simp: c_llist_remove_def)
    with u True rn ns d show ?thesis by auto
  qed
qed

lemma c_llist_index_ok:
  assumes "is_cllist h l ns"
  shows "c_llist_index h l e = Some (first_index e (map snd ns))"
proof (cases ns)
  case Nil
  with assms show ?thesis by (simp add: is_cllist_def c_llist_index_def first_index_def)
next
  case (Cons x ms)
  obtain b f where x: "x = (b, f)" by (cases x)
  from is_cllist_Cons [of h l b f ms] assms Cons x obtain n where
    n: "l = b" "b \<noteq> NULL" "b \<notin> fst ` set ms" "h b = Some n" "cl_element n = f"
      "dseg h b (cl_next n) ms b (fst (last ((b, f) # ms)))" by blast
  show ?thesis
  proof (cases "f = e \<or> e \<notin> snd ` set ms")
    case True
    then show ?thesis using n Cons x c_llist_find_none [OF n(6,3), of e 1]
      by (auto simp: c_llist_index_def first_index_def)
  next
    case False
    with split_first_node [of e ms] obtain xs a ys
      where ms: "ms = xs @ (a, e) # ys" and e: "e \<notin> snd ` set xs" by blast
    from c_llist_find_spec [of h b _ xs a e ys b _ 1] n ms e
    have "c_llist_find h b e (cl_next n) 1 = Some (a, 1 + int (length xs))" by blast
    moreover have "a \<noteq> b" using n ms by auto
    moreover have "first_index e (map snd ns) = int (length ((b, f) # xs))"
      using first_index_split [of e "map snd ((b, f) # xs)" "map snd ys"] e False Cons x ms by simp
    ultimately show ?thesis using n False by (auto simp: c_llist_index_def)
  qed
qed

lemma c_llist_length_ok:
  assumes "is_cllist h l ns"
  shows "c_llist_length h l = Some (int (length ns))"
proof (cases ns)
  case Nil
  with assms show ?thesis by (simp add: is_cllist_def c_llist_length_def)
next
  case (Cons x ms)
  obtain b f where x: "x = (b, f)" by (cases x)
  with is_cllist_Cons [of h l b f ms] assms Cons show ?thesis
    by (auto simp: c_llist_length_def c_llist_count_spec)
qed

text \<open>What \<open>c_llist_nth\<close> really returns: past the head it is one position ahead.\<close>

lemma c_llist_nth_ok:
  assumes "is_cllist h l ns" and "ns \<noteq> []"
  shows "c_llist_nth h l i =
    Some (if i = 0 then snd (ns ! 0)
          else if i < length ns then snd (ns ! (Suc i mod length ns)) else NULL)"
proof -
  from assms(2) obtain b f ms where ns: "ns = (b, f) # ms" by (cases ns) auto
  from is_cllist_Cons [of h l b f ms] assms(1) ns obtain n where
    n: "l = b" "b \<noteq> NULL" "b \<notin> fst ` set ms" "h b = Some n" "cl_element n = f"
      "dseg h b (cl_next n) ms b (fst (last ((b, f) # ms)))" by blast
  have s: "c_llist_seek h b i (cl_next n) 0 =
      Some (if i < length ms then fst (ms ! i) else b, min i (length ms))"
    using c_llist_seek_spec [OF n(6,3), of 0 i] by simp
  have nth: "\<exists>m. h (fst (ms ! j)) = Some m \<and> cl_element m = snd (ms ! j)" if "j < length ms" for j
  proof -
    from that have "ms = take j ms @ (ms ! j) # drop (Suc j) ms" by (rule id_take_nth_drop)
    with n(6) have "dseg h b (cl_next n) (take j ms @ (fst (ms ! j), snd (ms ! j)) # drop (Suc j) ms) b
        (fst (last ((b, f) # ms)))" by simp
    then show ?thesis
      unfolding dseg_append dseg.simps by (auto split: option.splits)
  qed
  consider "i = 0" | "0 < i" "i < length ms" | "0 < i" "i = length ms" | "i > length ms" by linarith
  then show ?thesis
  proof cases
    case 1
    then show ?thesis using n ns by (simp add: c_llist_nth_def)
  next
    case 2
    then show ?thesis using n ns s nth [of i] by (auto simp: c_llist_nth_def)
  next
    case 3
    then show ?thesis using n ns s by (simp add: c_llist_nth_def)
  next
    case 4
    then show ?thesis using n ns s by (auto simp: c_llist_nth_def min_def)
  qed
qed

lemma c_llist_add_frame:
  assumes "is_cllist h l ns" and "new \<noteq> NULL" and "new \<notin> dom h"
    and "c_llist_add h l e new = Some (r, l', h')"
    and "is_cllist h m ms" and "fst ` set ms \<inter> fst ` set ns = {}"
  shows "is_cllist h' m ms"
proof -
  from c_llist_add_ok [OF assms(1-3), of e] obtain l1 h1 where
    a1: "c_llist_add h l e new = Some (1, l1, h1)" and
    fr: "\<forall>c. c \<noteq> new \<and> c \<notin> fst ` set ns \<longrightarrow> h1 c = h c" by blast
  have "h1 = h'" using a1 assms(4) by simp
  moreover have "c \<noteq> new \<and> c \<notin> fst ` set ns" if "c \<in> fst ` set ms" for c
    using that is_cllist_live [OF assms(5)] assms(3,6) by blast
  ultimately show ?thesis using fr by (intro is_cllist_cong [OF assms(5)]) blast
qed

interpretation cll: ptr_seq is_cllist dom c_llist_add c_llist_index c_llist_length
proof unfold_locales
  fix h l new e ns
  assume "is_cllist h l ns" "new \<noteq> NULL" "new \<notin> dom h"
  from c_llist_add_ok [OF this, of e]
  show "\<exists>l' h'. c_llist_add h l e new = Some (1, l', h') \<and> is_cllist h' l' (ns @ [(new, e)]) \<and>
    dom h' = insert new (dom h)" by blast
next
  fix h l ns
  assume "is_cllist h l ns"
  then show "fst ` set ns \<subseteq> dom h" using is_cllist_live by blast
qed (simp_all add: is_cllist_def [of _ NULL "[]"] c_llist_add_def [of _ _ _ NULL]
    c_llist_index_ok c_llist_length_ok, rule c_llist_add_frame, simp_all)

section \<open>Properties\<close>

text \<open>A store with a three-node ring and free room beside it, on which the properties are tried.\<close>

definition ring3 :: cheap where
  "ring3 = [16 \<mapsto> \<lparr>cl_element = 101, cl_prev = 48, cl_next = 32\<rparr>,
            32 \<mapsto> \<lparr>cl_element = 102, cl_prev = 16, cl_next = 48\<rparr>,
            48 \<mapsto> \<lparr>cl_element = 103, cl_prev = 32, cl_next = 16\<rparr>]"

abbreviation ring3_nodes :: "(ptr \<times> ptr) list" where
  "ring3_nodes \<equiv> [(16, 101), (32, 102), (48, 103)]"

lemma ring3_ok: "is_cllist ring3 16 ring3_nodes" "64 \<notin> dom ring3"
  by (simp_all add: is_cllist_def ring3_def)

text \<open>\<open>c_llist_add\<close> on a well-formed ring succeeds when the allocation did, appends the
  new element at the end of the ring and leaves every node of other lists untouched.\<close>

theorem c_llist_add_appends:
  assumes "is_cllist h l ns" and "new \<noteq> NULL" and "new \<notin> dom h"
  shows "\<exists>l' h'. c_llist_add h l e new = Some (1, l', h') \<and>
    is_cllist h' l' (ns @ [(new, e)]) \<and> (ns \<noteq> [] \<longrightarrow> l' = l) \<and>
    (\<forall>c. c \<noteq> new \<and> c \<notin> fst ` set ns \<longrightarrow> h' c = h c)"
  using c_llist_add_ok [OF assms, of e] by blast

theorem c_llist_add_appends_witness:
  "\<exists>l' h'. c_llist_add ring3 16 104 64 = Some (1, l', h') \<and>
    is_cllist h' l' (ring3_nodes @ [(64, 104)])"
  using c_llist_add_appends [OF ring3_ok(1), of 64 104] ring3_ok(2) by auto

text \<open>C16: \<open>c_llist_remove\<close> on a ring of at least two nodes unlinks exactly the first node that
  holds the element, frees that node only and leaves a well-formed ring of the others.\<close>

theorem c_llist_remove_unlinks:
  assumes "is_cllist h l ns" and "2 \<le> length ns"
  shows "\<exists>l' h'. c_llist_remove h l e = Some (if e \<in> snd ` set ns then 1 else 0, l', h') \<and>
    is_cllist h' l' (remove_node e ns) \<and>
    dom h' = dom h - (fst ` set ns - fst ` set (remove_node e ns))"
  using c_llist_remove_ok [OF assms(1)] assms(2) by blast

theorem c_llist_remove_unlinks_witness:
  "\<exists>l' h'. c_llist_remove ring3 16 101 = Some (1, l', h') \<and>
    is_cllist h' l' [(32, 102), (48, 103)] \<and> dom h' = {32, 48}"
proof -
  have "dom ring3 - {16} = {32, 48}" by (auto simp: ring3_def)
  with c_llist_remove_unlinks [OF ring3_ok(1), of 101] show ?thesis
    by (simp add: insert_Diff_if)
qed

text \<open>Removing the only element of a ring leaves the caller's head pointer at the freed
  node instead of \<open>NULL\<close>: the list that should be empty dangles.\<close>

theorem c_llist_remove_last_dangles:
  assumes "is_cllist h l [(a, e)]"
  shows "\<exists>h'. c_llist_remove h l e = Some (1, a, h') \<and> h' a = None \<and> a \<noteq> NULL"
proof -
  from is_cllist_Cons [OF assms] obtain n where
    "l = a" "a \<noteq> NULL" "h a = Some n" "cl_element n = e" "cl_prev n = a" "cl_next n = a" by auto
  then show ?thesis
    by (simp add: c_llist_remove_def c_llist_unlink_def set_prev_def set_next_def kfree_cnode_def)
qed

theorem c_llist_remove_last_dangles_witness:
  "\<exists>h'. c_llist_remove [16 \<mapsto> \<lparr>cl_element = 101, cl_prev = 16, cl_next = 16\<rparr>] 16 101 =
     Some (1, 16, h') \<and> h' 16 = None"
  using c_llist_remove_last_dangles
    [of "[16 \<mapsto> \<lparr>cl_element = 101, cl_prev = 16, cl_next = 16\<rparr>]" 16 16 101]
  by (auto simp: is_cllist_def)

text \<open>\<open>c_llist_nth\<close>, documented as the element at the nth position, is right only for the
  head: for \<open>0 < i < length\<close> it returns the element of the following position, wrapping to
  the head at the end.\<close>

theorem c_llist_nth_is_one_ahead:
  assumes "is_cllist h l ns" and "0 < i" and "i < length ns"
  shows "c_llist_nth h l i = Some (snd (ns ! (Suc i mod length ns))) \<and>
    c_llist_nth h l 0 = Some (snd (ns ! 0))"
proof -
  from assms(3) have "ns \<noteq> []" by auto
  from c_llist_nth_ok [OF assms(1) this] assms(2,3) show ?thesis by simp
qed

theorem c_llist_nth_is_one_ahead_witness:
  "c_llist_nth ring3 16 1 = Some 103 \<and> c_llist_nth ring3 16 2 = Some 101"
  using c_llist_nth_is_one_ahead [OF ring3_ok(1), of 1]
    c_llist_nth_is_one_ahead [OF ring3_ok(1), of 2] by simp

end
