(* ===== verification/C_String.thy ===== *)
theory C_String
  imports Prelude
begin

text \<open>
  The kernel's C library: \<^verbatim>\<open>kernel/lib/ctype.c\<close>, \<^verbatim>\<open>kernel/lib/string.c\<close> and
  \<^verbatim>\<open>kernel/lib/stdlib.c\<close>. Memory is flat and total, a \<^verbatim>\<open>char*\<close> is an address, and
  functions that write return the new memory. Scans for a terminating zero byte yield
  \<open>None\<close> when there is none.
\<close>

section \<open>Character classes\<close>

definition isupper :: "int \<Rightarrow> bool" where "isupper c = (c \<ge> 65 \<and> c \<le> 90)"
definition islower :: "int \<Rightarrow> bool" where "islower c = (c \<ge> 97 \<and> c \<le> 122)"
definition isdigit :: "int \<Rightarrow> bool" where "isdigit c = (c \<ge> 48 \<and> c \<le> 57)"
definition isalpha :: "int \<Rightarrow> bool" where "isalpha c = (isupper c \<or> islower c)"
definition isalnum :: "int \<Rightarrow> bool" where "isalnum c = (isalpha c \<or> isdigit c)"
definition isascii :: "int \<Rightarrow> bool" where "isascii c = (c \<le> 127)"
definition isblank :: "int \<Rightarrow> bool" where "isblank c = (c = 32 \<or> c = 9)"
definition iscntrl :: "int \<Rightarrow> bool" where "iscntrl c = (c \<ge> 1 \<and> c \<le> 31)"
definition isgraph :: "int \<Rightarrow> bool" where "isgraph c = (c \<ge> 33 \<and> c \<le> 126)"
definition isprint :: "int \<Rightarrow> bool" where "isprint c = (c \<ge> 32 \<and> c \<le> 126)"
definition ispunct :: "int \<Rightarrow> bool" where "ispunct c = (isgraph c \<and> \<not> isalnum c)"
definition isspace :: "int \<Rightarrow> bool" where
  "isspace c = (c = 12 \<or> c = 10 \<or> c = 13 \<or> c = 9 \<or> c = 11)"
definition isxdigit :: "int \<Rightarrow> int" where
  "isxdigit c = (if (c \<ge> 65 \<and> c \<le> 70) \<or> (c \<ge> 97 \<and> c \<le> 102) \<or> (c \<ge> 48 \<and> c \<le> 57) then 1 else 0)"

lemmas ctype_defs = isupper_def islower_def isdigit_def isalpha_def isalnum_def isascii_def
  isblank_def iscntrl_def isgraph_def isprint_def ispunct_def isspace_def isxdigit_def

section \<open>string.c\<close>

fun memcpy :: "mem \<Rightarrow> ptr \<Rightarrow> ptr \<Rightarrow> nat \<Rightarrow> mem" where
  "memcpy m pdest psrc 0 = m"
| "memcpy m pdest psrc (Suc p) = memcpy (m(pdest := m psrc)) (pdest + 1) (psrc + 1) p"

fun memset :: "mem \<Rightarrow> ptr \<Rightarrow> int \<Rightarrow> nat \<Rightarrow> mem" where
  "memset m pdest c 0 = m"
| "memset m pdest c (Suc p) = memset (m(pdest := of_int c)) (pdest + 1) c p"

text \<open>The scan \<^verbatim>\<open>while(*p != 0) p++\<close> shared by \<open>strlen\<close>, \<open>strcat\<close> and \<open>strncat\<close>.\<close>

partial_function (option) str_end :: "mem \<Rightarrow> ptr \<Rightarrow> ptr option" where
  "str_end m p = (if m p \<noteq> 0 then str_end m (p + 1) else Some p)"

definition strlen :: "mem \<Rightarrow> ptr \<Rightarrow> nat option" where
  "strlen m s = do { tmp \<leftarrow> str_end m s; Some (tmp - s) }"

partial_function (option) str_copy :: "mem \<Rightarrow> ptr \<Rightarrow> ptr \<Rightarrow> (mem \<times> ptr) option" where
  "str_copy m pdest src =
     (if m src \<noteq> 0 then str_copy (m(pdest := m src)) (pdest + 1) (src + 1) else Some (m, pdest))"

definition strcat :: "mem \<Rightarrow> ptr \<Rightarrow> ptr \<Rightarrow> mem option" where
  "strcat m dest src = do {
     pdest \<leftarrow> str_end m dest;
     (m', pend) \<leftarrow> str_copy m pdest src;
     Some (m'(pend := 0))
   }"

partial_function (option) strcmp :: "mem \<Rightarrow> ptr \<Rightarrow> ptr \<Rightarrow> int option" where
  "strcmp m s1 s2 =
     (if m s1 = m s2 \<and> m s1 \<noteq> 0 then strcmp m (s1 + 1) (s2 + 1)
      else Some (int (unat (m s1)) - int (unat (m s2))))"

definition strcpy :: "mem \<Rightarrow> ptr \<Rightarrow> ptr \<Rightarrow> mem option" where
  "strcpy m dest src = do { len \<leftarrow> strlen m src; Some (memcpy m dest src len) }"

text \<open>The inner loop of \<open>strspn\<close> and \<open>strcspn\<close>: the first place in the set where \<open>c\<close> or the end is.\<close>

partial_function (option) set_scan :: "mem \<Rightarrow> byte \<Rightarrow> ptr \<Rightarrow> ptr option" where
  "set_scan m c p = (if m p \<noteq> 0 then (if c = m p then Some p else set_scan m c (p + 1)) else Some p)"

partial_function (option) strcspn_loop :: "mem \<Rightarrow> ptr \<Rightarrow> ptr \<Rightarrow> ptr option" where
  "strcspn_loop m s reject =
     (if m s \<noteq> 0 then do {
        j \<leftarrow> set_scan m (m s) reject;
        if m j \<noteq> 0 then Some s else strcspn_loop m (s + 1) reject
      } else Some s)"

definition strcspn :: "mem \<Rightarrow> ptr \<Rightarrow> ptr \<Rightarrow> nat option" where
  "strcspn m s reject = do { e \<leftarrow> strcspn_loop m s reject; Some (e - s) }"

partial_function (option) strspn_loop :: "mem \<Rightarrow> ptr \<Rightarrow> ptr \<Rightarrow> ptr option" where
  "strspn_loop m str accept =
     (if m str \<noteq> 0 then do {
        p \<leftarrow> set_scan m (m str) accept;
        if m p = 0 then Some str else strspn_loop m (str + 1) accept
      } else Some str)"

definition strspn :: "mem \<Rightarrow> ptr \<Rightarrow> ptr \<Rightarrow> nat option" where
  "strspn m s accept = do { e \<leftarrow> strspn_loop m s accept; Some (e - s) }"

definition strncat :: "mem \<Rightarrow> ptr \<Rightarrow> ptr \<Rightarrow> nat \<Rightarrow> mem option" where
  "strncat m dest src n = do {
     pdest \<leftarrow> str_end m dest;
     let m' = memcpy m pdest src n;
     Some (m'(pdest + n := 0))
   }"

fun strncmp :: "mem \<Rightarrow> ptr \<Rightarrow> ptr \<Rightarrow> nat \<Rightarrow> int" where
  "strncmp m s1 s2 p =
     (let c1 = m s1; c2 = m s2; t1 = s1 + 1; t2 = s2 + 1 in
      if c1 \<noteq> c2 \<and> (m t1 \<noteq> 0 \<and> m t2 \<noteq> 0) \<and> p \<noteq> 0 then strncmp m t1 t2 (p - 1)
      else int (unat (m t1)) - int (unat (m t2)))"

declare strncmp.simps [simp del]

definition strncpy :: "mem \<Rightarrow> ptr \<Rightarrow> ptr \<Rightarrow> nat \<Rightarrow> mem" where
  "strncpy m dest src n = memcpy m dest src n"

partial_function (option) strstr_loop :: "mem \<Rightarrow> ptr \<Rightarrow> ptr \<Rightarrow> ptr \<Rightarrow> (ptr \<times> ptr) option" where
  "strstr_loop m phay pnee res =
     (if m phay \<noteq> 0 \<and> m pnee \<noteq> 0 then
        if m phay \<noteq> m pnee then strstr_loop m (phay + 1) pnee phay
        else strstr_loop m (phay + 1) (pnee + 1) res
      else Some (pnee, res))"

definition strstr :: "mem \<Rightarrow> ptr \<Rightarrow> ptr \<Rightarrow> ptr option" where
  "strstr m haystack needle = do {
     (pnee, res) \<leftarrow> strstr_loop m haystack needle haystack;
     if m pnee = 0 then Some res else Some NULL
   }"

text \<open>\<open>strtok_r\<close> returns the token (or \<open>NULL\<close>), the new memory and the new save pointer.\<close>

definition strtok_r :: "mem \<Rightarrow> ptr \<Rightarrow> ptr \<Rightarrow> ptr \<Rightarrow> (ptr \<times> mem \<times> ptr) option" where
  "strtok_r m s0 delim save_ptr =
     (let s = (if s0 = NULL then save_ptr else s0) in
      if m s = 0 then Some (NULL, m, s)
      else do {
        k \<leftarrow> strspn m s delim;
        let s' = s + k;
        if m s' = 0 then Some (NULL, m, s')
        else do {
          n \<leftarrow> strcspn m s' delim;
          let e = s' + n;
          if m e = 0 then Some (s', m, e)
          else Some (s', m(e := 0), e + 1)
        }
      })"

text \<open>The static variable \<open>olds\<close> of \<open>strtok\<close> is the state passed in and out.\<close>

definition strtok :: "mem \<Rightarrow> ptr \<Rightarrow> ptr \<Rightarrow> ptr \<Rightarrow> (ptr \<times> mem \<times> ptr) option" where
  "strtok m s delim olds = strtok_r m s delim olds"

section \<open>stdlib.c\<close>

text \<open>\<^verbatim>\<open>while(*nstr++)\<close>: \<open>None\<close> in the pair is the early \<^verbatim>\<open>return(0)\<close>.\<close>

partial_function (option) atoi_check :: "mem \<Rightarrow> ptr \<Rightarrow> ptr option option" where
  "atoi_check m nstr =
     (if m nstr \<noteq> 0 then
        if m (nstr + 1) \<noteq> 0 \<and> \<not> isdigit (sint (m (nstr + 1))) then Some None
        else atoi_check m (nstr + 1)
      else Some (Some (nstr + 1)))"

partial_function (option) atoi_sum :: "mem \<Rightarrow> ptr \<Rightarrow> ptr \<Rightarrow> u32 \<Rightarrow> u32 \<Rightarrow> u32 option" where
  "atoi_sum m base nstr acc mult =
     (if nstr \<noteq> base
      then atoi_sum m base (nstr - 1) (acc + (scast (m (nstr - 1)) - 48) * mult) (mult * 10)
      else Some acc)"

definition atoi :: "mem \<Rightarrow> ptr \<Rightarrow> int option" where
  "atoi m nptr =
     (let isneg = (if m nptr = 45 then 1 else 0) in do {
        r \<leftarrow> atoi_check m (nptr + isneg);
        case r of
          None \<Rightarrow> Some 0
        | Some e \<Rightarrow> do {
            acc \<leftarrow> atoi_sum m (nptr + isneg) (e - 1) 0 1;
            Some (sint (if isneg \<noteq> 0 then acc * (-1) else acc))
          }
      })"

section \<open>Strings in memory\<close>

fun cstr :: "mem \<Rightarrow> ptr \<Rightarrow> byte list \<Rightarrow> bool" where
  "cstr m p [] = (m p = 0)"
| "cstr m p (c # cs) = (m p = c \<and> c \<noteq> 0 \<and> cstr m (p + 1) cs)"

text \<open>Writing a list of bytes; a literal in memory is \<open>store m p (cs @ [0])\<close>.\<close>

fun store :: "mem \<Rightarrow> ptr \<Rightarrow> byte list \<Rightarrow> mem" where
  "store m p [] = m"
| "store m p (c # cs) = store (m(p := c)) (p + 1) cs"

lemma store_outside [simp]: "x < p \<or> p + length cs \<le> x \<Longrightarrow> store m p cs x = m x"
  by (induction cs arbitrary: m p) auto

lemma store_inside: "i < length cs \<Longrightarrow> store m p cs (p + i) = cs ! i"
proof (induction cs arbitrary: m p i)
  case Nil
  then show ?case by simp
next
  case (Cons c cs)
  show ?case
  proof (cases i)
    case 0
    then show ?thesis by simp
  next
    case (Suc j)
    then have "store (m(p := c)) (p + 1) cs (p + 1 + j) = cs ! j"
      by (intro Cons.IH) (use Cons.prems Suc in simp)
    then show ?thesis using Suc by (simp del: fun_upd_apply)
  qed
qed

lemma store_append: "store m p (xs @ ys) = store (store m p xs) (p + length xs) ys"
  by (induction xs arbitrary: m p) auto

lemma cstr_iff:
  "cstr m p s \<longleftrightarrow> (\<forall>i < length s. m (p + i) = s ! i) \<and> 0 \<notin> set s \<and> m (p + length s) = 0"
proof (induction s arbitrary: p)
  case Nil
  then show ?case by simp
next
  case (Cons c s)
  have "(\<forall>i < length (c # s). m (p + i) = (c # s) ! i)
      \<longleftrightarrow> m p = c \<and> (\<forall>i < length s. m (p + 1 + i) = s ! i)"
    unfolding length_Cons All_less_Suc2 by simp
  then show ?case unfolding cstr.simps Cons.IH by auto
qed

lemma cstr_nonzero: "cstr m p s \<Longrightarrow> 0 \<notin> set s"
  unfolding cstr_iff by simp

lemma cstr_store: "0 \<notin> set s \<Longrightarrow> cstr (store m p (s @ [0])) p s"
  unfolding cstr_iff using store_inside [of _ "s @ [0]" m p]
  by (auto simp: nth_append)

lemma cstr_cong: "cstr m p s \<Longrightarrow> (\<And>i. i \<le> length s \<Longrightarrow> m' (p + i) = m (p + i)) \<Longrightarrow> cstr m' p s"
  unfolding cstr_iff by auto

lemma cstr_unique: "cstr m p s \<Longrightarrow> cstr m p t \<Longrightarrow> s = t"
proof (induction s arbitrary: p t)
  case Nil
  then show ?case by (cases t) auto
next
  case (Cons c s)
  then show ?case by (cases t) auto
qed

lemma cstr_append_iff:
  "cstr m p (s @ t) \<longleftrightarrow> (\<forall>i < length s. m (p + i) = s ! i) \<and> 0 \<notin> set s \<and> cstr m (p + length s) t"
proof (induction s arbitrary: p)
  case Nil
  then show ?case by simp
next
  case (Cons c s)
  have "(\<forall>i < length (c # s). m (p + i) = (c # s) ! i)
      \<longleftrightarrow> m p = c \<and> (\<forall>i < length s. m (p + 1 + i) = s ! i)"
    unfolding length_Cons All_less_Suc2 by simp
  then show ?case using Cons.IH [of "p + 1"] by auto
qed

section \<open>Correctness of the string operations\<close>

lemma str_end_stop [simp]: "m p = 0 \<Longrightarrow> str_end m p = Some p"
  by (subst str_end.simps) simp

lemma str_end_step [simp]: "m p \<noteq> 0 \<Longrightarrow> str_end m p = str_end m (Suc p)"
  by (subst str_end.simps) simp

lemma str_end_ok: "cstr m p s \<Longrightarrow> str_end m p = Some (p + length s)"
  by (induction s arbitrary: p) auto

lemma strlen_ok: "cstr m p s \<Longrightarrow> strlen m p = Some (length s)"
  by (simp add: strlen_def str_end_ok)

lemma memcpy_store:
  "length cs = n \<Longrightarrow> (\<forall>i < n. m (q + i) = cs ! i) \<Longrightarrow> q + n \<le> d \<or> d + n \<le> q
    \<Longrightarrow> memcpy m d q n = store m d cs"
proof (induction n arbitrary: m d q cs)
  case 0
  then show ?case by simp
next
  case (Suc n)
  obtain c cs' where cs: "cs = c # cs'" "length cs' = n"
    using Suc.prems(1) by (cases cs) auto
  have rd: "m (q + i) = cs ! i" if "i < Suc n" for i using Suc.prems(2) that by blast
  have c: "m q = c" using rd [of 0] cs by simp
  have rest: "\<forall>i < n. (m(d := c)) (q + 1 + i) = cs' ! i"
    using rd [of "Suc _"] cs Suc.prems(3) by auto
  have "memcpy (m(d := c)) (d + 1) (q + 1) n = store (m(d := c)) (d + 1) cs'"
    by (rule Suc.IH [OF cs(2) rest]) (use Suc.prems(3) in auto)
  then show ?case using c cs(1) by (simp del: fun_upd_apply)
qed

lemma memset_store: "memset m d c n = store m d (replicate n (of_int c))"
  by (induction n arbitrary: m d) auto

lemma str_copy_stop [simp]: "m q = 0 \<Longrightarrow> str_copy m d q = Some (m, d)"
  by (subst str_copy.simps) simp

lemma str_copy_step [simp]:
  "m q \<noteq> 0 \<Longrightarrow> str_copy m d q = str_copy (m(d := m q)) (Suc d) (Suc q)"
  by (subst str_copy.simps) simp

lemma str_copy_ok:
  "cstr m q t \<Longrightarrow> q + length t < d \<or> d + length t \<le> q
    \<Longrightarrow> str_copy m d q = Some (store m d t, d + length t)"
proof (induction t arbitrary: m d q)
  case Nil
  then show ?case by simp
next
  case (Cons c t)
  have c: "m q = c" "c \<noteq> 0" "cstr m (q + 1) t" using Cons.prems(1) by simp_all
  have "cstr (m(d := c)) (q + 1) t"
    by (rule cstr_cong [OF c(3)]) (use Cons.prems(2) in auto)
  then have "str_copy (m(d := c)) (d + 1) (q + 1) = Some (store (m(d := c)) (d + 1) t, d + 1 + length t)"
    by (rule Cons.IH) (use Cons.prems(2) in auto)
  then show ?case using c by (simp del: fun_upd_apply)
qed

lemma strcmp_stop [simp]:
  "m p \<noteq> m q \<or> m p = 0 \<Longrightarrow> strcmp m p q = Some (int (unat (m p)) - int (unat (m q)))"
  by (subst strcmp.simps) auto

lemma strcmp_step [simp]: "m p = m q \<Longrightarrow> m q \<noteq> 0 \<Longrightarrow> strcmp m p q = strcmp m (Suc p) (Suc q)"
  by (subst strcmp.simps) auto

text \<open>The comparison \<open>strcmp\<close> should make, on the two byte strings.\<close>

fun str_order :: "byte list \<Rightarrow> byte list \<Rightarrow> int" where
  "str_order [] [] = 0"
| "str_order (c # s) [] = int (unat c)"
| "str_order [] (d # t) = - int (unat d)"
| "str_order (c # s) (d # t) = (if c = d then str_order s t else int (unat c) - int (unat d))"

lemma strcmp_str_order: "cstr m p s \<Longrightarrow> cstr m q t \<Longrightarrow> strcmp m p q = Some (str_order s t)"
  by (induction s t arbitrary: p q rule: str_order.induct) auto

lemma uint_pos: "(w :: byte) \<noteq> 0 \<Longrightarrow> 0 < uint w"
  by (simp add: word_uint_eq_iff less_le)

lemma uint_neq_less: "(c :: byte) \<noteq> d \<Longrightarrow> \<not> uint d < uint c \<Longrightarrow> uint c < uint d"
  by (metis linorder_neqE unsigned_word_eqI)

lemma str_order_zero: "0 \<notin> set s \<Longrightarrow> 0 \<notin> set t \<Longrightarrow> str_order s t = 0 \<longleftrightarrow> s = t"
  by (induction s t rule: str_order.induct) (auto dest: uint_pos unsigned_word_eqI)

lemma str_order_neg:
  "0 \<notin> set s \<Longrightarrow> 0 \<notin> set t \<Longrightarrow> str_order s t < 0 \<longleftrightarrow> ord_class.lexordp s t"
  by (induction s t rule: str_order.induct) (auto simp: word_less_def uint_pos intro: uint_neq_less dest: unsigned_word_eqI)

text \<open>\<open>strcmp\<close> on two terminated strings returns zero exactly when they are equal and a
  negative number exactly when the first is smaller in the lexicographic order of unsigned bytes.\<close>

theorem strcmp_is_lexicographic:
  assumes "cstr m p s" and "cstr m q t"
  shows "\<exists>r. strcmp m p q = Some r \<and> (r = 0 \<longleftrightarrow> s = t) \<and> (r < 0 \<longleftrightarrow> ord_class.lexordp s t)"
  using strcmp_str_order [OF assms] cstr_nonzero [OF assms(1)] cstr_nonzero [OF assms(2)]
  by (auto simp: str_order_zero str_order_neg)

theorem strcmp_is_lexicographic_witness:
  "cstr ((\<lambda>_. 0)(1 := 97, 2 := 200, 5 := 97, 6 := 98)) 1 [97, 200]
   \<and> cstr ((\<lambda>_. 0)(1 := 97, 2 := 200, 5 := 97, 6 := 98)) 5 [97, 98]
   \<and> (\<exists>r. strcmp ((\<lambda>_. 0)(1 := 97, 2 := 200, 5 := 97, 6 := 98)) 1 5 = Some r \<and> \<not> r < 0 \<and> r \<noteq> 0)"
proof -
  let ?m = "(\<lambda>_. 0)(1 := 97, 2 := 200, 5 := 97, 6 := 98 :: byte)"
  have "cstr ?m 1 [97, 200]" "cstr ?m 5 [97, 98]" by simp_all
  moreover have "\<not> ord_class.lexordp [97, 200] [97, 98 :: byte]" "[97, 200] \<noteq> [97, 98 :: byte]" by simp_all
  ultimately show ?thesis using strcmp_is_lexicographic [of ?m 1 "[97, 200]" 5 "[97, 98]"] by metis
qed

text \<open>\<open>strcat\<close> leaves at \<open>dest\<close> the concatenation of the two strings, terminated, and writes
  nothing outside the bytes from the old terminator on, when the source does not overlap them.\<close>

theorem strcat_appends:
  assumes "cstr m dest s" and "cstr m src t"
    and "src + length t < dest + length s \<or> dest + length s + length t < src"
  shows "\<exists>m'. strcat m dest src = Some m' \<and> cstr m' dest (s @ t)
    \<and> (\<forall>x. x < dest + length s \<or> dest + length s + length t < x \<longrightarrow> m' x = m x)"
proof -
  let ?p = "dest + length s"
  let ?m' = "store m ?p (t @ [0])"
  have "str_copy m ?p src = Some (store m ?p t, ?p + length t)"
    using str_copy_ok [OF assms(2)] assms(3) by auto
  then have "strcat m dest src = Some ?m'"
    using str_end_ok [OF assms(1)] by (simp add: strcat_def store_append)
  moreover have "cstr ?m' dest (s @ t)"
    unfolding cstr_append_iff using assms(1) cstr_store cstr_nonzero [OF assms(2)]
    by (auto simp: cstr_iff [of m])
  ultimately show ?thesis by auto
qed

theorem strcat_appends_witness:
  "\<exists>m'. strcat ((\<lambda>_. 0)(1 := 97, 9 := 98)) 1 9 = Some m' \<and> cstr m' 1 [97, 98]"
proof -
  have "cstr ((\<lambda>_. 0)(1 := 97, 9 := 98)) 1 [97]" "cstr ((\<lambda>_. 0)(1 := 97, 9 := 98)) 9 [98]" by simp_all
  then show ?thesis using strcat_appends [of "(\<lambda>_. 0)(1 := 97, 9 := 98)" 1 "[97]" 9 "[98]"] by auto
qed

lemma strcpy_ok:
  assumes "cstr m src t" and "src + length t \<le> dest \<or> dest + length t \<le> src"
  shows "strcpy m dest src = Some (store m dest t)"
proof -
  have "memcpy m dest src (length t) = store m dest t"
    using assms by (intro memcpy_store) (auto simp: cstr_iff)
  then show ?thesis by (simp add: strcpy_def strlen_ok [OF assms(1)])
qed

text \<open>\<open>strcpy\<close> copies the characters of the source but not its terminator: the result is
  the source string only if the byte behind it happened to be zero already.\<close>

theorem strcpy_copies_without_terminator:
  assumes "cstr m src t" and "src + length t \<le> dest \<or> dest + length t \<le> src"
  shows "\<exists>m'. strcpy m dest src = Some m' \<and> (\<forall>i < length t. m' (dest + i) = t ! i)
    \<and> m' (dest + length t) = m (dest + length t)
    \<and> (cstr m' dest t \<longleftrightarrow> m (dest + length t) = 0)"
  using strcpy_ok [OF assms] cstr_nonzero [OF assms(1)]
  by (auto simp: cstr_iff store_inside)

theorem strcpy_copies_without_terminator_witness:
  "\<exists>m'. strcpy ((\<lambda>_. 120)(1 := 97, 2 := 0)) 9 1 = Some m' \<and> m' 9 = 97 \<and> \<not> cstr m' 9 [97]"
proof -
  have c: "cstr ((\<lambda>_. 120)(1 := 97, 2 := 0)) 1 [97]" by simp
  show ?thesis
    using strcpy_copies_without_terminator [OF c, of 9] by auto
qed

section \<open>Tokens\<close>

lemma set_scan_stop [simp]: "m p = 0 \<or> c = m p \<Longrightarrow> set_scan m c p = Some p"
  by (subst set_scan.simps) auto

lemma set_scan_step [simp]: "m p \<noteq> 0 \<Longrightarrow> c \<noteq> m p \<Longrightarrow> set_scan m c p = set_scan m c (Suc p)"
  by (subst set_scan.simps) auto

lemma set_scan_ok:
  "cstr m p ds \<Longrightarrow> c \<noteq> 0 \<Longrightarrow> \<exists>e. set_scan m c p = Some e \<and> (m e \<noteq> 0 \<longleftrightarrow> c \<in> set ds)"
proof (induction ds arbitrary: p)
  case Nil
  then show ?case by simp
next
  case (Cons d ds)
  then show ?case by (cases "c = d") auto
qed

lemma strspn_loop_ok:
  "cstr m p s \<Longrightarrow> cstr m q ds
    \<Longrightarrow> strspn_loop m p q = Some (p + length (takeWhile (\<lambda>c. c \<in> set ds) s))"
proof (induction s arbitrary: p)
  case Nil
  then show ?case by (subst strspn_loop.simps) simp
next
  case (Cons c s)
  then obtain e where "set_scan m c q = Some e" "m e \<noteq> 0 \<longleftrightarrow> c \<in> set ds"
    using set_scan_ok [of m q ds c] by auto
  then show ?case using Cons by (subst strspn_loop.simps) auto
qed

lemma strcspn_loop_ok:
  "cstr m p s \<Longrightarrow> cstr m q ds
    \<Longrightarrow> strcspn_loop m p q = Some (p + length (takeWhile (\<lambda>c. c \<notin> set ds) s))"
proof (induction s arbitrary: p)
  case Nil
  then show ?case by (subst strcspn_loop.simps) simp
next
  case (Cons c s)
  then obtain e where "set_scan m c q = Some e" "m e \<noteq> 0 \<longleftrightarrow> c \<in> set ds"
    using set_scan_ok [of m q ds c] by auto
  then show ?case using Cons by (subst strcspn_loop.simps) auto
qed

lemma cstr_drop: "cstr m p s \<Longrightarrow> k \<le> length s \<Longrightarrow> cstr m (p + k) (drop k s)"
  using cstr_append_iff [of m p "take k s" "drop k s"] by simp

lemma cstr_cut:
  assumes "cstr m p s" and "k \<le> length s"
  shows "cstr (m(p + k := 0)) p (take k s)"
  using assms by (auto simp: cstr_iff dest: in_set_takeD)

lemma cstr_at_end: "cstr m p s \<Longrightarrow> k \<le> length s \<Longrightarrow> m (p + k) = 0 \<longleftrightarrow> k = length s"
  unfolding cstr_iff by (metis le_neq_implies_less nth_mem)

text \<open>\<open>strtok_r\<close> skips the leading delimiters; with nothing left it returns \<open>NULL\<close>,
  otherwise the next maximal run of non-delimiters as a terminated string, with the rest of the
  text, less one delimiter, at the save pointer, changing at most the byte behind the token.\<close>

theorem strtok_r_next_token:
  fixes ds :: "byte list"
  assumes "cstr m p s" and "cstr m d ds" and "p \<noteq> NULL"
  defines "q \<equiv> p + length (takeWhile (\<lambda>c. c \<in> set ds) s)"
    and "r \<equiv> dropWhile (\<lambda>c. c \<in> set ds) s"
  defines "tok \<equiv> takeWhile (\<lambda>c. c \<notin> set ds) r"
  shows "(r = [] \<longrightarrow> strtok_r m p d sv = Some (NULL, m, q))
    \<and> (r \<noteq> [] \<longrightarrow> tok \<noteq> [] \<and> (\<exists>m' sv'. strtok_r m p d sv = Some (q, m', sv')
          \<and> cstr m' q tok \<and> cstr m' sv' (drop (length tok + 1) r)
          \<and> (\<forall>x. x \<noteq> q + length tok \<longrightarrow> m' x = m x)))"
proof -
  have spn: "strspn m p d = Some (q - p)"
    using strspn_loop_ok [OF assms(1,2)] by (simp add: strspn_def q_def)
  have q: "q = p + (q - p)" by (simp add: q_def)
  have r: "cstr m q r"
    unfolding q_def r_def dropWhile_eq_drop by (rule cstr_drop [OF assms(1) length_takeWhile_le])
  have cspn: "strcspn m q d = Some (length tok)"
    using strcspn_loop_ok [OF r assms(2)] by (simp add: strcspn_def tok_def)
  have empty: "m p = 0 \<longleftrightarrow> s = []" using cstr_at_end [OF assms(1), of 0] by simp
  have rempty: "m q = 0 \<longleftrightarrow> r = []" using cstr_at_end [OF r, of 0] by simp
  have le: "length tok \<le> length r" unfolding tok_def by (rule length_takeWhile_le)
  have tok: "tok = take (length tok) r" unfolding tok_def by (metis takeWhile_eq_take)
  have e: "m (q + length tok) = 0 \<longleftrightarrow> length tok = length r" by (rule cstr_at_end [OF r le])
  have run: "strtok_r m p d sv = (if r = [] then Some (NULL, m, q)
      else if length tok = length r then Some (q, m, q + length tok)
      else Some (q, m(q + length tok := 0), q + length tok + 1))"
    using spn cspn empty rempty e q assms(3)
    by (cases "s = []") (auto simp: strtok_r_def Let_def r_def q_def)
  have ne: "r \<noteq> [] \<Longrightarrow> tok \<noteq> []"
    unfolding tok_def r_def by (metis hd_dropWhile takeWhile_eq_Nil_iff)
  have whole: "length tok = length r \<Longrightarrow> cstr m q tok \<and> cstr m (q + length tok) []"
    using tok r e by auto
  have cut: "cstr (m(q + length tok := 0)) q tok"
    using cstr_cut [OF r le] tok by simp
  have rest: "cstr (m(q + length tok := 0)) (q + length tok + 1) (drop (length tok + 1) r)"
    if "length tok \<noteq> length r"
  proof (rule cstr_cong)
    show "cstr m (q + length tok + 1) (drop (length tok + 1) r)"
      using cstr_drop [OF r, of "length tok + 1"] le that by (simp add: add.assoc)
  qed simp
  show ?thesis
  proof (cases "length tok = length r")
    case True
    then have "drop (length tok + 1) r = []" by simp
    then show ?thesis using run ne whole True by auto
  next
    case False
    then have "r \<noteq> []" using le by auto
    then show ?thesis using run ne cut rest False by simp
  qed
qed

theorem strtok_r_next_token_witness:
  "\<exists>m' sv'. strtok_r ((\<lambda>_. 0)(1 := 32, 2 := 97, 3 := 32, 4 := 98, 9 := 32)) 1 9 0 = Some (2, m', sv')
     \<and> cstr m' 2 [97] \<and> cstr m' sv' [98]"
proof -
  let ?m = "(\<lambda>_. 0)(1 := 32, 2 := 97, 3 := 32, 4 := 98, 9 := 32 :: byte)"
  have "cstr ?m 1 [32, 97, 32, 98]" "cstr ?m 9 [32]" by simp_all
  from strtok_r_next_token [OF this, of 0] show ?thesis
    by auto (metis numeral_3_eq_3)
qed

section \<open>Numbers\<close>

definition digit_char :: "byte \<Rightarrow> bool" where "digit_char c \<longleftrightarrow> 48 \<le> unat c \<and> unat c \<le> 57"

text \<open>The number a string of digits denotes.\<close>

definition decimal :: "byte list \<Rightarrow> nat" where
  "decimal s = foldl (\<lambda>a c. 10 * a + (unat c - 48)) 0 s"

lemma decimal_Nil [simp]: "decimal [] = 0"
  by (simp add: decimal_def)

lemma decimal_snoc [simp]: "decimal (s @ [c]) = 10 * decimal s + (unat c - 48)"
  by (simp add: decimal_def)

lemma sint_small_byte: "unat (c :: byte) < 128 \<Longrightarrow> sint c = int (unat c)"
  unfolding sint_uint uint_nat by (rule signed_take_bit_int_eq_self) (auto simp del: of_nat_unat)

lemma isdigit_digit_char: "digit_char c \<Longrightarrow> isdigit (sint c)"
  unfolding digit_char_def isdigit_def by (simp add: sint_small_byte del: of_nat_unat)

lemma scast_digit: "digit_char c \<Longrightarrow> (scast c :: u32) - 48 = of_nat (unat c - 48)"
  by (simp add: digit_char_def sint_small_byte scast_eq of_nat_diff)

lemma atoi_check_stop [simp]: "m p = 0 \<Longrightarrow> atoi_check m p = Some (Some (p + 1))"
  by (subst atoi_check.simps) simp

lemma atoi_check_step:
  "m p \<noteq> 0 \<Longrightarrow> m (p + 1) = 0 \<or> isdigit (sint (m (p + 1))) \<Longrightarrow> atoi_check m p = atoi_check m (p + 1)"
  by (subst atoi_check.simps) auto

lemma atoi_check_ok:
  "cstr m p s \<Longrightarrow> \<forall>c \<in> set s. digit_char c \<Longrightarrow> atoi_check m p = Some (Some (p + length s + 1))"
proof (induction s arbitrary: p)
  case Nil
  then show ?case by simp
next
  case (Cons c s)
  have "m (p + 1) = 0 \<or> isdigit (sint (m (p + 1)))"
    using Cons.prems by (cases s) (auto simp: isdigit_digit_char)
  then have "atoi_check m p = atoi_check m (p + 1)"
    using Cons.prems by (intro atoi_check_step) auto
  then show ?case using Cons by simp
qed

lemma atoi_sum_stop [simp]: "atoi_sum m base base acc mult = Some acc"
  by (subst atoi_sum.simps) simp

lemma atoi_sum_step:
  "q \<noteq> base \<Longrightarrow> atoi_sum m base q acc mult
    = atoi_sum m base (q - 1) (acc + (scast (m (q - 1)) - 48) * mult) (mult * 10)"
  by (subst atoi_sum.simps) simp

lemma atoi_sum_ok:
  "\<forall>i < length s. m (base + i) = s ! i \<Longrightarrow> \<forall>c \<in> set s. digit_char c
    \<Longrightarrow> atoi_sum m base (base + length s) acc mult = Some (acc + of_nat (decimal s) * mult)"
proof (induction s arbitrary: acc mult rule: rev_induct)
  case Nil
  then show ?case by simp
next
  case (snoc c s)
  have m: "m (base + length s) = c" using snoc.prems(1) by (auto simp: nth_append)
  have pre: "\<forall>i < length s. m (base + i) = s ! i"
  proof (intro allI impI)
    fix i assume "i < length s"
    then show "m (base + i) = s ! i" using snoc.prems(1) [rule_format, of i] by (simp add: nth_append)
  qed
  have "atoi_sum m base (base + length (s @ [c])) acc mult
      = atoi_sum m base (base + length s) (acc + (scast c - 48) * mult) (mult * 10)"
    using m by (subst atoi_sum_step) simp_all
  also have "\<dots> = Some (acc + (scast c - 48) * mult + of_nat (decimal s) * (mult * 10))"
    using snoc.IH [OF pre] snoc.prems(2) by simp
  also have "\<dots> = Some (acc + of_nat (decimal (s @ [c])) * mult)"
    using snoc.prems(2) by (simp add: scast_digit algebra_simps)
  finally show ?case .
qed

lemma atoi_digits:
  assumes "cstr m p s" and "\<forall>c \<in> set s. digit_char c"
  shows "atoi m p = Some (sint (of_nat (decimal s) :: u32))"
proof -
  have "m p \<noteq> 45" using assms by (cases s) (auto simp: digit_char_def)
  then show ?thesis
    using atoi_check_ok [OF assms] atoi_sum_ok [of s m p 0 1] assms
    by (simp add: atoi_def cstr_iff)
qed

lemma atoi_negative:
  assumes "cstr m p (45 # s)" and "\<forall>c \<in> set s. digit_char c"
  shows "atoi m p = Some (sint (- of_nat (decimal s) :: u32))"
proof -
  have s: "m p = 45" "cstr m (p + 1) s" using assms(1) by simp_all
  then show ?thesis
    using atoi_check_ok [OF s(2) assms(2)] atoi_sum_ok [of s m "p + 1" 0 1] assms(2)
    by (simp add: atoi_def cstr_iff)
qed

lemma sint_of_int_u32:
  "- 2147483648 \<le> k \<Longrightarrow> k < 2147483648 \<Longrightarrow> sint (of_int k :: u32) = k"
  by (simp add: signed_of_int signed_take_bit_int_eq_self)

lemma sint_of_nat_u32: "n < 2147483648 \<Longrightarrow> sint (of_nat n :: u32) = int n"
  using sint_of_int_u32 [of "int n"] by simp

lemma sint_minus_of_nat_u32: "n < 2147483648 \<Longrightarrow> sint (- of_nat n :: u32) = - int n"
  using sint_of_int_u32 [of "- int n"] by simp

text \<open>\<open>atoi\<close> of a decimal numeral in the range of \<open>int\<close>, with or without a minus
  sign, returns the number it denotes; beyond that range the result is reduced modulo \<open>2\<^sup>3\<^sup>2\<close>.\<close>

theorem atoi_parses_decimal:
  assumes "\<forall>c \<in> set s. digit_char c"
  shows "(cstr m p s \<longrightarrow> atoi m p = Some (sint (of_nat (decimal s) :: u32)))
    \<and> (cstr m p s \<and> decimal s < 2147483648 \<longrightarrow> atoi m p = Some (int (decimal s)))
    \<and> (cstr m p (45 # s) \<and> decimal s < 2147483648 \<longrightarrow> atoi m p = Some (- int (decimal s)))"
  using atoi_digits [OF _ assms] atoi_negative [OF _ assms]
  by (auto simp: sint_of_nat_u32 sint_minus_of_nat_u32 simp del: cstr.simps)

theorem atoi_parses_decimal_witness:
  "atoi ((\<lambda>_. 0)(1 := 45, 2 := 52, 3 := 50)) 1 = Some (- 42)"
proof -
  have d: "\<forall>c \<in> set [52, 50]. digit_char c" by (simp add: digit_char_def)
  have "cstr ((\<lambda>_. 0)(1 := 45, 2 := 52, 3 := 50)) 1 [45, 52, 50]" by simp
  with atoi_parses_decimal [OF d, of "(\<lambda>_. 0)(1 := 45, 2 := 52, 3 := 50)" 1]
  show ?thesis by (simp add: decimal_def)
qed

text \<open>
  \<open>atoi\<close> never looks at its first character when it checks for digits: a one
  character string yields that character's code less that of the digit zero, whatever it is.
\<close>

lemma atoi_ignores_first_char:
  assumes "cstr m p [c]" and "c \<noteq> 45"
  shows "atoi m p = Some (sint c - 48)"
proof -
  have c: "m p = c" "c \<noteq> 0" "m (p + 1) = 0" using assms(1) by simp_all
  have ck: "atoi_check m p = Some (Some (p + 1 + 1))"
    using c by (subst atoi_check_step) simp_all
  have "atoi_sum m p (p + 1) 0 1 = Some (scast c - 48)"
    using c atoi_sum_step [of "p + 1" p m 0 1] by simp
  then have "atoi m p = Some (sint (scast c - 48 :: u32))"
    using ck c assms(2) by (simp add: atoi_def)
  moreover have "sint (of_int (sint c - 48) :: u32) = sint c - 48"
    using sint_greater_eq [of c] sint_less [of c] by (intro sint_of_int_u32) simp_all
  moreover have "(scast c - 48 :: u32) = of_int (sint c - 48)" by simp
  ultimately show ?thesis by (simp only:)
qed

end
