(* ===== verification/Free_Ring.thy ===== *)
theory Free_Ring
  imports Prelude
begin

text \<open>
  Circular doubly linked lists threaded through objects, as the free lists of the buffer cache
  (\<^verbatim>\<open>fs/bhash.c\<close>) and of the in-core inodes (\<^verbatim>\<open>fs/vfs.c\<close>) are: a head object and two link
  fields in every object. The locale \<open>ring_links\<close> is the interface to the store of objects; its
  lemmas are the insertions and the removal that both components perform.
\<close>

section \<open>Paths along two link fields\<close>

fun path :: "(ptr \<Rightarrow> ptr) \<Rightarrow> (ptr \<Rightarrow> ptr) \<Rightarrow> ptr \<Rightarrow> ptr list \<Rightarrow> ptr \<Rightarrow> bool" where
  "path n p a [] b = (n a = b \<and> p b = a)"
| "path n p a (x # xs) b = (n a = x \<and> p x = a \<and> path n p x xs b)"

definition ring :: "(ptr \<Rightarrow> ptr) \<Rightarrow> (ptr \<Rightarrow> ptr) \<Rightarrow> ptr \<Rightarrow> ptr list \<Rightarrow> bool" where
  "ring n p h ns \<longleftrightarrow> distinct (h # ns) \<and> path n p h ns h"

lemma path_append: "path n p a (xs @ x # ys) b \<longleftrightarrow> path n p a xs x \<and> path n p x ys b"
  by (induction xs arbitrary: a) auto

lemma path_cong:
  assumes "\<And>y. y \<in> insert a (set xs) \<Longrightarrow> n' y = n y" and "\<And>y. y \<in> insert b (set xs) \<Longrightarrow> p' y = p y"
  shows "path n' p' a xs b \<longleftrightarrow> path n p a xs b"
  using assms by (induction xs arbitrary: a) auto

lemma path_pred: "path n p a xs b \<Longrightarrow> p b \<in> insert a (set xs)"
  by (induction xs arbitrary: a) auto

lemma path_retarget:
  "path n p a xs x \<Longrightarrow> distinct (a # xs) \<Longrightarrow> t \<notin> set xs
    \<Longrightarrow> path (n(p x := t)) (p(t := p x)) a xs t"
proof (induction xs arbitrary: a)
  case Nil
  then show ?case by simp
next
  case (Cons y ys)
  from path_pred [of n p y ys x] Cons.prems have "p x \<noteq> a" by auto
  then show ?case using Cons by auto
qed

lemma path_resource:
  assumes "path n p a xs b" and "x \<notin> set xs" and "distinct xs" and "b \<notin> set xs"
  shows "path (n(x := n a)) (p(n a := x)) x xs b"
proof (cases xs)
  case Nil
  then show ?thesis using assms(1) by simp
next
  case (Cons y ys)
  then have y: "n a = y" "path n p y ys b" using assms(1) by auto
  have "path (n(x := y)) (p(y := x)) y ys b"
    using y(2) assms Cons by (subst path_cong [where n = n and p = p]) auto
  then show ?thesis using y(1) Cons by simp
qed

lemma ring_empty_iff: "ring n p h ns \<Longrightarrow> n h = h \<longleftrightarrow> ns = []"
  unfolding ring_def by (cases ns) auto

lemma ring_hd: "ring n p h (x # ns) \<Longrightarrow> n h = x"
  unfolding ring_def by simp

lemma ring_remove:
  assumes "ring n p h (as @ x # bs)"
  shows "ring (n(p x := n x)) (p(n x := p x)) h (as @ bs)"
proof (cases bs)
  case Nil
  with assms show ?thesis
    unfolding ring_def path_append using path_retarget [of n p h as x h] by auto
next
  case (Cons v ys)
  from assms have d: "distinct (h # as @ x # bs)" and p1: "path n p h as x" and p2: "path n p x bs h"
    unfolding ring_def path_append by auto
  have v: "n x = v" "path n p v ys h" using p2 Cons by auto
  have u: "p x \<in> insert h (set as)" by (rule path_pred [OF p1])
  have "path (n(p x := v)) (p(v := p x)) h as v"
    using path_retarget [OF p1, of v] d Cons by auto
  moreover have "path (n(p x := v)) (p(v := p x)) v ys h"
    using v(2) d Cons u by (subst path_cong [where n = n and p = p]) auto
  ultimately show ?thesis using d v(1) Cons by (auto simp: ring_def path_append)
qed

lemma ring_insert_tail:
  assumes "ring n p h ns" and "x \<notin> set ns" and "x \<noteq> h"
  shows "ring (n(x := h, p h := x)) (p(x := p h, h := x)) h (ns @ [x])"
proof -
  from assms have d: "distinct (h # ns)" and pt: "path n p h ns h" by (auto simp: ring_def)
  have u: "p h \<in> insert h (set ns)" by (rule path_pred [OF pt])
  have "path (n(p h := x)) (p(x := p h)) h ns x"
    using path_retarget [OF pt, of x] d assms by auto
  then have "path (n(x := h, p h := x)) (p(x := p h, h := x)) h ns x"
    using d assms u by (subst path_cong [where n = "n(p h := x)" and p = "p(x := p h)"]) auto
  then show ?thesis using d assms u by (auto simp: ring_def path_append)
qed

lemma ring_insert_head:
  assumes "ring n p h ns" and "x \<notin> set ns" and "x \<noteq> h"
  shows "ring (n(x := n h, h := x)) (p(x := h, n h := x)) h (x # ns)"
proof -
  from assms have d: "distinct (h # ns)" and pt: "path n p h ns h" by (auto simp: ring_def)
  have v: "n h \<noteq> x" using pt assms by (cases ns) auto
  have "path (n(x := n h)) (p(n h := x)) x ns h"
    using path_resource [OF pt, of x] d assms by auto
  then have "path (n(x := n h, h := x)) (p(x := h, n h := x)) x ns h"
    using d assms by (subst path_cong [where n = "n(x := n h)" and p = "p(n h := x)"]) auto
  then show ?thesis using d assms v by (auto simp: ring_def)
qed


section \<open>Stores of linked objects\<close>

text \<open>
  The interface: reading the two link fields of an object, writing one of them, which fails when
  there is no object at the address, and the rest of the store (\<open>rest\<close>), which a link update
  leaves alone.
\<close>

locale ring_links =
  fixes nxt :: "'h \<Rightarrow> ptr \<Rightarrow> ptr" and prv :: "'h \<Rightarrow> ptr \<Rightarrow> ptr"
    and set_nxt :: "'h \<Rightarrow> ptr \<Rightarrow> ptr \<Rightarrow> 'h option" and set_prv :: "'h \<Rightarrow> ptr \<Rightarrow> ptr \<Rightarrow> 'h option"
    and live :: "'h \<Rightarrow> ptr set" and rest :: "'h \<Rightarrow> 'r"
  assumes set_nxt_law: "a \<in> live h \<Longrightarrow>
      \<exists>h'. set_nxt h a v = Some h' \<and> nxt h' = (nxt h)(a := v) \<and> prv h' = prv h
        \<and> live h' = live h \<and> rest h' = rest h"
    and set_prv_law: "a \<in> live h \<Longrightarrow>
      \<exists>h'. set_prv h a v = Some h' \<and> nxt h' = nxt h \<and> prv h' = (prv h)(a := v)
        \<and> live h' = live h \<and> rest h' = rest h"
begin

definition linked :: "'h \<Rightarrow> ptr \<Rightarrow> ptr list \<Rightarrow> bool" where
  "linked h hd_obj ns \<longleftrightarrow> ring (nxt h) (prv h) hd_obj ns \<and> insert hd_obj (set ns) \<subseteq> live h"

lemma linked_neighbours:
  assumes "linked h hd_obj ns" and "x \<in> insert hd_obj (set ns)"
  shows "nxt h x \<in> insert hd_obj (set ns)" and "prv h x \<in> insert hd_obj (set ns)"
proof -
  have r: "ring (nxt h) (prv h) hd_obj ns" using assms(1) by (simp add: linked_def)
  have "path n p a xs b \<Longrightarrow> y \<in> insert a (set xs) \<Longrightarrow> n y \<in> insert b (set xs)" for n p a xs b y
    by (induction xs arbitrary: a) auto
  then show "nxt h x \<in> insert hd_obj (set ns)" using r assms(2) unfolding ring_def by blast
  have "path n p a xs b \<Longrightarrow> y \<in> insert b (set xs) \<Longrightarrow> p y \<in> insert a (set xs)" for n p a xs b y
    by (induction xs arbitrary: a) auto
  then show "prv h x \<in> insert hd_obj (set ns)" using r assms(2) unfolding ring_def by blast
qed

lemma unlink_links:
  assumes "linked h hd_obj (as @ x # bs)"
  shows "\<exists>h1 h2. set_nxt h (prv h x) (nxt h x) = Some h1 \<and> set_prv h1 (nxt h x) (prv h x) = Some h2
    \<and> linked h2 hd_obj (as @ bs) \<and> live h2 = live h \<and> rest h2 = rest h"
proof -
  have live: "prv h x \<in> live h" "nxt h x \<in> live h"
    using linked_neighbours [OF assms, of x] assms by (auto simp: linked_def)
  from set_nxt_law [OF live(1), of "nxt h x"] obtain h1 where
    1: "set_nxt h (prv h x) (nxt h x) = Some h1" "nxt h1 = (nxt h)(prv h x := nxt h x)"
       "prv h1 = prv h" "live h1 = live h" "rest h1 = rest h" by blast
  from set_prv_law [of "nxt h x" h1 "prv h x"] live(2) 1(4) obtain h2 where
    2: "set_prv h1 (nxt h x) (prv h x) = Some h2" "nxt h2 = nxt h1"
       "prv h2 = (prv h1)(nxt h x := prv h x)" "live h2 = live h1" "rest h2 = rest h1" by blast
  have "ring (nxt h2) (prv h2) hd_obj (as @ bs)"
    using ring_remove [of "nxt h" "prv h" hd_obj as x bs] assms 1 2 by (simp add: linked_def)
  then have "linked h2 hd_obj (as @ bs)" using assms 1 2 by (auto simp: linked_def)
  then show ?thesis using 1 2 by auto
qed

lemma push_back_links:
  assumes "linked h hd_obj ns" and "x \<notin> set ns" and "x \<noteq> hd_obj" and "x \<in> live h"
  shows "\<exists>h1 h2 h3 h4. set_prv h x (prv h hd_obj) = Some h1 \<and> set_nxt h1 x hd_obj = Some h2
    \<and> set_prv h2 hd_obj x = Some h3 \<and> set_nxt h3 (prv h hd_obj) x = Some h4
    \<and> linked h4 hd_obj (ns @ [x]) \<and> live h4 = live h \<and> rest h4 = rest h"
proof -
  have live: "prv h hd_obj \<in> live h" "hd_obj \<in> live h"
    using linked_neighbours [OF assms(1), of hd_obj] assms(1) by (auto simp: linked_def)
  from set_prv_law [OF assms(4), of "prv h hd_obj"] obtain h1 where
    1: "set_prv h x (prv h hd_obj) = Some h1" "nxt h1 = nxt h"
       "prv h1 = (prv h)(x := prv h hd_obj)" "live h1 = live h" "rest h1 = rest h" by blast
  from set_nxt_law [of x h1 hd_obj] assms(4) 1(4) obtain h2 where
    2: "set_nxt h1 x hd_obj = Some h2" "nxt h2 = (nxt h1)(x := hd_obj)" "prv h2 = prv h1"
       "live h2 = live h1" "rest h2 = rest h1" by blast
  from set_prv_law [of hd_obj h2 x] live 1(4) 2(4) obtain h3 where
    3: "set_prv h2 hd_obj x = Some h3" "nxt h3 = nxt h2" "prv h3 = (prv h2)(hd_obj := x)"
       "live h3 = live h2" "rest h3 = rest h2" by blast
  from set_nxt_law [of "prv h hd_obj" h3 x] live 1(4) 2(4) 3(4) obtain h4 where
    4: "set_nxt h3 (prv h hd_obj) x = Some h4" "nxt h4 = (nxt h3)(prv h hd_obj := x)"
       "prv h4 = prv h3" "live h4 = live h3" "rest h4 = rest h3" by blast
  have "ring (nxt h4) (prv h4) hd_obj (ns @ [x])"
    using ring_insert_tail [of "nxt h" "prv h" hd_obj ns x] assms 1 2 3 4 by (simp add: linked_def)
  then have "linked h4 hd_obj (ns @ [x])" using assms 1 2 3 4 by (auto simp: linked_def)
  then show ?thesis using 1 2 3 4 by auto
qed

lemma push_front_links:
  assumes "linked h hd_obj ns" and "x \<notin> set ns" and "x \<noteq> hd_obj" and "x \<in> live h"
  shows "\<exists>h1 h2 h3 h4. set_nxt h x (nxt h hd_obj) = Some h1 \<and> set_prv h1 x hd_obj = Some h2
    \<and> set_nxt h2 hd_obj x = Some h3 \<and> set_prv h3 (nxt h hd_obj) x = Some h4
    \<and> linked h4 hd_obj (x # ns) \<and> live h4 = live h \<and> rest h4 = rest h"
proof -
  have live: "nxt h hd_obj \<in> live h" "hd_obj \<in> live h"
    using linked_neighbours [OF assms(1), of hd_obj] assms(1) by (auto simp: linked_def)
  from set_nxt_law [OF assms(4), of "nxt h hd_obj"] obtain h1 where
    1: "set_nxt h x (nxt h hd_obj) = Some h1" "prv h1 = prv h"
       "nxt h1 = (nxt h)(x := nxt h hd_obj)" "live h1 = live h" "rest h1 = rest h" by blast
  from set_prv_law [of x h1 hd_obj] assms(4) 1(4) obtain h2 where
    2: "set_prv h1 x hd_obj = Some h2" "prv h2 = (prv h1)(x := hd_obj)" "nxt h2 = nxt h1"
       "live h2 = live h1" "rest h2 = rest h1" by blast
  from set_nxt_law [of hd_obj h2 x] live 1(4) 2(4) obtain h3 where
    3: "set_nxt h2 hd_obj x = Some h3" "prv h3 = prv h2" "nxt h3 = (nxt h2)(hd_obj := x)"
       "live h3 = live h2" "rest h3 = rest h2" by blast
  from set_prv_law [of "nxt h hd_obj" h3 x] live 1(4) 2(4) 3(4) obtain h4 where
    4: "set_prv h3 (nxt h hd_obj) x = Some h4" "prv h4 = (prv h3)(nxt h hd_obj := x)"
       "nxt h4 = nxt h3" "live h4 = live h3" "rest h4 = rest h3" by blast
  have "ring (nxt h4) (prv h4) hd_obj (x # ns)"
    using ring_insert_head [of "nxt h" "prv h" hd_obj ns x] assms 1 2 3 4 by (simp add: linked_def)
  then have "linked h4 hd_obj (x # ns)" using assms 1 2 3 4 by (auto simp: linked_def)
  then show ?thesis using 1 2 3 4 by auto
qed

end

end
