(* ===== verification/Buffer_Cache.thy ===== *)
theory Buffer_Cache
  imports Free_Ring
begin

text \<open>
  The block buffer cache: \<^verbatim>\<open>fs/bhash.c\<close>, \<^verbatim>\<open>include/fs/bhash.h\<close>, \<^verbatim>\<open>include/fs/device.h\<close> and
  \<^verbatim>\<open>fs/devices.c\<close>. Buffers live in a store of headers; the hash table cells are words of
  memory, because \<open>create_hash_queue\<close> clears the pointer to the table it has just allocated.
  The driver entry points reached through \<^verbatim>\<open>dev_ops\<close> and \<^verbatim>\<open>sleep_on\<close> (what the other
  processes did until this one runs again) are arguments; \<^verbatim>\<open>wakeup\<close> calls are recorded.
\<close>

section \<open>Data\<close>

abbreviation (input) BUFF_ST_UNLOCKED :: byte where "BUFF_ST_UNLOCKED \<equiv> 0x01"
abbreviation (input) BUFF_ST_VALID :: byte where "BUFF_ST_VALID \<equiv> 0x02"
abbreviation (input) BUFF_ST_FLUSH :: byte where "BUFF_ST_FLUSH \<equiv> 0x04"
abbreviation (input) BUFF_ST_BUSY :: byte where "BUFF_ST_BUSY \<equiv> 0x08"
abbreviation (input) BUFF_ST_HEAD :: byte where "BUFF_ST_HEAD \<equiv> 0x40"
abbreviation (input) BUFF_SIZE :: nat where "BUFF_SIZE \<equiv> 512"
abbreviation (input) BUFF_QUEUE_SIZE :: nat where "BUFF_QUEUE_SIZE \<equiv> 1024"
abbreviation (input) WAIT_THIS_BLOCK_BUFFER_GET_FREE :: int where "WAIT_THIS_BLOCK_BUFFER_GET_FREE \<equiv> 1"
abbreviation (input) WAIT_BLOCK_BUFFER_GET_FREE :: int where "WAIT_BLOCK_BUFFER_GET_FREE \<equiv> 2"

record buff_header =
  bh_addr :: u64
  bh_device :: int
  bh_status :: byte
  bh_data :: "byte list"
  bh_prev :: ptr
  bh_next :: ptr
  bh_free_prev :: ptr
  bh_free_next :: ptr

type_synonym bheap = "ptr \<rightharpoonup> buff_header"

record buff_hashq =
  hq_size :: u64
  hq_hashtable :: ptr
  hq_freelist_head :: ptr

record blk_driver =
  bd_major :: int
  bd_size :: u64
  bd_buffer_queue :: ptr
  bd_inodes_hash_table :: "ptr list"
  bd_dev_ops :: ptr

record bcache =
  bc_blocks :: bheap
  bc_cells :: "nat \<Rightarrow> ptr"
  bc_queues :: "ptr \<rightharpoonup> buff_hashq"
  bc_drivers :: "ptr list"
  bc_drv :: "ptr \<rightharpoonup> blk_driver"
  bc_wakeups :: "int list"

text \<open>The function pointers of \<^verbatim>\<open>struct _blk_dev_op\<close>.\<close>

type_synonym blk_op = "int \<Rightarrow> int \<Rightarrow> ptr \<Rightarrow> bcache \<Rightarrow> (int \<times> bcache) option"

record blk_dev_op =
  read_sync_block :: blk_op
  read_async_block :: blk_op
  write_async_block :: blk_op
  write_sync_block :: blk_op

text \<open>The address of \<^verbatim>\<open>queue->blocks[i]\<close>; a header takes 544 bytes and the array starts at
  offset 16 of the queue.\<close>

definition block_addr :: "ptr \<Rightarrow> nat \<Rightarrow> ptr" where
  "block_addr q i = q + 16 + 544 * i"

text \<open>The address of \<^verbatim>\<open>queue->hashtable[pos]\<close>.\<close>

definition hash_cell :: "buff_hashq \<Rightarrow> u64 \<Rightarrow> ptr" where
  "hash_cell q pos = hq_hashtable q + 4 * unat pos"

section \<open>Creating a queue\<close>

definition zero_header :: buff_header where
  "zero_header = \<lparr>bh_addr = 0, bh_device = 0, bh_status = 0, bh_data = replicate BUFF_SIZE 0,
     bh_prev = NULL, bh_next = NULL, bh_free_prev = NULL, bh_free_next = NULL\<rparr>"

text \<open>The part of \<^verbatim>\<open>memset(hash_queue, 0, sizeof)\<close> that clears the array of headers.\<close>

fun clear_blocks :: "bheap \<Rightarrow> ptr \<Rightarrow> nat \<Rightarrow> bheap" where
  "clear_blocks h q 0 = h"
| "clear_blocks h q (Suc i) = (clear_blocks h q i)(block_addr q i \<mapsto> zero_header)"

definition set_free_next :: "bheap \<Rightarrow> ptr \<Rightarrow> ptr \<Rightarrow> bheap option" where
  "set_free_next h a v = upd_at h a (\<lambda>b. b\<lparr>bh_free_next := v\<rparr>)"

definition set_free_prev :: "bheap \<Rightarrow> ptr \<Rightarrow> ptr \<Rightarrow> bheap option" where
  "set_free_prev h a v = upd_at h a (\<lambda>b. b\<lparr>bh_free_prev := v\<rparr>)"

text \<open>The loop over the remaining \<open>k\<close> blocks, from index \<open>i\<close> on.\<close>

fun link_blocks :: "bheap \<Rightarrow> ptr \<Rightarrow> ptr \<Rightarrow> ptr \<Rightarrow> nat \<Rightarrow> nat \<Rightarrow> bheap option" where
  "link_blocks h q head prev i 0 = Some h"
| "link_blocks h q head prev i (Suc k) = do {
     let nblock = block_addr q i;
     h1 \<leftarrow> set_free_prev h nblock prev;
     h2 \<leftarrow> set_free_next h1 nblock head;
     h3 \<leftarrow> set_free_prev h2 head nblock;
     h4 \<leftarrow> set_free_next h3 prev nblock;
     link_blocks h4 q head nblock (i + 1) k
   }"

text \<open>\<open>new_q\<close> and \<open>new_ht\<close> are the results of the two \<^verbatim>\<open>kmalloc\<close> calls.\<close>

definition create_hash_queue :: "bcache \<Rightarrow> u64 \<Rightarrow> ptr \<Rightarrow> ptr \<Rightarrow> (ptr \<times> bcache) option" where
  "create_hash_queue st size0 new_q new_ht =
     (if new_q = NULL then Some (NULL, st)
      else if new_ht = NULL then Some (NULL, st)
      else do {
        let hq = \<lparr>hq_size = 0, hq_hashtable = NULL, hq_freelist_head = NULL\<rparr>;
        let h0 = clear_blocks (bc_blocks st) new_q BUFF_QUEUE_SIZE;
        let cells = (bc_cells st)(hash_cell hq 0 := NULL, hash_cell hq 1 := NULL,
                                  hash_cell hq 2 := NULL, hash_cell hq 3 := NULL);
        let head = block_addr new_q 0;
        h1 \<leftarrow> set_free_prev h0 head head;
        h2 \<leftarrow> set_free_next h1 head head;
        h3 \<leftarrow> upd_at h2 head (\<lambda>b. b\<lparr>bh_status := BUFF_ST_HEAD\<rparr>);
        h4 \<leftarrow> link_blocks h3 new_q head head 1 (BUFF_QUEUE_SIZE - 1);
        Some (new_q, st\<lparr>bc_blocks := h4, bc_cells := cells,
                        bc_queues := (bc_queues st)(new_q \<mapsto> hq\<lparr>hq_freelist_head := head\<rparr>)\<rparr>)
      })"

section \<open>Searching\<close>

partial_function (option) chain_find :: "bheap \<Rightarrow> int \<Rightarrow> u64 \<Rightarrow> ptr \<Rightarrow> ptr option" where
  "chain_find h device blocknum tmp =
     (if tmp \<noteq> NULL then do {
        b \<leftarrow> h tmp;
        if bh_addr b = blocknum \<and> bh_device b = device then Some tmp
        else chain_find h device blocknum (bh_next b)
      } else Some tmp)"

definition search_blk :: "bcache \<Rightarrow> ptr \<Rightarrow> int \<Rightarrow> u64 \<Rightarrow> ptr option" where
  "search_blk st queue device blocknum = do {
     q \<leftarrow> bc_queues st queue;
     let head = bc_cells st (hash_cell q (blocknum mod 4));
     if head = NULL then Some NULL
     else chain_find (bc_blocks st) device blocknum head
   }"

partial_function (option) free_find :: "bheap \<Rightarrow> int \<Rightarrow> u64 \<Rightarrow> ptr \<Rightarrow> ptr \<Rightarrow> ptr option" where
  "free_find h device blocknum head tmp =
     (if tmp \<noteq> head then do {
        b \<leftarrow> h tmp;
        if bh_addr b = blocknum \<and> bh_device b = device then Some tmp
        else free_find h device blocknum head (bh_free_next b)
      } else Some tmp)"

definition blk_remove_from_freelist :: "bcache \<Rightarrow> ptr \<Rightarrow> int \<Rightarrow> u64 \<Rightarrow> bcache option" where
  "blk_remove_from_freelist st queue device blocknum = do {
     q \<leftarrow> bc_queues st queue;
     let head = hq_freelist_head q;
     hb \<leftarrow> bc_blocks st head;
     tmp \<leftarrow> free_find (bc_blocks st) device blocknum head (bh_free_next hb);
     if tmp = head then Some st
     else do {
       b \<leftarrow> bc_blocks st tmp;
       h1 \<leftarrow> upd_at (bc_blocks st) (bh_free_next b) (\<lambda>x. x\<lparr>bh_prev := bh_free_prev b\<rparr>);
       h2 \<leftarrow> upd_at h1 (bh_free_prev b) (\<lambda>x. x\<lparr>bh_next := bh_free_next b\<rparr>);
       Some (st\<lparr>bc_blocks := h2\<rparr>)
     }
   }"

definition get_free_blk :: "bcache \<Rightarrow> ptr \<Rightarrow> int \<Rightarrow> u64 \<Rightarrow> (ptr \<times> bcache) option" where
  "get_free_blk st queue device blocknum = do {
     q \<leftarrow> bc_queues st queue;
     let head = hq_freelist_head q;
     hb \<leftarrow> bc_blocks st head;
     if bh_free_next hb = head then Some (NULL, st)
     else do {
       t \<leftarrow> free_find (bc_blocks st) device blocknum head (bh_free_next hb);
       let tmp = (if t = head then bh_free_next hb else t);
       b \<leftarrow> bc_blocks st tmp;
       h1 \<leftarrow> set_free_next (bc_blocks st) (bh_free_prev b) (bh_free_next b);
       h2 \<leftarrow> set_free_prev h1 (bh_free_next b) (bh_free_prev b);
       Some (tmp, st\<lparr>bc_blocks := h2\<rparr>)
     }
   }"

section \<open>Hash chains\<close>

text \<open>The loop of \<open>add_to_buff_queue\<close> that unlinks the buffer from its old chain.\<close>

partial_function (option) unchain :: "bheap \<Rightarrow> int \<Rightarrow> u64 \<Rightarrow> ptr \<Rightarrow> bheap option" where
  "unchain h device addr tmp = do {
     b \<leftarrow> h tmp;
     if bh_next b \<noteq> NULL then do {
       h' \<leftarrow> (if bh_addr b = addr \<and> bh_device b = device then do {
                h1 \<leftarrow> upd_at h (bh_next b) (\<lambda>x. x\<lparr>bh_prev := bh_prev b\<rparr>);
                upd_at h1 (bh_prev b) (\<lambda>x. x\<lparr>bh_next := bh_next b\<rparr>)
              } else Some h);
       b' \<leftarrow> h' tmp;
       unchain h' device addr (bh_next b')
     } else Some h
   }"

partial_function (option) chain_last :: "bheap \<Rightarrow> ptr \<Rightarrow> ptr option" where
  "chain_last h tmp = do {
     b \<leftarrow> h tmp;
     if bh_next b \<noteq> NULL then chain_last h (bh_next b) else Some tmp
   }"

text \<open>The first half of \<open>add_to_buff_queue\<close>.\<close>

definition leave_old_chain :: "bcache \<Rightarrow> ptr \<Rightarrow> ptr \<Rightarrow> int \<Rightarrow> bcache option" where
  "leave_old_chain st queue buff device = do {
     q \<leftarrow> bc_queues st queue;
     b \<leftarrow> bc_blocks st buff;
     let cell = hash_cell q (bh_addr b mod 4);
     let head = bc_cells st cell;
     if head = NULL then Some st
     else do {
       found \<leftarrow> search_blk st queue device (bh_addr b);
       if found = NULL then Some st
       else do {
         hb \<leftarrow> bc_blocks st head;
         if bh_next hb = NULL then Some (st\<lparr>bc_cells := (bc_cells st)(cell := NULL)\<rparr>)
         else do {
           h \<leftarrow> unchain (bc_blocks st) device (bh_addr b) head;
           Some (st\<lparr>bc_blocks := h\<rparr>)
         }
       }
     }
   }"

definition add_to_buff_queue :: "bcache \<Rightarrow> ptr \<Rightarrow> ptr \<Rightarrow> int \<Rightarrow> u64 \<Rightarrow> bcache option" where
  "add_to_buff_queue st0 queue buff device blocknum = do {
     st \<leftarrow> leave_old_chain st0 queue buff device;
     q \<leftarrow> bc_queues st queue;
     let cell = hash_cell q (blocknum mod 4);
     let head = bc_cells st cell;
     h \<leftarrow> upd_at (bc_blocks st) buff (\<lambda>b. b\<lparr>bh_addr := blocknum, bh_device := device\<rparr>);
     if head = NULL then do {
       h1 \<leftarrow> upd_at h buff (\<lambda>b. b\<lparr>bh_next := NULL, bh_prev := buff\<rparr>);
       Some (st\<lparr>bc_blocks := h1, bc_cells := (bc_cells st)(cell := buff)\<rparr>)
     } else do {
       hb \<leftarrow> h head;
       if bh_next hb = NULL then do {
         h1 \<leftarrow> upd_at h head (\<lambda>b. b\<lparr>bh_next := buff, bh_prev := NULL\<rparr>);
         h2 \<leftarrow> upd_at h1 buff (\<lambda>b. b\<lparr>bh_next := NULL, bh_prev := head\<rparr>);
         Some (st\<lparr>bc_blocks := h2\<rparr>)
       } else do {
         tmp \<leftarrow> chain_last h head;
         h1 \<leftarrow> upd_at h buff (\<lambda>b. b\<lparr>bh_prev := tmp, bh_next := NULL\<rparr>);
         h2 \<leftarrow> upd_at h1 tmp (\<lambda>b. b\<lparr>bh_next := buff\<rparr>);
         Some (st\<lparr>bc_blocks := h2\<rparr>)
       }
     }
   }"

section \<open>Getting and releasing buffers\<close>

text \<open>\<^verbatim>\<open>block_dev_drivers[major]\<close>; \<open>None\<close> outside the table.\<close>

definition block_dev_driver :: "bcache \<Rightarrow> int \<Rightarrow> ptr option" where
  "block_dev_driver st major =
     (if 0 \<le> major \<and> nat major < length (bc_drivers st) then Some (bc_drivers st ! nat major) else None)"

definition set_status :: "bcache \<Rightarrow> ptr \<Rightarrow> byte \<Rightarrow> bcache option" where
  "set_status st buff s = do {
     h \<leftarrow> upd_at (bc_blocks st) buff (\<lambda>b. b\<lparr>bh_status := s\<rparr>);
     Some (st\<lparr>bc_blocks := h\<rparr>)
   }"

text \<open>The \<^verbatim>\<open>while(1)\<close> of \<open>getblk\<close>.\<close>

partial_function (option) getblk_loop ::
  "(ptr \<Rightarrow> blk_dev_op) \<Rightarrow> (int \<Rightarrow> bcache \<Rightarrow> bcache option) \<Rightarrow> ptr \<Rightarrow> int \<Rightarrow> int \<Rightarrow> u64 \<Rightarrow> bcache
    \<Rightarrow> (ptr \<times> bcache) option" where
  "getblk_loop ops sleep_on driver major device blocknum st = do {
     d \<leftarrow> bc_drv st driver;
     buff \<leftarrow> search_blk st (bd_buffer_queue d) device blocknum;
     if buff \<noteq> NULL then do {
       b \<leftarrow> bc_blocks st buff;
       if bh_status b = BUFF_ST_BUSY then do {
         st' \<leftarrow> sleep_on WAIT_THIS_BLOCK_BUFFER_GET_FREE st;
         getblk_loop ops sleep_on driver major device blocknum st'
       } else do {
         st1 \<leftarrow> set_status st buff BUFF_ST_BUSY;
         st2 \<leftarrow> blk_remove_from_freelist st1 (bd_buffer_queue d) device blocknum;
         Some (buff, st2)
       }
     } else do {
       r \<leftarrow> get_free_blk st (bd_buffer_queue d) device blocknum;
       if fst r = NULL then do {
         st' \<leftarrow> sleep_on WAIT_BLOCK_BUFFER_GET_FREE (snd r);
         getblk_loop ops sleep_on driver major device blocknum st'
       } else do {
         b \<leftarrow> bc_blocks (snd r) (fst r);
         if bh_status b = BUFF_ST_FLUSH then do {
           w \<leftarrow> write_async_block (ops (bd_dev_ops d)) major device (fst r) (snd r);
           getblk_loop ops sleep_on driver major device blocknum (snd w)
         } else do {
           st2 \<leftarrow> add_to_buff_queue (snd r) (bd_buffer_queue d) (fst r) device blocknum;
           Some (fst r, st2)
         }
       }
     }
   }"

definition getblk ::
  "(ptr \<Rightarrow> blk_dev_op) \<Rightarrow> (int \<Rightarrow> bcache \<Rightarrow> bcache option) \<Rightarrow> bcache \<Rightarrow> int \<Rightarrow> int \<Rightarrow> u64
    \<Rightarrow> (ptr \<times> bcache) option" where
  "getblk ops sleep_on st major device blocknum = do {
     driver \<leftarrow> block_dev_driver st major;
     if driver = NULL then Some (NULL, st)
     else getblk_loop ops sleep_on driver major device blocknum st
   }"

definition brelse :: "bcache \<Rightarrow> int \<Rightarrow> int \<Rightarrow> ptr \<Rightarrow> bcache option" where
  "brelse st major device buff = do {
     driver \<leftarrow> block_dev_driver st major;
     let st1 = st\<lparr>bc_wakeups := bc_wakeups st @ [WAIT_BLOCK_BUFFER_GET_FREE, WAIT_THIS_BLOCK_BUFFER_GET_FREE]\<rparr>;
     if driver = NULL then Some st1
     else do {
       d \<leftarrow> bc_drv st1 driver;
       q \<leftarrow> bc_queues st1 (bd_buffer_queue d);
       let head = hq_freelist_head q;
       let h = bc_blocks st1;
       b \<leftarrow> h buff;
       hb \<leftarrow> h head;
       h4 \<leftarrow> (if bh_status b = BUFF_ST_VALID then do {
                let tmp = bh_free_prev hb;
                h1 \<leftarrow> set_free_prev h buff tmp;
                h2 \<leftarrow> set_free_next h1 buff head;
                h3 \<leftarrow> set_free_prev h2 head buff;
                set_free_next h3 tmp buff
              } else do {
                let tmp = bh_free_next hb;
                h1 \<leftarrow> set_free_next h buff tmp;
                h2 \<leftarrow> set_free_prev h1 buff head;
                h3 \<leftarrow> set_free_next h2 head buff;
                set_free_prev h3 tmp buff
              });
       set_status (st1\<lparr>bc_blocks := h4\<rparr>) buff BUFF_ST_UNLOCKED
     }
   }"

text \<open>Both read paths first turn a busy buffer (a cache hit) into a valid one.\<close>

definition busy_to_valid :: "bcache \<Rightarrow> ptr \<Rightarrow> bcache option" where
  "busy_to_valid st buff = do {
     b \<leftarrow> bc_blocks st buff;
     if bh_status b = BUFF_ST_BUSY then set_status st buff BUFF_ST_VALID else Some st
   }"

definition bread ::
  "(ptr \<Rightarrow> blk_dev_op) \<Rightarrow> (int \<Rightarrow> bcache \<Rightarrow> bcache option) \<Rightarrow> bcache \<Rightarrow> int \<Rightarrow> int \<Rightarrow> u64
    \<Rightarrow> (ptr \<times> bcache) option" where
  "bread ops sleep_on st major device blocknum = do {
     driver \<leftarrow> block_dev_driver st major;
     if driver = NULL then Some (NULL, st)
     else do {
       (buff, st1) \<leftarrow> getblk ops sleep_on st major device blocknum;
       if buff = NULL then Some (NULL, st1)
       else do {
         st2 \<leftarrow> busy_to_valid st1 buff;
         b \<leftarrow> bc_blocks st2 buff;
         if bh_status b \<noteq> BUFF_ST_VALID then do {
           d \<leftarrow> bc_drv st2 driver;
           (r, st3) \<leftarrow> read_sync_block (ops (bd_dev_ops d)) major device buff st2;
           Some (buff, st3)
         } else Some (buff, st2)
       }
     }
   }"

definition breada ::
  "(ptr \<Rightarrow> blk_dev_op) \<Rightarrow> (int \<Rightarrow> bcache \<Rightarrow> bcache option) \<Rightarrow> bcache \<Rightarrow> int \<Rightarrow> int \<Rightarrow> u64 \<Rightarrow> u64
    \<Rightarrow> (ptr \<times> bcache) option" where
  "breada ops sleep_on st major device blocknum1 blocknum2 = do {
     driver \<leftarrow> block_dev_driver st major;
     (buff1, st1) \<leftarrow> bread ops sleep_on st major device blocknum1;
     (buff2, st2) \<leftarrow> getblk ops sleep_on st1 major device blocknum2;
     if buff2 = NULL then Some (NULL, st2)
     else do {
       st3 \<leftarrow> busy_to_valid st2 buff2;
       b \<leftarrow> bc_blocks st3 buff2;
       if bh_status b \<noteq> BUFF_ST_VALID then do {
         d \<leftarrow> bc_drv st3 driver;
         (r, st4) \<leftarrow> read_async_block (ops (bd_dev_ops d)) major device buff2 st3;
         Some (NULL, st4)
       } else do {
         st4 \<leftarrow> brelse st3 major device buff2;
         Some (NULL, st4)
       }
     }
   }"

abbreviation (input) BWRITE_SYNC :: int where "BWRITE_SYNC \<equiv> 1"
abbreviation (input) BWRITE_ASYNC :: int where "BWRITE_ASYNC \<equiv> 2"
abbreviation (input) BWRITE_DELAYED :: int where "BWRITE_DELAYED \<equiv> 3"

definition bwrite :: "(ptr \<Rightarrow> blk_dev_op) \<Rightarrow> bcache \<Rightarrow> int \<Rightarrow> int \<Rightarrow> ptr \<Rightarrow> int \<Rightarrow> (int \<times> bcache) option" where
  "bwrite ops st major device buff kind = do {
     driver \<leftarrow> block_dev_driver st major;
     if buff = NULL then Some (0, st)
     else if kind = BWRITE_DELAYED then do {
       st1 \<leftarrow> set_status st buff BUFF_ST_FLUSH;
       d \<leftarrow> bc_drv st1 driver;
       q \<leftarrow> bc_queues st1 (bd_buffer_queue d);
       let head = hq_freelist_head q;
       hb \<leftarrow> bc_blocks st1 head;
       let tmp = bh_free_next hb;
       h1 \<leftarrow> set_free_next (bc_blocks st1) buff tmp;
       h2 \<leftarrow> set_free_prev h1 buff head;
       h3 \<leftarrow> set_free_next h2 head buff;
       h4 \<leftarrow> set_free_prev h3 tmp buff;
       Some (1, st1\<lparr>bc_blocks := h4\<rparr>)
     }
     else if kind = BWRITE_SYNC then do {
       d \<leftarrow> bc_drv st driver;
       write_sync_block (ops (bd_dev_ops d)) major device buff st
     }
     else if kind = BWRITE_ASYNC then do {
       d \<leftarrow> bc_drv st driver;
       write_async_block (ops (bd_dev_ops d)) major device buff st
     }
     else Some (0, st)
   }"

section \<open>The table of block drivers\<close>

abbreviation (input) MAX_DEVBLOCK_DRIVERS :: nat where "MAX_DEVBLOCK_DRIVERS \<equiv> 256"
abbreviation (input) MAX_MINOR_DEVICES :: nat where "MAX_MINOR_DEVICES \<equiv> 255"

text \<open>The character driver table is cleared too; nothing reads it.\<close>

definition init_drivers_interface :: "bcache \<Rightarrow> bcache" where
  "init_drivers_interface st = st\<lparr>bc_drivers := replicate MAX_DEVBLOCK_DRIVERS NULL\<rparr>"

definition register_block_driver :: "bcache \<Rightarrow> ptr \<Rightarrow> ptr \<Rightarrow> ptr \<Rightarrow> (int \<times> bcache) option" where
  "register_block_driver st driver new_q new_ht =
     (if driver = NULL then Some (- 1, st)
      else do {
        d \<leftarrow> bc_drv st driver;
        old \<leftarrow> block_dev_driver st (bd_major d);
        if old \<noteq> NULL then Some (- 1, st)
        else do {
          (q, st1) \<leftarrow> create_hash_queue st (bd_size d) new_q new_ht;
          let d1 = d\<lparr>bd_buffer_queue := q\<rparr>;
          if q = NULL then Some (- 1, st1\<lparr>bc_drv := (bc_drv st1)(driver \<mapsto> d1)\<rparr>)
          else Some (0, st1\<lparr>
            bc_drv := (bc_drv st1)(driver \<mapsto> d1\<lparr>bd_inodes_hash_table := replicate MAX_MINOR_DEVICES NULL\<rparr>),
            bc_drivers := (bc_drivers st1)[nat (bd_major d) := driver]\<rparr>)
        }
      })"

section \<open>The free list as a ring\<close>

definition free_list :: "bheap \<Rightarrow> ptr \<Rightarrow> ptr list \<Rightarrow> bool" where
  "free_list h head ns \<longleftrightarrow> ring (field_at bh_free_next h) (field_at bh_free_prev h) head ns
     \<and> insert head (set ns) \<subseteq> dom h"

text \<open>Everything in the headers but the free list links.\<close>

definition payload :: "bheap \<Rightarrow> bheap" where
  "payload h = (\<lambda>a. map_option (\<lambda>b. b\<lparr>bh_free_prev := NULL, bh_free_next := NULL\<rparr>) (h a))"

lemma set_free_next_laws:
  assumes "a \<in> dom h"
  shows "\<exists>h'. set_free_next h a v = Some h'
    \<and> field_at bh_free_next h' = (field_at bh_free_next h)(a := v)
    \<and> field_at bh_free_prev h' = field_at bh_free_prev h \<and> dom h' = dom h \<and> payload h' = payload h"
  using assms by (auto simp: set_free_next_def payload_def field_at_same intro!: ext)

lemma set_free_prev_laws:
  assumes "a \<in> dom h"
  shows "\<exists>h'. set_free_prev h a v = Some h' \<and> field_at bh_free_next h' = field_at bh_free_next h
    \<and> field_at bh_free_prev h' = (field_at bh_free_prev h)(a := v)
    \<and> dom h' = dom h \<and> payload h' = payload h"
  using assms by (auto simp: set_free_prev_def payload_def field_at_same intro!: ext)

interpretation fl: ring_links "field_at bh_free_next" "field_at bh_free_prev"
  set_free_next set_free_prev dom payload
  rewrites fl_linked: "ring_links.linked (field_at bh_free_next) (field_at bh_free_prev) dom = free_list"
proof -
  show loc: "ring_links (field_at bh_free_next) (field_at bh_free_prev) set_free_next set_free_prev dom payload"
    by (unfold_locales; rule set_free_next_laws set_free_prev_laws)
  show "ring_links.linked (field_at bh_free_next) (field_at bh_free_prev) dom = free_list"
    by (intro ext) (simp add: ring_links.linked_def [OF loc] free_list_def)
qed

lemma payload_fields:
  assumes "payload h' = payload h" and "h a = Some b"
  shows "\<exists>b'. h' a = Some b' \<and> bh_addr b' = bh_addr b \<and> bh_device b' = bh_device b
    \<and> bh_status b' = bh_status b \<and> bh_data b' = bh_data b \<and> bh_prev b' = bh_prev b \<and> bh_next b' = bh_next b"
proof -
  from assms have "map_option (\<lambda>b. b\<lparr>bh_free_prev := 0, bh_free_next := 0\<rparr>) (h' a)
      = Some (b\<lparr>bh_free_prev := 0, bh_free_next := 0\<rparr>)"
    by (metis (no_types, lifting) option.simps(9) payload_def)
  then obtain b' where "h' a = Some b'"
    "b'\<lparr>bh_free_prev := 0, bh_free_next := 0\<rparr> = b\<lparr>bh_free_prev := 0, bh_free_next := 0\<rparr>"
    by (auto simp: map_option_case split: option.splits)
  then show ?thesis
    by (metis (no_types, lifting) buff_header.ext_inject buff_header.surjective
        buff_header.update_convs(7,8))
qed

definition holds :: "bheap \<Rightarrow> int \<Rightarrow> u64 \<Rightarrow> ptr \<Rightarrow> bool" where
  "holds h device blocknum a \<longleftrightarrow>
     (case h a of None \<Rightarrow> False | Some b \<Rightarrow> bh_addr b = blocknum \<and> bh_device b = device)"

lemma holds_Some [simp]:
  "h a = Some b \<Longrightarrow> holds h device blocknum a \<longleftrightarrow> bh_addr b = blocknum \<and> bh_device b = device"
  by (simp add: holds_def)

lemma payload_holds: "payload h' = payload h \<Longrightarrow> holds h' = holds h"
proof (intro ext)
  fix d n a
  assume p: "payload h' = payload h"
  show "holds h' d n a = holds h d n a"
  proof (cases "h a")
    case None
    then have "h' a = None" using p by (metis (no_types, lifting) None_eq_map_option_iff payload_def)
    with None show ?thesis by (simp add: holds_def)
  next
    case (Some b)
    with payload_fields [OF p this] show ?thesis by auto
  qed
qed

lemma free_find_head [simp]: "free_find h d n head head = Some head"
  by (subst free_find.simps) simp

lemma free_find_step:
  "x \<noteq> head \<Longrightarrow> h x = Some b \<Longrightarrow>
    free_find h d n head x = (if holds h d n x then Some x else free_find h d n head (bh_free_next b))"
  by (subst free_find.simps) simp

lemma free_find_path:
  "path (field_at bh_free_next h) q a xs head \<Longrightarrow> head \<notin> set xs \<Longrightarrow> set xs \<subseteq> dom h \<Longrightarrow>
    free_find h d n head (field_at bh_free_next h a)
      = Some (case find (holds h d n) xs of None \<Rightarrow> head | Some x \<Rightarrow> x)"
proof (induction xs arbitrary: a)
  case Nil
  then show ?case by simp
next
  case (Cons x xs)
  then obtain b where b: "h x = Some b" by auto
  have "free_find h d n head (bh_free_next b) = Some (case find (holds h d n) xs of None \<Rightarrow> head | Some x \<Rightarrow> x)"
    using Cons.IH [of x] Cons.prems b by simp
  with Cons.prems b show ?case by (auto simp: free_find_step)
qed

lemma free_list_head: "free_list h head ns \<Longrightarrow> \<exists>hb. h head = Some hb"
  by (auto simp: free_list_def)

lemma free_find_ok:
  assumes "free_list h head ns" and "h head = Some hb"
  shows "free_find h d n head (bh_free_next hb)
    = Some (case find (holds h d n) ns of None \<Rightarrow> head | Some x \<Rightarrow> x)"
  using free_find_path [of h "field_at bh_free_prev h" head ns head d n] assms
  by (simp add: free_list_def ring_def)

lemma find_Some_mem: "find P xs = Some x \<Longrightarrow> x \<in> set xs \<and> P x"
  by (auto simp: find_Some_iff)

text \<open>The buffer \<open>get_free_blk\<close> should take: the one that already holds the block, else the
  least recently released.\<close>

definition pick_free :: "bheap \<Rightarrow> int \<Rightarrow> u64 \<Rightarrow> ptr list \<Rightarrow> ptr" where
  "pick_free h d n ns = (case find (holds h d n) ns of None \<Rightarrow> hd ns | Some x \<Rightarrow> x)"

lemma pick_free_mem: "ns \<noteq> [] \<Longrightarrow> pick_free h d n ns \<in> set ns"
  by (auto simp: pick_free_def split: option.splits dest: find_Some_mem)

lemma get_free_blk_ok:
  assumes "bc_queues st queue = Some q" and "free_list (bc_blocks st) (hq_freelist_head q) ns" and "ns \<noteq> []"
  shows "\<exists>h'. get_free_blk st queue d n = Some (pick_free (bc_blocks st) d n ns, st\<lparr>bc_blocks := h'\<rparr>)
    \<and> free_list h' (hq_freelist_head q) (remove1 (pick_free (bc_blocks st) d n ns) ns)
    \<and> payload h' = payload (bc_blocks st)"
proof -
  let ?h = "bc_blocks st" and ?head = "hq_freelist_head q" and ?x = "pick_free (bc_blocks st) d n ns"
  obtain hb where hb: "?h ?head = Some hb" using free_list_head [OF assms(2)] by blast
  have r: "ring (field_at bh_free_next ?h) (field_at bh_free_prev ?h) ?head ns"
    and dm: "set ns \<subseteq> dom ?h" using assms(2) by (auto simp: free_list_def)
  have ne: "bh_free_next hb \<noteq> ?head" using ring_empty_iff [OF r] hb assms(3) by simp
  have hd: "bh_free_next hb = hd ns" using ring_hd [of _ _ ?head "hd ns" "tl ns"] r assms(3) hb by simp
  have nh: "?head \<notin> set ns" using r by (simp add: ring_def)
  have tmp: "(if (case find (holds ?h d n) ns of None \<Rightarrow> ?head | Some x \<Rightarrow> x) = ?head then bh_free_next hb
      else case find (holds ?h d n) ns of None \<Rightarrow> ?head | Some x \<Rightarrow> x) = ?x"
    using nh hd by (auto simp: pick_free_def split: option.splits dest: find_Some_mem)
  obtain as bs where ns: "ns = as @ ?x # bs" "?x \<notin> set as"
    using pick_free_mem [OF assms(3)] by (meson split_list_first)
  obtain b where b: "?h ?x = Some b" using pick_free_mem [OF assms(3)] dm by blast
  from fl.unlink_links [of ?h ?head as ?x bs] assms(2) ns(1) obtain h1 h2 where
    u: "set_free_next ?h (bh_free_prev b) (bh_free_next b) = Some h1"
       "set_free_prev h1 (bh_free_next b) (bh_free_prev b) = Some h2"
       "free_list h2 ?head (as @ bs)" "payload h2 = payload ?h"
    using b by auto
  have "get_free_blk st queue d n = Some (?x, st\<lparr>bc_blocks := h2\<rparr>)"
    unfolding get_free_blk_def Let_def using assms(1) hb ne b u(1,2) free_find_ok [OF assms(2) hb] tmp by simp
  moreover have "remove1 ?x ns = as @ bs"
    using ns by (metis remove1.simps(2) remove1_append)
  ultimately show ?thesis using u(3,4) by auto
qed

lemma get_free_blk_empty:
  assumes "bc_queues st queue = Some q" and "free_list (bc_blocks st) (hq_freelist_head q) []"
  shows "get_free_blk st queue d n = Some (NULL, st)"
proof -
  obtain hb where hb: "bc_blocks st (hq_freelist_head q) = Some hb" using free_list_head [OF assms(2)] by blast
  have "bh_free_next hb = hq_freelist_head q"
    using assms(2) hb by (simp add: free_list_def ring_def)
  then show ?thesis using assms(1) hb by (simp add: get_free_blk_def)
qed

definition driver_ready :: "bcache \<Rightarrow> int \<Rightarrow> ptr \<Rightarrow> blk_driver \<Rightarrow> buff_hashq \<Rightarrow> bool" where
  "driver_ready st major drv d q \<longleftrightarrow> block_dev_driver st major = Some drv \<and> drv \<noteq> NULL
     \<and> bc_drv st drv = Some d \<and> bc_queues st (bd_buffer_queue d) = Some q"

lemma free_list_status:
  assumes "free_list h head ns" and "h x = Some b"
  shows "free_list (h(x \<mapsto> b\<lparr>bh_status := s\<rparr>)) head ns"
  using assms by (auto simp: free_list_def field_at_same)

lemma brelse_ok:
  assumes "driver_ready st major drv d q" and "free_list (bc_blocks st) (hq_freelist_head q) ns"
    and "bc_blocks st x = Some b" and "x \<notin> set ns" and "x \<noteq> hq_freelist_head q"
  shows "\<exists>h'. brelse st major device x = Some (st\<lparr>bc_wakeups := bc_wakeups st @ [2, 1], bc_blocks := h'\<rparr>)
    \<and> free_list h' (hq_freelist_head q) (if bh_status b = BUFF_ST_VALID then ns @ [x] else x # ns)
    \<and> payload h' = (payload (bc_blocks st))(x \<mapsto> b\<lparr>bh_status := BUFF_ST_UNLOCKED, bh_free_prev := NULL, bh_free_next := NULL\<rparr>)"
proof -
  let ?h = "bc_blocks st" and ?head = "hq_freelist_head q"
  have xd: "x \<in> dom ?h" using assms(3) by auto
  obtain hb where hb: "?h ?head = Some hb" using free_list_head [OF assms(2)] by blast
  let ?st1 = "st\<lparr>bc_wakeups := bc_wakeups st @ [2, 1]\<rparr>"
  have fin: ?thesis
    if run: "brelse st major device x = set_status (?st1\<lparr>bc_blocks := h4\<rparr>) x BUFF_ST_UNLOCKED"
      and fr: "free_list h4 ?head ns'" and py: "payload h4 = payload ?h"
      and ns': "ns' = (if bh_status b = BUFF_ST_VALID then ns @ [x] else x # ns)" for h4 ns'
  proof -
    from payload_fields [OF py assms(3)] obtain b4 where b4: "h4 x = Some b4" "bh_addr b4 = bh_addr b"
      "bh_device b4 = bh_device b" "bh_data b4 = bh_data b" "bh_prev b4 = bh_prev b" "bh_next b4 = bh_next b" by blast
    have "payload (h4(x \<mapsto> b4\<lparr>bh_status := BUFF_ST_UNLOCKED\<rparr>))
        = (payload h4)(x \<mapsto> b\<lparr>bh_status := BUFF_ST_UNLOCKED, bh_free_prev := NULL, bh_free_next := NULL\<rparr>)"
      using b4 by (cases b4; cases b) (auto simp: payload_def)
    then show ?thesis
      using run fr py ns' b4(1) free_list_status [OF fr b4(1)] by (auto simp: set_status_def)
  qed
  show ?thesis
  proof (cases "bh_status b = BUFF_ST_VALID")
    case True
    from fl.push_back_links [OF assms(2,4,5) xd] hb obtain h1 h2 h3 h4 where
      "set_free_prev ?h x (bh_free_prev hb) = Some h1" "set_free_next h1 x ?head = Some h2"
      "set_free_prev h2 ?head x = Some h3" "set_free_next h3 (bh_free_prev hb) x = Some h4"
      "free_list h4 ?head (ns @ [x])" "payload h4 = payload ?h" by auto
    then show ?thesis
      using assms(1,3) hb True
      by (intro fin [of h4 "ns @ [x]"]) (simp_all add: brelse_def driver_ready_def)
  next
    case False
    from fl.push_front_links [OF assms(2,4,5) xd] hb obtain h1 h2 h3 h4 where
      "set_free_next ?h x (bh_free_next hb) = Some h1" "set_free_prev h1 x ?head = Some h2"
      "set_free_next h2 ?head x = Some h3" "set_free_prev h3 (bh_free_next hb) x = Some h4"
      "free_list h4 ?head (x # ns)" "payload h4 = payload ?h" by auto
    then show ?thesis
      using assms(1,3) hb False
      by (intro fin [of h4 "x # ns"]) (simp_all add: brelse_def driver_ready_def)
  qed
qed

section \<open>A new queue\<close>

lemma block_addr_inj [simp]: "block_addr q i = block_addr q j \<longleftrightarrow> i = j"
  by (simp add: block_addr_def)

lemma clear_blocks_get:
  "clear_blocks h q n a = (if \<exists>i < n. a = block_addr q i then Some zero_header else h a)"
  by (induction n) (auto simp: less_Suc_eq)

lemma link_blocks_ok:
  "free_list h head (map (block_addr q) [1..<i]) \<Longrightarrow> field_at bh_free_prev h head = prev
    \<Longrightarrow> head = block_addr q 0 \<Longrightarrow> 1 \<le> i \<Longrightarrow> (\<forall>j < i + k. block_addr q j \<in> dom h)
    \<Longrightarrow> \<exists>h'. link_blocks h q head prev i k = Some h'
         \<and> free_list h' head (map (block_addr q) [1..<i + k]) \<and> payload h' = payload h \<and> dom h' = dom h"
proof (induction k arbitrary: h prev i)
  case 0
  then show ?case by simp
next
  case (Suc k)
  let ?n = "block_addr q i"
  have n: "?n \<notin> set (map (block_addr q) [1..<i])" "?n \<noteq> head" "?n \<in> dom h"
    using Suc.prems(3-5) by auto
  from fl.push_back_links [OF Suc.prems(1) n] Suc.prems(2) obtain h1 h2 h3 h4 where
    s: "set_free_prev h ?n prev = Some h1" "set_free_next h1 ?n head = Some h2"
       "set_free_prev h2 head ?n = Some h3" "set_free_next h3 prev ?n = Some h4"
       "free_list h4 head (map (block_addr q) [1..<i] @ [?n])" "dom h4 = dom h" "payload h4 = payload h"
    by auto
  have f: "free_list h4 head (map (block_addr q) [1..<i + 1])" using s(5) Suc.prems(4) by simp
  have l: "field_at bh_free_prev h4 head = ?n"
    using s(5) by (simp add: free_list_def ring_def path_append)
  from Suc.IH [OF f l Suc.prems(3)] Suc.prems(4,5) s(6) obtain h' where
    "link_blocks h4 q head ?n (i + 1) k = Some h'"
    "free_list h' head (map (block_addr q) [1..<i + 1 + k])" "payload h' = payload h4" "dom h' = dom h4"
    by auto
  then show ?case using s by (simp del: upt_Suc)
qed

lemma create_hash_queue_ok:
  assumes "new_q \<noteq> NULL" and "new_ht \<noteq> NULL"
  shows "\<exists>h'. create_hash_queue st n new_q new_ht = Some (new_q, st\<lparr>bc_blocks := h',
      bc_cells := (bc_cells st)(0 := NULL, 4 := NULL, 8 := NULL, 12 := NULL),
      bc_queues := (bc_queues st)(new_q \<mapsto> \<lparr>hq_size = 0, hq_hashtable = NULL, hq_freelist_head = block_addr new_q 0\<rparr>)\<rparr>)
    \<and> free_list h' (block_addr new_q 0) (map (block_addr new_q) [1..<BUFF_QUEUE_SIZE])"
proof -
  let ?head = "block_addr new_q 0" and ?h0 = "clear_blocks (bc_blocks st) new_q BUFF_QUEUE_SIZE"
  let ?hd = "zero_header\<lparr>bh_free_prev := ?head, bh_free_next := ?head, bh_status := BUFF_ST_HEAD\<rparr>"
  let ?h3 = "?h0(?head \<mapsto> ?hd)"
  have z: "?h0 ?head = Some zero_header" by (auto simp: clear_blocks_get simp del: clear_blocks.simps)
  have dm: "\<forall>j < 1024. block_addr new_q j \<in> dom ?h3"
    by (auto simp: dom_def clear_blocks_get simp del: clear_blocks.simps)
  have f: "free_list ?h3 ?head (map (block_addr new_q) [1..<1])"
    by (simp add: free_list_def ring_def del: clear_blocks.simps)
  obtain h' where h': "link_blocks ?h3 new_q ?head ?head 1 1023 = Some h'"
    "free_list h' ?head (map (block_addr new_q) [1..<1024])"
    using link_blocks_ok [OF f, of ?head 1023] dm by (auto simp del: upt_Suc clear_blocks.simps)
  have cells: "hash_cell \<lparr>hq_size = 0, hq_hashtable = NULL, hq_freelist_head = NULL\<rparr> 0 = 0"
    "hash_cell \<lparr>hq_size = 0, hq_hashtable = NULL, hq_freelist_head = NULL\<rparr> 1 = 4"
    "hash_cell \<lparr>hq_size = 0, hq_hashtable = NULL, hq_freelist_head = NULL\<rparr> 2 = 8"
    "hash_cell \<lparr>hq_size = 0, hq_hashtable = NULL, hq_freelist_head = NULL\<rparr> 3 = 12"
    by (simp_all add: hash_cell_def)
  have "create_hash_queue st n new_q new_ht = Some (new_q, st\<lparr>bc_blocks := h',
      bc_cells := (bc_cells st)(0 := NULL, 4 := NULL, 8 := NULL, 12 := NULL),
      bc_queues := (bc_queues st)(new_q \<mapsto> \<lparr>hq_size = 0, hq_hashtable = NULL, hq_freelist_head = ?head\<rparr>)\<rparr>)"
    unfolding create_hash_queue_def Let_def cells
    using assms z h'(1)
    by (simp add: set_free_prev_def set_free_next_def del: clear_blocks.simps link_blocks.simps)
  then show ?thesis using h'(2) by blast
qed

section \<open>Hash chains as lists\<close>

fun chain :: "bheap \<Rightarrow> ptr \<Rightarrow> ptr list \<Rightarrow> bool" where
  "chain h a [] = (a = NULL)"
| "chain h a (x # xs) = (a = x \<and> x \<noteq> NULL \<and> x \<in> dom h \<and> chain h (field_at bh_next h x) xs)"

lemma chain_find_NULL [simp]: "chain_find h d n NULL = Some NULL"
  by (subst chain_find.simps) simp

lemma chain_find_step:
  "x \<noteq> NULL \<Longrightarrow> h x = Some b \<Longrightarrow>
    chain_find h d n x = (if holds h d n x then Some x else chain_find h d n (bh_next b))"
  by (subst chain_find.simps) simp

lemma chain_find_ok:
  "chain h a cs \<Longrightarrow> chain_find h d n a = Some (case find (holds h d n) cs of None \<Rightarrow> NULL | Some x \<Rightarrow> x)"
proof (induction cs arbitrary: a)
  case Nil
  then show ?case by simp
next
  case (Cons x cs)
  then obtain b where b: "h x = Some b" by auto
  then have "chain_find h d n (bh_next b) = Some (case find (holds h d n) cs of None \<Rightarrow> NULL | Some x \<Rightarrow> x)"
    using Cons by simp
  with Cons.prems b show ?case by (auto simp: chain_find_step)
qed

lemma search_blk_ok:
  assumes "bc_queues st queue = Some q" and "chain (bc_blocks st) (bc_cells st (hash_cell q (n mod 4))) cs"
  shows "search_blk st queue d n
    = Some (case find (holds (bc_blocks st) d n) cs of None \<Rightarrow> NULL | Some x \<Rightarrow> x)"
  using assms chain_find_ok [OF assms(2)] by (cases cs) (auto simp: search_blk_def Let_def)

lemma chain_cong:
  assumes "dom h' = dom h" and "\<And>x. x \<in> set cs \<Longrightarrow> field_at bh_next h' x = field_at bh_next h x"
  shows "chain h' a cs = chain h a cs"
  using assms(2) by (induction cs arbitrary: a) (auto simp: assms(1))

lemma chain_dom: "chain h a cs \<Longrightarrow> x \<in> set cs \<Longrightarrow> x \<in> dom h \<and> x \<noteq> NULL"
  by (induction cs arbitrary: a) auto

lemma chain_append_node:
  "chain h a (cs @ [l]) \<Longrightarrow> distinct (cs @ [l]) \<Longrightarrow> b \<notin> set (cs @ [l]) \<Longrightarrow> b \<noteq> NULL \<Longrightarrow> dom h' = dom h
    \<Longrightarrow> b \<in> dom h \<Longrightarrow> field_at bh_next h' = (field_at bh_next h)(b := NULL, l := b)
    \<Longrightarrow> chain h' a (cs @ [l, b])"
  by (induction cs arbitrary: a) auto

lemma chain_last_end [simp]: "h a = Some b \<Longrightarrow> bh_next b = NULL \<Longrightarrow> chain_last h a = Some a"
  by (subst chain_last.simps) simp

lemma chain_last_step: "h a = Some b \<Longrightarrow> bh_next b \<noteq> NULL \<Longrightarrow> chain_last h a = chain_last h (bh_next b)"
  by (subst chain_last.simps) simp

lemma chain_last_ok: "chain h a (cs @ [l]) \<Longrightarrow> chain_last h a = Some l"
proof (induction cs arbitrary: a)
  case Nil
  then show ?case by auto
next
  case (Cons x cs)
  then obtain b where b: "h x = Some b" by auto
  have "bh_next b \<noteq> NULL" using Cons.prems b by (cases cs) auto
  with Cons b show ?case by (auto simp: chain_last_step)
qed

text \<open>The second half of \<open>add_to_buff_queue\<close> appends the buffer to the chain of its block.\<close>

lemma add_to_buff_queue_ok:
  assumes q: "bc_queues st queue = Some q" and old: "leave_old_chain st0 queue buff d = Some st"
    and ch: "chain (bc_blocks st) (bc_cells st (hash_cell q (n mod 4))) cs" and ds: "distinct cs"
    and b: "bc_blocks st buff = Some b" and nb: "buff \<notin> set cs" "buff \<noteq> NULL"
  shows "\<exists>h' c'. add_to_buff_queue st0 queue buff d n = Some (st\<lparr>bc_blocks := h', bc_cells := c'\<rparr>)
    \<and> chain h' (c' (hash_cell q (n mod 4))) (cs @ [buff])
    \<and> (\<forall>c. c \<noteq> hash_cell q (n mod 4) \<longrightarrow> c' c = bc_cells st c)
    \<and> dom h' = dom (bc_blocks st) \<and> holds h' d n buff
    \<and> (\<forall>x. x \<noteq> buff \<longrightarrow> holds h' d n x = holds (bc_blocks st) d n x)
    \<and> field_at bh_free_next h' = field_at bh_free_next (bc_blocks st)
    \<and> field_at bh_free_prev h' = field_at bh_free_prev (bc_blocks st)
    \<and> field_at bh_status h' = field_at bh_status (bc_blocks st)
    \<and> (\<forall>x. x \<noteq> buff \<and> x \<notin> set cs \<longrightarrow> field_at bh_next h' x = field_at bh_next (bc_blocks st) x)"
proof -
  let ?c = "hash_cell q (n mod 4)" and ?h = "(bc_blocks st)(buff \<mapsto> b\<lparr>bh_addr := n, bh_device := d\<rparr>)"
  have ch1: "chain ?h (bc_cells st ?c) cs" using ch nb b by (subst chain_cong [where h = "bc_blocks st"]) auto
  have bl: "add_to_buff_queue st0 queue buff d n = do {
      let head = bc_cells st ?c;
      if head = NULL then Some (st\<lparr>bc_blocks := ?h(buff \<mapsto> b\<lparr>bh_addr := n, bh_device := d, bh_next := NULL, bh_prev := buff\<rparr>),
          bc_cells := (bc_cells st)(?c := buff)\<rparr>)
      else do {
        hb \<leftarrow> ?h head;
        if bh_next hb = NULL then do {
          h1 \<leftarrow> upd_at ?h head (\<lambda>b. b\<lparr>bh_next := buff, bh_prev := NULL\<rparr>);
          h2 \<leftarrow> upd_at h1 buff (\<lambda>b. b\<lparr>bh_next := NULL, bh_prev := head\<rparr>);
          Some (st\<lparr>bc_blocks := h2\<rparr>)
        } else do {
          tmp \<leftarrow> chain_last ?h head;
          h1 \<leftarrow> upd_at ?h buff (\<lambda>b. b\<lparr>bh_prev := tmp, bh_next := NULL\<rparr>);
          h2 \<leftarrow> upd_at h1 tmp (\<lambda>b. b\<lparr>bh_next := buff\<rparr>);
          Some (st\<lparr>bc_blocks := h2\<rparr>)
        }
      }}"
    using q old b by (simp add: add_to_buff_queue_def Let_def)
  show ?thesis
  proof (cases cs rule: rev_cases)
    case Nil
    then have "bc_cells st ?c = NULL" using ch by simp
    then show ?thesis using bl nb b Nil
      by (intro exI [of _ "?h(buff \<mapsto> b\<lparr>bh_addr := n, bh_device := d, bh_next := NULL, bh_prev := buff\<rparr>)"]
            exI [of _ "(bc_cells st)(?c := buff)"])
         (auto simp: holds_def field_at_same)
  next
    case (snoc cs' l)
    then obtain lb where l: "bc_blocks st l = Some lb" "l \<noteq> buff" "l \<noteq> NULL"
      using chain_dom [OF ch, of l] nb by auto
    have fin: ?thesis
      if run: "add_to_buff_queue st0 queue buff d n = Some (st\<lparr>bc_blocks := ?h(
          buff \<mapsto> b\<lparr>bh_addr := n, bh_device := d, bh_next := NULL, bh_prev := pb\<rparr>,
          l \<mapsto> lb\<lparr>bh_next := buff, bh_prev := pl\<rparr>)\<rparr>)" for pb pl
    proof -
      let ?h' = "?h(buff \<mapsto> b\<lparr>bh_addr := n, bh_device := d, bh_next := NULL, bh_prev := pb\<rparr>,
          l \<mapsto> lb\<lparr>bh_next := buff, bh_prev := pl\<rparr>)"
      have "chain ?h' (bc_cells st ?c) (cs' @ [l, buff])"
        using ch nb b l ds snoc by (intro chain_append_node [of "bc_blocks st"]) auto
      then show ?thesis
        using run snoc b l by (intro exI [of _ ?h'] exI [of _ "bc_cells st"])
          (auto simp: holds_def field_at_same fun_upd_twist [of l buff])
    qed
    have last: "chain_last ?h (bc_cells st ?c) = Some l" using ch1 snoc by (simp add: chain_last_ok)
    have hnn: "bc_cells st ?c \<noteq> NULL" using ch snoc by (cases cs') auto
    show ?thesis
    proof (cases cs')
      case Nil
      then have "bc_cells st ?c = l" "bh_next lb = NULL" using ch snoc l by auto
      then show ?thesis using bl l by (intro fin [of l NULL]) (simp add: fun_upd_twist)
    next
      case (Cons x xs)
      have xn: "x \<noteq> buff" using nb(1) snoc Cons by auto
      have chx: "chain (bc_blocks st) (bc_cells st ?c) (x # xs @ [l])" using ch snoc Cons by simp
      then obtain xb where xb: "bc_cells st ?c = x" "bc_blocks st x = Some xb" by auto
      then have x: "bc_cells st ?c = x" "?h x = Some xb" using xn by simp_all
      have "bh_next xb \<noteq> NULL" using chx xb by (cases xs) auto
      then show ?thesis using bl l x last hnn by (intro fin [of l "bh_prev lb"]) (cases b, simp)
    qed
  qed
qed

section \<open>The cache invariant\<close>

lemma find_snoc: "\<forall>y \<in> set xs. \<not> P y \<Longrightarrow> P x \<Longrightarrow> find P (xs @ [x]) = Some x"
  by (induction xs) auto

text \<open>
  The free list \<open>ns\<close> is a ring, and the four chains \<open>css\<close> are duplicate free, disjoint and
  end in \<open>NULL\<close>.
\<close>

definition cache_inv :: "bcache \<Rightarrow> buff_hashq \<Rightarrow> ptr list \<Rightarrow> (u64 \<Rightarrow> ptr list) \<Rightarrow> bool" where
  "cache_inv st q ns css \<longleftrightarrow>
     free_list (bc_blocks st) (hq_freelist_head q) ns \<and> NULL \<notin> set ns
     \<and> (\<forall>k < 4. chain (bc_blocks st) (bc_cells st (hash_cell q k)) (css k) \<and> distinct (css k))
     \<and> (\<forall>k < 4. \<forall>l < 4. k \<noteq> l \<longrightarrow> set (css k) \<inter> set (css l) = {})"

lemma hash_cell_inj [simp]: "hash_cell q k = hash_cell q l \<longleftrightarrow> k = l"
  by (auto simp: hash_cell_def dest: unsigned_word_eqI)

lemma mod4_less [simp]: "(n :: u64) mod 4 < 4"
  by (rule word_mod_less_divisor) simp

lemma less_4_cases: "(k :: u64) < 4 \<Longrightarrow> k = 0 \<or> k = 1 \<or> k = 2 \<or> k = 3"
  by (simp add: word_less_nat_alt unat_arith_simps) linarith

lemma cache_inv_chain:
  "cache_inv st q ns css \<Longrightarrow> chain (bc_blocks st) (bc_cells st (hash_cell q (n mod 4))) (css (n mod 4))"
  by (simp add: cache_inv_def)

lemma payload_next: "payload h' = payload h \<Longrightarrow> field_at bh_next h' = field_at bh_next h"
  and payload_status: "payload h' = payload h \<Longrightarrow> field_at bh_status h' = field_at bh_status h"
  and payload_dom: "payload h' = payload h \<Longrightarrow> dom h' = dom h"
proof -
  assume p: "payload h' = payload h"
  have none: "h' a = None \<longleftrightarrow> h a = None" for a
    using fun_cong [OF p, of a] unfolding payload_def by (metis None_eq_map_option_iff)
  then show "dom h' = dom h" by (simp add: dom_def)
  have "field_at bh_next h' a = field_at bh_next h a \<and> field_at bh_status h' a = field_at bh_status h a" for a
  proof (cases "h a")
    case None
    then show ?thesis using none [of a] by (simp add: field_at_def)
  next
    case (Some b)
    then show ?thesis using payload_fields [OF p Some] by (auto simp: field_at_def)
  qed
  then show "field_at bh_next h' = field_at bh_next h" "field_at bh_status h' = field_at bh_status h"
    by auto
qed

lemma cache_inv_free_links:
  assumes "cache_inv st q ns css" and "payload h' = payload (bc_blocks st)"
    and "free_list h' (hq_freelist_head q) ns'" and "set ns' \<subseteq> set ns"
  shows "cache_inv (st\<lparr>bc_blocks := h'\<rparr>) q ns' css"
proof -
  have "chain h' a cs = chain (bc_blocks st) a cs" for a cs
    using payload_dom [OF assms(2)] payload_next [OF assms(2)] by (intro chain_cong) simp_all
  then show ?thesis using assms by (auto simp: cache_inv_def)
qed

lemma leave_old_chain_unhashed:
  assumes "bc_queues st queue = Some q" and "bc_blocks st buff = Some b"
    and "cache_inv st q ns css" and "\<forall>y \<in> set (css (bh_addr b mod 4)). \<not> holds (bc_blocks st) d (bh_addr b) y"
  shows "leave_old_chain st queue buff d = Some st"
proof -
  have "find (holds (bc_blocks st) d (bh_addr b)) (css (bh_addr b mod 4)) = None"
    using assms(4) by (simp add: find_None_iff)
  then have "search_blk st queue d (bh_addr b) = Some NULL"
    using search_blk_ok [OF assms(1) cache_inv_chain [OF assms(3)]] by simp
  then show ?thesis using assms(1,2) by (simp add: leave_old_chain_def Let_def)
qed

text \<open>A buffer that can leave its old chain: it is in no chain and there is no other buffer for its old block, or it is the only
  buffer of the chain of its old block, which belongs to the same device.\<close>

definition recyclable :: "bcache \<Rightarrow> (u64 \<Rightarrow> ptr list) \<Rightarrow> int \<Rightarrow> ptr \<Rightarrow> buff_header \<Rightarrow> bool" where
  "recyclable st css dev x b \<longleftrightarrow>
     (\<forall>k < 4. x \<notin> set (css k)) \<and> (\<forall>y \<in> set (css (bh_addr b mod 4)). \<not> holds (bc_blocks st) dev (bh_addr b) y)
     \<or> css (bh_addr b mod 4) = [x] \<and> bh_device b = dev"

lemma leave_old_chain_ok:
  assumes q: "bc_queues st queue = Some q" and b: "bc_blocks st x = Some b" and inv: "cache_inv st q ns css"
    and rc: "recyclable st css dev x b"
  shows "\<exists>cells. leave_old_chain st queue x dev = Some (st\<lparr>bc_cells := cells\<rparr>)
    \<and> cache_inv (st\<lparr>bc_cells := cells\<rparr>) q ns (\<lambda>k. removeAll x (css k))"
proof (cases "css (bh_addr b mod 4) = [x] \<and> bh_device b = dev")
  case True
  let ?a = "bh_addr b mod 4"
  have ch: "chain (bc_blocks st) (bc_cells st (hash_cell q ?a)) [x]" using cache_inv_chain [OF inv, of "bh_addr b"] True by simp
  then have c: "bc_cells st (hash_cell q ?a) = x" "x \<noteq> NULL" "bh_next b = NULL" using b by auto
  have "search_blk st queue dev (bh_addr b) = Some x"
    using search_blk_ok [OF q cache_inv_chain [OF inv], of dev "bh_addr b"] True b by (simp add: holds_def)
  then have "leave_old_chain st queue x dev = Some (st\<lparr>bc_cells := (bc_cells st)(hash_cell q ?a := NULL)\<rparr>)"
    using q b c by (simp add: leave_old_chain_def Let_def)
  note run = this
  have "x \<notin> set (css k)" if "k < 4" "k \<noteq> ?a" for k
    using inv that True mod4_less [of "bh_addr b"] unfolding cache_inv_def by (metis disjoint_iff list.set_intros(1))
  moreover have "set (removeAll x (css k)) \<inter> set (removeAll x (css l)) = {}" if "k < 4" "l < 4" "k \<noteq> l" for k l
  proof -
    have "set (css k) \<inter> set (css l) = {}" using inv that by (simp add: cache_inv_def)
    then show ?thesis by auto
  qed
  ultimately have "cache_inv (st\<lparr>bc_cells := (bc_cells st)(hash_cell q ?a := NULL)\<rparr>) q ns (\<lambda>k. removeAll x (css k))"
    using inv True unfolding cache_inv_def by (auto simp: removeAll_id distinct_removeAll simp del: set_removeAll)
  with run show ?thesis by blast
next
  case False
  then have f: "\<forall>k < 4. x \<notin> set (css k)" "\<forall>y \<in> set (css (bh_addr b mod 4)). \<not> holds (bc_blocks st) dev (bh_addr b) y"
    using rc by (auto simp: recyclable_def)
  then have "cache_inv (st\<lparr>bc_cells := bc_cells st\<rparr>) q ns (\<lambda>k. removeAll x (css k))"
    using inv by (simp add: cache_inv_def removeAll_id)
  then show ?thesis using leave_old_chain_unhashed [OF q b inv f(2)] by (intro exI [of _ "bc_cells st"]) simp
qed

lemma add_to_buff_queue_inv:
  assumes "bc_queues st queue = Some q" and "bc_blocks st buff = Some b" and inv: "cache_inv st q ns css"
    and old: "leave_old_chain st0 queue buff d = Some st"
    and miss: "\<forall>y \<in> set (css (n mod 4)). \<not> holds (bc_blocks st) d n y"
    and new: "\<forall>k < 4. buff \<notin> set (css k)" and "buff \<noteq> NULL"
  shows "\<exists>st'. add_to_buff_queue st0 queue buff d n = Some st'
    \<and> cache_inv st' q ns (css(n mod 4 := css (n mod 4) @ [buff]))
    \<and> bc_queues st' = bc_queues st \<and> bc_drv st' = bc_drv st \<and> bc_drivers st' = bc_drivers st
    \<and> search_blk st' queue d n = Some buff"
proof -
  let ?k = "n mod 4"
  have ch: "distinct (css ?k)" using inv by (simp add: cache_inv_def)
  have nk: "buff \<notin> set (css ?k)" using new mod4_less by blast
  from add_to_buff_queue_ok [OF assms(1) old cache_inv_chain [OF inv] ch assms(2) nk assms(7)] obtain h' c' where
    run: "add_to_buff_queue st0 queue buff d n = Some (st\<lparr>bc_blocks := h', bc_cells := c'\<rparr>)" and
    c: "chain h' (c' (hash_cell q ?k)) (css ?k @ [buff])" and
    oth: "\<forall>c. c \<noteq> hash_cell q ?k \<longrightarrow> c' c = bc_cells st c" and
    dm: "dom h' = dom (bc_blocks st)" and hb: "holds h' d n buff" and
    ho: "\<forall>x. x \<noteq> buff \<longrightarrow> holds h' d n x = holds (bc_blocks st) d n x" and
    fr: "field_at bh_free_next h' = field_at bh_free_next (bc_blocks st)"
        "field_at bh_free_prev h' = field_at bh_free_prev (bc_blocks st)" and
    nx: "\<forall>x. x \<noteq> buff \<and> x \<notin> set (css ?k) \<longrightarrow> field_at bh_next h' x = field_at bh_next (bc_blocks st) x"
    by blast
  let ?st' = "st\<lparr>bc_blocks := h', bc_cells := c'\<rparr>"
  have oc: "chain h' (c' (hash_cell q k)) (css k)" if "k < 4" "k \<noteq> ?k" for k
  proof -
    have "chain h' (bc_cells st (hash_cell q k)) (css k)"
    proof (subst chain_cong [OF dm])
      fix x assume "x \<in> set (css k)"
      then show "field_at bh_next h' x = field_at bh_next (bc_blocks st) x"
        using nx new inv that by (metis (no_types, lifting) cache_inv_def disjoint_iff mod4_less)
    next
      show "chain (bc_blocks st) (bc_cells st (hash_cell q k)) (css k)"
        using inv that by (simp add: cache_inv_def)
    qed
    then show ?thesis using oth that by simp
  qed
  have free: "free_list h' (hq_freelist_head q) ns"
    using inv fr dm by (simp add: cache_inv_def free_list_def)
  have "cache_inv ?st' q ns (css(?k := css ?k @ [buff]))"
    using inv free c oc new by (auto simp: cache_inv_def)
  moreover have "find (holds h' d n) (css ?k @ [buff]) = Some buff"
    using miss hb ho nk by (intro find_snoc) metis+
  ultimately show ?thesis
    using run search_blk_ok [of ?st' queue q n "css ?k @ [buff]" d] assms(1) c by auto
qed

section \<open>Misses and hits\<close>

lemma search_miss:
  assumes "bc_queues st queue = Some q" and "cache_inv st q ns css"
    and "\<forall>y \<in> set (css (n mod 4)). \<not> holds (bc_blocks st) dev n y"
  shows "search_blk st queue dev n = Some NULL"
  using search_blk_ok [OF assms(1) cache_inv_chain [OF assms(2)], of dev] assms(3)
  by (simp add: find_None_iff [THEN iffD2])

lemma getblk_miss_ok:
  assumes rdy: "driver_ready st major drv d q" and inv: "cache_inv st q ns css" and ne: "ns \<noteq> []"
    and miss: "\<forall>y \<in> set (css (n mod 4)). \<not> holds (bc_blocks st) dev n y"
    and x: "x = pick_free (bc_blocks st) dev n ns" and b: "bc_blocks st x = Some b"
    and clean: "bh_status b \<noteq> BUFF_ST_FLUSH" and rc: "recyclable st css dev x b"
  shows "\<exists>st'. getblk ops slp st major dev n = Some (x, st')
    \<and> cache_inv st' q (remove1 x ns) ((\<lambda>k. removeAll x (css k))(n mod 4 := removeAll x (css (n mod 4)) @ [x]))
    \<and> search_blk st' (bd_buffer_queue d) dev n = Some x \<and> driver_ready st' major drv d q"
proof -
  let ?q = "bd_buffer_queue d"
  have q: "bc_queues st ?q = Some q" and dv: "bc_drv st drv = Some d" "drv \<noteq> NULL"
    "block_dev_driver st major = Some drv" using rdy by (auto simp: driver_ready_def)
  have fr: "free_list (bc_blocks st) (hq_freelist_head q) ns" "NULL \<notin> set ns"
    using inv by (auto simp: cache_inv_def)
  have xn: "x \<in> set ns" "x \<noteq> NULL" using pick_free_mem [OF ne] x fr(2) by metis+
  from get_free_blk_ok [OF q fr(1) ne, of dev n] x obtain h1 where
    g: "get_free_blk st ?q dev n = Some (x, st\<lparr>bc_blocks := h1\<rparr>)"
       "free_list h1 (hq_freelist_head q) (remove1 x ns)" "payload h1 = payload (bc_blocks st)" by auto
  let ?st1 = "st\<lparr>bc_blocks := h1\<rparr>"
  have inv1: "cache_inv ?st1 q (remove1 x ns) css"
    by (rule cache_inv_free_links [OF inv g(3,2) set_remove1_subset])
  from payload_fields [OF g(3) b] obtain b1 where b1: "h1 x = Some b1" "bh_addr b1 = bh_addr b"
    "bh_status b1 = bh_status b" "bh_device b1 = bh_device b" by blast
  have "recyclable ?st1 css dev x b1" using rc b1(2,4) payload_holds [OF g(3)] by (simp add: recyclable_def)
  from leave_old_chain_ok [OF _ _ inv1 this, of ?q] q b1(1) obtain cells where
    l: "leave_old_chain ?st1 ?q x dev = Some (?st1\<lparr>bc_cells := cells\<rparr>)"
      "cache_inv (?st1\<lparr>bc_cells := cells\<rparr>) q (remove1 x ns) (\<lambda>k. removeAll x (css k))" by auto
  from add_to_buff_queue_inv [OF _ _ l(2,1), of b1 n] obtain st' where
    a: "add_to_buff_queue ?st1 ?q x dev n = Some st'"
       "cache_inv st' q (remove1 x ns) ((\<lambda>k. removeAll x (css k))(n mod 4 := removeAll x (css (n mod 4)) @ [x]))"
       "bc_queues st' = bc_queues st" "bc_drv st' = bc_drv st" "bc_drivers st' = bc_drivers st"
       "search_blk st' ?q dev n = Some x"
    using q b1 miss xn(2) payload_holds [OF g(3)] by auto
  have "getblk_loop ops slp drv major dev n st = Some (x, st')"
    by (subst getblk_loop.simps) (use dv search_miss [OF q inv miss] g(1) b1 clean a(1) xn(2) in simp)
  then have "getblk ops slp st major dev n = Some (x, st')" using dv by (simp add: getblk_def)
  moreover have "driver_ready st' major drv d q"
    using rdy a(3-5) by (simp add: driver_ready_def block_dev_driver_def split: if_splits)
  ultimately show ?thesis using a(2,6) by blast
qed

lemma blk_remove_from_freelist_keeps:
  assumes q: "bc_queues st queue = Some q" and fr: "free_list (bc_blocks st) (hq_freelist_head q) ns"
  shows "\<exists>h'. blk_remove_from_freelist st queue dev n = Some (st\<lparr>bc_blocks := h'\<rparr>)
    \<and> free_list h' (hq_freelist_head q) ns \<and> field_at bh_status h' = field_at bh_status (bc_blocks st)"
proof -
  let ?h = "bc_blocks st" and ?head = "hq_freelist_head q"
  obtain hb where hb: "?h ?head = Some hb" using free_list_head [OF fr] by blast
  note ff = free_find_ok [OF fr hb, of dev n]
  show ?thesis
  proof (cases "find (holds ?h dev n) ns")
    case None
    then have "blk_remove_from_freelist st queue dev n = Some st"
      using q hb ff by (simp add: blk_remove_from_freelist_def Let_def)
    then show ?thesis using fr by (intro exI [of _ ?h]) simp
  next
    case (Some x)
    then have xm: "x \<in> set ns" "x \<noteq> ?head" using fr find_Some_mem [OF Some] by (auto simp: free_list_def ring_def)
    then obtain b where b: "?h x = Some b" using fr by (auto simp: free_list_def)
    have nb: "bh_free_next b \<in> dom ?h" "bh_free_prev b \<in> dom ?h"
      using fl.linked_neighbours [OF fr, of x] xm(1) b fr by (auto simp: free_list_def)
    then obtain nb1 where n1: "?h (bh_free_next b) = Some nb1" by auto
    let ?h1 = "?h(bh_free_next b \<mapsto> nb1\<lparr>bh_prev := bh_free_prev b\<rparr>)"
    have "bh_free_prev b \<in> dom ?h1" using nb(2) by simp
    then obtain nb2 where n2: "?h1 (bh_free_prev b) = Some nb2" by blast
    let ?h2 = "?h1(bh_free_prev b \<mapsto> nb2\<lparr>bh_next := bh_free_next b\<rparr>)"
    have run: "blk_remove_from_freelist st queue dev n = Some (st\<lparr>bc_blocks := ?h2\<rparr>)"
      using q hb ff Some xm b n1 n2 by (simp add: blk_remove_from_freelist_def Let_def del: fun_upd_apply)
    have same: "field_at f ?h2 = field_at f ?h"
      if "\<And>b p. f (b\<lparr>bh_prev := p\<rparr>) = f b" "\<And>b p. f (b\<lparr>bh_next := p\<rparr>) = f b" for f :: "buff_header \<Rightarrow> 'c::zero"
      using n1 n2 by (auto simp: fun_eq_iff field_at_def that split: if_splits)
    have "free_list ?h2 ?head ns"
      using fr n1 nb same [of bh_free_next] same [of bh_free_prev] unfolding free_list_def by auto
    then show ?thesis using run same [of bh_status] by (intro exI [of _ ?h2]) simp
  qed
qed

lemma getblk_hit_ok:
  assumes rdy: "driver_ready st major drv d q" and inv: "cache_inv st q ns css"
    and hit: "find (holds (bc_blocks st) dev n) (css (n mod 4)) = Some x" and b: "bc_blocks st x = Some b"
    and idle: "bh_status b \<noteq> BUFF_ST_BUSY"
  shows "\<exists>st'. getblk ops slp st major dev n = Some (x, st')
    \<and> free_list (bc_blocks st') (hq_freelist_head q) ns \<and> field_at bh_status (bc_blocks st') x = BUFF_ST_BUSY"
proof -
  let ?q = "bd_buffer_queue d" and ?h1 = "(bc_blocks st)(x \<mapsto> b\<lparr>bh_status := BUFF_ST_BUSY\<rparr>)"
  have q: "bc_queues st ?q = Some q" and dv: "bc_drv st drv = Some d" "drv \<noteq> NULL"
    "block_dev_driver st major = Some drv" using rdy by (auto simp: driver_ready_def)
  have xn: "x \<noteq> NULL" using chain_dom [OF cache_inv_chain [OF inv]] find_Some_mem [OF hit] by blast
  have s: "search_blk st ?q dev n = Some x"
    using search_blk_ok [OF q cache_inv_chain [OF inv], of dev] hit by simp
  have fr: "free_list ?h1 (hq_freelist_head q) ns"
    using inv b by (intro free_list_status) (auto simp: cache_inv_def)
  from blk_remove_from_freelist_keeps [of "st\<lparr>bc_blocks := ?h1\<rparr>" ?q q ns dev n] q fr obtain h' where
    r: "blk_remove_from_freelist (st\<lparr>bc_blocks := ?h1\<rparr>) ?q dev n = Some (st\<lparr>bc_blocks := h'\<rparr>)"
       "free_list h' (hq_freelist_head q) ns" "field_at bh_status h' = field_at bh_status ?h1" by auto
  have "getblk_loop ops slp drv major dev n st = Some (x, st\<lparr>bc_blocks := h'\<rparr>)"
    by (subst getblk_loop.simps) (use dv s b idle xn r(1) in \<open>simp add: set_status_def\<close>)
  then show ?thesis using dv r(2,3) by (auto simp: getblk_def)
qed

section \<open>Releasing a buffer that is already free\<close>

lemma free_find_self_loop:
  assumes "h x = Some b" and "bh_free_next b = x" and "x \<noteq> head" and "\<not> holds h d n x"
  shows "free_find h d n head x = None"
proof -
  let ?P = "\<lambda>h' d' n' head' y r. \<not> (h' = h \<and> d' = d \<and> n' = n \<and> head' = head \<and> y = x)"
  have "?P h d n head x r" if run: "free_find h d n head x = Some r" for r
  proof (rule free_find.raw_induct [where P = ?P, OF _ run])
    fix ff h' d' n' head' y r
    assume ih: "\<And>h d n head y r. ff h d n head y = Some r \<Longrightarrow> ?P h d n head y r"
      and step: "(if y \<noteq> head' then do { b \<leftarrow> h' y; if bh_addr b = n' \<and> bh_device b = d' then Some y
        else ff h' d' n' head' (bh_free_next b) } else Some y) = Some r"
    show "?P h' d' n' head' y r"
      using step ih [of h d n head x r] assms by auto
  qed
  then show ?thesis by (cases "free_find h d n head x") auto
qed

lemma free_find_into_loop:
  assumes "path (field_at bh_free_next h) p a (xs @ [x]) head" and "head \<notin> set (xs @ [x])" and "x \<notin> set xs"
    and "set (xs @ [x]) \<subseteq> dom h" and "\<forall>y \<in> set (xs @ [x]). \<not> holds h d n y" and "a \<noteq> x"
    and "field_at bh_free_next h' = (field_at bh_free_next h)(x := x)" and "dom h' = dom h"
    and "holds h' = holds h"
  shows "free_find h' d n head (field_at bh_free_next h' a) = None"
proof -
  let ?n = "field_at bh_free_next h"
  obtain b where b: "h' x = Some b" using assms(4,8) by (metis UnCI domD list.set_intros(1) set_append subsetD)
  have bx: "bh_free_next b = x" using assms(7) b by (metis field_at_Some fun_upd_same)
  have walk: "path ?n p a xs x" using assms(1) by (simp add: path_append)
  have "free_find h' d n head (field_at bh_free_next h' a) = free_find h' d n head x"
    using walk assms(2-6)
  proof (induction xs arbitrary: a)
    case Nil
    then show ?case using assms(7) by simp
  next
    case (Cons y ys)
    then have y: "y \<noteq> head" "y \<noteq> x" "y \<in> dom h'" "\<not> holds h' d n y" using assms(8,9) by auto
    then obtain b' where b': "h' y = Some b'" by auto
    have "free_find h' d n head (field_at bh_free_next h' y) = free_find h' d n head x"
      using Cons.IH [of y] Cons.prems y(2) by auto
    moreover have "field_at bh_free_next h' a = y" using assms(7) Cons.prems by simp
    ultimately show ?case using y b' by (auto simp: free_find_step)
  qed
  also have "\<dots> = None"
    using assms(2,4,5,9) b bx by (intro free_find_self_loop [of h' x b]) auto
  finally show ?thesis .
qed

lemma brelse_last_self_loop:
  assumes "driver_ready st major drv d q" and fr: "free_list (bc_blocks st) (hq_freelist_head q) (ns @ [x])"
    and b: "bc_blocks st x = Some b" and valid: "bh_status b = BUFF_ST_VALID"
  shows "\<exists>st'. brelse st major dev x = Some st' \<and> bc_queues st' = bc_queues st
    \<and> field_at bh_free_next (bc_blocks st') = (field_at bh_free_next (bc_blocks st))(x := x)
    \<and> dom (bc_blocks st') = dom (bc_blocks st) \<and> holds (bc_blocks st') = holds (bc_blocks st)"
proof -
  let ?h = "bc_blocks st" and ?head = "hq_freelist_head q"
  obtain hb where hb: "?h ?head = Some hb" using free_list_head [OF fr] by blast
  have l: "bh_free_prev hb = x" "x \<noteq> ?head" using fr hb by (auto simp: free_list_def ring_def path_append)
  let ?b' = "b\<lparr>bh_free_prev := x, bh_free_next := x, bh_status := BUFF_ST_UNLOCKED\<rparr>"
  let ?h' = "?h(?head \<mapsto> hb\<lparr>bh_free_prev := x\<rparr>, x \<mapsto> ?b')"
  have "brelse st major dev x = Some (st\<lparr>bc_wakeups := bc_wakeups st @ [2, 1], bc_blocks := ?h'\<rparr>)"
    using assms(1) b valid hb l
    by (simp add: brelse_def driver_ready_def set_free_prev_def set_free_next_def set_status_def
        fun_upd_twist [of x ?head])
  moreover have "field_at bh_free_next ?h' = (field_at bh_free_next ?h)(x := x)"
    using hb b l by (auto simp: field_at_same fun_eq_iff)
  moreover have "dom ?h' = dom ?h" using hb b by auto
  moreover have "holds ?h' = holds ?h" using hb b l by (auto simp: fun_eq_iff holds_def)
  ultimately show ?thesis by auto
qed

section \<open>Properties\<close>

text \<open>A small cache for the examples: three headers, the first the head of the free list.\<close>

definition ring_header :: "ptr \<Rightarrow> ptr \<Rightarrow> buff_header" where
  "ring_header p n = zero_header\<lparr>bh_free_prev := p, bh_free_next := n\<rparr>"

definition cache3 :: bcache where
  "cache3 = \<lparr>bc_blocks = [1016 \<mapsto> ring_header 2104 1560, 1560 \<mapsto> ring_header 1016 2104,
       2104 \<mapsto> ring_header 1560 1016],
     bc_cells = (\<lambda>_. NULL), bc_queues = [1000 \<mapsto> \<lparr>hq_size = 0, hq_hashtable = NULL, hq_freelist_head = 1016\<rparr>],
     bc_drivers = [NULL, NULL, NULL, 64],
     bc_drv = [64 \<mapsto> \<lparr>bd_major = 3, bd_size = 0, bd_buffer_queue = 1000, bd_inodes_hash_table = [], bd_dev_ops = 8\<rparr>],
     bc_wakeups = []\<rparr>"

abbreviation (input) cache3_q :: buff_hashq where
  "cache3_q \<equiv> \<lparr>hq_size = 0, hq_hashtable = NULL, hq_freelist_head = 1016\<rparr>"

abbreviation (input) cache3_d :: blk_driver where
  "cache3_d \<equiv> \<lparr>bd_major = 3, bd_size = 0, bd_buffer_queue = 1000, bd_inodes_hash_table = [], bd_dev_ops = 8\<rparr>"

text \<open>A driver whose operations succeed and do nothing.\<close>

definition idle_ops :: blk_dev_op where
  "idle_ops = \<lparr>read_sync_block = \<lambda>_ _ _ st. Some (0, st), read_async_block = \<lambda>_ _ _ st. Some (0, st),
     write_async_block = \<lambda>_ _ _ st. Some (0, st), write_sync_block = \<lambda>_ _ _ st. Some (0, st)\<rparr>"

lemma cache3_ready: "driver_ready cache3 3 64 cache3_d cache3_q"
  by (simp add: driver_ready_def block_dev_driver_def cache3_def)

lemma cache3_inv: "cache_inv cache3 cache3_q [1560, 2104] (\<lambda>_. [])"
  by (auto simp: cache_inv_def free_list_def ring_def ring_header_def cache3_def)

text \<open>A new queue starts with all of its blocks but the list head on a well-formed free
  list, in array order, and with empty hash chains.\<close>

theorem create_hash_queue_builds_free_list:
  assumes "new_q \<noteq> NULL" and "new_ht \<noteq> NULL"
  shows "\<exists>st' q. create_hash_queue st n new_q new_ht = Some (new_q, st') \<and> bc_queues st' new_q = Some q
    \<and> cache_inv st' q (map (block_addr new_q) [1..<1024]) (\<lambda>_. [])"
proof -
  from create_hash_queue_ok [OF assms, of st n] obtain h' where
    run: "create_hash_queue st n new_q new_ht = Some (new_q, st\<lparr>bc_blocks := h',
      bc_cells := (bc_cells st)(0 := NULL, 4 := NULL, 8 := NULL, 12 := NULL),
      bc_queues := (bc_queues st)(new_q \<mapsto> \<lparr>hq_size = 0, hq_hashtable = NULL, hq_freelist_head = block_addr new_q 0\<rparr>)\<rparr>)"
    and fr: "free_list h' (block_addr new_q 0) (map (block_addr new_q) [1..<1024])" by blast
  show ?thesis
    using run fr by (auto dest!: less_4_cases simp: cache_inv_def hash_cell_def block_addr_def simp del: upt_Suc)
qed

theorem create_hash_queue_builds_free_list_witness:
  "\<exists>st' q. create_hash_queue cache3 0 5000 6000 = Some (5000, st') \<and> bc_queues st' 5000 = Some q
    \<and> cache_inv st' q (map (block_addr 5000) [1..<1024]) (\<lambda>_. [])"
  using create_hash_queue_builds_free_list [of 5000 6000 cache3 0] by simp

text \<open>\<open>get_free_blk\<close> refines taking an element from a sequence: on an empty free list it
  returns \<open>NULL\<close>; otherwise it takes the buffer that already holds the block, or else the
  first, unlinks exactly that one and changes nothing but the links.\<close>

theorem get_free_blk_refines_pick:
  assumes "bc_queues st queue = Some q" and "free_list (bc_blocks st) (hq_freelist_head q) ns"
  shows "(ns = [] \<longrightarrow> get_free_blk st queue d n = Some (NULL, st))
    \<and> (ns \<noteq> [] \<longrightarrow> (\<exists>h'. get_free_blk st queue d n = Some (pick_free (bc_blocks st) d n ns, st\<lparr>bc_blocks := h'\<rparr>)
        \<and> free_list h' (hq_freelist_head q) (remove1 (pick_free (bc_blocks st) d n ns) ns)
        \<and> payload h' = payload (bc_blocks st)))"
  using get_free_blk_ok [OF assms] get_free_blk_empty [OF assms(1)] assms(2) by blast

theorem get_free_blk_refines_pick_witness:
  "\<exists>st'. get_free_blk cache3 1000 0 7 = Some (1560, st') \<and> free_list (bc_blocks st') 1016 [2104]"
proof -
  have q: "bc_queues cache3 1000 = Some cache3_q" by (simp add: cache3_def)
  have f: "free_list (bc_blocks cache3) (hq_freelist_head cache3_q) [1560, 2104]"
    using cache3_inv by (simp add: cache_inv_def)
  have p: "pick_free (bc_blocks cache3) 0 7 [1560, 2104] = 1560"
    by (simp add: pick_free_def holds_def cache3_def ring_header_def zero_header_def)
  from get_free_blk_refines_pick [OF q f, of 0 7] show ?thesis unfolding p by auto
qed



text \<open>C30: \<open>brelse\<close> puts a buffer back on the free list, at the end when its contents are
  valid and at the front otherwise, marks it unlocked and wakes both kinds of sleepers.\<close>

theorem brelse_returns_buffer:
  assumes "driver_ready st major drv d q" and "free_list (bc_blocks st) (hq_freelist_head q) ns"
    and "bc_blocks st x = Some b" and "x \<notin> set ns" and "x \<noteq> hq_freelist_head q"
  shows "\<exists>st'. brelse st major device x = Some st'
    \<and> free_list (bc_blocks st') (hq_freelist_head q) (if bh_status b = BUFF_ST_VALID then ns @ [x] else x # ns)
    \<and> bc_wakeups st' = bc_wakeups st @ [2, 1]
    \<and> payload (bc_blocks st') = (payload (bc_blocks st))(x \<mapsto> b\<lparr>bh_status := BUFF_ST_UNLOCKED, bh_free_prev := NULL, bh_free_next := NULL\<rparr>)"
  using brelse_ok [OF assms, of device] by fastforce

theorem brelse_returns_buffer_witness:
  "\<exists>st'. brelse (cache3\<lparr>bc_blocks := (bc_blocks cache3)(9000 \<mapsto> zero_header)\<rparr>) 3 0 9000 = Some st'
    \<and> free_list (bc_blocks st') 1016 [9000, 1560, 2104]"
proof -
  let ?st = "cache3\<lparr>bc_blocks := (bc_blocks cache3)(9000 \<mapsto> zero_header)\<rparr>"
  have r: "driver_ready ?st 3 64 cache3_d cache3_q"
    using cache3_ready by (simp add: driver_ready_def block_dev_driver_def split: if_splits)
  have f: "free_list (bc_blocks ?st) (hq_freelist_head cache3_q) [1560, 2104]"
    by (auto simp: free_list_def ring_def ring_header_def cache3_def)
  have b: "bc_blocks ?st 9000 = Some zero_header" by simp
  from brelse_returns_buffer [OF r f b, of 0] show ?thesis by (auto simp: zero_header_def)
qed

text \<open>A cache hit does not take the buffer off the free list: its \<open>blk_remove_from_freelist\<close> only
  rewrites the hash links instead of the free links, so after \<open>getblk\<close> the buffer is busy
  and the free list is still the same, that buffer included.\<close>

theorem getblk_hit_stays_on_free_list:
  assumes "driver_ready st major drv d q" and "cache_inv st q ns css"
    and "find (holds (bc_blocks st) dev n) (css (n mod 4)) = Some x" and "bc_blocks st x = Some b"
    and "bh_status b \<noteq> BUFF_ST_BUSY" and "x \<in> set ns"
  shows "\<exists>st'. getblk ops slp st major dev n = Some (x, st') \<and> field_at bh_status (bc_blocks st') x = BUFF_ST_BUSY
    \<and> free_list (bc_blocks st') (hq_freelist_head q) ns \<and> x \<in> set ns"
  using getblk_hit_ok [OF assms(1-5), of ops slp] assms(6) by blast

theorem getblk_hit_stays_on_free_list_witness:
  "\<exists>st'. getblk (\<lambda>_. idle_ops) (\<lambda>_ _. None) (cache3\<lparr>bc_cells := (\<lambda>_. NULL)(0 := 2104)\<rparr>) 3 0 0 = Some (2104, st')
    \<and> free_list (bc_blocks st') 1016 [1560, 2104]"
proof -
  let ?st = "cache3\<lparr>bc_cells := (\<lambda>_. NULL)(0 := 2104)\<rparr>" and ?css = "(\<lambda>_ :: u64. [])(0 := [2104])"
  have r: "driver_ready ?st 3 64 cache3_d cache3_q"
    using cache3_ready by (simp add: driver_ready_def block_dev_driver_def split: if_splits)
  have i: "cache_inv ?st cache3_q [1560, 2104] ?css"
    using cache3_inv by (auto simp: cache_inv_def hash_cell_def cache3_def ring_header_def zero_header_def
        unat_eq_zero)
  have b: "bc_blocks ?st 2104 = Some (ring_header 1560 1016)" by (simp add: cache3_def)
  have h: "find (holds (bc_blocks ?st) 0 0) (?css ((0 :: u64) mod 4)) = Some 2104"
    by (simp add: holds_def cache3_def ring_header_def zero_header_def)
  from getblk_hit_stays_on_free_list [OF r i h b, of "\<lambda>_. idle_ops" "\<lambda>_ _. None"] show ?thesis
    by (auto simp: ring_header_def zero_header_def)
qed

text \<open>Releasing a valid buffer that is still the last of the free list, as happens when a
  block is read twice, makes its forward link point to itself; from then on a search of the
  free list for a block that is not on it never ends.\<close>

theorem brelse_twice_breaks_free_list:
  assumes "driver_ready st major drv d q" and "free_list (bc_blocks st) (hq_freelist_head q) (ns @ [x])"
    and "bc_blocks st x = Some b" and "bh_status b = BUFF_ST_VALID"
    and "\<forall>y \<in> set (ns @ [x]). \<not> holds (bc_blocks st) dev n y"
  shows "\<exists>st'. brelse st major dev x = Some st' \<and> get_free_blk st' (bd_buffer_queue d) dev n = None"
proof -
  let ?h = "bc_blocks st" and ?head = "hq_freelist_head q"
  from brelse_last_self_loop [OF assms(1-4), of dev] obtain st' where
    s: "brelse st major dev x = Some st'" "bc_queues st' = bc_queues st"
       "field_at bh_free_next (bc_blocks st') = (field_at bh_free_next ?h)(x := x)"
       "dom (bc_blocks st') = dom ?h" "holds (bc_blocks st') = holds ?h" by blast
  have f: "path (field_at bh_free_next ?h) (field_at bh_free_prev ?h) ?head (ns @ [x]) ?head"
    "?head \<notin> set (ns @ [x])" "x \<notin> set ns" "set (ns @ [x]) \<subseteq> dom ?h" "?head \<noteq> x" "?head \<in> dom ?h"
    using assms(2) by (auto simp: free_list_def ring_def)
  then obtain hb where hb: "bc_blocks st' ?head = Some hb" using s(4) by blast
  have "free_find (bc_blocks st') dev n ?head (bh_free_next hb) = None"
    using free_find_into_loop [OF f(1-4) assms(5) f(5) s(3-5)] hb by simp
  then have "get_free_blk st' (bd_buffer_queue d) dev n = None \<or> bh_free_next hb = ?head"
    using hb s(2) assms(1) by (auto simp: get_free_blk_def driver_ready_def)
  moreover have "bh_free_next hb \<noteq> ?head"
    using f(1,2,5) s(3) hb ring_empty_iff [of "field_at bh_free_next ?h" "field_at bh_free_prev ?h" ?head "ns @ [x]"]
      assms(2) by (metis append_is_Nil_conv field_at_Some free_list_def fun_upd_apply not_Cons_self2)
  ultimately show ?thesis using s(1) by blast
qed

theorem brelse_twice_breaks_free_list_witness:
  "\<exists>st'. brelse (cache3\<lparr>bc_blocks := (bc_blocks cache3)(2104 \<mapsto> (ring_header 1560 1016)\<lparr>bh_status := 2\<rparr>)\<rparr>) 3 0 2104
      = Some st' \<and> get_free_blk st' 1000 0 7 = None"
proof -
  let ?b = "(ring_header 1560 1016)\<lparr>bh_status := 2\<rparr>"
  let ?st = "cache3\<lparr>bc_blocks := (bc_blocks cache3)(2104 \<mapsto> ?b)\<rparr>"
  have r: "driver_ready ?st 3 64 cache3_d cache3_q"
    using cache3_ready by (simp add: driver_ready_def block_dev_driver_def split: if_splits)
  have f: "free_list (bc_blocks ?st) (hq_freelist_head cache3_q) ([1560] @ [2104])"
    by (auto simp: free_list_def ring_def ring_header_def cache3_def)
  have b: "bc_blocks ?st 2104 = Some ?b" by simp
  from brelse_twice_breaks_free_list [OF r f b, of 0 7] show ?thesis
    by (auto simp: holds_def cache3_def ring_header_def zero_header_def)
qed

text \<open>\<open>create_hash_queue\<close> clears the queue after storing the table pointer in it, so every
  queue's hash table is at address 0: creating a second queue empties the first one's chains,
  and no block cached there is found again.\<close>

theorem create_hash_queue_shares_table:
  assumes "create_hash_queue st0 n1 q1 t1 = Some (q1, st1)" and "q1 \<noteq> NULL" and "t1 \<noteq> NULL"
    and "bc_queues st2 q1 = bc_queues st1 q1" and "q2 \<noteq> NULL" and "t2 \<noteq> NULL" and "q2 \<noteq> q1"
  shows "\<exists>st3. create_hash_queue st2 n2 q2 t2 = Some (q2, st3) \<and> search_blk st3 q1 dev n = Some NULL"
proof -
  from create_hash_queue_ok [OF assms(2,3), of st0 n1] assms(1)
  have q1: "bc_queues st2 q1 = Some \<lparr>hq_size = 0, hq_hashtable = NULL, hq_freelist_head = block_addr q1 0\<rparr>"
    using assms(4) by auto
  from create_hash_queue_ok [OF assms(5,6), of st2 n2] obtain h' where
    run: "create_hash_queue st2 n2 q2 t2 = Some (q2, st2\<lparr>bc_blocks := h',
      bc_cells := (bc_cells st2)(0 := NULL, 4 := NULL, 8 := NULL, 12 := NULL),
      bc_queues := (bc_queues st2)(q2 \<mapsto> \<lparr>hq_size = 0, hq_hashtable = NULL, hq_freelist_head = block_addr q2 0\<rparr>)\<rparr>)"
    by blast
  define k where "k = n mod 4"
  have "k = 0 \<or> k = 1 \<or> k = 2 \<or> k = 3" unfolding k_def by (rule less_4_cases) simp
  then show ?thesis
    unfolding search_blk_def k_def [symmetric] using run q1 assms(7) by (auto simp: hash_cell_def)
qed

theorem create_hash_queue_shares_table_witness:
  "\<exists>st1 st3. create_hash_queue cache3 0 5000 6000 = Some (5000, st1)
    \<and> create_hash_queue (st1\<lparr>bc_cells := (\<lambda>_. NULL)(12 := 5560)\<rparr>) 0 800000 900000 = Some (800000, st3)
    \<and> search_blk st3 5000 0 7 = Some NULL"
proof -
  obtain st1 where s: "create_hash_queue cache3 0 5000 6000 = Some (5000, st1)"
    using create_hash_queue_ok [of 5000 6000 cache3 0] by auto
  then show ?thesis
    using create_hash_queue_shares_table [OF s, of "st1\<lparr>bc_cells := (\<lambda>_. NULL)(12 := 5560)\<rparr>" 800000 900000 0 0 7]
    by simp
qed

end
