(* ===== verification/Page_Stack.thy ===== *)
theory Page_Stack
  imports Prelude
begin

text \<open>
  The physical page allocator of \<^verbatim>\<open>arch/x86/mm/mm.c\<close>: a stack of page addresses kept in the
  array \<open>stack_pages\<close>, where the pages at and above \<open>stack_top\<close> are free; and the early bump
  allocator \<open>kmalloc_e\<close> with the construction of the kernel's page directory.
\<close>

section \<open>Page arithmetic\<close>

abbreviation (input) PAGE_SHIFT :: nat where "PAGE_SHIFT \<equiv> 12"
abbreviation (input) TABLE_SHIFT :: nat where "TABLE_SHIFT \<equiv> 10"
abbreviation (input) PAGE_SIZE :: u32 where "PAGE_SIZE \<equiv> 0x1000"
abbreviation (input) PAGE_MASK :: u32 where "PAGE_MASK \<equiv> 0xFFFFF000"
abbreviation (input) TABLE_SIZE :: nat where "TABLE_SIZE \<equiv> 1024"
abbreviation (input) PAGE_PRESENT :: u32 where "PAGE_PRESENT \<equiv> 0x01"
abbreviation (input) PAGE_WRITABLE :: u32 where "PAGE_WRITABLE \<equiv> 0x02"
abbreviation (input) PAGE_USER :: u32 where "PAGE_USER \<equiv> 0x04"
abbreviation (input) KERNEL_ADDR_OFFSET :: u32 where "KERNEL_ADDR_OFFSET \<equiv> 0xBFF00000"
abbreviation (input) KERNEL_PDIR_SPACE :: nat where "KERNEL_PDIR_SPACE \<equiv> 768"

definition PAGE_ALIGN :: "u32 \<Rightarrow> u32" where
  "PAGE_ALIGN addr = (addr + PAGE_SIZE - 1) AND PAGE_MASK"

definition MAKE_ENTRY :: "u32 \<Rightarrow> u32 \<Rightarrow> u32" where
  "MAKE_ENTRY addr params = (addr AND 0xFFFFF000) OR params"

definition GET_PHYADDR :: "u32 \<Rightarrow> u32" where
  "GET_PHYADDR x = x - KERNEL_ADDR_OFFSET"

section \<open>The stack of pages\<close>

record page_stack =
  stack_pages :: "u32 list"
  stack_top :: nat
  stack_max_top :: nat

abbreviation (input) DMA_ZONE :: byte where "DMA_ZONE \<equiv> 0x01"
abbreviation (input) NORMAL_ZONE :: byte where "NORMAL_ZONE \<equiv> 0x02"

definition alloc_page :: "page_stack \<Rightarrow> byte \<Rightarrow> u32 \<times> page_stack" where
  "alloc_page s zone =
     (if stack_top s \<ge> stack_max_top s then (0, s)
      else if zone = DMA_ZONE \<or> zone = NORMAL_ZONE
      then (stack_pages s ! stack_top s, s\<lparr>stack_top := stack_top s + 1\<rparr>)
      else (0, s))"

definition free_page :: "page_stack \<Rightarrow> u32 \<Rightarrow> page_stack" where
  "free_page s page_e =
     (if stack_top s > 0
      then s\<lparr>stack_pages := (stack_pages s)[stack_top s - 1 := page_e], stack_top := stack_top s - 1\<rparr>
      else s)"

section \<open>The early allocator and the page directory\<close>

text \<open>\<open>kmalloc_e\<close> returns the old \<open>free_phy_addr\<close> and the new one.\<close>

definition kmalloc_e :: "u32 \<Rightarrow> u32 \<Rightarrow> u32 \<times> u32" where
  "kmalloc_e free_phy_addr n = (free_phy_addr, PAGE_ALIGN (free_phy_addr + n))"

record pagedir =
  pd_tables :: "u32 list"
  pd_tables_phy_addr :: u32
  pd_dir_phy_addr :: u32
  pd_dir_entries :: "u32 list"

text \<open>The loop that allocates the remaining \<open>n\<close> tables; clearing them is left to the initial
  contents of the flat array of entries of \<open>init_pg\<close>.\<close>

fun make_tables :: "nat \<Rightarrow> u32 \<Rightarrow> u32 list \<Rightarrow> u32 list \<Rightarrow> u32 list \<times> u32 list \<times> u32" where
  "make_tables 0 free ts es = (ts, es, free)"
| "make_tables (Suc n) free ts es =
     (let (t, free') = kmalloc_e free PAGE_SIZE in
      make_tables n free' (ts @ [t]) (es @ [MAKE_ENTRY (GET_PHYADDR t) (PAGE_WRITABLE OR PAGE_PRESENT)]))"

text \<open>\<^verbatim>\<open>sizeof(pagedir_t)\<close> is \<open>4 * 1024 + 8\<close>.\<close>

definition make_kerneldir :: "u32 \<Rightarrow> ptr \<times> pagedir \<times> u32" where
  "make_kerneldir free0 =
     (let (kdir, free1) = kmalloc_e free0 4104;
          (tpa, free2) = kmalloc_e free1 PAGE_SIZE;
          (ts, es, free3) = make_tables TABLE_SIZE free2 [] []
      in (unat kdir, \<lparr>pd_tables = ts, pd_tables_phy_addr = tpa, pd_dir_phy_addr = GET_PHYADDR tpa,
           pd_dir_entries = es\<rparr>, free3))"

section \<open>Allocation\<close>

definition stack_inv :: "page_stack \<Rightarrow> bool" where
  "stack_inv s \<longleftrightarrow> stack_top s \<le> stack_max_top s \<and> stack_max_top s \<le> length (stack_pages s)"

lemma alloc_page_inv: "stack_inv s \<Longrightarrow> stack_inv (snd (alloc_page s zone))"
  by (simp add: stack_inv_def alloc_page_def)

lemma free_page_inv: "stack_inv s \<Longrightarrow> stack_inv (free_page s e)"
  by (auto simp: stack_inv_def free_page_def)

fun alloc_pages :: "page_stack \<Rightarrow> byte \<Rightarrow> nat \<Rightarrow> u32 list \<times> page_stack" where
  "alloc_pages s zone 0 = ([], s)"
| "alloc_pages s zone (Suc n) =
     (let (p, s1) = alloc_page s zone; (ps, s2) = alloc_pages s1 zone n in (p # ps, s2))"

lemma alloc_pages_ok:
  "stack_inv s \<Longrightarrow> zone = 1 \<or> zone = 2 \<Longrightarrow> stack_top s + n \<le> stack_max_top s
    \<Longrightarrow> alloc_pages s zone n
         = (take n (drop (stack_top s) (stack_pages s)), s\<lparr>stack_top := stack_top s + n\<rparr>)"
proof (induction n arbitrary: s)
  case 0
  then show ?case by simp
next
  case (Suc n)
  let ?s1 = "s\<lparr>stack_top := Suc (stack_top s)\<rparr>"
  have a: "alloc_page s zone = (stack_pages s ! stack_top s, ?s1)"
    using Suc.prems by (auto simp: alloc_page_def)
  have "alloc_pages ?s1 zone n
      = (take n (drop (Suc (stack_top s)) (stack_pages s)), ?s1\<lparr>stack_top := Suc (stack_top s) + n\<rparr>)"
    using Suc.IH [of ?s1] Suc.prems by (simp add: stack_inv_def)
  moreover have "drop (stack_top s) (stack_pages s)
      = stack_pages s ! stack_top s # drop (Suc (stack_top s)) (stack_pages s)"
    using Suc.prems by (intro Cons_nth_drop_Suc [symmetric]) (simp add: stack_inv_def)
  ultimately show ?case using a by simp
qed

lemma free_undoes_alloc:
  assumes "stack_inv s" and "stack_top s < stack_max_top s" and "zone = 1 \<or> zone = 2"
  shows "free_page (snd (alloc_page s zone)) (fst (alloc_page s zone)) = s"
  using assms by (cases s) (auto simp: alloc_page_def free_page_def stack_inv_def)

section \<open>Alignment and the layout of the tables\<close>

lemma PAGE_MASK_eq: "(PAGE_MASK :: u32) = NOT (mask 12)"
  by (simp add: mask_eq_exp_minus_1)

lemma and_PAGE_MASK: "(w :: u32) AND PAGE_MASK = push_bit 12 (drop_bit 12 w)"
  unfolding PAGE_MASK_eq by (rule bit_word_eqI) (auto simp: bit_simps)

lemma unat_and_PAGE_MASK: "unat ((w :: u32) AND PAGE_MASK) = unat w div 4096 * 4096"
proof -
  have "unat w div 4096 * 4096 < 2 ^ 32" using unat_u32_bound [of w] by auto
  then show ?thesis
    unfolding and_PAGE_MASK unsigned_push_bit_eq unsigned_drop_bit_eq
    by (simp add: push_bit_eq_mult drop_bit_eq_div take_bit_nat_eq_self)
qed

lemma PAGE_ALIGN_nat:
  assumes "unat a + 4095 < 2 ^ 32"
  shows "unat (PAGE_ALIGN a) = (unat a + 4095) div 4096 * 4096"
proof -
  have "unat (a + PAGE_SIZE - 1) = unat a + 4095"
    using assms by (simp add: unat_word_ariths)
  then show ?thesis unfolding PAGE_ALIGN_def unat_and_PAGE_MASK by simp
qed

lemma PAGE_ALIGN_bounds:
  assumes "unat a + 4095 < 2 ^ 32"
  shows "unat a \<le> unat (PAGE_ALIGN a) \<and> unat (PAGE_ALIGN a) < unat a + 4096 \<and> 4096 dvd unat (PAGE_ALIGN a)"
  unfolding PAGE_ALIGN_nat [OF assms] by auto (presburger+)?

lemma kmalloc_e_aligned:
  assumes "4096 dvd unat free" and "unat free + 8191 < 2 ^ 32"
  shows "kmalloc_e free PAGE_SIZE = (free, free + PAGE_SIZE)"
proof -
  have s: "unat (free + PAGE_SIZE) = unat free + 4096" using assms(2) by (simp add: unat_word_ariths)
  then have "unat (PAGE_ALIGN (free + PAGE_SIZE)) = unat (free + PAGE_SIZE)"
    using assms by (subst PAGE_ALIGN_nat) (auto elim!: dvdE)
  then have "PAGE_ALIGN (free + PAGE_SIZE) = free + PAGE_SIZE" by (rule unsigned_word_eqI)
  then show ?thesis by (simp add: kmalloc_e_def)
qed

lemma make_tables_ok:
  "4096 dvd unat free \<Longrightarrow> unat free + 4096 * n + 4095 < 2 ^ 32 \<Longrightarrow>
    make_tables n free ts es = (ts @ map (\<lambda>i. free + PAGE_SIZE * of_nat i) [0..<n],
      es @ map (\<lambda>i. MAKE_ENTRY (GET_PHYADDR (free + PAGE_SIZE * of_nat i)) 3) [0..<n],
      free + PAGE_SIZE * of_nat n)"
proof (induction n arbitrary: free ts es)
  case 0
  then show ?case by simp
next
  case (Suc n)
  have s: "unat (free + PAGE_SIZE) = unat free + 4096" using Suc.prems by (simp add: unat_word_ariths)
  have d: "4096 dvd unat (free + PAGE_SIZE)" using s Suc.prems(1) by simp
  have k: "kmalloc_e free PAGE_SIZE = (free, free + PAGE_SIZE)"
    using Suc.prems by (intro kmalloc_e_aligned) auto
  have sh: "(\<lambda>i. free + PAGE_SIZE + PAGE_SIZE * of_nat i) = (\<lambda>i. free + PAGE_SIZE * of_nat (Suc i))"
    by (simp add: fun_eq_iff algebra_simps)
  have m: "map f [0..<Suc n] = f 0 # map (\<lambda>i. f (Suc i)) [0..<n]" for f :: "nat \<Rightarrow> u32"
    by (simp add: upt_conv_Cons map_Suc_upt [symmetric] del: upt_Suc)
  show ?case
    unfolding m using Suc.IH [OF d, of "ts @ [free]"] Suc.prems(2) s k
    by (simp add: algebra_simps)
qed

text \<open>\<open>make_kerneldir\<close> lays the 1024 page tables out one after the other, page aligned and
  after the directory, and every directory entry is the physical address of its table marked
  present and writable.\<close>

theorem make_kerneldir_contiguous:
  assumes "unat free0 + 4300000 < 2 ^ 32" and "make_kerneldir free0 = (k, d, free3)"
  shows "\<exists>base. 4096 dvd unat base \<and> unat free0 + 8200 \<le> unat base
    \<and> pd_tables d = map (\<lambda>i. base + PAGE_SIZE * of_nat i) [0..<1024]
    \<and> pd_dir_entries d = map (\<lambda>i. MAKE_ENTRY (GET_PHYADDR (base + PAGE_SIZE * of_nat i)) 3) [0..<1024]
    \<and> free3 = base + PAGE_SIZE * 1024"
proof -
  let ?f1 = "PAGE_ALIGN (free0 + 4104)" and ?f2 = "PAGE_ALIGN (PAGE_ALIGN (free0 + 4104) + PAGE_SIZE)"
  have s: "unat (free0 + 4104) = unat free0 + 4104" using assms(1) by (simp add: unat_word_ariths)
  have f1: "unat free0 + 4104 \<le> unat ?f1" "unat ?f1 < unat free0 + 8200" "4096 dvd unat ?f1"
    using PAGE_ALIGN_bounds [of "free0 + 4104"] assms(1) s by auto
  have s1: "unat (?f1 + PAGE_SIZE) = unat ?f1 + 4096" using assms(1) f1 by (simp add: unat_word_ariths)
  have f2: "unat ?f1 + 4096 \<le> unat ?f2" "unat ?f2 < unat ?f1 + 8192" "4096 dvd unat ?f2"
    using PAGE_ALIGN_bounds [of "?f1 + PAGE_SIZE"] assms(1) f1 s1 by auto
  have "make_tables 1024 ?f2 [] [] = (map (\<lambda>i. ?f2 + PAGE_SIZE * of_nat i) [0..<1024],
      map (\<lambda>i. MAKE_ENTRY (GET_PHYADDR (?f2 + PAGE_SIZE * of_nat i)) 3) [0..<1024], ?f2 + PAGE_SIZE * of_nat 1024)"
    using make_tables_ok [OF f2(3), of 1024 "[]" "[]"] f1 f2 assms(1) by (simp del: upt_Suc)
  then show ?thesis
    using assms(2) f1 f2
    by (intro exI [of _ ?f2]) (auto simp: make_kerneldir_def kmalloc_e_def Let_def simp del: upt_Suc make_tables.simps)
qed

theorem make_kerneldir_contiguous_witness:
  "\<exists>k d free3 base. make_kerneldir 0xC0100000 = (k, d, free3) \<and> 4096 dvd unat base
    \<and> pd_tables d = map (\<lambda>i. base + PAGE_SIZE * of_nat i) [0..<1024]"
proof -
  obtain k d f where m: "make_kerneldir 0xC0100000 = (k, d, f)" by (cases "make_kerneldir 0xC0100000") auto
  from make_kerneldir_contiguous [OF _ m] show ?thesis using m by auto
qed

end
