(* ===== verification/Kmalloc.thy ===== *)
theory Kmalloc
  imports Page_Stack
begin

text \<open>
  The kernel heap: the page bitmap of \<^verbatim>\<open>kernel/mm/init_mm.c\<close> and \<^verbatim>\<open>_vmalloc_\<close>, \<^verbatim>\<open>kmalloc\<close> and
  \<^verbatim>\<open>kfree\<close> of \<^verbatim>\<open>kernel/mm/kmalloc.c\<close>. The page tables are the flat array of their entries,
  which is how \<open>make_kerneldir\<close> lays them out: entry \<open>i\<close> of table \<open>index\<close> is slot
  \<open>1024 * index + i\<close>. Region headers are a store indexed by the address of the header.
\<close>

section \<open>State\<close>

abbreviation (input) BITMAP_SIZE :: nat where "BITMAP_SIZE \<equiv> 0x20000"
abbreviation (input) BITMAP_SHIFT :: nat where "BITMAP_SHIFT \<equiv> 3"
abbreviation (input) BITMAP_FBIT :: byte where "BITMAP_FBIT \<equiv> 0x80"
abbreviation (input) GFP_DMA_Z :: u16 where "GFP_DMA_Z \<equiv> 0x01"
abbreviation (input) GFP_NORMAL_Z :: u16 where "GFP_NORMAL_Z \<equiv> 0x02"
abbreviation (input) GFP_ZEROP :: u16 where "GFP_ZEROP \<equiv> 0x04"
abbreviation (input) GFP_USER :: u16 where "GFP_USER \<equiv> 0x08"

type_synonym bitmap = "nat \<Rightarrow> byte"

record mregion =
  mr_initial_addr :: u32
  mr_size :: u32

record kmem =
  km_bitmap :: bitmap
  km_entries :: "nat \<Rightarrow> u32"
  km_stack :: page_stack
  km_regions :: "ptr \<rightharpoonup> mregion"
  km_mem :: mem

section \<open>The bitmap\<close>

definition bmap_clear :: "bitmap \<Rightarrow> bitmap" where
  "bmap_clear bm = (\<lambda>i. if i < BITMAP_SIZE then 0 else bm i)"

definition bmap_on :: "bitmap \<Rightarrow> u32 \<Rightarrow> bitmap" where
  "bmap_on bm block =
     (let byte = drop_bit BITMAP_SHIFT block; b = block - byte * 8
      in bm(unat byte := bm (unat byte) OR drop_bit (unat b) BITMAP_FBIT))"

definition bmap_off :: "bitmap \<Rightarrow> u32 \<Rightarrow> bitmap" where
  "bmap_off bm block =
     (let byte = drop_bit BITMAP_SHIFT block; b = block - byte * 8
      in bm(unat byte := bm (unat byte) OR NOT (drop_bit (unat b) BITMAP_FBIT)))"

text \<open>The loop of \<open>init_mm\<close> over the pages \<open>i\<close> to \<open>i + n - 1\<close> of the kernel.\<close>

fun map_kernel_pages :: "bitmap \<Rightarrow> nat \<Rightarrow> nat \<Rightarrow> bitmap" where
  "map_kernel_pages bm i 0 = bm"
| "map_kernel_pages bm i (Suc n) =
     map_kernel_pages (bmap_on (bmap_on bm (of_nat i)) (of_nat (KERNEL_PDIR_SPACE * TABLE_SIZE + i))) (i + 1) n"

definition init_mm :: "kmem \<Rightarrow> u32 \<Rightarrow> kmem" where
  "init_mm km kernel_size =
     (let kpages = drop_bit PAGE_SHIFT (PAGE_ALIGN kernel_size)
      in km\<lparr>km_bitmap := map_kernel_pages (bmap_clear (km_bitmap km)) 0 (unat kpages)\<rparr>)"

section \<open>Searching for space\<close>

text \<open>The variables \<open>istart\<close>, \<open>pstart\<close> and \<open>apages\<close> of the search.\<close>

type_synonym scan = "bool \<times> nat \<times> nat"

definition scan_bit :: "byte \<Rightarrow> nat \<Rightarrow> nat \<Rightarrow> nat \<Rightarrow> scan \<Rightarrow> scan" where
  "scan_bit b npages i j = (\<lambda>(istart, pstart, apages).
     if b AND drop_bit j BITMAP_FBIT = 0 then
       (if \<not> istart then (True, i * 8 + j, apages + 1) else (istart, pstart, apages + 1))
     else if apages < npages then (False, pstart, 0) else (istart, pstart, apages))"

function scan_byte :: "byte \<Rightarrow> nat \<Rightarrow> nat \<Rightarrow> nat \<Rightarrow> scan \<Rightarrow> scan" where
  "scan_byte b npages i j st =
     (if j < 8 then
        let st' = scan_bit b npages i j st in
        if snd (snd st') \<ge> npages then st' else scan_byte b npages i (j + 1) st'
      else st)"
  by pat_completeness auto
termination by (relation "measure (\<lambda>(b, npages, i, j, st). 8 - j)") auto

declare scan_byte.simps [simp del]

fun scan_bitmap :: "bitmap \<Rightarrow> nat \<Rightarrow> nat \<Rightarrow> nat \<Rightarrow> scan \<Rightarrow> scan" where
  "scan_bitmap bm npages i 0 st = st"
| "scan_bitmap bm npages i (Suc n) st = scan_bitmap bm npages (i + 1) n (scan_byte (bm i) npages i 0 st)"

definition find_space :: "bitmap \<Rightarrow> nat \<Rightarrow> scan" where
  "find_space bm npages = scan_bitmap bm npages 0 BITMAP_SIZE (False, 0, 0)"

section \<open>Allocation\<close>

text \<open>\<^verbatim>\<open>sizeof(mregion)\<close> is 12.\<close>

definition region_pages :: "u32 \<Rightarrow> u32" where
  "region_pages size0 = drop_bit PAGE_SHIFT (PAGE_ALIGN (12 + size0))"

text \<open>Reading \<^verbatim>\<open>pgdir->tables[index]\<close>: only the 1024 tables of the directory exist; \<open>slot\<close> is
  \<^verbatim>\<open>table[i]\<close>, which must be inside the tables.\<close>

definition slot :: "nat \<Rightarrow> nat \<Rightarrow> nat option" where
  "slot index i = (if index < TABLE_SIZE \<and> TABLE_SIZE * index + i < TABLE_SIZE * TABLE_SIZE
     then Some (TABLE_SIZE * index + i) else None)"

text \<open>The error exit: gives back what the table holds from \<open>i\<close> downwards.\<close>

fun free_back :: "kmem \<Rightarrow> nat \<Rightarrow> nat \<Rightarrow> nat \<Rightarrow> kmem option" where
  "free_back km index i 0 = Some km"
| "free_back km index i (Suc apages) = do {
     s \<leftarrow> slot index i;
     let km' = km\<lparr>km_stack := free_page (km_stack km) (km_entries km s), km_entries := (km_entries km)(s := 0)\<rparr>;
     if i > 0 then free_back km' index (i - 1) apages
     else if index > 0 then free_back km' (index - 1) (TABLE_SIZE - 1) apages
     else if apages = 0 then Some km' else None
   }"

text \<open>The allocation loop: \<open>Inl\<close> when a page is missing, after the error exit.\<close>

function alloc_loop :: "kmem \<Rightarrow> byte \<Rightarrow> u32 \<Rightarrow> nat \<Rightarrow> nat \<Rightarrow> nat \<Rightarrow> nat \<Rightarrow> nat \<Rightarrow> (kmem + kmem) option" where
  "alloc_loop km mzone user_page npages pstart index i apages =
     (if apages \<le> npages then
        let (newpage, st) = alloc_page (km_stack km) mzone; km1 = km\<lparr>km_stack := st\<rparr> in
        if newpage = 0 then do { km' \<leftarrow> free_back km1 index i apages; Some (Inl km') }
        else do {
          s \<leftarrow> slot index i;
          let km2 = km1\<lparr>km_bitmap := bmap_on (km_bitmap km1) (of_nat (pstart + apages)),
            km_entries := (km_entries km1)(s := MAKE_ENTRY newpage (PAGE_WRITABLE OR PAGE_PRESENT OR user_page))\<rparr>;
          if i < TABLE_SIZE then alloc_loop km2 mzone user_page npages pstart index (i + 1) (apages + 1)
          else alloc_loop km2 mzone user_page npages pstart (index + 1) 0 (apages + 1)
        }
      else Some (Inr km))"
  by pat_completeness auto
termination by (relation "measure (\<lambda>(km, z, u, npages, ps, index, i, apages). npages + 1 - apages)") auto

declare alloc_loop.simps [simp del]

fun zero_fill :: "mem \<Rightarrow> ptr \<Rightarrow> nat \<Rightarrow> mem" where
  "zero_fill m p 0 = m"
| "zero_fill m p (Suc n) = zero_fill (m(p := 0)) (p + 1) n"

definition vmalloc :: "kmem \<Rightarrow> u32 \<Rightarrow> u16 \<Rightarrow> (ptr \<times> kmem) option" where
  "vmalloc km size0 flags =
     (let mzone = (if flags AND GFP_DMA_Z \<noteq> 0 then DMA_ZONE else NORMAL_ZONE);
          user_page = (if flags AND GFP_USER \<noteq> 0 then PAGE_USER else 0);
          npages = unat (region_pages size0);
          (istart, pstart, apages) = find_space (km_bitmap km) npages
      in if apages < npages then Some (NULL, km)
      else do {
        let index = pstart div TABLE_SIZE;
        r \<leftarrow> alloc_loop km mzone user_page npages pstart index (pstart - TABLE_SIZE * index) 0;
        case r of
          Inl km' \<Rightarrow> Some (NULL, km')
        | Inr km1 \<Rightarrow> do {
            let mem_block = unat (of_nat pstart * PAGE_SIZE :: u32);
            let km2 = km1\<lparr>km_regions := (km_regions km1)(mem_block \<mapsto>
                  \<lparr>mr_initial_addr = of_nat pstart, mr_size = of_nat npages\<rparr>)\<rparr>;
            let km3 = (if flags AND GFP_ZEROP \<noteq> 0
              then km2\<lparr>km_mem := zero_fill (km_mem km2) (mem_block + 12) (unat (size0 - 12))\<rparr> else km2);
            Some (mem_block + 12, km3)
          }
      })"

definition kmalloc :: "kmem \<Rightarrow> u32 \<Rightarrow> u16 \<Rightarrow> (ptr \<times> kmem) option" where
  "kmalloc km size0 flags = vmalloc km size0 flags"

text \<open>The loop of \<open>kfree\<close>, with its 32-bit counters.\<close>

partial_function (option) free_loop :: "kmem \<Rightarrow> u32 \<Rightarrow> u32 \<Rightarrow> u32 \<Rightarrow> u32 \<Rightarrow> u32 \<Rightarrow> kmem option" where
  "free_loop km initial_addr ffpage j i dpages =
     (if dpages \<ge> ffpage then do {
        s \<leftarrow> slot (unat j) (unat i);
        let km' = km\<lparr>km_stack := free_page (km_stack km) (km_entries km s),
                     km_bitmap := bmap_off (km_bitmap km) (initial_addr + dpages)\<rparr>;
        if i > 0 then free_loop km' initial_addr ffpage j (i - 1) (dpages - 1)
        else free_loop km' initial_addr ffpage (j - 1) i (dpages - 1)
      } else Some km)"

definition kfree :: "kmem \<Rightarrow> ptr \<Rightarrow> kmem option" where
  "kfree km p = do {
     mem_area \<leftarrow> km_regions km (p - 12);
     let index = drop_bit TABLE_SHIFT (mr_initial_addr mem_area);
     let ffpage = mr_initial_addr mem_area - 1024 * index;
     let lpage = ffpage + mr_size mem_area - 1;
     free_loop km (mr_initial_addr mem_area) ffpage index ffpage lpage
   }"

section \<open>Bits of the map\<close>

definition page_used :: "bitmap \<Rightarrow> nat \<Rightarrow> bool" where
  "page_used bm p \<longleftrightarrow> bm (p div 8) AND drop_bit (p mod 8) BITMAP_FBIT \<noteq> 0"

lemma fbit_shift: "j < 8 \<Longrightarrow> drop_bit j BITMAP_FBIT = (2 :: byte) ^ (7 - j)"
proof -
  assume "j < 8"
  then have "j \<in> {0, 1, 2, 3, 4, 5, 6, 7}" by auto
  then show ?thesis by (auto simp: drop_bit_eq_div)
qed

lemma page_used_bit: "page_used bm p \<longleftrightarrow> bit (bm (p div 8)) (7 - p mod 8)"
  unfolding page_used_def by (simp add: fbit_shift and_exp_eq_0_iff_not_bit)

lemma block_split:
  fixes block :: u32
  shows "unat (drop_bit 3 block) = unat block div 8"
    and "unat (block - drop_bit 3 block * 8) = unat block mod 8"
proof -
  show d: "unat (drop_bit 3 block) = unat block div 8"
    using unat_u32_bound [of block]
    by (subst unsigned_drop_bit_eq) (simp add: drop_bit_eq_div take_bit_nat_eq_self)
  have "unat block div 8 * 8 \<le> unat block" by (rule div_times_less_eq_dividend)
  then have "block - drop_bit 3 block * 8 = of_nat (unat block - unat block div 8 * 8)"
    by (subst of_nat_diff) (simp_all flip: d)
  moreover have "unat block - unat block div 8 * 8 < 4294967296"
    using unat_u32_bound [of block] by linarith
  ultimately have "unat (block - drop_bit 3 block * 8) = unat block - unat block div 8 * 8"
    by (simp only: unat_of_nat_small_u32)
  then show "unat (block - drop_bit 3 block * 8) = unat block mod 8"
    by (simp only: minus_div_mult_eq_mod)
qed

lemma same_bit_iff: "p div 8 = q div 8 \<Longrightarrow> 7 - p mod 8 = 7 - q mod 8 \<longleftrightarrow> p = (q :: nat)"
proof -
  assume d: "p div 8 = q div 8"
  have "p mod 8 \<le> 7" "q mod 8 \<le> 7" by simp_all
  then have "7 - p mod 8 = 7 - q mod 8 \<longleftrightarrow> p mod 8 = q mod 8" by linarith
  also have "\<dots> \<longleftrightarrow> p = q" using d by (metis div_mult_mod_eq)
  finally show ?thesis .
qed

lemma page_used_on: "page_used (bmap_on bm block) p \<longleftrightarrow> p = unat block \<or> page_used bm p"
proof (cases "p div 8 = unat block div 8")
  case True
  then show ?thesis
    using same_bit_iff [OF True]
    by (auto simp: page_used_bit bmap_on_def Let_def block_split fbit_shift bit_or_iff bit_exp_iff)
next
  case False
  then have "p \<noteq> unat block" by auto
  with False show ?thesis by (auto simp: page_used_bit bmap_on_def Let_def block_split)
qed

lemma page_used_off:
  "page_used (bmap_off bm block) p \<longleftrightarrow> page_used bm p \<or> p div 8 = unat block div 8 \<and> p \<noteq> unat block"
proof (cases "p div 8 = unat block div 8")
  case True
  then show ?thesis
    using same_bit_iff [OF True]
    by (auto simp: page_used_bit bmap_off_def Let_def block_split fbit_shift bit_or_iff bit_not_iff bit_exp_iff)
next
  case False
  then show ?thesis by (auto simp: page_used_bit bmap_off_def Let_def block_split)
qed

lemma page_used_clear: "p < 8 * BITMAP_SIZE \<Longrightarrow> \<not> page_used (bmap_clear bm) p"
  using div_less_iff_less_mult [of 8 p BITMAP_SIZE] by (simp add: page_used_def bmap_clear_def)

lemma page_used_kernel:
  "i + n \<le> 262144 \<Longrightarrow> page_used (map_kernel_pages bm i n) p \<longleftrightarrow>
    page_used bm p \<or> i \<le> p \<and> p < i + n \<or> 786432 + i \<le> p \<and> p < 786432 + i + n"
proof (induction n arbitrary: bm i)
  case 0
  then show ?case by auto
next
  case (Suc n)
  have u: "unat (of_nat i :: u32) = i" "unat (of_nat (786432 + i) :: u32) = 786432 + i"
    using Suc.prems by (simp_all only: unat_of_nat_small_u32)
  have "page_used (map_kernel_pages bm i (Suc n)) p \<longleftrightarrow> page_used bm p \<or> p = i \<or> p = 786432 + i
      \<or> i + 1 \<le> p \<and> p < i + 1 + n \<or> 786432 + (i + 1) \<le> p \<and> p < 786432 + (i + 1) + n"
    using Suc.IH [of "i + 1"] Suc.prems by (simp add: page_used_on u del: of_nat_add) blast
  also have "\<dots> \<longleftrightarrow> page_used bm p \<or> i \<le> p \<and> p < i + Suc n \<or> 786432 + i \<le> p \<and> p < 786432 + i + Suc n"
    by (rule disj_cong [OF refl]) arith
  finally show ?case .
qed

section \<open>The search is first fit\<close>

definition fits :: "bitmap \<Rightarrow> nat \<Rightarrow> nat \<Rightarrow> bool" where
  "fits bm npages s \<longleftrightarrow> (\<forall>k < npages. \<not> page_used bm (s + k))"

text \<open>The state of the search before page \<open>p\<close>, while nothing has been found.\<close>

definition scanning :: "bitmap \<Rightarrow> nat \<Rightarrow> nat \<Rightarrow> scan \<Rightarrow> bool" where
  "scanning bm npages p = (\<lambda>(istart, pstart, apages).
     apages < npages \<and> (istart \<longleftrightarrow> 0 < apages) \<and> (let s = p - apages in
       apages \<le> p \<and> (istart \<longrightarrow> pstart = s) \<and> (\<forall>q. s \<le> q \<and> q < p \<longrightarrow> \<not> page_used bm q)
       \<and> (s = 0 \<or> page_used bm (s - 1)))
     \<and> (\<forall>s. fits bm npages s \<longrightarrow> p < s + npages))"

definition found :: "bitmap \<Rightarrow> nat \<Rightarrow> nat \<Rightarrow> scan \<Rightarrow> bool" where
  "found bm npages p = (\<lambda>(istart, pstart, apages).
     npages \<le> apages \<and> istart \<and> fits bm npages pstart \<and> pstart + npages \<le> p
     \<and> (\<forall>s. fits bm npages s \<longrightarrow> pstart \<le> s))"

lemma scan_bit_used:
  "scan_bit (bm i) npages i j (istart, pstart, apages) =
    (if \<not> page_used bm (i * 8 + j) then (True, if istart then pstart else i * 8 + j, apages + 1)
     else if apages < npages then (False, pstart, 0) else (istart, pstart, apages))"
  if "j < 8"
proof -
  have "(i * 8 + j) div 8 = i" "(i * 8 + j) mod 8 = j" using that by simp_all
  then have "page_used bm (i * 8 + j) \<longleftrightarrow> bm i AND drop_bit j BITMAP_FBIT \<noteq> 0" by (simp add: page_used_def)
  then show ?thesis by (auto simp: scan_bit_def)
qed

lemma scan_bit_step:
  assumes "scanning bm npages p st" and "p = i * 8 + j" and "j < 8"
  shows "scanning bm npages (p + 1) (scan_bit (bm i) npages i j st)
    \<or> found bm npages (p + 1) (scan_bit (bm i) npages i j st)"
proof -
  obtain istart pstart apages where st: "st = (istart, pstart, apages)" by (cases st) auto
  have a: "apages < npages" "istart \<longleftrightarrow> 0 < apages" "apages \<le> p" "istart \<longrightarrow> pstart = p - apages"
    "\<forall>q. p - apages \<le> q \<and> q < p \<longrightarrow> \<not> page_used bm q"
    "p - apages = 0 \<or> page_used bm (p - apages - 1)" "\<forall>s. fits bm npages s \<longrightarrow> p < s + npages"
    using assms(1) by (auto simp: scanning_def st Let_def)
  show ?thesis
  proof (cases "page_used bm p")
    case True
    have "\<not> fits bm npages s" if "s + npages = p + 1" for s
    proof
      assume "fits bm npages s"
      moreover have "p - s < npages" "s + (p - s) = p" using that a(1) by auto
      ultimately show False using True unfolding fits_def by metis
    qed
    then have "\<forall>s. fits bm npages s \<longrightarrow> p + 1 < s + npages"
      using a(7) by (metis Suc_eq_plus1 Suc_lessI)
    then show ?thesis using True a(1) assms(2,3)
      by (auto simp: st scan_bit_used scanning_def)
  next
    case False
    let ?s = "p - apages"
    have st': "scan_bit (bm i) npages i j st = (True, ?s, apages + 1)"
      using False a(2,4) assms(2,3) by (cases istart) (auto simp: st scan_bit_used)
    have run: "\<forall>q. ?s \<le> q \<and> q < p + 1 \<longrightarrow> \<not> page_used bm q"
      using a(5) False by (metis Suc_eq_plus1 less_Suc_eq)
    show ?thesis
    proof (cases "apages + 1 = npages")
      case True
      have "?s + k < p + 1" if "k < npages" for k using that a(3) True by linarith
      then have "fits bm npages ?s" using run unfolding fits_def by (metis le_add1)
      moreover have "\<forall>s. fits bm npages s \<longrightarrow> ?s \<le> s" using a(7) True by fastforce
      ultimately show ?thesis using True a(3) by (auto simp: st' found_def)
    next
      case lt: False
      have "p + 1 < s + npages" if f: "fits bm npages s" for s
      proof (rule ccontr)
        assume "\<not> p + 1 < s + npages"
        then have e: "s + npages = p + 1" using a(7) f by fastforce
        then have "s < ?s" using lt a(1,3) by linarith
        then have "page_used bm (?s - 1)" "s \<le> ?s - 1" using a(6) by auto
        moreover have "?s - 1 < s + npages" using e by linarith
        ultimately show False using f unfolding fits_def
          by (metis add_diff_inverse_nat add_less_cancel_left linorder_not_le)
      qed
      then show ?thesis using lt a run by (auto simp: st' scanning_def)
    qed
  qed
qed

lemma found_mono: "found bm npages p st \<Longrightarrow> p \<le> p' \<Longrightarrow> found bm npages p' st"
  by (auto simp: found_def split: prod.splits)

lemma found_scan_bit:
  assumes "found bm npages p st" and "j < 8"
  shows "found bm npages p (scan_bit (bm i) npages i j st) \<and> snd (snd (scan_bit (bm i) npages i j st)) \<ge> npages"
  using assms by (cases st) (auto simp: found_def scan_bit_used)

lemma scan_byte_stop:
  "j < 8 \<Longrightarrow> snd (snd (scan_bit b npages i j st)) \<ge> npages \<Longrightarrow> scan_byte b npages i j st = scan_bit b npages i j st"
  by (subst scan_byte.simps) (simp add: Let_def)

lemma scan_byte_step:
  "j < 8 \<Longrightarrow> snd (snd (scan_bit b npages i j st)) < npages
    \<Longrightarrow> scan_byte b npages i j st = scan_byte b npages i (j + 1) (scan_bit b npages i j st)"
  by (subst scan_byte.simps) (simp add: Let_def)

lemma scan_byte_ok:
  "scanning bm npages (i * 8 + j) st \<Longrightarrow> j \<le> 8 \<Longrightarrow>
    scanning bm npages ((i + 1) * 8) (scan_byte (bm i) npages i j st)
    \<or> found bm npages ((i + 1) * 8) (scan_byte (bm i) npages i j st)"
proof (induction "8 - j" arbitrary: j st)
  case 0
  then have "j = 8" by simp
  then show ?case using 0 by (simp add: scan_byte.simps add.commute)
next
  case (Suc n)
  then have j: "j < 8" by simp
  let ?st' = "scan_bit (bm i) npages i j st"
  from scan_bit_step [OF Suc.prems(1) refl j] show ?case
  proof
    assume s: "scanning bm npages (i * 8 + j + 1) ?st'"
    then have "snd (snd ?st') < npages" by (auto simp: scanning_def split: prod.splits)
    then show ?thesis using Suc.hyps(1) [of "j + 1" ?st'] Suc.hyps(2) s j
      by (simp add: scan_byte_step add.assoc)
  next
    assume f: "found bm npages (i * 8 + j + 1) ?st'"
    then have "snd (snd ?st') \<ge> npages" by (auto simp: found_def split: prod.splits)
    then show ?thesis using found_mono [OF f, of "(i + 1) * 8"] j by (simp add: scan_byte_stop)
  qed
qed

lemma scan_byte_found:
  "found bm npages (i * 8) st \<Longrightarrow> found bm npages ((i + 1) * 8) (scan_byte (bm i) npages i 0 st)"
  using found_scan_bit [of bm npages "i * 8" st 0 i] by (auto simp: scan_byte_stop intro: found_mono)

lemma scan_bitmap_ok:
  "scanning bm npages (i * 8) st \<or> found bm npages (i * 8) st \<Longrightarrow>
    scanning bm npages ((i + n) * 8) (scan_bitmap bm npages i n st)
    \<or> found bm npages ((i + n) * 8) (scan_bitmap bm npages i n st)"
proof (induction n arbitrary: i st)
  case 0
  then show ?case by simp
next
  case (Suc n)
  have "scanning bm npages ((i + 1) * 8) (scan_byte (bm i) npages i 0 st)
      \<or> found bm npages ((i + 1) * 8) (scan_byte (bm i) npages i 0 st)"
    using Suc.prems scan_byte_ok [of bm npages i 0 st] scan_byte_found [of bm npages i st] by auto
  from Suc.IH [OF this] show ?case by simp
qed

lemma find_space_ok:
  assumes "0 < npages" and "find_space bm npages = (istart, pstart, apages)"
  shows "(npages \<le> apages \<longrightarrow> fits bm npages pstart \<and> pstart + npages \<le> 8 * BITMAP_SIZE
      \<and> (\<forall>s. fits bm npages s \<longrightarrow> pstart \<le> s))
    \<and> (apages < npages \<longrightarrow> (\<forall>s. s + npages \<le> 8 * BITMAP_SIZE \<longrightarrow> \<not> fits bm npages s))"
proof -
  have "scanning bm npages 0 (False, 0, 0)" using assms(1) by (auto simp: scanning_def)
  then have "scanning bm npages (8 * BITMAP_SIZE) (istart, pstart, apages)
      \<or> found bm npages (8 * BITMAP_SIZE) (istart, pstart, apages)"
    using scan_bitmap_ok [of bm npages 0 "(False, 0, 0)" BITMAP_SIZE] assms(2)
    by (simp add: find_space_def del: scan_bitmap.simps)
  then show ?thesis by (auto simp: scanning_def found_def)
qed

section \<open>Allocation inside one page table\<close>

lemma alloc_loop_stop: "npages < apages \<Longrightarrow> alloc_loop km z u npages ps index i apages = Some (Inr km)"
  by (subst alloc_loop.simps) simp

lemma alloc_loop_step:
  assumes "apages \<le> npages" and "alloc_page (km_stack km) z = (p, st)" and "p \<noteq> 0"
    and "slot index i = Some s" and "i < 1024"
  shows "alloc_loop km z u npages ps index i apages = alloc_loop
    (km\<lparr>km_stack := st, km_bitmap := bmap_on (km_bitmap km) (of_nat (ps + apages)),
        km_entries := (km_entries km)(s := MAKE_ENTRY p (PAGE_WRITABLE OR PAGE_PRESENT OR u))\<rparr>)
    z u npages ps index (i + 1) (apages + 1)"
  using assms by (subst alloc_loop.simps) (simp add: Let_def)

lemma alloc_loop_ok:
  "apages + n = npages + 1 \<Longrightarrow> stack_inv (km_stack km) \<Longrightarrow> z = DMA_ZONE \<or> z = NORMAL_ZONE
    \<Longrightarrow> stack_top (km_stack km) + n \<le> stack_max_top (km_stack km)
    \<Longrightarrow> \<forall>k < n. stack_pages (km_stack km) ! (stack_top (km_stack km) + k) \<noteq> 0
    \<Longrightarrow> index < 1024 \<Longrightarrow> i + n \<le> 1024 \<Longrightarrow> ps + npages < 4294967296
    \<Longrightarrow> \<exists>bm es. alloc_loop km z u npages ps index i apages
        = Some (Inr (km\<lparr>km_stack := (km_stack km)\<lparr>stack_top := stack_top (km_stack km) + n\<rparr>,
            km_bitmap := bm, km_entries := es\<rparr>))
      \<and> (\<forall>p. page_used bm p \<longleftrightarrow> page_used (km_bitmap km) p \<or> ps + apages \<le> p \<and> p < ps + apages + n)
      \<and> (\<forall>s. es s = (if 1024 * index + i \<le> s \<and> s < 1024 * index + i + n
           then MAKE_ENTRY (stack_pages (km_stack km) ! (stack_top (km_stack km) + (s - (1024 * index + i))))
                  (PAGE_WRITABLE OR PAGE_PRESENT OR u)
           else km_entries km s))"
proof (induction n arbitrary: km i apages)
  case 0
  then show ?case
    by (intro exI [of _ "km_bitmap km"] exI [of _ "km_entries km"]) (auto simp: alloc_loop_stop)
next
  case (Suc n)
  let ?st = "km_stack km" and ?s = "1024 * index + i"
  let ?p = "stack_pages ?st ! stack_top ?st"
  let ?km' = "km\<lparr>km_stack := ?st\<lparr>stack_top := Suc (stack_top ?st)\<rparr>,
     km_bitmap := bmap_on (km_bitmap km) (of_nat (ps + apages)),
     km_entries := (km_entries km)(?s := MAKE_ENTRY ?p (PAGE_WRITABLE OR PAGE_PRESENT OR u))\<rparr>"
  have a: "alloc_page ?st z = (?p, ?st\<lparr>stack_top := Suc (stack_top ?st)\<rparr>)"
    using Suc.prems by (auto simp: alloc_page_def)
  have sl: "slot index i = Some ?s" using Suc.prems by (auto simp: slot_def)
  have ne: "?p \<noteq> 0" using Suc.prems(5) [rule_format, of 0] by simp
  have step: "alloc_loop km z u npages ps index i apages = alloc_loop ?km' z u npages ps index (i + 1) (apages + 1)"
    using Suc.prems by (intro alloc_loop_step [OF _ a ne sl]) auto
  have "\<forall>k < n. stack_pages ?st ! (stack_top ?st + Suc k) \<noteq> 0" using Suc.prems(5) Suc_less_eq by blast
  then have pre: "apages + 1 + n = npages + 1" "stack_inv (km_stack ?km')"
    "stack_top (km_stack ?km') + n \<le> stack_max_top (km_stack ?km')"
    "\<forall>k < n. stack_pages (km_stack ?km') ! (stack_top (km_stack ?km') + k) \<noteq> 0" "i + 1 + n \<le> 1024"
    using Suc.prems(1,2,4,7) by (simp_all add: stack_inv_def)
  from Suc.IH [OF pre(1,2) Suc.prems(3) pre(3,4) Suc.prems(6) pre(5) Suc.prems(8)] obtain bm es where r:
    "alloc_loop ?km' z u npages ps index (i + 1) (apages + 1)
        = Some (Inr (?km'\<lparr>km_stack := (km_stack ?km')\<lparr>stack_top := stack_top (km_stack ?km') + n\<rparr>,
            km_bitmap := bm, km_entries := es\<rparr>))"
    "\<forall>p. page_used bm p \<longleftrightarrow> page_used (km_bitmap ?km') p \<or> ps + (apages + 1) \<le> p \<and> p < ps + (apages + 1) + n"
    "\<forall>s. es s = (if 1024 * index + (i + 1) \<le> s \<and> s < 1024 * index + (i + 1) + n
           then MAKE_ENTRY (stack_pages (km_stack ?km') ! (stack_top (km_stack ?km') + (s - (1024 * index + (i + 1)))))
                  (PAGE_WRITABLE OR PAGE_PRESENT OR u)
           else km_entries ?km' s)"
    by blast
  have u: "unat (of_nat (ps + apages) :: u32) = ps + apages"
    using Suc.prems by (intro unat_of_nat_small_u32) auto
  have bits: "page_used bm p \<longleftrightarrow> page_used (km_bitmap km) p \<or> ps + apages \<le> p \<and> p < ps + apages + Suc n" for p
  proof -
    have "page_used (km_bitmap ?km') p \<longleftrightarrow> p = ps + apages \<or> page_used (km_bitmap km) p"
      by (simp add: page_used_on u del: of_nat_add)
    then have "page_used bm p \<longleftrightarrow> page_used (km_bitmap km) p
        \<or> p = ps + apages \<or> ps + (apages + 1) \<le> p \<and> p < ps + (apages + 1) + n"
      using r(2) by blast
    also have "\<dots> \<longleftrightarrow> page_used (km_bitmap km) p \<or> ps + apages \<le> p \<and> p < ps + apages + Suc n"
      by (rule disj_cong [OF refl]) arith
    finally show ?thesis .
  qed
  have ents: "es s = (if ?s \<le> s \<and> s < ?s + Suc n
        then MAKE_ENTRY (stack_pages ?st ! (stack_top ?st + (s - ?s))) (PAGE_WRITABLE OR PAGE_PRESENT OR u)
        else km_entries km s)" for s
  proof (cases "s = ?s")
    case True
    then show ?thesis using r(3) by simp
  next
    case False
    have "stack_top ?st + (s - ?s) = Suc (stack_top ?st) + (s - (1024 * index + (i + 1)))" if "?s < s"
      using that by linarith
    then show ?thesis using r(3) False by auto
  qed
  have "alloc_loop km z u npages ps index i apages
      = Some (Inr (km\<lparr>km_stack := ?st\<lparr>stack_top := stack_top ?st + Suc n\<rparr>, km_bitmap := bm, km_entries := es\<rparr>))"
    using step r(1) by simp
  with bits ents show ?case by blast
qed

lemma region_pages_enough:
  assumes "unat n + 4107 < 2 ^ 32"
  shows "unat n + 12 \<le> 4096 * unat (region_pages n) \<and> 4096 * unat (region_pages n) < unat n + 12 + 4096
    \<and> 0 < unat (region_pages n)"
proof -
  have s: "unat (12 + n) = unat n + 12" using assms by (simp add: unat_word_ariths)
  have b: "unat (12 + n) \<le> unat (PAGE_ALIGN (12 + n))" "unat (PAGE_ALIGN (12 + n)) < unat (12 + n) + 4096"
    "4096 dvd unat (PAGE_ALIGN (12 + n))" using PAGE_ALIGN_bounds [of "12 + n"] assms s by auto
  have "unat (region_pages n) = unat (PAGE_ALIGN (12 + n)) div 4096"
    using unat_u32_bound [of "PAGE_ALIGN (12 + n)"] unfolding region_pages_def
    by (subst unsigned_drop_bit_eq) (simp add: drop_bit_eq_div take_bit_nat_eq_self)
  then have "4096 * unat (region_pages n) = unat (PAGE_ALIGN (12 + n))" using b(3) by simp
  then show ?thesis using b s by auto
qed

lemma vmalloc_ok:
  assumes np: "npages = unat (region_pages size0)" "0 < npages"
    and fs: "find_space (km_bitmap km) npages = (istart, p, apages)" "npages \<le> apages"
    and st: "stack_inv (km_stack km)" "stack_top (km_stack km) + npages < stack_max_top (km_stack km)"
    and nz: "\<forall>k \<le> npages. stack_pages (km_stack km) ! (stack_top (km_stack km) + k) \<noteq> 0" and tab: "p mod 1024 + npages < 1024"
    and fl: "flags = GFP_NORMAL_Z"
  shows "\<exists>km'. vmalloc km size0 flags = Some (4096 * p + 12, km')
    \<and> (\<forall>q. page_used (km_bitmap km') q \<longleftrightarrow> page_used (km_bitmap km) q \<or> p \<le> q \<and> q \<le> p + npages)
    \<and> (\<forall>q. km_entries km' q = (if p \<le> q \<and> q \<le> p + npages
         then MAKE_ENTRY (stack_pages (km_stack km) ! (stack_top (km_stack km) + (q - p))) 3
         else km_entries km q))
    \<and> km_regions km' = (km_regions km)(4096 * p \<mapsto> \<lparr>mr_initial_addr = of_nat p, mr_size = of_nat npages\<rparr>)
    \<and> km_stack km' = (km_stack km)\<lparr>stack_top := stack_top (km_stack km) + npages + 1\<rparr>"
proof -
  let ?st = "km_stack km"
  have p: "p + npages \<le> 1048576" using find_space_ok [OF np(2) fs(1)] fs(2) by simp
  have i: "1024 * (p div 1024) + (p - 1024 * (p div 1024)) = p" by simp
  have d: "p div 1024 < 1024" using p np(2) by (intro div_less_iff_less_mult [THEN iffD2]) auto
  have "\<forall>k < npages + 1. stack_pages ?st ! (stack_top ?st + k) \<noteq> 0" using nz by simp
  moreover have "p - 1024 * (p div 1024) = p mod 1024" by (simp add: minus_mult_div_eq_mod)
  ultimately obtain bm es where r: "alloc_loop km NORMAL_ZONE 0 npages p (p div 1024) (p - 1024 * (p div 1024)) 0
        = Some (Inr (km\<lparr>km_stack := ?st\<lparr>stack_top := stack_top ?st + (npages + 1)\<rparr>, km_bitmap := bm, km_entries := es\<rparr>))"
      "\<forall>q. page_used bm q \<longleftrightarrow> page_used (km_bitmap km) q \<or> p + 0 \<le> q \<and> q < p + 0 + (npages + 1)"
      "\<forall>s. es s = (if 1024 * (p div 1024) + (p - 1024 * (p div 1024)) \<le> s
             \<and> s < 1024 * (p div 1024) + (p - 1024 * (p div 1024)) + (npages + 1)
           then MAKE_ENTRY (stack_pages ?st ! (stack_top ?st + (s - (1024 * (p div 1024) + (p - 1024 * (p div 1024))))))
                  (PAGE_WRITABLE OR PAGE_PRESENT OR 0)
           else km_entries km s)"
    using alloc_loop_ok [of 0 "npages + 1" npages km NORMAL_ZONE "p div 1024" "p - 1024 * (p div 1024)" p 0] st tab p np(2) d
    by auto
  have "unat (of_nat p * PAGE_SIZE :: u32) = 4096 * p"
    using p np(2) unat_of_nat_small_u32 [of "p * 4096"] by simp
  then show ?thesis using r fs fl np(1) unfolding i
    by (auto simp: vmalloc_def Let_def)
qed

section \<open>Freeing\<close>

lemma free_loop_keeps_used:
  assumes "free_loop km a f j i d = Some km'" and "page_used (km_bitmap km) p"
  shows "page_used (km_bitmap km') p"
proof -
  let ?P = "\<lambda>km a f j i d km'. page_used (km_bitmap km) p \<longrightarrow> page_used (km_bitmap km') p"
  have "?P km a f j i d km'"
  proof (rule free_loop.raw_induct [where P = ?P, OF _ assms(1)])
    fix fl km a f j i d km'
    assume ih: "\<And>km a f j i d km'. fl km a f j i d = Some km' \<Longrightarrow> ?P km a f j i d km'"
      and step: "(if d \<ge> f then do {
          s \<leftarrow> slot (unat j) (unat i);
          let km' = km\<lparr>km_stack := free_page (km_stack km) (km_entries km s),
                       km_bitmap := bmap_off (km_bitmap km) (a + d)\<rparr>;
          if i > 0 then fl km' a f j (i - 1) (d - 1) else fl km' a f (j - 1) i (d - 1)
        } else Some km) = Some km'"
    show "?P km a f j i d km'"
    proof
      assume "page_used (km_bitmap km) p"
      then have "page_used (bmap_off (km_bitmap km) (a + d)) p" by (simp add: page_used_off)
      then show "page_used (km_bitmap km') p"
        using step \<open>page_used (km_bitmap km) p\<close>
        by (auto simp: Let_def bind_eq_Some_conv split: if_splits dest!: ih)
    qed
  qed
  then show ?thesis using assms(2) by blast
qed

lemma free_loop_never_ends: "free_loop km a 0 j i d = None"
proof -
  let ?P = "\<lambda>km a f j i d km'. f \<noteq> (0 :: u32)"
  have "?P km a 0 j i d km'" if run: "free_loop km a 0 j i d = Some km'" for km'
  proof (rule free_loop.raw_induct [where P = ?P, OF _ run])
    fix fl km a f j i d km'
    assume ih: "\<And>km a f j i d km'. fl km a f j i d = Some km' \<Longrightarrow> ?P km a f j i d km'"
      and step: "(if d \<ge> f then do {
          s \<leftarrow> slot (unat j) (unat i);
          let km' = km\<lparr>km_stack := free_page (km_stack km) (km_entries km s),
                       km_bitmap := bmap_off (km_bitmap km) (a + d)\<rparr>;
          if i > 0 then fl km' a f j (i - 1) (d - 1) else fl km' a f (j - 1) i (d - 1)
        } else Some km) = Some km'"
    show "?P km a f j i d km'"
      using step by (auto simp: Let_def bind_eq_Some_conv split: if_splits dest: ih)
  qed
  then show ?thesis by (cases "free_loop km a 0 j i d") auto
qed

section \<open>Properties\<close>

definition empty_kmem :: kmem where
  "empty_kmem = \<lparr>km_bitmap = (\<lambda>_. 0), km_entries = (\<lambda>_. 0),
     km_stack = \<lparr>stack_pages = [0x100000, 0x101000, 0x102000], stack_top = 0, stack_max_top = 3\<rparr>,
     km_regions = Map.empty, km_mem = (\<lambda>_. 0)\<rparr>"

lemma one_page: "unat (region_pages 100) = 1"
  using region_pages_enough [of 100] by simp

text \<open>C23: the bitmap search of \<open>_vmalloc_\<close> is first fit: when it succeeds it returns the lowest
  page at which the requested number of free pages starts, and when it fails there is none.\<close>

theorem find_space_first_fit:
  assumes "0 < npages" and "find_space bm npages = (istart, pstart, apages)"
  shows "(npages \<le> apages \<longrightarrow> (\<forall>k < npages. \<not> page_used bm (pstart + k)) \<and> pstart + npages \<le> 8 * BITMAP_SIZE
      \<and> (\<forall>s. (\<forall>k < npages. \<not> page_used bm (s + k)) \<longrightarrow> pstart \<le> s))
    \<and> (apages < npages \<longrightarrow> (\<forall>s. s + npages \<le> 8 * BITMAP_SIZE \<longrightarrow> (\<exists>k < npages. page_used bm (s + k))))"
  using find_space_ok [OF assms] unfolding fits_def by blast

theorem find_space_first_fit_witness:
  "\<exists>istart pstart apages. find_space (\<lambda>_. 0) 5 = (istart, pstart, apages) \<and> pstart = 0"
proof -
  obtain istart pstart apages where f: "find_space (\<lambda>_. 0) 5 = (istart, pstart, apages)"
    by (cases "find_space (\<lambda>_. 0) 5") auto
  have free: "\<not> page_used (\<lambda>_. 0) q" for q by (simp add: page_used_def)
  have "\<not> apages < 5" using find_space_first_fit [OF _ f] free by auto
  then have "pstart \<le> 0" using find_space_first_fit [OF _ f] free by auto
  then show ?thesis using f by simp
qed

text \<open>C7: \<open>_vmalloc_\<close> is a first fit allocator. When somewhere in the bitmap there are enough free pages in a row, and the page
  stack holds one page more than are needed, page 0 (which counts as a failure) not among them, then the lowest run that
  is long enough is found. If it lies inside one page table, not at its very end, the allocation returns the address behind
  the header of a region there, which is large enough for the requested size; every page of it was free and is now used, and
  is mapped, present and writable, to the next page of the stack; the region is remembered in its header. Apart from the
  region only the page behind it changes, which is taken and mapped, too.\<close>

theorem vmalloc_returns_fresh_pages:
  assumes "npages = unat (region_pages size0)" and "unat size0 + 4107 < 2 ^ 32"
    and "fits (km_bitmap km) npages f" and "f + npages \<le> 8 * BITMAP_SIZE"
    and "stack_inv (km_stack km)" and "stack_top (km_stack km) + npages < stack_max_top (km_stack km)"
    and "\<forall>k \<le> npages. stack_pages (km_stack km) ! (stack_top (km_stack km) + k) \<noteq> 0"
  shows "\<exists>p. fits (km_bitmap km) npages p \<and> (\<forall>s. fits (km_bitmap km) npages s \<longrightarrow> p \<le> s)
    \<and> (p mod 1024 + npages < 1024 \<longrightarrow> (\<exists>km'. vmalloc km size0 GFP_NORMAL_Z = Some (4096 * p + 12, km')
      \<and> 4096 * p + 12 + unat size0 \<le> 4096 * (p + npages)
      \<and> (\<forall>k < npages. \<not> page_used (km_bitmap km) (p + k) \<and> page_used (km_bitmap km') (p + k)
          \<and> km_entries km' (p + k) = MAKE_ENTRY (stack_pages (km_stack km) ! (stack_top (km_stack km) + k)) 3)
      \<and> (\<forall>q. q < p \<or> p + npages < q \<longrightarrow> page_used (km_bitmap km') q = page_used (km_bitmap km) q
          \<and> km_entries km' q = km_entries km q)
      \<and> km_regions km' (4096 * p) = Some \<lparr>mr_initial_addr = of_nat p, mr_size = of_nat npages\<rparr>
      \<and> stack_top (km_stack km') = stack_top (km_stack km) + npages + 1))"
proof -
  have np: "0 < npages" "unat size0 + 12 \<le> 4096 * npages"
    using region_pages_enough [OF assms(2)] assms(1) by auto
  obtain istart p apages where f: "find_space (km_bitmap km) npages = (istart, p, apages)"
    by (cases "find_space (km_bitmap km) npages") auto
  note ok = find_space_ok [OF np(1) f]
  have e: "npages \<le> apages" using ok assms(3,4) by (auto simp: not_less [symmetric])
  have fr: "fits (km_bitmap km) npages p" "\<forall>s. fits (km_bitmap km) npages s \<longrightarrow> p \<le> s" using ok e by simp_all
  have "\<exists>km'. vmalloc km size0 GFP_NORMAL_Z = Some (4096 * p + 12, km')
      \<and> (\<forall>q. page_used (km_bitmap km') q \<longleftrightarrow> page_used (km_bitmap km) q \<or> p \<le> q \<and> q \<le> p + npages)
      \<and> (\<forall>q. km_entries km' q = (if p \<le> q \<and> q \<le> p + npages
           then MAKE_ENTRY (stack_pages (km_stack km) ! (stack_top (km_stack km) + (q - p))) 3 else km_entries km q))
      \<and> km_regions km' = (km_regions km)(4096 * p \<mapsto> \<lparr>mr_initial_addr = of_nat p, mr_size = of_nat npages\<rparr>)
      \<and> stack_top (km_stack km') = stack_top (km_stack km) + npages + 1" if "p mod 1024 + npages < 1024"
    using vmalloc_ok [OF assms(1) np(1) f e assms(5-7) that refl] by fastforce
  then show ?thesis using fr np(2) by (intro exI [of _ p]) (fastforce simp: fits_def)
qed

theorem vmalloc_returns_fresh_pages_witness:
  "\<exists>km'. vmalloc empty_kmem 100 GFP_NORMAL_Z = Some (12, km') \<and> km_entries km' 0 = 0x100003"
proof -
  have z: "fits (km_bitmap empty_kmem) 1 0" by (simp add: fits_def page_used_def empty_kmem_def)
  have nz: "\<forall>k \<le> 1. stack_pages (km_stack empty_kmem) ! (stack_top (km_stack empty_kmem) + k) \<noteq> 0"
    by (auto simp: empty_kmem_def le_Suc_eq)
  have st: "stack_inv (km_stack empty_kmem)" "stack_top (km_stack empty_kmem) + 1 < stack_max_top (km_stack empty_kmem)"
    by (simp_all add: stack_inv_def empty_kmem_def)
  from vmalloc_returns_fresh_pages [OF one_page [symmetric] _ z _ st nz] obtain p where
    "\<forall>s. fits (km_bitmap empty_kmem) 1 s \<longrightarrow> p \<le> s"
    "p mod 1024 + 1 < 1024 \<longrightarrow> (\<exists>km'. vmalloc empty_kmem 100 GFP_NORMAL_Z = Some (4096 * p + 12, km')
      \<and> (\<forall>k < 1. km_entries km' (p + k) = MAKE_ENTRY (stack_pages (km_stack empty_kmem) ! (stack_top (km_stack empty_kmem) + k)) 3))"
    by (simp del: One_nat_def) blast
  then show ?thesis using z by (auto simp: empty_kmem_def MAKE_ENTRY_def)
qed

text \<open>The allocation loop runs once too often: the page behind the returned region is taken
  from the page stack, marked used and its mapping is replaced, even if it belonged to another
  region.\<close>

theorem vmalloc_overwrites_next_page:
  assumes "npages = unat (region_pages size0)" and "unat size0 + 4107 < 2 ^ 32"
    and "find_space (km_bitmap km) npages = (istart, p, apages)" and "npages \<le> apages"
    and "stack_inv (km_stack km)" and "stack_top (km_stack km) + npages < stack_max_top (km_stack km)"
    and "\<forall>k \<le> npages. stack_pages (km_stack km) ! (stack_top (km_stack km) + k) \<noteq> 0" and "p mod 1024 + npages < 1024"
  shows "\<exists>km'. vmalloc km size0 GFP_NORMAL_Z = Some (4096 * p + 12, km')
    \<and> km_entries km' (p + npages)
        = MAKE_ENTRY (stack_pages (km_stack km) ! (stack_top (km_stack km) + npages)) 3
    \<and> page_used (km_bitmap km') (p + npages)
    \<and> stack_top (km_stack km') = stack_top (km_stack km) + npages + 1"
proof -
  have np: "0 < npages" using region_pages_enough [OF assms(2)] assms(1) by auto
  from vmalloc_ok [OF assms(1) np assms(3-8) refl] show ?thesis by auto
qed

theorem vmalloc_overwrites_next_page_witness:
  "\<exists>km'. vmalloc (empty_kmem\<lparr>km_bitmap := (\<lambda>_. 0)(0 := 0x40), km_entries := (\<lambda>_. 0)(1 := 0x555003)\<rparr>) 100 GFP_NORMAL_Z
      = Some (12, km') \<and> km_entries km' 1 = 0x101003"
proof -
  let ?bm = "(\<lambda>_. 0)(0 := 0x40) :: bitmap"
  let ?km = "empty_kmem\<lparr>km_bitmap := ?bm, km_entries := (\<lambda>_. 0)(1 := 0x555003)\<rparr>"
  obtain istart p apages where f: "find_space (km_bitmap ?km) 1 = (istart, p, apages)"
    by (cases "find_space (km_bitmap ?km) 1") auto
  have "fits ?bm 1 0" by (simp add: fits_def page_used_def)
  then have p: "p = 0" "1 \<le> apages" using find_space_ok [OF _ f] by (auto simp: not_less [symmetric])
  from vmalloc_overwrites_next_page [of 1 100 ?km istart p apages] f p one_page
  show ?thesis by (auto simp: empty_kmem_def stack_inv_def MAKE_ENTRY_def le_Suc_eq)
qed

text \<open>\<open>kfree\<close> never gives pages back to the bitmap, because \<open>bmap_off\<close> ors the complement
  of the mask into the byte: every page used before is used after, so freed memory is not
  allocated again.\<close>

theorem kfree_keeps_pages_used:
  assumes "kfree km a = Some km'"
  shows "\<forall>p. page_used (km_bitmap km) p \<longrightarrow> page_used (km_bitmap km') p"
  using assms free_loop_keeps_used by (auto simp: kfree_def Let_def bind_eq_Some_conv)

theorem kfree_keeps_pages_used_witness:
  "\<exists>km'. kfree (empty_kmem\<lparr>km_regions := [8192 \<mapsto> \<lparr>mr_initial_addr = 2, mr_size = 1\<rparr>],
      km_bitmap := (\<lambda>_. 0)(0 := 0x20)\<rparr>) 8204 = Some km' \<and> page_used (km_bitmap km') 2"
proof -
  let ?km = "empty_kmem\<lparr>km_regions := [8192 \<mapsto> \<lparr>mr_initial_addr = 2, mr_size = 1\<rparr>], km_bitmap := (\<lambda>_. 0)(0 := 0x20)\<rparr>"
  have "\<exists>km'. kfree ?km 8204 = Some km'"
    by (simp add: kfree_def drop_bit_eq_div slot_def, subst free_loop.simps, simp add: slot_def,
        subst free_loop.simps, simp add: word_le_nat_alt)
  then obtain km' where k: "kfree ?km 8204 = Some km'" ..
  moreover have "page_used (km_bitmap ?km) 2" by (simp add: page_used_def drop_bit_eq_div)
  ultimately show ?thesis using kfree_keeps_pages_used [OF k] by blast
qed

text \<open>\<open>kfree\<close> of a region that starts at the first page of a page table does not return: its
  unsigned counter is always at least the first page number, which is zero.\<close>

theorem kfree_loops_at_table_start:
  assumes "km_regions km (a - 12) = Some r" and "mr_initial_addr r = 1024 * drop_bit 10 (mr_initial_addr r)"
  shows "kfree km a = None"
  using assms by (simp add: kfree_def Let_def free_loop_never_ends)

theorem kfree_loops_at_table_start_witness:
  "kfree (empty_kmem\<lparr>km_regions := [0 \<mapsto> \<lparr>mr_initial_addr = 0, mr_size = 1\<rparr>]\<rparr>) 12 = None"
  by (rule kfree_loops_at_table_start [of _ _ "\<lparr>mr_initial_addr = 0, mr_size = 1\<rparr>"]) simp_all

text \<open>After \<open>init_mm\<close> exactly the kernel's pages are used, at address 0 and at 3GB.\<close>

theorem init_mm_marks_kernel:
  assumes "unat kernel_size + 4095 < 1073741824" and "q < 8 * BITMAP_SIZE"
  defines "kpages \<equiv> (unat kernel_size + 4095) div 4096"
  shows "page_used (km_bitmap (init_mm km kernel_size)) q
    \<longleftrightarrow> q < kpages \<or> 786432 \<le> q \<and> q < 786432 + kpages"
proof -
  have k: "unat (drop_bit 12 (PAGE_ALIGN kernel_size)) = kpages"
    using assms(1) unat_u32_bound [of "PAGE_ALIGN kernel_size"]
    by (subst unsigned_drop_bit_eq) (simp add: drop_bit_eq_div take_bit_nat_eq_self PAGE_ALIGN_nat kpages_def)
  have "kpages \<le> 262144" using assms(1) unfolding kpages_def by linarith
  then show ?thesis
    using page_used_kernel [of 0 kpages "bmap_clear (km_bitmap km)" q] page_used_clear [OF assms(2)] k
    by (simp add: init_mm_def)
qed

theorem init_mm_marks_kernel_witness:
  "page_used (km_bitmap (init_mm empty_kmem 5000)) 1 \<and> \<not> page_used (km_bitmap (init_mm empty_kmem 5000)) 2"
  using init_mm_marks_kernel [of 5000 1 empty_kmem] init_mm_marks_kernel [of 5000 2 empty_kmem] by simp

end
