(* ===== verification/Paging.thy ===== *)
theory Paging
  imports Page_Stack "HOL-Library.Multiset"
begin

text \<open>
  \<open>init_pg\<close> of \<^verbatim>\<open>arch/x86/mm/mm.c\<close>: it builds the kernel's page tables, takes the kernel out of
  the memory map of the boot loader and fills the stack of free pages. The linker symbols
  \<^verbatim>\<open>KERNEL_PA_START\<close> and \<^verbatim>\<open>KERNEL_END_ADDR\<close> are arguments. As in \<open>make_kerneldir\<close> the 1024
  tables are contiguous, so that they are one array of entries here. Loading \<^verbatim>\<open>cr3\<close>, switching
  paging on and reloading the GDT have no effect on these data. \<open>free_pages\<close> are the pages that should be on the stack; with it the
  runs of \<open>alloc_page\<close> and \<open>free_page\<close> after \<open>init_pg\<close> are followed.
\<close>

abbreviation (input) MBOOT_MMAP_MAXREG :: nat where "MBOOT_MMAP_MAXREG \<equiv> 40"
abbreviation (input) MTYPE_AVALIABLE :: u32 where "MTYPE_AVALIABLE \<equiv> 1"
abbreviation (input) MTYPE_RESERVED :: u32 where "MTYPE_RESERVED \<equiv> 2"

record mmap_tentry =
  base_addr_low :: u32
  base_addr_high :: u32
  length_low :: u32
  length_high :: u32
  mtype :: u32

text \<open>\<open>karch_t\<close>: the memory sizes and the map, an array of 40 entries of which \<open>mmap_size\<close> are in use.\<close>

record karch_info =
  mem_lower :: u32
  mem_upper :: u32
  mmap_table :: "mmap_tentry list"
  mmap_size :: nat

type_synonym entries = "nat \<Rightarrow> u32"

section \<open>Page tables\<close>

lemma page_step: "unat (a :: u32) < 0x100000 \<Longrightarrow> unat (a + PAGE_SIZE) = unat a + 4096"
  by (simp add: unat_word_ariths)

text \<open>The identity map of the first megabyte.\<close>

function map_low :: "entries \<Rightarrow> u32 \<Rightarrow> nat \<Rightarrow> entries" where
  "map_low es address i =
     (if address < 0x100000
      then map_low (es(i := MAKE_ENTRY address (PAGE_WRITABLE OR PAGE_PRESENT))) (address + PAGE_SIZE) (i + 1)
      else es)"
  by pat_completeness auto

termination
  by (relation "measure (\<lambda>(es, a, i). 0x100000 - unat a)") (auto simp: word_less_nat_alt page_step)

declare map_low.simps [simp del]

text \<open>The kernel's pages, at 3GB and at their own physical address; \<open>kpages\<close> counts them.\<close>

partial_function (option) map_kernel ::
  "entries \<Rightarrow> u32 \<Rightarrow> u32 \<Rightarrow> nat \<Rightarrow> nat \<Rightarrow> nat \<Rightarrow> nat \<Rightarrow> nat \<Rightarrow> (entries \<times> nat) option" where
  "map_kernel es address limit i j k l kpages =
     (if address < limit then
        if KERNEL_PDIR_SPACE + j < TABLE_SIZE \<and> k < TABLE_SIZE then
          let e = MAKE_ENTRY address (PAGE_WRITABLE OR PAGE_PRESENT);
              es1 = es(TABLE_SIZE * (KERNEL_PDIR_SPACE + j) + i := e);
              es2 = es1(TABLE_SIZE * k + l := e)
          in map_kernel es2 (address + PAGE_SIZE) limit
               (if i < TABLE_SIZE then i + 1 else 0) (if i < TABLE_SIZE then j else j + 1)
               (if l < TABLE_SIZE then k else k + 1) (if l < TABLE_SIZE then l + 1 else 0) (kpages + 1)
        else None
      else Some (es, kpages))"

text \<open>Unmapping the physical addresses again.\<close>

definition unmap_low :: "entries \<Rightarrow> nat \<Rightarrow> nat \<Rightarrow> nat \<Rightarrow> entries" where
  "unmap_low es oldk oldl kpages =
     fold (\<lambda>i es. fold (\<lambda>j es. es(TABLE_SIZE * i + j := 0)) [(if i = oldk then oldl else 0)..<TABLE_SIZE] es)
       [oldk..<kpages div TABLE_SIZE] es"

section \<open>The memory map\<close>

text \<open>Inserting the kernel's region, one table entry after the other; \<open>None\<close> is the panic.\<close>

partial_function (option) rearrange ::
  "mmap_tentry list \<Rightarrow> nat \<Rightarrow> nat \<Rightarrow> u32 \<Rightarrow> u32 \<Rightarrow> (mmap_tentry list \<times> nat) option" where
  "rearrange tab i n kpa_start kpa_length =
     (if i < n then
        let mmap = tab ! i in
        if mtype mmap = MTYPE_AVALIABLE \<and> base_addr_low mmap \<ge> 0x100000 then
          if n < MBOOT_MMAP_MAXREG then
            let tab1 = tab[n := \<lparr>base_addr_low = kpa_start, base_addr_high = 0, length_low = kpa_length,
                                 length_high = 0, mtype = MTYPE_RESERVED\<rparr>];
                tab2 = tab1[i := (tab1 ! i)\<lparr>base_addr_low := base_addr_low mmap + kpa_length,
                                            length_low := length_low mmap - kpa_length\<rparr>]
            in rearrange tab2 (i + 1) (n + 1) kpa_start kpa_length
          else None
        else rearrange tab (i + 1) n kpa_start kpa_length
      else Some (tab, n))"

section \<open>The stack of free pages\<close>

function fill_region :: "u32 list \<Rightarrow> nat \<Rightarrow> nat \<Rightarrow> u32 \<Rightarrow> u32 \<Rightarrow> u32 list \<times> nat" where
  "fill_region pages tp max_top address m_end =
     (if address < m_end \<and> tp < max_top
      then fill_region (pages[tp := address]) (tp + 1) max_top (address + PAGE_SIZE) m_end
      else (pages, tp))"
  by pat_completeness auto
termination by (relation "measure (\<lambda>(pages, tp, max_top, a, e). max_top - tp)") auto

declare fill_region.simps [simp del]

fun fill_stack :: "u32 list \<Rightarrow> nat \<Rightarrow> nat \<Rightarrow> mmap_tentry list \<Rightarrow> u32 list \<times> nat" where
  "fill_stack pages tp max_top [] = (pages, tp)"
| "fill_stack pages tp max_top (mmap # ms) =
     (if mtype mmap = MTYPE_AVALIABLE
      then let (pages', tp') = fill_region pages tp max_top (PAGE_ALIGN (base_addr_low mmap))
                 (base_addr_low mmap + length_low mmap)
           in fill_stack pages' tp' max_top ms
      else fill_stack pages tp max_top ms)"

record paging =
  pg_kerneldir :: pagedir
  pg_entries :: entries
  pg_stack :: page_stack
  pg_kernel_size :: u32

text \<open>\<open>pages0\<close> is the uninitialised array behind \<open>stack_pages\<close>; it has \<open>stack_sz / 4\<close> cells.\<close>

definition init_pg :: "karch_info \<Rightarrow> u32 \<Rightarrow> u32 \<Rightarrow> u32 list \<Rightarrow> (karch_info \<times> paging) option" where
  "init_pg kinf kernel_pa_start kernel_end pages0 =
     (let (kp, kdir, free1) = make_kerneldir kernel_end;
          totalmem = push_bit 10 (mem_upper kinf);
          stack_sz = (totalmem div PAGE_SIZE) * 4;
          (sp, free2) = kmalloc_e free1 stack_sz;
          es1 = map_low (\<lambda>_. 0) 0 0;
          k = unat (kernel_pa_start div (PAGE_SIZE * 1024));
          l = unat ((kernel_pa_start - of_nat k * (PAGE_SIZE * 1024)) div PAGE_SIZE)
      in do {
        (es2, kpages) \<leftarrow> map_kernel es1 kernel_pa_start (GET_PHYADDR free2) 0 0 k l 0;
        let kpa_length = GET_PHYADDR free2 - kernel_pa_start;
        (tab, n) \<leftarrow> rearrange (mmap_table kinf) 0 (mmap_size kinf) kernel_pa_start kpa_length;
        let max_top = unat (stack_sz div 4);
        let (pages, tp) = fill_stack pages0 0 max_top (take n tab);
        Some (kinf\<lparr>mmap_table := tab, mmap_size := n\<rparr>,
          \<lparr>pg_kerneldir = kdir, pg_entries = unmap_low es2 k l kpages,
           pg_stack = \<lparr>stack_pages = pages, stack_top = 0, stack_max_top = max_top\<rparr>,
           pg_kernel_size = kpa_length\<rparr>)
      })"

section \<open>What the stack holds\<close>

lemma fill_region_stop: "\<not> (a < e \<and> tp < mx) \<Longrightarrow> fill_region pages tp mx a e = (pages, tp)"
  by (subst fill_region.simps) auto

lemma fill_region_step:
  "a < e \<Longrightarrow> tp < mx
    \<Longrightarrow> fill_region pages tp mx a e = fill_region (pages[tp := a]) (tp + 1) mx (a + PAGE_SIZE) e"
  by (subst fill_region.simps) auto

lemma pages_below: "4096 * (i :: nat) < e \<longleftrightarrow> i < (e + 4095) div 4096"
  by (simp add: less_eq_div_iff_mult_less_eq flip: Suc_le_eq) arith

text \<open>The first pages of the array up to \<open>tp\<close> stay, the new ones follow as far as there is space, the rest is untouched.\<close>

definition pushed :: "u32 list \<Rightarrow> nat \<Rightarrow> nat \<Rightarrow> u32 list \<Rightarrow> u32 list \<times> nat" where
  "pushed pages tp mx new = (let ps = take (mx - tp) new in (take tp pages @ ps @ drop (tp + length ps) pages, tp + length ps))"

lemma pushed_Nil [simp]: "pushed pages tp mx [] = (pages, tp)"
  by (simp add: pushed_def)

lemma pushed_full: "mx \<le> tp \<Longrightarrow> pushed pages tp mx new = (pages, tp)"
  by (simp add: pushed_def)

lemma pushed_Cons:
  assumes "tp < mx" "mx \<le> length pages"
  shows "pushed pages tp mx (p # ps) = pushed (pages[tp := p]) (tp + 1) mx ps"
proof -
  obtain n where n: "mx - tp = Suc n" "mx - Suc tp = n" using assms(1) by (cases "mx - tp") auto
  have "take (Suc tp) (pages[tp := p]) = take tp pages @ [p]" using assms by (simp add: take_Suc_conv_app_nth)
  then show ?thesis using assms n by (simp add: pushed_def Let_def)
qed

lemma pushed_append:
  assumes "tp \<le> mx" "mx \<le> length pages" "pushed pages tp mx xs = (p1, t1)"
  shows "pushed p1 t1 mx ys = pushed pages tp mx (xs @ ys) \<and> t1 \<le> mx \<and> length p1 = length pages"
  using assms
proof (induction xs arbitrary: pages tp)
  case Nil
  then show ?case by simp
next
  case (Cons x xs)
  show ?case
  proof (cases "tp < mx")
    case True
    have "pushed (pages[tp := x]) (tp + 1) mx xs = (p1, t1)" using Cons.prems True by (simp add: pushed_Cons)
    from Cons.IH [OF _ _ this] Cons.prems True show ?thesis by (simp add: pushed_Cons)
  next
    case False
    then show ?thesis using Cons.prems by (simp add: pushed_full)
  qed
qed

definition page_numbers :: "nat \<Rightarrow> nat \<Rightarrow> u32 list" where
  "page_numbers i j = map (\<lambda>k. of_nat (4096 * k)) [i..<j]"

lemma fill_region_eq:
  assumes "tp \<le> mx" "mx \<le> length pages" "unat e + 4096 < 2 ^ 32" "4096 * i < 2 ^ 32"
  shows "fill_region pages tp mx (of_nat (4096 * i)) e = pushed pages tp mx (page_numbers i ((unat e + 4095) div 4096))"
  using assms
proof (induction "(unat e + 4095) div 4096 - i" arbitrary: i tp pages)
  case 0
  have u: "unat (of_nat (4096 * i) :: u32) = 4096 * i" using 0 by (intro unat_of_nat_small_u32) simp
  have "\<not> of_nat (4096 * i) < e" using 0 pages_below [of i "unat e"] by (simp add: word_less_nat_alt u del: of_nat_mult)
  then show ?case using 0 by (simp add: fill_region_stop page_numbers_def)
next
  case (Suc n)
  have u: "unat (of_nat (4096 * i) :: u32) = 4096 * i" using Suc.prems by (intro unat_of_nat_small_u32) simp
  have i: "i < (unat e + 4095) div 4096" using Suc.hyps(2) by simp
  then have lt: "of_nat (4096 * i) < e" "4096 * i < unat e" using pages_below [of i "unat e"] by (simp_all add: word_less_nat_alt u del: of_nat_mult)
  have nx: "of_nat (4096 * i) + PAGE_SIZE = (of_nat (4096 * (i + 1)) :: u32)" by (simp add: algebra_simps)
  have pn: "page_numbers i ((unat e + 4095) div 4096) = of_nat (4096 * i) # page_numbers (i + 1) ((unat e + 4095) div 4096)"
    using i by (simp add: page_numbers_def upt_conv_Cons del: upt_Suc)
  show ?case
  proof (cases "tp < mx")
    case True
    have "fill_region (pages[tp := of_nat (4096 * i)]) (tp + 1) mx (of_nat (4096 * (i + 1))) e
        = pushed (pages[tp := of_nat (4096 * i)]) (tp + 1) mx (page_numbers (i + 1) ((unat e + 4095) div 4096))"
      using Suc.hyps(2) Suc.prems True lt(2) by (intro Suc.hyps(1)) simp_all
    then show ?thesis using fill_region_step [OF lt(1) True, of pages] True Suc.prems(2)
      unfolding pn nx by (simp only: pushed_Cons)
  next
    case False
    then show ?thesis by (simp add: fill_region_stop pushed_full)
  qed
qed

text \<open>The pages that start in an available region of the memory map, in order.\<close>

definition region_list :: "mmap_tentry \<Rightarrow> u32 list" where
  "region_list m = (if mtype m = MTYPE_AVALIABLE
     then page_numbers ((unat (base_addr_low m) + 4095) div 4096) ((unat (base_addr_low m) + unat (length_low m) + 4095) div 4096)
     else [])"

text \<open>A page starts in the available region of a map entry.\<close>

definition in_region :: "mmap_tentry \<Rightarrow> u32 \<Rightarrow> bool" where
  "in_region m p \<longleftrightarrow> mtype m = MTYPE_AVALIABLE \<and> unat (base_addr_low m) \<le> unat p
     \<and> unat p < unat (base_addr_low m) + unat (length_low m) \<and> 4096 dvd unat p"

definition no_wrap :: "mmap_tentry \<Rightarrow> bool" where
  "no_wrap m \<longleftrightarrow> (mtype m = MTYPE_AVALIABLE \<longrightarrow> unat (base_addr_low m) + unat (length_low m) + 4096 < 2 ^ 32)"

lemma unat_page_number: "4096 * (k :: nat) < 2 ^ 32 \<Longrightarrow> unat (of_nat (4096 * k) :: u32) = 4096 * k"
  by (rule unat_of_nat_small_u32) simp

lemma region_list_set:
  assumes "no_wrap m"
  shows "set (region_list m) = {p. in_region m p}"
proof (cases "mtype m = MTYPE_AVALIABLE")
  case False
  then show ?thesis by (simp add: region_list_def in_region_def)
next
  case True
  let ?b = "unat (base_addr_low m)" and ?e = "unat (base_addr_low m) + unat (length_low m)"
  have w: "?e + 4096 < 2 ^ 32" using assms True by (simp add: no_wrap_def)
  have *: "(\<exists>k. (?b + 4095) div 4096 \<le> k \<and> k < (?e + 4095) div 4096 \<and> p = of_nat (4096 * k)) \<longleftrightarrow> in_region m p" for p
  proof
    assume "\<exists>k. (?b + 4095) div 4096 \<le> k \<and> k < (?e + 4095) div 4096 \<and> p = of_nat (4096 * k)"
    then obtain k where k: "\<not> k < (?b + 4095) div 4096" "k < (?e + 4095) div 4096" "p = of_nat (4096 * k)" by (auto simp: not_less)
    then have "?b \<le> 4096 * k" "4096 * k < ?e" using pages_below [of k ?b] pages_below [of k ?e] by simp_all
    moreover from this have "unat p = 4096 * k" using k(3) w by (simp add: unat_page_number del: of_nat_mult)
    ultimately show "in_region m p" using True by (simp add: in_region_def)
  next
    assume r: "in_region m p"
    then obtain k where k: "unat p = 4096 * k" by (auto simp: in_region_def)
    then have "(?b + 4095) div 4096 \<le> k" "k < (?e + 4095) div 4096"
      using r pages_below [of k ?b] pages_below [of k ?e] by (simp_all add: in_region_def not_less [symmetric])
    moreover have "p = of_nat (4096 * k)" by (simp add: k [symmetric] del: of_nat_mult)
    ultimately show "\<exists>k. (?b + 4095) div 4096 \<le> k \<and> k < (?e + 4095) div 4096 \<and> p = of_nat (4096 * k)" by blast
  qed
  have "set (region_list m) = {p. \<exists>k. (?b + 4095) div 4096 \<le> k \<and> k < (?e + 4095) div 4096 \<and> p = of_nat (4096 * k)}"
    using True by (auto simp: region_list_def page_numbers_def simp del: of_nat_mult)
  then show ?thesis by (simp only: *)
qed

lemma region_list_distinct: "no_wrap m \<Longrightarrow> distinct (region_list m)"
proof -
  assume w: "no_wrap m"
  have "inj_on (\<lambda>k. of_nat (4096 * k) :: u32) {i..<j}" if "4096 * j < 2 ^ 32" for i j
  proof (rule inj_onI)
    fix k l
    assume "k \<in> {i..<j}" "l \<in> {i..<j}" "(of_nat (4096 * k) :: u32) = of_nat (4096 * l)"
    moreover from this have "4096 * k < 2 ^ 32" "4096 * l < 2 ^ 32" using that by auto
    ultimately show "k = l" using unat_page_number by (metis mult_cancel1 zero_neq_numeral)
  qed
  moreover have "4096 * ((unat (base_addr_low m) + unat (length_low m) + 4095) div 4096) < 2 ^ 32" if "mtype m = MTYPE_AVALIABLE"
    using w that by (simp add: no_wrap_def)
  ultimately show ?thesis by (auto simp: region_list_def page_numbers_def distinct_map)
qed

lemma fill_stack_eq:
  assumes "tp \<le> mx" "mx \<le> length pages" "\<forall>m \<in> set ms. no_wrap m"
  shows "fill_stack pages tp mx ms = pushed pages tp mx (concat (map region_list ms))"
  using assms
proof (induction ms arbitrary: pages tp)
  case Nil
  then show ?case by simp
next
  case (Cons m ms)
  show ?case
  proof (cases "mtype m = MTYPE_AVALIABLE")
    case False
    then show ?thesis using Cons by (simp add: region_list_def)
  next
    case True
    let ?b = "unat (base_addr_low m)" and ?e = "base_addr_low m + length_low m"
    have w: "?b + unat (length_low m) + 4096 < 2 ^ 32" using Cons.prems(3) True by (simp add: no_wrap_def)
    then have e: "unat ?e = ?b + unat (length_low m)" by (simp add: unat_word_ariths)
    have "unat (PAGE_ALIGN (base_addr_low m)) = 4096 * ((?b + 4095) div 4096)" using w by (subst PAGE_ALIGN_nat) simp_all
    then have "of_nat (unat (PAGE_ALIGN (base_addr_low m))) = (of_nat (4096 * ((?b + 4095) div 4096)) :: u32)" by (simp only:)
    then have a: "PAGE_ALIGN (base_addr_low m) = of_nat (4096 * ((?b + 4095) div 4096))" by (simp del: of_nat_mult)
    have "4096 * ((?b + 4095) div 4096) < 2 ^ 32" using w by simp
    from fill_region_eq [OF Cons.prems(1,2) _ this, of ?e]
    have f: "fill_region pages tp mx (PAGE_ALIGN (base_addr_low m)) ?e = pushed pages tp mx (region_list m)"
      using w e True by (simp add: a region_list_def)
    obtain p1 t1 where p: "pushed pages tp mx (region_list m) = (p1, t1)" by (cases "pushed pages tp mx (region_list m)")
    note n = pushed_append [OF Cons.prems(1,2) p, of "concat (map region_list ms)"]
    have "fill_stack p1 t1 mx ms = pushed p1 t1 mx (concat (map region_list ms))"
      using Cons.prems(2,3) n by (intro Cons.IH) simp_all
    then show ?thesis using True f p n by simp
  qed
qed

section \<open>Taking the kernel out of the map\<close>

definition adjust :: "u32 \<Rightarrow> mmap_tentry \<Rightarrow> mmap_tentry" where
  "adjust len m = (if mtype m = MTYPE_AVALIABLE \<and> base_addr_low m \<ge> 0x100000
     then m\<lparr>base_addr_low := base_addr_low m + len, length_low := length_low m - len\<rparr> else m)"

definition rearranged :: "mmap_tentry list \<Rightarrow> nat \<Rightarrow> u32 \<Rightarrow> mmap_tentry list \<Rightarrow> nat \<Rightarrow> nat \<Rightarrow> bool" where
  "rearranged tab0 n0 len tab i n \<longleftrightarrow> length tab = MBOOT_MMAP_MAXREG \<and> n0 \<le> n \<and> n \<le> MBOOT_MMAP_MAXREG
     \<and> (\<forall>k < n0. tab ! k = (if k < i then adjust len (tab0 ! k) else tab0 ! k))
     \<and> (\<forall>k. n0 \<le> k \<and> k < n \<longrightarrow> mtype (tab ! k) = MTYPE_RESERVED)"

lemma rearranged_skip:
  assumes "rearranged tab0 n0 len tab i n" and "i < n"
    and "\<not> (mtype (tab ! i) = MTYPE_AVALIABLE \<and> base_addr_low (tab ! i) \<ge> 0x100000)"
  shows "rearranged tab0 n0 len tab (i + 1) n"
  using assms by (auto simp: rearranged_def adjust_def less_Suc_eq split: if_splits)

lemma rearranged_insert:
  assumes "rearranged tab0 n0 len tab i n" and "i < n" and "n < MBOOT_MMAP_MAXREG"
    and av: "mtype (tab ! i) = MTYPE_AVALIABLE" "base_addr_low (tab ! i) \<ge> 0x100000" and "mtype r = MTYPE_RESERVED"
  shows "rearranged tab0 n0 len ((tab[n := r])[i := ((tab[n := r]) ! i)\<lparr>base_addr_low := base_addr_low (tab ! i) + len,
      length_low := length_low (tab ! i) - len\<rparr>]) (i + 1) (n + 1)"
proof -
  have i: "i < n0" using assms(1,2) av(1) by (auto simp: rearranged_def not_less [symmetric])
  have "tab ! i = tab0 ! i" using assms(1) i by (simp add: rearranged_def)
  then show ?thesis using assms i
    by (auto simp: rearranged_def adjust_def nth_list_update less_Suc_eq)
qed

lemma rearrange_ok:
  assumes "rearrange tab i n ks len = Some (tab', n')"
  shows "rearranged tab0 n0 len tab i n \<Longrightarrow> \<exists>i'. n' \<le> i' \<and> rearranged tab0 n0 len tab' i' n'"
proof -
  let ?P = "\<lambda>tab i n ks len (r :: mmap_tentry list \<times> nat). rearranged tab0 n0 len tab i n
    \<longrightarrow> (\<exists>i'. snd r \<le> i' \<and> rearranged tab0 n0 len (fst r) i' (snd r))"
  have "?P tab i n ks len (tab', n')"
  proof (rule rearrange.raw_induct [where P = ?P, OF _ assms])
    fix re tab i n ks len r
    assume ih: "\<And>tab i n ks len r. re tab i n ks len = Some r \<Longrightarrow> ?P tab i n ks len r"
      and step: "(if i < n then
        let mmap = tab ! i in
        if mtype mmap = MTYPE_AVALIABLE \<and> base_addr_low mmap \<ge> 0x100000 then
          if n < MBOOT_MMAP_MAXREG then
            let tab1 = tab[n := \<lparr>base_addr_low = ks, base_addr_high = 0, length_low = len,
                                 length_high = 0, mtype = MTYPE_RESERVED\<rparr>];
                tab2 = tab1[i := (tab1 ! i)\<lparr>base_addr_low := base_addr_low mmap + len,
                                            length_low := length_low mmap - len\<rparr>]
            in re tab2 (i + 1) (n + 1) ks len
          else None
        else re tab (i + 1) n ks len
      else Some (tab, n)) = Some r"
    show "?P tab i n ks len r"
    proof
      assume inv: "rearranged tab0 n0 len tab i n"
      show "\<exists>i'. snd r \<le> i' \<and> rearranged tab0 n0 len (fst r) i' (snd r)"
      proof (cases "i < n")
        case False
        then show ?thesis using step inv by (intro exI [of _ i]) auto
      next
        case lt: True
        show ?thesis
        proof (cases "mtype (tab ! i) = MTYPE_AVALIABLE \<and> base_addr_low (tab ! i) \<ge> 0x100000")
          case True
          then have n: "n < MBOOT_MMAP_MAXREG" using step lt by (auto simp: Let_def split: if_splits)
          let ?r = "\<lparr>base_addr_low = ks, base_addr_high = 0, length_low = len, length_high = 0, mtype = MTYPE_RESERVED\<rparr>"
          have "re ((tab[n := ?r])[i := ((tab[n := ?r]) ! i)\<lparr>base_addr_low := base_addr_low (tab ! i) + len,
              length_low := length_low (tab ! i) - len\<rparr>]) (i + 1) (n + 1) ks len = Some r"
            using step lt True n by (simp add: Let_def)
          from ih [OF this] show ?thesis using rearranged_insert [OF inv lt n, of ?r] True by simp
        next
          case False
          then have "re tab (i + 1) n ks len = Some r" using step lt by (auto simp: Let_def)
          from ih [OF this] show ?thesis using rearranged_skip [OF inv lt False] by simp
        qed
      qed
    qed
  qed
  then show "rearranged tab0 n0 len tab i n \<Longrightarrow> \<exists>i'. n' \<le> i' \<and> rearranged tab0 n0 len tab' i' n'" by simp
qed

section \<open>Properties\<close>

text \<open>
  The map is sound for the kernel: no region wraps, and every available region either lies below
  the kernel or starts at or above its first page and is at least as long as the kernel.
\<close>

definition map_sound :: "karch_info \<Rightarrow> u32 \<Rightarrow> u32 \<Rightarrow> bool" where
  "map_sound kinf ks len \<longleftrightarrow> length (mmap_table kinf) = MBOOT_MMAP_MAXREG \<and> mmap_size kinf \<le> MBOOT_MMAP_MAXREG
     \<and> (\<forall>k < mmap_size kinf. let m = mmap_table kinf ! k in no_wrap m \<and>
          (mtype m = MTYPE_AVALIABLE \<longrightarrow>
             base_addr_low m < 0x100000 \<and> unat (base_addr_low m) + unat (length_low m) \<le> unat ks
             \<or> 0x100000 \<le> base_addr_low m \<and> ks \<le> base_addr_low m \<and> len \<le> length_low m))"

lemma adjust_sound:
  assumes "no_wrap m" and "mtype m = MTYPE_AVALIABLE \<longrightarrow>
      base_addr_low m < 0x100000 \<and> unat (base_addr_low m) + unat (length_low m) \<le> unat ks
      \<or> 0x100000 \<le> base_addr_low m \<and> ks \<le> base_addr_low m \<and> len \<le> length_low m"
  shows "no_wrap (adjust len m)
    \<and> (in_region (adjust len m) p \<longrightarrow> in_region m p \<and> (unat p < unat ks \<or> unat ks + unat len \<le> unat p))"
proof (cases "mtype m = MTYPE_AVALIABLE \<and> base_addr_low m \<ge> 0x100000")
  case False
  then show ?thesis using assms by (auto simp: adjust_def in_region_def not_le)
next
  case True
  then have h: "unat ks \<le> unat (base_addr_low m)" "unat len \<le> unat (length_low m)"
    using assms(2) by (auto simp: word_le_nat_alt word_less_nat_alt)
  have w: "unat (base_addr_low m) + unat (length_low m) + 4096 < 2 ^ 32" using assms(1) True by (simp add: no_wrap_def)
  have "unat (base_addr_low m + len) = unat (base_addr_low m) + unat len"
    using w h(2) by (simp add: unat_word_ariths)
  moreover have "unat (length_low m - len) = unat (length_low m) - unat len"
    using h(2) by (simp add: unat_sub word_le_nat_alt)
  ultimately show ?thesis using True h w by (auto simp: adjust_def no_wrap_def in_region_def)
qed

text \<open>The free pages: those that start in the available regions once the kernel is taken out.\<close>

definition free_pages :: "karch_info \<Rightarrow> u32 \<Rightarrow> u32 list" where
  "free_pages kinf len = concat (map (\<lambda>m. region_list (adjust len m)) (take (mmap_size kinf) (mmap_table kinf)))"

lemma rearranged_regions:
  assumes "rearranged tab0 n0 len tab i n" "n \<le> i" "n0 \<le> length tab0"
  shows "concat (map region_list (take n tab)) = concat (map (\<lambda>m. region_list (adjust len m)) (take n0 tab0))"
    and "\<forall>m \<in> set (take n tab). mtype m = MTYPE_RESERVED \<or> (\<exists>k < n0. m = adjust len (tab0 ! k))"
proof -
  have l: "n0 \<le> n" "n \<le> length tab" using assms(1) by (auto simp: rearranged_def)
  have u: "take n tab = take n0 tab @ drop n0 (take n tab)" using l(1) by (metis append_take_drop_id min.absorb1 take_take)
  have fst: "take n0 tab = map (adjust len) (take n0 tab0)"
    using assms l by (auto simp: rearranged_def intro!: nth_equalityI)
  have rest: "\<forall>m \<in> set (drop n0 (take n tab)). mtype m = MTYPE_RESERVED"
    using assms(1) l by (auto simp: rearranged_def in_set_conv_nth)
  then have "concat (map region_list (drop n0 (take n tab))) = []" by (simp add: region_list_def)
  then show "concat (map region_list (take n tab)) = concat (map (\<lambda>m. region_list (adjust len m)) (take n0 tab0))"
    by (subst u) (simp add: fst comp_def)
  have "set (take n0 tab0) \<subseteq> (\<lambda>k. tab0 ! k) ` {..<n0}" using assms(3) by (auto simp: in_set_conv_nth)
  then show "\<forall>m \<in> set (take n tab). mtype m = MTYPE_RESERVED \<or> (\<exists>k < n0. m = adjust len (tab0 ! k))"
    using rest by (subst u) (auto simp: fst)
qed

lemma init_pg_parts:
  assumes "init_pg kinf ks ke pages0 = Some (kinf', pg)"
  shows "\<exists>tab n tp. rearrange (mmap_table kinf) 0 (mmap_size kinf) ks (pg_kernel_size pg) = Some (tab, n)
    \<and> fill_stack pages0 0 (stack_max_top (pg_stack pg)) (take n tab) = (stack_pages (pg_stack pg), tp)
    \<and> stack_top (pg_stack pg) = 0"
  using assms by (auto simp: init_pg_def Let_def bind_eq_Some_conv case_prod_unfold)
    (metis prod.collapse)

lemma free_pages_sound:
  assumes "map_sound kinf ks len"
  shows "set (free_pages kinf len) = {p. \<exists>j < mmap_size kinf. in_region (adjust len (mmap_table kinf ! j)) p}"
    and "\<forall>j < mmap_size kinf. no_wrap (adjust len (mmap_table kinf ! j)) \<and> (\<forall>p. in_region (adjust len (mmap_table kinf ! j)) p \<longrightarrow>
      in_region (mmap_table kinf ! j) p \<and> (unat p < unat ks \<or> unat ks + unat len \<le> unat p))"
proof -
  show *: "\<forall>j < mmap_size kinf. no_wrap (adjust len (mmap_table kinf ! j)) \<and> (\<forall>p. in_region (adjust len (mmap_table kinf ! j)) p \<longrightarrow>
      in_region (mmap_table kinf ! j) p \<and> (unat p < unat ks \<or> unat ks + unat len \<le> unat p))"
    using assms adjust_sound [of _ ks len] by (metis map_sound_def)
  have l: "mmap_size kinf \<le> length (mmap_table kinf)" using assms by (simp add: map_sound_def)
  then have "set (take (mmap_size kinf) (mmap_table kinf)) = (\<lambda>j. mmap_table kinf ! j) ` {..<mmap_size kinf}"
    by (simp add: nth_image lessThan_atLeast0)
  then show "set (free_pages kinf len) = {p. \<exists>j < mmap_size kinf. in_region (adjust len (mmap_table kinf ! j)) p}"
    using * region_list_set by (auto simp: free_pages_def)
qed

lemma init_pg_stack:
  assumes "init_pg kinf ks ke pages0 = Some (kinf', pg)" and "map_sound kinf ks (pg_kernel_size pg)"
    and "stack_max_top (pg_stack pg) \<le> length pages0"
  shows "stack_top (pg_stack pg) = 0"
    and "stack_pages (pg_stack pg) = take (stack_max_top (pg_stack pg)) (free_pages kinf (pg_kernel_size pg))
        @ drop (min (stack_max_top (pg_stack pg)) (length (free_pages kinf (pg_kernel_size pg)))) pages0"
proof -
  let ?len = "pg_kernel_size pg" and ?n0 = "mmap_size kinf" and ?tab0 = "mmap_table kinf"
  from init_pg_parts [OF assms(1)] obtain tab n tp where
    re: "rearrange ?tab0 0 ?n0 ks ?len = Some (tab, n)" and
    fs: "fill_stack pages0 0 (stack_max_top (pg_stack pg)) (take n tab) = (stack_pages (pg_stack pg), tp)"
    and top0: "stack_top (pg_stack pg) = 0" by blast
  have "rearranged ?tab0 ?n0 ?len ?tab0 0 ?n0" using assms(2) by (auto simp: rearranged_def map_sound_def)
  from rearrange_ok [OF re this] obtain i' where i': "n \<le> i'" "rearranged ?tab0 ?n0 ?len tab i' n" by blast
  have l: "?n0 \<le> length ?tab0" using assms(2) by (simp add: map_sound_def)
  note rr = rearranged_regions [OF i'(2,1) l]
  have "\<forall>m \<in> set (take n tab). no_wrap m" using rr(2) free_pages_sound(2) [OF assms(2)] by (auto simp: no_wrap_def)
  from fill_stack_eq [OF _ assms(3) this, of 0] show
    "stack_pages (pg_stack pg) = take (stack_max_top (pg_stack pg)) (free_pages kinf ?len)
      @ drop (min (stack_max_top (pg_stack pg)) (length (free_pages kinf ?len))) pages0"
    using fs rr(1) by (simp add: pushed_def Let_def free_pages_def min.commute)
  show "stack_top (pg_stack pg) = 0" by (rule top0)
qed


section \<open>Who holds a page\<close>

text \<open>Runs of the allocator: a page is taken, as long as \<open>limit\<close> pages are not yet out, or one of the pages held is given back.\<close>

inductive page_run :: "nat \<Rightarrow> page_stack \<Rightarrow> page_stack \<times> u32 list \<Rightarrow> bool" for limit s0 where
  page_start: "page_run limit s0 (s0, [])"
| page_take: "page_run limit s0 (s, held) \<Longrightarrow> stack_top s < limit \<Longrightarrow> zone = DMA_ZONE \<or> zone = NORMAL_ZONE \<Longrightarrow>
    page_run limit s0 (snd (alloc_page s zone), fst (alloc_page s zone) # held)"
| page_give: "page_run limit s0 (s, held) \<Longrightarrow> p \<in> set held \<Longrightarrow> page_run limit s0 (free_page s p, remove1 p held)"

text \<open>The pages held and the pages still on the stack are together the pages it had.\<close>

lemma page_run_inv:
  assumes "page_run limit s0 x" "stack_top s0 = 0" "limit \<le> stack_max_top s0" "stack_max_top s0 \<le> length (stack_pages s0)"
  shows "stack_top (fst x) = length (snd x) \<and> length (snd x) \<le> limit \<and> stack_max_top (fst x) = stack_max_top s0
    \<and> length (stack_pages (fst x)) = length (stack_pages s0)
    \<and> mset (snd x) + mset (drop (stack_top (fst x)) (take limit (stack_pages (fst x)))) = mset (take limit (stack_pages s0))"
  using assms(1)
proof induction
  case page_start
  then show ?case using assms(2,3) by simp
next
  case (page_take s held zone)
  then have "drop (stack_top s) (take limit (stack_pages s)) = stack_pages s ! stack_top s # drop (Suc (stack_top s)) (take limit (stack_pages s))"
    using assms(3,4) by (simp flip: Cons_nth_drop_Suc)
  moreover have "alloc_page s zone = (stack_pages s ! stack_top s, s\<lparr>stack_top := stack_top s + 1\<rparr>)"
    using page_take assms(3) by (auto simp: alloc_page_def)
  moreover have "stack_top s = length held" using page_take by simp
  ultimately show ?case using page_take by simp
next
  case (page_give s held p)
  obtain t where t: "stack_top s = Suc t" using page_give by (cases held; cases "stack_top s") auto
  have l: "t < limit" "limit \<le> length (stack_pages s)" using page_give t assms(3,4) by auto
  have "drop t (take limit ((stack_pages s)[t := p])) = p # drop (Suc t) (take limit (stack_pages s))"
    using l by (simp add: take_update_swap drop_update_swap flip: Cons_nth_drop_Suc)
  moreover have "length (remove1 p held) = t" using page_give t by (simp add: length_remove1) arith
  moreover have "free_page s p = s\<lparr>stack_pages := (stack_pages s)[t := p], stack_top := t\<rparr>" using t by (simp add: free_page_def)
  moreover have "mset held = add_mset p (mset (remove1 p held))" using page_give(2) by simp
  moreover have "length held = Suc t" using page_give t by simp
  ultimately show ?case using page_give t l(1) by (simp del: mset_remove1)
qed

text \<open>The available regions of the boot loader's map do not overlap.\<close>

definition regions_apart :: "karch_info \<Rightarrow> bool" where
  "regions_apart kinf \<longleftrightarrow> (\<forall>i < mmap_size kinf. \<forall>j < i. \<forall>p. \<not> (in_region (mmap_table kinf ! i) p \<and> in_region (mmap_table kinf ! j) p))"

lemma distinct_concat_upt:
  "(\<forall>i < n. distinct (f i)) \<Longrightarrow> (\<forall>i < n. \<forall>j < i. set (f i) \<inter> set (f j) = {}) \<Longrightarrow> distinct (concat (map f [0..<n]))"
proof (induction n)
  case (Suc n)
  have "set (f n) \<inter> (\<Union>j \<in> {..<n}. set (f j)) = {}" using Suc.prems(2) by blast
  then show ?case using Suc by (simp add: lessThan_atLeast0 Int_commute)
qed simp

lemma free_pages_distinct:
  assumes "map_sound kinf ks len" "regions_apart kinf"
  shows "distinct (free_pages kinf len)"
proof -
  let ?f = "\<lambda>j. region_list (adjust len (mmap_table kinf ! j))"
  note fs = free_pages_sound(2) [OF assms(1)]
  have "take (mmap_size kinf) (mmap_table kinf) = map (\<lambda>j. mmap_table kinf ! j) [0..<mmap_size kinf]"
    using assms(1) by (auto simp: map_sound_def intro!: nth_equalityI)
  moreover have "distinct (concat (map ?f [0..<mmap_size kinf]))"
  proof (rule distinct_concat_upt; intro allI impI)
    show "distinct (?f i)" if "i < mmap_size kinf" for i using fs that region_list_distinct by blast
    show "set (?f i) \<inter> set (?f j) = {}" if "i < mmap_size kinf" "j < i" for i j
    proof -
      have "j < mmap_size kinf" using that by simp
      then show ?thesis using fs that region_list_set assms(2) unfolding regions_apart_def by blast
    qed
  qed
  ultimately show ?thesis by (simp add: free_pages_def comp_def)
qed

text \<open>C27: No page has two holders. After \<open>init_pg\<close>, with regions of memory that do not overlap, pages are taken and given back
  in any order, a page only by one who holds it and no more at once than there were free pages (behind them the stack
  holds cells that were never written). Then all pages that are held are different, each is one of the free pages, and
  those held and those left on the stack are together the pages that the stack had. Page 0 can be one of them,
  which the callers of \<open>alloc_page\<close> take for a failure.\<close>

theorem alloc_page_distinct:
  assumes "init_pg kinf ks ke pages0 = Some (kinf', pg)" and "map_sound kinf ks (pg_kernel_size pg)"
    and "stack_max_top (pg_stack pg) \<le> length pages0" and "regions_apart kinf"
    and "limit = min (stack_max_top (pg_stack pg)) (length (free_pages kinf (pg_kernel_size pg)))"
    and "page_run limit (pg_stack pg) (s, held)"
  shows "distinct held \<and> set held \<subseteq> set (free_pages kinf (pg_kernel_size pg)) \<and> stack_top s = length held
    \<and> mset held + mset (drop (stack_top s) (take limit (stack_pages s))) = mset (take limit (free_pages kinf (pg_kernel_size pg)))"
proof -
  let ?fp = "free_pages kinf (pg_kernel_size pg)"
  note st = init_pg_stack [OF assms(1-3)]
  have "stack_max_top (pg_stack pg) \<le> length (stack_pages (pg_stack pg))" using st(2) assms(3) by simp
  from page_run_inv [OF assms(6) st(1) _ this] have inv: "stack_top s = length held"
    "mset held + mset (drop (stack_top s) (take limit (stack_pages s))) = mset (take limit (stack_pages (pg_stack pg)))"
    unfolding assms(5) by auto
  moreover have tk: "take limit (stack_pages (pg_stack pg)) = take limit ?fp" using st(2) assms(5) by (simp add: min_def)
  ultimately have m: "mset (held @ drop (stack_top s) (take limit (stack_pages s))) = mset (take limit ?fp)" by simp
  have "distinct (take limit ?fp)" using free_pages_distinct [OF assms(2,4)] by simp
  then have "distinct (held @ drop (stack_top s) (take limit (stack_pages s)))" using m by (metis mset_eq_imp_distinct_iff)
  moreover have "set held \<subseteq> set ?fp" using mset_eq_setD [OF m] by (auto dest: in_set_takeD)
  ultimately show ?thesis using inv tk by simp
qed

text \<open>When the memory map starts with an available region at address 0, as on a PC, page 0 is
  pushed first; \<open>alloc_page\<close> then returns 0, its value for "out of memory", on the first call.\<close>

theorem init_pg_first_page_is_null:
  assumes "init_pg kinf ks ke pages0 = Some (kinf', pg)" and "map_sound kinf ks (pg_kernel_size pg)"
    and "stack_max_top (pg_stack pg) \<le> length pages0" and "0 < stack_max_top (pg_stack pg)"
    and "0 < mmap_size kinf" and "mtype (mmap_table kinf ! 0) = MTYPE_AVALIABLE"
    and "base_addr_low (mmap_table kinf ! 0) = 0" and "length_low (mmap_table kinf ! 0) \<noteq> 0"
  shows "fst (alloc_page (pg_stack pg) NORMAL_ZONE) = 0"
proof -
  let ?len = "pg_kernel_size pg" and ?m = "mmap_table kinf ! 0"
  have "mmap_table kinf \<noteq> []" using assms(2) by (auto simp: map_sound_def)
  then obtain ms where "take (mmap_size kinf) (mmap_table kinf) = ?m # ms"
    using assms(5) by (cases "mmap_table kinf"; cases "mmap_size kinf") auto
  moreover have "adjust ?len ?m = ?m" using assms(7) by (simp add: adjust_def word_le_nat_alt)
  moreover have "0 < unat (length_low ?m)" using assms(8) by (simp add: unat_gt_0)
  then have "0 < (unat (length_low ?m) + 4095) div 4096" using pages_below [of 0 "unat (length_low ?m)"] by simp
  then have "region_list ?m = 0 # page_numbers 1 ((unat (length_low ?m) + 4095) div 4096)"
    using assms(6,7) by (simp add: region_list_def page_numbers_def upt_conv_Cons del: upt_Suc)
  ultimately obtain ps where "free_pages kinf ?len = 0 # ps" by (simp add: free_pages_def)
  then have "stack_pages (pg_stack pg) ! 0 = 0" using init_pg_stack(2) [OF assms(1-3)] assms(4)
    by (cases "stack_max_top (pg_stack pg)") simp_all
  then show ?thesis using init_pg_stack(1) [OF assms(1-3)] assms(4) by (simp add: alloc_page_def)
qed

section \<open>\<open>init_pg\<close> returns\<close>

lemma map_kernel_stop: "\<not> a < limit \<Longrightarrow> map_kernel es a limit i j k l kp = Some (es, kp)"
  by (subst map_kernel.simps) simp

lemma map_kernel_total:
  "unat limit \<le> unat a + 4096 * n \<Longrightarrow> unat limit + 4096 < 2 ^ 32 \<Longrightarrow> i \<le> 1024 \<Longrightarrow> l \<le> 1024
    \<Longrightarrow> 1025 * j + i + n \<le> 262144 \<Longrightarrow> 1025 * k + l + n \<le> 1048576
    \<Longrightarrow> \<exists>r. map_kernel es a limit i j k l kp = Some r"
proof (induction n arbitrary: es a i j k l kp)
  case 0
  then show ?case by (simp add: map_kernel_stop word_less_nat_alt)
next
  case (Suc n)
  show ?case
  proof (cases "a < limit")
    case False
    then show ?thesis by (simp add: map_kernel_stop)
  next
    case True
    then have s: "unat (a + PAGE_SIZE) = unat a + 4096"
      using Suc.prems(2) by (simp add: unat_word_ariths word_less_nat_alt)
    have jk: "768 + j < 1024" "k < 1024" using Suc.prems(5,6) by linarith+
    have "\<exists>r. map_kernel es' (a + PAGE_SIZE) limit (if i < 1024 then i + 1 else 0) (if i < 1024 then j else j + 1)
        (if l < 1024 then k else k + 1) (if l < 1024 then l + 1 else 0) kp' = Some r" for es' kp'
      using Suc.prems s by (intro Suc.IH) auto
    then show ?thesis using True jk by (subst map_kernel.simps) (simp add: Let_def)
  qed
qed

text \<open>A PC with 16KB above the first megabyte reported, for the examples.\<close>

definition demo_map :: karch_info where
  "demo_map = \<lparr>mem_lower = 640, mem_upper = 16, mmap_table =
     ([\<lparr>base_addr_low = 0, base_addr_high = 0, length_low = 0x9F000, length_high = 0, mtype = 1\<rparr>,
      \<lparr>base_addr_low = 0x100000, base_addr_high = 0, length_low = 0x1000000, length_high = 0, mtype = 1\<rparr>]
     @ replicate 38 \<lparr>base_addr_low = 0, base_addr_high = 0, length_low = 0, length_high = 0, mtype = 0\<rparr>),
     mmap_size = 2\<rparr>"

lemma make_kerneldir_demo:
  "\<exists>k d. make_kerneldir 0xC0001000 = (k, d, 0xC0404000)"
proof -
  have "make_tables 1024 0xC0004000 [] [] = (map (\<lambda>i. 0xC0004000 + PAGE_SIZE * of_nat i) [0..<1024],
      map (\<lambda>i. MAKE_ENTRY (GET_PHYADDR (0xC0004000 + PAGE_SIZE * of_nat i)) 3) [0..<1024],
      0xC0004000 + PAGE_SIZE * of_nat 1024)"
    using make_tables_ok [where free = "0xC0004000" and n = 1024 and ts = "[]" and es = "[]"] by (simp del: upt_Suc make_tables.simps)
  then show ?thesis
    by (auto simp: make_kerneldir_def kmalloc_e_def PAGE_ALIGN_def Let_def simp del: upt_Suc make_tables.simps)
qed

lemma demo_init_pg:
  "\<exists>kinf' pg. init_pg demo_map 0x100000 0xC0001000 (replicate 4 0) = Some (kinf', pg)
    \<and> pg_kernel_size pg = 0x405000 \<and> stack_max_top (pg_stack pg) = 4"
proof -
  obtain kp kd where mk: "make_kerneldir 0xC0001000 = (kp, kd, 0xC0404000)" using make_kerneldir_demo by blast
  obtain es kpages where mp: "map_kernel (map_low (\<lambda>_. 0) 0 0) 0x100000 0x505000 0 0 0 256 0 = Some (es, kpages)"
    using map_kernel_total [where limit = "0x505000" and a = "0x100000" and n = 1029 and i = 0 and l = 256 and j = 0 and k = 0
        and es = "map_low (\<lambda>_. 0) 0 0" and kp = 0] by auto
  have re: "\<exists>tab n. rearrange (mmap_table demo_map) 0 2 0x100000 0x405000 = Some (tab, n)"
    unfolding demo_map_def karch_info.simps
    by (subst rearrange.simps, simp add: Let_def word_le_nat_alt, subst rearrange.simps, simp add: Let_def word_le_nat_alt,
        subst rearrange.simps, simp add: Let_def nth_list_update, subst rearrange.simps, simp)
  show ?thesis
    using mk mp re
    by (auto simp: init_pg_def Let_def kmalloc_e_def PAGE_ALIGN_def GET_PHYADDR_def push_bit_eq_mult
        split: prod.splits) (auto simp: demo_map_def push_bit_eq_mult case_prod_unfold)
qed

lemma demo_sound: "map_sound demo_map 0x100000 0x405000"
  by (auto simp: map_sound_def demo_map_def no_wrap_def Let_def word_le_nat_alt word_less_nat_alt dest!: less_2_cases)

lemma demo_first_region: "\<exists>ps. free_pages demo_map 0x405000 = page_numbers 0 159 @ ps"
  by (simp add: free_pages_def demo_map_def adjust_def region_list_def word_le_nat_alt)


theorem alloc_page_distinct_witness:
  "\<exists>kinf' pg s p q. init_pg demo_map 0x100000 0xC0001000 (replicate 4 0) = Some (kinf', pg)
    \<and> page_run 4 (pg_stack pg) (s, [p, q]) \<and> p \<noteq> q"
proof -
  obtain kinf' pg where i: "init_pg demo_map 0x100000 0xC0001000 (replicate 4 0) = Some (kinf', pg)"
    "pg_kernel_size pg = 0x405000" "stack_max_top (pg_stack pg) = 4" using demo_init_pg by blast
  have s: "map_sound demo_map 0x100000 (pg_kernel_size pg)" using demo_sound i(2) by simp
  have l: "stack_max_top (pg_stack pg) \<le> length (replicate 4 (0 :: u32))" using i(3) by simp
  have ra: "regions_apart demo_map" by (auto simp: regions_apart_def demo_map_def in_region_def dest!: less_2_cases)
  obtain ps where "free_pages demo_map 0x405000 = page_numbers 0 159 @ ps" using demo_first_region by blast
  then have m: "4 = min (stack_max_top (pg_stack pg)) (length (free_pages demo_map (pg_kernel_size pg)))"
    using i(2,3) by (simp add: page_numbers_def)
  let ?a = "alloc_page (pg_stack pg) 2" and ?b = "alloc_page (snd (alloc_page (pg_stack pg) 2)) 2"
  have t: "stack_top (pg_stack pg) = 0" using init_pg_stack(1) [OF i(1) s l] .
  have "page_run 4 (pg_stack pg) (snd ?a, [fst ?a])" by (rule page_take [OF page_start]) (simp_all add: t)
  then have r: "page_run 4 (pg_stack pg) (snd ?b, [fst ?b, fst ?a])" by (rule page_take) (simp_all add: t alloc_page_def)
  from alloc_page_distinct [OF i(1) s l ra m r] show ?thesis using i(1) r by auto
qed

theorem init_pg_first_page_is_null_witness:
  "\<exists>kinf' pg. init_pg demo_map 0x100000 0xC0001000 (replicate 4 0) = Some (kinf', pg)
    \<and> fst (alloc_page (pg_stack pg) NORMAL_ZONE) = 0"
proof -
  obtain kinf' pg where i: "init_pg demo_map 0x100000 0xC0001000 (replicate 4 0) = Some (kinf', pg)"
    "pg_kernel_size pg = 0x405000" "stack_max_top (pg_stack pg) = 4" using demo_init_pg by blast
  have s: "map_sound demo_map 0x100000 (pg_kernel_size pg)" using demo_sound i(2) by simp
  have l: "stack_max_top (pg_stack pg) \<le> length (replicate 4 (0 :: u32))" "0 < stack_max_top (pg_stack pg)"
    using i(3) by simp_all
  have "fst (alloc_page (pg_stack pg) NORMAL_ZONE) = 0"
    by (rule init_pg_first_page_is_null [OF i(1) s l]) (simp_all add: demo_map_def)
  with i(1) show ?thesis by blast
qed

end
