(* ===== verification/Semaphore.thy ===== *)
theory Semaphore
  imports Prelude
begin

text \<open>
  Mutexes: \<^verbatim>\<open>lib/semaphore.c\<close> and the inline assembly of \<^verbatim>\<open>arch/x86/kernel/atomic.c\<close>. The
  operations on a mutex nobody else touches are functions on its value; how
  \<open>atomic_spin_down\<close> behaves when several tasks interleave is a step relation whose steps are
  the instruction sequences that cannot be interrupted.
\<close>

section \<open>Operations\<close>

definition mutex_init :: "ptr \<Rightarrow> u32 \<Rightarrow> int \<times> u32" where
  "mutex_init p v = (if p = NULL then (- 1, v) else (0, 1))"

definition mutex_is_locked :: "u32 \<Rightarrow> bool" where
  "mutex_is_locked mutex = (mutex > 0)"

definition atomic_incl :: "u32 \<Rightarrow> u32" where "atomic_incl i = i + 1"

definition atomic_decl :: "u32 \<Rightarrow> u32" where "atomic_decl i = i - 1"

text \<open>The spin loop on a mutex that no other task changes: it does not end on 0.\<close>

partial_function (option) atomic_spin_down :: "u32 \<Rightarrow> u32 option" where
  "atomic_spin_down i = (if i = 0 then atomic_spin_down i else Some (i - 1))"

lemma atomic_spin_down_pos [simp]: "i \<noteq> 0 \<Longrightarrow> atomic_spin_down i = Some (i - 1)"
  by (subst atomic_spin_down.simps) simp

definition mutex_spin_down :: "u32 \<Rightarrow> u32 option" where
  "mutex_spin_down mutex = atomic_spin_down mutex"

definition mutex_up :: "u32 \<Rightarrow> u32" where
  "mutex_up mutex = atomic_incl mutex"

section \<open>Interleavings\<close>

text \<open>
  Where a task is: outside, after \<^verbatim>\<open>movl (%1), %ecx\<close> with the value it read, after the branch
  (about to execute \<^verbatim>\<open>decl\<close>), or past \<open>mutex_spin_down\<close>.
\<close>

datatype spin_pc = Outside | Loaded u32 | Passed | Critical

record spin_state =
  sp_mutex :: u32
  sp_pc :: "nat \<Rightarrow> spin_pc"

definition set_pc :: "spin_state \<Rightarrow> nat \<Rightarrow> spin_pc \<Rightarrow> spin_state" where
  "set_pc s t pc = s\<lparr>sp_pc := (sp_pc s)(t := pc)\<rparr>"

inductive spin_step :: "spin_state \<Rightarrow> spin_state \<Rightarrow> bool" where
  load: "sp_pc s t = Outside \<Longrightarrow> spin_step s (set_pc s t (Loaded (sp_mutex s)))"
| spin: "sp_pc s t = Loaded 0 \<Longrightarrow> spin_step s (set_pc s t Outside)"
| pass: "sp_pc s t = Loaded v \<Longrightarrow> v \<noteq> 0 \<Longrightarrow> spin_step s (set_pc s t Passed)"
| decl: "sp_pc s t = Passed \<Longrightarrow>
    spin_step s ((set_pc s t Critical)\<lparr>sp_mutex := atomic_decl (sp_mutex s)\<rparr>)"
| up: "sp_pc s t = Critical \<Longrightarrow>
    spin_step s ((set_pc s t Outside)\<lparr>sp_mutex := mutex_up (sp_mutex s)\<rparr>)"

inductive reachable :: "spin_state \<Rightarrow> bool" where
  start: "reachable \<lparr>sp_mutex = 1, sp_pc = \<lambda>_. Outside\<rparr>"
| step: "reachable s \<Longrightarrow> spin_step s s' \<Longrightarrow> reachable s'"

inductive_cases spin_stepE: "spin_step s s'"

definition critical :: "spin_state \<Rightarrow> nat set" where
  "critical s = {t. sp_pc s t = Critical}"

lemma critical_set_pc [simp]:
  "critical (set_pc s t pc) = (if pc = Critical then insert t (critical s) else critical s - {t})"
  by (auto simp: critical_def set_pc_def)

lemma set_pc_mutex [simp]: "sp_mutex (set_pc s t pc) = sp_mutex s"
  by (simp add: set_pc_def)

lemma critical_mutex [simp]: "critical (s\<lparr>sp_mutex := v\<rparr>) = critical s"
  by (simp add: critical_def)

lemma critical_iff: "t \<in> critical s \<longleftrightarrow> sp_pc s t = Critical"
  by (simp add: critical_def)

lemma spin_step_count:
  assumes "spin_step s s'" and "finite (critical s)" and "sp_mutex s = 1 - of_nat (card (critical s))"
  shows "finite (critical s') \<and> sp_mutex s' = 1 - of_nat (card (critical s'))"
  using assms(1)
proof cases
  case (decl t)
  then have "t \<notin> critical s" by (simp add: critical_iff)
  then show ?thesis using decl assms(2,3) by (simp add: atomic_decl_def)
next
  case (up t)
  then have t: "t \<in> critical s" by (simp add: critical_iff)
  then have "card (critical s) = Suc (card (critical s - {t}))"
    using assms(2) by (metis card.remove)
  then show ?thesis using up assms(2,3) by (simp add: mutex_up_def atomic_incl_def)
qed (use assms(2,3) in \<open>auto simp: critical_iff\<close>)

text \<open>C39: in every interleaving the mutex holds one minus the number of tasks past
  \<open>mutex_spin_down\<close>, modulo \<open>2\<^sup>3\<^sup>2\<close>: no decrement and no increment is lost.\<close>

theorem mutex_counts_holders:
  assumes "reachable s"
  shows "finite (critical s) \<and> sp_mutex s = 1 - of_nat (card (critical s))"
  using assms
proof induction
  case start
  then show ?case by (simp add: critical_def)
next
  case (step s s')
  then show ?case using spin_step_count by blast
qed

lemma two_holders_reachable:
  "\<exists>s. reachable s \<and> sp_pc s 0 = Critical \<and> sp_pc s 1 = Critical \<and> sp_mutex s = - 1"
proof -
  let ?s0 = "\<lparr>sp_mutex = 1, sp_pc = \<lambda>_. Outside\<rparr>"
  let ?s1 = "set_pc ?s0 0 (Loaded 1)" let ?s2 = "set_pc ?s1 1 (Loaded 1)"
  let ?s3 = "set_pc ?s2 0 Passed" let ?s4 = "set_pc ?s3 1 Passed"
  let ?s5 = "(set_pc ?s4 0 Critical)\<lparr>sp_mutex := atomic_decl (sp_mutex ?s4)\<rparr>"
  let ?s6 = "(set_pc ?s5 1 Critical)\<lparr>sp_mutex := atomic_decl (sp_mutex ?s5)\<rparr>"
  have "reachable ?s1" using reachable.step [OF reachable.start spin_step.load [of ?s0 0]] by simp
  moreover have "spin_step ?s1 ?s2" using spin_step.load [of ?s1 1] by (simp add: set_pc_def)
  moreover have "spin_step ?s2 ?s3" by (rule spin_step.pass [of ?s2 0 1]) (simp_all add: set_pc_def)
  moreover have "spin_step ?s3 ?s4" by (rule spin_step.pass [of ?s3 1 1]) (simp_all add: set_pc_def)
  moreover have "spin_step ?s4 ?s5" by (rule spin_step.decl [of ?s4 0]) (simp add: set_pc_def)
  moreover have "spin_step ?s5 ?s6" by (rule spin_step.decl [of ?s5 1]) (simp add: set_pc_def)
  ultimately have "reachable ?s6" by (meson reachable.step)
  then show ?thesis by (intro exI [of _ ?s6]) (simp add: set_pc_def atomic_decl_def)
qed

theorem mutex_counts_holders_witness:
  "\<exists>s. reachable s \<and> {0, 1} \<subseteq> critical s \<and> sp_mutex s = 1 - of_nat (card (critical s))"
  using two_holders_reachable mutex_counts_holders by (auto simp: critical_iff)

text \<open>\<open>mutex_spin_down\<close> does not exclude: interrupts are enabled again between reading the
  value and the decrement, so two tasks can both read 1 and both be past it.\<close>

theorem mutex_admits_two_holders:
  "\<exists>s. reachable s \<and> sp_pc s 0 = Critical \<and> sp_pc s 1 = Critical \<and> sp_mutex s = - 1"
  by (rule two_holders_reachable)

lemma mutex_down_up: "mutex_init p v = (0, m) \<Longrightarrow> \<exists>m'. mutex_spin_down m = Some m' \<and> mutex_up m' = m"
  by (auto simp: mutex_init_def mutex_spin_down_def mutex_up_def atomic_incl_def split: if_splits)

text \<open>The documented result of \<open>mutex_is_locked\<close> is inverted: a fresh mutex counts as locked.\<close>

lemma fresh_mutex_reported_locked: "p \<noteq> NULL \<Longrightarrow> mutex_is_locked (snd (mutex_init p v))"
  by (simp add: mutex_init_def mutex_is_locked_def)

lemma taken_mutex_reported_unlocked:
  "p \<noteq> NULL \<Longrightarrow> mutex_spin_down (snd (mutex_init p v)) = Some m \<Longrightarrow> \<not> mutex_is_locked m"
  by (auto simp: mutex_init_def mutex_is_locked_def mutex_spin_down_def)

end
