(* ===== verification/Vfs.thy ===== *)
theory Vfs
  imports Free_Ring Semaphore
begin

text \<open>
  The virtual file system: in-core inodes, their hash table and free list, block mapping
  (\<^verbatim>\<open>fs/vfs.c\<close>), path names (\<^verbatim>\<open>fs/namei.c\<close>) and the root mount (\<^verbatim>\<open>fs/mount.c\<close>), with the data
  of \<^verbatim>\<open>include/fs/vfs.h\<close>. The functions a file system driver supplies through \<^verbatim>\<open>sb_op\<close> and
  \<^verbatim>\<open>vfs_fs_type\<close>, and \<^verbatim>\<open>sleep_on\<close>, are arguments. A block read from a device is a list of
  bytes. \<open>panic\<close> is \<open>None\<close>.
\<close>

section \<open>Data\<close>

text \<open>Major and minor number of a \<^verbatim>\<open>dev_t\<close>; nothing reads its type.\<close>

type_synonym dev = "int \<times> int"

abbreviation (input) VFS_MAX_OPEN_FILES :: nat where "VFS_MAX_OPEN_FILES \<equiv> 4000"
abbreviation (input) INODE_HASH_TABLE_SIZE :: nat where "INODE_HASH_TABLE_SIZE \<equiv> 4000"
abbreviation (input) VFS_SUPPORTED_FS :: nat where "VFS_SUPPORTED_FS \<equiv> 1"
abbreviation (input) VFS_NAME_LEN :: nat where "VFS_NAME_LEN \<equiv> 512"
abbreviation (input) VFS_NDIR_BLOCKS :: nat where "VFS_NDIR_BLOCKS \<equiv> 12"
abbreviation (input) VFS_IND_BLOCK :: nat where "VFS_IND_BLOCK \<equiv> 12"
abbreviation (input) VFS_DIND_BLOCK :: nat where "VFS_DIND_BLOCK \<equiv> 13"
abbreviation (input) VFS_TIND_BLOCK :: nat where "VFS_TIND_BLOCK \<equiv> 14"
abbreviation (input) IFLAG_MOUNT_POINT :: u16 where "IFLAG_MOUNT_POINT \<equiv> 0x01"
abbreviation (input) IFLAG_LIST_HEAD :: u16 where "IFLAG_LIST_HEAD \<equiv> 0x02"
abbreviation (input) S_IFDIR :: u16 where "S_IFDIR \<equiv> 0x4000"
abbreviation (input) WAIT_INODE_BECOMES_UNLOCKED :: int where "WAIT_INODE_BECOMES_UNLOCKED \<equiv> 3"

record vfs_superblock =
  s_inodes_count :: u32
  s_blocks_count :: u32
  s_free_blocks_count :: u32
  s_free_inodes_count :: u32
  s_log_block_size :: u32
  s_mtime :: u32
  s_wtime :: u32
  s_mnt_count :: u16
  s_type :: ptr
  s_state :: u16
  s_errors :: u16
  s_lastcheck :: u32
  s_checkinterval :: u32
  s_uuid :: "byte list"
  s_volume_name :: "byte list"
  s_device :: dev
  s_flags :: u16
  s_sb_op :: ptr
  s_fs_driver :: ptr

record vfs_inode =
  i_mode :: u16
  i_uid :: u16
  i_size :: u32
  i_atime :: u32
  i_ctime :: u32
  i_mtime :: u32
  i_gid :: u16
  i_links_count :: u16
  i_blocks :: u32
  i_flags :: u32
  i_block :: "u32 list"
  vi_lock :: u32
  vi_device :: dev
  vi_flags :: u16
  vi_reference :: int
  vi_number :: u32
  vi_prev :: ptr
  vi_next :: ptr
  vi_free_next :: ptr
  vi_free_prev :: ptr
  vi_sb :: ptr
  vi_fs_driver :: ptr

type_synonym iheap = "ptr \<rightharpoonup> vfs_inode"

record vfs_mount_table =
  mt_device :: dev
  mt_root_inode :: ptr
  mt_mnt_on_inode :: ptr
  mt_fs :: ptr
  mt_root_name :: string
  mt_mnt_on_name :: string

text \<open>The globals of \<^verbatim>\<open>vfs.c\<close>, and the root and current directory of the running task.\<close>

record vfs =
  vf_inodes :: iheap
  vf_htable :: "nat \<Rightarrow> ptr"
  vf_free_head :: ptr
  vf_sb :: "ptr \<rightharpoonup> vfs_superblock"
  vf_filesystems :: "ptr list"
  vf_reg_types :: nat
  vf_mount :: "vfs_mount_table option"
  vf_i_root :: ptr
  vf_i_cdir :: ptr

text \<open>The operations of a file system driver that the VFS calls.\<close>

record vfs_sb_ops =
  get_inode :: "ptr \<Rightarrow> vfs \<Rightarrow> (int \<times> vfs) option"
  get_fs_block :: "ptr \<Rightarrow> u32 \<Rightarrow> vfs \<Rightarrow> byte list option"

record vfs_fs_type =
  check_fs_type :: "dev \<Rightarrow> vfs \<Rightarrow> bool"
  get_sb :: "dev \<Rightarrow> vfs \<Rightarrow> vfs option"

definition DEV_CMP :: "dev \<Rightarrow> dev \<Rightarrow> bool" where
  "DEV_CMP d1 d2 = (fst d1 = fst d2 \<and> snd d1 = snd d2)"

section \<open>Inodes\<close>

fun ipow_loop :: "u32 \<Rightarrow> u32 \<Rightarrow> nat \<Rightarrow> u32" where
  "ipow_loop res x 0 = res"
| "ipow_loop res x (Suc n) = ipow_loop (res * x) x n"

definition ipow :: "u32 \<Rightarrow> u32 \<Rightarrow> u32" where
  "ipow x y = (if y = 0 then 1 else ipow_loop x x (unat y - 1))"

definition set_ifree_next :: "iheap \<Rightarrow> ptr \<Rightarrow> ptr \<Rightarrow> iheap option" where
  "set_ifree_next h a v = upd_at h a (\<lambda>i. i\<lparr>vi_free_next := v\<rparr>)"

definition set_ifree_prev :: "iheap \<Rightarrow> ptr \<Rightarrow> ptr \<Rightarrow> iheap option" where
  "set_ifree_prev h a v = upd_at h a (\<lambda>i. i\<lparr>vi_free_prev := v\<rparr>)"

text \<open>The address of \<^verbatim>\<open>free_inodes[i]\<close>; a \<^verbatim>\<open>vfs_inode\<close> takes 144 bytes.\<close>

definition inode_addr :: "ptr \<Rightarrow> nat \<Rightarrow> ptr" where
  "inode_addr base i = base + 144 * i"

fun link_inodes :: "iheap \<Rightarrow> ptr \<Rightarrow> ptr \<Rightarrow> ptr \<Rightarrow> nat \<Rightarrow> nat \<Rightarrow> iheap option" where
  "link_inodes h base head prev i 0 = Some h"
| "link_inodes h base head prev i (Suc k) = do {
     let inode = inode_addr base i;
     h1 \<leftarrow> set_ifree_prev h inode prev;
     h2 \<leftarrow> set_ifree_next h1 inode head;
     h3 \<leftarrow> set_ifree_prev h2 head inode;
     h4 \<leftarrow> set_ifree_next h3 prev inode;
     link_inodes h4 base head inode (i + 1) k
   }"

definition register_fs_type :: "vfs \<Rightarrow> ptr \<Rightarrow> vfs" where
  "register_fs_type st t =
     (if vf_reg_types st \<ge> VFS_SUPPORTED_FS then st
      else st\<lparr>vf_filesystems := (vf_filesystems st)[vf_reg_types st := t], vf_reg_types := vf_reg_types st + 1\<rparr>)"

text \<open>
  \<open>inodes\<close>, \<open>htable\<close> and \<open>files\<close> are the results of the three \<^verbatim>\<open>kmalloc\<close> calls, \<open>raw\<close> the contents
  of the memory the inodes get; \<open>ext2_fs_t\<close> is the type that \<open>register_ext2\<close> registers.
\<close>

definition register_all_fs_types :: "vfs \<Rightarrow> ptr \<Rightarrow> ptr \<Rightarrow> ptr \<Rightarrow> (nat \<Rightarrow> vfs_inode) \<Rightarrow> ptr \<Rightarrow> vfs option" where
  "register_all_fs_types st inodes htable files raw ext2_fs_t =
     (if inodes = NULL \<or> htable = NULL then None
      else do {
        let h0 = (\<lambda>a. if \<exists>i < VFS_MAX_OPEN_FILES + 1. a = inode_addr inodes i
                      then Some (raw ((a - inodes) div 144)) else vf_inodes st a);
        let head = inode_addr inodes 0;
        h1 \<leftarrow> set_ifree_next h0 head head;
        h2 \<leftarrow> set_ifree_prev h1 head head;
        h3 \<leftarrow> link_inodes h2 inodes head head 1 (VFS_MAX_OPEN_FILES - 1);
        h4 \<leftarrow> upd_at h3 head (\<lambda>i. i\<lparr>vi_flags := IFLAG_LIST_HEAD\<rparr>);
        if files = NULL then None
        else Some (register_fs_type
          (st\<lparr>vf_inodes := h4, vf_htable := (\<lambda>_. NULL), vf_free_head := head,
              vf_filesystems := replicate VFS_SUPPORTED_FS NULL\<rparr>) ext2_fs_t)
      })"

definition htable_pos :: "u32 \<Rightarrow> nat" where
  "htable_pos number = unat number mod INODE_HASH_TABLE_SIZE"

partial_function (option) ichain_find :: "iheap \<Rightarrow> dev \<Rightarrow> ptr \<Rightarrow> ptr option" where
  "ichain_find h device tmp =
     (if tmp \<noteq> NULL then do {
        i \<leftarrow> h tmp;
        if DEV_CMP (vi_device i) device then Some tmp else ichain_find h device (vi_next i)
      } else Some tmp)"

definition search_inode :: "vfs \<Rightarrow> dev \<Rightarrow> u32 \<Rightarrow> ptr option" where
  "search_inode st device number =
     (let head = vf_htable st (htable_pos number) in
      if head = NULL then Some NULL else ichain_find (vf_inodes st) device head)"

partial_function (option) ifree_find :: "iheap \<Rightarrow> dev \<Rightarrow> ptr \<Rightarrow> ptr \<Rightarrow> ptr option" where
  "ifree_find h device head tmp =
     (if tmp \<noteq> head then do {
        i \<leftarrow> h tmp;
        if DEV_CMP (vi_device i) device then Some tmp else ifree_find h device head (vi_free_next i)
      } else Some tmp)"

definition inode_remove_from_freelist :: "vfs \<Rightarrow> ptr \<Rightarrow> vfs option" where
  "inode_remove_from_freelist st inode = do {
     let head = vf_free_head st;
     let h = vf_inodes st;
     hd_i \<leftarrow> h head;
     i \<leftarrow> h inode;
     tmp \<leftarrow> ifree_find h (vi_device i) head (vi_free_next hd_i);
     if tmp = head then Some st
     else do {
       t \<leftarrow> h tmp;
       h1 \<leftarrow> upd_at h (vi_free_next t) (\<lambda>x. x\<lparr>vi_prev := vi_free_prev t\<rparr>);
       h2 \<leftarrow> upd_at h1 (vi_free_prev t) (\<lambda>x. x\<lparr>vi_next := vi_free_next t\<rparr>);
       Some (st\<lparr>vf_inodes := h2\<rparr>)
     }
   }"

definition get_free_inode :: "(ptr \<Rightarrow> vfs_sb_ops) \<Rightarrow> vfs \<Rightarrow> ptr \<Rightarrow> u32 \<Rightarrow> (ptr \<times> vfs) option" where
  "get_free_inode ops st sb number = do {
     let head = vf_free_head st;
     let h = vf_inodes st;
     hd_i \<leftarrow> h head;
     s \<leftarrow> vf_sb st sb;
     if vi_free_next hd_i = head then None
     else do {
       t \<leftarrow> ifree_find h (s_device s) head (vi_free_next hd_i);
       let tmp = (if t = head then vi_free_next hd_i else t);
       ti \<leftarrow> h tmp;
       h1 \<leftarrow> set_ifree_next h (vi_free_prev ti) (vi_free_next ti);
       h2 \<leftarrow> set_ifree_prev h1 (vi_free_next ti) (vi_free_prev ti);
       h3 \<leftarrow> upd_at h2 tmp (\<lambda>i. i\<lparr>vi_device := s_device s, vi_sb := sb, vi_number := number, vi_reference := 1\<rparr>);
       (r, st') \<leftarrow> get_inode (ops (s_sb_op s)) tmp (st\<lparr>vf_inodes := h3\<rparr>);
       Some (tmp, st')
     }
   }"

text \<open>The loop of \<open>add_inode_htable\<close> that unlinks inodes of the same device.\<close>

partial_function (option) iunchain :: "iheap \<Rightarrow> dev \<Rightarrow> ptr \<Rightarrow> iheap option" where
  "iunchain h device tmp = do {
     t \<leftarrow> h tmp;
     if vi_next t \<noteq> NULL then do {
       h' \<leftarrow> (if DEV_CMP (vi_device t) device then do {
                h1 \<leftarrow> upd_at h (vi_next t) (\<lambda>x. x\<lparr>vi_prev := vi_prev t\<rparr>);
                upd_at h1 (vi_prev t) (\<lambda>x. x\<lparr>vi_next := vi_next t\<rparr>)
              } else Some h);
       t' \<leftarrow> h' tmp;
       iunchain h' device (vi_next t')
     } else Some h
   }"

partial_function (option) ichain_last :: "iheap \<Rightarrow> ptr \<Rightarrow> ptr option" where
  "ichain_last h tmp = do {
     t \<leftarrow> h tmp;
     if vi_next t \<noteq> NULL then ichain_last h (vi_next t) else Some tmp
   }"

definition add_inode_htable :: "vfs \<Rightarrow> ptr \<Rightarrow> vfs option" where
  "add_inode_htable st0 inode = do {
     i \<leftarrow> vf_inodes st0 inode;
     let pos = htable_pos (vi_number i);
     let head0 = vf_htable st0 pos;
     st \<leftarrow> (if head0 = NULL then Some st0
            else do {
              hi \<leftarrow> vf_inodes st0 head0;
              if vi_next hi = NULL then Some (st0\<lparr>vf_htable := (vf_htable st0)(pos := NULL)\<rparr>)
              else do {
                h \<leftarrow> iunchain (vf_inodes st0) (vi_device i) head0;
                Some (st0\<lparr>vf_inodes := h\<rparr>)
              }
            });
     let head = vf_htable st pos;
     let h = vf_inodes st;
     if head = NULL then do {
       h1 \<leftarrow> upd_at h inode (\<lambda>i. i\<lparr>vi_next := NULL, vi_prev := NULL\<rparr>);
       Some (st\<lparr>vf_inodes := h1, vf_htable := (vf_htable st)(pos := inode)\<rparr>)
     } else do {
       hi \<leftarrow> h head;
       if vi_next hi = NULL then do {
         h1 \<leftarrow> upd_at h head (\<lambda>i. i\<lparr>vi_next := inode, vi_prev := NULL\<rparr>);
         h2 \<leftarrow> upd_at h1 inode (\<lambda>i. i\<lparr>vi_next := NULL, vi_prev := head\<rparr>);
         Some (st\<lparr>vf_inodes := h2\<rparr>)
       } else do {
         tmp \<leftarrow> ichain_last h head;
         h1 \<leftarrow> upd_at h inode (\<lambda>i. i\<lparr>vi_prev := tmp, vi_next := NULL\<rparr>);
         h2 \<leftarrow> upd_at h1 tmp (\<lambda>i. i\<lparr>vi_next := inode\<rparr>);
         Some (st\<lparr>vf_inodes := h2\<rparr>)
       }
     }
   }"

partial_function (option) vfs_iget ::
  "(ptr \<Rightarrow> vfs_sb_ops) \<Rightarrow> (int \<Rightarrow> vfs \<Rightarrow> vfs option) \<Rightarrow> vfs \<Rightarrow> ptr \<Rightarrow> u32 \<Rightarrow> (ptr \<times> vfs) option" where
  "vfs_iget ops sleep_on st sb number = do {
     s \<leftarrow> vf_sb st sb;
     inode \<leftarrow> search_inode st (s_device s) number;
     if inode \<noteq> NULL then do {
       i \<leftarrow> vf_inodes st inode;
       if mutex_is_locked (vi_lock i) then do {
         st' \<leftarrow> sleep_on WAIT_INODE_BECOMES_UNLOCKED st;
         vfs_iget ops sleep_on st' sb number
       } else do {
         st' \<leftarrow> inode_remove_from_freelist st inode;
         Some (inode, st')
       }
     } else do {
       r \<leftarrow> get_free_inode ops st sb number;
       if fst r = NULL then None
       else do {
         st' \<leftarrow> add_inode_htable (snd r) (fst r);
         Some (fst r, st')
       }
     }
   }"

section \<open>File offsets\<close>

record vfs_bmap_t =
  blk_number :: u32
  blk_offset :: u32
  blk_breada :: u32

text \<open>Little-endian fields of a block; \<open>None\<close> outside it.\<close>

definition blk8 :: "byte list \<Rightarrow> nat \<Rightarrow> byte option" where
  "blk8 bs p = (if p < length bs then Some (bs ! p) else None)"

definition blk16 :: "byte list \<Rightarrow> nat \<Rightarrow> u16 option" where
  "blk16 bs p = (if p + 2 \<le> length bs then Some (bytes16 (bs ! p) (bs ! (p + 1))) else None)"

definition blk32 :: "byte list \<Rightarrow> nat \<Rightarrow> u32 option" where
  "blk32 bs p = (if p + 4 \<le> length bs
     then Some (bytes32 (bs ! p) (bs ! (p + 1)) (bs ! (p + 2)) (bs ! (p + 3))) else None)"

text \<open>The walk through \<open>n\<close> more levels of indirect blocks.\<close>

fun bmap_walk :: "(u32 \<Rightarrow> byte list option) \<Rightarrow> u32 \<Rightarrow> u32 \<Rightarrow> nat \<Rightarrow> u32 option" where
  "bmap_walk read index number 0 = Some number"
| "bmap_walk read index number (Suc n) = do {
     raw_blk \<leftarrow> read number;
     number' \<leftarrow> blk32 raw_blk (4 * unat index);
     bmap_walk read index number' n
   }"

definition vfs_bmap :: "(ptr \<Rightarrow> vfs_sb_ops) \<Rightarrow> vfs \<Rightarrow> ptr \<Rightarrow> u32 \<Rightarrow> vfs_bmap_t option" where
  "vfs_bmap ops st inode offset = do {
     i \<leftarrow> vf_inodes st inode;
     s \<leftarrow> vf_sb st (vi_sb i);
     let blk_size = s_log_block_size s;
     if blk_size = 0 then None
     else do {
       let b_ind = offset div blk_size;
       let bmap = \<lparr>blk_number = 0, blk_offset = offset - b_ind * blk_size, blk_breada = 0\<rparr>;
       if b_ind < of_nat VFS_NDIR_BLOCKS then Some (bmap\<lparr>blk_number := i_block i ! unat b_ind\<rparr>)
       else do {
         let n_entries = blk_size div 4;
         let (ilevel, slot) =
           (if b_ind < of_nat VFS_NDIR_BLOCKS + n_entries then (1 :: u32, VFS_IND_BLOCK)
            else if b_ind < of_nat VFS_NDIR_BLOCKS + n_entries + ipow n_entries 2 then (2, VFS_DIND_BLOCK)
            else (3, VFS_TIND_BLOCK));
         let index = (offset - (of_nat VFS_NDIR_BLOCKS + ipow n_entries (ilevel - 1) * blk_size))
                       div (n_entries * blk_size);
         number \<leftarrow> bmap_walk (\<lambda>n. get_fs_block (ops (s_sb_op s)) (vi_sb i) n st) index
                     (i_block i ! slot) (unat ilevel);
         Some (bmap\<lparr>blk_number := number\<rparr>)
       }
     }
   }"

section \<open>Path names\<close>

text \<open>\<open>take_bytes\<close> is the \<^verbatim>\<open>memcpy\<close> of a name out of the block.\<close>

definition take_bytes :: "byte list \<Rightarrow> nat \<Rightarrow> nat \<Rightarrow> byte list option" where
  "take_bytes bs p n = (if p + n \<le> length bs then Some (take n (drop p bs)) else None)"

definition c_string :: "byte list \<Rightarrow> byte list" where
  "c_string bs = takeWhile (\<lambda>c. c \<noteq> 0) bs"

text \<open>The inner loop of \<open>_vfs_find_component\<close>: the inode number of the first entry of the block
  with the name, if any.\<close>

partial_function (option) scan_dir :: "byte list \<Rightarrow> nat \<Rightarrow> byte list \<Rightarrow> nat \<Rightarrow> nat \<Rightarrow> u32 option option" where
  "scan_dir block blk_size component oldpos bpos =
     (if bpos < blk_size then do {
        inode \<leftarrow> blk32 block bpos;
        if inode = 0 then Some None
        else do {
          rec_len \<leftarrow> blk16 block (bpos + 4);
          name_len \<leftarrow> blk8 block (bpos + 6);
          name \<leftarrow> take_bytes block (bpos + 8) (unat name_len);
          let pos' = oldpos + unat rec_len;
          if c_string name = c_string component then Some (Some inode)
          else scan_dir block blk_size component pos' pos'
        }
      } else Some None)"

partial_function (option) dir_loop ::
  "(ptr \<Rightarrow> vfs_sb_ops) \<Rightarrow> (int \<Rightarrow> vfs \<Rightarrow> vfs option) \<Rightarrow> ptr \<Rightarrow> ptr \<Rightarrow> u32 \<Rightarrow> u32 \<Rightarrow> byte list
    \<Rightarrow> u32 \<Rightarrow> ptr \<Rightarrow> vfs \<Rightarrow> (ptr \<times> vfs) option" where
  "dir_loop ops sleep_on inode sb dirsize blk_size component pos newinode st =
     (if pos < dirsize then do {
        bmap \<leftarrow> vfs_bmap ops st inode pos;
        s \<leftarrow> vf_sb st sb;
        case get_fs_block (ops (s_sb_op s)) sb (blk_number bmap) st of
          None \<Rightarrow> Some (newinode, st)
        | Some block \<Rightarrow> do {
            found \<leftarrow> scan_dir block (unat blk_size) component (unat (blk_offset bmap)) (unat (blk_offset bmap));
            case found of
              None \<Rightarrow> dir_loop ops sleep_on inode sb dirsize blk_size component (pos + blk_size) newinode st
            | Some number \<Rightarrow> do {
                r \<leftarrow> vfs_iget ops sleep_on st sb number;
                dir_loop ops sleep_on inode sb dirsize blk_size component (pos + blk_size) (fst r) (snd r)
              }
          }
      } else Some (newinode, st))"

definition vfs_find_component ::
  "(ptr \<Rightarrow> vfs_sb_ops) \<Rightarrow> (int \<Rightarrow> vfs \<Rightarrow> vfs option) \<Rightarrow> vfs \<Rightarrow> ptr \<Rightarrow> byte list \<Rightarrow> (ptr \<times> vfs) option" where
  "vfs_find_component ops sleep_on st inode component = do {
     i \<leftarrow> vf_inodes st inode;
     if i_mode i AND S_IFDIR = 0 then Some (NULL, st)
     else do {
       s \<leftarrow> vf_sb st (vi_sb i);
       dir_loop ops sleep_on inode (vi_sb i) (i_size i) (s_log_block_size s) component 0 NULL st
     }
   }"

text \<open>\<^verbatim>\<open>pathname[i]\<close>, the terminator included.\<close>

definition path_at :: "byte list \<Rightarrow> nat \<Rightarrow> byte" where
  "path_at pathname i = (if i < length pathname then pathname ! i else 0)"

abbreviation (input) SLASH :: byte where "SLASH \<equiv> 47"
abbreviation (input) DOTDOT :: "byte list" where "DOTDOT \<equiv> [46, 46]"

text \<open>The loop of \<open>vfs_namei\<close>. A component that does not fit \<^verbatim>\<open>comp\<close> overruns the stack: \<open>None\<close>.\<close>

partial_function (option) namei_loop ::
  "(ptr \<Rightarrow> vfs_sb_ops) \<Rightarrow> (int \<Rightarrow> vfs \<Rightarrow> vfs option) \<Rightarrow> byte list \<Rightarrow> bool \<Rightarrow> nat \<Rightarrow> nat \<Rightarrow> ptr \<Rightarrow> vfs
    \<Rightarrow> (ptr \<times> vfs) option" where
  "namei_loop ops sleep_on pathname isroot start i inode st =
     (if i \<le> length pathname then
        if path_at pathname i = SLASH \<or> path_at pathname i = 0 then
          let clen = i - start; comp = take clen (drop start pathname) in
          if clen \<ge> VFS_NAME_LEN then None
          else if comp = [] \<or> comp = DOTDOT \<and> isroot
          then namei_loop ops sleep_on pathname isroot (i + 1) (i + 1) inode st
          else do {
            r \<leftarrow> vfs_find_component ops sleep_on st inode comp;
            if fst r = NULL then Some r
            else namei_loop ops sleep_on pathname isroot (i + 1) (i + 1) (fst r) (snd r)
          }
        else namei_loop ops sleep_on pathname isroot start (i + 1) inode st
      else Some (inode, st))"

definition vfs_namei ::
  "(ptr \<Rightarrow> vfs_sb_ops) \<Rightarrow> (int \<Rightarrow> vfs \<Rightarrow> vfs option) \<Rightarrow> vfs \<Rightarrow> byte list \<Rightarrow> (ptr \<times> vfs) option" where
  "vfs_namei ops sleep_on st pathname =
     (let isroot = (path_at pathname 0 = SLASH);
          inode = (if isroot then vf_i_root st else vf_i_cdir st)
      in namei_loop ops sleep_on pathname isroot 1 1 inode st)"

section \<open>Mounting the root\<close>

text \<open>\<open>root_sb\<close> is the address of \<^verbatim>\<open>mount_table[0].sb\<close>; \<open>types\<close> gives the registered file systems.\<close>

definition vfs_mount_root ::
  "(ptr \<Rightarrow> vfs_sb_ops) \<Rightarrow> (ptr \<Rightarrow> vfs_fs_type) \<Rightarrow> (int \<Rightarrow> vfs \<Rightarrow> vfs option) \<Rightarrow> ptr \<Rightarrow> vfs \<Rightarrow> dev
    \<Rightarrow> (int \<times> vfs) option" where
  "vfs_mount_root ops types sleep_on root_sb st device =
     (case find (\<lambda>fs. fs \<noteq> NULL \<and> check_fs_type (types fs) device st) (vf_filesystems st) of
        None \<Rightarrow> None
      | Some fs \<Rightarrow> do {
          st1 \<leftarrow> get_sb (types fs) device st;
          (root, st2) \<leftarrow> vfs_iget ops sleep_on st1 root_sb 0;
          i \<leftarrow> vf_inodes st2 root;
          if i_mode i AND S_IFDIR = 0 then Some (0, st2)
          else do {
            h \<leftarrow> upd_at (vf_inodes st2) root (\<lambda>i. i\<lparr>vi_flags := vi_flags i OR IFLAG_MOUNT_POINT\<rparr>);
            Some (1, st2\<lparr>vf_inodes := h,
              vf_mount := Some \<lparr>mt_device = device, mt_root_inode = root, mt_mnt_on_inode = root, mt_fs = fs,
                                mt_root_name = ''rootfs'', mt_mnt_on_name = ''/''\<rparr>,
              vf_i_root := root, vf_i_cdir := root\<rparr>)
          }
        })"

section \<open>The free list of inodes\<close>

definition ifree_list :: "iheap \<Rightarrow> ptr \<Rightarrow> ptr list \<Rightarrow> bool" where
  "ifree_list h head ns \<longleftrightarrow> ring (field_at vi_free_next h) (field_at vi_free_prev h) head ns
     \<and> insert head (set ns) \<subseteq> dom h"

definition ipayload :: "iheap \<Rightarrow> iheap" where
  "ipayload h = (\<lambda>a. map_option (\<lambda>i. i\<lparr>vi_free_prev := NULL, vi_free_next := NULL\<rparr>) (h a))"

lemma set_ifree_next_laws:
  assumes "a \<in> dom h"
  shows "\<exists>h'. set_ifree_next h a v = Some h'
    \<and> field_at vi_free_next h' = (field_at vi_free_next h)(a := v)
    \<and> field_at vi_free_prev h' = field_at vi_free_prev h \<and> dom h' = dom h \<and> ipayload h' = ipayload h"
  using assms by (auto simp: set_ifree_next_def ipayload_def field_at_same intro!: ext)

lemma set_ifree_prev_laws:
  assumes "a \<in> dom h"
  shows "\<exists>h'. set_ifree_prev h a v = Some h' \<and> field_at vi_free_next h' = field_at vi_free_next h
    \<and> field_at vi_free_prev h' = (field_at vi_free_prev h)(a := v)
    \<and> dom h' = dom h \<and> ipayload h' = ipayload h"
  using assms by (auto simp: set_ifree_prev_def ipayload_def field_at_same intro!: ext)

interpretation ifl: ring_links "field_at vi_free_next" "field_at vi_free_prev"
  set_ifree_next set_ifree_prev dom ipayload
  rewrites ifl_linked: "ring_links.linked (field_at vi_free_next) (field_at vi_free_prev) dom = ifree_list"
proof -
  show loc: "ring_links (field_at vi_free_next) (field_at vi_free_prev) set_ifree_next set_ifree_prev dom ipayload"
    by (unfold_locales; rule set_ifree_next_laws set_ifree_prev_laws)
  show "ring_links.linked (field_at vi_free_next) (field_at vi_free_prev) dom = ifree_list"
    by (intro ext) (simp add: ring_links.linked_def [OF loc] ifree_list_def)
qed

lemma inode_addr_inj [simp]: "inode_addr b i = inode_addr b j \<longleftrightarrow> i = j"
  by (simp add: inode_addr_def)

lemma link_inodes_ok:
  "ifree_list h head (map (inode_addr b) [1..<i]) \<Longrightarrow> field_at vi_free_prev h head = prev
    \<Longrightarrow> head = inode_addr b 0 \<Longrightarrow> 1 \<le> i \<Longrightarrow> (\<forall>j < i + k. inode_addr b j \<in> dom h)
    \<Longrightarrow> \<exists>h'. link_inodes h b head prev i k = Some h' \<and> ifree_list h' head (map (inode_addr b) [1..<i + k])"
proof (induction k arbitrary: h prev i)
  case 0
  then show ?case by simp
next
  case (Suc k)
  let ?n = "inode_addr b i"
  have n: "?n \<notin> set (map (inode_addr b) [1..<i])" "?n \<noteq> head" "?n \<in> dom h"
    using Suc.prems(3-5) by auto
  from ifl.push_back_links [OF Suc.prems(1) n] Suc.prems(2) obtain h1 h2 h3 h4 where
    s: "set_ifree_prev h ?n prev = Some h1" "set_ifree_next h1 ?n head = Some h2"
       "set_ifree_prev h2 head ?n = Some h3" "set_ifree_next h3 prev ?n = Some h4"
       "ifree_list h4 head (map (inode_addr b) [1..<i] @ [?n])" "dom h4 = dom h"
    by auto
  have f: "ifree_list h4 head (map (inode_addr b) [1..<i + 1])" using s(5) Suc.prems(4) by simp
  have l: "field_at vi_free_prev h4 head = ?n"
    using s(5) by (simp add: ifree_list_def ring_def path_append)
  from Suc.IH [OF f l Suc.prems(3)] Suc.prems(4,5) s(6) obtain h' where
    "link_inodes h4 b head ?n (i + 1) k = Some h'" "ifree_list h' head (map (inode_addr b) [1..<i + 1 + k])"
    by auto
  then show ?case using s by (simp del: upt_Suc)
qed

text \<open>Start-up leaves the inodes 1 to 3999 of the array on the free list (the last is not linked).\<close>

lemma register_all_fs_types_free_list:
  assumes "inodes \<noteq> NULL" and "htable \<noteq> NULL" and "files \<noteq> NULL"
  shows "\<exists>st'. register_all_fs_types st inodes htable files raw fs = Some st'
    \<and> vf_free_head st' = inode_addr inodes 0
    \<and> ifree_list (vf_inodes st') (vf_free_head st') (map (inode_addr inodes) [1..<4000])"
proof -
  let ?head = "inode_addr inodes 0"
  define h0 :: iheap where "h0 = (\<lambda>a. if \<exists>i < 4000 + 1. a = inode_addr inodes i
      then Some (raw ((a - inodes) div 144)) else vf_inodes st a)"
  have d0: "\<forall>j < 4001. inode_addr inodes j \<in> dom h0" by (auto simp: h0_def dom_def)
  then obtain i0 where i0: "h0 ?head = Some i0" by force
  let ?h2 = "h0(?head \<mapsto> i0\<lparr>vi_free_next := ?head, vi_free_prev := ?head\<rparr>)"
  have dm: "\<forall>j < 1 + 3999. inode_addr inodes j \<in> dom ?h2" using d0 by auto
  have f: "ifree_list ?h2 ?head (map (inode_addr inodes) [1..<1])" by (simp add: ifree_list_def ring_def)
  obtain h3 where h3: "link_inodes ?h2 inodes ?head ?head 1 3999 = Some h3"
    "ifree_list h3 ?head (map (inode_addr inodes) [1..<4000])"
    using link_inodes_ok [OF f, of ?head 3999] dm by (auto simp del: upt_Suc)
  then obtain i3 where i3: "h3 ?head = Some i3" by (auto simp: ifree_list_def)
  have "ifree_list (h3(?head \<mapsto> i3\<lparr>vi_flags := 2\<rparr>)) ?head (map (inode_addr inodes) [1..<4000])"
    using h3(2) i3 by (auto simp: ifree_list_def field_at_same simp del: upt_Suc)
  moreover have "register_all_fs_types st inodes htable files raw fs = Some (register_fs_type
      (st\<lparr>vf_inodes := h3(?head \<mapsto> i3\<lparr>vi_flags := 2\<rparr>), vf_htable := (\<lambda>_. NULL), vf_free_head := ?head,
          vf_filesystems := replicate 1 NULL\<rparr>) fs)"
    unfolding register_all_fs_types_def Let_def h0_def [symmetric]
    using assms i0 h3(1) i3 by (simp add: set_ifree_next_def set_ifree_prev_def del: link_inodes.simps)
  ultimately show ?thesis by (simp add: register_fs_type_def del: upt_Suc)
qed

section \<open>Directory blocks\<close>

text \<open>
  An entry with its inode number, name and padding, as it is stored on disk: the record length
  covers the header, the name and the padding.
\<close>

record dir_entry =
  de_inode :: u32
  de_type :: byte
  de_name :: "byte list"
  de_pad :: "byte list"

definition rec_len :: "dir_entry \<Rightarrow> nat" where
  "rec_len e = 8 + length (de_name e) + length (de_pad e)"

definition encode_entry :: "dir_entry \<Rightarrow> byte list" where
  "encode_entry e = byte_list32 (de_inode e) @ byte_list16 (of_nat (rec_len e))
     @ [of_nat (length (de_name e)), de_type e] @ de_name e @ de_pad e"

definition entry_ok :: "dir_entry \<Rightarrow> bool" where
  "entry_ok e \<longleftrightarrow> de_inode e \<noteq> 0 \<and> length (de_name e) < 256 \<and> rec_len e < 65536 \<and> 0 \<notin> set (de_name e)"

lemma length_encode_entry [simp]: "length (encode_entry e) = rec_len e"
  by (simp add: encode_entry_def rec_len_def)

lemma blk32_at: "blk32 (pre @ byte_list32 w @ post) (length pre) = Some w"
  by (simp add: blk32_def byte_list32_def nth_append bytes32_split)

lemma blk16_at: "length pre = p \<Longrightarrow> blk16 (pre @ byte_list16 w @ post) p = Some w"
  by (auto simp: blk16_def byte_list16_def nth_append bytes16_split)

lemma scan_dir_end [simp]: "\<not> p < n \<Longrightarrow> scan_dir bs n c o' p = Some None"
  by (subst scan_dir.simps) simp

lemma scan_dir_entry:
  assumes "entry_ok e" and "p = length pre" and "bs = pre @ encode_entry e @ post" and "n = length bs"
  shows "scan_dir bs n c p p = (if de_name e = c_string c then Some (Some (de_inode e))
    else scan_dir bs n c (p + rec_len e) (p + rec_len e))"
proof -
  let ?l = "length (de_name e)"
  have w: "unat (of_nat (rec_len e) :: u16) = rec_len e" "unat (of_nat ?l :: byte) = ?l"
    using assms(1) by (auto simp: entry_ok_def unat_of_nat take_bit_nat_eq_self)
  have lt: "p < n" using assms(2-4) by (simp add: rec_len_def)
  have i: "blk32 bs p = Some (de_inode e)"
    using blk32_at [of pre "de_inode e"] assms(2,3) by (simp add: encode_entry_def)
  have r: "blk16 bs (p + 4) = Some (of_nat (rec_len e))"
    using blk16_at [of "pre @ byte_list32 (de_inode e)" "p + 4"] assms(2,3) by (simp add: encode_entry_def)
  have l: "blk8 bs (p + 6) = Some (of_nat ?l)"
    using assms(2,3) by (simp add: blk8_def encode_entry_def nth_append byte_list32_def byte_list16_def)
  have nm: "take_bytes bs (p + 8) ?l = Some (de_name e)"
    using assms(2,3) by (simp add: take_bytes_def encode_entry_def byte_list32_def byte_list16_def rec_len_def)
  have "c_string (de_name e) = de_name e"
    using assms(1) by (auto simp: c_string_def entry_ok_def takeWhile_eq_all_conv)
  then show ?thesis
    using lt i r l nm w assms(1) by (subst scan_dir.simps) (simp add: Let_def entry_ok_def)
qed

lemma scan_dir_ok:
  "\<forall>e \<in> set es. entry_ok e \<Longrightarrow> bs = pre @ concat (map encode_entry es) \<Longrightarrow> p = length pre \<Longrightarrow> n = length bs
    \<Longrightarrow> scan_dir bs n c p p = Some (map_option de_inode (find (\<lambda>e. de_name e = c_string c) es))"
proof (induction es arbitrary: pre p)
  case Nil
  then show ?case by simp
next
  case (Cons e es)
  have "scan_dir bs n c p p = (if de_name e = c_string c then Some (Some (de_inode e))
      else scan_dir bs n c (p + rec_len e) (p + rec_len e))"
    using Cons.prems by (intro scan_dir_entry) auto
  then show ?case
    using Cons.IH [of "pre @ encode_entry e" "p + rec_len e"] Cons.prems by auto
qed

text \<open>C31: the directory scan of \<open>_vfs_find_component\<close> inverts the on-disk encoding: on a block made of
  valid entries it returns the inode number of the first entry with the name, or reports that
  there is none.\<close>

theorem scan_dir_finds_first_entry:
  assumes "\<forall>e \<in> set es. entry_ok e" and "block = concat (map encode_entry es)" and "0 \<notin> set component"
  shows "scan_dir block (length block) component 0 0
    = Some (map_option de_inode (find (\<lambda>e. de_name e = component) es))"
proof -
  have "c_string component = component" using assms(3) by (auto simp: c_string_def takeWhile_eq_all_conv)
  then show ?thesis using scan_dir_ok [OF assms(1), of block "[]" 0 "length block" component] assms(2) by simp
qed

abbreviation (input) demo_entries :: "dir_entry list" where
  "demo_entries \<equiv> [\<lparr>de_inode = 2, de_type = 2, de_name = [46], de_pad = [0, 0, 0]\<rparr>,
     \<lparr>de_inode = 11, de_type = 1, de_name = [97, 98], de_pad = [0, 0]\<rparr>]"

theorem scan_dir_finds_first_entry_witness:
  "scan_dir (concat (map encode_entry demo_entries)) (length (concat (map encode_entry demo_entries))) [97, 98] 0 0
    = Some (Some 11)"
proof -
  have ok: "\<forall>e \<in> set demo_entries. entry_ok e" by (simp add: entry_ok_def rec_len_def)
  from scan_dir_finds_first_entry [OF ok refl, of "[97, 98]"] show ?thesis by simp
qed

section \<open>Path resolution\<close>

text \<open>The components of a path, in order: \<open>cur\<close> is the one being collected.\<close>

fun components :: "byte list \<Rightarrow> byte list \<Rightarrow> byte list list" where
  "components cur [] = [cur]"
| "components cur (c # cs) = (if c = SLASH then cur # components [] cs else components (cur @ [c]) cs)"

text \<open>Looking components up one after the other, from a directory on.\<close>

fun walk :: "(ptr \<Rightarrow> vfs_sb_ops) \<Rightarrow> (int \<Rightarrow> vfs \<Rightarrow> vfs option) \<Rightarrow> bool \<Rightarrow> byte list list \<Rightarrow> ptr \<Rightarrow> vfs
    \<Rightarrow> (ptr \<times> vfs) option" where
  "walk ops slp isroot [] inode st = Some (inode, st)"
| "walk ops slp isroot (c # cs) inode st =
     (if c = [] \<or> c = DOTDOT \<and> isroot then walk ops slp isroot cs inode st
      else do {
        r \<leftarrow> vfs_find_component ops slp st inode c;
        if fst r = NULL then Some r else walk ops slp isroot cs (fst r) (snd r)
      })"

lemma namei_loop_stop [simp]:
  "length pn < i \<Longrightarrow> namei_loop ops slp pn isroot start i inode st = Some (inode, st)"
  by (subst namei_loop.simps) simp

lemma namei_loop_next:
  "i < length pn \<Longrightarrow> pn ! i \<noteq> SLASH \<Longrightarrow> pn ! i \<noteq> 0 \<Longrightarrow>
    namei_loop ops slp pn isroot start i inode st = namei_loop ops slp pn isroot start (i + 1) inode st"
  by (subst namei_loop.simps) (simp add: path_at_def)

lemma namei_loop_component:
  assumes "i \<le> length pn" and "path_at pn i = SLASH \<or> path_at pn i = 0" and "i - start < 512"
    and "cmp = take (i - start) (drop start pn)"
  shows "namei_loop ops slp pn isroot start i inode st =
    (if cmp = [] \<or> cmp = DOTDOT \<and> isroot then namei_loop ops slp pn isroot (i + 1) (i + 1) inode st
     else do {
       r \<leftarrow> vfs_find_component ops slp st inode cmp;
       if fst r = NULL then Some r else namei_loop ops slp pn isroot (i + 1) (i + 1) (fst r) (snd r)
     })"
  using assms by (subst namei_loop.simps) (simp add: Let_def)

lemma namei_loop_walk:
  "i + n = length pn \<Longrightarrow> start \<le> i \<Longrightarrow> length pn < 512 \<Longrightarrow> 0 \<notin> set pn \<Longrightarrow>
    namei_loop ops slp pn isroot start i inode st
      = walk ops slp isroot (components (take (i - start) (drop start pn)) (drop i pn)) inode st"
proof (induction n arbitrary: start i inode st)
  case 0
  then have i: "i = length pn" by simp
  show ?case
    using 0 i namei_loop_component [of i pn start "take (i - start) (drop start pn)" ops slp isroot inode st]
    by (simp add: path_at_def cong: if_cong)
next
  case (Suc n)
  then have i: "i < length pn" by simp
  then have d: "drop i pn = pn ! i # drop (i + 1) pn" by (simp add: Cons_nth_drop_Suc)
  let ?c = "take (i - start) (drop start pn)"
  show ?case
  proof (cases "pn ! i = SLASH")
    case True
    have nx: "namei_loop ops slp pn isroot (i + 1) (i + 1) inode' st'
        = walk ops slp isroot (components [] (drop (i + 1) pn)) inode' st'" for inode' st'
      using Suc.IH [of "i + 1" "i + 1"] Suc.prems by simp
    have "namei_loop ops slp pn isroot start i inode st = walk ops slp isroot (?c # components [] (drop (i + 1) pn)) inode st"
      unfolding walk.simps nx [symmetric]
      by (rule namei_loop_component) (use i True Suc.prems in \<open>auto simp: path_at_def\<close>)
    then show ?thesis using d True by simp
  next
    case False
    have nz: "pn ! i \<noteq> 0" using Suc.prems(4) i by (metis nth_mem)
    have "take (i + 1 - start) (drop start pn) = ?c @ [pn ! i]"
      using Suc.prems(2) i by (simp add: Suc_diff_le take_Suc_conv_app_nth)
    then show ?thesis
      using Suc.IH [of "i + 1" start] Suc.prems False nz d namei_loop_next [OF i False nz] by simp
  qed
qed

text \<open>C8: An absolute path is resolved component by component: \<open>vfs_namei\<close> looks up its slash-separated components one after the
  other from the root directory, skipping empty ones and \<open>..\<close>. A relative path is resolved in the same way from the
  current directory, but without its first letter: the code drops the first character of every path, which is the
  slash only in an absolute one.\<close>

theorem vfs_namei_walks_components:
  assumes "pathname \<noteq> []" and "length pathname < 512" and "0 \<notin> set pathname"
  shows "vfs_namei ops slp st pathname
    = (if hd pathname = SLASH then walk ops slp True (components [] (tl pathname)) (vf_i_root st) st
       else walk ops slp False (components [] (tl pathname)) (vf_i_cdir st) st)"
proof -
  obtain c cs where p: "pathname = c # cs" using assms(1) by (cases pathname) auto
  have "namei_loop ops slp pathname isroot 1 1 inode st
      = walk ops slp isroot (components [] (drop 1 pathname)) inode st" for isroot inode
    using namei_loop_walk [of 1 "length cs" pathname 1 ops slp isroot inode st] assms p by simp
  then show ?thesis using p by (simp add: vfs_namei_def path_at_def Let_def)
qed

definition idle_sb_ops :: vfs_sb_ops where
  "idle_sb_ops = \<lparr>get_inode = \<lambda>_ st. Some (0, st), get_fs_block = \<lambda>_ _ _. None\<rparr>"

definition demo_vfs :: vfs where
  "demo_vfs = \<lparr>vf_inodes = Map.empty, vf_htable = (\<lambda>_. NULL), vf_free_head = NULL, vf_sb = Map.empty,
     vf_filesystems = [NULL], vf_reg_types = 0, vf_mount = None, vf_i_root = 16, vf_i_cdir = 32\<rparr>"

theorem vfs_namei_walks_components_witness:
  "vfs_namei (\<lambda>_. idle_sb_ops) (\<lambda>_ _. None) demo_vfs [47, 97, 47, 98]
    = walk (\<lambda>_. idle_sb_ops) (\<lambda>_ _. None) True [[97], [98]] 16 demo_vfs
   \<and> vfs_namei (\<lambda>_. idle_sb_ops) (\<lambda>_ _. None) demo_vfs [98, 105, 110]
    = walk (\<lambda>_. idle_sb_ops) (\<lambda>_ _. None) False [[105, 110]] 32 demo_vfs"
  using vfs_namei_walks_components [of "[47, 97, 47, 98]" "\<lambda>_. idle_sb_ops" "\<lambda>_ _. None" demo_vfs]
    vfs_namei_walks_components [of "[98, 105, 110]" "\<lambda>_. idle_sb_ops" "\<lambda>_ _. None" demo_vfs]
  by (simp add: demo_vfs_def)

section \<open>Block mapping\<close>

lemma bmap_offset: "unat ((offset :: u32) - offset div b * b) = unat offset mod unat b"
  by (metis minus_div_mult_eq_mod unat_mod)

lemma ipow_0 [simp]: "ipow x 0 = 1"
  by (simp add: ipow_def)

text \<open>An offset in the first twelve blocks is mapped to the direct block of its index and to the
  remainder inside it. An offset in the single-indirect range is always mapped through entry
  \<open>(offset - 12 - blk_size) / (entries * blk_size)\<close> of the indirect block, which is not the
  entry of its own block.\<close>

theorem vfs_bmap_blocks:
  assumes "vf_inodes st inode = Some i" and "vf_sb st (vi_sb i) = Some s" and "s_log_block_size s = b" and "0 < b"
  shows "(unat offset div unat b < 12 \<longrightarrow> (\<exists>m. vfs_bmap ops st inode offset = Some m
        \<and> blk_number m = i_block i ! (unat offset div unat b) \<and> unat (blk_offset m) = unat offset mod unat b))
    \<and> (12 \<le> unat offset div unat b \<and> offset div b < 12 + b div 4
        \<and> get_fs_block (ops (s_sb_op s)) (vi_sb i) (i_block i ! 12) st = Some blk
        \<and> blk32 blk (4 * unat ((offset - (12 + b)) div (b div 4 * b))) = Some w
      \<longrightarrow> (\<exists>m. vfs_bmap ops st inode offset = Some m \<and> blk_number m = w))"
proof -
  have b: "b \<noteq> 0" using assms(4) by auto
  have lt: "offset div b < 12 \<longleftrightarrow> unat offset div unat b < 12" by (simp add: word_less_nat_alt unat_div)
  have num: "(of_nat 12 :: u32) = 12" by simp
  show ?thesis
    using assms(1-3) b lt
    by (auto simp: vfs_bmap_def Let_def bmap_offset unat_div num)
qed

definition demo_sb :: vfs_superblock where
  "demo_sb = \<lparr>s_inodes_count = 0, s_blocks_count = 0, s_free_blocks_count = 0, s_free_inodes_count = 0,
     s_log_block_size = 1024, s_mtime = 0, s_wtime = 0, s_mnt_count = 0, s_type = 0, s_state = 0, s_errors = 0,
     s_lastcheck = 0, s_checkinterval = 0, s_uuid = [], s_volume_name = [], s_device = (3, 1), s_flags = 0,
     s_sb_op = 8, s_fs_driver = 0\<rparr>"

definition demo_inode :: vfs_inode where
  "demo_inode = \<lparr>i_mode = 0x4000, i_uid = 0, i_size = 1024, i_atime = 0, i_ctime = 0, i_mtime = 0, i_gid = 0,
     i_links_count = 1, i_blocks = 2, i_flags = 0, i_block = map of_nat [100..<115], vi_lock = 0,
     vi_device = (3, 1), vi_flags = 0, vi_reference = 1, vi_number = 2, vi_prev = 0, vi_next = 0,
     vi_free_next = 0, vi_free_prev = 0, vi_sb = 64, vi_fs_driver = 0\<rparr>"

theorem vfs_bmap_blocks_witness:
  "\<exists>m. vfs_bmap (\<lambda>_. idle_sb_ops) (demo_vfs\<lparr>vf_inodes := [16 \<mapsto> demo_inode], vf_sb := [64 \<mapsto> demo_sb]\<rparr>) 16 2100
      = Some m \<and> blk_number m = 102 \<and> unat (blk_offset m) = 52"
proof -
  let ?st = "demo_vfs\<lparr>vf_inodes := [16 \<mapsto> demo_inode], vf_sb := [64 \<mapsto> demo_sb]\<rparr>"
  have h: "vf_inodes ?st 16 = Some demo_inode" "vf_sb ?st (vi_sb demo_inode) = Some demo_sb"
    "s_log_block_size demo_sb = 1024" by (simp_all add: demo_inode_def demo_sb_def)
  from vfs_bmap_blocks [OF h, of 2100 "\<lambda>_. idle_sb_ops"] show ?thesis
    by (auto simp: demo_inode_def nth_append)
qed

text \<open>The formula sends every block of the first indirect block's range to its entry 0.\<close>

lemma vfs_bmap_indirect_collapses:
  assumes "12 * 1024 \<le> unat (offset :: u32)" and "unat offset < 12 + 1024 + 256 * 1024"
  shows "(offset - (12 + 1024)) div (1024 div 4 * 1024) = 0"
proof -
  have "unat (offset - 1036) = unat offset - 1036"
    using assms(1) by (subst unat_sub) (simp_all add: word_le_nat_alt)
  then have "unat (offset - 1036) < 262144" using assms by simp
  then have "unat ((offset - 1036) div 262144) = 0" by (simp add: unat_div)
  then show ?thesis by (simp add: unat_eq_0)
qed

section \<open>Inode lookup\<close>

fun ichain :: "iheap \<Rightarrow> ptr \<Rightarrow> ptr list \<Rightarrow> bool" where
  "ichain h a [] = (a = NULL)"
| "ichain h a (x # xs) = (a = x \<and> x \<noteq> NULL \<and> x \<in> dom h \<and> ichain h (field_at vi_next h x) xs)"

lemma ichain_find_NULL [simp]: "ichain_find h d NULL = Some NULL"
  by (subst ichain_find.simps) simp

lemma ichain_find_step:
  "x \<noteq> NULL \<Longrightarrow> h x = Some i \<Longrightarrow>
    ichain_find h d x = (if vi_device i = d then Some x else ichain_find h d (vi_next i))"
  by (subst ichain_find.simps) (auto simp: DEV_CMP_def prod_eq_iff)

lemma ichain_find_ok:
  "ichain h a cs \<Longrightarrow> ichain_find h d a
    = Some (case find (\<lambda>x. map_option vi_device (h x) = Some d) cs of None \<Rightarrow> NULL | Some x \<Rightarrow> x)"
proof (induction cs arbitrary: a)
  case Nil
  then show ?case by simp
next
  case (Cons x cs)
  then obtain i where i: "h x = Some i" by auto
  then have "ichain_find h d (vi_next i)
      = Some (case find (\<lambda>x. map_option vi_device (h x) = Some d) cs of None \<Rightarrow> NULL | Some x \<Rightarrow> x)"
    using Cons by simp
  with Cons.prems i show ?case by (auto simp: ichain_find_step)
qed

text \<open>\<open>search_inode\<close> compares only the device: it returns the first inode of the device in the
  hash bucket, whatever its number, so two inode numbers 4000 apart are the same file.\<close>

theorem search_inode_ignores_number:
  assumes "ichain (vf_inodes st) (vf_htable st (htable_pos number)) (cs @ x # cs')"
    and "vf_inodes st x = Some i" and "vi_device i = device"
    and "\<forall>y \<in> set cs. map_option vi_device (vf_inodes st y) \<noteq> Some device" and "unat number + 4000 < 2 ^ 32"
  shows "search_inode st device number = Some x \<and> search_inode st device (number + 4000) = Some x"
proof -
  have "find (\<lambda>x. map_option vi_device (vf_inodes st x) = Some device) (cs @ x # cs') = Some x"
    using assms(2-4) by (induction cs) auto
  moreover have "vf_htable st (htable_pos number) \<noteq> NULL" using assms(1) by (cases cs) auto
  ultimately have a: "search_inode st device number = Some x"
    using ichain_find_ok [OF assms(1), of device] by (simp add: search_inode_def Let_def)
  have "htable_pos (number + 4000) = htable_pos number"
    using assms(5) by (simp add: htable_pos_def unat_word_ariths)
  then show ?thesis using a by (simp add: search_inode_def)
qed

theorem search_inode_ignores_number_witness:
  "search_inode (demo_vfs\<lparr>vf_inodes := [16 \<mapsto> demo_inode], vf_htable := (\<lambda>_. NULL)(2 := 16)\<rparr>) (3, 1) (2 + 4000) = Some 16"
proof -
  let ?st = "demo_vfs\<lparr>vf_inodes := [16 \<mapsto> demo_inode], vf_htable := (\<lambda>_. NULL)(2 := 16)\<rparr>"
  have "ichain (vf_inodes ?st) (vf_htable ?st (htable_pos 2)) ([] @ 16 # [])"
    by (simp add: htable_pos_def demo_inode_def)
  from search_inode_ignores_number [OF this, of demo_inode "(3, 1)"] show ?thesis
    by (simp add: demo_inode_def)
qed

end
