(* ===== verification/Ext2.thy ===== *)
theory Ext2
  imports Buffer_Cache Vfs
begin

text \<open>
  The ext2 driver, \<^verbatim>\<open>fs/ext2/ext2.c\<close> with the on-disk structures of \<^verbatim>\<open>include/fs/ext2/ext2.h\<close>. Disk
  sectors are read through the buffer cache: \<open>read_sector\<close> is the pair of \<open>bread\<close> and \<open>brelse\<close>
  with the copy of the data in between. The structures are decoded from bytes at the offsets
  that the C layout gives their fields.
\<close>

section \<open>On-disk structures\<close>

abbreviation (input) EXT2_MAGIC :: u16 where "EXT2_MAGIC \<equiv> 0xEF53"
abbreviation (input) EXT2_SUPERBLOCK_SECTOR :: u64 where "EXT2_SUPERBLOCK_SECTOR \<equiv> 2"
abbreviation (input) EXT2_ROOT_INO :: u32 where "EXT2_ROOT_INO \<equiv> 2"
abbreviation (input) SECTOR_SIZE :: u32 where "SECTOR_SIZE \<equiv> 512"

definition get16 :: "byte list \<Rightarrow> nat \<Rightarrow> u16" where
  "get16 bs p = bytes16 (bs ! p) (bs ! (p + 1))"

definition get32 :: "byte list \<Rightarrow> nat \<Rightarrow> u32" where
  "get32 bs p = bytes32 (bs ! p) (bs ! (p + 1)) (bs ! (p + 2)) (bs ! (p + 3))"

record ext2_superblock =
  es_inodes_count :: u32
  es_blocks_count :: u32
  es_r_blocks_count :: u32
  es_free_blocks_count :: u32
  es_free_inodes_count :: u32
  es_first_data_block :: u32
  es_log_block_size :: u32
  es_blocks_per_group :: u32
  es_inodes_per_group :: u32
  es_mtime :: u32
  es_wtime :: u32
  es_mnt_count :: u16
  es_magic :: u16
  es_state :: u16
  es_errors :: u16
  es_lastcheck :: u32
  es_checkinterval :: u32
  es_rev_level :: u32
  es_tail :: "byte list"

text \<open>\<open>es_tail\<close> is the rest of the structure from \<open>s_uuid\<close> on.\<close>

definition decode_superblock :: "byte list \<Rightarrow> ext2_superblock" where
  "decode_superblock bs = \<lparr>es_inodes_count = get32 bs 0, es_blocks_count = get32 bs 4, es_r_blocks_count = get32 bs 8,
     es_free_blocks_count = get32 bs 12, es_free_inodes_count = get32 bs 16, es_first_data_block = get32 bs 20,
     es_log_block_size = get32 bs 24, es_blocks_per_group = get32 bs 32, es_inodes_per_group = get32 bs 40,
     es_mtime = get32 bs 44, es_wtime = get32 bs 48, es_mnt_count = get16 bs 52, es_magic = get16 bs 56,
     es_state = get16 bs 58, es_errors = get16 bs 60, es_lastcheck = get32 bs 64, es_checkinterval = get32 bs 68,
     es_rev_level = get32 bs 76, es_tail = drop 104 bs\<rparr>"

record ext2_group =
  bg_block_bitmap :: u32
  bg_inode_bitmap :: u32
  bg_inode_table :: u32

definition decode_group :: "byte list \<Rightarrow> ext2_group" where
  "decode_group bs = \<lparr>bg_block_bitmap = get32 bs 0, bg_inode_bitmap = get32 bs 4, bg_inode_table = get32 bs 8\<rparr>"

record ext2_inode =
  ei_mode :: u16
  ei_uid :: u16
  ei_size :: u32
  ei_atime :: u32
  ei_ctime :: u32
  ei_mtime :: u32
  ei_gid :: u16
  ei_links_count :: u16
  ei_blocks :: u32
  ei_flags :: u32
  ei_block :: "u32 list"

definition decode_inode :: "byte list \<Rightarrow> ext2_inode" where
  "decode_inode bs = \<lparr>ei_mode = get16 bs 0, ei_uid = get16 bs 2, ei_size = get32 bs 4, ei_atime = get32 bs 8,
     ei_ctime = get32 bs 12, ei_mtime = get32 bs 16, ei_gid = get16 bs 24, ei_links_count = get16 bs 26,
     ei_blocks = get32 bs 28, ei_flags = get32 bs 32, ei_block = map (\<lambda>k. get32 bs (40 + 4 * k)) [0..<15]\<rparr>"

record ext2_fs_driver =
  fd_sb :: ext2_superblock
  fd_gdesc :: ext2_group
  fd_n_groups :: u32
  fd_blks_bmap_size :: u32
  fd_inodes_bmap_size :: u32
  fd_block_size :: u32

section \<open>Arithmetic\<close>

definition div_rup :: "u32 \<Rightarrow> u32 \<Rightarrow> u32 option" where
  "div_rup a b = (if b = 0 then None else
     (let res = a div b in Some (if res * b < a then res + 1 else res)))"

definition get_block_size :: "ext2_superblock \<Rightarrow> u32" where
  "get_block_size sb = (if es_log_block_size sb = 1 then 2048 else if es_log_block_size sb = 2 then 4096 else 1024)"

section \<open>Reading\<close>

text \<open>\<open>bread\<close>, use of the data, \<open>brelse\<close>; the inner \<open>None\<close> is a \<open>NULL\<close> buffer.\<close>

definition read_sector ::
  "(ptr \<Rightarrow> blk_dev_op) \<Rightarrow> (int \<Rightarrow> bcache \<Rightarrow> bcache option) \<Rightarrow> dev \<Rightarrow> u64 \<Rightarrow> bcache
    \<Rightarrow> (byte list option \<times> bcache) option" where
  "read_sector ops sleep_on device n st = do {
     (blk, st1) \<leftarrow> bread ops sleep_on st (fst device) (snd device) n;
     if blk = NULL then Some (None, st1)
     else do {
       b \<leftarrow> bc_blocks st1 blk;
       st2 \<leftarrow> brelse st1 (fst device) (snd device) blk;
       Some (Some (bh_data b), st2)
     }
   }"

definition check_is_ext2 ::
  "(ptr \<Rightarrow> blk_dev_op) \<Rightarrow> (int \<Rightarrow> bcache \<Rightarrow> bcache option) \<Rightarrow> dev \<Rightarrow> bcache \<Rightarrow> (int \<times> bcache) option" where
  "check_is_ext2 ops sleep_on device st = do {
     (d, st1) \<leftarrow> read_sector ops sleep_on device EXT2_SUPERBLOCK_SECTOR st;
     bs \<leftarrow> d;
     Some (if get16 bs 56 = EXT2_MAGIC then 1 else 0, st1)
   }"

text \<open>\<open>strcpy\<close> into the adjacent arrays \<open>s_uuid\<close> and \<open>s_volume_name\<close>, at position \<open>p\<close> of the two.\<close>

definition copy_name :: "byte list \<Rightarrow> nat \<Rightarrow> byte list \<Rightarrow> byte list option" where
  "copy_name dest p src =
     (let s = c_string src in
      if p + length s \<le> length dest then Some (take p dest @ s @ drop (p + length s) dest) else None)"

text \<open>The driver data of the superblock in \<^verbatim>\<open>fs_driver\<close>; the results of the three \<^verbatim>\<open>kmalloc\<close> calls are
  \<open>fsdriver\<close>, \<open>ext2_sb\<close> and \<open>ext2_gd\<close>. The device is held for the two reads of the superblock.\<close>

definition ext2_get_sb ::
  "(ptr \<Rightarrow> blk_dev_op) \<Rightarrow> (int \<Rightarrow> bcache \<Rightarrow> bcache option) \<Rightarrow> ptr \<Rightarrow> ptr \<Rightarrow> ptr \<Rightarrow> ptr \<Rightarrow> ptr \<Rightarrow> dev
    \<Rightarrow> vfs_superblock \<Rightarrow> bcache \<Rightarrow> (int \<times> vfs_superblock \<times> ext2_fs_driver option \<times> bcache) option" where
  "ext2_get_sb ops sleep_on ext2_fs_type ext2_sb_ops fsdriver ext2_sb ext2_gd device sb st =
     (if ext2_sb = NULL \<or> fsdriver = NULL \<or> ext2_gd = NULL then Some (0, sb, None, st)
      else do {
        (blk0, st1) \<leftarrow> bread ops sleep_on st (fst device) (snd device) EXT2_SUPERBLOCK_SECTOR;
        (blk1, st2) \<leftarrow> bread ops sleep_on st1 (fst device) (snd device) (EXT2_SUPERBLOCK_SECTOR + 1);
        b0 \<leftarrow> bc_blocks st2 blk0;
        b1 \<leftarrow> bc_blocks st2 blk1;
        let es = decode_superblock (bh_data b0 @ bh_data b1);
        st3 \<leftarrow> brelse st2 (fst device) (snd device) blk0;
        st4 \<leftarrow> brelse st3 (fst device) (snd device) blk1;
        let block_size = get_block_size es div SECTOR_SIZE;
        let grp_offset = es_first_data_block es * block_size;
        (g, st5) \<leftarrow> read_sector ops sleep_on device (ucast (grp_offset + 2)) st4;
        gbs \<leftarrow> g;
        n_groups \<leftarrow> div_rup (es_blocks_count es) (es_blocks_per_group es);
        bb \<leftarrow> div_rup (es_blocks_per_group es) 8;
        blks \<leftarrow> div_rup bb (get_block_size es);
        ib \<leftarrow> div_rup (es_inodes_per_group es) 8;
        inos \<leftarrow> div_rup ib (get_block_size es);
        names1 \<leftarrow> copy_name (s_uuid sb @ s_volume_name sb) 0 (es_tail es);
        names2 \<leftarrow> copy_name names1 16 (drop 16 (es_tail es));
        Some (1, sb\<lparr>s_inodes_count := es_inodes_count es, s_blocks_count := es_r_blocks_count es,
            s_free_blocks_count := es_free_blocks_count es, s_free_inodes_count := es_free_inodes_count es,
            s_log_block_size := get_block_size es, s_mtime := es_mtime es, s_wtime := es_wtime es,
            s_mnt_count := es_mnt_count es, s_type := ext2_fs_type, s_state := es_state es, s_errors := es_errors es,
            s_lastcheck := es_lastcheck es, s_checkinterval := es_checkinterval es,
            s_uuid := take 16 names2, s_volume_name := drop 16 names2, s_device := device,
            s_sb_op := ext2_sb_ops, s_fs_driver := fsdriver\<rparr>,
          Some \<lparr>fd_sb = es, fd_gdesc = decode_group gbs, fd_n_groups = n_groups, fd_blks_bmap_size = blks,
                fd_inodes_bmap_size = inos, fd_block_size = block_size\<rparr>, st5)
      })"

text \<open>The loop over the block groups of a revision 1 file system, from group \<open>i\<close> on.\<close>

fun group_block :: "u32 \<Rightarrow> u32 \<Rightarrow> nat \<Rightarrow> nat \<Rightarrow> u32" where
  "group_block grp_block bpg i 0 = grp_block"
| "group_block grp_block bpg i (Suc n) =
     group_block (if i = 1 \<or> i mod 3 = 0 \<or> i mod 5 = 0 \<or> i mod 7 = 0 then grp_block + bpg else grp_block + bpg - 2)
       bpg (i + 1) n"

text \<open>The sector of an inode and its offset in that sector; 128 is \<^verbatim>\<open>sizeof(ext2_inode_t)\<close>.\<close>

definition inode_location :: "ext2_fs_driver \<Rightarrow> u32 \<Rightarrow> (u32 \<times> u32) option" where
  "inode_location fs inode_number =
     (let sb = fd_sb fs;
          number0 = (if inode_number = 0 then EXT2_ROOT_INO else inode_number)
      in if es_inodes_per_group sb = 0 then None
      else
        let grp_number = (number0 - 1) div es_inodes_per_group sb;
            grp_block = (if es_rev_level sb > 0
              then group_block (bg_inode_table (fd_gdesc fs)) (es_blocks_per_group sb) 1 (unat grp_number)
              else es_blocks_per_group sb * grp_number + bg_inode_table (fd_gdesc fs));
            number = (if grp_number > 0 then number0 - grp_number * es_inodes_per_group sb else number0);
            iblk = (number - 1) * 128;
            itab_addr = (grp_block * get_block_size sb + iblk) div SECTOR_SIZE
        in Some (itab_addr, iblk - iblk div SECTOR_SIZE * SECTOR_SIZE))"

definition fill_inode :: "vfs_inode \<Rightarrow> ext2_inode \<Rightarrow> vfs_inode" where
  "fill_inode inode e = inode\<lparr>i_mode := ei_mode e, i_uid := ei_uid e, i_size := ei_size e, i_atime := ei_atime e,
     i_ctime := ei_ctime e, i_mtime := ei_mtime e, i_gid := ei_gid e, i_links_count := ei_links_count e,
     i_blocks := ei_blocks e, i_flags := ei_flags e, i_block := ei_block e\<rparr>"

definition ext2_get_inode ::
  "(ptr \<Rightarrow> blk_dev_op) \<Rightarrow> (int \<Rightarrow> bcache \<Rightarrow> bcache option) \<Rightarrow> ext2_fs_driver \<Rightarrow> vfs_inode \<Rightarrow> bcache
    \<Rightarrow> (int \<times> vfs_inode \<times> bcache) option" where
  "ext2_get_inode ops sleep_on fs inode st = do {
     (itab_addr, iblk_addr) \<leftarrow> inode_location fs (vi_number inode);
     (d, st1) \<leftarrow> read_sector ops sleep_on (vi_device inode) (ucast itab_addr) st;
     case d of
       None \<Rightarrow> Some (0, inode, st1)
     | Some bs \<Rightarrow> Some (1, fill_inode inode (decode_inode (take 128 (drop (unat iblk_addr) bs))), st1)
   }"

text \<open>The loop over the sectors of a block; \<open>acc\<close> is what has been copied so far.\<close>

fun read_sectors ::
  "(ptr \<Rightarrow> blk_dev_op) \<Rightarrow> (int \<Rightarrow> bcache \<Rightarrow> bcache option) \<Rightarrow> dev \<Rightarrow> u64 \<Rightarrow> nat \<Rightarrow> byte list \<Rightarrow> bcache
    \<Rightarrow> (byte list \<times> bcache) option" where
  "read_sectors ops sleep_on device baddr 0 acc st = Some (acc, st)"
| "read_sectors ops sleep_on device baddr (Suc n) acc st = do {
     (d, st1) \<leftarrow> read_sector ops sleep_on device baddr st;
     bs \<leftarrow> d;
     read_sectors ops sleep_on device (baddr + 1) n (acc @ bs) st1
   }"

text \<open>\<open>block\<close> is the result of the \<^verbatim>\<open>kmalloc\<close>; the product of block number and size is 32 bits wide.\<close>

definition ext2_get_fs_block ::
  "(ptr \<Rightarrow> blk_dev_op) \<Rightarrow> (int \<Rightarrow> bcache \<Rightarrow> bcache option) \<Rightarrow> ptr \<Rightarrow> ext2_fs_driver \<Rightarrow> dev \<Rightarrow> u32 \<Rightarrow> bcache
    \<Rightarrow> (byte list option \<times> bcache) option" where
  "ext2_get_fs_block ops sleep_on block fs device blocknum st =
     (let baddr = ucast (blocknum * fd_block_size fs)
      in if block = NULL then Some (None, st)
      else do {
        (bs, st') \<leftarrow> read_sectors ops sleep_on device baddr (unat (get_block_size (fd_sb fs) div SECTOR_SIZE)) [] st;
        Some (Some bs, st')
      })"

section \<open>Properties\<close>

lemma unat_mult_small:
  fixes a b :: u32
  assumes "unat a * unat b < 4294967296"
  shows "unat (a * b) = unat a * unat b"
  using assms by (simp add: unat_word_ariths)

lemma unat_add_small:
  fixes a b :: u32
  assumes "unat a + unat b < 4294967296"
  shows "unat (a + b) = unat a + unat b"
  using assms by (simp add: unat_word_ariths)

lemma ceil_div:
  assumes "0 < (b :: nat)"
  shows "(a + b - 1) div b = (if a div b * b < a then a div b + 1 else a div b)"
proof (cases "a mod b = 0")
  case True
  then obtain k where "a = k * b" by (metis div_mult_mod_eq add.right_neutral)
  moreover obtain c where c: "b = Suc c" using assms by (metis gr0_implies_Suc)
  have s: "k * b + b - 1 = c + k * b" using c by simp
  have d: "(c + k * b) div b = k" using c div_mult_self1 [of b c k] by simp
  have e: "k * b div b = k" using assms by simp
  ultimately show ?thesis by (simp only: s d e less_irrefl if_False)
next
  case False
  have "a + b - 1 = a mod b - 1 + (a div b + 1) * b"
  proof -
    obtain r where "a mod b = Suc r" using False by (cases "a mod b") auto
    moreover from this have "a = Suc r + a div b * b" using div_mult_mod_eq [of a b] by linarith
    ultimately show ?thesis using assms by (cases b) simp_all
  qed
  moreover have "(a mod b - 1 + (a div b + 1) * b) div b = a div b + 1"
  proof -
    have "a mod b - 1 < b" using assms mod_less_divisor [of b a] by linarith
    then show ?thesis using assms by (subst div_mult_self1) simp_all
  qed
  moreover have "a div b * b < a" using False div_mult_mod_eq [of a b] by linarith
  ultimately show ?thesis by (simp only: if_True)
qed

lemma div_rup_ceiling:
  assumes "b \<noteq> 0"
  shows "div_rup a b = Some (of_nat ((unat a + unat b - 1) div unat b))"
proof -
  have b: "0 < unat b" using assms by (simp add: unat_gt_0)
  have "unat a div unat b * unat b \<le> unat a" by simp
  then have m: "unat (a div b * b) = unat a div unat b * unat b"
    using unat_u32_bound [of a] unat_mult_small [of "a div b" b] by (simp only: unat_div)
  have "(if a div b * b < a then a div b + 1 else a div b)
      = (of_nat ((unat a + unat b - 1) div unat b) :: u32)"
    unfolding ceil_div [OF b] word_less_nat_alt m by (simp flip: unat_div)
  then show ?thesis using assms by (simp add: div_rup_def Let_def)
qed

lemma get_block_size_sectors: "512 dvd unat (get_block_size sb)" "0 < unat (get_block_size sb)"
  by (simp_all add: get_block_size_def)

lemma number_in_group:
  "(if (k - 1) div n > 0 then k - (k - 1) div n * n else k) - 1 = (k - 1 :: u32) mod n"
proof -
  have "k - (k - 1) div n * n - 1 = k - 1 - (k - 1) div n * n" by simp
  also have "\<dots> = (k - 1) mod n" by (rule minus_div_mult_eq_mod)
  finally show ?thesis by (cases "(k - 1) div n = 0") (simp_all add: word_gt_0 minus_div_mult_eq_mod [of "k - 1" n, symmetric])
qed

lemma sector_split:
  assumes "512 dvd (b :: nat)"
  shows "512 * ((b + r * 128) div 512) + r * 128 mod 512 = b + r * 128" "r * 128 mod 512 + 128 \<le> (512 :: nat)"
proof -
  have "(b + r * 128) mod 512 = r * 128 mod 512" using assms by (auto simp: dvd_def)
  then show "512 * ((b + r * 128) div 512) + r * 128 mod 512 = b + r * 128" by (metis mult_div_mod_eq)
  have "r * 128 mod 512 = 128 * (r mod 4)" using mult_mod_right [of 128 r 4] by (simp add: mult.commute)
  then show "r * 128 mod 512 + 128 \<le> (512 :: nat)" using mod_less_divisor [of 4 r] by linarith
qed

text \<open>C40: For a file system of revision 0 the sector and offset that \<open>ext2_get_inode\<close> computes are the
  place of the inode on the disk: with \<open>n\<close> inodes and \<open>m\<close> blocks per group, inode number \<open>k\<close> is entry
  \<open>(k - 1) mod n\<close>, 128 bytes each, of the inode table of group \<open>(k - 1) div n\<close>, which starts \<open>m\<close> blocks
  after that of the group before; no 32-bit product wraps as long as the byte address fits. The
  inode lies within the sector.\<close>
theorem inode_location_on_disk:
  assumes rev: "es_rev_level (fd_sb fs) = 0"
    and k: "k \<noteq> 0"
    and n: "n = unat (es_inodes_per_group (fd_sb fs))" "0 < n"
    and blk: "blk = unat (es_blocks_per_group (fd_sb fs)) * ((unat k - 1) div n) + unat (bg_inode_table (fd_gdesc fs))"
    and addr: "addr = blk * unat (get_block_size (fd_sb fs)) + (unat k - 1) mod n * 128"
    and fits: "addr < 4294967296"
  shows "\<exists>s p. inode_location fs k = Some (s, p) \<and> 512 * unat s + unat p = addr \<and> unat p + 128 \<le> 512"
proof -
  let ?ipg = "es_inodes_per_group (fd_sb fs)" and ?bs = "get_block_size (fd_sb fs)"
  let ?g = "(k - 1) div ?ipg" and ?r = "(unat k - 1) mod n"
  define gb where "gb = es_blocks_per_group (fd_sb fs) * ?g + bg_inode_table (fd_gdesc fs)"
  define ib where "ib = (k - 1) mod ?ipg * 128"
  have k1: "unat (k - 1) = unat k - 1" using k by (simp add: unat_minus_one)
  have i0: "?ipg \<noteq> 0" using n by auto
  have g: "unat ?g = (unat k - 1) div n" by (simp only: unat_div k1 n(1))
  have b1: "blk \<le> blk * unat ?bs" using get_block_size_sectors(2) [of "fd_sb fs"] by simp
  have b2: "blk * unat ?bs + ?r * 128 < 4294967296" using fits addr by simp
  have m: "unat (es_blocks_per_group (fd_sb fs)) * unat ?g + unat (bg_inode_table (fd_gdesc fs)) < 4294967296"
    using b1 b2 unfolding blk g by linarith
  have gb: "unat gb = blk"
    unfolding gb_def blk using m unat_mult_small [of "es_blocks_per_group (fd_sb fs)" ?g]
    by (simp add: unat_add_small g)
  have rb: "?r * 128 < 4294967296" using b2 by linarith
  have r: "unat ((k - 1) mod ?ipg) = ?r" by (simp only: unat_mod k1 n(1))
  have ib: "unat ib = ?r * 128"
    unfolding ib_def using rb unat_mult_small [of "(k - 1) mod ?ipg" 128] by (simp add: r)
  have gbs: "unat (gb * ?bs) = blk * unat ?bs"
    using b2 unat_mult_small [of gb ?bs] by (simp add: gb)
  have s: "unat ((gb * ?bs + ib) div 512) = (blk * unat ?bs + ?r * 128) div 512"
    using b2 unat_add_small [of "gb * ?bs" ib] by (simp add: unat_div gbs ib)
  have p: "unat (ib - ib div 512 * 512) = ?r * 128 mod 512"
    by (simp only: minus_div_mult_eq_mod unat_mod ib) simp
  have dvd: "512 dvd blk * unat ?bs" using get_block_size_sectors(1) by (simp add: dvd_mult)
  have "inode_location fs k = Some ((gb * ?bs + ib) div 512, ib - ib div 512 * 512)"
    using rev k i0 by (simp only: inode_location_def Let_def number_in_group gb_def ib_def) simp
  then show ?thesis using s p sector_split [OF dvd, of ?r] addr by auto
qed

text \<open>Inode 12 of a file system with 8 inodes and 64 blocks of 1024 bytes per group, inode table at block 5.\<close>

definition example_sb :: ext2_superblock where
  "example_sb = \<lparr>es_inodes_count = 32, es_blocks_count = 256, es_r_blocks_count = 12,
     es_free_blocks_count = 200, es_free_inodes_count = 20, es_first_data_block = 1, es_log_block_size = 0,
     es_blocks_per_group = 64, es_inodes_per_group = 8, es_mtime = 0, es_wtime = 0, es_mnt_count = 0,
     es_magic = EXT2_MAGIC, es_state = 1, es_errors = 1, es_lastcheck = 0, es_checkinterval = 0,
     es_rev_level = 0, es_tail = []\<rparr>"

definition example_driver :: ext2_fs_driver where
  "example_driver = \<lparr>fd_sb = example_sb, fd_gdesc = \<lparr>bg_block_bitmap = 3, bg_inode_bitmap = 4, bg_inode_table = 5\<rparr>,
     fd_n_groups = 4, fd_blks_bmap_size = 1, fd_inodes_bmap_size = 1, fd_block_size = 2\<rparr>"

theorem inode_location_on_disk_witness:
  "\<exists>s p. inode_location example_driver 12 = Some (s, p) \<and> 512 * unat s + unat p = 71040 \<and> unat p + 128 \<le> 512"
  by (rule inode_location_on_disk [of example_driver 12 8 69 71040])
    (simp_all add: example_driver_def example_sb_def get_block_size_def)

end
