(* ===== verification/Partition.thy ===== *)
theory Partition
  imports Prelude
begin

text \<open>
  Partition tables, \<^verbatim>\<open>fs/partition.c\<close>. The sectors are read with the synchronous read operation
  of the block driver; \<open>rd addr st\<close> is the contents of the buffer \<^verbatim>\<open>sec\<close> after that call and the new
  state of the machine. The results of the two \<^verbatim>\<open>kmalloc\<close> calls are arguments, and the
  table of partitions is a list of the length that was allocated: a store behind its end has no result. Against the code stands the format of
  the boot records: \<open>ext_chain\<close> and \<open>logical_partition\<close> define the partitions of a disk, and \<open>as_recorded\<close> says what the kernel makes of one.
\<close>

section \<open>Model\<close>

abbreviation (input) PART_TYPE_PRIMARY :: byte where "PART_TYPE_PRIMARY \<equiv> 1"
abbreviation (input) PART_TYPE_EXTENDED :: byte where "PART_TYPE_EXTENDED \<equiv> 2"
abbreviation (input) PART_TYPE_LOGIC :: byte where "PART_TYPE_LOGIC \<equiv> 3"

record part_st =
  sysid :: byte
  LBA_first_sector :: u32
  total_sectors :: u32

record partition_st =
  pn_id :: byte
  pn_type :: byte
  pn_number :: u32
  pn_init :: u64
  pn_length :: u64

record part_table_st =
  pt_size :: u32
  pt_partitions :: "partition_st list"
  pt_diskid_low :: u32
  pt_diskid_high :: u32

text \<open>The 16 bytes of a partition entry at offset \<open>p\<close> of a sector; the other fields are not used.\<close>

definition part_at :: "byte list \<Rightarrow> nat \<Rightarrow> part_st" where
  "part_at bs p = \<lparr>sysid = bs ! (p + 4),
     LBA_first_sector = bytes32 (bs ! (p + 8)) (bs ! (p + 9)) (bs ! (p + 10)) (bs ! (p + 11)),
     total_sectors = bytes32 (bs ! (p + 12)) (bs ! (p + 13)) (bs ! (p + 14)) (bs ! (p + 15))\<rparr>"

text \<open>Offsets in \<open>mbr_st\<close> and \<open>ebr_st\<close>.\<close>

definition mbr_partition :: "byte list \<Rightarrow> nat \<Rightarrow> part_st" where
  "mbr_partition bs i = part_at bs (446 + 16 * i)"

definition ebr_partition :: "byte list \<Rightarrow> part_st" where
  "ebr_partition bs = part_at bs 446"

definition ebr_next :: "byte list \<Rightarrow> part_st" where
  "ebr_next bs = part_at bs 462"

definition is_extended :: "part_st \<Rightarrow> bool" where
  "is_extended part = (sysid part = 0x05 \<or> sysid part = 0x0f)"

text \<open>First pass: the chain of extended boot records, then the four primary entries.\<close>

partial_function (option) count_ebrs ::
  "(u64 \<Rightarrow> 's \<Rightarrow> (byte list \<times> 's) option) \<Rightarrow> byte \<Rightarrow> u32 \<Rightarrow> u32 \<Rightarrow> 's \<Rightarrow> (u32 \<times> 's) option" where
  "count_ebrs rd epart_sysid fsector count st =
     (if epart_sysid \<noteq> 0 then do {
        (ebr, st1) \<leftarrow> rd (ucast fsector) st;
        count_ebrs rd (sysid (ebr_next ebr)) (fsector + LBA_first_sector (ebr_next ebr)) (count + 1) st1
      } else Some (count, st))"

fun count_parts ::
  "(u64 \<Rightarrow> 's \<Rightarrow> (byte list \<times> 's) option) \<Rightarrow> part_st list \<Rightarrow> u32 \<Rightarrow> 's \<Rightarrow> (u32 \<times> 's) option" where
  "count_parts rd [] count st = Some (count, st)"
| "count_parts rd (part # parts) count st =
     (if sysid part \<noteq> 0 then do {
        (count1, st1) \<leftarrow> (if is_extended part
           then count_ebrs rd (sysid part) (LBA_first_sector part) count st else Some (count, st));
        count_parts rd parts (count1 + 1) st1
      } else count_parts rd parts count st)"

text \<open>Second pass; \<open>partitions[pos] = p\<close>.\<close>

definition set_partition :: "partition_st list \<Rightarrow> nat \<Rightarrow> partition_st \<Rightarrow> partition_st list option" where
  "set_partition ps pos p = (if pos < length ps then Some (ps[pos := p]) else None)"

partial_function (option) fill_ebrs ::
  "(u64 \<Rightarrow> 's \<Rightarrow> (byte list \<times> 's) option) \<Rightarrow> byte \<Rightarrow> u32 \<Rightarrow> u32 \<Rightarrow> partition_st list \<Rightarrow> nat \<Rightarrow> 's
    \<Rightarrow> (partition_st list \<times> nat \<times> 's) option" where
  "fill_ebrs rd epart_sysid fsector exnum ps pos st =
     (if epart_sysid \<noteq> 0 then do {
        (ebr, st1) \<leftarrow> rd (ucast fsector) st;
        let epart = ebr_partition ebr;
        ps1 \<leftarrow> set_partition ps pos \<lparr>pn_id = sysid epart, pn_type = PART_TYPE_LOGIC, pn_number = exnum,
                 pn_init = ucast fsector, pn_length = ucast (total_sectors epart)\<rparr>;
        fill_ebrs rd (sysid (ebr_next ebr)) (fsector + LBA_first_sector (ebr_next ebr)) (exnum + 1) ps1 (pos + 1) st1
      } else Some (ps, pos, st))"

definition mbr_entry :: "part_st \<Rightarrow> byte \<Rightarrow> nat \<Rightarrow> partition_st" where
  "mbr_entry part type i = \<lparr>pn_id = sysid part, pn_type = type, pn_number = of_nat (i + 1),
     pn_init = ucast (LBA_first_sector part), pn_length = ucast (total_sectors part)\<rparr>"

fun fill_parts ::
  "(u64 \<Rightarrow> 's \<Rightarrow> (byte list \<times> 's) option) \<Rightarrow> nat \<Rightarrow> part_st list \<Rightarrow> partition_st list \<Rightarrow> nat \<Rightarrow> 's
    \<Rightarrow> (partition_st list \<times> nat \<times> 's) option" where
  "fill_parts rd i [] ps pos st = Some (ps, pos, st)"
| "fill_parts rd i (part # parts) ps pos st =
     (if sysid part \<noteq> 0 then do {
        (ps2, pos2, st2) \<leftarrow> (if is_extended part then do {
             ps1 \<leftarrow> set_partition ps pos (mbr_entry part PART_TYPE_EXTENDED i);
             fill_ebrs rd (sysid part) (LBA_first_sector part) 5 ps1 (pos + 1) st
           } else do {
             ps1 \<leftarrow> set_partition ps pos (mbr_entry part PART_TYPE_PRIMARY i);
             Some (ps1, pos + 1, st)
           });
        fill_parts rd (i + 1) parts ps2 pos2 st2
      } else fill_parts rd (i + 1) parts ps pos st)"

text \<open>The inner \<open>None\<close> is the result \<open>NULL\<close>; \<open>old\<close> is what the memory of the table held when it was allocated.\<close>

definition parse_mbr ::
  "(u64 \<Rightarrow> 's \<Rightarrow> (byte list \<times> 's) option) \<Rightarrow> ptr \<Rightarrow> ptr \<Rightarrow> (nat \<Rightarrow> partition_st) \<Rightarrow> 's
    \<Rightarrow> (part_table_st option \<times> 's) option" where
  "parse_mbr rd ptable partitions old st = do {
     (mbr, st1) \<leftarrow> rd 0 st;
     if mbr ! 510 \<noteq> 0x55 \<or> mbr ! 511 \<noteq> 0xaa then Some (None, st1)
     else if ptable = NULL then Some (None, st1)
     else do {
       let parts = map (mbr_partition mbr) [0..<4];
       (count, st2) \<leftarrow> count_parts rd parts 0 st1;
       if partitions = NULL then Some (None, st2)
       else do {
         (ps, pos, st3) \<leftarrow> fill_parts rd 0 parts (map old [0..<unat count]) 0 st2;
         Some (Some \<lparr>pt_size = count, pt_partitions = ps,
           pt_diskid_low = bytes32 (mbr ! 440) (mbr ! 441) (mbr ! 442) (mbr ! 443),
           pt_diskid_high = ucast (bytes16 (mbr ! 444) (mbr ! 445))\<rparr>, st3)
       }
     }
   }"

text \<open>The loop of \<open>translate_part_address\<close> from index \<open>i\<close> on, with \<open>n\<close> rounds left; the result and
  the new value of \<^verbatim>\<open>*diskaddr\<close>.\<close>

fun translate_loop :: "partition_st list \<Rightarrow> nat \<Rightarrow> nat \<Rightarrow> u64 \<Rightarrow> u32 \<Rightarrow> u64 \<Rightarrow> (int \<times> u64) option" where
  "translate_loop ps i 0 diskaddr pnumber paddress = Some (-1, diskaddr)"
| "translate_loop ps i (Suc n) diskaddr pnumber paddress =
     (if i < length ps then
        let part = ps ! i in
        if pn_number part = pnumber then
          if paddress > pn_length part then Some (-1, diskaddr)
          else Some (0, pn_init part + paddress)
        else translate_loop ps (i + 1) n diskaddr pnumber paddress
      else None)"

text \<open>A \<open>NULL\<close> table, which the driver has for a disk without one, has no result.\<close>

definition translate_part_address :: "part_table_st option \<Rightarrow> u64 \<Rightarrow> u32 \<Rightarrow> u64 \<Rightarrow> (int \<times> u64) option" where
  "translate_part_address ptable diskaddr pnumber paddress = do {
     pt \<leftarrow> ptable;
     translate_loop (pt_partitions pt) 0 (unat (pt_size pt)) diskaddr pnumber paddress
   }"

section \<open>What the parser reads\<close>

text \<open>The extended boot records as the parser follows them: the sectors they are read from, in order. It adds the address of
  the next record to that of the last one.\<close>

fun ebr_chain :: "(u64 \<Rightarrow> byte list) \<Rightarrow> byte \<Rightarrow> u32 \<Rightarrow> u32 list \<Rightarrow> bool" where
  "ebr_chain disk sid f [] = (sid = 0)"
| "ebr_chain disk sid f (a # as) = (sid \<noteq> 0 \<and> a = f \<and>
     (let nxt = ebr_next (disk (ucast a)) in ebr_chain disk (sysid nxt) (f + LBA_first_sector nxt) as))"

definition logic_entry :: "(u64 \<Rightarrow> byte list) \<Rightarrow> nat \<Rightarrow> u32 \<Rightarrow> partition_st" where
  "logic_entry disk k a = (let e = ebr_partition (disk (ucast a)) in
     \<lparr>pn_id = sysid e, pn_type = PART_TYPE_LOGIC, pn_number = of_nat (5 + k), pn_init = ucast a,
      pn_length = ucast (total_sectors e)\<rparr>)"

fun logic_entries :: "(u64 \<Rightarrow> byte list) \<Rightarrow> nat \<Rightarrow> u32 list \<Rightarrow> partition_st list" where
  "logic_entries disk k [] = []"
| "logic_entries disk k (a # as) = logic_entry disk k a # logic_entries disk (k + 1) as"

text \<open>The table entries that come from entry \<open>i\<close> of the boot record, whose chain is \<open>as\<close>.\<close>

definition entry_partitions :: "(u64 \<Rightarrow> byte list) \<Rightarrow> nat \<Rightarrow> part_st \<Rightarrow> u32 list \<Rightarrow> partition_st list" where
  "entry_partitions disk i part as =
     (if sysid part = 0 then []
      else if is_extended part then mbr_entry part PART_TYPE_EXTENDED i # logic_entries disk 0 as
      else [mbr_entry part PART_TYPE_PRIMARY i])"

fun disk_partitions :: "(u64 \<Rightarrow> byte list) \<Rightarrow> nat \<Rightarrow> (part_st \<times> u32 list) list \<Rightarrow> partition_st list" where
  "disk_partitions disk i [] = []"
| "disk_partitions disk i ((part, as) # es) = entry_partitions disk i part as @ disk_partitions disk (i + 1) es"

definition chain_ok :: "(u64 \<Rightarrow> byte list) \<Rightarrow> part_st \<times> u32 list \<Rightarrow> bool" where
  "chain_ok disk e = (is_extended (fst e) \<longrightarrow> ebr_chain disk (sysid (fst e)) (LBA_first_sector (fst e)) (snd e))"

lemma ebr_chain_Cons:
  assumes "ebr_chain disk sid f (a # as)"
  shows "sid \<noteq> 0" "a = f"
    "ebr_chain disk (sysid (ebr_next (disk (ucast f)))) (f + LBA_first_sector (ebr_next (disk (ucast f)))) as"
  using assms by (auto simp: Let_def)

lemma length_logic_entries [simp]: "length (logic_entries disk k as) = length as"
  by (induction as arbitrary: k) simp_all

lemma set_partition_next: "set_partition (xs @ y # ys) (length xs) p = Some ((xs @ [p]) @ ys)"
  by (simp add: set_partition_def)

text \<open>
  What the parser needs from a block device: in every state that satisfies \<open>inv\<close> a read delivers the sector of the
  disk and leads to such a state again.
\<close>

locale sector_source =
  fixes rd :: "u64 \<Rightarrow> 's \<Rightarrow> (byte list \<times> 's) option"
    and disk :: "u64 \<Rightarrow> byte list"
    and inv :: "'s \<Rightarrow> bool"
  assumes reads: "inv st \<Longrightarrow> \<exists>st'. rd a st = Some (disk a, st') \<and> inv st'"
begin

lemma count_ebrs_chain:
  "ebr_chain disk sid f as \<Longrightarrow> inv st \<Longrightarrow> \<exists>st'. count_ebrs rd sid f count st = Some (count + of_nat (length as), st') \<and> inv st'"
proof (induction as arbitrary: sid f count st)
  case Nil
  then show ?case by (simp add: count_ebrs.simps)
next
  case (Cons a as)
  note c = ebr_chain_Cons [OF Cons.prems(1)]
  obtain st1 where st1: "rd (ucast f) st = Some (disk (ucast f), st1)" "inv st1" using reads [OF Cons.prems(2)] by blast
  have "count_ebrs rd sid f count st = count_ebrs rd
      (sysid (ebr_next (disk (ucast f)))) (f + LBA_first_sector (ebr_next (disk (ucast f)))) (count + 1) st1"
    using c(1) st1(1) by (subst count_ebrs.simps) simp
  then show ?case using c(2) Cons.IH [OF c(3) st1(2), of "count + 1"] by (simp add: algebra_simps)
qed

lemma count_parts_ok:
  "\<forall>e\<in>set es. chain_ok disk e \<Longrightarrow> inv st \<Longrightarrow>
   \<exists>st'. count_parts rd (map fst es) count st = Some (count + of_nat (length (disk_partitions disk i es)), st') \<and> inv st'"
proof (induction es arbitrary: count i st)
  case Nil
  then show ?case by simp
next
  case (Cons e es)
  obtain part as where e: "e = (part, as)" by (cases e)
  have IH: "\<exists>st'. count_parts rd (map fst es) c s = Some (c + of_nat (length (disk_partitions disk (i + 1) es)), st') \<and> inv st'"
    if "inv s" for c s using Cons.IH [OF _ that] Cons.prems by simp
  show ?case
  proof (cases "is_extended part \<and> sysid part \<noteq> 0")
    case True
    then obtain st1 where st1: "count_ebrs rd (sysid part) (LBA_first_sector part) count st = Some (count + of_nat (length as), st1)" "inv st1"
      using count_ebrs_chain [OF _ Cons.prems(2), of "sysid part" "LBA_first_sector part" as count] Cons.prems(1) e
      by (auto simp: chain_ok_def)
    from IH [OF st1(2), of "count + of_nat (length as) + 1"] st1(1) True e show ?thesis
      by (auto simp: entry_partitions_def algebra_simps)
  next
    case False
    then show ?thesis using IH [OF Cons.prems(2), of "count + 1"] IH [OF Cons.prems(2), of count] e
      by (auto simp: entry_partitions_def algebra_simps)
  qed
qed

lemma fill_ebrs_chain:
  assumes "ebr_chain disk sid f as" and "length as \<le> length ys" and "inv st"
  shows "\<exists>st'. fill_ebrs rd sid f (of_nat (5 + k)) (xs @ ys) (length xs) st
    = Some (xs @ logic_entries disk k as @ drop (length as) ys, length xs + length as, st') \<and> inv st'"
  using assms
proof (induction as arbitrary: sid f k xs ys st)
  case Nil
  then show ?case by (simp add: fill_ebrs.simps)
next
  case (Cons a as)
  obtain y ys' where ys: "ys = y # ys'" using Cons.prems by (cases ys) auto
  note c = ebr_chain_Cons [OF Cons.prems(1)]
  let ?nxt = "ebr_next (disk (ucast f))"
  obtain st1 where st1: "rd (ucast f) st = Some (disk (ucast f), st1)" "inv st1" using reads [OF Cons.prems(3)] by blast
  have "fill_ebrs rd sid f (of_nat (5 + k)) (xs @ ys) (length xs) st
      = fill_ebrs rd (sysid ?nxt) (f + LBA_first_sector ?nxt) (of_nat (5 + Suc k))
          ((xs @ [logic_entry disk k a]) @ ys') (length (xs @ [logic_entry disk k a])) st1"
    using c(1,2) st1(1)
    by (subst fill_ebrs.simps) (simp add: set_partition_next ys Let_def logic_entry_def add.commute)
  also have "\<exists>st'. \<dots> = Some (((xs @ [logic_entry disk k a]) @ logic_entries disk (Suc k) as @ drop (length as) ys'),
      length (xs @ [logic_entry disk k a]) + length as, st') \<and> inv st'"
    using c(3) Cons.prems(2) ys st1(2) by (intro Cons.IH) simp_all
  finally show ?case using ys by simp
qed

lemma fill_parts_ok:
  assumes "\<forall>e\<in>set es. chain_ok disk e" and "length (disk_partitions disk i es) \<le> length ys" and "inv st"
  shows "\<exists>st'. fill_parts rd i (map fst es) (xs @ ys) (length xs) st
    = Some (xs @ disk_partitions disk i es @ drop (length (disk_partitions disk i es)) ys,
        length xs + length (disk_partitions disk i es), st') \<and> inv st'"
  using assms
proof (induction es arbitrary: i xs ys st)
  case Nil
  then show ?case by simp
next
  case (Cons e es)
  obtain part as where e: "e = (part, as)" by (cases e)
  let ?E = "entry_partitions disk i part as"
  have len: "length ?E \<le> length ys" using Cons.prems(2) e by simp
  have IH: "\<exists>st'. fill_parts rd (i + 1) (map fst es) ((xs @ ?E) @ drop (length ?E) ys) (length (xs @ ?E)) s
    = Some ((xs @ ?E) @ disk_partitions disk (i + 1) es @ drop (length (disk_partitions disk (i + 1) es)) (drop (length ?E) ys),
        length (xs @ ?E) + length (disk_partitions disk (i + 1) es), st') \<and> inv st'" if "inv s" for s
    using Cons.prems e that by (intro Cons.IH) auto
  consider (empty) "sysid part = 0" | (ext) "sysid part \<noteq> 0" "is_extended part"
    | (prim) "sysid part \<noteq> 0" "\<not> is_extended part" by blast
  then show ?case
  proof cases
    case empty
    then show ?thesis using IH [OF Cons.prems(3)] e by (simp add: entry_partitions_def)
  next
    case ext
    obtain y ys' where ys: "ys = y # ys'" using len ext by (cases ys) (auto simp: entry_partitions_def)
    have "ebr_chain disk (sysid part) (LBA_first_sector part) as"
      using Cons.prems(1) e ext by (simp add: chain_ok_def)
    from fill_ebrs_chain [OF this _ Cons.prems(3), of ys' 0 "xs @ [mbr_entry part PART_TYPE_EXTENDED i]"] len ext ys
    obtain st1 where "fill_ebrs rd (sysid part) (LBA_first_sector part) 5 (xs @ mbr_entry part PART_TYPE_EXTENDED i # ys') (Suc (length xs)) st
        = Some (xs @ mbr_entry part PART_TYPE_EXTENDED i # logic_entries disk 0 as @ drop (length as) ys', Suc (length xs) + length as, st1)" "inv st1"
      by (auto simp: entry_partitions_def)
    then show ?thesis using IH [of st1] len ext e ys
      by (auto simp: entry_partitions_def set_partition_next add.commute [of "length as"])
  next
    case prim
    obtain y ys' where ys: "ys = y # ys'" using len prim by (cases ys) (auto simp: entry_partitions_def)
    then show ?thesis using IH [OF Cons.prems(3)] prim e by (simp add: entry_partitions_def set_partition_next)
  qed
qed

lemma parse_mbr_ok:
  assumes sig: "disk 0 ! 510 = 0x55" "disk 0 ! 511 = 0xaa"
    and alloc: "ptable \<noteq> NULL" "partitions \<noteq> NULL"
    and es: "map fst es = map (mbr_partition (disk 0)) [0..<4]"
    and chains: "\<forall>e\<in>set es. chain_ok disk e"
    and small: "length (disk_partitions disk 0 es) < 2 ^ 32" and "inv st"
  shows "\<exists>pt st'. parse_mbr rd ptable partitions old st = Some (Some pt, st') \<and> inv st'
    \<and> pt_partitions pt = disk_partitions disk 0 es \<and> unat (pt_size pt) = length (pt_partitions pt)"
proof -
  let ?ps = "disk_partitions disk 0 es"
  have n: "unat (of_nat (length ?ps) :: u32) = length ?ps" using small by (intro unat_of_nat_small_u32) simp
  obtain st1 where st1: "rd 0 st = Some (disk 0, st1)" "inv st1" using reads [OF \<open>inv st\<close>] by blast
  obtain st2 where st2: "count_parts rd (map (mbr_partition (disk 0)) [0..<4]) 0 st1 = Some (of_nat (length ?ps), st2)" "inv st2"
    using count_parts_ok [OF chains st1(2), where count = 0 and i = 0] es by auto
  obtain st3 where "fill_parts rd 0 (map (mbr_partition (disk 0)) [0..<4])
      (map old [0..<length ?ps]) 0 st2 = Some (?ps, length ?ps, st3)" "inv st3"
    using fill_parts_ok [OF chains _ st2(2), where i = 0 and xs = "[]" and ys = "map old [0..<length ?ps]"] es by auto
  then show ?thesis unfolding parse_mbr_def using sig alloc n st1(1) st2(1)
    by (simp add: Let_def del: upt_rec_numeral upt_conv_Cons)
qed

end

section \<open>The table of a disk\<close>

text \<open>
  The format of the tables: the entries of the master boot record, and for an extended partition a chain of boot records,
  each of which describes a logical partition. The addresses in a chain have two bases: the next record is found relative
  to the extended partition, the first block of a logical partition relative to its own record.
\<close>

fun ext_chain :: "(u64 \<Rightarrow> byte list) \<Rightarrow> u32 \<Rightarrow> byte \<Rightarrow> u32 \<Rightarrow> u32 list \<Rightarrow> bool" where
  "ext_chain disk base sid f [] = (sid = 0)"
| "ext_chain disk base sid f (a # as) = (sid \<noteq> 0 \<and> a = f \<and>
     (let nxt = ebr_next (disk (ucast a)) in ext_chain disk base (sysid nxt) (base + LBA_first_sector nxt) as))"

definition logical_partition :: "(u64 \<Rightarrow> byte list) \<Rightarrow> nat \<Rightarrow> u32 \<Rightarrow> partition_st" where
  "logical_partition disk k a = (let e = ebr_partition (disk (ucast a)) in
     \<lparr>pn_id = sysid e, pn_type = PART_TYPE_LOGIC, pn_number = of_nat (5 + k),
      pn_init = ucast a + ucast (LBA_first_sector e), pn_length = ucast (total_sectors e)\<rparr>)"

text \<open>A partition together with the sector of the record that describes it.\<close>

fun logical_partitions :: "(u64 \<Rightarrow> byte list) \<Rightarrow> nat \<Rightarrow> u32 list \<Rightarrow> (partition_st \<times> u32) list" where
  "logical_partitions disk k [] = []"
| "logical_partitions disk k (a # as) = (logical_partition disk k a, a) # logical_partitions disk (k + 1) as"

definition listed_partition :: "part_st \<Rightarrow> nat \<Rightarrow> partition_st" where
  "listed_partition part i = \<lparr>pn_id = sysid part, pn_type = (if is_extended part then PART_TYPE_EXTENDED else PART_TYPE_PRIMARY),
     pn_number = of_nat (i + 1), pn_init = ucast (LBA_first_sector part), pn_length = ucast (total_sectors part)\<rparr>"

fun format_partitions :: "(u64 \<Rightarrow> byte list) \<Rightarrow> nat \<Rightarrow> (part_st \<times> u32 list) list \<Rightarrow> (partition_st \<times> u32) list" where
  "format_partitions disk i [] = []"
| "format_partitions disk i ((part, as) # es) =
     (if sysid part = 0 then []
      else (listed_partition part i, 0) # (if is_extended part then logical_partitions disk 0 as else []))
     @ format_partitions disk (i + 1) es"

definition format_ok :: "(u64 \<Rightarrow> byte list) \<Rightarrow> part_st \<times> u32 list \<Rightarrow> bool" where
  "format_ok disk e \<longleftrightarrow> (is_extended (fst e) \<longrightarrow>
     ext_chain disk (LBA_first_sector (fst e)) (sysid (fst e)) (LBA_first_sector (fst e)) (snd e))"

text \<open>What the parser keeps of a partition: as the start of a logical one it takes its boot record.\<close>

definition as_recorded :: "partition_st \<times> u32 \<Rightarrow> partition_st" where
  "as_recorded = (\<lambda>(p, a). if pn_type p = PART_TYPE_LOGIC then p\<lparr>pn_init := ucast a\<rparr> else p)"

lemma logic_entries_recorded: "logic_entries disk k as = map as_recorded (logical_partitions disk k as)"
  by (induction as arbitrary: k) (simp_all add: logic_entry_def logical_partition_def as_recorded_def Let_def)

lemma disk_partitions_recorded: "disk_partitions disk i es = map as_recorded (format_partitions disk i es)"
proof (induction es arbitrary: i)
  case (Cons e es)
  then show ?case
    by (cases e) (simp add: entry_partitions_def logic_entries_recorded as_recorded_def listed_partition_def mbr_entry_def)
qed simp

lemma length_format_partitions:
  "\<forall>e\<in>set es. length (snd e) \<le> 2 \<Longrightarrow> length (format_partitions disk i es) \<le> 3 * length es"
proof (induction es arbitrary: i)
  case (Cons e es)
  have "length (logical_partitions disk k as) = length as" for k as by (induction as arbitrary: k) simp_all
  then show ?case using Cons.IH [of "i + 1"] Cons.prems by (cases e) auto
qed simp

text \<open>The parser follows the chain of an extended partition rightly up to the second record.\<close>

lemma ext_chain_followed:
  assumes "format_ok disk e" "length (snd e) \<le> 2"
  shows "chain_ok disk e"
proof -
  obtain part as where e: "e = (part, as)" by (cases e)
  consider "as = []" | a where "as = [a]" | a b where "as = [a, b]"
    using assms(2) e by (cases as; cases "tl as") auto
  then show ?thesis using assms(1) by cases (auto simp: e chain_ok_def format_ok_def Let_def)
qed

text \<open>A boot record with one primary and one extended partition, which holds one logical partition.\<close>

definition entry_bytes :: "byte \<Rightarrow> u32 \<Rightarrow> u32 \<Rightarrow> byte list" where
  "entry_bytes sid first amount = [0, 0, 0, 0, sid, 0, 0, 0] @ byte_list32 first @ byte_list32 amount"

definition example_disk :: "u64 \<Rightarrow> byte list" where
  "example_disk a =
     (if a = 0 then replicate 446 0 @ entry_bytes 0x83 63 1000 @ entry_bytes 0x05 1063 500 @ replicate 32 0 @ [0x55, 0xaa]
      else if a = 1063 then replicate 446 0 @ entry_bytes 0x83 63 437 @ replicate 50 0
      else replicate 512 0)"

definition example_entries :: "(part_st \<times> u32 list) list" where
  "example_entries = zip (map (mbr_partition (example_disk 0)) [0..<4]) [[], [1063], [], []]"

lemma example_disk_ok:
  "example_disk 0 ! 510 = 0x55" "example_disk 0 ! 511 = 0xaa" "\<forall>e\<in>set example_entries. chain_ok example_disk e"
  "map fst example_entries = map (mbr_partition (example_disk 0)) [0..<4]"
  "map pn_number (disk_partitions example_disk 0 example_entries) = [1, 2, 5]"
  "map pn_init (disk_partitions example_disk 0 example_entries) = [63, 1063, 1063]"
  "length (disk_partitions example_disk 0 example_entries) < 2 ^ 32" "\<forall>e\<in>set example_entries. format_ok example_disk e"
  "map (\<lambda>(p, a). pn_init p) (format_partitions example_disk 0 example_entries) = [63, 1063, 1126]"
proof -
  show "\<forall>e\<in>set example_entries. format_ok example_disk e"
    "map (\<lambda>(p, a). pn_init p) (format_partitions example_disk 0 example_entries) = [63, 1063, 1126]" by code_simp+
  show "example_disk 0 ! 510 = 0x55" "example_disk 0 ! 511 = 0xaa" "\<forall>e\<in>set example_entries. chain_ok example_disk e"
    "map pn_number (disk_partitions example_disk 0 example_entries) = [1, 2, 5]"
    "map pn_init (disk_partitions example_disk 0 example_entries) = [63, 1063, 1063]" by code_simp+
  show "map fst example_entries = map (mbr_partition (example_disk 0)) [0..<4]" by (simp add: example_entries_def)
  have "length (disk_partitions example_disk 0 example_entries) = 3" by code_simp
  then show "length (disk_partitions example_disk 0 example_entries) < 2 ^ 32" by simp
qed

text \<open>\<open>translate_part_address\<close> takes the first partition with the number it is given: an address up to
  and including the partition's length is translated to the partition's first sector plus the address,
  any other is refused and leaves \<^verbatim>\<open>*diskaddr\<close> as it was, as does a number that is not in the table. The
  address that equals the length is accepted and lies one sector behind the partition.\<close>
theorem translate_part_address_result:
  assumes "unat (pt_size pt) = length (pt_partitions pt)"
  shows "translate_part_address (Some pt) d k a =
    (case find (\<lambda>p. pn_number p = k) (pt_partitions pt) of
       None \<Rightarrow> Some (-1, d)
     | Some p \<Rightarrow> if a \<le> pn_length p then Some (0, pn_init p + a) else Some (-1, d))"
proof -
  have "translate_loop (xs @ ys) (length xs) (length ys) d k a =
    (case find (\<lambda>p. pn_number p = k) ys of
       None \<Rightarrow> Some (-1, d)
     | Some p \<Rightarrow> if a \<le> pn_length p then Some (0, pn_init p + a) else Some (-1, d))" for xs ys
  proof (induction ys arbitrary: xs)
    case Nil
    then show ?case by simp
  next
    case (Cons y ys)
    show ?case using Cons [of "xs @ [y]"] by (simp add: Let_def not_le [symmetric])
  qed
  from this [of "[]"] show ?thesis using assms by (simp add: translate_part_address_def)
qed

theorem translate_part_address_result_witness:
  "translate_part_address (Some \<lparr>pt_size = 2,
      pt_partitions = [mbr_entry (part_at (entry_bytes 0x83 63 1000) 0) 1 0, mbr_entry (part_at (entry_bytes 0x83 1063 500) 0) 1 1],
      pt_diskid_low = 0, pt_diskid_high = 0\<rparr>) 7 1 1000 = Some (0, 1063)"
proof -
  have e: "part_at (entry_bytes 0x83 63 1000) 0 = \<lparr>sysid = 0x83, LBA_first_sector = 63, total_sectors = 1000\<rparr>" by code_simp
  show ?thesis by (subst translate_part_address_result) (simp_all add: mbr_entry_def e)
qed

end
