(* ===== verification/Port_Io.thy ===== *)
theory Port_Io
  imports Prelude
begin

text \<open>
  The hardware behind the I/O instructions of \<^verbatim>\<open>include/arch/io.h\<close>. What a port answers is not part of
  the program: a \<open>machine\<close> over an arbitrary state \<open>'h\<close> is an argument of every driver operation.
  Time is part of it: \<open>jiffies\<close> is counted by the timer interrupt, which may run between any two
  instructions, so the counter is read from the state and any instruction may advance it.

  \<open>traced m\<close> is the machine \<open>m\<close> with a record of everything written to a port; a statement about
  \<open>traced m\<close> for every \<open>m\<close> says what a driver sends, whatever the devices answer.
\<close>

record 'h machine =
  inb :: "u16 \<Rightarrow> 'h \<Rightarrow> byte \<times> 'h"
  inw :: "u16 \<Rightarrow> 'h \<Rightarrow> u16 \<times> 'h"
  outb :: "byte \<Rightarrow> u16 \<Rightarrow> 'h \<Rightarrow> 'h"
  outw :: "u16 \<Rightarrow> u16 \<Rightarrow> 'h \<Rightarrow> 'h"
  jiffies :: "'h \<Rightarrow> u32"
  udelay :: "u32 \<Rightarrow> 'h \<Rightarrow> 'h"

abbreviation (input) HZ :: u32 where "HZ \<equiv> 250"

text \<open>\<^verbatim>\<open>time_after\<close> of \<^verbatim>\<open>include/tempos/jiffies.h\<close>: the sign of the wrapped difference.\<close>

definition time_after :: "u32 \<Rightarrow> u32 \<Rightarrow> bool" where
  "time_after a b = (sint (b - a) < 0)"

lemma time_after_irrefl [simp]: "\<not> time_after t t"
  by (simp add: time_after_def)

datatype io_event = OutB byte u16 | OutW u16 u16

definition traced :: "'h machine \<Rightarrow> ('h \<times> io_event list) machine" where
  "traced m = \<lparr>
     inb = (\<lambda>p (h, tr). let (v, h') = inb m p h in (v, (h', tr))),
     inw = (\<lambda>p (h, tr). let (v, h') = inw m p h in (v, (h', tr))),
     outb = (\<lambda>v p (h, tr). (outb m v p h, tr @ [OutB v p])),
     outw = (\<lambda>v p (h, tr). (outw m v p h, tr @ [OutW v p])),
     jiffies = (\<lambda>(h, tr). jiffies m h),
     udelay = (\<lambda>n (h, tr). (udelay m n h, tr))\<rparr>"

lemma traced_simps [simp]:
  "inb (traced m) p (h, tr) = (fst (inb m p h), snd (inb m p h), tr)"
  "inw (traced m) p (h, tr) = (fst (inw m p h), snd (inw m p h), tr)"
  "outb (traced m) v p (h, tr) = (outb m v p h, tr @ [OutB v p])"
  "outw (traced m) w p (h, tr) = (outw m w p h, tr @ [OutW w p])"
  "jiffies (traced m) (h, tr) = jiffies m h"
  "udelay (traced m) n (h, tr) = (udelay m n h, tr)"
  by (simp_all add: traced_def split: prod.splits)

section \<open>Polling\<close>

text \<open>
  The waiting loops of the drivers: the state is looked at again and again (\<open>nxt\<close>) until it is as wanted (\<open>stop\<close>);
  then the loop ends with \<open>fin\<close> of that state. A driver that waits in this way relies on its device to come to such
  a state; \<open>returns\<close> is the termination argument that the drivers share.
\<close>

locale polling =
  fixes loop :: "'s \<Rightarrow> 'r option"
    and stop :: "'s \<Rightarrow> bool"
    and nxt :: "'s \<Rightarrow> 's"
    and fin :: "'s \<Rightarrow> 'r"
  assumes unfold: "loop s = (if stop s then Some (fin s) else loop (nxt s))"
begin

lemma returns:
  assumes "stop ((nxt ^^ n) s)"
  shows "\<exists>k \<le> n. loop s = Some (fin ((nxt ^^ k) s)) \<and> stop ((nxt ^^ k) s) \<and> (\<forall>j < k. \<not> stop ((nxt ^^ j) s))"
  using assms
proof (induction n arbitrary: s)
  case 0
  then show ?case by (simp add: unfold)
next
  case (Suc n)
  show ?case
  proof (cases "stop s")
    case True
    then show ?thesis using unfold [of s] by (intro exI [of _ 0]) simp
  next
    case False
    from Suc.prems have "stop ((nxt ^^ n) (nxt s))" by (simp add: funpow_swap1)
    from Suc.IH [OF this] obtain k where k: "k \<le> n" "loop (nxt s) = Some (fin ((nxt ^^ k) (nxt s)))"
      "stop ((nxt ^^ k) (nxt s))" "\<forall>j < k. \<not> stop ((nxt ^^ j) (nxt s))" by blast
    have shift: "(nxt ^^ j) (nxt s) = (nxt ^^ Suc j) s" for j by (simp add: funpow_swap1)
    have "\<not> stop ((nxt ^^ j) s)" if "j < Suc k" for j
      using that k(4) False shift by (cases j) auto
    then show ?thesis using k(1-3) False unfold [of s] shift by (intro exI [of _ "Suc k"]) simp
  qed
qed

end

end
