(* ===== verification/Ata.thy ===== *)
theory Ata
  imports Port_Io Partition Linked_List Buffer_Cache
begin

text \<open>
  The generic ATA driver, \<^verbatim>\<open>drivers/block/ata_generic.c\<close>: probing the two buses, requesting sectors,
  the queues of block requests and the two interrupt handlers. The state has the requests and the buffers
  as typed stores and the queues as lists of \<^verbatim>\<open>lib/linkedl.c\<close>; \<^verbatim>\<open>kmalloc\<close> results are
  arguments. \<^verbatim>\<open>cli\<close>/\<^verbatim>\<open>sti\<close> enclose the whole of a handler and of a request, which are therefore
  single steps; \<^verbatim>\<open>wakeup\<close> calls are recorded. Messages of \<^verbatim>\<open>kprintf\<close> are left out. \<^verbatim>\<open>char\<close> is signed, as it is
  for the compiler flags of \<^verbatim>\<open>kernel/Makefile\<close>.
\<close>

section \<open>Data\<close>

abbreviation (input) PRI_BUS :: nat where "PRI_BUS \<equiv> 0"
abbreviation (input) SEC_BUS :: nat where "SEC_BUS \<equiv> 1"
abbreviation (input) MASTER_DEV :: nat where "MASTER_DEV \<equiv> 0"
abbreviation (input) SLAVE_DEV :: nat where "SLAVE_DEV \<equiv> 1"
abbreviation (input) REG_DATA :: nat where "REG_DATA \<equiv> 0"
abbreviation (input) REG_FERR :: nat where "REG_FERR \<equiv> 1"
abbreviation (input) REG_SC :: nat where "REG_SC \<equiv> 2"
abbreviation (input) REG_SADDR1 :: nat where "REG_SADDR1 \<equiv> 3"
abbreviation (input) REG_SADDR2 :: nat where "REG_SADDR2 \<equiv> 4"
abbreviation (input) REG_SADDR3 :: nat where "REG_SADDR3 \<equiv> 5"
abbreviation (input) REG_DC :: nat where "REG_DC \<equiv> 6"
abbreviation (input) REG_CMD :: nat where "REG_CMD \<equiv> 7"
abbreviation (input) REG_ASTATUS :: nat where "REG_ASTATUS \<equiv> 8"
abbreviation (input) BSY_BIT :: byte where "BSY_BIT \<equiv> 0x80"
abbreviation (input) DF_BIT :: byte where "DF_BIT \<equiv> 0x20"
abbreviation (input) ABRT_BIT :: u16 where "ABRT_BIT \<equiv> 0x04"
abbreviation (input) CMD_RESET :: byte where "CMD_RESET \<equiv> 0x08"
abbreviation (input) CMD_IDENTIFY :: byte where "CMD_IDENTIFY \<equiv> 0xEC"
abbreviation (input) CMD_READ_SECTORS_EXT :: byte where "CMD_READ_SECTORS_EXT \<equiv> 0x24"
abbreviation (input) CMD_WRITE_SECTORS_EXT :: byte where "CMD_WRITE_SECTORS_EXT \<equiv> 0x34"
abbreviation (input) CMD_FLUSH_CACHE_EXT :: byte where "CMD_FLUSH_CACHE_EXT \<equiv> 0xEA"
abbreviation (input) OP_READ :: byte where "OP_READ \<equiv> 0x01"
abbreviation (input) OP_WRITE :: byte where "OP_WRITE \<equiv> 0x02"
abbreviation (input) ATA_DISCARD_NEXT_IRQ :: byte where "ATA_DISCARD_NEXT_IRQ \<equiv> 0x01"
abbreviation (input) ATA_HANDLE_NEXT_IRQ :: byte where "ATA_HANDLE_NEXT_IRQ \<equiv> 0x00"
abbreviation (input) DEVMAJOR_ATA_PRI :: int where "DEVMAJOR_ATA_PRI \<equiv> 3"
abbreviation (input) DEVMAJOR_ATA_SEC :: int where "DEVMAJOR_ATA_SEC \<equiv> 2"
abbreviation (input) DEVNUM_HDA :: int where "DEVNUM_HDA \<equiv> 0"
abbreviation (input) DEVNUM_HDB :: int where "DEVNUM_HDB \<equiv> 64"
abbreviation (input) DEVNUM_HDC :: int where "DEVNUM_HDC \<equiv> 0"
abbreviation (input) DEVNUM_HDD :: int where "DEVNUM_HDD \<equiv> 64"
abbreviation (input) WAIT_INT_IDE_PRI :: int where "WAIT_INT_IDE_PRI \<equiv> 14"
abbreviation (input) WAIT_INT_IDE_SEC :: int where "WAIT_INT_IDE_SEC \<equiv> 15"
abbreviation (input) PRESENT :: byte where "PRESENT \<equiv> 0x01"
abbreviation (input) LBA48 :: byte where "LBA48 \<equiv> 0x02"

record ata_dev_info =
  dv_flags :: byte
  dv_sectors :: u64
  dv_type :: u16
  dv_serial :: "byte list"
  dv_firmware_rev :: "byte list"
  dv_model :: "byte list"
  dv_mult_secs :: u16
  dv_max_secs :: "u16 list"
  dv_capabilities :: "u16 list"
  dv_mult_sec :: u16
  dv_mword_dma :: u16
  dv_major_ver :: u16
  dv_minor_ver :: u16
  dv_cmds_supported :: "u16 list"
  dv_ultra_dma :: u16
  dv_max_lba48 :: "u16 list"

record block_op =
  bo_op :: byte
  bo_device :: int
  bo_buff :: ptr

record 'h ata =
  at_hw :: 'h
  at_queue :: "nat \<Rightarrow> ptr"
  at_nodes :: lheap
  at_bops :: "ptr \<rightharpoonup> block_op"
  at_bufs :: bheap
  at_discard_irq :: "nat \<Rightarrow> byte"
  at_ptable :: "nat \<Rightarrow> part_table_st option"
  at_devices :: "nat \<Rightarrow> ata_dev_info"
  at_wakeups :: "int list"

definition pio_ports :: "nat \<Rightarrow> nat \<Rightarrow> u16" where
  "pio_ports bus reg =
     (if bus = PRI_BUS then [0x1F0, 0x1F1, 0x1F2, 0x1F3, 0x1F4, 0x1F5, 0x1F6, 0x1F7, 0x3F6] ! reg
      else [0x170, 0x171, 0x172, 0x173, 0x174, 0x175, 0x176, 0x177, 0x376] ! reg)"

definition LBA_BYTE :: "u64 \<Rightarrow> nat \<Rightarrow> byte" where
  "LBA_BYTE addr n = ucast (drop_bit (n * 8) addr AND 0xFF)"

section \<open>Controller access\<close>

definition send_cmd :: "'h machine \<Rightarrow> nat \<Rightarrow> byte \<Rightarrow> 'h \<Rightarrow> 'h" where
  "send_cmd m bus command h =
     (if bus = PRI_BUS then outb m command (pio_ports PRI_BUS REG_CMD) h
      else if bus = SEC_BUS then outb m command (pio_ports SEC_BUS REG_CMD) h
      else h)"

text \<open>The busy bit is read first; only when it is set is the clock read. \<open>TIMEOUT\<close> is \<open>HZ / 40\<close> ticks ahead.\<close>

partial_function (option) wait_loop :: "'h machine \<Rightarrow> nat \<Rightarrow> u32 \<Rightarrow> 'h \<Rightarrow> 'h option" where
  "wait_loop m bus timeout h =
     (let (v, h1) = inb m (pio_ports bus REG_CMD) h in
      if v AND BSY_BIT \<noteq> 0 \<and> \<not> time_after (jiffies m h1) timeout
      then wait_loop m bus timeout h1 else Some h1)"

definition wait_bus :: "'h machine \<Rightarrow> nat \<Rightarrow> 'h \<Rightarrow> 'h option" where
  "wait_bus m bus h = wait_loop m bus (jiffies m h + HZ div 40) h"

definition set_device :: "'h machine \<Rightarrow> nat \<Rightarrow> nat \<Rightarrow> 'h \<Rightarrow> 'h" where
  "set_device m bus device h =
     udelay m 400
       (if bus = PRI_BUS then
          if device = MASTER_DEV then outb m 0x40 (pio_ports PRI_BUS REG_DC) h
          else if device = SLAVE_DEV then outb m 0x50 (pio_ports PRI_BUS REG_DC) h
          else h
        else if bus = SEC_BUS then
          if device = MASTER_DEV then outb m 0x40 (pio_ports SEC_BUS REG_DC) h
          else if device = SLAVE_DEV then outb m 0x50 (pio_ports SEC_BUS REG_DC) h
          else h
        else h)"

text \<open>\<open>n\<close> times: wait for the bus and read a word of data.\<close>

fun read_words :: "'h machine \<Rightarrow> nat \<Rightarrow> nat \<Rightarrow> 'h \<Rightarrow> (u16 list \<times> 'h) option" where
  "read_words m bus 0 h = Some ([], h)"
| "read_words m bus (Suc n) h = do {
     h1 \<leftarrow> wait_bus m bus h;
     let (w, h2) = inw m (pio_ports bus REG_DATA) h1;
     (ws, h3) \<leftarrow> read_words m bus n h2;
     Some (w # ws, h3)
   }"

section \<open>Probing\<close>

text \<open>Words of an identification string hold the first character in the high byte.\<close>

definition id_string :: "u16 list \<Rightarrow> byte list" where
  "id_string ws = concat (map (\<lambda>w. [ucast (drop_bit 8 w), ucast (w AND 0x00FF)]) ws)"

definition slice :: "nat \<Rightarrow> nat \<Rightarrow> 'a list \<Rightarrow> 'a list" where
  "slice i j xs = take (j + 1 - i) (drop i xs)"

text \<open>All 256 words of the answer are read one after the other; the loops of the code pick the words named here.\<close>

definition get_dev_info :: "'h machine \<Rightarrow> nat \<Rightarrow> ata_dev_info \<Rightarrow> 'h \<Rightarrow> (int \<times> ata_dev_info \<times> 'h) option" where
  "get_dev_info m bus devinfo h = do {
     (ws, h') \<leftarrow> read_words m bus 256 h;
     Some (1, devinfo\<lparr>dv_type := ws ! 0,
         dv_serial := (id_string (slice 10 19 ws))[19 := 0],
         dv_firmware_rev := (id_string (slice 23 26 ws))[7 := 0],
         dv_model := (id_string (slice 27 46 ws))[39 := 0],
         dv_mult_secs := ws ! 47,
         dv_capabilities := slice 49 50 ws,
         dv_mult_sec := ws ! 59,
         dv_max_secs := slice 60 61 ws,
         dv_mword_dma := ws ! 63,
         dv_major_ver := ws ! 80,
         dv_minor_ver := ws ! 81,
         dv_cmds_supported := slice 82 87 ws,
         dv_ultra_dma := ws ! 88,
         dv_max_lba48 := slice 100 103 ws\<rparr>, h')
   }"

text \<open>A 16-bit word shifted left by 16 is computed as \<^verbatim>\<open>int\<close> and then extended to 64 bits with its sign.\<close>

definition int_shl16 :: "u16 \<Rightarrow> u64" where
  "int_shl16 w = scast (push_bit 16 (ucast w :: u32))"

definition dev_sectors :: "ata_dev_info \<Rightarrow> u64" where
  "dev_sectors d =
     (if (dv_cmds_supported d ! 1) AND 0x0400 \<noteq> 0
      then ucast (dv_max_lba48 d ! 0) OR int_shl16 (dv_max_lba48 d ! 1)
        OR push_bit 32 (ucast (dv_max_lba48 d ! 2)) OR push_bit 48 (ucast (dv_max_lba48 d ! 3))
      else ucast (dv_max_secs d ! 0) OR int_shl16 (dv_max_secs d ! 1))"

text \<open>One round of the probing loop. The test after \<open>CMD_IDENTIFY\<close> looks at the port numbers, not at the ports.\<close>

definition probe_device :: "'h machine \<Rightarrow> nat \<Rightarrow> ata_dev_info \<Rightarrow> 'h \<Rightarrow> (ata_dev_info \<times> 'h) option" where
  "probe_device m i d0 h = do {
     let d = d0\<lparr>dv_flags := 0\<rparr>;
     let bus = (if i \<ge> 2 then SEC_BUS else PRI_BUS);
     let dev = (if i = 0 \<or> i = 2 then MASTER_DEV else SLAVE_DEV);
     h1 \<leftarrow> wait_bus m bus (send_cmd m bus CMD_RESET (set_device m bus dev h));
     let (sc, h2) = inb m (pio_ports bus REG_SC) h1;
     let (saddr1, h3) = inb m (pio_ports bus REG_SADDR1) h2;
     let (saddr2, h4) = inb m (pio_ports bus REG_SADDR2) h3;
     let (saddr3, h5) = inb m (pio_ports bus REG_SADDR3) h4;
     let (status, h6) = inb m (pio_ports bus REG_ASTATUS) h5;
     if sc \<noteq> 0x01 \<and> saddr1 \<noteq> 0x01 \<and> status = 0 then Some (d, h6)
     else if saddr2 = 0x14 \<and> saddr3 = 0xEB then Some (d, h6)
     else do {
       h7 \<leftarrow> wait_bus m bus (send_cmd m bus CMD_IDENTIFY h6);
       if pio_ports bus REG_ASTATUS AND 0x01 \<noteq> 0 \<or> pio_ports bus REG_FERR AND ABRT_BIT \<noteq> 0 then Some (d, h7)
       else do {
         (ok, d1, h8) \<leftarrow> get_dev_info m bus d h7;
         if ok = 0 then Some (d1, h8)
         else if dv_type d1 AND 0x8000 \<noteq> 0 then Some (d1, h8)
         else if (dv_capabilities d1 ! 0) AND 0x0300 = 0 then Some (d1, h8)
         else
           let d2 = (if (dv_cmds_supported d1 ! 1) AND 0x0400 \<noteq> 0 then d1\<lparr>dv_flags := dv_flags d1 OR LBA48\<rparr> else d1);
               d3 = d2\<lparr>dv_sectors := dev_sectors d2\<rparr>
           in Some (d3\<lparr>dv_flags := dv_flags d3 OR PRESENT\<rparr>, h8)
       }
     }
   }"

fun probe_all :: "'h machine \<Rightarrow> nat \<Rightarrow> nat \<Rightarrow> (nat \<Rightarrow> ata_dev_info) \<Rightarrow> 'h \<Rightarrow> ((nat \<Rightarrow> ata_dev_info) \<times> 'h) option" where
  "probe_all m i 0 ds h = Some (ds, h)"
| "probe_all m i (Suc n) ds h = do {
     (d, h1) \<leftarrow> probe_device m i (ds i) h;
     probe_all m (i + 1) n (ds(i := d)) h1
   }"

text \<open>The part of the initialisation that sets up the driver's own state.\<close>

definition init_ata_devices :: "'h machine \<Rightarrow> 'h ata \<Rightarrow> 'h ata option" where
  "init_ata_devices m st = do {
     (ds, h) \<leftarrow> probe_all m 0 4 (at_devices st) (at_hw st);
     Some (st\<lparr>at_devices := ds, at_hw := h,
       at_queue := (\<lambda>i. if i < 4 then snd llist_create else at_queue st i),
       at_discard_irq := (at_discard_irq st)(0 := ATA_HANDLE_NEXT_IRQ, 1 := ATA_HANDLE_NEXT_IRQ)\<rparr>)
   }"

section \<open>Requesting sectors\<close>

text \<open>Bus and device of a read request (\<open>None\<close> is the early \<^verbatim>\<open>return -1\<close>). The devices of the secondary bus are numbered 2 and 3.\<close>

definition read_target :: "int \<Rightarrow> int \<Rightarrow> (nat \<times> nat) option" where
  "read_target major device =
     (if major = DEVMAJOR_ATA_PRI then
        if device \<ge> DEVNUM_HDA \<and> device < DEVNUM_HDB then Some (PRI_BUS, 0)
        else if device \<ge> DEVNUM_HDB then Some (PRI_BUS, 1) else None
      else if major = DEVMAJOR_ATA_SEC then
        if device \<ge> DEVNUM_HDC \<and> device < DEVNUM_HDD then Some (SEC_BUS, 2)
        else if device \<ge> DEVNUM_HDD then Some (SEC_BUS, 3) else None
      else None)"

text \<open>The sector to read; \<open>Some None\<close> is the early \<^verbatim>\<open>return -1\<close>. Only the primary bus has partitions translated.\<close>

definition read_newaddr :: "(nat \<Rightarrow> part_table_st option) \<Rightarrow> nat \<Rightarrow> nat \<Rightarrow> int \<Rightarrow> u64 \<Rightarrow> u64 option option" where
  "read_newaddr pt bus dev device addr =
     (if bus = PRI_BUS \<and> (dev = 0 \<and> device \<noteq> DEVNUM_HDA \<or> dev = 1 \<and> device \<noteq> DEVNUM_HDB) then do {
        (r, newaddr) \<leftarrow> translate_part_address (pt dev) addr (of_int device) addr;
        Some (if r < 0 then None else Some newaddr)
      } else Some (Some addr))"

text \<open>The LBA48 address is written in two halves, and the drive/head register is given the LBA bit.\<close>

definition send_lba48 :: "'h machine \<Rightarrow> nat \<Rightarrow> u64 \<Rightarrow> 'h \<Rightarrow> 'h" where
  "send_lba48 m bus addr h =
     (let h1 = outb m 0x00 (pio_ports bus REG_SC) h;
          h2 = outb m (LBA_BYTE addr 3) (pio_ports bus REG_SADDR1) h1;
          h3 = outb m (LBA_BYTE addr 4) (pio_ports bus REG_SADDR2) h2;
          h4 = outb m (LBA_BYTE addr 5) (pio_ports bus REG_SADDR3) h3;
          h5 = outb m 0x01 (pio_ports bus REG_SC) h4;
          h6 = outb m (LBA_BYTE addr 0) (pio_ports bus REG_SADDR1) h5;
          h7 = outb m (LBA_BYTE addr 1) (pio_ports bus REG_SADDR2) h6;
          h8 = outb m (LBA_BYTE addr 2) (pio_ports bus REG_SADDR3) h7;
          (v, h9) = inb m (pio_ports bus REG_DC) h8;
          dc = v AND 0xF0 OR 0x40
      in outb m dc (pio_ports bus REG_DC) h9)"

text \<open>The error check reads the port \<^verbatim>\<open>pio_ports[bus][REG_FERR] & ABRT_BIT\<close>, and only if the first test is false.\<close>

definition cmd_failed :: "'h machine \<Rightarrow> nat \<Rightarrow> 'h \<Rightarrow> bool \<times> 'h" where
  "cmd_failed m bus h =
     (let (s, h1) = inb m (pio_ports bus REG_ASTATUS) h
      in if s AND DF_BIT \<noteq> 0 then (True, h1)
         else let (e, h2) = inb m (pio_ports bus REG_FERR AND ABRT_BIT) h1 in (e \<noteq> 0, h2))"

definition read_hd_sector ::
  "'h machine \<Rightarrow> (nat \<Rightarrow> part_table_st option) \<Rightarrow> int \<Rightarrow> int \<Rightarrow> u64 \<Rightarrow> 'h \<Rightarrow> (int \<times> 'h) option" where
  "read_hd_sector m pt major device addr h =
     (case read_target major device of
        None \<Rightarrow> Some (-1, h)
      | Some (bus, dev) \<Rightarrow> do {
          a \<leftarrow> read_newaddr pt bus dev device addr;
          case a of
            None \<Rightarrow> Some (-1, h)
          | Some newaddr \<Rightarrow> do {
              h1 \<leftarrow> wait_bus m bus
                (send_cmd m bus CMD_READ_SECTORS_EXT (send_lba48 m bus newaddr (set_device m bus dev h)));
              let (failed, h2) = cmd_failed m bus h1;
              Some (0, h2)
            }
        })"

definition write_target :: "int \<Rightarrow> int \<Rightarrow> (nat \<times> nat) option" where
  "write_target major device =
     (if major = DEVMAJOR_ATA_PRI then
        if device = DEVNUM_HDA then Some (PRI_BUS, MASTER_DEV)
        else if device = DEVNUM_HDB then Some (PRI_BUS, SLAVE_DEV) else None
      else if major = DEVMAJOR_ATA_SEC then
        if device = DEVNUM_HDC then Some (SEC_BUS, MASTER_DEV)
        else if device = DEVNUM_HDD then Some (SEC_BUS, SLAVE_DEV) else None
      else None)"

text \<open>\<^verbatim>\<open>(sector[i+1] << 8) | sector[i]\<close> on signed characters, cut to 16 bits.\<close>

definition pack_word :: "byte \<Rightarrow> byte \<Rightarrow> u16" where
  "pack_word b0 b1 = ucast (push_bit 8 (scast b1 :: u32) OR scast b0)"

text \<open>The loop that sends \<open>n\<close> words of the sector from byte \<open>i\<close> on.\<close>

fun write_words :: "'h machine \<Rightarrow> nat \<Rightarrow> byte list \<Rightarrow> nat \<Rightarrow> nat \<Rightarrow> 'h \<Rightarrow> 'h option" where
  "write_words m bus sector i 0 h = Some h"
| "write_words m bus sector i (Suc n) h =
     (if i + 1 < length sector then do {
        let bword = pack_word (sector ! i) (sector ! (i + 1));
        h1 \<leftarrow> wait_bus m bus h;
        write_words m bus sector (i + 2) n (udelay m 1 (outw m bword (pio_ports bus REG_DATA) h1))
      } else None)"

definition write_hd_sector ::
  "'h machine \<Rightarrow> int \<Rightarrow> int \<Rightarrow> u64 \<Rightarrow> byte list \<Rightarrow> 'h \<Rightarrow> (int \<times> 'h) option" where
  "write_hd_sector m major device addr sector h =
     (case write_target major device of
        None \<Rightarrow> Some (-1, h)
      | Some (bus, dev) \<Rightarrow> do {
          h1 \<leftarrow> wait_bus m bus
            (send_cmd m bus CMD_WRITE_SECTORS_EXT (send_lba48 m bus addr (set_device m bus dev h)));
          let (failed, h2) = cmd_failed m bus h1;
          if failed then Some (-1, h2)
          else do {
            h3 \<leftarrow> write_words m bus sector 0 256 h2;
            h4 \<leftarrow> wait_bus m bus (send_cmd m bus CMD_FLUSH_CACHE_EXT h3);
            Some (0, udelay m 1 h4)
          }
        })"

section \<open>Queues and interrupts\<close>

definition word_bytes :: "u16 list \<Rightarrow> byte list" where
  "word_bytes ws = concat (map (\<lambda>w. [ucast (w AND 0xFF), ucast (drop_bit 8 w AND 0xFF)]) ws)"

text \<open>Start the request \<open>bop\<close>; an unknown operation is only reported. The results of the two calls are ignored.\<close>

definition start_request :: "'h machine \<Rightarrow> int \<Rightarrow> block_op \<Rightarrow> 'h ata \<Rightarrow> 'h ata option" where
  "start_request m major bop st =
     (if bo_op bop = OP_READ then do {
        buf \<leftarrow> at_bufs st (bo_buff bop);
        (r, h) \<leftarrow> read_hd_sector m (at_ptable st) major (bo_device bop) (bh_addr buf) (at_hw st);
        Some (st\<lparr>at_hw := h\<rparr>)
      } else if bo_op bop = OP_WRITE then do {
        buf \<leftarrow> at_bufs st (bo_buff bop);
        (r, h) \<leftarrow> write_hd_sector m major (bo_device bop) (bh_addr buf) (bh_data buf) (at_hw st);
        Some (st\<lparr>at_hw := h\<rparr>)
      } else Some st)"

text \<open>The data transfer of the request that is done; a write only arranges that the interrupt of the cache flush is ignored.\<close>

definition finish_transfer :: "'h machine \<Rightarrow> nat \<Rightarrow> block_op \<Rightarrow> 'h ata \<Rightarrow> 'h ata option" where
  "finish_transfer m bus bop st =
     (if bo_op bop = OP_READ then do {
        buf \<leftarrow> at_bufs st (bo_buff bop);
        (ws, h) \<leftarrow> read_words m bus 256 (at_hw st);
        Some (st\<lparr>at_hw := h, at_bufs := (at_bufs st)(bo_buff bop \<mapsto> buf\<lparr>bh_data := word_bytes ws\<rparr>)\<rparr>)
      } else if bo_op bop = OP_WRITE then do {
        h \<leftarrow> wait_bus m bus (at_hw st);
        Some (st\<lparr>at_hw := h, at_discard_irq := (at_discard_irq st)(bus := ATA_DISCARD_NEXT_IRQ)\<rparr>)
      } else Some st)"

text \<open>Both handlers: bus, queue, major number and event to wake up.\<close>

definition ata_handler :: "'h machine \<Rightarrow> nat \<Rightarrow> nat \<Rightarrow> int \<Rightarrow> int \<Rightarrow> 'h ata \<Rightarrow> 'h ata option" where
  "ata_handler m bus q major event st =
     (if at_discard_irq st bus = ATA_DISCARD_NEXT_IRQ
      then Some (st\<lparr>at_discard_irq := (at_discard_irq st)(bus := ATA_HANDLE_NEXT_IRQ)\<rparr>)
      else do {
        n \<leftarrow> at_nodes st (at_queue st q);
        bop \<leftarrow> at_bops st (ll_element n);
        st1 \<leftarrow> finish_transfer m bus bop st;
        bufs \<leftarrow> upd_at (at_bufs st1) (bo_buff bop) (\<lambda>b. b\<lparr>bh_status := BUFF_ST_VALID\<rparr>);
        (r, head, nodes) \<leftarrow> llist_remove (at_nodes st1) (at_queue st1 q) (ll_element n);
        let st2 = st1\<lparr>at_bufs := bufs, at_queue := (at_queue st1)(q := head), at_nodes := nodes,
                      at_bops := (at_bops st1)(ll_element n := None)\<rparr>;
        st3 \<leftarrow> (if head \<noteq> NULL then do {
            n2 \<leftarrow> at_nodes st2 head;
            bop2 \<leftarrow> at_bops st2 (ll_element n2);
            start_request m major bop2 st2
          } else Some st2);
        Some (st3\<lparr>at_wakeups := at_wakeups st3 @ [event]\<rparr>)
      })"

definition ata_handler1 :: "'h machine \<Rightarrow> 'h ata \<Rightarrow> 'h ata option" where
  "ata_handler1 m st = ata_handler m PRI_BUS 0 DEVMAJOR_ATA_PRI WAIT_INT_IDE_PRI st"

definition ata_handler2 :: "'h machine \<Rightarrow> 'h ata \<Rightarrow> 'h ata option" where
  "ata_handler2 m st = ata_handler m SEC_BUS 2 DEVMAJOR_ATA_SEC WAIT_INT_IDE_SEC st"

text \<open>Append the request \<open>rq\<close>, whose memory is \<open>bop\<close>, to queue \<open>dev\<close>, and start it if the queue was empty;
  \<open>node\<close> is the memory of the list node. The request is started from the arguments of the caller.\<close>

definition enqueue ::
  "ptr \<Rightarrow> ptr \<Rightarrow> nat \<Rightarrow> block_op \<Rightarrow> ('h ata \<Rightarrow> 'h ata option) \<Rightarrow> 'h ata \<Rightarrow> (int \<times> 'h ata) option" where
  "enqueue bop node dev rq start st = do {
     bufs \<leftarrow> upd_at (at_bufs st) (bo_buff rq) (\<lambda>b. b\<lparr>bh_status := BUFF_ST_BUSY\<rparr>);
     let st1 = st\<lparr>at_bufs := bufs\<rparr>;
     if bop = NULL then Some (-1, st1)
     else do {
       (r, head, nodes) \<leftarrow> llist_add (at_nodes st1) (at_queue st1 dev) bop node;
       let st2 = st1\<lparr>at_bops := (at_bops st1)(bop \<mapsto> rq), at_queue := (at_queue st1)(dev := head), at_nodes := nodes\<rparr>;
       st3 \<leftarrow> (if at_queue st dev = NULL then start st2 else Some st2);
       Some (0, st3)
     }
   }"

definition read_async_ata_sector ::
  "'h machine \<Rightarrow> ptr \<Rightarrow> ptr \<Rightarrow> int \<Rightarrow> int \<Rightarrow> ptr \<Rightarrow> 'h ata \<Rightarrow> (int \<times> 'h ata) option" where
  "read_async_ata_sector m bop node major device buf st =
     (case read_target major device of
        None \<Rightarrow> Some (-1, st)
      | Some (bus, dev) \<Rightarrow>
          enqueue bop node dev \<lparr>bo_op = OP_READ, bo_device = device, bo_buff = buf\<rparr>
            (\<lambda>s. do { b \<leftarrow> at_bufs s buf;
                      (r, h) \<leftarrow> read_hd_sector m (at_ptable s) major device (bh_addr b) (at_hw s);
                      Some (s\<lparr>at_hw := h\<rparr>) }) st)"

text \<open>The queue of a write; \<open>bop->device\<close> is never assigned and keeps \<open>old\<close>, what the memory held.\<close>

definition write_async_ata_sector ::
  "'h machine \<Rightarrow> ptr \<Rightarrow> int \<Rightarrow> ptr \<Rightarrow> int \<Rightarrow> int \<Rightarrow> ptr \<Rightarrow> 'h ata \<Rightarrow> (int \<times> 'h ata) option" where
  "write_async_ata_sector m bop old node major device buf st =
     (case write_target major device of
        None \<Rightarrow> Some (-1, st)
      | Some (bus, unit) \<Rightarrow>
          enqueue bop node (2 * bus + unit) \<lparr>bo_op = OP_WRITE, bo_device = old, bo_buff = buf\<rparr>
            (\<lambda>s. do { b \<leftarrow> at_bufs s buf;
                      (r, h) \<leftarrow> write_hd_sector m major device (bh_addr b) (bh_data b) (at_hw s);
                      Some (s\<lparr>at_hw := h\<rparr>) }) st)"

text \<open>The synchronous operations sleep while the buffer is busy; \<open>sleep_on\<close> is what happens meanwhile.\<close>

partial_function (option) wait_buffer ::
  "(int \<Rightarrow> 'h ata \<Rightarrow> 'h ata option) \<Rightarrow> int \<Rightarrow> ptr \<Rightarrow> 'h ata \<Rightarrow> 'h ata option" where
  "wait_buffer sleep_on event buf st = do {
     b \<leftarrow> at_bufs st buf;
     if bh_status b = BUFF_ST_BUSY then do { st1 \<leftarrow> sleep_on event st; wait_buffer sleep_on event buf st1 }
     else Some st
   }"

definition read_sync_ata_sector ::
  "'h machine \<Rightarrow> (int \<Rightarrow> 'h ata \<Rightarrow> 'h ata option) \<Rightarrow> ptr \<Rightarrow> ptr \<Rightarrow> int \<Rightarrow> int \<Rightarrow> ptr \<Rightarrow> 'h ata \<Rightarrow> (int \<times> 'h ata) option" where
  "read_sync_ata_sector m sleep_on bop node major device buf st = do {
     (res, st1) \<leftarrow> read_async_ata_sector m bop node major device buf st;
     st2 \<leftarrow> wait_buffer sleep_on (if major = DEVMAJOR_ATA_PRI then WAIT_INT_IDE_PRI else WAIT_INT_IDE_SEC) buf st1;
     Some (res, st2)
   }"

definition write_sync_ata_sector ::
  "'h machine \<Rightarrow> (int \<Rightarrow> 'h ata \<Rightarrow> 'h ata option) \<Rightarrow> ptr \<Rightarrow> int \<Rightarrow> ptr \<Rightarrow> int \<Rightarrow> int \<Rightarrow> ptr \<Rightarrow> 'h ata \<Rightarrow> (int \<times> 'h ata) option" where
  "write_sync_ata_sector m sleep_on bop old node major device buf st = do {
     (res, st1) \<leftarrow> write_async_ata_sector m bop old node major device buf st;
     st2 \<leftarrow> wait_buffer sleep_on (if major = DEVMAJOR_ATA_PRI then WAIT_INT_IDE_PRI else WAIT_INT_IDE_SEC) buf st1;
     Some (res, st2)
   }"

section \<open>Waiting for the controller\<close>

text \<open>Documented behaviour of the hardware: after some number of status reads the controller is no longer busy.\<close>

definition polled :: "'h machine \<Rightarrow> nat \<Rightarrow> nat \<Rightarrow> 'h \<Rightarrow> 'h" where
  "polled m bus n h = ((\<lambda>h. snd (inb m (pio_ports bus REG_CMD) h)) ^^ n) h"

definition responsive :: "'h machine \<Rightarrow> bool" where
  "responsive m = (\<forall>bus h. \<exists>n. fst (inb m (pio_ports bus REG_CMD) (polled m bus n h)) AND BSY_BIT = 0)"

lemma wait_loop_returns:
  assumes "fst (inb m (pio_ports bus REG_CMD) (polled m bus n h)) AND BSY_BIT = 0"
  shows "\<exists>h'. wait_loop m bus t h = Some h' \<and> (\<forall>tr. wait_loop (traced m) bus t (h, tr) = Some (h', tr))"
  using assms
proof (induction n arbitrary: h)
  case 0
  then show ?case
    by (subst (1 2) wait_loop.simps) (auto simp: polled_def case_prod_beta)
next
  case (Suc n)
  let ?v = "fst (inb m (pio_ports bus REG_CMD) h)" and ?h1 = "snd (inb m (pio_ports bus REG_CMD) h)"
  have "fst (inb m (pio_ports bus REG_CMD) (polled m bus n ?h1)) AND BSY_BIT = 0"
    using Suc.prems by (simp only: polled_def funpow_Suc_right o_apply)
  from Suc.IH [OF this] show ?case
    by (subst (1 2) wait_loop.simps) (auto simp: case_prod_beta)
qed

lemma wait_bus_returns:
  assumes "responsive m"
  shows "\<exists>h'. wait_bus m bus h = Some h' \<and> (\<forall>tr. wait_bus (traced m) bus (h, tr) = Some (h', tr))"
proof -
  obtain n where "fst (inb m (pio_ports bus REG_CMD) (polled m bus n h)) AND BSY_BIT = 0"
    using assms unfolding responsive_def by blast
  from wait_loop_returns [OF this] show ?thesis by (simp add: wait_bus_def)
qed

lemma read_words_returns:
  assumes "responsive m"
  shows "\<exists>ws h'. read_words m bus n h = Some (ws, h') \<and> length ws = n"
proof (induction n arbitrary: h)
  case 0
  then show ?case by simp
next
  case (Suc n)
  obtain h1 where h1: "wait_bus m bus h = Some h1" using wait_bus_returns [OF assms] by blast
  obtain ws h' where "read_words m bus n (snd (inw m (pio_ports bus REG_DATA) h1)) = Some (ws, h')" "length ws = n"
    using Suc by blast
  with h1 show ?case by (simp add: case_prod_beta)
qed

section \<open>What is sent to the controller\<close>

definition writes_to :: "u16 \<Rightarrow> io_event list \<Rightarrow> byte list" where
  "writes_to p tr = List.map_filter (\<lambda>e. case e of OutB v q \<Rightarrow> if q = p then Some v else None | OutW v q \<Rightarrow> None) tr"

definition words_to :: "u16 \<Rightarrow> io_event list \<Rightarrow> u16 list" where
  "words_to p tr = List.map_filter (\<lambda>e. case e of OutW v q \<Rightarrow> if q = p then Some v else None | OutB v q \<Rightarrow> None) tr"

lemma writes_to_simps [simp]:
  "writes_to p [] = []"
  "writes_to p (OutB v q # tr) = (if q = p then v # writes_to p tr else writes_to p tr)"
  "writes_to p (OutW w q # tr) = writes_to p tr"
  "writes_to p (tr @ tr') = writes_to p tr @ writes_to p tr'"
  by (simp_all add: writes_to_def List.map_filter_def)

lemma words_to_simps [simp]:
  "words_to p [] = []"
  "words_to p (OutB v q # tr) = words_to p tr"
  "words_to p (OutW w q # tr) = (if q = p then w # words_to p tr else words_to p tr)"
  "words_to p (tr @ tr') = words_to p tr @ words_to p tr'"
  by (simp_all add: words_to_def List.map_filter_def)

text \<open>An LBA48 device keeps the last two bytes written to each of its address registers: the
  last ones are the low half of the address, those before them the high half.\<close>

definition latched :: "byte list \<Rightarrow> nat \<Rightarrow> u64" where
  "latched vs k = (if k < length vs then ucast (rev vs ! k) else 0)"

definition lba48_of :: "nat \<Rightarrow> io_event list \<Rightarrow> u64" where
  "lba48_of bus tr =
     (let r1 = writes_to (pio_ports bus REG_SADDR1) tr; r2 = writes_to (pio_ports bus REG_SADDR2) tr;
          r3 = writes_to (pio_ports bus REG_SADDR3) tr
      in latched r1 0 OR push_bit 8 (latched r2 0) OR push_bit 16 (latched r3 0)
         OR push_bit 24 (latched r1 1) OR push_bit 32 (latched r2 1) OR push_bit 40 (latched r3 1))"

definition sector_count_of :: "nat \<Rightarrow> io_event list \<Rightarrow> u64" where
  "sector_count_of bus tr = (let r = writes_to (pio_ports bus REG_SC) tr in latched r 0 OR push_bit 8 (latched r 1))"

lemma bit_LBA_BYTE: "bit (LBA_BYTE a k) j \<longleftrightarrow> j < 8 \<and> bit a (k * 8 + j)"
proof -
  have "(0xFF :: u64) = mask 8" by (simp add: mask_eq_exp_minus_1)
  then have "LBA_BYTE a k = ucast (take_bit 8 (drop_bit (k * 8) a))"
    by (simp only: LBA_BYTE_def take_bit_eq_mask)
  then show ?thesis using bit_imp_le_length [of a "k * 8 + j"] by (auto simp: bit_simps)
qed

lemma LBA_BYTES_join:
  "ucast (LBA_BYTE a 0) OR push_bit 8 (ucast (LBA_BYTE a 1)) OR push_bit 16 (ucast (LBA_BYTE a 2))
     OR push_bit 24 (ucast (LBA_BYTE a 3)) OR push_bit 32 (ucast (LBA_BYTE a 4)) OR push_bit 40 (ucast (LBA_BYTE a 5))
   = take_bit 48 a" (is "?l = _")
proof (rule bit_word_eqI)
  fix n
  assume n: "n < LENGTH(64)"
  then consider "n < 8" | "8 \<le> n" "n < 16" | "16 \<le> n" "n < 24" | "24 \<le> n" "n < 32"
    | "32 \<le> n" "n < 40" | "40 \<le> n" "n < 48" | "48 \<le> n" "n < 64" by fastforce
  then show "bit ?l n = bit (take_bit 48 a) n"
    using n by cases (simp_all add: bit_LBA_BYTE bit_or_iff bit_push_bit_iff bit_ucast_iff bit_take_bit_iff less_diff_conv2)
qed

lemma read_target_bus: "read_target major device = Some (bus, dev) \<Longrightarrow> bus = 0 \<or> bus = 1"
  by (auto simp: read_target_def split: if_splits)

lemma set_device_trace:
  "\<exists>h' tr'. set_device (traced m) bus dev (h, tr) = (h', tr @ tr') \<and> set tr' \<subseteq> {OutB 0x40 (pio_ports bus REG_DC), OutB 0x50 (pio_ports bus REG_DC)}"
  by (auto simp: set_device_def)

lemma pio_ports_distinct:
  assumes "bus = 0 \<or> bus = 1" and "r < 9" and "s < 9"
  shows "pio_ports bus r = pio_ports bus s \<longleftrightarrow> r = s"
proof -
  let ?P = "[0x1F0, 0x1F1, 0x1F2, 0x1F3, 0x1F4, 0x1F5, 0x1F6, 0x1F7, 0x3F6] :: u16 list"
  let ?S = "[0x170, 0x171, 0x172, 0x173, 0x174, 0x175, 0x176, 0x177, 0x376] :: u16 list"
  have "distinct ?P" "distinct ?S" by simp_all
  moreover have "length ?P = 9" "length ?S = 9" by simp_all
  ultimately show ?thesis using assms unfolding pio_ports_def by (metis nth_eq_iff_index_eq)
qed

definition lba48_events :: "nat \<Rightarrow> u64 \<Rightarrow> byte \<Rightarrow> io_event list" where
  "lba48_events bus a dc =
     [OutB 0 (pio_ports bus REG_SC), OutB (LBA_BYTE a 3) (pio_ports bus REG_SADDR1),
      OutB (LBA_BYTE a 4) (pio_ports bus REG_SADDR2), OutB (LBA_BYTE a 5) (pio_ports bus REG_SADDR3),
      OutB 1 (pio_ports bus REG_SC), OutB (LBA_BYTE a 0) (pio_ports bus REG_SADDR1),
      OutB (LBA_BYTE a 1) (pio_ports bus REG_SADDR2), OutB (LBA_BYTE a 2) (pio_ports bus REG_SADDR3),
      OutB dc (pio_ports bus REG_DC)]"

lemma send_lba48_trace:
  "\<exists>h' dc. send_lba48 (traced m) bus a (h, tr) = (h', tr @ lba48_events bus a dc)"
  by (simp add: send_lba48_def Let_def case_prod_beta lba48_events_def)

lemma cmd_failed_trace: "\<exists>h' b. cmd_failed (traced m) bus (h, tr) = (b, h', tr)"
  by (auto simp: cmd_failed_def Let_def case_prod_beta)

lemma lba48_events_decoded:
  assumes "bus = 0 \<or> bus = 1"
    and "set tr' \<subseteq> {OutB 0x40 (pio_ports bus REG_DC), OutB 0x50 (pio_ports bus REG_DC)}"
  shows "lba48_of bus (tr' @ lba48_events bus a dc @ [OutB c (pio_ports bus REG_CMD)]) = take_bit 48 a"
    "sector_count_of bus (tr' @ lba48_events bus a dc @ [OutB c (pio_ports bus REG_CMD)]) = 1"
    "writes_to (pio_ports bus REG_CMD) (tr' @ lba48_events bus a dc @ [OutB c (pio_ports bus REG_CMD)]) = [c]"
proof -
  have other: "writes_to p tr' = []" if "p \<noteq> pio_ports bus REG_DC" for p
    using assms(2) that by (induction tr') auto
  have ports: "pio_ports bus r = pio_ports bus s \<longleftrightarrow> r = s" if "r < 8" "s < 8" for r s
    using pio_ports_distinct [OF assms(1)] that by simp
  have e: "pio_ports bus r \<noteq> pio_ports bus REG_DC" if "r < 8" "r \<noteq> REG_DC" for r
    using ports [of r REG_DC] that by simp
  show "lba48_of bus (tr' @ lba48_events bus a dc @ [OutB c (pio_ports bus REG_CMD)]) = take_bit 48 a"
    unfolding LBA_BYTES_join [symmetric]
    by (simp add: lba48_of_def lba48_events_def other e ports latched_def Let_def)
  show "sector_count_of bus (tr' @ lba48_events bus a dc @ [OutB c (pio_ports bus REG_CMD)]) = 1"
    by (simp add: sector_count_of_def lba48_events_def other e ports latched_def Let_def)
  show "writes_to (pio_ports bus REG_CMD) (tr' @ lba48_events bus a dc @ [OutB c (pio_ports bus REG_CMD)]) = [c]"
    by (simp add: lba48_events_def other e ports)
qed

text \<open>C26: Reading a sector commands the controller to read exactly one sector, the one at the low 48 bits of the
  (translated) address: on every controller that answers, \<open>read_hd_sector\<close> returns 0, the
  bytes it has written to the address registers of the bus are the address as an LBA48 device latches
  them, the sector count is one, and the only command is READ SECTORS EXT.\<close>
theorem read_hd_sector_commands_sector:
  assumes "responsive m" and "read_target major device = Some (bus, dev)"
    and "read_newaddr pt bus dev device addr = Some (Some a)"
  shows "\<exists>h' tr. read_hd_sector (traced m) pt major device addr (h, []) = Some (0, h', tr)
    \<and> lba48_of bus tr = take_bit 48 a \<and> sector_count_of bus tr = 1
    \<and> writes_to (pio_ports bus REG_CMD) tr = [CMD_READ_SECTORS_EXT]"
proof -
  have bus: "bus = 0 \<or> bus = 1" using read_target_bus [OF assms(2)] .
  obtain h1 tr1 where s: "set_device (traced m) bus dev (h, []) = (h1, tr1)"
    and tr1: "set tr1 \<subseteq> {OutB 0x40 (pio_ports bus REG_DC), OutB 0x50 (pio_ports bus REG_DC)}"
    using set_device_trace [of m bus dev h "[]"] by auto
  obtain h2 dc where l: "send_lba48 (traced m) bus a (h1, tr1) = (h2, tr1 @ lba48_events bus a dc)"
    using send_lba48_trace [of m bus a h1 tr1] by blast
  let ?tr = "tr1 @ lba48_events bus a dc @ [OutB CMD_READ_SECTORS_EXT (pio_ports bus REG_CMD)]"
  obtain h3 where c: "send_cmd (traced m) bus CMD_READ_SECTORS_EXT (h2, tr1 @ lba48_events bus a dc) = (h3, ?tr)"
    using bus by (auto simp: send_cmd_def)
  obtain h4 where w: "wait_bus (traced m) bus (h3, ?tr) = Some (h4, ?tr)"
    using wait_bus_returns [OF assms(1)] by blast
  obtain h5 b where f: "cmd_failed (traced m) bus (h4, ?tr) = (b, h5, ?tr)"
    using cmd_failed_trace [of m bus h4 ?tr] by blast
  have "read_hd_sector (traced m) pt major device addr (h, []) = Some (0, h5, ?tr)"
    unfolding read_hd_sector_def using assms(2,3) s l c w f by simp
  then show ?thesis using lba48_events_decoded [OF bus tr1] by blast
qed

text \<open>A controller that is never busy and answers zero.\<close>

definition quiet :: "unit machine" where
  "quiet = \<lparr>inb = (\<lambda>p h. (0, h)), inw = (\<lambda>p h. (0, h)), outb = (\<lambda>v p h. h), outw = (\<lambda>v p h. h),
     jiffies = (\<lambda>h. 0), udelay = (\<lambda>n h. h)\<rparr>"

lemma quiet_responsive: "responsive quiet"
  by (simp add: responsive_def quiet_def)

theorem read_hd_sector_commands_sector_witness:
  "\<exists>h' tr. read_hd_sector (traced quiet) (\<lambda>i. None) 3 0 0x123456789ABC ((), []) = Some (0, h', tr)
    \<and> lba48_of 0 tr = 0x123456789ABC \<and> sector_count_of 0 tr = 1
    \<and> writes_to (pio_ports 0 REG_CMD) tr = [CMD_READ_SECTORS_EXT]"
proof -
  have "read_target 3 0 = Some (0, 0)" "read_newaddr (\<lambda>i. None) 0 0 0 0x123456789ABC = Some (Some 0x123456789ABC)"
    by (simp_all add: read_target_def read_newaddr_def)
  from read_hd_sector_commands_sector [OF quiet_responsive this, of "()"]
  show ?thesis by simp
qed

text \<open>Packing a pair of bytes: the sign of the low byte runs into the high byte.\<close>

lemma bit_pack_word:
  "bit (pack_word b0 b1) n \<longleftrightarrow> n < 16 \<and> (if n < 8 then bit b0 n else bit b1 (n - 8) \<or> bit b0 7)"
  by (cases "n = 7"; cases "n = 15") (auto simp: pack_word_def bit_simps min_def not_less)

lemma low_byte: "ucast (w AND 0xFF :: u16) = (ucast w :: byte)"
proof -
  have "(0xFF :: u16) = mask 8" by (simp add: mask_eq_exp_minus_1)
  then show ?thesis by (simp only: take_bit_eq_mask [symmetric]) (rule bit_word_eqI, simp add: bit_simps)
qed

lemma pack_word_bytes:
  "ucast (pack_word b0 b1 AND 0xFF) = b0"
  "ucast (drop_bit 8 (pack_word b0 b1) AND 0xFF) = (if bit b0 7 then 0xFF else b1)"
proof -
  have ff: "(0xFF :: byte) = mask 8" by (simp add: mask_eq_exp_minus_1)
  show "ucast (pack_word b0 b1 AND 0xFF) = b0"
    unfolding low_byte by (rule bit_word_eqI) (auto simp: bit_pack_word bit_simps)
  show "ucast (drop_bit 8 (pack_word b0 b1) AND 0xFF) = (if bit b0 7 then 0xFF else b1)"
    unfolding low_byte ff by (rule bit_word_eqI) (auto simp: bit_pack_word bit_simps)
qed

text \<open>The bytes of a sector as they arrive at the disk.\<close>

fun as_written :: "byte list \<Rightarrow> byte list" where
  "as_written (b0 # b1 # bs) = b0 # (if bit b0 7 then 0xFF else b1) # as_written bs"
| "as_written bs = bs"

lemma write_words_trace:
  assumes "responsive m"
  shows "length bs = 2 * n \<Longrightarrow>
    \<exists>h' ws. write_words (traced m) bus (pre @ bs) (length pre) n (h, tr) = Some (h', tr @ map (\<lambda>w. OutW w (pio_ports bus REG_DATA)) ws)
      \<and> word_bytes ws = as_written bs"
proof (induction n arbitrary: pre bs h tr)
  case 0
  then show ?case by (simp add: word_bytes_def)
next
  case (Suc n)
  then obtain b0 b1 bs' where bs: "bs = b0 # b1 # bs'" "length bs' = 2 * n"
    by (cases bs; cases "tl bs") auto
  let ?w = "pack_word b0 b1" and ?p = "pio_ports bus REG_DATA"
  obtain h1 where h1: "wait_bus (traced m) bus (h, tr) = Some (h1, tr)"
    using wait_bus_returns [OF assms] by blast
  obtain h' ws where r: "write_words (traced m) bus ((pre @ [b0, b1]) @ bs') (length (pre @ [b0, b1])) n
      (udelay m 1 (outw m ?w ?p h1), tr @ [OutW ?w ?p]) = Some (h', (tr @ [OutW ?w ?p]) @ map (\<lambda>w. OutW w ?p) ws)"
    "word_bytes ws = as_written bs'"
    using Suc.IH [OF bs(2)] by blast
  have "write_words (traced m) bus (pre @ bs) (length pre) (Suc n) (h, tr)
      = Some (h', tr @ map (\<lambda>w. OutW w ?p) (?w # ws))"
    using h1 r(1) bs by (simp add: nth_append)
  moreover have "word_bytes (?w # ws) = as_written bs"
    using r(2) bs pack_word_bytes [of b0 b1] by (simp add: word_bytes_def)
  ultimately show ?case by blast
qed

lemma all_nat_split: "(\<forall>i :: nat. P i) \<longleftrightarrow> P 0 \<and> (\<forall>i. P (Suc i))"
  by (metis not0_implies_Suc)

lemma as_written_same: "as_written bs = bs \<longleftrightarrow> (\<forall>i. 2 * i + 1 < length bs \<longrightarrow> bit (bs ! (2 * i)) 7 \<longrightarrow> bs ! (2 * i + 1) = 0xFF)"
proof (induction bs rule: as_written.induct)
  case (1 b0 b1 bs)
  have "(\<forall>i. 2 * i + 1 < length (b0 # b1 # bs) \<longrightarrow> bit ((b0 # b1 # bs) ! (2 * i)) 7 \<longrightarrow> (b0 # b1 # bs) ! (2 * i + 1) = 0xFF)
    \<longleftrightarrow> (bit b0 7 \<longrightarrow> b1 = 0xFF) \<and> (\<forall>i. 2 * i + 1 < length bs \<longrightarrow> bit (bs ! (2 * i)) 7 \<longrightarrow> bs ! (2 * i + 1) = 0xFF)"
    by (subst all_nat_split) simp
  then show ?case using 1 by auto
qed simp_all

text \<open>The words that \<open>write_hd_sector\<close>'s loop sends for a sector of 512 bytes carry every byte with an even
  index unchanged, but a byte with an odd index arrives as \<open>0xFF\<close> whenever the byte before it is
  \<open>0x80\<close> or more, because the signed characters are combined with their sign extended. The sector on the
  disk is therefore the buffer exactly when every such pair already ends in \<open>0xFF\<close>.\<close>
theorem write_words_extends_sign:
  assumes "responsive m" and "length sector = 512"
  shows "\<exists>h' tr. write_words (traced m) bus sector 0 256 (h, []) = Some (h', tr)
    \<and> word_bytes (words_to (pio_ports bus REG_DATA) tr) = as_written sector
    \<and> (as_written sector = sector \<longleftrightarrow> (\<forall>i. 2 * i + 1 < 512 \<longrightarrow> sector ! (2 * i) \<ge> 0x80 \<longrightarrow> sector ! (2 * i + 1) = 0xFF))"
proof -
  have ge: "b \<ge> 0x80 \<longleftrightarrow> bit b 7" for b :: byte
  proof -
    let ?q = "unat b div 2 ^ 7"
    have z: "?q = 0 \<longleftrightarrow> unat b < 128" by (simp add: div_eq_0_iff)
    have "?q < 2" using unat_byte_bound [of b] by (simp add: div_less_iff_less_mult)
    then consider "?q = 0" | "?q = 1" by linarith
    then have "odd ?q \<longleftrightarrow> 128 \<le> unat b" using z by cases simp_all
    moreover have "bit b 7 \<longleftrightarrow> odd ?q" 
      using bit_iff_odd [of "unat b" 7] by (simp add: bit_unsigned_iff)
    ultimately show ?thesis by (simp add: word_le_nat_alt)
  qed
  have wt: "words_to p (map (\<lambda>w. OutW w p) ws) = ws" for p ws by (induction ws) simp_all
  from write_words_trace [OF assms(1), of sector 256 bus "[]" h "[]"] assms(2)
  obtain h' ws where w: "write_words (traced m) bus sector 0 256 (h, []) = Some (h', map (\<lambda>w. OutW w (pio_ports bus REG_DATA)) ws)"
    "word_bytes ws = as_written sector" by auto
  show ?thesis
    by (intro exI conjI, rule w(1)) (simp_all only: wt w(2) as_written_same assms(2) ge)
qed

theorem write_words_extends_sign_witness:
  "\<exists>h' tr. write_words (traced quiet) 0 (replicate 512 0x80) 0 256 ((), []) = Some (h', tr)
    \<and> word_bytes (words_to (pio_ports 0 REG_DATA) tr) \<noteq> replicate 512 0x80"
proof -
  have "\<not> (\<forall>i. 2 * i + 1 < 512 \<longrightarrow> replicate 512 (0x80 :: byte) ! (2 * i) \<ge> 0x80
      \<longrightarrow> replicate 512 (0x80 :: byte) ! (2 * i + 1) = 0xFF)"
    by (intro notI) (drule spec [of _ 0], simp add: nth_replicate)
  then show ?thesis
    using write_words_extends_sign [OF quiet_responsive, of "replicate 512 0x80" 0 "()"] by (metis length_replicate)
qed

section \<open>The request queue\<close>

lemma write_words_returns:
  assumes "responsive m"
  shows "i + 2 * n \<le> length sector \<Longrightarrow> \<exists>h'. write_words m bus sector i n h = Some h'"
proof (induction n arbitrary: i h)
  case 0
  then show ?case by simp
next
  case (Suc n)
  obtain h1 where "wait_bus m bus h = Some h1" using wait_bus_returns [OF assms] by blast
  then show ?case using Suc.prems Suc.IH [of "i + 2"] by simp
qed

lemma write_hd_sector_returns:
  assumes "responsive m" and "length sector = 512"
  shows "\<exists>r h'. write_hd_sector m major device addr sector h = Some (r, h')"
proof (cases "write_target major device")
  case None
  then show ?thesis by (simp add: write_hd_sector_def)
next
  case (Some t)
  obtain bus dev where t: "t = (bus, dev)" by (cases t)
  obtain h1 where h1: "wait_bus m bus (send_cmd m bus CMD_WRITE_SECTORS_EXT (send_lba48 m bus addr (set_device m bus dev h))) = Some h1"
    using wait_bus_returns [OF assms(1)] by blast
  obtain f h2 where h2: "cmd_failed m bus h1 = (f, h2)" by (cases "cmd_failed m bus h1")
  obtain h3 where h3: "write_words m bus sector 0 256 h2 = Some h3"
    using write_words_returns [OF assms(1), of 0 256 sector] assms(2) by auto
  obtain h4 where h4: "wait_bus m bus (send_cmd m bus CMD_FLUSH_CACHE_EXT h3) = Some h4"
    using wait_bus_returns [OF assms(1)] by blast
  show ?thesis unfolding write_hd_sector_def using Some t h1 h2 h3 h4 by (cases f) simp_all
qed

lemma read_hd_sector_returns:
  assumes "responsive m" and "\<And>bus dev. read_target major device = Some (bus, dev) \<Longrightarrow> read_newaddr pt bus dev device addr \<noteq> None"
  shows "\<exists>r h'. read_hd_sector m pt major device addr h = Some (r, h')"
proof (cases "read_target major device")
  case None
  then show ?thesis by (simp add: read_hd_sector_def)
next
  case (Some t)
  obtain bus dev where t: "t = (bus, dev)" by (cases t)
  obtain a where a: "read_newaddr pt bus dev device addr = Some a" using assms(2) Some t by fastforce
  show ?thesis
  proof (cases a)
    case None
    then show ?thesis using Some t a by (simp add: read_hd_sector_def)
  next
    case (Some b)
    obtain h1 where "wait_bus m bus (send_cmd m bus CMD_READ_SECTORS_EXT (send_lba48 m bus b (set_device m bus dev h))) = Some h1"
      using wait_bus_returns [OF assms(1)] by blast
    then show ?thesis using \<open>read_target major device = Some t\<close> t a Some
      by (simp add: read_hd_sector_def case_prod_beta)
  qed
qed

text \<open>\<open>queue_of st q rs\<close>: queue \<open>q\<close> holds the requests \<open>rs\<close> (address and contents), all different and with live buffers.\<close>

definition queue_of :: "'h ata \<Rightarrow> nat \<Rightarrow> (ptr \<times> block_op) list \<Rightarrow> bool" where
  "queue_of st q rs =
     ((\<exists>ns. is_llist (at_nodes st) (at_queue st q) ns \<and> map snd ns = map fst rs) \<and> distinct (map fst rs)
      \<and> (\<forall>(p, r) \<in> set rs. at_bops st p = Some r \<and> at_bufs st (bo_buff r) \<noteq> None))"

text \<open>The request can be started: the partition table it needs exists, the sector to write is complete.\<close>

definition startable :: "'h ata \<Rightarrow> int \<Rightarrow> block_op \<Rightarrow> bool" where
  "startable st major r =
     (case at_bufs st (bo_buff r) of
        None \<Rightarrow> False
      | Some b \<Rightarrow> (bo_op r = OP_READ \<longrightarrow> (\<forall>bus dev. read_target major (bo_device r) = Some (bus, dev)
            \<longrightarrow> read_newaddr (at_ptable st) bus dev (bo_device r) (bh_addr b) \<noteq> None))
          \<and> (bo_op r = OP_WRITE \<longrightarrow> length (bh_data b) = 512))"

lemma start_request_returns:
  assumes "responsive m" and "startable st major r"
  shows "\<exists>h. start_request m major r st = Some (st\<lparr>at_hw := h\<rparr>)"
proof -
  obtain b where b: "at_bufs st (bo_buff r) = Some b" using assms(2) by (auto simp: startable_def split: option.splits)
  consider "bo_op r = OP_READ" | "bo_op r = OP_WRITE" | "bo_op r \<noteq> OP_READ" "bo_op r \<noteq> OP_WRITE" by blast
  then show ?thesis
  proof cases
    case 1
    then show ?thesis
      using read_hd_sector_returns [OF assms(1), of major "bo_device r" "at_ptable st" "bh_addr b" "at_hw st"] assms(2) b
      by (auto simp: start_request_def startable_def)
  next
    case 2
    then show ?thesis
      using write_hd_sector_returns [OF assms(1), of "bh_data b" major "bo_device r" "bh_addr b" "at_hw st"] assms(2) b
      by (auto simp: start_request_def startable_def)
  next
    case 3
    then show ?thesis by (auto simp: start_request_def intro: exI [of _ "at_hw st"])
  qed
qed

lemma finish_transfer_returns:
  assumes "responsive m" and "at_bufs st (bo_buff r) = Some b"
  shows "\<exists>st' d. finish_transfer m bus r st = Some st' \<and> at_nodes st' = at_nodes st \<and> at_queue st' = at_queue st
    \<and> at_bops st' = at_bops st \<and> at_ptable st' = at_ptable st \<and> at_wakeups st' = at_wakeups st \<and> at_devices st' = at_devices st
    \<and> at_bufs st' = (at_bufs st)(bo_buff r \<mapsto> b\<lparr>bh_data := d\<rparr>)
    \<and> (if bo_op r = OP_READ then \<exists>ws h. read_words m bus 256 (at_hw st) = Some (ws, h) \<and> length ws = 256 \<and> d = word_bytes ws
       else d = bh_data b)
    \<and> at_discard_irq st' bus = (if bo_op r = OP_WRITE then ATA_DISCARD_NEXT_IRQ else at_discard_irq st bus)"
proof -
  obtain ws h where "read_words m bus 256 (at_hw st) = Some (ws, h)" "length ws = 256"
    using read_words_returns [OF assms(1)] by blast
  moreover obtain h' where "wait_bus m bus (at_hw st) = Some h'" using wait_bus_returns [OF assms(1)] by blast
  moreover have "at_bufs st = (at_bufs st)(bo_buff r \<mapsto> b\<lparr>bh_data := bh_data b\<rparr>)" using assms(2) by auto
  ultimately show ?thesis using assms(2) by (auto simp: finish_transfer_def)
qed

lemma queue_of_head:
  assumes "queue_of st q ((p, r) # rs)"
  shows "\<exists>n. at_nodes st (at_queue st q) = Some n \<and> ll_element n = p \<and> at_bops st p = Some r \<and> at_bufs st (bo_buff r) \<noteq> None"
proof -
  from assms obtain ns where ns: "is_llist (at_nodes st) (at_queue st q) ns" "map snd ns = p # map fst rs"
    and "at_bops st p = Some r" "at_bufs st (bo_buff r) \<noteq> None" by (auto simp: queue_of_def)
  then show ?thesis by (cases ns) (auto simp: is_llist_def split: option.splits)
qed

lemma queue_of_empty: "queue_of st q [] \<longleftrightarrow> at_queue st q = NULL"
  by (auto simp: queue_of_def is_llist_def)

lemma queue_of_not_empty: "queue_of st q (x # rs) \<Longrightarrow> at_queue st q \<noteq> NULL"
  by (auto simp: queue_of_def is_llist_def)

lemma queue_of_remove:
  fixes st :: "'h ata"
  assumes "queue_of st q ((p, r) # rs)"
  shows "\<exists>l h. llist_remove (at_nodes st) (at_queue st q) p = Some (1, l, h) \<and> dom h = dom (at_nodes st) - {at_queue st q} \<and>
    (\<forall>st' :: 'h ata. at_nodes st' = h \<longrightarrow> at_queue st' q = l \<longrightarrow> at_bops st' = (at_bops st)(p := None) \<longrightarrow>
       dom (at_bufs st) \<subseteq> dom (at_bufs st') \<longrightarrow> queue_of st' q rs)"
proof -
  from assms obtain ns where ns: "is_llist (at_nodes st) (at_queue st q) ns" "map snd ns = p # map fst rs"
    and d: "p \<notin> fst ` set rs" "distinct (map fst rs)"
    and all: "\<forall>(p, r) \<in> set rs. at_bops st p = Some r \<and> at_bufs st (bo_buff r) \<noteq> None"
    by (auto simp: queue_of_def)
  have p: "p \<in> snd ` set ns" using arg_cong [OF ns(2), of set] by force
  from llist_remove_ok [OF ns(1), of p] p obtain l h
    where r: "llist_remove (at_nodes st) (at_queue st q) p = Some (1, l, h)" "is_llist h l (remove_node p ns)"
      "dom h = dom (at_nodes st) - (fst ` set ns - fst ` set (remove_node p ns))" by auto
  have "fst ` set ns - fst ` set (remove_node p ns) = {at_queue st q}"
    using ns by (cases ns) (auto simp: is_llist_def split: option.splits intro: rev_image_eqI)
  then have dom: "dom h = dom (at_nodes st) - {at_queue st q}" using r(3) by simp
  have "map snd (remove_node p ns) = map fst rs" using ns(2) by (simp add: remove_node_elements)
  moreover have "(\<forall>(p', r) \<in> set rs. ((at_bops st)(p := None)) p' = Some r \<and> bo_buff r \<in> dom (at_bufs st))"
    using all d by force
  ultimately have "\<forall>st' :: 'h ata. at_nodes st' = h \<longrightarrow> at_queue st' q = l \<longrightarrow> at_bops st' = (at_bops st)(p := None) \<longrightarrow>
       dom (at_bufs st) \<subseteq> dom (at_bufs st') \<longrightarrow> queue_of st' q rs"
    using r(2) d by (fastforce simp: queue_of_def)
  then show ?thesis using r(1) dom by blast
qed

text \<open>The interrupt handler completes requests in the order in which they were queued. If the queue of the
  bus holds \<open>r\<close> and then \<open>rs\<close>, the interrupt is not one to discard, the next request can be started and the controller answers,
  then the handler returns, the queue holds \<open>rs\<close>, the buffer of \<open>r\<close> is valid, after a read it contains the
  512 bytes of the 256 words that the controller delivered (low byte first), after a write the next
  interrupt is discarded, and the waiting processes are woken.\<close>
theorem ata_handler1_completes_head:
  fixes st :: "'h ata"
  assumes m: "responsive m" and q: "queue_of st 0 ((p, r) # rs)"
    and irq: "at_discard_irq st 0 \<noteq> ATA_DISCARD_NEXT_IRQ"
    and b: "at_bufs st (bo_buff r) = Some b"
    and next_ok: "case rs of [] \<Rightarrow> True | (p2, r2) # rs2 \<Rightarrow> bo_buff r2 \<noteq> bo_buff r \<and> startable st DEVMAJOR_ATA_PRI r2"
  shows "\<exists>st' b'. ata_handler1 m st = Some st' \<and> queue_of st' 0 rs
    \<and> at_bufs st' (bo_buff r) = Some b' \<and> bh_status b' = BUFF_ST_VALID
    \<and> (if bo_op r = OP_READ then \<exists>ws h. read_words m 0 256 (at_hw st) = Some (ws, h) \<and> bh_data b' = word_bytes ws \<and> length (bh_data b') = 512
       else bh_data b' = bh_data b)
    \<and> at_discard_irq st' 0 = (if bo_op r = OP_WRITE then ATA_DISCARD_NEXT_IRQ else at_discard_irq st 0)
    \<and> at_wakeups st' = at_wakeups st @ [WAIT_INT_IDE_PRI]
    \<and> at_bops st' = (at_bops st)(p := None) \<and> dom (at_nodes st') = dom (at_nodes st) - {at_queue st 0}
    \<and> at_devices st' = at_devices st"
proof -
  obtain n where n: "at_nodes st (at_queue st 0) = Some n" "ll_element n = p" "at_bops st p = Some r"
    using queue_of_head [OF q] by blast
  obtain st1 d where s1: "finish_transfer m 0 r st = Some st1" "at_nodes st1 = at_nodes st" "at_queue st1 = at_queue st"
      "at_bops st1 = at_bops st" "at_ptable st1 = at_ptable st" "at_wakeups st1 = at_wakeups st" "at_devices st1 = at_devices st"
      "at_bufs st1 = (at_bufs st)(bo_buff r \<mapsto> b\<lparr>bh_data := d\<rparr>)"
      "at_discard_irq st1 0 = (if bo_op r = OP_WRITE then ATA_DISCARD_NEXT_IRQ else at_discard_irq st 0)"
    and d: "if bo_op r = OP_READ then \<exists>ws h. read_words m 0 256 (at_hw st) = Some (ws, h) \<and> length ws = 256 \<and> d = word_bytes ws
       else d = bh_data b"
    using finish_transfer_returns [OF m b, of 0] by blast
  have len: "length (word_bytes ws) = 2 * length ws" for ws by (induction ws) (simp_all add: word_bytes_def)
  obtain l h where rm: "llist_remove (at_nodes st) (at_queue st 0) p = Some (1, l, h)" "dom h = dom (at_nodes st) - {at_queue st 0}"
    and qr: "\<And>st' :: 'h ata. at_nodes st' = h \<Longrightarrow> at_queue st' 0 = l \<Longrightarrow> at_bops st' = (at_bops st)(p := None) \<Longrightarrow>
       dom (at_bufs st) \<subseteq> dom (at_bufs st') \<Longrightarrow> queue_of st' 0 rs"
    using queue_of_remove [OF q] by blast
  define st2 where "st2 = st1\<lparr>at_bufs := (at_bufs st)(bo_buff r \<mapsto> b\<lparr>bh_data := d, bh_status := BUFF_ST_VALID\<rparr>),
    at_queue := (at_queue st1)(0 := l), at_nodes := h, at_bops := (at_bops st1)(p := None)\<rparr>"
  have q2: "queue_of st2 0 rs" by (rule qr) (auto simp: st2_def s1(4))
  have "\<exists>h3. (if l \<noteq> NULL then do { n2 \<leftarrow> at_nodes st2 l; bop2 \<leftarrow> at_bops st2 (ll_element n2);
      start_request m DEVMAJOR_ATA_PRI bop2 st2 } else Some st2) = Some (st2\<lparr>at_hw := h3\<rparr>)"
  proof (cases rs)
    case Nil
    then have "l = NULL" using q2 by (simp add: queue_of_empty) (simp add: st2_def)
    then show ?thesis by (auto intro: exI [of _ "at_hw st2"])
  next
    case (Cons x rs2)
    obtain p2 r2 where x: "x = (p2, r2)" by (cases x)
    obtain n2 where n2: "at_nodes st2 l = Some n2" "ll_element n2 = p2" "at_bops st2 p2 = Some r2"
      using queue_of_head [of st2 0 p2 r2 rs2] q2 Cons x by (auto simp: st2_def)
    have "startable st2 DEVMAJOR_ATA_PRI r2"
      using next_ok Cons x by (auto simp: startable_def st2_def s1(5) split: option.splits)
    moreover have "l \<noteq> NULL" using queue_of_not_empty [of st2 0 x rs2] q2 Cons by (auto simp: st2_def)
    ultimately show ?thesis using n2 start_request_returns [OF m] by auto
  qed
  then obtain h3 where s3: "(if l \<noteq> NULL then do { n2 \<leftarrow> at_nodes st2 l; bop2 \<leftarrow> at_bops st2 (ll_element n2);
      start_request m DEVMAJOR_ATA_PRI bop2 st2 } else Some st2) = Some (st2\<lparr>at_hw := h3\<rparr>)" by blast
  let ?st' = "(st2\<lparr>at_hw := h3\<rparr>)\<lparr>at_wakeups := at_wakeups st2 @ [WAIT_INT_IDE_PRI]\<rparr>"
  have "ata_handler1 m st = Some ?st'"
    unfolding ata_handler1_def ata_handler_def using irq n s1(1) rm(1) s3
    by (simp add: s1(2-6,8) st2_def [symmetric, unfolded s1(3,4)] del: neq0_conv)
  moreover have "queue_of ?st' 0 rs" using q2 by (simp add: queue_of_def)
  ultimately show ?thesis using d s1(4,6,7,9) rm(2) by (auto simp: st2_def len)
qed

definition no_device :: ata_dev_info where
  "no_device = \<lparr>dv_flags = 0, dv_sectors = 0, dv_type = 0, dv_serial = replicate 20 0, dv_firmware_rev = replicate 8 0,
     dv_model = replicate 40 0, dv_mult_secs = 0, dv_max_secs = [0, 0], dv_capabilities = [0, 0], dv_mult_sec = 0,
     dv_mword_dma = 0, dv_major_ver = 0, dv_minor_ver = 0, dv_cmds_supported = replicate 6 0, dv_ultra_dma = 0,
     dv_max_lba48 = replicate 4 0\<rparr>"

text \<open>A driver state with one buffer at 500 and one read request at 300, queued in the node 100 of the first queue.\<close>

definition demo_ata :: "unit ata" where
  "demo_ata = \<lparr>at_hw = (), at_queue = (\<lambda>i. if i = 0 then 100 else NULL),
     at_nodes = [100 \<mapsto> \<lparr>ll_element = 300, ll_next = NULL\<rparr>],
     at_bops = [300 \<mapsto> \<lparr>bo_op = OP_READ, bo_device = 0, bo_buff = 500\<rparr>],
     at_bufs = [500 \<mapsto> zero_header\<lparr>bh_status := BUFF_ST_BUSY\<rparr>, 1100 \<mapsto> zero_header],
     at_discard_irq = (\<lambda>i. 0), at_ptable = (\<lambda>i. None), at_devices = (\<lambda>i. no_device), at_wakeups = []\<rparr>"

lemma demo_ata_queue: "queue_of demo_ata 0 [(300, \<lparr>bo_op = OP_READ, bo_device = 0, bo_buff = 500\<rparr>)]"
  by (auto simp: queue_of_def demo_ata_def is_llist_def intro!: exI [of _ "[(100, 300)]"])

theorem ata_handler1_completes_head_witness:
  "\<exists>st' b'. ata_handler1 quiet demo_ata = Some st' \<and> queue_of st' 0 []
    \<and> at_bufs st' 500 = Some b' \<and> bh_status b' = BUFF_ST_VALID \<and> length (bh_data b') = 512"
  using ata_handler1_completes_head [OF quiet_responsive demo_ata_queue, of "zero_header\<lparr>bh_status := BUFF_ST_BUSY\<rparr>"]
  by (auto simp: demo_ata_def)

text \<open>A read request is put at the end of its queue: on a working controller with memory for the request and
  its list node, \<open>read_async_ata_sector\<close> returns 0, the queue of the device holds the old requests followed
  by the new one, the buffer is busy, and the controller is touched only when the queue was empty.\<close>
theorem read_async_queues_request:
  assumes m: "responsive m" and tgt: "read_target major device = Some (bus, dev)"
    and q: "queue_of st dev rs" and b: "at_bufs st buf = Some b"
    and mem: "bop \<noteq> NULL" "at_bops st bop = None" "node \<noteq> NULL" "at_nodes st node = None"
    and start: "rs = [] \<Longrightarrow> read_newaddr (at_ptable st) bus dev device (bh_addr b) \<noteq> None"
  shows "\<exists>st'. read_async_ata_sector m bop node major device buf st = Some (0, st')
    \<and> queue_of st' dev (rs @ [(bop, \<lparr>bo_op = OP_READ, bo_device = device, bo_buff = buf\<rparr>)])
    \<and> at_bufs st' buf = Some (b\<lparr>bh_status := BUFF_ST_BUSY\<rparr>)
    \<and> (rs \<noteq> [] \<longrightarrow> at_hw st' = at_hw st)
    \<and> (rs = [] \<longrightarrow> (\<exists>r. read_hd_sector m (at_ptable st) major device (bh_addr b) (at_hw st) = Some (r, at_hw st')))
    \<and> at_discard_irq st' = at_discard_irq st \<and> at_bops st' = (at_bops st)(bop \<mapsto> \<lparr>bo_op = OP_READ, bo_device = device, bo_buff = buf\<rparr>)
    \<and> dom (at_nodes st') = insert node (dom (at_nodes st)) \<and> (rs = [] \<longrightarrow> at_queue st' dev = node)
    \<and> at_devices st' = at_devices st"
proof -
  let ?rq = "\<lparr>bo_op = OP_READ, bo_device = device, bo_buff = buf\<rparr>"
  from q obtain ns where ns: "is_llist (at_nodes st) (at_queue st dev) ns" "map snd ns = map fst rs"
    and dist: "distinct (map fst rs)"
    and all: "\<forall>(p, r) \<in> set rs. at_bops st p = Some r \<and> at_bufs st (bo_buff r) \<noteq> None" by (auto simp: queue_of_def)
  have "node \<notin> dom (at_nodes st)" using mem by auto
  from llist_add_ok [OF ns(1) mem(3) this, of bop] obtain l h
    where add: "llist_add (at_nodes st) (at_queue st dev) bop node = Some (1, l, h)" "is_llist h l (ns @ [(node, bop)])"
      "dom h = insert node (dom (at_nodes st))" by blast
  have l: "rs = [] \<longrightarrow> l = node" using add(2) ns(2) by (auto simp: is_llist_def)
  define st2 where "st2 = st\<lparr>at_bufs := (at_bufs st)(buf \<mapsto> b\<lparr>bh_status := BUFF_ST_BUSY\<rparr>),
    at_bops := (at_bops st)(bop \<mapsto> ?rq), at_queue := (at_queue st)(dev := l), at_nodes := h\<rparr>"
  have fresh: "bop \<notin> fst ` set rs" using all mem(2) by fastforce
  have "queue_of st2 dev (rs @ [(bop, ?rq)])"
    using add(2) ns(2) dist all fresh b unfolding queue_of_def st2_def
    by (auto intro!: exI [of _ "ns @ [(node, bop)]"] dest: image_eqI [where f = fst, OF sym [OF fst_conv]])
  moreover have e: "at_queue st dev = NULL \<longleftrightarrow> rs = []"
    using queue_of_empty [of st dev] queue_of_not_empty [of st dev] q by (cases rs) auto
  moreover have "\<exists>r h1. rs = [] \<longrightarrow> read_hd_sector m (at_ptable st) major device (bh_addr b) (at_hw st) = Some (r, h1)"
    using read_hd_sector_returns [OF m, of major device "at_ptable st" "bh_addr b" "at_hw st"] start tgt by fastforce
  then obtain r h1 where rd: "rs = [] \<longrightarrow> read_hd_sector m (at_ptable st) major device (bh_addr b) (at_hw st) = Some (r, h1)" by blast
  ultimately have "read_async_ata_sector m bop node major device buf st
      = Some (0, if rs = [] then st2\<lparr>at_hw := h1\<rparr> else st2)"
    unfolding read_async_ata_sector_def enqueue_def using tgt b mem(1) add(1)
    by (cases "rs = []") (simp_all add: st2_def)
  then show ?thesis using \<open>queue_of st2 dev _\<close> rd add(3) l by (auto simp: queue_of_def st2_def)
qed

theorem read_async_queues_request_witness:
  "\<exists>st'. read_async_ata_sector quiet 1300 1200 3 0 1100 demo_ata = Some (0, st')
    \<and> queue_of st' 0 [(300, \<lparr>bo_op = OP_READ, bo_device = 0, bo_buff = 500\<rparr>), (1300, \<lparr>bo_op = OP_READ, bo_device = 0, bo_buff = 1100\<rparr>)]"
proof -
  have "read_target 3 0 = Some (0, 0)" by (simp add: read_target_def)
  from read_async_queues_request [OF quiet_responsive this demo_ata_queue, of 1100 zero_header 1300 1200]
  show ?thesis by (auto simp: demo_ata_def)
qed

text \<open>A synchronous read from end to end. On an idle primary bus with a controller that answers, a driver that is
  woken by its interrupt returns 0 from \<open>read_sync_ata_sector\<close>: the sector was requested from the controller, and the
  buffer is valid and holds the 512 bytes of the 256 words that the controller delivered after that request, low byte
  first. The bus is idle again.\<close>
theorem read_sync_reads_sector:
  assumes m: "responsive m" and irq: "sleep WAIT_INT_IDE_PRI = ata_handler1 m" "at_discard_irq st 0 \<noteq> ATA_DISCARD_NEXT_IRQ"
    and idle: "at_queue st 0 = NULL" and b: "at_bufs st buf = Some b"
    and mem: "bop \<noteq> NULL" "at_bops st bop = None" "node \<noteq> NULL" "at_nodes st node = None"
    and tgt: "read_target DEVMAJOR_ATA_PRI device = Some (0, 0)" "read_newaddr (at_ptable st) 0 0 device (bh_addr b) \<noteq> None"
  shows "\<exists>st' b' r h ws h'. read_sync_ata_sector m sleep bop node DEVMAJOR_ATA_PRI device buf st = Some (0, st')
    \<and> read_hd_sector m (at_ptable st) DEVMAJOR_ATA_PRI device (bh_addr b) (at_hw st) = Some (r, h)
    \<and> read_words m 0 256 h = Some (ws, h') \<and> at_bufs st' buf = Some b'
    \<and> bh_status b' = BUFF_ST_VALID \<and> bh_data b' = word_bytes ws \<and> length (bh_data b') = 512
    \<and> at_queue st' 0 = NULL \<and> at_bops st' = at_bops st \<and> dom (at_nodes st') = dom (at_nodes st)
    \<and> at_discard_irq st' 0 = at_discard_irq st 0 \<and> at_devices st' = at_devices st"
proof -
  let ?rq = "\<lparr>bo_op = OP_READ, bo_device = device, bo_buff = buf\<rparr>"
  have "queue_of st 0 []" using idle by (simp add: queue_of_empty)
  from read_async_queues_request [OF m tgt(1) this b mem] tgt(2) obtain st1 r where
    s1: "read_async_ata_sector m bop node DEVMAJOR_ATA_PRI device buf st = Some (0, st1)" "queue_of st1 0 [(bop, ?rq)]"
      "at_bufs st1 buf = Some (b\<lparr>bh_status := BUFF_ST_BUSY\<rparr>)" "at_discard_irq st1 = at_discard_irq st"
      "read_hd_sector m (at_ptable st) DEVMAJOR_ATA_PRI device (bh_addr b) (at_hw st) = Some (r, at_hw st1)"
      "at_bops st1 = (at_bops st)(bop \<mapsto> ?rq)" "dom (at_nodes st1) = insert node (dom (at_nodes st))" "at_queue st1 0 = node" "at_devices st1 = at_devices st" by auto
  from ata_handler1_completes_head [OF m s1(2), of "b\<lparr>bh_status := BUFF_ST_BUSY\<rparr>"] s1(3,4) irq(2) obtain st2 b' ws h' where
    s2: "ata_handler1 m st1 = Some st2" "queue_of st2 0 []" "at_bufs st2 buf = Some b'" "bh_status b' = BUFF_ST_VALID"
      "read_words m 0 256 (at_hw st1) = Some (ws, h')" "bh_data b' = word_bytes ws" "length (bh_data b') = 512"
      "at_bops st2 = (at_bops st1)(bop := None)" "dom (at_nodes st2) = dom (at_nodes st1) - {at_queue st1 0}"
      "at_discard_irq st2 0 = at_discard_irq st 0" "at_devices st2 = at_devices st1" by auto
  have "wait_buffer sleep WAIT_INT_IDE_PRI buf st2 = Some st2"
    using s2(3,4) by (subst wait_buffer.simps) simp
  then have "wait_buffer sleep WAIT_INT_IDE_PRI buf st1 = Some st2"
    using s1(3) s2(1) irq(1) by (subst wait_buffer.simps) simp
  then have "read_sync_ata_sector m sleep bop node DEVMAJOR_ATA_PRI device buf st = Some (0, st2)"
    using s1(1) by (simp add: read_sync_ata_sector_def)
  moreover have "node \<notin> dom (at_nodes st)" "at_bops st2 = at_bops st" using mem s1(6) s2(8) by auto
  ultimately show ?thesis using s1(5,7-9) s2(2-7,9-11) by (auto simp: queue_of_empty)
qed

theorem read_sync_reads_sector_witness:
  "\<exists>st' b'. read_sync_ata_sector quiet (\<lambda>e. ata_handler1 quiet) 1300 1200 3 0 1100
      (demo_ata\<lparr>at_queue := (\<lambda>i. NULL), at_nodes := Map.empty, at_bops := Map.empty\<rparr>) = Some (0, st')
    \<and> at_bufs st' 1100 = Some b' \<and> bh_status b' = BUFF_ST_VALID \<and> length (bh_data b') = 512"
proof -
  let ?st = "demo_ata\<lparr>at_queue := (\<lambda>i. NULL), at_nodes := Map.empty, at_bops := Map.empty\<rparr>"
  have "read_target 3 0 = Some (0, 0)" by (simp add: read_target_def)
  with read_sync_reads_sector [OF quiet_responsive refl, of ?st 1100 zero_header 1300 1200 0]
  show ?thesis by (auto simp: demo_ata_def read_newaddr_def)
qed

section \<open>Disk sizes\<close>

lemma bit_int_shl16: "bit (int_shl16 w) n \<longleftrightarrow> n < 64 \<and> 16 \<le> n \<and> bit w (min (n - 16) 15)"
  by (cases "n = 31") (auto simp: int_shl16_def bit_simps min_def)

definition join48 :: "u16 list \<Rightarrow> u64" where
  "join48 ws = ucast (ws ! 0) OR push_bit 16 (ucast (ws ! 1)) OR push_bit 32 (ucast (ws ! 2)) OR push_bit 48 (ucast (ws ! 3))"

text \<open>The capacity recorded for an LBA48 disk is the number in the four words of the IDENTIFY answer as long as
  the second word is below \<open>0x8000\<close>. Otherwise (capacities with bit 31 set, from one terabyte on) the sign of the
  intermediate \<^verbatim>\<open>int\<close> fills the upper half: the recorded capacity has all its upper 32 bits set.\<close>
theorem dev_sectors_sign_extended:
  assumes "dv_cmds_supported d ! 1 AND 0x0400 \<noteq> 0"
  shows "dev_sectors d = (if bit (dv_max_lba48 d ! 1) 15 then join48 (dv_max_lba48 d) OR push_bit 32 (mask 32)
    else join48 (dv_max_lba48 d))"
proof (rule bit_word_eqI)
  fix n
  assume n: "n < LENGTH(64)"
  have b16: "bit w k \<Longrightarrow> k < 16" for w :: u16 and k using bit_imp_le_length [of w k] by simp
  have s: "bit (int_shl16 w) n \<longleftrightarrow> 16 \<le> n \<and> n < 32 \<and> bit w (n - 16) \<or> 32 \<le> n \<and> bit w 15" for w
    using n by (auto simp: bit_int_shl16 min_def)
  show "bit (dev_sectors d) n = bit (if bit (dv_max_lba48 d ! 1) 15 then join48 (dv_max_lba48 d) OR push_bit 32 (mask 32)
    else join48 (dv_max_lba48 d)) n"
    using assms n by (auto simp: dev_sectors_def join48_def s bit_simps dest: b16)
qed

theorem dev_sectors_sign_extended_witness:
  "dev_sectors (no_device\<lparr>dv_cmds_supported := [0, 0x0400, 0, 0, 0, 0], dv_max_lba48 := [0, 0x8000, 0, 0]\<rparr>)
     = 0xFFFFFFFF80000000"
  by (subst dev_sectors_sign_extended) (simp_all add: join48_def bit_iff_odd mask_eq_exp_minus_1)

end
