(* ===== verification/Sched.thy ===== *)
theory Sched
  imports Port_Io Linked_List Circular_List
begin

text \<open>
  Tasks: the scheduler \<^verbatim>\<open>kernel/sched.c\<close> with \<^verbatim>\<open>switch_to\<close> and \<^verbatim>\<open>setup_task\<close> of
  \<^verbatim>\<open>arch/x86/kernel/task.c\<close>, the wait queues \<^verbatim>\<open>kernel/wait.c\<close>, kernel threads \<^verbatim>\<open>kernel/thread.c\<close>, and
  process identifiers and \<^verbatim>\<open>_fork\<close> of \<^verbatim>\<open>kernel/fork.c\<close>. The tasks are the elements of a circular list; the
  wait queues are singly linked lists of tasks. \<^verbatim>\<open>task_switch_to\<close> is assembly: what is modelled of a
  switch is the state of the kernel, and what other tasks do until a sleeper runs again is an argument.
\<close>

section \<open>Data\<close>

abbreviation (input) TASK_READY_TO_RUN :: int where "TASK_READY_TO_RUN \<equiv> 0"
abbreviation (input) TASK_RUNNING :: int where "TASK_RUNNING \<equiv> 1"
abbreviation (input) TASK_STOPPED :: int where "TASK_STOPPED \<equiv> 2"
abbreviation (input) TASK_ZOMBIE :: int where "TASK_ZOMBIE \<equiv> 3"
abbreviation (input) KERNEL_PID :: u32 where "KERNEL_PID \<equiv> 0"
abbreviation (input) INIT_PID :: u32 where "INIT_PID \<equiv> 1"
abbreviation (input) MAX_NUM_PROCESS :: nat where "MAX_NUM_PROCESS \<equiv> 32000"
abbreviation (input) PROCESS_STACK_SIZE :: nat where "PROCESS_STACK_SIZE \<equiv> 0x4000"
abbreviation (input) WAIT_ADDRESS_SIZE :: int where "WAIT_ADDRESS_SIZE \<equiv> 256"
abbreviation (input) WAIT_KERNEL_THREAD :: int where "WAIT_KERNEL_THREAD \<equiv> 50"
abbreviation (input) KERNEL_CS :: u16 where "KERNEL_CS \<equiv> 0x08"
abbreviation (input) KERNEL_DS :: u16 where "KERNEL_DS \<equiv> 0x10"
abbreviation (input) EFLAGS_IF :: u32 where "EFLAGS_IF \<equiv> 0x202"
abbreviation (input) scheduler_quantum :: u32 where "scheduler_quantum \<equiv> HZ div 100"

record pt_regs =
  r_ss :: u16
  r_gs :: u16
  r_fs :: u16
  r_es :: u16
  r_ds :: u16
  r_esp :: u32
  r_edi :: u32
  r_esi :: u32
  r_ebp :: u32
  r_ebx :: u32
  r_edx :: u32
  r_ecx :: u32
  r_eax :: u32
  r_eip :: u32
  r_cs :: u16
  r_eflags :: u32

record task =
  tk_regs :: pt_regs
  tk_cr3 :: u32
  tk_state :: int
  tk_priority :: int
  tk_pid :: u32
  tk_stack_base :: ptr
  tk_kstack :: ptr
  tk_return_code :: int
  tk_wait_queue :: int
  tk_i_root :: ptr
  tk_i_cdir :: ptr

type_synonym theap = "ptr \<rightharpoonup> task"

record sched =
  sc_ring :: cheap
  sc_head :: ptr
  sc_cur :: ptr
  sc_tasks :: theap
  sc_jiffies :: u32
  sc_cnt :: u32
  sc_queues :: "nat \<Rightarrow> ptr"
  sc_nodes :: lheap
  sc_pid_stack :: "u32 list"
  sc_pid_top :: u32
  sc_mem :: mem
  sc_saved :: ptr

section \<open>The scheduler\<close>

definition GET_TASK :: "cheap \<Rightarrow> ptr \<Rightarrow> ptr option" where
  "GET_TASK h a = (if a = NULL then Some NULL else do { n \<leftarrow> h a; Some (cl_element n) })"

definition set_state :: "theap \<Rightarrow> ptr \<Rightarrow> int \<Rightarrow> theap option" where
  "set_state ts t s = upd_at ts t (\<lambda>k. k\<lparr>tk_state := s\<rparr>)"

definition switch_to :: "ptr \<Rightarrow> sched \<Rightarrow> sched option" where
  "switch_to tsk st = do {
     task \<leftarrow> GET_TASK (sc_ring st) tsk;
     current_task \<leftarrow> GET_TASK (sc_ring st) (sc_cur st);
     if current_task = NULL \<or> task = NULL then Some st
     else do {
       c \<leftarrow> sc_tasks st current_task;
       ts1 \<leftarrow> (if tk_state c = TASK_RUNNING then set_state (sc_tasks st) current_task TASK_READY_TO_RUN
              else Some (sc_tasks st));
       ts2 \<leftarrow> set_state ts1 task TASK_RUNNING;
       Some (st\<lparr>sc_saved := current_task, sc_cur := tsk, sc_tasks := ts2\<rparr>)
     }
   }"

text \<open>The \<^verbatim>\<open>do ... while (tmp == head)\<close> loop; a \<open>NULL\<close> task is dereferenced.\<close>

partial_function (option) schedule_loop :: "ptr \<Rightarrow> ptr \<Rightarrow> sched \<Rightarrow> sched option" where
  "schedule_loop head tmp0 st = do {
     n \<leftarrow> sc_ring st tmp0;
     let tmp = cl_next n;
     p \<leftarrow> GET_TASK (sc_ring st) tmp;
     c_task \<leftarrow> sc_tasks st p;
     if tk_state c_task = TASK_RUNNING \<or> tk_state c_task = TASK_READY_TO_RUN then switch_to tmp st
     else if tmp = head then schedule_loop head tmp st
     else Some st
   }"

definition schedule :: "sched \<Rightarrow> sched option" where
  "schedule st = (if sc_cur st = NULL then Some st else schedule_loop (sc_cur st) (sc_cur st) st)"

definition do_schedule :: "sched \<Rightarrow> sched option" where
  "do_schedule st =
     (if \<not> time_after (sc_jiffies st) (sc_cnt st) then Some st
      else schedule (st\<lparr>sc_cnt := sc_jiffies st + scheduler_quantum\<rparr>))"

text \<open>The architecture independent part of \<open>init_scheduler\<close>.\<close>

definition init_scheduler :: "sched \<Rightarrow> sched" where
  "init_scheduler st = st\<lparr>sc_head := snd c_llist_create, sc_cnt := sc_jiffies st + scheduler_quantum\<rparr>"

section \<open>Wait queues\<close>

definition init_wait_queues :: "sched \<Rightarrow> sched" where
  "init_wait_queues st = st\<lparr>sc_queues := (\<lambda>i. if i < 256 then snd llist_create else sc_queues st i)\<rparr>"

text \<open>\<open>node\<close> is the memory for the list node and \<open>others\<close> what happens from the switch to another task
  until this one runs again.\<close>

definition sleep_on :: "(sched \<Rightarrow> sched option) \<Rightarrow> ptr \<Rightarrow> int \<Rightarrow> sched \<Rightarrow> sched option" where
  "sleep_on others node sleep_addr st = do {
     current_task \<leftarrow> GET_TASK (sc_ring st) (sc_cur st);
     if sleep_addr < 0 \<or> sleep_addr \<ge> WAIT_ADDRESS_SIZE then Some st
     else do {
       ts \<leftarrow> set_state (sc_tasks st) current_task TASK_STOPPED;
       (r, q, nodes) \<leftarrow> llist_add (sc_nodes st) (sc_queues st (nat sleep_addr)) current_task node;
       let st1 = st\<lparr>sc_tasks := ts, sc_queues := (sc_queues st)(nat sleep_addr := q), sc_nodes := nodes\<rparr>;
       st2 \<leftarrow> schedule st1;
       st3 \<leftarrow> others st2;
       (r', q', nodes') \<leftarrow> llist_remove (sc_nodes st3) (sc_queues st3 (nat sleep_addr)) current_task;
       Some (st3\<lparr>sc_queues := (sc_queues st3)(nat sleep_addr := q'), sc_nodes := nodes'\<rparr>)
     }
   }"

text \<open>\<^verbatim>\<open>foreach(queue, tmp)\<close>. The removal works on the local variable \<open>queue\<close> and looks for an element equal to
  the node \<open>tmp\<close>.\<close>

partial_function (option) wakeup_loop :: "theap \<Rightarrow> lheap \<Rightarrow> ptr \<Rightarrow> ptr \<Rightarrow> (theap \<times> lheap) option" where
  "wakeup_loop ts nodes queue tmp =
     (if tmp \<noteq> NULL then do {
        n \<leftarrow> nodes tmp;
        ts1 \<leftarrow> set_state ts (ll_element n) TASK_READY_TO_RUN;
        (r, queue', nodes') \<leftarrow> llist_remove nodes queue tmp;
        n' \<leftarrow> nodes' tmp;
        wakeup_loop ts1 nodes' queue' (ll_next n')
      } else Some (ts, nodes))"

definition wakeup :: "int \<Rightarrow> sched \<Rightarrow> sched option" where
  "wakeup sleep_addr st =
     (if sleep_addr < 0 \<or> sleep_addr \<ge> WAIT_ADDRESS_SIZE then Some st
      else let queue = sc_queues st (nat sleep_addr) in do {
        (ts, nodes) \<leftarrow> wakeup_loop (sc_tasks st) (sc_nodes st) queue queue;
        Some (st\<lparr>sc_tasks := ts, sc_nodes := nodes\<rparr>)
      })"

section \<open>Process identifiers\<close>

text \<open>The stack pointer is 32 bits wide; reading or writing outside the array has no result.\<close>

definition get_new_pid :: "sched \<Rightarrow> (u32 \<times> sched) option" where
  "get_new_pid st =
     (if unat (sc_pid_top st) < length (sc_pid_stack st)
      then Some (sc_pid_stack st ! unat (sc_pid_top st), st\<lparr>sc_pid_top := sc_pid_top st - 1\<rparr>) else None)"

definition release_pid :: "u32 \<Rightarrow> sched \<Rightarrow> sched option" where
  "release_pid pid st =
     (let top' = sc_pid_top st + 1 in
      if unat top' < length (sc_pid_stack st)
      then Some (st\<lparr>sc_pid_top := top', sc_pid_stack := (sc_pid_stack st)[unat top' := pid]\<rparr>) else None)"

text \<open>The entries from \<open>i\<close> on, \<open>n\<close> of them left.\<close>

fun pid_entries :: "u32 \<Rightarrow> nat \<Rightarrow> u32 list" where
  "pid_entries p 0 = []"
| "pid_entries p (Suc n) =
     (let p' = (if p = KERNEL_PID \<or> p = INIT_PID then p + 1 else p) in p' # pid_entries (p' + 1) n)"

definition init_pids :: "sched \<Rightarrow> sched" where
  "init_pids st = st\<lparr>sc_pid_stack := pid_entries 0 MAX_NUM_PROCESS, sc_pid_top := of_nat MAX_NUM_PROCESS - 1\<rparr>"

section \<open>Threads\<close>

definition store_bytes :: "mem \<Rightarrow> ptr \<Rightarrow> byte list \<Rightarrow> mem" where
  "store_bytes m a bs = (\<lambda>x. if a \<le> x \<and> x < a + length bs then bs ! (x - a) else m x)"

text \<open>\<^verbatim>\<open>push_into_stack\<close>: the stack pointer and the memory.\<close>

definition push_bytes :: "byte list \<Rightarrow> ptr \<times> mem \<Rightarrow> ptr \<times> mem" where
  "push_bytes bs s = (let sp = fst s - length bs in (sp, store_bytes (snd s) sp bs))"

definition push32 :: "u32 \<Rightarrow> ptr \<times> mem \<Rightarrow> ptr \<times> mem" where
  "push32 w = push_bytes (byte_list32 w)"

definition push16 :: "u16 \<Rightarrow> ptr \<times> mem \<Rightarrow> ptr \<times> mem" where
  "push16 w = push_bytes (byte_list16 w)"

text \<open>The register context of a thread that has not run yet; \<open>kdir\<close> is \<^verbatim>\<open>kerneldir->dir_phy_addr\<close>.\<close>

definition setup_regs :: "u32 \<Rightarrow> u32 \<Rightarrow> task \<Rightarrow> task" where
  "setup_regs kdir start_routine t = t\<lparr>tk_regs := (tk_regs t)\<lparr>r_eip := start_routine, r_ds := KERNEL_DS, r_fs := KERNEL_DS,
       r_gs := KERNEL_DS, r_ss := KERNEL_DS, r_es := KERNEL_DS, r_cs := KERNEL_CS, r_eflags := EFLAGS_IF,
       r_esp := of_nat (tk_kstack t) - 14 * 4 - 2\<rparr>, tk_cr3 := kdir\<rparr>"

definition push_context :: "task \<Rightarrow> ptr \<times> mem \<Rightarrow> ptr \<times> mem" where
  "push_context t s =
     (let r = tk_regs t in
      push32 (tk_cr3 t) (push16 (r_ds r) (push32 (r_edi r) (push32 (r_esi r) (push32 (r_ebp r) (push32 (r_esp r)
        (push32 (r_ebx r) (push32 (r_edx r) (push32 (r_ecx r) (push32 (r_eax r) (push32 (r_eip r)
          (push32 (ucast (r_cs r)) (push32 (r_eflags r) (push32 (r_esp r) (push32 (ucast (r_ss r)) s)))))))))))))))"

definition setup_task :: "u32 \<Rightarrow> ptr \<Rightarrow> u32 \<Rightarrow> sched \<Rightarrow> sched option" where
  "setup_task kdir task start_routine st =
     (if task = NULL then Some st
      else do {
        t0 \<leftarrow> sc_tasks st task;
        let t = setup_regs kdir start_routine t0;
        let (sp, m) = push_context t (tk_kstack t, sc_mem st);
        Some (st\<lparr>sc_tasks := (sc_tasks st)(task \<mapsto> t\<lparr>tk_kstack := sp\<rparr>), sc_mem := m\<rparr>)
      })"

text \<open>\<open>newth\<close>, \<open>new_kstack\<close> and \<open>node\<close> are the results of the allocations (the last one inside \<open>c_llist_add\<close>),
  \<open>old\<close> is what the memory of the task held, \<open>force_exit\<close> the address of \<^verbatim>\<open>force_kthread_exit\<close>.\<close>

definition kernel_thread_create ::
  "u32 \<Rightarrow> u32 \<Rightarrow> ptr \<Rightarrow> task \<Rightarrow> ptr \<Rightarrow> ptr \<Rightarrow> int \<Rightarrow> u32 \<Rightarrow> u32 \<Rightarrow> sched \<Rightarrow> (ptr \<times> sched) option" where
  "kernel_thread_create kdir force_exit newth old new_kstack node priority start_routine arg st =
     (if newth = NULL then Some (NULL, st)
      else if new_kstack = NULL then Some (NULL, st)
      else do {
        let (sp, m) = push32 force_exit (push32 arg (new_kstack + PROCESS_STACK_SIZE, sc_mem st));
        let t = old\<lparr>tk_state := TASK_READY_TO_RUN, tk_priority := priority, tk_pid := KERNEL_PID, tk_return_code := 0,
                    tk_wait_queue := 0, tk_stack_base := new_kstack, tk_kstack := sp\<rparr>;
        st1 \<leftarrow> setup_task kdir newth start_routine (st\<lparr>sc_tasks := (sc_tasks st)(newth \<mapsto> t), sc_mem := m\<rparr>);
        (r, head, ring) \<leftarrow> c_llist_add (sc_ring st1) (sc_head st1) newth node;
        Some (newth, st1\<lparr>sc_head := head, sc_ring := ring\<rparr>)
      })"

definition kernel_thread_exit :: "int \<Rightarrow> sched \<Rightarrow> sched option" where
  "kernel_thread_exit return_code st = do {
     current_task \<leftarrow> GET_TASK (sc_ring st) (sc_cur st);
     ts \<leftarrow> upd_at (sc_tasks st) current_task (\<lambda>t. t\<lparr>tk_state := TASK_ZOMBIE, tk_return_code := return_code\<rparr>);
     st1 \<leftarrow> wakeup WAIT_KERNEL_THREAD (st\<lparr>sc_tasks := ts\<rparr>);
     schedule st1
   }"

text \<open>\<open>slp\<close> is a call of \<^verbatim>\<open>sleep_on(WAIT_KERNEL_THREAD)\<close>, which lets other tasks run.\<close>

partial_function (option) wait_zombie :: "(sched \<Rightarrow> sched option) \<Rightarrow> ptr \<Rightarrow> sched \<Rightarrow> sched option" where
  "wait_zombie slp th st = do {
     t \<leftarrow> sc_tasks st th;
     if tk_state t \<noteq> TASK_ZOMBIE then do { st1 \<leftarrow> slp st; wait_zombie slp th st1 } else Some st
   }"

definition kernel_thread_wait :: "(sched \<Rightarrow> sched option) \<Rightarrow> ptr \<Rightarrow> sched \<Rightarrow> (int \<times> sched) option" where
  "kernel_thread_wait slp th st =
     (if th = NULL then Some (-1, st)
      else do {
        st1 \<leftarrow> wait_zombie slp th st;
        t \<leftarrow> sc_tasks st1 th;
        (r, head, ring) \<leftarrow> c_llist_remove (sc_ring st1) (sc_head st1) th;
        Some (tk_return_code t, st1\<lparr>sc_head := head, sc_ring := ring, sc_tasks := (sc_tasks st1)(th := None)\<rparr>)
      })"

definition copy_mem :: "mem \<Rightarrow> ptr \<Rightarrow> ptr \<Rightarrow> nat \<Rightarrow> mem" where
  "copy_mem m dst src n = (\<lambda>x. if dst \<le> x \<and> x < dst + n then m (src + (x - dst)) else m x)"

definition fork :: "ptr \<Rightarrow> ptr \<Rightarrow> ptr \<Rightarrow> ptr \<Rightarrow> sched \<Rightarrow> (u32 \<times> sched) option" where
  "fork newth new_stack node thread st =
     (if newth = NULL then Some (-1, st)
      else if new_stack = NULL then Some (-1, st)
      else do {
        t \<leftarrow> sc_tasks st thread;
        (child, st1) \<leftarrow> get_new_pid st;
        let kstack = new_stack + unat (of_nat (tk_stack_base t) + of_nat PROCESS_STACK_SIZE - r_esp (tk_regs t));
        let t' = t\<lparr>tk_pid := child, tk_stack_base := new_stack, tk_kstack := kstack,
                   tk_regs := (tk_regs t)\<lparr>r_esp := of_nat kstack\<rparr>\<rparr>;
        let st2 = st1\<lparr>sc_tasks := (sc_tasks st1)(newth \<mapsto> t'),
                      sc_mem := copy_mem (sc_mem st1) new_stack (tk_stack_base t) PROCESS_STACK_SIZE\<rparr>;
        p \<leftarrow> GET_TASK (sc_ring st2) (sc_cur st2);
        c \<leftarrow> sc_tasks st2 p;
        if tk_pid c = child then Some (0, st2)
        else do {
          (r, head, ring) \<leftarrow> c_llist_add (sc_ring st2) (sc_head st2) newth node;
          Some (child, st2\<lparr>sc_head := head, sc_ring := ring\<rparr>)
        }
      })"

section \<open>Round robin\<close>

lemma dseg_nth:
  assumes "dseg h pv p ns nx lp" and "i < length ns"
  shows "\<exists>n. h (fst (ns ! i)) = Some n \<and> cl_element n = snd (ns ! i) \<and> fst (ns ! i) \<noteq> NULL
    \<and> cl_next n = (if Suc i < length ns then fst (ns ! Suc i) else nx)"
  using assms
proof (induction ns arbitrary: p pv i)
  case Nil
  then show ?case by simp
next
  case (Cons a ns)
  obtain x e where a: "a = (x, e)" by (cases a)
  from Cons.prems a obtain n where n: "h x = Some n" "cl_element n = e" "x \<noteq> NULL" "dseg h x (cl_next n) ns nx lp"
    by (auto split: option.splits)
  show ?case
  proof (cases i)
    case 0
    then show ?thesis using n a dseg_first [OF n(4)] by (auto simp: hd_conv_nth)
  next
    case (Suc j)
    then show ?thesis using Cons.IH [OF n(4), of j] Cons.prems(2) by (auto split: if_splits)
  qed
qed

lemma is_cllist_nth:
  assumes "is_cllist h l ns" and "i < length ns"
  shows "\<exists>n. h (fst (ns ! i)) = Some n \<and> cl_element n = snd (ns ! i) \<and> fst (ns ! i) \<noteq> NULL
    \<and> cl_next n = fst (ns ! (Suc i mod length ns))"
proof -
  have seg: "dseg h (fst (last ns)) l ns l (fst (last ns))" and ne: "ns \<noteq> []"
    using assms by (auto simp: is_cllist_def split: if_splits)
  have "l = fst (ns ! 0)" using dseg_first [OF seg] ne by (simp add: hd_conv_nth)
  moreover have "Suc i < length ns \<or> Suc i = length ns" using assms(2) by linarith
  ultimately show ?thesis using dseg_nth [OF seg assms(2)] by auto
qed

text \<open>The tasks \<open>ns\<close> (list node and task) of a scheduler whose current task is number \<open>i\<close>.\<close>

definition runq :: "sched \<Rightarrow> (ptr \<times> ptr) list \<Rightarrow> nat \<Rightarrow> bool" where
  "runq st ns i = (is_cllist (sc_ring st) (sc_head st) ns \<and> i < length ns \<and> sc_cur st = fst (ns ! i)
     \<and> distinct (map snd ns) \<and> (\<forall>p \<in> snd ` set ns. p \<noteq> NULL \<and> sc_tasks st p \<noteq> None))"

definition state_of :: "sched \<Rightarrow> ptr \<Rightarrow> int" where
  "state_of st p = (case sc_tasks st p of None \<Rightarrow> -1 | Some t \<Rightarrow> tk_state t)"

definition runnable :: "sched \<Rightarrow> ptr \<Rightarrow> bool" where
  "runnable st p = (state_of st p = TASK_RUNNING \<or> state_of st p = TASK_READY_TO_RUN)"

lemma set_state_ok:
  "ts p = Some t \<Longrightarrow> set_state ts p s = Some (ts(p \<mapsto> t\<lparr>tk_state := s\<rparr>))"
  by (simp add: set_state_def)

lemma runq_nth:
  assumes "runq st ns i" and "j < length ns"
  shows "\<exists>t. sc_tasks st (snd (ns ! j)) = Some t \<and> snd (ns ! j) \<noteq> NULL \<and> GET_TASK (sc_ring st) (fst (ns ! j)) = Some (snd (ns ! j))"
proof -
  have "is_cllist (sc_ring st) (sc_head st) ns" using assms(1) by (simp add: runq_def)
  from is_cllist_nth [OF this assms(2)] have g: "GET_TASK (sc_ring st) (fst (ns ! j)) = Some (snd (ns ! j))"
    by (auto simp: GET_TASK_def)
  have "snd (ns ! j) \<in> snd ` set ns" using assms(2) by simp
  then show ?thesis using assms(1) g by (auto simp: runq_def)
qed

lemma switch_to_ok:
  assumes q: "runq st ns i" and j: "j < length ns"
  shows "\<exists>st'. switch_to (fst (ns ! j)) st = Some st' \<and> runq st' ns j \<and> sc_ring st' = sc_ring st
    \<and> (\<forall>p. state_of st' p = (if p = snd (ns ! j) then TASK_RUNNING
         else if p = snd (ns ! i) \<and> state_of st p = TASK_RUNNING then TASK_READY_TO_RUN else state_of st p))"
proof -
  have i: "i < length ns" and cur: "sc_cur st = fst (ns ! i)" using q by (auto simp: runq_def)
  let ?c = "snd (ns ! i)" and ?t = "snd (ns ! j)"
  obtain c where c: "sc_tasks st ?c = Some c" "?c \<noteq> NULL" "GET_TASK (sc_ring st) (sc_cur st) = Some ?c"
    using runq_nth [OF q i] cur by auto
  obtain t where t: "sc_tasks st ?t = Some t" "?t \<noteq> NULL" "GET_TASK (sc_ring st) (fst (ns ! j)) = Some ?t"
    using runq_nth [OF q j] by auto
  define ts1 where "ts1 = (if tk_state c = TASK_RUNNING then (sc_tasks st)(?c \<mapsto> c\<lparr>tk_state := TASK_READY_TO_RUN\<rparr>) else sc_tasks st)"
  have s1: "(if tk_state c = TASK_RUNNING then set_state (sc_tasks st) ?c TASK_READY_TO_RUN else Some (sc_tasks st)) = Some ts1"
    using c(1) by (simp add: set_state_def ts1_def)
  have "ts1 ?t \<noteq> None" using t(1) by (simp add: ts1_def)
  then obtain t1 where t1: "ts1 ?t = Some t1" by blast
  let ?st' = "st\<lparr>sc_saved := ?c, sc_cur := fst (ns ! j), sc_tasks := ts1(?t \<mapsto> t1\<lparr>tk_state := TASK_RUNNING\<rparr>)\<rparr>"
  have sw: "switch_to (fst (ns ! j)) st = Some ?st'"
    unfolding switch_to_def using c t s1 t1 by (simp add: set_state_def)
  have dom: "\<forall>p. sc_tasks st p \<noteq> None \<longrightarrow> sc_tasks ?st' p \<noteq> None" by (auto simp: ts1_def)
  have "runq ?st' ns j" using q j dom unfolding runq_def by auto
  moreover have "state_of ?st' p = (if p = ?t then TASK_RUNNING
         else if p = ?c \<and> state_of st p = TASK_RUNNING then TASK_READY_TO_RUN else state_of st p)" for p
    using c(1) by (auto simp: state_of_def ts1_def)
  ultimately show ?thesis using sw by auto
qed

lemma schedule_unfold:
  assumes q: "runq st ns i"
  shows "schedule st = (let j = Suc i mod length ns in
    if runnable st (snd (ns ! j)) then switch_to (fst (ns ! j)) st
    else if j = i then schedule_loop (fst (ns ! i)) (fst (ns ! i)) st else Some st)"
proof -
  let ?j = "Suc i mod length ns"
  have r: "is_cllist (sc_ring st) (sc_head st) ns" and i: "i < length ns" and cur: "sc_cur st = fst (ns ! i)"
    using q by (auto simp: runq_def)
  have j: "?j < length ns" using i by (intro mod_less_divisor) linarith
  obtain n where n: "sc_ring st (sc_cur st) = Some n" "cl_next n = fst (ns ! ?j)" "sc_cur st \<noteq> NULL"
    using is_cllist_nth [OF r i] cur by auto
  obtain t where t: "sc_tasks st (snd (ns ! ?j)) = Some t" "GET_TASK (sc_ring st) (fst (ns ! ?j)) = Some (snd (ns ! ?j))"
    using runq_nth [OF q j] by auto
  have dist: "distinct (map fst ns)" using r i by (auto simp: is_cllist_def split: if_splits)
  have ij: "fst (ns ! ?j) = fst (ns ! i) \<longleftrightarrow> ?j = i" using dist i j by (metis length_map nth_eq_iff_index_eq nth_map)
  have "runnable st (snd (ns ! ?j)) \<longleftrightarrow> tk_state t = TASK_RUNNING \<or> tk_state t = TASK_READY_TO_RUN"
    using t(1) by (simp add: runnable_def state_of_def)
  then show ?thesis
    unfolding schedule_def Let_def using n t cur ij by (subst schedule_loop.simps) auto
qed

text \<open>\<open>n\<close> calls of the scheduler.\<close>

fun schedule_times :: "nat \<Rightarrow> sched \<Rightarrow> sched option" where
  "schedule_times 0 st = Some st"
| "schedule_times (Suc n) st = do { st1 \<leftarrow> schedule st; schedule_times n st1 }"

text \<open>The current task is the only one running, every other one waits for the processor.\<close>

definition one_running :: "sched \<Rightarrow> (ptr \<times> ptr) list \<Rightarrow> nat \<Rightarrow> bool" where
  "one_running st ns i = (runq st ns i \<and>
     (\<forall>j < length ns. state_of st (snd (ns ! j)) = (if j = i then TASK_RUNNING else TASK_READY_TO_RUN)))"

lemma schedule_next:
  assumes o: "one_running st ns i"
  shows "\<exists>st'. schedule st = Some st' \<and> one_running st' ns (Suc i mod length ns)"
proof -
  let ?j = "Suc i mod length ns"
  have q: "runq st ns i" and i: "i < length ns" and d: "distinct (map snd ns)"
    using o by (auto simp: one_running_def runq_def)
  have j: "?j < length ns" using i by (intro mod_less_divisor) linarith
  have s: "state_of st (snd (ns ! k)) = (if k = i then TASK_RUNNING else TASK_READY_TO_RUN)" if "k < length ns" for k
    using o that by (simp add: one_running_def)
  have "runnable st (snd (ns ! ?j))" using s [OF j] by (simp add: runnable_def split: if_splits)
  then have sch: "schedule st = switch_to (fst (ns ! ?j)) st" using schedule_unfold [OF q] by (simp add: Let_def)
  obtain st' where sw: "switch_to (fst (ns ! ?j)) st = Some st'" "runq st' ns ?j"
    and st': "\<And>p. state_of st' p = (if p = snd (ns ! ?j) then TASK_RUNNING
         else if p = snd (ns ! i) \<and> state_of st p = TASK_RUNNING then TASK_READY_TO_RUN else state_of st p)"
    using switch_to_ok [OF q j] by blast
  have inj: "snd (ns ! k) = snd (ns ! m) \<longleftrightarrow> k = m" if "k < length ns" "m < length ns" for k m
    using d that by (metis length_map nth_eq_iff_index_eq nth_map)
  have "one_running st' ns ?j"
    unfolding one_running_def using sw(2) by (auto simp: st' s inj i j)
  then show ?thesis using sch sw(1) by auto
qed

text \<open>C5: The scheduler is fair as long as no task sleeps: from a state in which the current task is running and
  all others are ready, \<open>k\<close> calls of \<open>schedule\<close> return, make the task \<open>k\<close> places further round the ring the current
  one, and again leave it as the only running task; every task is current once in every round.\<close>
theorem schedule_round_robin:
  assumes "one_running st ns i"
  shows "\<exists>st'. schedule_times k st = Some st' \<and> one_running st' ns ((i + k) mod length ns)"
  using assms
proof (induction k arbitrary: st i)
  case 0
  then have "i < length ns" by (simp add: one_running_def runq_def)
  with 0 show ?case by simp
next
  case (Suc k)
  obtain st1 where s1: "schedule st = Some st1" "one_running st1 ns (Suc i mod length ns)"
    using schedule_next [OF Suc.prems] by blast
  from Suc.IH [OF s1(2)] obtain st' where
    "schedule_times k st1 = Some st'" "one_running st' ns ((Suc i mod length ns + k) mod length ns)" by blast
  moreover have "(Suc i mod length ns + k) mod length ns = (i + Suc k) mod length ns" by (simp add: mod_simps)
  ultimately show ?case using s1(1) by simp
qed

text \<open>Three tasks, the first one running.\<close>

definition zero_regs :: pt_regs where
  "zero_regs = \<lparr>r_ss = 0, r_gs = 0, r_fs = 0, r_es = 0, r_ds = 0, r_esp = 0, r_edi = 0, r_esi = 0, r_ebp = 0,
     r_ebx = 0, r_edx = 0, r_ecx = 0, r_eax = 0, r_eip = 0, r_cs = 0, r_eflags = 0\<rparr>"

definition demo_task :: "int \<Rightarrow> u32 \<Rightarrow> task" where
  "demo_task s pid = \<lparr>tk_regs = zero_regs, tk_cr3 = 0, tk_state = s, tk_priority = 0, tk_pid = pid, tk_stack_base = 0,
     tk_kstack = 0, tk_return_code = 0, tk_wait_queue = 0, tk_i_root = 0, tk_i_cdir = 0\<rparr>"

definition demo_sched :: "int \<Rightarrow> int \<Rightarrow> int \<Rightarrow> sched" where
  "demo_sched s1 s2 s3 = \<lparr>sc_ring = ring3, sc_head = 16, sc_cur = 16,
     sc_tasks = [101 \<mapsto> demo_task s1 2, 102 \<mapsto> demo_task s2 3, 103 \<mapsto> demo_task s3 4],
     sc_jiffies = 0, sc_cnt = 0, sc_queues = (\<lambda>i. NULL), sc_nodes = Map.empty, sc_pid_stack = [], sc_pid_top = 0,
     sc_mem = (\<lambda>a. 0), sc_saved = 0\<rparr>"

lemma demo_sched_runq: "runq (demo_sched s1 s2 s3) ring3_nodes 0"
  using ring3_ok(1) by (simp add: runq_def demo_sched_def)

lemma demo_sched_state:
  "state_of (demo_sched s1 s2 s3) 101 = s1" "state_of (demo_sched s1 s2 s3) 102 = s2" "state_of (demo_sched s1 s2 s3) 103 = s3"
  by (simp_all add: state_of_def demo_sched_def demo_task_def)

lemma demo_sched_one_running: "one_running (demo_sched TASK_RUNNING TASK_READY_TO_RUN TASK_READY_TO_RUN) ring3_nodes 0"
proof -
  have "j = 0 \<or> j = 1 \<or> j = 2" if "j < length ring3_nodes" for j using that by auto
  then show ?thesis unfolding one_running_def using demo_sched_runq
    by (force simp: demo_sched_state)
qed

theorem schedule_round_robin_witness:
  "\<exists>st'. schedule_times 5 (demo_sched TASK_RUNNING TASK_READY_TO_RUN TASK_READY_TO_RUN) = Some st'
     \<and> one_running st' ring3_nodes 2"
  using schedule_round_robin [OF demo_sched_one_running, of 5] by simp

section \<open>Sleeping and waking up\<close>

lemma schedule_next_stopped:
  assumes "runq st ns i" and "2 \<le> length ns" and "\<not> runnable st (snd (ns ! (Suc i mod length ns)))"
  shows "schedule st = Some st"
proof -
  have "i < length ns" using assms(1) by (simp add: runq_def)
  then have "Suc i mod length ns \<noteq> i"
    using assms(2) by (cases "Suc i = length ns") (auto simp: mod_less)
  then show ?thesis using schedule_unfold [OF assms(1)] assms(3) by (simp add: Let_def)
qed

lemma state_of_update:
  "state_of (st\<lparr>sc_tasks := ts(p \<mapsto> t), sc_queues := q, sc_nodes := n\<rparr>) x
     = (if x = p then tk_state t else case ts x of None \<Rightarrow> -1 | Some k \<Rightarrow> tk_state k)"
  by (simp add: state_of_def)

text \<open>A task can fail to sleep: when the task that follows it in the ring is not runnable, \<open>schedule\<close> looks no
  further, whatever the states of the remaining tasks are. \<open>sleep_on\<close> then returns at once, with the caller still
  the current task although its state is stopped, and its place in the wait queue given up again.\<close>
theorem sleep_on_does_not_block:
  assumes q: "runq st ns i" and len: "2 \<le> length ns"
    and nxt: "\<not> runnable st (snd (ns ! (Suc i mod length ns)))"
    and addr: "0 \<le> a" "a < 256"
    and w: "is_llist (sc_nodes st) (sc_queues st (nat a)) ws" and new: "snd (ns ! i) \<notin> snd ` set ws"
    and node: "node \<noteq> NULL" "node \<notin> dom (sc_nodes st)"
  shows "\<exists>st'. sleep_on Some node a st = Some st' \<and> sc_cur st' = sc_cur st
    \<and> state_of st' (snd (ns ! i)) = TASK_STOPPED \<and> is_llist (sc_nodes st') (sc_queues st' (nat a)) ws"
proof -
  let ?c = "snd (ns ! i)" and ?j = "Suc i mod length ns"
  have i: "i < length ns" and cur: "sc_cur st = fst (ns ! i)" and d: "distinct (map snd ns)"
    using q by (auto simp: runq_def)
  have j: "?j < length ns" using i by (intro mod_less_divisor) linarith
  have ij: "?j \<noteq> i" using i len by (cases "Suc i = length ns") (auto simp: mod_less)
  have cj: "snd (ns ! ?j) \<noteq> ?c" using d i j ij by (metis length_map nth_eq_iff_index_eq nth_map)
  obtain c where c: "sc_tasks st ?c = Some c" "GET_TASK (sc_ring st) (sc_cur st) = Some ?c"
    using runq_nth [OF q i] cur by auto
  from sll.add_remove [OF w node new] obtain l1 h1 l2 h2
    where ar: "llist_add (sc_nodes st) (sc_queues st (nat a)) ?c node = Some (1, l1, h1)"
      "llist_remove h1 l1 ?c = Some (1, l2, h2)" "is_llist h2 l2 ws" by blast
  define st1 where "st1 = st\<lparr>sc_tasks := (sc_tasks st)(?c \<mapsto> c\<lparr>tk_state := TASK_STOPPED\<rparr>),
    sc_queues := (sc_queues st)(nat a := l1), sc_nodes := h1\<rparr>"
  have q1: "runq st1 ns i" using q by (auto simp: runq_def st1_def)
  have "\<not> runnable st1 (snd (ns ! ?j))" using nxt cj by (simp add: runnable_def state_of_def st1_def)
  from schedule_next_stopped [OF q1 len this] have s: "schedule st1 = Some st1" .
  let ?st' = "st1\<lparr>sc_queues := (sc_queues st1)(nat a := l2), sc_nodes := h2\<rparr>"
  have "sleep_on Some node a st = Some ?st'"
    unfolding sleep_on_def using addr c ar(1,2) s
    by (simp add: set_state_def st1_def [symmetric]) (simp add: st1_def)
  then show ?thesis using ar(3) by (auto simp: st1_def state_of_def)
qed

theorem sleep_on_does_not_block_witness:
  "\<exists>st'. sleep_on Some 500 14 (demo_sched TASK_RUNNING TASK_STOPPED TASK_READY_TO_RUN) = Some st' \<and> sc_cur st' = 16
    \<and> state_of st' 101 = TASK_STOPPED"
  using sleep_on_does_not_block [OF demo_sched_runq, where a = 14 and ws = "[]" and node = 500,
      of TASK_RUNNING TASK_STOPPED TASK_READY_TO_RUN]
  by (auto simp: runnable_def demo_sched_state is_llist_def) (auto simp: demo_sched_def)

lemma llist_remove_absent:
  assumes "is_llist h l ns" and "e \<notin> snd ` set ns"
  shows "llist_remove h l e = Some (0, l, h)"
proof (cases ns)
  case Nil
  then show ?thesis using assms by (simp add: is_llist_def llist_remove_def)
next
  case (Cons n ms)
  then show ?thesis using assms llist_find_none [of h l ns e l]
    by (cases n) (auto simp: is_llist_def llist_remove_def split: option.splits)
qed

definition make_ready :: "ptr set \<Rightarrow> theap \<Rightarrow> theap" where
  "make_ready ps ts = (\<lambda>p. if p \<in> ps then map_option (\<lambda>t. t\<lparr>tk_state := TASK_READY_TO_RUN\<rparr>) (ts p) else ts p)"

lemma make_ready_insert:
  "ts p = Some t \<Longrightarrow> make_ready ps (ts(p \<mapsto> t\<lparr>tk_state := TASK_READY_TO_RUN\<rparr>)) = make_ready (insert p ps) ts"
  by (auto simp: make_ready_def fun_eq_iff)

lemma wakeup_loop_ok:
  assumes q: "is_llist nodes queue ns" and "lseg nodes tmp ms NULL" and "set ms \<subseteq> set ns"
    and dj: "fst ` set ns \<inter> snd ` set ns = {}" and "\<forall>p \<in> snd ` set ms. ts p \<noteq> None"
  shows "wakeup_loop ts nodes queue tmp = Some (make_ready (snd ` set ms) ts, nodes)"
  using assms(2,3,5)
proof (induction ms arbitrary: tmp ts)
  case Nil
  then show ?case by (subst wakeup_loop.simps) (simp add: make_ready_def)
next
  case (Cons m ms)
  obtain a e where m: "m = (a, e)" by (cases m)
  from Cons.prems(1) m obtain n where n: "tmp = a" "a \<noteq> NULL" "nodes a = Some n" "ll_element n = e" "lseg nodes (ll_next n) ms NULL"
    by (auto split: option.splits)
  obtain t where t: "ts e = Some t" using Cons.prems(3) m by auto
  have "a \<notin> snd ` set ns" using dj Cons.prems(2) m by force
  then have r: "llist_remove nodes queue a = Some (0, queue, nodes)" by (rule llist_remove_absent [OF q])
  let ?ts = "ts(e \<mapsto> t\<lparr>tk_state := TASK_READY_TO_RUN\<rparr>)"
  have "wakeup_loop ?ts nodes queue (ll_next n) = Some (make_ready (snd ` set ms) ?ts, nodes)"
    using Cons.prems(2,3) by (intro Cons.IH n(5)) auto
  then show ?case
    using n t r m make_ready_insert [of ts e t, OF t] by (subst wakeup_loop.simps) (simp add: set_state_def)
qed

lemma wakeup_ok:
  assumes "0 \<le> a" "a < 256" and q: "is_llist (sc_nodes st) (sc_queues st (nat a)) ns"
    and "fst ` set ns \<inter> snd ` set ns = {}" and "\<forall>p \<in> snd ` set ns. sc_tasks st p \<noteq> None"
  shows "wakeup a st = Some (st\<lparr>sc_tasks := make_ready (snd ` set ns) (sc_tasks st)\<rparr>)"
proof -
  have "lseg (sc_nodes st) (sc_queues st (nat a)) ns NULL" using q by (simp add: is_llist_def)
  from wakeup_loop_ok [OF q this _ assms(4,5)] show ?thesis using assms(1,2) by (simp add: wakeup_def)
qed

lemma state_of_make_ready:
  "\<forall>p \<in> ps. sc_tasks st p \<noteq> None \<Longrightarrow>
   state_of (st\<lparr>sc_tasks := make_ready ps (sc_tasks st)\<rparr>) p = (if p \<in> ps then TASK_READY_TO_RUN else state_of st p)"
  by (auto simp: state_of_def make_ready_def split: option.splits)

text \<open>\<open>wakeup\<close> makes every task that sleeps on the event ready to run and changes the state of no other task; an
  event outside the table is ignored. The nodes stay in the queue (each sleeper takes its own out when it runs
  again), provided that no task has the address of a list node.\<close>
theorem wakeup_readies_sleepers:
  assumes q: "is_llist (sc_nodes st) (sc_queues st (nat a)) ns"
    and "fst ` set ns \<inter> snd ` set ns = {}" and ts: "\<forall>p \<in> snd ` set ns. sc_tasks st p \<noteq> None"
  shows "\<exists>st'. wakeup a st = Some st' \<and> sc_nodes st' = sc_nodes st \<and> sc_queues st' = sc_queues st
    \<and> (\<forall>p. state_of st' p = (if 0 \<le> a \<and> a < 256 \<and> p \<in> snd ` set ns then TASK_READY_TO_RUN else state_of st p))"
proof (cases "0 \<le> a \<and> a < 256")
  case True
  then show ?thesis using wakeup_ok [OF _ _ q assms(2,3)] state_of_make_ready [OF ts] by auto
next
  case False
  then show ?thesis by (auto simp: wakeup_def)
qed

theorem wakeup_readies_sleepers_witness:
  "\<exists>st'. wakeup 14 ((demo_sched TASK_RUNNING TASK_STOPPED TASK_STOPPED)\<lparr>sc_queues := (\<lambda>i. if i = 14 then 600 else NULL),
       sc_nodes := [600 \<mapsto> \<lparr>ll_element = 102, ll_next = 700\<rparr>, 700 \<mapsto> \<lparr>ll_element = 103, ll_next = NULL\<rparr>]\<rparr>) = Some st'
     \<and> state_of st' 102 = TASK_READY_TO_RUN \<and> state_of st' 103 = TASK_READY_TO_RUN"
proof -
  let ?st = "(demo_sched TASK_RUNNING TASK_STOPPED TASK_STOPPED)\<lparr>sc_queues := (\<lambda>i. if i = 14 then 600 else NULL),
       sc_nodes := [600 \<mapsto> \<lparr>ll_element = 102, ll_next = 700\<rparr>, 700 \<mapsto> \<lparr>ll_element = 103, ll_next = NULL\<rparr>]\<rparr>"
  have "is_llist (sc_nodes ?st) (sc_queues ?st (nat 14)) [(600, 102), (700, 103)]" by (simp add: is_llist_def)
  from wakeup_readies_sleepers [OF this] show ?thesis by (auto simp: demo_sched_def)
qed

section \<open>Process identifiers\<close>

fun get_pids :: "nat \<Rightarrow> sched \<Rightarrow> (u32 list \<times> sched) option" where
  "get_pids 0 st = Some ([], st)"
| "get_pids (Suc n) st = do { (p, st1) \<leftarrow> get_new_pid st; (ps, st2) \<leftarrow> get_pids n st1; Some (p # ps, st2) }"

lemma pid_entries_from_2:
  "2 \<le> p \<Longrightarrow> p + n < 2 ^ 32 \<Longrightarrow> pid_entries (of_nat p) n = map of_nat [p..<p + n]"
proof (induction n arbitrary: p)
  case 0
  then show ?case by simp
next
  case (Suc n)
  have u: "unat (of_nat p :: u32) = p" using Suc.prems by (intro unat_of_nat_small_u32) simp
  then have "(of_nat p :: u32) \<noteq> 0" "(of_nat p :: u32) \<noteq> 1" using Suc.prems(1) by (metis unat_0 not_numeral_le_zero, metis unat_1 numeral_le_one_iff semiring_norm(69))
  moreover have "(of_nat p :: u32) + 1 = of_nat (Suc p)" by simp
  moreover have "[p..<p + Suc n] = p # [Suc p..<Suc p + n]" by (simp add: upt_conv_Cons del: upt_Suc)
  ultimately show ?case using Suc.IH [of "Suc p"] Suc.prems by (simp add: Let_def del: of_nat_Suc upt_Suc)
qed

lemma pid_entries_init: "n < 2 ^ 31 \<Longrightarrow> pid_entries 0 n = map of_nat [1..<Suc n]"
proof (cases n)
  case (Suc m)
  assume "n < 2 ^ 31"
  moreover have "[1..<Suc n] = 1 # [2..<2 + m]" using Suc by (simp add: upt_conv_Cons numeral_2_eq_2 del: upt_Suc)
  ultimately show ?thesis using pid_entries_from_2 [of 2 m] Suc by (simp add: Let_def del: upt_Suc)
qed simp

lemma get_pids_init:
  assumes "k \<le> 32000" and "sc_pid_stack st = map of_nat [1..<32001]" and "sc_pid_top st = of_nat t - 1" and "k \<le> t" and "t \<le> 32000"
  shows "\<exists>st'. get_pids k st = Some (map (\<lambda>i. of_nat (t - i)) [0..<k], st')
    \<and> sc_pid_top st' = of_nat (t - k) - 1 \<and> sc_pid_stack st' = sc_pid_stack st"
  using assms
proof (induction k arbitrary: st t)
  case 0
  then show ?case by simp
next
  case (Suc k)
  obtain s where s: "t = Suc s" using Suc.prems(4) by (cases t) auto
  have u: "unat (sc_pid_top st) = s" using Suc.prems s by (simp add: unat_of_nat_small_u32)
  let ?st = "st\<lparr>sc_pid_top := sc_pid_top st - 1\<rparr>"
  have g: "get_new_pid st = Some (of_nat t, ?st)"
    using u s Suc.prems(2,5) by (simp add: get_new_pid_def nth_append del: upt_rec_numeral)
  have "\<exists>st'. get_pids k ?st = Some (map (\<lambda>i. of_nat (s - i)) [0..<k], st')
      \<and> sc_pid_top st' = of_nat (s - k) - 1 \<and> sc_pid_stack st' = sc_pid_stack ?st"
    using Suc.prems s by (intro Suc.IH) simp_all
  then show ?case using g s by (auto simp: upt_conv_Cons map_Suc_upt [symmetric] comp_def simp del: upt_Suc)
qed

text \<open>After \<open>init_pids\<close>, \<open>k\<close> new process identifiers for \<open>k\<close> up to 32000 are the numbers from 32000 downwards: all
  different and never that of the kernel threads. The identifier reserved for init is among them, as the last
  one, and the next call after that reads outside the table.\<close>
theorem get_new_pid_counts_down:
  assumes "k \<le> 32000"
  shows "\<exists>ps st'. get_pids k (init_pids st) = Some (ps, st') \<and> ps = map (\<lambda>i. of_nat (32000 - i)) [0..<k]
    \<and> distinct ps \<and> KERNEL_PID \<notin> set ps \<and> (INIT_PID \<in> set ps \<longleftrightarrow> k = 32000) \<and> (k = 32000 \<longrightarrow> get_new_pid st' = None)"
proof -
  let ?ps = "map (\<lambda>i. of_nat (32000 - i)) [0..<k] :: u32 list"
  have st: "sc_pid_stack (init_pids st) = map of_nat [1..<32001]" "sc_pid_top (init_pids st) = of_nat 32000 - 1"
    using pid_entries_init [of 32000] by (simp_all add: init_pids_def del: upt_Suc pid_entries.simps)
  obtain st' where st': "get_pids k (init_pids st) = Some (?ps, st')" "sc_pid_top st' = of_nat (32000 - k) - 1"
      "sc_pid_stack st' = map of_nat [1..<32001]"
    using get_pids_init [OF assms st assms] st(1) by auto
  have u: "unat (of_nat (32000 - i) :: u32) = 32000 - i" for i by (intro unat_of_nat_small_u32) simp
  have "inj_on (\<lambda>i. of_nat (32000 - i) :: u32) {0..<k}"
  proof (rule inj_onI)
    fix x y assume xy: "x \<in> {0..<k}" "y \<in> {0..<k}" "(of_nat (32000 - x) :: u32) = of_nat (32000 - y)"
    then have "32000 - x = 32000 - y" using u by metis
    then show "x = y" using xy(1,2) assms by auto
  qed
  then have d: "distinct ?ps" by (simp add: distinct_map)
  have z: "KERNEL_PID \<notin> set ?ps"
  proof
    assume "KERNEL_PID \<in> set ?ps"
    then obtain i where "i < k" "(of_nat (32000 - i) :: u32) = 0" by auto
    then show False using u [of i] assms by simp
  qed
  have o: "INIT_PID \<in> set ?ps \<longleftrightarrow> k = 32000"
  proof
    assume "INIT_PID \<in> set ?ps"
    then obtain i where "i < k" "(of_nat (32000 - i) :: u32) = 1" by auto
    then show "k = 32000" using u [of i] assms by simp
  next
    assume "k = 32000"
    then show "INIT_PID \<in> set ?ps" by (auto intro!: image_eqI [of _ _ 31999])
  qed
  have "k = 32000 \<Longrightarrow> get_new_pid st' = None"
    using st'(2,3) by (simp add: get_new_pid_def unsigned_minus_1_eq_mask mask_eq_exp_minus_1 del: upt_rec_numeral)
  then show ?thesis using st'(1) d z o by blast
qed

theorem get_new_pid_counts_down_witness:
  "\<exists>ps st'. get_pids 3 (init_pids (demo_sched 1 0 0)) = Some (ps, st') \<and> ps = [32000, 31999, 31998]"
  using get_new_pid_counts_down [of 3 "demo_sched 1 0 0"] by (auto simp: upt_conv_Cons)

lemma release_get_pid:
  assumes "release_pid p st = Some st'"
  shows "get_new_pid st' = Some (p, st\<lparr>sc_pid_stack := (sc_pid_stack st)[unat (sc_pid_top st + 1) := p]\<rparr>)"
  using assms by (auto simp: release_pid_def get_new_pid_def Let_def split: if_splits)

section \<open>Threads\<close>

lemma push_bytes_store:
  "length bs \<le> sp \<Longrightarrow> push_bytes bs (sp, store_bytes m sp cs) = (sp - length bs, store_bytes m (sp - length bs) (bs @ cs))"
  by (auto simp: push_bytes_def store_bytes_def Let_def fun_eq_iff nth_append)

lemma store_bytes_Nil: "store_bytes m a [] = m"
  by (auto simp: store_bytes_def fun_eq_iff)

text \<open>The initial context of a thread, lowest address first, as the assembly of a task switch expects it.\<close>

definition context_bytes :: "task \<Rightarrow> byte list" where
  "context_bytes t = (let r = tk_regs t in
     byte_list32 (tk_cr3 t) @ byte_list16 (r_ds r) @ byte_list32 (r_edi r) @ byte_list32 (r_esi r) @ byte_list32 (r_ebp r)
     @ byte_list32 (r_esp r) @ byte_list32 (r_ebx r) @ byte_list32 (r_edx r) @ byte_list32 (r_ecx r) @ byte_list32 (r_eax r)
     @ byte_list32 (r_eip r) @ byte_list32 (ucast (r_cs r)) @ byte_list32 (r_eflags r) @ byte_list32 (r_esp r)
     @ byte_list32 (ucast (r_ss r)))"

lemma length_context_bytes: "length (context_bytes t) = 58"
  by (simp add: context_bytes_def Let_def)

lemma push32_store:
  "4 \<le> sp \<Longrightarrow> push32 w (sp, store_bytes m sp cs) = (sp - 4, store_bytes m (sp - 4) (byte_list32 w @ cs))"
  "2 \<le> sp \<Longrightarrow> push16 v (sp, store_bytes m sp cs) = (sp - 2, store_bytes m (sp - 2) (byte_list16 v @ cs))"
  using push_bytes_store [of "byte_list32 w" sp m cs] push_bytes_store [of "byte_list16 v" sp m cs]
  by (simp_all add: push32_def push16_def)

lemma push_context_store:
  assumes "58 \<le> sp"
  shows "push_context t (sp, store_bytes m sp cs) = (sp - 58, store_bytes m (sp - 58) (context_bytes t @ cs))"
  using assms by (simp add: push_context_def push32_store context_bytes_def Let_def)

text \<open>A new kernel thread: with memory for the task, its stack and the list node, \<open>kernel_thread_create\<close> returns the
  task, appends it to the ring of tasks as ready to run, and leaves on its stack exactly the argument, the return
  address of \<open>force_kthread_exit\<close> and the initial register context, in which the instruction pointer is the start
  routine and the stack pointer is the place of the context itself. Nothing else in memory changes.\<close>
theorem kernel_thread_create_appends:
  assumes q: "runq st ns i" and new: "newth \<noteq> NULL" "newth \<notin> dom (sc_tasks st)" and stk: "new_kstack \<noteq> NULL"
    and node: "node \<noteq> NULL" "node \<notin> dom (sc_ring st)"
  shows "\<exists>st' t. kernel_thread_create kdir force_exit newth old new_kstack node priority start arg st = Some (newth, st')
    \<and> runq st' (ns @ [(node, newth)]) i \<and> sc_tasks st' newth = Some t \<and> tk_state t = TASK_READY_TO_RUN
    \<and> tk_kstack t = new_kstack + PROCESS_STACK_SIZE - 66
    \<and> r_eip (tk_regs t) = start \<and> r_esp (tk_regs t) = of_nat (tk_kstack t)
    \<and> sc_mem st' = store_bytes (sc_mem st) (tk_kstack t) (context_bytes t @ byte_list32 force_exit @ byte_list32 arg)"
proof -
  let ?top = "new_kstack + PROCESS_STACK_SIZE"
  define t0 where "t0 = old\<lparr>tk_state := TASK_READY_TO_RUN, tk_priority := priority, tk_pid := KERNEL_PID, tk_return_code := 0,
                    tk_wait_queue := 0, tk_stack_base := new_kstack, tk_kstack := ?top - 8\<rparr>"
  define t1 where "t1 = setup_regs kdir start t0"
  define m1 where "m1 = store_bytes (sc_mem st) (?top - 8) (byte_list32 force_exit @ byte_list32 arg)"
  have p: "push32 force_exit (push32 arg (?top, sc_mem st)) = (?top - 8, m1)"
    using push32_store(1) [of ?top arg "sc_mem st" "[]"] push32_store(1) [of "?top - 4" force_exit "sc_mem st" "byte_list32 arg"]
    by (simp add: store_bytes_Nil m1_def)
  have c: "push_context t1 (?top - 8, m1) = (?top - 66, store_bytes (sc_mem st) (?top - 66)
      (context_bytes t1 @ byte_list32 force_exit @ byte_list32 arg))"
    using push_context_store [of "?top - 8" t1 "sc_mem st" "byte_list32 force_exit @ byte_list32 arg"] by (simp add: m1_def)
  define st1 where "st1 = st\<lparr>sc_tasks := (sc_tasks st)(newth \<mapsto> t1\<lparr>tk_kstack := ?top - 66\<rparr>),
      sc_mem := store_bytes (sc_mem st) (?top - 66) (context_bytes t1 @ byte_list32 force_exit @ byte_list32 arg)\<rparr>"
  have k: "tk_kstack t1 = ?top - 8" by (simp add: t1_def t0_def setup_regs_def)
  have "setup_task kdir newth start (st\<lparr>sc_tasks := (sc_tasks st)(newth \<mapsto> t0), sc_mem := m1\<rparr>) = Some st1"
    using new(1) c k by (simp add: setup_task_def t1_def [symmetric] st1_def Let_def)
  moreover have r: "is_cllist (sc_ring st) (sc_head st) ns" "ns \<noteq> []" using q by (auto simp: runq_def)
  from c_llist_add_ok [OF r(1) node, of newth] r(2) obtain h
    where a: "c_llist_add (sc_ring st) (sc_head st) newth node = Some (1, sc_head st, h)"
      "is_cllist h (sc_head st) (ns @ [(node, newth)])" by blast
  ultimately have e: "kernel_thread_create kdir force_exit newth old new_kstack node priority start arg st
      = Some (newth, st1\<lparr>sc_head := sc_head st, sc_ring := h\<rparr>)"
    unfolding kernel_thread_create_def Let_def p prod.case t0_def [symmetric] using new(1) stk by (simp add: st1_def)
  have "newth \<notin> snd ` set ns" using q new(2) by (auto simp: runq_def)
  then have "runq (st1\<lparr>sc_head := sc_head st, sc_ring := h\<rparr>) (ns @ [(node, newth)]) i"
    using q a(2) new(1) by (auto simp: runq_def st1_def nth_append)
  moreover have "context_bytes (t1\<lparr>tk_kstack := x\<rparr>) = context_bytes t1" for x by (simp add: context_bytes_def)
  moreover have "(of_nat (?top - 8) - 14 * 4 - 2 :: u32) = of_nat (?top - 66)" by (simp add: of_nat_diff)
  ultimately show ?thesis using e by (auto simp: st1_def t1_def t0_def setup_regs_def)
qed

theorem kernel_thread_create_appends_witness:
  "\<exists>st' t. kernel_thread_create 0x9000 0x5000 104 (demo_task 0 0) 0x8000 64 0 0x4000 7 (demo_sched 1 0 0) = Some (104, st')
    \<and> runq st' (ring3_nodes @ [(64, 104)]) 0 \<and> sc_tasks st' 104 = Some t \<and> r_eip (tk_regs t) = 0x4000"
proof -
  have "104 \<notin> dom (sc_tasks (demo_sched 1 0 0))" "64 \<notin> dom (sc_ring (demo_sched 1 0 0))"
    using ring3_ok(2) by (simp_all add: demo_sched_def)
  then show ?thesis
    using kernel_thread_create_appends [OF demo_sched_runq [of 1 0 0], where newth = 104 and new_kstack = "0x8000" and node = 64
      and kdir = "0x9000" and force_exit = "0x5000" and old = "demo_task 0 0" and priority = 0 and start = "0x4000" and arg = 7]
    by fastforce
qed

lemma kernel_thread_exit_ok:
  assumes q: "runq st ns i" and w: "is_llist (sc_nodes st) (sc_queues st 50) ws"
    and dj: "fst ` set ws \<inter> snd ` set ws = {}" and ts: "\<forall>p \<in> snd ` set ws. sc_tasks st p \<noteq> None"
    and c: "sc_tasks st (snd (ns ! i)) = Some c"
  shows "kernel_thread_exit rc st = schedule (st\<lparr>sc_tasks := make_ready (snd ` set ws)
    ((sc_tasks st)(snd (ns ! i) \<mapsto> c\<lparr>tk_state := TASK_ZOMBIE, tk_return_code := rc\<rparr>))\<rparr>)"
proof -
  have i: "i < length ns" "sc_cur st = fst (ns ! i)" using q by (auto simp: runq_def)
  have g: "GET_TASK (sc_ring st) (sc_cur st) = Some (snd (ns ! i))" using runq_nth [OF q i(1)] i(2) by auto
  let ?st = "st\<lparr>sc_tasks := (sc_tasks st)(snd (ns ! i) \<mapsto> c\<lparr>tk_state := TASK_ZOMBIE, tk_return_code := rc\<rparr>)\<rparr>"
  have "is_llist (sc_nodes ?st) (sc_queues ?st (nat 50)) ws" using w by simp
  moreover have "\<forall>p \<in> snd ` set ws. sc_tasks ?st p \<noteq> None" using ts by auto
  ultimately have "wakeup 50 ?st = Some (?st\<lparr>sc_tasks := make_ready (snd ` set ws) (sc_tasks ?st)\<rparr>)"
    using dj by (intro wakeup_ok) simp_all
  then show ?thesis unfolding kernel_thread_exit_def using g c by simp
qed

lemma set_state_dom: "set_state ts t s = Some ts' \<Longrightarrow> dom ts' = dom ts"
  by (cases "ts t") (auto simp: set_state_def upd_at_def split: if_splits)

lemma switch_to_keeps:
  assumes "switch_to tsk st = Some st'"
  shows "sc_queues st' = sc_queues st" "sc_nodes st' = sc_nodes st" "sc_head st' = sc_head st" "dom (sc_tasks st') = dom (sc_tasks st)"
proof -
  from assms obtain task current where "sc_queues st' = sc_queues st \<and> sc_nodes st' = sc_nodes st \<and> sc_head st' = sc_head st
    \<and> dom (sc_tasks st') = dom (sc_tasks st)"
    by (fastforce simp: switch_to_def bind_eq_Some_conv dest: set_state_dom split: if_splits)
  then show "sc_queues st' = sc_queues st" "sc_nodes st' = sc_nodes st" "sc_head st' = sc_head st" "dom (sc_tasks st') = dom (sc_tasks st)" by simp_all
qed

lemma next_index:
  assumes "i < length ns" "2 \<le> length ns" "distinct (map snd ns)"
  shows "Suc i mod length ns < length ns" "Suc i mod length ns \<noteq> i" "snd (ns ! (Suc i mod length ns)) \<noteq> snd (ns ! i)"
proof -
  show j: "Suc i mod length ns < length ns" using assms(1) by (intro mod_less_divisor) linarith
  show ne: "Suc i mod length ns \<noteq> i" using assms(1,2) by (cases "Suc i = length ns") (auto simp: mod_less)
  show "snd (ns ! (Suc i mod length ns)) \<noteq> snd (ns ! i)" using assms(1,3) j ne by (metis length_map nth_eq_iff_index_eq nth_map)
qed

text \<open>A thread that ends while its successor in the ring sleeps until a thread ends hands the processor to it.\<close>

lemma kernel_thread_exit_reaches:
  assumes q: "runq st ns i" and len: "2 \<le> length ns"
    and w: "is_llist (sc_nodes st) (sc_queues st 50) ws" "fst ` set ws \<inter> snd ` set ws = {}" "\<forall>p \<in> snd ` set ws. sc_tasks st p \<noteq> None"
    and sleeper: "snd (ns ! (Suc i mod length ns)) \<in> snd ` set ws" and self: "snd (ns ! i) \<notin> snd ` set ws"
  shows "\<exists>st1 t. kernel_thread_exit rc st = Some st1 \<and> runq st1 ns (Suc i mod length ns)
    \<and> state_of st1 (snd (ns ! (Suc i mod length ns))) = TASK_RUNNING
    \<and> sc_tasks st1 (snd (ns ! i)) = Some t \<and> tk_state t = TASK_ZOMBIE \<and> tk_return_code t = rc
    \<and> sc_queues st1 = sc_queues st \<and> sc_nodes st1 = sc_nodes st"
proof -
  let ?c = "snd (ns ! i)" and ?j = "Suc i mod length ns"
  have i: "i < length ns" and d: "distinct (map snd ns)" using q by (auto simp: runq_def)
  note j = next_index [OF i len d]
  obtain c where c: "sc_tasks st ?c = Some c" "?c \<noteq> NULL" using runq_nth [OF q i] by auto
  define st0 where "st0 = st\<lparr>sc_tasks := make_ready (snd ` set ws)
    ((sc_tasks st)(?c \<mapsto> c\<lparr>tk_state := TASK_ZOMBIE, tk_return_code := rc\<rparr>))\<rparr>"
  have ex: "kernel_thread_exit rc st = schedule st0" using kernel_thread_exit_ok [OF q w c(1)] by (simp add: st0_def)
  have q0: "runq st0 ns i" using q by (auto simp: runq_def st0_def make_ready_def)
  have t0: "sc_tasks st0 ?c = Some (c\<lparr>tk_state := TASK_ZOMBIE, tk_return_code := rc\<rparr>)"
    using self by (simp add: st0_def make_ready_def)
  have rj: "runnable st0 (snd (ns ! ?j))"
    using sleeper w(3) j(3) by (auto simp: runnable_def state_of_def st0_def make_ready_def)
  from switch_to_ok [OF q0 j(1)] obtain st1 where s1: "switch_to (fst (ns ! ?j)) st0 = Some st1" "runq st1 ns ?j"
    and so: "\<And>p. state_of st1 p = (if p = snd (ns ! ?j) then TASK_RUNNING
         else if p = ?c \<and> state_of st0 p = TASK_RUNNING then TASK_READY_TO_RUN else state_of st0 p)" by blast
  have e1: "kernel_thread_exit rc st = Some st1" using ex schedule_unfold [OF q0] rj s1(1) by (simp add: Let_def)
  have z: "state_of st1 ?c = TASK_ZOMBIE" using so [of ?c] j(3) t0 by (simp add: state_of_def)
  have "\<exists>t. sc_tasks st1 ?c = Some t \<and> tk_return_code t = rc"
    using s1(1) t0 runq_nth [OF q0 i] runq_nth [OF q0 j(1)] q0 j(3)
    by (auto simp: switch_to_def runq_def set_state_def split: if_splits)
  then obtain t where "sc_tasks st1 ?c = Some t" "tk_return_code t = rc" "tk_state t = TASK_ZOMBIE"
    using z by (auto simp: state_of_def)
  moreover have "sc_queues st0 = sc_queues st" "sc_nodes st0 = sc_nodes st" by (simp_all add: st0_def)
  ultimately show ?thesis using e1 s1(2) so [of "snd (ns ! ?j)"] switch_to_keeps [OF s1(1)] by auto
qed

text \<open>The other tasks run, from the switch to the successor of task \<open>i\<close> of the ring until task \<open>k\<close> is the current one; tasks,
  ring and wait queues are the same.\<close>

definition hands_on :: "(sched \<Rightarrow> sched option) \<Rightarrow> sched \<Rightarrow> (ptr \<times> ptr) list \<Rightarrow> nat \<Rightarrow> nat \<Rightarrow> bool" where
  "hands_on mid st ns i k \<longleftrightarrow>
     (\<forall>s. runq s ns (Suc i mod length ns) \<and> (\<forall>p. p \<noteq> snd (ns ! i) \<and> p \<noteq> snd (ns ! (Suc i mod length ns)) \<longrightarrow> state_of s p = state_of st p) \<longrightarrow>
       (\<exists>s'. mid s = Some s' \<and> runq s' ns k \<and> sc_queues s' = sc_queues s \<and> sc_nodes s' = sc_nodes s \<and> dom (sc_tasks s') = dom (sc_tasks s)))"

text \<open>The waiting task sleeps until the other one has ended.\<close>

lemma wait_zombie_sleeps:
  assumes q: "runq st ns i" and len: "2 \<le> length ns" and k: "k < length ns" "Suc k mod length ns = i"
    and alive: "state_of st (snd (ns ! k)) \<noteq> TASK_ZOMBIE" and nxt: "runnable st (snd (ns ! (Suc i mod length ns)))"
    and mid: "hands_on mid st ns i k"
    and w: "is_llist (sc_nodes st) (sc_queues st 50) ws" "{snd (ns ! i), snd (ns ! k)} \<inter> snd ` set ws = {}" "\<forall>p \<in> snd ` set ws. sc_tasks st p \<noteq> None"
    and node: "node \<noteq> NULL" "node \<notin> dom (sc_nodes st)"
    and sep: "insert node (fst ` set ws) \<inter> insert (snd (ns ! i)) (snd ` set ws) = {}"
  shows "\<exists>s5 t. wait_zombie (sleep_on (\<lambda>s. do { s1 \<leftarrow> mid s; kernel_thread_exit rc s1 }) node WAIT_KERNEL_THREAD) (snd (ns ! k)) st = Some s5
    \<and> runq s5 ns i \<and> state_of s5 (snd (ns ! i)) = TASK_RUNNING \<and> sc_tasks s5 (snd (ns ! k)) = Some t \<and> tk_return_code t = rc
    \<and> is_llist (sc_nodes s5) (sc_queues s5 50) ws"
proof -
  let ?w = "snd (ns ! i)" and ?th = "snd (ns ! k)" and ?j = "Suc i mod length ns" and ?ws = "ws @ [(node, snd (ns ! i))]"
  let ?slp = "sleep_on (\<lambda>s. do { s1 \<leftarrow> mid s; kernel_thread_exit rc s1 }) node WAIT_KERNEL_THREAD"
  have i: "i < length ns" and cur: "sc_cur st = fst (ns ! i)" and d: "distinct (map snd ns)" using q by (auto simp: runq_def)
  note j = next_index [OF i len d]
  have tw: "?th \<noteq> ?w" using next_index(3) [OF k(1) len d] k(2) by simp
  obtain c where c: "sc_tasks st ?w = Some c" "GET_TASK (sc_ring st) (sc_cur st) = Some ?w" using runq_nth [OF q i] cur by auto
  from llist_add_ok [OF w(1) node, of ?w] obtain l1 h1 where
    add: "llist_add (sc_nodes st) (sc_queues st 50) ?w node = Some (1, l1, h1)" "is_llist h1 l1 ?ws" by blast
  define st1 where "st1 = st\<lparr>sc_tasks := (sc_tasks st)(?w \<mapsto> c\<lparr>tk_state := TASK_STOPPED\<rparr>), sc_queues := (sc_queues st)(50 := l1), sc_nodes := h1\<rparr>"
  have q1: "runq st1 ns i" using q by (auto simp: runq_def st1_def)
  have o1: "state_of st1 p = state_of st p" if "p \<noteq> ?w" for p using that by (simp add: state_of_def st1_def)
  have "runnable st1 (snd (ns ! ?j))" using nxt j(3) o1 by (simp add: runnable_def)
  moreover from switch_to_ok [OF q1 j(1)] obtain st2 where s2: "switch_to (fst (ns ! ?j)) st1 = Some st2" "runq st2 ns ?j"
    and o2: "\<And>p. state_of st2 p = (if p = snd (ns ! ?j) then TASK_RUNNING
         else if p = ?w \<and> state_of st1 p = TASK_RUNNING then TASK_READY_TO_RUN else state_of st1 p)" by blast
  ultimately have sch: "schedule st1 = Some st2" using schedule_unfold [OF q1] by (simp add: Let_def)
  from mid s2(2) o1 o2 obtain s3 where s3: "mid st2 = Some s3" "runq s3 ns k" "sc_queues s3 = sc_queues st1" "sc_nodes s3 = sc_nodes st1"
    "dom (sc_tasks s3) = dom (sc_tasks st1)"
    using switch_to_keeps [OF s2(1)] unfolding hands_on_def by (metis (no_types, lifting))
  have "is_llist (sc_nodes s3) (sc_queues s3 50) ?ws" using add(2) s3(3,4) by (simp add: st1_def)
  moreover have "snd ` set ?ws \<subseteq> dom (sc_tasks st1)" using w(3) c(1) by (auto simp: st1_def)
  then have "\<forall>p \<in> snd ` set ?ws. sc_tasks s3 p \<noteq> None" using s3(5) by blast
  moreover have "fst ` set ?ws \<inter> snd ` set ?ws = {}" using sep by auto
  ultimately obtain s4 t where s4: "kernel_thread_exit rc s3 = Some s4" "runq s4 ns i" "state_of s4 ?w = TASK_RUNNING"
    "sc_tasks s4 ?th = Some t" "tk_state t = TASK_ZOMBIE" "tk_return_code t = rc" "sc_queues s4 = sc_queues s3" "sc_nodes s4 = sc_nodes s3"
    using kernel_thread_exit_reaches [OF s3(2) len, of ?ws rc] k(2) w(2) tw by auto
  have "remove_node ?w ?ws = ws" using w(2) by (simp add: remove_node_split)
  then obtain l2 h2 where rm: "llist_remove (sc_nodes s4) (sc_queues s4 50) ?w = Some (1, l2, h2)" "is_llist h2 l2 ws"
    using llist_remove_ok [OF add(2), of ?w] s3(3,4) s4(7,8) by (auto simp: st1_def)
  define s5 where "s5 = s4\<lparr>sc_queues := (sc_queues s4)(50 := l2), sc_nodes := h2\<rparr>"
  have "?slp st = Some s5"
    unfolding sleep_on_def using c add(1) sch s3(1) s4(1) rm(1)
    by (simp add: set_state_def st1_def [symmetric] s5_def)
  moreover have "wait_zombie ?slp ?th s5 = Some s5" using s4(4,5) by (subst wait_zombie.simps) (simp add: s5_def)
  moreover obtain t0 where "sc_tasks st ?th = Some t0" "tk_state t0 \<noteq> TASK_ZOMBIE" using alive runq_nth [OF q k(1)] by (auto simp: state_of_def)
  ultimately have wz: "wait_zombie ?slp ?th st = Some s5" by (subst wait_zombie.simps) simp
  have "runq s5 ns i" "state_of s5 ?w = TASK_RUNNING" using s4(2,3) by (simp_all add: s5_def runq_def state_of_def)
  then show ?thesis using wz s4(4,6) rm(2) by (intro exI [of _ s5] exI [of _ t]) (simp add: s5_def)
qed

text \<open>C24: The end of a thread reaches the thread that waits for it. The current task calls \<open>kernel_thread_wait\<close> for its
  predecessor in the ring, its successor can run, and in the end the predecessor becomes the current task and
  calls \<open>kernel_thread_exit\<close>. Then the wait returns with the return code of the thread: the waiting task is the
  running one again and has left the wait queue, and the ended thread is out of the ring and freed. (The waiting
  task must be the successor of the ending one: \<open>schedule\<close> looks at no other task. The list nodes are no tasks.)\<close>
theorem kernel_thread_exit_wait:
  assumes q: "runq st ns i" and len: "2 \<le> length ns" and k: "k < length ns" "Suc k mod length ns = i"
    and alive: "state_of st (snd (ns ! k)) \<noteq> TASK_ZOMBIE" and nxt: "runnable st (snd (ns ! (Suc i mod length ns)))"
    and mid: "hands_on mid st ns i k"
    and w: "is_llist (sc_nodes st) (sc_queues st 50) ws" "{snd (ns ! i), snd (ns ! k)} \<inter> snd ` set ws = {}" "\<forall>p \<in> snd ` set ws. sc_tasks st p \<noteq> None"
    and node: "node \<noteq> NULL" "node \<notin> dom (sc_nodes st)"
    and sep: "insert node (fst ` set ws) \<inter> insert (snd (ns ! i)) (snd ` set ws) = {}"
  shows "\<exists>st'. kernel_thread_wait (sleep_on (\<lambda>s. do { s1 \<leftarrow> mid s; kernel_thread_exit rc s1 }) node WAIT_KERNEL_THREAD) (snd (ns ! k)) st
      = Some (rc, st')
    \<and> sc_cur st' = fst (ns ! i) \<and> state_of st' (snd (ns ! i)) = TASK_RUNNING \<and> sc_tasks st' (snd (ns ! k)) = None
    \<and> is_cllist (sc_ring st') (sc_head st') (remove_node (snd (ns ! k)) ns) \<and> is_llist (sc_nodes st') (sc_queues st' 50) ws"
proof -
  let ?th = "snd (ns ! k)" and ?slp = "sleep_on (\<lambda>s. do { s1 \<leftarrow> mid s; kernel_thread_exit rc s1 }) node WAIT_KERNEL_THREAD"
  from wait_zombie_sleeps [OF q len k alive nxt mid w node sep] obtain s5 t where
    wz: "wait_zombie ?slp ?th st = Some s5" and s5: "runq s5 ns i" "state_of s5 (snd (ns ! i)) = TASK_RUNNING"
      "sc_tasks s5 ?th = Some t" "tk_return_code t = rc" "is_llist (sc_nodes s5) (sc_queues s5 50) ws" by blast
  have tw: "?th \<noteq> snd (ns ! i)" using next_index(3) [OF k(1) len] k(2) q by (simp add: runq_def)
  have "is_cllist (sc_ring s5) (sc_head s5) ns" using s5(1) by (simp add: runq_def)
  then obtain l h where r: "c_llist_remove (sc_ring s5) (sc_head s5) ?th = Some (1, l, h)" "is_cllist h l (remove_node ?th ns)"
    using c_llist_remove_ok [of "sc_ring s5" "sc_head s5" ns ?th] len k(1) by auto
  have "?th \<noteq> NULL" using runq_nth [OF q k(1)] by auto
  then have "kernel_thread_wait ?slp ?th st = Some (rc, s5\<lparr>sc_head := l, sc_ring := h, sc_tasks := (sc_tasks s5)(?th := None)\<rparr>)"
    unfolding kernel_thread_wait_def using wz s5(3,4) r(1) by simp
  then show ?thesis using r(2) s5(1,2,5) tw by (auto simp: runq_def state_of_def)
qed

theorem kernel_thread_exit_wait_witness:
  "\<exists>st'. kernel_thread_wait (sleep_on (\<lambda>s. do { s1 \<leftarrow> schedule s; kernel_thread_exit 5 s1 }) 600 WAIT_KERNEL_THREAD) (snd (ring3_nodes ! 2))
      (demo_sched TASK_RUNNING TASK_READY_TO_RUN TASK_READY_TO_RUN) = Some (5, st')
    \<and> sc_cur st' = 16 \<and> is_cllist (sc_ring st') (sc_head st') [(16, 101), (32, 102)]"
proof -
  let ?st = "demo_sched TASK_RUNNING TASK_READY_TO_RUN TASK_READY_TO_RUN"
  have "hands_on schedule ?st ring3_nodes 0 2"
    unfolding hands_on_def
  proof (intro allI impI, elim conjE)
    fix s assume q: "runq s ring3_nodes (Suc 0 mod length ring3_nodes)"
      and o: "\<forall>p. p \<noteq> snd (ring3_nodes ! 0) \<and> p \<noteq> snd (ring3_nodes ! (Suc 0 mod length ring3_nodes)) \<longrightarrow> state_of s p = state_of ?st p"
    have q1: "runq s ring3_nodes 1" using q by simp
    have "state_of s 103 = TASK_READY_TO_RUN" using o demo_sched_state by simp
    then have "schedule s = switch_to (fst (ring3_nodes ! 2)) s" using schedule_unfold [OF q1] by (simp add: runnable_def Let_def numeral_2_eq_2)
    moreover obtain s' where s': "switch_to (fst (ring3_nodes ! 2)) s = Some s'" "runq s' ring3_nodes 2" using switch_to_ok [OF q1, of 2] by auto
    ultimately show "\<exists>s'. schedule s = Some s' \<and> runq s' ring3_nodes 2 \<and> sc_queues s' = sc_queues s \<and> sc_nodes s' = sc_nodes s
        \<and> dom (sc_tasks s') = dom (sc_tasks s)" using switch_to_keeps [OF s'(1)] by (intro exI [of _ s']) simp
  qed
  note mid = this
  have k: "2 < length ring3_nodes" "Suc 2 mod length ring3_nodes = 0" "snd (ring3_nodes ! 2) = 103" by simp_all
  have w: "is_llist (sc_nodes ?st) (sc_queues ?st 50) []" "600 \<notin> dom (sc_nodes ?st)" by (simp_all add: is_llist_def demo_sched_def)
  have a: "state_of ?st (snd (ring3_nodes ! 2)) \<noteq> TASK_ZOMBIE" "runnable ?st (snd (ring3_nodes ! (Suc 0 mod length ring3_nodes)))"
    by (simp_all add: k(3) demo_sched_state runnable_def)
  have "\<exists>st'. kernel_thread_wait (sleep_on (\<lambda>s. do { s1 \<leftarrow> schedule s; kernel_thread_exit 5 s1 }) 600 WAIT_KERNEL_THREAD)
      (snd (ring3_nodes ! 2)) ?st = Some (5, st')
    \<and> sc_cur st' = fst (ring3_nodes ! 0) \<and> state_of st' (snd (ring3_nodes ! 0)) = TASK_RUNNING \<and> sc_tasks st' (snd (ring3_nodes ! 2)) = None
    \<and> is_cllist (sc_ring st') (sc_head st') (remove_node (snd (ring3_nodes ! 2)) ring3_nodes) \<and> is_llist (sc_nodes st') (sc_queues st' 50) []"
    by (rule kernel_thread_exit_wait [OF demo_sched_runq _ k(1,2) a mid w(1) _ _ _ w(2)]) simp_all
  then show ?thesis by (elim exE conjE) (rule exI, rule conjI, assumption, simp add: k(3))
qed

end
