(* ===== verification/Timer.thy ===== *)
theory Timer
  imports Sched
begin

text \<open>
  Alarms and the timer interrupt, \<^verbatim>\<open>kernel/timer.c\<close>. The clock is the \<^verbatim>\<open>jiffies\<close> of the scheduler's state,
  because the last thing a tick does is to call \<open>do_schedule\<close>. An alarm handler is code of the client: \<open>run\<close>
  is the effect of calling the handler with its argument.
\<close>

section \<open>Model\<close>

record alarm =
  al_expires :: u32
  al_handler :: ptr
  al_arg :: ptr

record timer =
  tm_sched :: sched
  tm_queue :: ptr
  tm_nodes :: lheap
  tm_alarms :: "ptr \<rightharpoonup> alarm"

abbreviation now :: "timer \<Rightarrow> u32" where "now st \<equiv> sc_jiffies (tm_sched st)"

text \<open>The state that \<open>init_timer\<close> sets up before it requests the interrupt line.\<close>

definition init_timer :: "timer \<Rightarrow> timer" where
  "init_timer st = st\<lparr>tm_sched := (tm_sched st)\<lparr>sc_jiffies := 0\<rparr>, tm_queue := snd llist_create\<rparr>"

text \<open>One alarm of the queue: when it has expired, its node is removed by position and its handler runs.\<close>

definition fire_alarm :: "(ptr \<Rightarrow> ptr \<Rightarrow> timer \<Rightarrow> timer option) \<Rightarrow> alarm \<Rightarrow> nat \<Rightarrow> timer \<Rightarrow> timer option" where
  "fire_alarm run al pos st =
     (if time_after (now st) (al_expires al) then do {
        (r, q, nodes) \<leftarrow> llist_remove_nth (tm_nodes st) (tm_queue st) pos;
        run (al_handler al) (al_arg al) (st\<lparr>tm_queue := q, tm_nodes := nodes\<rparr>)
      } else Some st)"

text \<open>\<^verbatim>\<open>foreach(alarm_queue, tmp)\<close>: the step to the next node reads \<open>tmp->next\<close> after the body.\<close>

partial_function (option) alarm_loop ::
  "(ptr \<Rightarrow> ptr \<Rightarrow> timer \<Rightarrow> timer option) \<Rightarrow> ptr \<Rightarrow> nat \<Rightarrow> timer \<Rightarrow> timer option" where
  "alarm_loop run tmp pos st =
     (if tmp \<noteq> NULL then do {
        n \<leftarrow> tm_nodes st tmp;
        al \<leftarrow> tm_alarms st (ll_element n);
        st1 \<leftarrow> fire_alarm run al pos st;
        n' \<leftarrow> tm_nodes st1 tmp;
        alarm_loop run (ll_next n') (pos + 1) st1
      } else Some st)"

definition timer_handler :: "(ptr \<Rightarrow> ptr \<Rightarrow> timer \<Rightarrow> timer option) \<Rightarrow> timer \<Rightarrow> timer option" where
  "timer_handler run st0 = do {
     let st = st0\<lparr>tm_sched := (tm_sched st0)\<lparr>sc_jiffies := now st0 + 1\<rparr>\<rparr>;
     st1 \<leftarrow> alarm_loop run (tm_queue st) 0 st;
     s \<leftarrow> do_schedule (tm_sched st1);
     Some (st1\<lparr>tm_sched := s\<rparr>)
   }"

text \<open>\<open>nalarm\<close> and \<open>node\<close> are the results of the two allocations; the result of \<^verbatim>\<open>llist_add\<close> is not looked at.\<close>

definition new_alarm :: "ptr \<Rightarrow> ptr \<Rightarrow> u32 \<Rightarrow> ptr \<Rightarrow> ptr \<Rightarrow> timer \<Rightarrow> (int \<times> timer) option" where
  "new_alarm nalarm node expires handler arg st =
     (if expires < now st then Some (0, st)
      else if nalarm = NULL then Some (0, st)
      else do {
        (r, q, nodes) \<leftarrow> llist_add (tm_nodes st) (tm_queue st) nalarm node;
        Some (1, st\<lparr>tm_alarms := (tm_alarms st)(nalarm \<mapsto> \<lparr>al_expires = expires, al_handler = handler, al_arg = arg\<rparr>),
          tm_queue := q, tm_nodes := nodes\<rparr>)
      })"

section \<open>The clock\<close>

text \<open>Comparing times is correct across the wrap-around of the 32-bit tick counter: for two moments less than
  \<open>2^31\<close> ticks after a common one, \<open>time_after\<close> says which one is later, whatever the value of the counter.\<close>
theorem time_after_across_wrap:
  assumes "k < 2 ^ 31" and "d < 2 ^ 31"
  shows "time_after (t + of_nat k) (t + of_nat d) \<longleftrightarrow> d < k"
proof -
  have "t + of_nat d - (t + of_nat k) = (of_int (int d - int k) :: u32)" by simp
  then have "sint (t + of_nat d - (t + of_nat k)) = int d - int k"
    using assms by (simp add: signed_of_int signed_take_bit_int_eq_self del: of_int_diff)
  then show ?thesis by (simp add: time_after_def)
qed

theorem time_after_across_wrap_witness:
  "time_after (0xFFFFFFFE + of_nat 6) (0xFFFFFFFE + of_nat 5) \<and> \<not> time_after (0xFFFFFFFE + of_nat 5) (0xFFFFFFFE + of_nat 6)"
  using time_after_across_wrap [of 6 5 "0xFFFFFFFE"] time_after_across_wrap [of 5 6 "0xFFFFFFFE"] by simp

section \<open>The alarm queue\<close>

text \<open>\<open>alarms st ns\<close>: the queue has the nodes \<open>ns\<close>, and every one holds a live alarm.\<close>

definition alarms :: "timer \<Rightarrow> (ptr \<times> ptr) list \<Rightarrow> bool" where
  "alarms st ns = (is_llist (tm_nodes st) (tm_queue st) ns \<and> (\<forall>p \<in> snd ` set ns. tm_alarms st p \<noteq> None))"

definition due :: "timer \<Rightarrow> ptr \<Rightarrow> bool" where
  "due st p = (case tm_alarms st p of None \<Rightarrow> False | Some al \<Rightarrow> time_after (now st) (al_expires al))"

lemma alarm_loop_idle:
  assumes "lseg (tm_nodes st) tmp ms NULL" and "\<forall>p \<in> snd ` set ms. tm_alarms st p \<noteq> None \<and> \<not> due st p"
  shows "alarm_loop run tmp pos st = Some st"
  using assms
proof (induction ms arbitrary: tmp pos)
  case Nil
  then show ?case by (subst alarm_loop.simps) simp
next
  case (Cons m ms)
  obtain a e where m: "m = (a, e)" by (cases m)
  from Cons.prems(1) m obtain n where n: "tmp = a" "a \<noteq> NULL" "tm_nodes st a = Some n" "ll_element n = e" "lseg (tm_nodes st) (ll_next n) ms NULL"
    by (auto split: option.splits)
  obtain al where al: "tm_alarms st e = Some al" "\<not> time_after (now st) (al_expires al)"
    using Cons.prems(2) m by (auto simp: due_def)
  have "alarm_loop run (ll_next n) (pos + 1) st = Some st" using Cons.prems(2) by (intro Cons.IH n(5)) simp
  then show ?case using n al by (subst alarm_loop.simps) (simp add: fire_alarm_def)
qed

text \<open>A tick at which no alarm is due increments the clock, leaves the queue of alarms as it is and goes on to
  the scheduler; so a tick within the time slice of the current task changes nothing but the clock.\<close>
theorem timer_tick_without_alarm:
  assumes q: "alarms st ns" and t: "st1 = st\<lparr>tm_sched := (tm_sched st)\<lparr>sc_jiffies := now st + 1\<rparr>\<rparr>"
    and "\<forall>p \<in> snd ` set ns. \<not> due st1 p"
  shows "timer_handler run st = map_option (\<lambda>s. st1\<lparr>tm_sched := s\<rparr>) (do_schedule (tm_sched st1))
    \<and> (\<not> time_after (now st1) (sc_cnt (tm_sched st1)) \<longrightarrow> timer_handler run st = Some st1)"
proof -
  have "lseg (tm_nodes st1) (tm_queue st1) ns NULL" using q t by (simp add: alarms_def is_llist_def)
  moreover have "\<forall>p \<in> snd ` set ns. tm_alarms st1 p \<noteq> None \<and> \<not> due st1 p" using assms by (auto simp: alarms_def)
  ultimately have "alarm_loop run (tm_queue st1) 0 st1 = Some st1" by (rule alarm_loop_idle)
  then have "timer_handler run st = map_option (\<lambda>s. st1\<lparr>tm_sched := s\<rparr>) (do_schedule (tm_sched st1))"
    unfolding timer_handler_def t [symmetric] Let_def by (simp add: map_conv_bind_option comp_def)
  then show ?thesis by (simp add: do_schedule_def)
qed

text \<open>A tick at which an alarm is due never finishes its walk over the queue correctly: the node of the first due alarm
  is removed and freed, and after the handler has run the loop reads the link of that freed node. (The model has
  no result for such a read. The statement is for handlers that do not put a new node at that address.)\<close>
theorem timer_tick_reads_freed_node:
  assumes q: "alarms st ns" and t: "st1 = st\<lparr>tm_sched := (tm_sched st)\<lparr>sc_jiffies := now st + 1\<rparr>\<rparr>"
    and d: "\<exists>p \<in> snd ` set ns. due st1 p"
    and run: "\<And>h a s s' x. run h a s = Some s' \<Longrightarrow> tm_nodes s x = None \<Longrightarrow> tm_nodes s' x = None"
  shows "timer_handler run st = None"
proof -
  let ?h = "tm_nodes st1"
  have il: "is_llist ?h (tm_queue st1) ns" using q t by (simp add: alarms_def)
  have al: "\<forall>p \<in> snd ` set ns. tm_alarms st1 p \<noteq> None" using q t by (auto simp: alarms_def)
  have "alarm_loop run tmp (length pre) st1 = None"
    if "ns = pre @ ms" "lseg ?h tmp ms NULL" "\<exists>p \<in> snd ` set ms. due st1 p" for tmp pre ms
    using that
  proof (induction ms arbitrary: tmp pre)
    case Nil
    then show ?case by simp
  next
    case (Cons m ms)
    obtain a e where m: "m = (a, e)" by (cases m)
    from Cons.prems(2) m obtain n where n: "tmp = a" "a \<noteq> NULL" "?h a = Some n" "ll_element n = e" "lseg ?h (ll_next n) ms NULL"
      by (auto split: option.splits)
    obtain A where A: "tm_alarms st1 e = Some A" using al Cons.prems(1) m by auto
    show ?case
    proof (cases "due st1 e")
      case False
      then have "alarm_loop run (ll_next n) (length (pre @ [m])) st1 = None"
        using Cons.prems m n by (intro Cons.IH) auto
      then show ?thesis using n A False by (subst alarm_loop.simps) (simp add: fire_alarm_def due_def)
    next
      case True
      have len: "length pre < length ns" and nth: "ns ! length pre = (a, e)" using Cons.prems(1) m by auto
      from llist_remove_nth_ok [OF il len] obtain l h' where
        r: "llist_remove_nth ?h (tm_queue st1) (length pre) = Some (1, l, h')" "dom h' = dom ?h - {a}" using nth by auto
      have gone: "h' a = None" using r(2) by blast
      show ?thesis
      proof (cases "run (al_handler A) (al_arg A) (st1\<lparr>tm_queue := l, tm_nodes := h'\<rparr>)")
        case None
        then show ?thesis using n A True r(1) by (subst alarm_loop.simps) (simp add: fire_alarm_def due_def)
      next
        case (Some s')
        then have "tm_nodes s' a = None" using gone run by fastforce
        then show ?thesis using n A True r(1) Some by (subst alarm_loop.simps) (simp add: fire_alarm_def due_def)
      qed
    qed
  qed
  from this [of "[]" ns] have "alarm_loop run (tm_queue st1) 0 st1 = None" using il d by (simp add: is_llist_def)
  then show ?thesis unfolding timer_handler_def t [symmetric] Let_def by simp
qed

text \<open>C28: \<open>new_alarm\<close> refuses a time that is numerically before the clock (also one that is due only after the
  counter has wrapped) and reports a failed allocation; otherwise it returns 1. The alarm is then the last of the
  queue, unless there was no memory for the list node: then it is lost although the result is 1.\<close>
theorem new_alarm_result:
  assumes q: "alarms st ns" and fresh: "nalarm \<notin> dom (tm_alarms st)" "node \<notin> dom (tm_nodes st)"
  shows "\<exists>r st'. new_alarm nalarm node expires handler arg st = Some (r, st')
    \<and> (r = 0 \<longleftrightarrow> expires < now st \<or> nalarm = NULL) \<and> (r = 0 \<longrightarrow> st' = st)
    \<and> (r \<noteq> 0 \<longrightarrow> r = 1 \<and> alarms st' (if node = NULL then ns else ns @ [(node, nalarm)]))"
proof (cases "expires < now st \<or> nalarm = NULL")
  case True
  then show ?thesis by (auto simp: new_alarm_def)
next
  case False
  show ?thesis
  proof (cases "node = NULL")
    case True
    then show ?thesis using False q by (auto simp: new_alarm_def llist_add_def alarms_def)
  next
    case node: False
    have "is_llist (tm_nodes st) (tm_queue st) ns" using q by (simp add: alarms_def)
    from llist_add_ok [OF this node fresh(2), of nalarm] obtain l h
      where "llist_add (tm_nodes st) (tm_queue st) nalarm node = Some (1, l, h)" "is_llist h l (ns @ [(node, nalarm)])" by blast
    then show ?thesis using False node q by (auto simp: new_alarm_def alarms_def)
  qed
qed

text \<open>A timer with one alarm, due at tick 5, at 100, in the node 200.\<close>

definition demo_timer :: "u32 \<Rightarrow> timer" where
  "demo_timer t = \<lparr>tm_sched = (demo_sched 1 0 0)\<lparr>sc_jiffies := t, sc_cnt := t + 2\<rparr>, tm_queue = 200,
     tm_nodes = [200 \<mapsto> \<lparr>ll_element = 100, ll_next = NULL\<rparr>],
     tm_alarms = [100 \<mapsto> \<lparr>al_expires = 5, al_handler = 0x4000, al_arg = 0\<rparr>]\<rparr>"

lemma demo_timer_alarms: "alarms (demo_timer t) [(200, 100)]"
  by (simp add: alarms_def demo_timer_def is_llist_def)

theorem timer_tick_without_alarm_witness:
  "\<exists>s. timer_handler (\<lambda>h a. Some) (demo_timer 3) = Some s \<and> now s = 4"
proof -
  let ?st1 = "(demo_timer 3)\<lparr>tm_sched := (tm_sched (demo_timer 3))\<lparr>sc_jiffies := now (demo_timer 3) + 1\<rparr>\<rparr>"
  have d: "\<forall>p \<in> snd ` set [(200, 100)]. \<not> due ?st1 p" by (simp add: due_def demo_timer_def time_after_def)
  have c: "\<not> time_after (now ?st1) (sc_cnt (tm_sched ?st1))" by (simp add: demo_timer_def time_after_def)
  have "timer_handler (\<lambda>h a. Some) (demo_timer 3) = Some ?st1"
    by (rule timer_tick_without_alarm [OF demo_timer_alarms [of 3] refl d, THEN conjunct2, rule_format, OF c])
  then show ?thesis by (simp add: demo_timer_def)
qed

theorem timer_tick_reads_freed_node_witness: "timer_handler (\<lambda>h a. Some) (demo_timer 5) = None"
  by (rule timer_tick_reads_freed_node [OF demo_timer_alarms refl])
    (auto simp: due_def demo_timer_def time_after_def)

theorem new_alarm_result_witness:
  "\<exists>st'. new_alarm 300 400 9 0x4000 0 (demo_timer 3) = Some (1, st') \<and> alarms st' [(200, 100), (400, 300)]"
  using new_alarm_result [OF demo_timer_alarms [of 3], of 300 400 9 "0x4000" 0]
  by (auto simp: demo_timer_def)

end
