(* ===== verification/Descriptors.thy ===== *)
theory Descriptors
  imports Prelude
begin

text \<open>
  The descriptor tables of the processor: segments, \<^verbatim>\<open>arch/x86/gdt.c\<close>, and interrupt gates, \<^verbatim>\<open>arch/x86/idt.c\<close>. The bit
  fields of the packed structures are words of their width; \<open>cd_words\<close> and \<open>gate_words\<close> are the two 32-bit words
  that such a structure occupies, lowest field first. The entry points written in assembly are known by their
  addresses only: \<open>addr\<close> is the address of each.
\<close>

section \<open>Segments\<close>

abbreviation (input) KERNEL_CS :: u16 where "KERNEL_CS \<equiv> 0x08"
abbreviation (input) KERNEL_DS :: u16 where "KERNEL_DS \<equiv> 0x10"
abbreviation (input) KERNEL_DPL :: "2 word" where "KERNEL_DPL \<equiv> 0"
abbreviation (input) USER_DPL :: "2 word" where "USER_DPL \<equiv> 3"
abbreviation (input) CODE_SEG :: "4 word" where "CODE_SEG \<equiv> 0x0A"
abbreviation (input) DATA_SEG :: "4 word" where "DATA_SEG \<equiv> 0x02"

record gdt_cd_seg =
  cd_limit_low :: u16
  cd_base_low :: u16
  cd_base_middle :: byte
  cd_type :: "4 word"
  cd_desc_type :: "1 word"
  cd_DPL :: "2 word"
  cd_present :: "1 word"
  cd_limit_high :: "4 word"
  cd_avaliable :: "1 word"
  cd_reserved :: "1 word"
  cd_DB :: "1 word"
  cd_granularity :: "1 word"
  cd_base_high :: byte

record gdt_tss_seg =
  ts_limit_low :: u16
  ts_base_low :: u16
  ts_base_middle :: byte
  ts_type_res0 :: "1 word"
  ts_busy :: "1 word"
  ts_type_res1 :: "2 word"
  ts_reserved1 :: "1 word"
  ts_DPL :: "2 word"
  ts_present :: "1 word"
  ts_limit_high :: "4 word"
  ts_avaliable :: "1 word"
  ts_reserved2 :: "1 word"
  ts_reserved3 :: "1 word"
  ts_granularity :: "1 word"
  ts_base_high :: byte

record tss =
  tss_ss0 :: u16
  tss_esp0 :: u32
  tss_cs :: u16
  tss_ss :: u16
  tss_ds :: u16
  tss_es :: u16
  tss_fs :: u16
  tss_gs :: u16

text \<open>The macros \<^verbatim>\<open>GDT_SET_BASE\<close> and \<^verbatim>\<open>GDT_SET_LIMIT\<close> as the parts that they store.\<close>

definition base_low :: "u32 \<Rightarrow> u16" where "base_low base = ucast (base AND 0x0000FFFF)"
definition base_middle :: "u32 \<Rightarrow> byte" where "base_middle base = ucast (drop_bit 16 base AND 0x000000FF)"
definition base_high :: "u32 \<Rightarrow> byte" where "base_high base = ucast (drop_bit 24 base AND 0x000000FF)"
definition limit_low :: "u32 \<Rightarrow> u16" where "limit_low limit = ucast (limit AND 0x0000FFFF)"
definition limit_high :: "u32 \<Rightarrow> 4 word" where "limit_high limit = ucast (drop_bit 16 limit AND 0x0000000F)"

text \<open>One code or data segment of \<open>setup_GDT\<close>; the assignments are the same for all of them.\<close>

definition cd_segment :: "u32 \<Rightarrow> u32 \<Rightarrow> 4 word \<Rightarrow> 1 word \<Rightarrow> 2 word \<Rightarrow> 1 word \<Rightarrow> 1 word \<Rightarrow> 1 word \<Rightarrow> gdt_cd_seg" where
  "cd_segment base limit type desc_type DPL present DB granularity =
     \<lparr>cd_limit_low = limit_low limit, cd_base_low = base_low base, cd_base_middle = base_middle base,
      cd_type = type, cd_desc_type = desc_type, cd_DPL = DPL, cd_present = present, cd_limit_high = limit_high limit,
      cd_avaliable = 0, cd_reserved = 0, cd_DB = DB, cd_granularity = granularity, cd_base_high = base_high base\<rparr>"

text \<open>\<open>tss_addr\<close> is the address of \<^verbatim>\<open>task_tss\<close>, which has 104 bytes.\<close>

definition tss_segment :: "u32 \<Rightarrow> gdt_tss_seg" where
  "tss_segment tss_addr =
     \<lparr>ts_limit_low = limit_low (104 - 1), ts_base_low = base_low tss_addr, ts_base_middle = base_middle tss_addr,
      ts_type_res0 = 1, ts_busy = 0, ts_type_res1 = 2, ts_reserved1 = 0, ts_DPL = USER_DPL, ts_present = 1,
      ts_limit_high = limit_high (104 - 1), ts_avaliable = 0, ts_reserved2 = 0, ts_reserved3 = 0, ts_granularity = 1,
      ts_base_high = base_high tss_addr\<rparr>"

definition cd_words :: "gdt_cd_seg \<Rightarrow> u32 \<times> u32" where
  "cd_words d =
     (ucast (cd_limit_low d) OR push_bit 16 (ucast (cd_base_low d)),
      ucast (cd_base_middle d) OR push_bit 8 (ucast (cd_type d)) OR push_bit 12 (ucast (cd_desc_type d))
      OR push_bit 13 (ucast (cd_DPL d)) OR push_bit 15 (ucast (cd_present d)) OR push_bit 16 (ucast (cd_limit_high d))
      OR push_bit 20 (ucast (cd_avaliable d)) OR push_bit 21 (ucast (cd_reserved d)) OR push_bit 22 (ucast (cd_DB d))
      OR push_bit 23 (ucast (cd_granularity d)) OR push_bit 24 (ucast (cd_base_high d)))"

definition tss_words :: "gdt_tss_seg \<Rightarrow> u32 \<times> u32" where
  "tss_words d =
     (ucast (ts_limit_low d) OR push_bit 16 (ucast (ts_base_low d)),
      ucast (ts_base_middle d) OR push_bit 8 (ucast (ts_type_res0 d)) OR push_bit 9 (ucast (ts_busy d))
      OR push_bit 10 (ucast (ts_type_res1 d)) OR push_bit 12 (ucast (ts_reserved1 d))
      OR push_bit 13 (ucast (ts_DPL d)) OR push_bit 15 (ucast (ts_present d)) OR push_bit 16 (ucast (ts_limit_high d))
      OR push_bit 20 (ucast (ts_avaliable d)) OR push_bit 21 (ucast (ts_reserved2 d)) OR push_bit 22 (ucast (ts_reserved3 d))
      OR push_bit 23 (ucast (ts_granularity d)) OR push_bit 24 (ucast (ts_base_high d)))"

text \<open>The table, the task segment (its other fields are zero) and the limit in the register that \<open>load_gdt\<close> loads.\<close>

definition setup_GDT :: "u32 \<Rightarrow> (u32 \<times> u32) list \<times> tss \<times> u16" where
  "setup_GDT tss_addr =
     ([cd_words (cd_segment 0 0 0 0 0 0 0 0),
       cd_words (cd_segment 0 0xFFFFF CODE_SEG 1 KERNEL_DPL 1 1 1),
       cd_words (cd_segment 0 0xFFFFF DATA_SEG 1 KERNEL_DPL 1 1 1),
       cd_words (cd_segment 0 0xFFFFF CODE_SEG 1 USER_DPL 1 1 1),
       cd_words (cd_segment 0 0xFFFFF DATA_SEG 1 USER_DPL 1 1 1),
       tss_words (tss_segment tss_addr)],
      \<lparr>tss_ss0 = KERNEL_DS, tss_esp0 = 0, tss_cs = 0x0B, tss_ss = 0x13, tss_ds = 0x13, tss_es = 0x13, tss_fs = 0x13, tss_gs = 0x13\<rparr>,
      6 * 8 - 1)"

section \<open>Interrupt gates\<close>

datatype isr_symbol = Nullisr | Exception nat | Isr_irq nat | Sys_enter | No_isr

record idt_tpint_desc =
  id_offset_low :: u16
  id_seg_selector :: u16
  id_notused :: "5 word"
  id_reserved3 :: "3 word"
  id_type :: "3 word"
  id_gate_size :: "1 word"
  id_reserved1 :: "1 word"
  id_DPL :: "2 word"
  id_present :: "1 word"
  id_offset_high :: u16

type_synonym idt_table = "nat \<Rightarrow> idt_tpint_desc"

definition IDT_SET_OFFSET :: "u32 \<Rightarrow> idt_tpint_desc \<Rightarrow> idt_tpint_desc" where
  "IDT_SET_OFFSET offset d =
     d\<lparr>id_offset_low := ucast (offset AND 0x0000FFFF), id_offset_high := ucast (drop_bit 16 offset AND 0x0000FFFF)\<rparr>"

text \<open>The body of the initialising loops: an interrupt gate of the kernel.\<close>

definition int_gate :: "u32 \<Rightarrow> 1 word \<Rightarrow> idt_tpint_desc \<Rightarrow> idt_tpint_desc" where
  "int_gate offset present d =
     (IDT_SET_OFFSET offset d)\<lparr>id_seg_selector := KERNEL_CS, id_notused := 0, id_reserved3 := 0, id_type := 6,
       id_gate_size := 1, id_reserved1 := 0, id_DPL := KERNEL_DPL, id_present := present\<rparr>"

fun init_gates :: "u32 \<Rightarrow> 1 word \<Rightarrow> nat \<Rightarrow> nat \<Rightarrow> idt_table \<Rightarrow> idt_table" where
  "init_gates offset present pos 0 t = t"
| "init_gates offset present pos (Suc n) t =
     init_gates offset present (pos + 1) n (t(pos := int_gate offset present (t pos)))"

fun set_offsets :: "(nat \<times> u32) list \<Rightarrow> idt_table \<Rightarrow> idt_table" where
  "set_offsets [] t = t"
| "set_offsets ((pos, offset) # ps) t = set_offsets ps (t(pos := IDT_SET_OFFSET offset (t pos)))"

text \<open>\<open>Exception n\<close> is the handler \<^verbatim>\<open>_ex_\<dots>\<close> that the code names for vector \<open>n\<close>.\<close>

definition exception_vectors :: "nat list" where
  "exception_vectors = [0, 1, 2, 3, 4, 5, 6, 7, 8, 9, 10, 11, 12, 13, 14, 16, 17, 18, 19]"

definition reserved_gate :: "u32 \<Rightarrow> idt_tpint_desc \<Rightarrow> idt_tpint_desc" where
  "reserved_gate offset d =
     (IDT_SET_OFFSET offset d)\<lparr>id_notused := 0, id_reserved3 := 0, id_reserved1 := 0, id_present := 0\<rparr>"

definition syscall_gate :: "u32 \<Rightarrow> idt_tpint_desc \<Rightarrow> idt_tpint_desc" where
  "syscall_gate offset d =
     (IDT_SET_OFFSET offset d)\<lparr>id_seg_selector := KERNEL_CS, id_DPL := USER_DPL, id_type := 6, id_gate_size := 1, id_present := 1\<rparr>"

definition setup_IDT :: "(isr_symbol \<Rightarrow> u32) \<Rightarrow> idt_table \<Rightarrow> idt_table \<times> u16" where
  "setup_IDT addr t0 =
     (let t1 = init_gates (addr Nullisr) 1 0 20 t0;
          t2 = set_offsets (map (\<lambda>v. (v, addr (Exception v))) exception_vectors) t1;
          t3 = t2(15 := reserved_gate 0 (t2 15));
          t4 = init_gates 0 0 20 12 t3;
          t5 = init_gates (addr Nullisr) 1 32 16 t4;
          t6 = set_offsets (map (\<lambda>i. (32 + i, addr (Isr_irq i))) [0..<16]) t5;
          t7 = init_gates (addr Nullisr) 0 48 208 t6;
          t8 = t7(133 := syscall_gate (addr Sys_enter) (t7 133))
      in (t8, 256 * 8 - 1))"

definition gate_words :: "idt_tpint_desc \<Rightarrow> u32 \<times> u32" where
  "gate_words d =
     (ucast (id_offset_low d) OR push_bit 16 (ucast (id_seg_selector d)),
      ucast (id_notused d) OR push_bit 5 (ucast (id_reserved3 d)) OR push_bit 8 (ucast (id_type d))
      OR push_bit 11 (ucast (id_gate_size d)) OR push_bit 12 (ucast (id_reserved1 d)) OR push_bit 13 (ucast (id_DPL d))
      OR push_bit 15 (ucast (id_present d)) OR push_bit 16 (ucast (id_offset_high d)))"

section \<open>What the processor reads\<close>

text \<open>The fields of a segment descriptor and of a gate as the processor defines them on the two words.\<close>

definition seg_base :: "u32 \<times> u32 \<Rightarrow> u32" where
  "seg_base w = drop_bit 16 (fst w) OR push_bit 16 (snd w AND 0xFF) OR (snd w AND 0xFF000000)"

definition seg_limit :: "u32 \<times> u32 \<Rightarrow> u32" where
  "seg_limit w = (fst w AND 0xFFFF) OR (snd w AND 0x000F0000)"

definition seg_last :: "u32 \<times> u32 \<Rightarrow> nat" where
  "seg_last w = (if bit (snd w) 23 then unat (seg_limit w) * 4096 + 4095 else unat (seg_limit w))"

definition desc_type :: "u32 \<times> u32 \<Rightarrow> u32" where
  "desc_type w = drop_bit 8 (snd w) AND 0x1F"

definition desc_dpl :: "u32 \<times> u32 \<Rightarrow> u32" where
  "desc_dpl w = drop_bit 13 (snd w) AND 3"

definition desc_present :: "u32 \<times> u32 \<Rightarrow> bool" where
  "desc_present w = bit (snd w) 15"

definition gate_offset :: "u32 \<times> u32 \<Rightarrow> u32" where
  "gate_offset w = (fst w AND 0xFFFF) OR (snd w AND 0xFFFF0000)"

definition gate_selector :: "u32 \<times> u32 \<Rightarrow> u32" where
  "gate_selector w = drop_bit 16 (fst w)"

lemma u32_masks:
  "0xFFFF = (mask 16 :: u32)" "0xFFFF0000 = (push_bit 16 (mask 16) :: u32)" "0xFF = (mask 8 :: u32)"
  "0xFF000000 = (push_bit 24 (mask 8) :: u32)" "0x000F0000 = (push_bit 16 (mask 4) :: u32)" "0x1F = (mask 5 :: u32)"
  "3 = (mask 2 :: u32)" "0xF = (mask 4 :: u32)"
  by (simp_all add: mask_eq_exp_minus_1)

lemma bit_beyond: "LENGTH('a :: len) \<le> n \<Longrightarrow> \<not> bit (w :: 'a word) n"
  using bit_imp_le_length [of w n] by linarith

lemma gate_words_fields:
  "gate_offset (gate_words d) = ucast (id_offset_low d) OR push_bit 16 (ucast (id_offset_high d))"
  "gate_selector (gate_words d) = ucast (id_seg_selector d)"
  "desc_dpl (gate_words d) = ucast (id_DPL d)"
  "desc_present (gate_words d) = bit (id_present d) 0"
  "desc_type (gate_words d) = ucast (id_type d) OR push_bit 3 (ucast (id_gate_size d)) OR push_bit 4 (ucast (id_reserved1 d))"
proof -
  show "gate_offset (gate_words d) = ucast (id_offset_low d) OR push_bit 16 (ucast (id_offset_high d))"
  proof (rule bit_word_eqI)
    fix n assume n: "n < LENGTH(32)"
    show "bit (gate_offset (gate_words d)) n = bit (ucast (id_offset_low d) OR push_bit 16 (ucast (id_offset_high d)) :: u32) n"
    proof (cases "n < 16")
      case True
      then show ?thesis unfolding gate_offset_def gate_words_def u32_masks by (auto simp: bit_simps)
    next
      case False
      then have "\<not> bit (id_notused d) n" "\<not> bit (id_reserved3 d) (n - 5)" "\<not> bit (id_type d) (n - 8)" "\<not> bit (id_gate_size d) (n - 11)"
        "\<not> bit (id_reserved1 d) (n - 12)" "\<not> bit (id_DPL d) (n - 13)" "\<not> bit (id_present d) (n - 15)" "\<not> bit (id_offset_low d) n"
        by (auto dest!: bit_imp_le_length)
      then show ?thesis using False n unfolding gate_offset_def gate_words_def u32_masks by (auto simp: bit_simps)
    qed
  qed
  show "gate_selector (gate_words d) = ucast (id_seg_selector d)"
    unfolding gate_selector_def gate_words_def by (rule bit_word_eqI) (auto simp: bit_simps dest: bit_imp_le_length)
  show "desc_dpl (gate_words d) = ucast (id_DPL d)"
  proof (rule bit_word_eqI)
    fix n :: nat
    consider "n = 0" | "n = 1" | "2 \<le> n" by linarith
    then show "bit (desc_dpl (gate_words d)) n = bit (ucast (id_DPL d) :: u32) n"
      unfolding desc_dpl_def gate_words_def u32_masks by cases (simp_all add: bit_simps bit_beyond)
  qed
  show "desc_present (gate_words d) = bit (id_present d) 0"
    unfolding desc_present_def gate_words_def by (simp add: bit_simps bit_beyond)
  show "desc_type (gate_words d) = ucast (id_type d) OR push_bit 3 (ucast (id_gate_size d)) OR push_bit 4 (ucast (id_reserved1 d))"
  proof (rule bit_word_eqI)
    fix n :: nat
    consider "n = 0" | "n = 1" | "n = 2" | "n = 3" | "n = 4" | "5 \<le> n" by linarith
    then show "bit (desc_type (gate_words d)) n
      = bit (ucast (id_type d) OR push_bit 3 (ucast (id_gate_size d)) OR push_bit 4 (ucast (id_reserved1 d)) :: u32) n"
      unfolding desc_type_def gate_words_def u32_masks by cases (simp_all add: bit_simps bit_beyond)
  qed
qed

section \<open>The interrupt table\<close>

lemma IDT_SET_OFFSET_join:
  "ucast (id_offset_low (IDT_SET_OFFSET x d)) OR push_bit 16 (ucast (id_offset_high (IDT_SET_OFFSET x d))) = x"
  unfolding IDT_SET_OFFSET_def u32_masks by (rule bit_word_eqI) (auto simp: bit_simps)

lemma init_gates_nth:
  "init_gates offset present pos n t v = (if pos \<le> v \<and> v < pos + n then int_gate offset present (t v) else t v)"
  by (induction n arbitrary: pos t) auto

lemma set_offsets_nth:
  "distinct (map fst ps) \<Longrightarrow> set_offsets ps t v = (case map_of ps v of None \<Rightarrow> t v | Some x \<Rightarrow> IDT_SET_OFFSET x (t v))"
proof (induction ps arbitrary: t)
  case Nil
  then show ?case by simp
next
  case (Cons p ps)
  obtain pos x where p: "p = (pos, x)" by (cases p)
  have "map_of ps pos = None" using Cons.prems p by (auto simp: map_of_eq_None_iff)
  then show ?case using Cons p by (auto split: option.splits)
qed

text \<open>The entry point that belongs to each vector.\<close>

definition isr_address :: "(isr_symbol \<Rightarrow> u32) \<Rightarrow> nat \<Rightarrow> u32" where
  "isr_address addr v =
     (if v = 133 then addr Sys_enter
      else if 32 \<le> v \<and> v < 48 then addr (Isr_irq (v - 32))
      else if v < 20 \<and> v \<noteq> 15 then addr (Exception v)
      else if v < 32 then 0 else addr Nullisr)"

lemma map_of_exceptions:
  "map_of (map (\<lambda>v. (v, f v)) exception_vectors) v = (if v < 20 \<and> v \<noteq> 15 then Some (f v) else None)"
proof -
  have "v \<in> set exception_vectors \<longleftrightarrow> v < 20 \<and> v \<noteq> 15" unfolding exception_vectors_def by (simp; presburger)
  then show ?thesis by (simp add: map_of_map_restrict restrict_map_def)
qed

lemma map_of_irqs:
  "map_of (map (\<lambda>i. (32 + i, f i)) [0..<16]) v = (if 32 \<le> v \<and> v < 48 then Some (f (v - 32)) else None)"
proof -
  have u: "[0..<16] = [0, 1, 2, 3, 4, 5, 6, 7, 8, 9, 10, 11, 12, 13, 14, 15 :: nat]" by (simp add: upt_rec)
  have "map (\<lambda>i. (32 + i, f i)) [0..<16] = map (\<lambda>v. (v, f (v - 32))) [32..<48]"
    unfolding u by simp
  then show ?thesis unfolding map_of_map_restrict by (simp only: map_of_map_restrict restrict_map_def set_upt) simp
qed

lemma setup_IDT_nth:
  assumes "v < 256"
  shows "\<exists>d. fst (setup_IDT addr t) v = IDT_SET_OFFSET (isr_address addr v) d
    \<and> id_seg_selector d = KERNEL_CS \<and> id_type d = 6 \<and> id_gate_size d = 1 \<and> id_reserved1 d = 0
    \<and> id_DPL d = (if v = 133 then USER_DPL else KERNEL_DPL)
    \<and> id_present d = (if v < 20 \<and> v \<noteq> 15 \<or> 32 \<le> v \<and> v < 48 \<or> v = 133 then 1 else 0)"
proof -
  have ex: "distinct (map fst (map (\<lambda>v. (v, addr (Exception v))) exception_vectors))" by (simp add: exception_vectors_def)
  have ir: "distinct (map fst (map (\<lambda>i. (32 + i, addr (Isr_irq i))) [0..<16]))" by (simp add: comp_def distinct_map)
  note nth = setup_IDT_def Let_def init_gates_nth set_offsets_nth [OF ex] set_offsets_nth [OF ir] map_of_exceptions map_of_irqs
    int_gate_def reserved_gate_def syscall_gate_def isr_address_def
  consider "v < 20" "v \<noteq> 15" | "v = 15" | "20 \<le> v" "v < 32" | "32 \<le> v" "v < 48" | "48 \<le> v" "v \<noteq> 133" | "v = 133" by linarith
  then show ?thesis
    by cases (rule exI [of _ "fst (setup_IDT addr t) v"]; use assms in \<open>simp add: nth IDT_SET_OFFSET_def\<close>)+
qed

text \<open>The interrupt table as the processor reads it: each of the 256 vectors holds a 32-bit interrupt gate of the
  kernel's code segment for the entry point that belongs to it. The gates of the exceptions, of the sixteen
  interrupt lines and of the system call are the present ones, and only the last may be used by user programs.\<close>
theorem setup_IDT_gates:
  assumes "v < 256"
  shows "let w = gate_words (fst (setup_IDT addr t) v) in
    gate_offset w = isr_address addr v \<and> gate_selector w = 8 \<and> desc_type w = 0xE
    \<and> desc_dpl w = (if v = 133 then 3 else 0)
    \<and> desc_present w = (v < 20 \<and> v \<noteq> 15 \<or> 32 \<le> v \<and> v < 48 \<or> v = 133)"
proof -
  from setup_IDT_nth [OF assms, of addr t] obtain d where d: "fst (setup_IDT addr t) v = IDT_SET_OFFSET (isr_address addr v) d"
    "id_seg_selector d = KERNEL_CS" "id_type d = 6" "id_gate_size d = 1" "id_reserved1 d = 0"
    "id_DPL d = (if v = 133 then USER_DPL else KERNEL_DPL)"
    "id_present d = (if v < 20 \<and> v \<noteq> 15 \<or> 32 \<le> v \<and> v < 48 \<or> v = 133 then 1 else 0)" by blast
  have f: "id_seg_selector (IDT_SET_OFFSET x d) = id_seg_selector d" "id_type (IDT_SET_OFFSET x d) = id_type d"
    "id_gate_size (IDT_SET_OFFSET x d) = id_gate_size d" "id_reserved1 (IDT_SET_OFFSET x d) = id_reserved1 d"
    "id_DPL (IDT_SET_OFFSET x d) = id_DPL d" "id_present (IDT_SET_OFFSET x d) = id_present d" for x
    by (simp_all add: IDT_SET_OFFSET_def)
  show ?thesis unfolding Let_def d(1) gate_words_fields IDT_SET_OFFSET_join f d(2-) by simp
qed

definition zero_idt :: idt_table where
  "zero_idt v = \<lparr>id_offset_low = 0, id_seg_selector = 0, id_notused = 0, id_reserved3 = 0, id_type = 0, id_gate_size = 0,
     id_reserved1 = 0, id_DPL = 0, id_present = 0, id_offset_high = 0\<rparr>"

theorem setup_IDT_gates_witness:
  "gate_offset (gate_words (fst (setup_IDT (\<lambda>s. if s = Isr_irq 1 then 0xC0101234 else 0) zero_idt) 33)) = 0xC0101234 \<and>
   desc_present (gate_words (fst (setup_IDT (\<lambda>s. if s = Isr_irq 1 then 0xC0101234 else 0) zero_idt) 33))"
  using setup_IDT_gates [of 33 "\<lambda>s. if s = Isr_irq 1 then 0xC0101234 else 0" zero_idt] unfolding Let_def isr_address_def by simp

section \<open>The segment table\<close>

lemma base_join:
  "ucast (base_low b) OR push_bit 16 (ucast (base_middle b)) OR push_bit 24 (ucast (base_high b)) = b"
proof (rule bit_word_eqI)
  fix n assume n: "n < LENGTH(32)"
  consider "n < 16" | "16 \<le> n" "n < 24" | "24 \<le> n" by linarith
  then show "bit (ucast (base_low b) OR push_bit 16 (ucast (base_middle b)) OR push_bit 24 (ucast (base_high b)) :: u32) n = bit b n"
    using n unfolding base_low_def base_middle_def base_high_def u32_masks by cases (auto simp: bit_simps)
qed

lemma seg_base_top: "24 \<le> n \<Longrightarrow> n < LENGTH(32) \<Longrightarrow> bit (seg_base w) n = bit (snd w) n"
  unfolding seg_base_def u32_masks by (auto simp: bit_simps bit_beyond)

lemma tss_words_base:
  "seg_base (tss_words d) = ucast (ts_base_low d) OR push_bit 16 (ucast (ts_base_middle d)) OR push_bit 24 (ucast (ts_base_high d))"
proof (rule bit_word_eqI)
  fix n assume n: "n < LENGTH(32)"
  consider "n < 16" | "16 \<le> n" "n < 24" | "24 \<le> n" by linarith
  then show "bit (seg_base (tss_words d)) n
    = bit (ucast (ts_base_low d) OR push_bit 16 (ucast (ts_base_middle d)) OR push_bit 24 (ucast (ts_base_high d)) :: u32) n"
  proof cases
    case 1
    then show ?thesis unfolding seg_base_def tss_words_def u32_masks by (auto simp: bit_simps bit_beyond)
  next
    case 2
    then have "\<not> bit (ts_base_low d) n" by (simp add: bit_beyond)
    then show ?thesis using 2 unfolding seg_base_def tss_words_def u32_masks by (auto simp: bit_simps bit_beyond)
  next
    case 3
    then have "\<not> bit (ts_base_low d) n" "\<not> bit (ts_base_middle d) n" "\<not> bit (ts_base_middle d) (n - 16)" "\<not> bit (ts_type_res0 d) (n - 8)"
      "\<not> bit (ts_busy d) (n - 9)" "\<not> bit (ts_type_res1 d) (n - 10)" "\<not> bit (ts_reserved1 d) (n - 12)" "\<not> bit (ts_DPL d) (n - 13)"
      "\<not> bit (ts_present d) (n - 15)" "\<not> bit (ts_limit_high d) (n - 16)" "\<not> bit (ts_avaliable d) (n - 20)"
      "\<not> bit (ts_reserved2 d) (n - 21)" "\<not> bit (ts_reserved3 d) (n - 22)" "\<not> bit (ts_granularity d) (n - 23)"
      by (simp_all add: bit_beyond)
    then have "bit (snd (tss_words d)) n = bit (ts_base_high d) (n - 24)" using 3 n
      unfolding tss_words_def by (simp add: bit_simps less_imp_diff_less)
    then show ?thesis using 3 n seg_base_top [OF 3 n, of "tss_words d"] \<open>\<not> bit (ts_base_low d) n\<close> \<open>\<not> bit (ts_base_middle d) (n - 16)\<close>
      by (simp add: bit_simps less_imp_diff_less)
  qed
qed

lemma code_data_words:
  "cd_words (cd_segment 0 0 0 0 0 0 0 0) = (0, 0)"
  "cd_words (cd_segment 0 0xFFFFF CODE_SEG 1 KERNEL_DPL 1 1 1) = (0x0000FFFF, 0x00CF9A00)"
  "cd_words (cd_segment 0 0xFFFFF DATA_SEG 1 KERNEL_DPL 1 1 1) = (0x0000FFFF, 0x00CF9200)"
  "cd_words (cd_segment 0 0xFFFFF CODE_SEG 1 USER_DPL 1 1 1) = (0x0000FFFF, 0x00CFFA00)"
  "cd_words (cd_segment 0 0xFFFFF DATA_SEG 1 USER_DPL 1 1 1) = (0x0000FFFF, 0x00CFF200)"
  by (simp_all add: cd_words_def cd_segment_def limit_low_def limit_high_def base_low_def base_middle_def base_high_def)

lemma tss_words_limit:
  "seg_limit (tss_words d) = ucast (ts_limit_low d) OR push_bit 16 (ucast (ts_limit_high d))"
proof (rule bit_word_eqI)
  fix n assume n: "n < LENGTH(32)"
  consider "n < 16" | "n = 16" | "n = 17" | "n = 18" | "n = 19" | "20 \<le> n" by linarith
  then show "bit (seg_limit (tss_words d)) n = bit (ucast (ts_limit_low d) OR push_bit 16 (ucast (ts_limit_high d)) :: u32) n"
    unfolding seg_limit_def u32_masks
  proof cases
    case 6
    then have "\<not> bit (ts_limit_low d) n" "\<not> bit (ts_limit_high d) (n - 16)" by (simp_all add: bit_beyond)
    then show "bit ((fst (tss_words d) AND mask 16) OR (snd (tss_words d) AND push_bit 16 (mask 4))) n
      = bit (ucast (ts_limit_low d) OR push_bit 16 (ucast (ts_limit_high d)) :: u32) n" using 6 by (auto simp: bit_simps)
  qed (simp_all add: tss_words_def bit_simps bit_beyond)
qed

text \<open>The segment table as the processor reads it: a null descriptor; code and data segments of the kernel and of
  user programs that start at zero, cover the whole 32-bit address space and have the privilege levels zero and
  three; and the task segment at the address of the task structure. The last one ends 4095 bytes and 103 pages
  after its start instead of after the 104 bytes of the structure, because its limit is counted in pages.\<close>
theorem setup_GDT_segments:
  "map seg_base (fst (setup_GDT a)) = [0, 0, 0, 0, 0, a]
   \<and> map seg_last (fst (setup_GDT a)) = [0, 2 ^ 32 - 1, 2 ^ 32 - 1, 2 ^ 32 - 1, 2 ^ 32 - 1, 103 * 4096 + 4095]
   \<and> map desc_dpl (take 5 (fst (setup_GDT a))) = [0, 0, 0, 3, 3]
   \<and> map desc_type (take 5 (fst (setup_GDT a))) = [0, 0x1A, 0x12, 0x1A, 0x12]
   \<and> map desc_present (take 5 (fst (setup_GDT a))) = [False, True, True, True, True]"
proof -
  let ?w = "tss_words (tss_segment a)"
  have "seg_base ?w = a" unfolding tss_words_base using base_join [of a] by (simp add: tss_segment_def)
  moreover have "seg_limit ?w = 103" unfolding tss_words_limit by (simp add: tss_segment_def limit_low_def limit_high_def)
  moreover have "bit (snd ?w) 23" by (simp add: tss_words_def tss_segment_def bit_simps)
  ultimately have "seg_base ?w = a" "seg_last ?w = 103 * 4096 + 4095" by (simp_all add: seg_last_def)
  then show ?thesis unfolding setup_GDT_def code_data_words
    by (simp add: seg_base_def seg_last_def seg_limit_def desc_dpl_def desc_type_def desc_present_def)
qed

end
