(* ===== verification/Printf.thy ===== *)
theory Printf
  imports C_String "HOL-Library.Signed_Division"
begin

text \<open>
  Formatted output, \<^verbatim>\<open>lib/printf.c\<close>. A conversion writes at a pointer that only moves forward, so the text
  written so far is a list and every routine appends to it; what lies behind the pointer (which the
  shifting of \<open>numtostr\<close> overwrites) is not kept. Arguments are a list of words and strings; taking one of the
  wrong kind, or one too many, has no result. \<^verbatim>\<open>long\<close> has 32 bits.
\<close>

section \<open>Numbers\<close>

abbreviation (input) MAXDIG :: nat where "MAXDIG \<equiv> 20"
abbreviation (input) FLAG_ALT :: nat where "FLAG_ALT \<equiv> 0"
abbreviation (input) FLAG_ZPAD :: nat where "FLAG_ZPAD \<equiv> 1"
abbreviation (input) FLAG_FB :: nat where "FLAG_FB \<equiv> 2"
abbreviation (input) FLAG_SPACE :: nat where "FLAG_SPACE \<equiv> 3"
abbreviation (input) FLAG_PLUS :: nat where "FLAG_PLUS \<equiv> 4"

definition CHECK_BIT :: "byte \<Rightarrow> nat \<Rightarrow> bool" where
  "CHECK_BIT a b = (drop_bit b a AND 1 \<noteq> 0)"

definition SET_BIT :: "byte \<Rightarrow> nat \<Rightarrow> byte" where
  "SET_BIT a b = a OR push_bit b 1"

text \<open>A remainder as a character: \<open>rem\<close> is unsigned in the code, so a negative one counts as large.\<close>

definition rem_char :: "int \<Rightarrow> int \<Rightarrow> byte" where
  "rem_char base rem = (if base = 16 \<and> uint (of_int rem :: u32) \<ge> 10 then of_int (rem - 10 + 65) else of_int (rem + 48))"

text \<open>The division loop, lowest digit first; \<^verbatim>\<open>/\<close> and \<^verbatim>\<open>%\<close> truncate towards zero. A base below 2 traps or loops.\<close>

function digit_loop :: "int \<Rightarrow> int \<Rightarrow> byte list option" where
  "digit_loop base dv =
     (if base < 2 then None
      else let quo = dv sdiv base; rem = dv smod base in
        if quo \<noteq> 0 then do { ds \<leftarrow> digit_loop base quo; Some (rem_char base rem # ds) }
        else Some [rem_char base rem])"
  by pat_completeness auto
termination
proof (relation "measure (\<lambda>(base, dv). nat \<bar>dv\<bar>)")
  fix base dv quo rem :: int
  assume b: "\<not> base < 2" and q: "quo = dv sdiv base" and r: "rem = dv smod base" and z: "quo \<noteq> 0"
  have "0 \<le> \<bar>dv\<bar> div base" using b by (simp add: pos_imp_zdiv_nonneg_iff)
  then have "\<bar>quo\<bar> = \<bar>dv\<bar> div base" using b by (cases "dv = 0") (simp_all add: q signed_divide_int_def abs_mult abs_sgn_eq)
  moreover have "dv \<noteq> 0" using z q by auto
  ultimately have "\<bar>quo\<bar> < \<bar>dv\<bar>" using b by (simp add: int_div_less_self)
  then show "((base, quo), (base, dv)) \<in> measure (\<lambda>(base, dv). nat \<bar>dv\<bar>)" by simp
qed simp

declare digit_loop.simps [simp del]

text \<open>The loop that exchanges the two ends, from index \<open>i\<close> on with \<open>n\<close> rounds left.\<close>

fun swap_loop :: "byte list \<Rightarrow> nat \<Rightarrow> nat \<Rightarrow> nat \<Rightarrow> byte list" where
  "swap_loop nd p i 0 = nd"
| "swap_loop nd p i (Suc n) = swap_loop (nd[i := nd ! (p - i), p - i := nd ! i]) p (i + 1) n"

text \<open>Sign character and shift; \<open>value\<close> is signed.\<close>

definition sign_char :: "byte \<Rightarrow> int \<Rightarrow> bool \<Rightarrow> byte" where
  "sign_char flags value sig =
     (if CHECK_BIT flags FLAG_SPACE \<or> CHECK_BIT flags FLAG_PLUS then
        if value \<ge> 0 then if CHECK_BIT flags FLAG_PLUS then 43 else 32
        else if sig then 45 else 0
      else 0)"

definition shift_len :: "byte \<Rightarrow> int \<Rightarrow> nat \<Rightarrow> nat" where
  "shift_len flags prec len =
     (if CHECK_BIT flags FLAG_SPACE \<or> CHECK_BIT flags FLAG_PLUS then 1 else 0)
     + (if prec > 0 \<and> prec - int len > 0 then nat (prec - int len) else 0)"

definition pad_number :: "byte \<Rightarrow> int \<Rightarrow> byte \<Rightarrow> byte list \<Rightarrow> byte list" where
  "pad_number flags prec sch ds =
     (let sh = shift_len flags prec (length ds);
          fch = (if prec > 0 \<and> CHECK_BIT flags FLAG_ZPAD then 48 else 32)
      in if sh > 0 then
           let nd = replicate sh fch @ ds
           in if sch \<noteq> 0 then nd[(if CHECK_BIT flags FLAG_ZPAD then 0 else sh - 1) := sch] else nd
         else ds)"

definition numtostr :: "byte list \<Rightarrow> byte \<Rightarrow> u32 \<Rightarrow> int \<Rightarrow> int \<Rightarrow> bool \<Rightarrow> byte list option" where
  "numtostr out flags value base prec sig = do {
     ds \<leftarrow> digit_loop base (if sig then sint (if sint value < 0 then - value else value) else uint value);
     let pos = length ds - 1;
     Some (out @ pad_number flags prec (sign_char flags (sint value) sig) (swap_loop ds pos 0 (pos div 2 + 1)))
   }"

section \<open>Formats\<close>

datatype arg = AWord u32 | AStr "byte list"

text \<open>The flag characters; the flags are those of all conversions so far.\<close>

fun parse_flags :: "byte list \<Rightarrow> byte \<Rightarrow> byte \<times> byte list" where
  "parse_flags [] flags = (flags, [])"
| "parse_flags (c # cs) flags =
     (if c = 35 then parse_flags cs (SET_BIT flags FLAG_ALT)
      else if c = 48 then parse_flags cs (SET_BIT flags FLAG_ZPAD)
      else if c = 45 then parse_flags cs (SET_BIT flags FLAG_FB)
      else if c = 32 then parse_flags cs (SET_BIT flags FLAG_SPACE)
      else if c = 43 then parse_flags cs (SET_BIT flags FLAG_PLUS)
      else (flags, c # cs))"

definition is_dig :: "byte \<Rightarrow> bool" where
  "is_dig c = (48 \<le> c \<and> c \<le> 57)"

text \<open>Width and precision go into the same buffer, one after the other.\<close>

definition parse_num :: "byte list \<Rightarrow> byte list \<times> byte list" where
  "parse_num cs =
     (let ds = takeWhile is_dig cs; cs1 = dropWhile is_dig cs
      in case cs1 of
           c # cs2 \<Rightarrow> if c = 46 then (ds @ takeWhile is_dig cs2, dropWhile is_dig cs2) else (ds, cs1)
         | [] \<Rightarrow> (ds, cs1))"

definition parse_length :: "byte list \<Rightarrow> byte list" where
  "parse_length cs = (case cs of c # r \<Rightarrow> if c = 108 then r else cs | [] \<Rightarrow> cs)"

text \<open>The buffer \<^verbatim>\<open>num\<close>, at address 1.\<close>

definition num_mem :: "byte list \<Rightarrow> mem" where
  "num_mem ds = (\<lambda>a. if 1 \<le> a \<and> a \<le> length ds then ds ! (a - 1) else 0)"

definition word_arg :: "arg list \<Rightarrow> (u32 \<times> arg list) option" where
  "word_arg args = (case args of AWord w # as \<Rightarrow> Some (w, as) | _ \<Rightarrow> None)"

definition string_arg :: "arg list \<Rightarrow> (byte list \<times> arg list) option" where
  "string_arg args = (case args of AStr s # as \<Rightarrow> Some (s, as) | _ \<Rightarrow> None)"

text \<open>The conversion character \<open>c\<close>: whether it is consumed, the remaining arguments and the output.\<close>

definition convert :: "byte \<Rightarrow> byte \<Rightarrow> byte list \<Rightarrow> arg list \<Rightarrow> byte list \<Rightarrow> (bool \<times> arg list \<times> byte list) option" where
  "convert c flags num args out =
     (if c = 105 \<or> c = 100 then do {
        (w, as) \<leftarrow> word_arg args; prec \<leftarrow> atoi (num_mem num) 1; o' \<leftarrow> numtostr out flags w 10 prec True; Some (True, as, o') }
      else if c = 117 then do {
        (w, as) \<leftarrow> word_arg args; prec \<leftarrow> atoi (num_mem num) 1; o' \<leftarrow> numtostr out flags w 10 prec False; Some (True, as, o') }
      else if c = 111 then do {
        (w, as) \<leftarrow> word_arg args; prec \<leftarrow> atoi (num_mem num) 1; o' \<leftarrow> numtostr out flags w 8 prec True; Some (True, as, o') }
      else if c = 120 then do {
        (w, as) \<leftarrow> word_arg args; prec \<leftarrow> atoi (num_mem num) 1; o' \<leftarrow> numtostr out flags w 16 prec True; Some (True, as, o') }
      else if c = 99 then do { (w, as) \<leftarrow> word_arg args; Some (True, as, out @ [ucast w]) }
      else if c = 115 then do { (s, as) \<leftarrow> string_arg args; Some (True, as, out @ s) }
      else Some (False, args, out))"

lemma length_parse_flags: "length (snd (parse_flags cs flags)) \<le> length cs"
  by (induction cs flags rule: parse_flags.induct) auto

lemma length_parse_num: "length (snd (parse_num cs)) \<le> length cs"
proof -
  have d: "length (dropWhile is_dig xs) \<le> length xs" for xs :: "byte list" by (rule length_dropWhile_le)
  show ?thesis
  proof (cases "dropWhile is_dig cs")
    case Nil
    show ?thesis unfolding parse_num_def Let_def Nil by simp
  next
    case (Cons c r)
    then have "Suc (length r) \<le> length cs" using d [of cs] by simp
    then show ?thesis unfolding parse_num_def Let_def Cons using d [of r] by auto
  qed
qed

lemma length_parse_length: "length (parse_length cs) \<le> length cs"
  by (simp add: parse_length_def split: list.splits)

function vsprintf_loop :: "byte list \<Rightarrow> byte \<Rightarrow> arg list \<Rightarrow> byte list \<Rightarrow> byte list option" where
  "vsprintf_loop [] flags args out = Some out"
| "vsprintf_loop (c # cs) flags args out =
     (if c \<noteq> 37 then vsprintf_loop cs flags args (out @ [c])
      else
        let (flags', cs1) = parse_flags cs flags;
            (num, cs2) = parse_num cs1;
            cs3 = parse_length cs2
        in if length num \<ge> MAXDIG then None
           else case cs3 of
             [] \<Rightarrow> Some out
           | d # ds \<Rightarrow> do {
               (used, args', out') \<leftarrow> convert d flags' num args out;
               if used then vsprintf_loop ds flags' args' out'
               else vsprintf_loop (d # ds) flags' args' out'
             })"
  by pat_completeness auto
termination
proof (relation "measure (\<lambda>(cs, flags, args, out). length cs)", goal_cases)
  case 1
  show ?case by simp
next
  case (2 c cs flags args out)
  then show ?case by simp
next
  case (3 c cs flags args out x flags' cs1 y num cs2 cs3 d ds z used w args' out')
  then have "length (d # ds) \<le> length cs"
    using length_parse_flags [of cs flags] length_parse_num [of cs1] length_parse_length [of cs2]
    by (metis snd_conv order_trans)
  then show ?case by simp
next
  case (4 c cs flags args out x flags' cs1 y num cs2 cs3 d ds z used w args' out')
  then have "length (d # ds) \<le> length cs"
    using length_parse_flags [of cs flags] length_parse_num [of cs1] length_parse_length [of cs2]
    by (metis snd_conv order_trans)
  then show ?case by simp
qed

declare vsprintf_loop.simps(2) [simp del]

text \<open>The string and its length; the format is given up to its terminating zero.\<close>

definition vsprintf :: "byte list \<Rightarrow> arg list \<Rightarrow> (nat \<times> byte list) option" where
  "vsprintf format ap = do { out \<leftarrow> vsprintf_loop format 0 ap []; Some (length out, out) }"

definition sprintf :: "byte list \<Rightarrow> arg list \<Rightarrow> (nat \<times> byte list) option" where
  "sprintf format args = vsprintf format args"

fun serial_text :: "byte list \<Rightarrow> byte list" where
  "serial_text [] = []"
| "serial_text (c # cs) = (if c = 10 then 13 # 10 # serial_text cs else c # serial_text cs)"

abbreviation (input) MAX_KPRINTF_SIZE :: nat where "MAX_KPRINTF_SIZE \<equiv> 1024"

text \<open>What \<open>kprintf\<close> returns and what it sends: to the serial line (\<open>Inl\<close>) or to \<^verbatim>\<open>kprint\<close> (\<open>Inr\<close>). A level prefix such as
  \<^verbatim>\<open>!3!\<close> is skipped; text that does not fit the local buffer has no result.\<close>

definition kprintf :: "bool \<Rightarrow> byte list \<Rightarrow> arg list \<Rightarrow> (nat \<times> (byte list + byte list)) option" where
  "kprintf console_over_serial format args =
     (let offset = (if format \<noteq> [] \<and> hd format = 33 then 3 else 0)
      in if length format < offset then None
      else do {
        (res, str) \<leftarrow> vsprintf (drop offset format) args;
        if res < MAX_KPRINTF_SIZE
        then let text = takeWhile (\<lambda>c. c \<noteq> 0) str
             in Some (res, if console_over_serial then Inl (serial_text text) else Inr text)
        else None
      })"

section \<open>Numbers as text\<close>

lemma length_swap_loop [simp]: "length (swap_loop nd p i n) = length nd"
  by (induction nd p i n rule: swap_loop.induct) simp_all

lemma swap_loop_nth:
  assumes "p < length nd" and "i + n \<le> p div 2 + 1" and "j \<le> p"
  shows "swap_loop nd p i n ! j =
    (if i \<le> j \<and> j < i + n \<or> i \<le> p - j \<and> p - j < i + n then nd ! (p - j) else nd ! j)"
  using assms
proof (induction n arbitrary: nd i)
  case 0
  then show ?case by auto
next
  case (Suc n)
  let ?nd = "nd[i := nd ! (p - i), p - i := nd ! i]"
  have i: "2 * i \<le> p" using Suc.prems(2) by linarith
  have nd: "?nd ! k = (if k = i then nd ! (p - i) else if k = p - i then nd ! i else nd ! k)" if "k \<le> p" for k
    using that Suc.prems(1) i by (auto simp: nth_list_update)
  have "swap_loop ?nd p (i + 1) n ! j =
    (if i + 1 \<le> j \<and> j < i + 1 + n \<or> i + 1 \<le> p - j \<and> p - j < i + 1 + n then ?nd ! (p - j) else ?nd ! j)"
    using Suc.prems by (intro Suc.IH) simp_all
  also have "\<dots> = (if i \<le> j \<and> j < i + Suc n \<or> i \<le> p - j \<and> p - j < i + Suc n then nd ! (p - j) else nd ! j)"
    unfolding nd [OF Suc.prems(3)] nd [OF diff_le_self [of p j]] using i Suc.prems by auto
  finally show ?case by simp
qed

lemma swap_loop_rev:
  assumes "nd \<noteq> []"
  shows "swap_loop nd (length nd - 1) 0 ((length nd - 1) div 2 + 1) = rev nd"
proof (rule nth_equalityI)
  fix j
  let ?p = "length nd - 1"
  assume "j < length (swap_loop nd ?p 0 (?p div 2 + 1))"
  then have j: "j \<le> ?p" "j < length nd" by auto
  have p: "?p < length nd" using assms by (cases nd) auto
  have "swap_loop nd ?p 0 (?p div 2 + 1) ! j = nd ! (?p - j)"
  proof -
    have "j < ?p div 2 + 1 \<or> ?p - j < ?p div 2 + 1" by linarith
    then show ?thesis using swap_loop_nth [OF p, of 0 "?p div 2 + 1" j] j by auto
  qed
  then show "swap_loop nd ?p 0 (?p div 2 + 1) ! j = rev nd ! j" using j by (simp add: rev_nth)
qed simp

lemma digit_loop_nonneg:
  assumes "0 \<le> dv" and "2 \<le> base"
  shows "digit_loop base dv = (if dv div base \<noteq> 0
    then do { ds \<leftarrow> digit_loop base (dv div base); Some (rem_char base (dv mod base) # ds) }
    else Some [rem_char base (dv mod base)])"
proof -
  have "dv sdiv base = dv div base" "dv smod base = dv mod base"
    using assms by (cases "dv = 0"; simp add: signed_divide_int_def signed_modulo_int_def minus_mult_div_eq_mod mult.commute)+
  then show ?thesis using assms(2) by (subst digit_loop.simps) (simp add: Let_def)
qed

lemma rem_char_10: "0 \<le> r \<Longrightarrow> r < 10 \<Longrightarrow> digit_char (rem_char 10 r) \<and> unat (rem_char 10 r) = nat r + 48"
proof -
  assume "0 \<le> r" "r < 10"
  moreover have "rem_char 10 r = of_nat (nat r + 48)" using \<open>0 \<le> r\<close> by (simp add: rem_char_def)
  ultimately show ?thesis by (simp add: digit_char_def unat_of_nat_small_byte del: of_nat_add)
qed

text \<open>The digits of a number: they denote it, and the first one is zero only for zero itself.\<close>

lemma digit_loop_decimal:
  "\<exists>ds. digit_loop 10 (int n) = Some ds \<and> ds \<noteq> [] \<and> (\<forall>c \<in> set ds. digit_char c) \<and> decimal (rev ds) = n
    \<and> (last ds = 48 \<longrightarrow> n = 0) \<and> (\<forall>k > 0. n < 10 ^ k \<longrightarrow> length ds \<le> k)"
proof (induction n rule: less_induct)
  case (less n)
  have r: "digit_char (rem_char 10 (int n mod 10))" "unat (rem_char 10 (int n mod 10)) = n mod 10 + 48"
    using rem_char_10 [of "int n mod 10"] by (simp_all add: nat_mod_distrib)
  show ?case
  proof (cases "n < 10")
    case True
    have "digit_loop 10 (int n) = Some [rem_char 10 (int n)]" using True by (subst digit_loop_nonneg) simp_all
    moreover have "rem_char 10 (int n) = 48 \<Longrightarrow> n = 0" using r(2) True by simp
    ultimately show ?thesis using r True by (simp add: decimal_def)
  next
    case False
    then have "n div 10 < n" "n div 10 \<noteq> 0" by auto
    from less [OF this(1)] obtain ds where ds: "digit_loop 10 (int (n div 10)) = Some ds" "ds \<noteq> []" "\<forall>c \<in> set ds. digit_char c"
      "decimal (rev ds) = n div 10" "last ds = 48 \<longrightarrow> n div 10 = 0"
      and len: "\<And>k. 0 < k \<Longrightarrow> n div 10 < 10 ^ k \<Longrightarrow> length ds \<le> k" by blast
    have "digit_loop 10 (int n) = Some (rem_char 10 (int n mod 10) # ds)"
    proof -
      have "int n div 10 \<noteq> 0" using \<open>n div 10 \<noteq> 0\<close> by (metis of_nat_eq_0_iff of_nat_numeral zdiv_int)
      then show ?thesis using ds(1) by (subst digit_loop_nonneg) (simp_all add: zdiv_int)
    qed
    moreover have "decimal (rev (rem_char 10 (int n mod 10) # ds)) = n" using ds(4) r(2) by simp
    moreover have "length (rem_char 10 (int n mod 10) # ds) \<le> k" if k: "0 < k" "n < 10 ^ k" for k
    proof -
      obtain j where j: "k = Suc j" using k(1) by (cases k) auto
      then have "n div 10 < 10 ^ j" "0 < j" using k(2) False by (auto simp: less_mult_imp_div_less mult.commute intro: gr0I)
      then show ?thesis using len [of j] j by simp
    qed
    ultimately show ?thesis using ds r(1) \<open>n div 10 \<noteq> 0\<close> by auto
  qed
qed

lemma pad_number_plain: "pad_number 0 0 sch ds = ds"
  by (simp add: pad_number_def shift_len_def CHECK_BIT_def)

lemma numtostr_plain:
  assumes "sig \<Longrightarrow> value \<noteq> 0x80000000"
  shows "\<exists>s. numtostr out 0 value 10 0 sig = Some (out @ s) \<and> (\<forall>c \<in> set s. digit_char c) \<and> s \<noteq> []
    \<and> int (decimal s) = (if sig then \<bar>sint value\<bar> else uint value) \<and> (hd s = 48 \<longrightarrow> decimal s = 0) \<and> length s \<le> 10"
proof -
  define v where "v = (if sig then \<bar>sint value\<bar> else uint value)"
  have nz: "0 \<le> v" by (simp add: v_def)
  have v: "(if sig then sint (if sint value < 0 then - value else value) else uint value) = v"
  proof (cases "sig \<and> sint value < 0")
    case True
    have "sint value \<noteq> - 2147483648"
    proof
      assume "sint value = - 2147483648"
      then have "value = 0x80000000" by (intro signed_word_eqI) simp
      then show False using assms True by blast
    qed
    moreover have "- 2147483648 \<le> sint value" using sint_greater_eq [of "value"] by simp
    ultimately have "sint (of_int (- sint value) :: u32) = - sint value" using True by (intro sint_of_int_u32) linarith+
    then show ?thesis using True by (simp add: v_def)
  qed (auto simp: v_def)
  obtain ds where ds: "digit_loop 10 v = Some ds" "ds \<noteq> []" "\<forall>c \<in> set ds. digit_char c" "decimal (rev ds) = nat v"
    "last ds = 48 \<longrightarrow> nat v = 0" and len: "nat v < 10 ^ 10 \<longrightarrow> length ds \<le> 10"
    using digit_loop_decimal [of "nat v"] nz by auto
  have "v \<le> 4294967296"
    using uint_lt2p [of "value"] sint_greater_eq [of "value"] sint_less [of "value"] by (auto simp: v_def)
  then have "length ds \<le> 10" using len by simp
  have "numtostr out 0 value 10 0 sig = Some (out @ rev ds)"
    unfolding numtostr_def v using ds(1) swap_loop_rev [OF ds(2)] by (simp add: pad_number_plain Let_def)
  moreover have "int (decimal (rev ds)) = v" using ds(4) nz by simp
  ultimately show ?thesis using ds \<open>length ds \<le> 10\<close> by (auto simp: v_def [symmetric] hd_rev)
qed

section \<open>Formatted text\<close>

lemma vsprintf_literal:
  "37 \<notin> set lit \<Longrightarrow> vsprintf_loop (lit @ fmt) flags args out = vsprintf_loop fmt flags args (out @ lit)"
proof (induction lit arbitrary: out)
  case Nil
  then show ?case by simp
next
  case (Cons c lit)
  then have "vsprintf_loop ((c # lit) @ fmt) flags args out = vsprintf_loop (lit @ fmt) flags args (out @ [c])"
    by (subst append_Cons, subst vsprintf_loop.simps) auto
  then show ?case using Cons by simp
qed

lemma atoi_num_mem:
  assumes "\<forall>c \<in> set ds. digit_char c"
  shows "atoi (num_mem ds) 1 = Some (sint (of_nat (decimal ds) :: u32))"
proof -
  have "cstr (num_mem ds) 1 ds"
    using assms by (force simp: cstr_iff num_mem_def digit_char_def in_set_conv_nth)
  then show ?thesis using atoi_digits assms by blast
qed

lemma vsprintf_loop_conversion:
  assumes "c \<in> {100, 105, 117}"
  shows "vsprintf_loop (37 # c # fmt) 0 (AWord w # args) out
    = do { o' \<leftarrow> numtostr out 0 w 10 0 (c \<noteq> 117); vsprintf_loop fmt 0 args o' }"
proof -
  have z: "atoi (num_mem []) 1 = Some 0" using atoi_num_mem [of "[]"] by simp
  have p: "parse_flags (c # fmt) 0 = (0, c # fmt)" "parse_num (c # fmt) = ([], c # fmt)" "parse_length (c # fmt) = c # fmt"
    using assms by (auto simp: parse_num_def is_dig_def parse_length_def)
  show ?thesis using assms p z
    by (subst vsprintf_loop.simps) (auto simp: convert_def word_arg_def)
qed

lemma vsprintf_loop_string:
  "vsprintf_loop (37 # 115 # fmt) flags (AStr s # args) out = vsprintf_loop fmt flags args (out @ s)"
proof -
  have p: "parse_flags (115 # fmt) flags = (flags, 115 # fmt)" "parse_num (115 # fmt) = ([], 115 # fmt)" "parse_length (115 # fmt) = 115 # fmt"
    by (auto simp: parse_num_def is_dig_def parse_length_def)
  then show ?thesis by (subst vsprintf_loop.simps) (simp add: convert_def string_arg_def)
qed

text \<open>C25: Printing a number and reading it back: on every number except the smallest one, \<open>sprintf\<close> with the format
  \<^verbatim>\<open>%d\<close> yields a decimal numeral without leading zeros, and \<open>atoi\<close> of that text (wherever it is stored) is
  the absolute value of the number. The number itself comes back when it is not negative; the minus sign of a
  negative number is not printed.\<close>
theorem sprintf_atoi_roundtrip:
  assumes "w \<noteq> 0x80000000"
  shows "\<exists>s. sprintf [37, 100] [AWord w] = Some (length s, s) \<and> (\<forall>c \<in> set s. digit_char c)
    \<and> (hd s = 48 \<longrightarrow> w = 0) \<and> (\<forall>m p. cstr m p s \<longrightarrow> atoi m p = Some \<bar>sint w\<bar>)"
proof -
  obtain s where s: "numtostr [] 0 w 10 0 True = Some s" "\<forall>c \<in> set s. digit_char c"
    "int (decimal s) = \<bar>sint w\<bar>" "hd s = 48 \<longrightarrow> decimal s = 0"
    using numtostr_plain [of True w "[]"] assms by auto
  have "sprintf [37, 100] [AWord w] = Some (length s, s)"
    using vsprintf_loop_conversion [of 100 "[]" w "[]" "[]"] s(1) by (simp add: sprintf_def vsprintf_def)
  moreover have "hd s = 48 \<longrightarrow> w = 0" using s(3,4) signed_word_eqI [of w 0] by auto
  moreover have "atoi m p = Some \<bar>sint w\<bar>" if "cstr m p s" for m p
  proof -
    have "- 2147483648 \<le> sint w" "sint w < 2147483648" using sint_greater_eq [of w] sint_less [of w] by simp_all
    moreover have "sint w \<noteq> - 2147483648"
    proof
      assume "sint w = - 2147483648"
      then have "w = 0x80000000" by (intro signed_word_eqI) simp
      then show False using assms by blast
    qed
    ultimately have "\<bar>sint w\<bar> < 2147483648" by linarith
    then have "decimal s < 2147483648" using s(3) by linarith
    then show ?thesis using atoi_digits [OF that s(2)] s(3) by (simp add: sint_of_nat_u32)
  qed
  ultimately show ?thesis using s(2) by blast
qed

theorem sprintf_atoi_roundtrip_witness:
  "\<exists>s. sprintf [37, 100] [AWord (- 42)] = Some (length s, s) \<and> (\<forall>m p. cstr m p s \<longrightarrow> atoi m p = Some 42)"
  using sprintf_atoi_roundtrip [of "- 42"] by auto

text \<open>Text around a conversion is copied unchanged: a format of ordinary text, \<^verbatim>\<open>%u\<close> and more ordinary text prints the
  text before, the decimal numeral of the word read as unsigned, and the text after; \<open>kprintf\<close> without a serial
  console hands exactly that to the screen and returns its length, for text of less than 1000 characters.\<close>
theorem kprintf_unsigned_in_text:
  assumes "37 \<notin> set pre" "37 \<notin> set post" and "0 \<notin> set pre" "0 \<notin> set post"
    and "pre \<noteq> []" "hd pre \<noteq> 33" and "length pre + length post < 1000"
  shows "\<exists>s. (\<forall>c \<in> set s. digit_char c) \<and> decimal s = unat w \<and>
    kprintf False (pre @ [37, 117] @ post) [AWord w] = Some (length pre + length s + length post, Inr (pre @ s @ post))"
proof -
  obtain s where s: "numtostr pre 0 w 10 0 False = Some (pre @ s)" "\<forall>c \<in> set s. digit_char c" "int (decimal s) = uint w"
      "length s \<le> 10"
    using numtostr_plain [of False w pre] by auto
  have "vsprintf_loop (pre @ [37, 117] @ post) 0 [AWord w] [] = vsprintf_loop (37 # 117 # post) 0 [AWord w] pre"
    using vsprintf_literal [OF assms(1), of "[37, 117] @ post" 0 "[AWord w]" "[]"] by simp
  also have "\<dots> = vsprintf_loop post 0 [] (pre @ s)"
    using vsprintf_loop_conversion [of 117 post w "[]" pre] s(1) by simp
  also have "\<dots> = Some (pre @ s @ post)" using vsprintf_literal [OF assms(2), of "[]" 0 "[]" "pre @ s"] by simp
  finally have v: "vsprintf (pre @ [37, 117] @ post) [AWord w] = Some (length (pre @ s @ post), pre @ s @ post)"
    by (simp add: vsprintf_def)
  have "0 \<notin> set s" using s(2) by (auto simp: digit_char_def)
  then have "takeWhile (\<lambda>c. c \<noteq> 0) (pre @ s @ post) = pre @ s @ post"
    using assms(3,4) by (intro takeWhile_eq_all_conv [THEN iffD2]) auto
  moreover have "decimal s = unat w" using s(3) by (metis nat_int uint_nat unat_eq_nat_uint)
  ultimately show ?thesis using s(2,4) v assms(5-7) by (auto simp: kprintf_def)
qed

theorem kprintf_unsigned_in_text_witness:
  "\<exists>s. decimal s = 4294967295 \<and> kprintf False ([97] @ [37, 117] @ [10]) [AWord (- 1)] = Some (2 + length s, Inr ([97] @ s @ [10]))"
  using kprintf_unsigned_in_text [of "[97]" "[10]" "- 1"]
  by (auto simp: unsigned_minus_1_eq_mask mask_eq_exp_minus_1)

declare atoi_check.simps [code] atoi_sum.simps [code]

text \<open>A flag stays set for the conversions after its own.\<close>

lemma flags_persist: "sprintf [37, 43, 117, 37, 117] [AWord 1, AWord 2] = Some (4, [43, 49, 43, 50])"
  by code_simp

end
