(* ===== verification/Cmdline.thy ===== *)
theory Cmdline
  imports Printf
begin

text \<open>
  The kernel command line, \<^verbatim>\<open>kernel/cmdline.c\<close>, and the use that \<^verbatim>\<open>kernel_main_thread\<close> of \<^verbatim>\<open>kernel/kernel.c\<close> makes of it to
  find the root device. The array \<^verbatim>\<open>cmdline_str\<close> is a list of 1024 bytes and a pointer into it an index;
  a key or value that is \<open>NULL\<close> is \<open>None\<close>. Reading or writing outside an array has no result.
\<close>

section \<open>Model\<close>

abbreviation (input) CMDLINE_MAX_ARGS :: nat where "CMDLINE_MAX_ARGS \<equiv> 50"
abbreviation (input) CMDLINE_MAX :: nat where "CMDLINE_MAX \<equiv> 1024"

record cmdline_arg =
  ca_key :: "nat option"
  ca_value :: "nat option"

record cmdline_state =
  cl_args :: "cmdline_arg list"
  cl_str :: "byte list"
  cl_argc :: nat

text \<open>The string at an index, and the loop \<^verbatim>\<open>while(cond(s[i])) i++\<close>.\<close>

definition str_at :: "byte list \<Rightarrow> nat \<Rightarrow> byte list" where
  "str_at a i = takeWhile (\<lambda>c. c \<noteq> 0) (drop i a)"

definition scan_while :: "(byte \<Rightarrow> bool) \<Rightarrow> byte list \<Rightarrow> nat \<Rightarrow> nat option" where
  "scan_while cond a i = (let j = i + length (takeWhile cond (drop i a)) in if j < length a then Some j else None)"

definition set_arg :: "(cmdline_arg \<Rightarrow> cmdline_arg) \<Rightarrow> nat \<Rightarrow> cmdline_arg list \<Rightarrow> cmdline_arg list option" where
  "set_arg f p args = (if p < length args then Some (args[p := f (args ! p)]) else None)"

lemma scan_while_bounds: "scan_while cond a i = Some j \<Longrightarrow> i \<le> j \<and> j < length a"
  by (auto simp: scan_while_def Let_def split: if_splits)

function cmdline_loop ::
  "nat \<Rightarrow> byte list \<Rightarrow> cmdline_arg list \<Rightarrow> nat \<Rightarrow> nat \<Rightarrow> nat \<Rightarrow> nat \<Rightarrow> (byte list \<times> cmdline_arg list \<times> nat) option" where
  "cmdline_loop len a args p i key value =
     (if i < len then
        if length a \<le> i then None
        else if a ! i = 61 then
          case set_arg (\<lambda>x. x\<lparr>ca_key := Some key\<rparr>) p args of None \<Rightarrow> None
          | Some args1 \<Rightarrow>
             case scan_while (\<lambda>c. c \<noteq> 32 \<and> c \<noteq> 0) (a[i := 0]) (i + 1) of None \<Rightarrow> None
             | Some j \<Rightarrow>
                case set_arg (\<lambda>x. x\<lparr>ca_value := Some (i + 1)\<rparr>) p args1 of None \<Rightarrow> None
                | Some args2 \<Rightarrow> cmdline_loop len (a[i := 0, j := 0]) args2 p j key (i + 1)
        else if a ! i = 32 \<or> a ! i = 0 then
          case scan_while (\<lambda>c. c = 32) (a[i := 0]) (i + 1) of None \<Rightarrow> None
          | Some j \<Rightarrow>
             case set_arg (\<lambda>x. x\<lparr>ca_value := Some value\<rparr>) p args of None \<Rightarrow> None
             | Some args1 \<Rightarrow> cmdline_loop len (a[i := 0]) args1 (p + 1) (j + 1) j value
        else cmdline_loop len a args p (i + 1) key value
      else Some (a, args, p))"
  by pat_completeness auto
termination
proof (relation "measure (\<lambda>(len, a, args, p, i, key, value). len - i)", goal_cases)
  case 1
  show ?case by simp
next
  case (2 len a args p i key val args1 j args2)
  then show ?case using scan_while_bounds [OF 2(5)] by (simp; linarith)
next
  case (3 len a args p i key val j args1)
  then show ?case using scan_while_bounds [OF 3(5)] by (simp; linarith)
next
  case (4 len a args p i key val)
  then show ?case by simp
qed

declare cmdline_loop.simps [simp del]

definition parse_cmdline :: "byte list \<Rightarrow> cmdline_state \<Rightarrow> (nat \<times> cmdline_state) option" where
  "parse_cmdline cmdline st =
     (if length cmdline > length (cl_str st) then None
      else let a = cmdline @ drop (length cmdline) (cl_str st) in
        if 0 \<notin> set a then None
        else do {
          i \<leftarrow> scan_while (\<lambda>c. c = 32) a 0;
          (a', args, p) \<leftarrow> cmdline_loop (length (str_at a 0)) a (cl_args st) 0 i i i;
          Some (p, \<lparr>cl_args = args, cl_str = a', cl_argc = p\<rparr>)
        })"

text \<open>\<open>n\<close> entries from \<open>i\<close> on are left to look at.\<close>

fun find_value :: "cmdline_state \<Rightarrow> byte list \<Rightarrow> nat \<Rightarrow> nat \<Rightarrow> nat option option" where
  "find_value st key i 0 = Some None"
| "find_value st key i (Suc n) =
     (if i < length (cl_args st) then
        case ca_key (cl_args st ! i) of
          Some k \<Rightarrow> if str_at (cl_str st) k = key then Some (ca_value (cl_args st ! i)) else find_value st key (i + 1) n
        | None \<Rightarrow> find_value st key (i + 1) n
      else None)"

definition cmdline_get_value :: "byte list \<Rightarrow> cmdline_state \<Rightarrow> nat option option" where
  "cmdline_get_value key st = find_value st key 0 (cl_argc st + 1)"

section \<open>The root device\<close>

text \<open>The part of \<open>kernel_main_thread\<close> that reads the argument \<^verbatim>\<open>root\<close>. The local array has ten bytes; \<open>old\<close> is what it
  holds before. The outcome is a device, or a panic.\<close>

datatype 'a boot = Ok 'a | Panic

definition list_mem :: "byte list \<Rightarrow> mem" where
  "list_mem a = (\<lambda>p. if 1 \<le> p \<and> p \<le> length a then a ! (p - 1) else 0)"

text \<open>The loop over the characters: \<open>n\<close> of them are left.\<close>

fun find_colon :: "byte list \<Rightarrow> nat \<Rightarrow> nat \<Rightarrow> nat option" where
  "find_colon a i 0 = None"
| "find_colon a i (Suc n) = (if a ! i = 58 then Some i else find_colon a (i + 1) n)"

definition parse_root :: "byte list \<Rightarrow> byte list \<Rightarrow> (int \<times> int) boot option" where
  "parse_root old rstr =
     (if length rstr < length old then
        let a = rstr @ [0] @ drop (length rstr + 1) old in
        case find_colon a 0 (length rstr) of
          None \<Rightarrow> Some Panic
        | Some i \<Rightarrow> do {
            let b = a[i := 0];
            major \<leftarrow> atoi (list_mem b) 1;
            minor \<leftarrow> atoi (list_mem b) (i + 2);
            Some (Ok (major, minor))
          }
      else None)"

text \<open>Without the argument a null pointer is passed to \<^verbatim>\<open>strcpy\<close>.\<close>

definition root_device :: "byte list \<Rightarrow> cmdline_state \<Rightarrow> (int \<times> int) boot option" where
  "root_device old st = do {
     v \<leftarrow> cmdline_get_value [114, 111, 111, 116] st;
     p \<leftarrow> v;
     parse_root old (str_at (cl_str st) p)
   }"

section \<open>Parsing\<close>

text \<open>A command line of arguments with values, separated by blanks.\<close>

definition word_ok :: "byte list \<Rightarrow> bool" where
  "word_ok s \<longleftrightarrow> set s \<inter> {0, 32} = {}"

definition arg_ok :: "byte list \<times> byte list \<Rightarrow> bool" where
  "arg_ok kv \<longleftrightarrow> fst kv \<noteq> [] \<and> word_ok (fst kv) \<and> 61 \<notin> set (fst kv) \<and> word_ok (snd kv)"

definition arg_text :: "byte list \<times> byte list \<Rightarrow> byte list" where
  "arg_text kv = fst kv @ [61] @ snd kv"

fun line_of :: "(byte list \<times> byte list) list \<Rightarrow> byte list" where
  "line_of [] = []"
| "line_of [kv] = arg_text kv"
| "line_of (kv # kvs) = arg_text kv @ [32] @ line_of kvs"

lemma scan_while_app:
  assumes "length P = i" and "\<forall>c \<in> set xs. cond c" and "\<not> cond y"
  shows "scan_while cond (P @ xs @ y # R) i = Some (i + length xs)"
proof -
  have "takeWhile cond (xs @ y # R) = xs" using assms(2,3) by (subst takeWhile_append2) auto
  then show ?thesis using assms(1) by (simp add: scan_while_def Let_def)
qed

lemma loop_skip:
  assumes "length P = i" and "set xs \<inter> {0, 32, 61} = {}" and "i + length xs \<le> len"
  shows "cmdline_loop len (P @ xs @ R) args p i key val = cmdline_loop len (P @ xs @ R) args p (i + length xs) key val"
  using assms
proof (induction xs arbitrary: P i)
  case Nil
  then show ?case by simp
next
  case (Cons x xs)
  have "(P @ (x # xs) @ R) ! i = x" using Cons.prems(1) by (simp add: nth_append)
  then have "cmdline_loop len (P @ (x # xs) @ R) args p i key val = cmdline_loop len (P @ (x # xs) @ R) args p (i + 1) key val"
    using Cons.prems by (subst cmdline_loop.simps) auto
  also have "\<dots> = cmdline_loop len ((P @ [x]) @ xs @ R) args p (i + 1) key val" by simp
  also have "\<dots> = cmdline_loop len ((P @ [x]) @ xs @ R) args p (i + 1 + length xs) key val"
    using Cons.prems by (intro Cons.IH) auto
  finally show ?case by simp
qed

lemma set_arg_ok [simp]: "p < length args \<Longrightarrow> set_arg f p args = Some (args[p := f (args ! p)])"
  by (simp add: set_arg_def)

lemma arg_both_fields: "(x :: cmdline_arg)\<lparr>ca_key := i, ca_value := j\<rparr> = \<lparr>ca_key = i, ca_value = j\<rparr>"
  by (cases x) simp

lemma loop_token:
  assumes ok: "arg_ok (k, v)" and y: "y = 0 \<or> y = 32" and d: "d \<le> length k" and p: "p < length args"
    and len: "length P + length k < len"
  shows "cmdline_loop len (P @ k @ [61] @ v @ y # R) args p (length P + d) (length P) val
    = cmdline_loop len (P @ k @ [0] @ v @ 0 # R)
        (args[p := \<lparr>ca_key = Some (length P), ca_value = Some (length P + length k + 1)\<rparr>]) p
        (length P + length k + 1 + length v) (length P) (length P + length k + 1)"
proof -
  let ?j = "length P + length k" and ?a = "P @ k @ [61] @ v @ y # R"
  have k: "set (drop d k) \<inter> {0, 32, 61} = {}" using ok by (auto simp: arg_ok_def word_ok_def dest: in_set_dropD)
  have e: "(P @ take d k) @ drop d k @ [61] @ v @ y # R = ?a" using append_take_drop_id [of d k] by (metis append.assoc)
  have "cmdline_loop len ?a args p (length P + d) (length P) val = cmdline_loop len ?a args p (length P + d + length (drop d k)) (length P) val"
    unfolding e [symmetric] using k d len by (intro loop_skip) auto
  then have "cmdline_loop len ?a args p (length P + d) (length P) val = cmdline_loop len ?a args p ?j (length P) val"
    using d by simp
  also have "\<dots> = cmdline_loop len (P @ k @ [0] @ v @ 0 # R)
        (args[p := \<lparr>ca_key = Some (length P), ca_value = Some (?j + 1)\<rparr>]) p (?j + 1 + length v) (length P) (?j + 1)"
  proof -
    have a: "?a ! ?j = 61" "?a[?j := 0] = P @ k @ [0] @ v @ y # R" by (simp_all add: nth_append list_update_append)
    have "scan_while (\<lambda>c. c \<noteq> 32 \<and> c \<noteq> 0) ((P @ k @ [0]) @ v @ y # R) (?j + 1) = Some (?j + 1 + length v)"
      using ok y by (intro scan_while_app) (auto simp: arg_ok_def word_ok_def)
    then have sc: "scan_while (\<lambda>c. c \<noteq> 32 \<and> c \<noteq> 0) (?a[?j := 0]) (?j + 1) = Some (?j + 1 + length v)" unfolding a(2) by simp
    have up: "(P @ k @ [0] @ v @ y # R)[?j + 1 + length v := 0] = P @ k @ [0] @ v @ 0 # R" by (simp add: list_update_append)
    have ag: "args[p := (args ! p)\<lparr>ca_key := Some (length P)\<rparr>, p := \<lparr>ca_key = Some (length P), ca_value = Some (?j + 1)\<rparr>]
      = args[p := \<lparr>ca_key = Some (length P), ca_value = Some (?j + 1)\<rparr>]" by simp
    have "cmdline_loop len ?a args p ?j (length P) val = cmdline_loop len (?a[?j := 0, ?j + 1 + length v := 0])
        (args[p := \<lparr>ca_key = Some (length P), ca_value = Some (?j + 1)\<rparr>]) p (?j + 1 + length v) (length P) (?j + 1)"
      using len p a(1) sc by (subst cmdline_loop.simps) (simp add: arg_both_fields)
    then show ?thesis unfolding a(2) up .
  qed
  finally show ?thesis .
qed

lemma loop_end: "\<not> i < len \<Longrightarrow> cmdline_loop len a args p i key val = Some (a, args, p)"
  by (subst cmdline_loop.simps) simp

lemma loop_blank:
  assumes "p < length args" and "length P < len" and "x \<noteq> 32"
  shows "cmdline_loop len (P @ 0 # x # R) args p (length P) key val
    = cmdline_loop len (P @ 0 # x # R) (args[p := (args ! p)\<lparr>ca_value := Some val\<rparr>]) (p + 1) (length P + 2) (length P + 1) val"
proof -
  have "scan_while (\<lambda>c. c = 32) (P @ 0 # x # R) (length P + 1) = Some (length P + 1)"
    using scan_while_app [of "P @ [0]" "length P + 1" "[]" "\<lambda>c. c = 32" x R] assms(3) by simp
  then show ?thesis using assms by (subst cmdline_loop.simps) (simp add: nth_append)
qed

lemma str_at_app: "0 \<notin> set s \<Longrightarrow> str_at (P @ s @ 0 # R) (length P) = s"
  unfolding str_at_def by (simp, subst takeWhile_append2) auto

lemma line_of_Cons: "kvs \<noteq> [] \<Longrightarrow> line_of (kv # kvs) = arg_text kv @ 32 # line_of kvs"
  by (cases kvs) auto

lemma line_of_start: "\<forall>kv \<in> set kvs. arg_ok kv \<Longrightarrow> kvs \<noteq> [] \<Longrightarrow> \<exists>x r. line_of kvs = x # r \<and> x \<noteq> 32"
proof -
  assume a: "\<forall>kv \<in> set kvs. arg_ok kv" and n: "kvs \<noteq> []"
  then obtain k v r where kvs: "kvs = (k, v) # r" by (cases kvs) auto
  then obtain x ks where "k = x # ks" "x \<noteq> 32" using a by (cases k) (auto simp: arg_ok_def word_ok_def)
  then show ?thesis using kvs by (cases r) (auto simp: arg_text_def)
qed

text \<open>The entry of the table says where the two strings of an argument are.\<close>

definition holds_arg :: "byte list \<Rightarrow> cmdline_arg \<Rightarrow> byte list \<times> byte list \<Rightarrow> bool" where
  "holds_arg a x kv \<longleftrightarrow> (\<exists>i j. x = \<lparr>ca_key = Some i, ca_value = Some j\<rparr> \<and> str_at a i = fst kv \<and> str_at a j = snd kv)"

lemma holds_token:
  assumes "arg_ok (k, v)" and "take (length (P @ k @ [0] @ v @ [0])) a = P @ k @ [0] @ v @ [0]"
  shows "holds_arg a \<lparr>ca_key = Some (length P), ca_value = Some (length P + length k + 1)\<rparr> (k, v)"
proof -
  have "0 \<notin> set k" "0 \<notin> set v" using assms(1) by (auto simp: arg_ok_def word_ok_def)
  moreover obtain R where "a = P @ k @ [0] @ v @ [0] @ R"
    using assms(2) append_take_drop_id [of "length (P @ k @ [0] @ v @ [0])" a] by (metis append.assoc)
  ultimately show ?thesis
    using str_at_app [of k P "v @ 0 # R"] str_at_app [of v "P @ k @ [0]" R] by (simp add: holds_arg_def)
qed

lemma loop_line:
  assumes "\<forall>kv \<in> set kvs. arg_ok kv" and "kvs \<noteq> []" and "d \<le> 1" and "p + length kvs \<le> length args"
    and "len = length P + length (line_of kvs)"
  shows "\<exists>a args'. cmdline_loop len (P @ line_of kvs @ 0 # R) args p (length P + d) (length P) val = Some (a, args', p + length kvs - 1)
    \<and> take (length P) a = P \<and> length args' = length args \<and> (\<forall>q < p. args' ! q = args ! q)
    \<and> (\<forall>j < length kvs. holds_arg a (args' ! (p + j)) (kvs ! j))"
  using assms
proof (induction kvs arbitrary: P d p args val)
  case Nil
  then show ?case by simp
next
  case (Cons kv kvs)
  obtain k v where kv: "kv = (k, v)" by (cases kv)
  have ok: "arg_ok (k, v)" and d: "d \<le> length k" using Cons.prems(1,3) kv by (cases k; auto simp: arg_ok_def)+
  let ?x = "\<lparr>ca_key = Some (length P), ca_value = Some (length P + length k + 1)\<rparr>" and ?P = "P @ k @ [0] @ v @ [0]"
  have p: "p < length args" using Cons.prems(4) by simp
  show ?case
  proof (cases "kvs = []")
    case True
    have "cmdline_loop len (P @ k @ [61] @ v @ 0 # R) args p (length P + d) (length P) val = Some (?P @ R, args[p := ?x], p)"
      using loop_token [OF ok _ d p, of 0 P len R val] Cons.prems(5) True kv by (simp add: arg_text_def loop_end)
    moreover have "holds_arg (?P @ R) ?x (k, v)" using holds_token [OF ok, of P "?P @ R"] by simp
    ultimately show ?thesis using True kv p by (auto simp: arg_text_def)
  next
    case False
    have all: "\<forall>kv \<in> set kvs. arg_ok kv" using Cons.prems(1) by simp
    from line_of_start [OF all False] obtain x r where xr: "line_of kvs = x # r" "x \<noteq> 32" by blast
    let ?Q = "P @ k @ [0] @ v" and ?v = "length P + length k + 1"
    have len: "len = length ?P + length (line_of kvs)" using Cons.prems(5) False kv by (simp add: line_of_Cons arg_text_def)
    have line: "P @ line_of (kv # kvs) @ 0 # R = P @ k @ [61] @ v @ 32 # line_of kvs @ 0 # R"
      using False kv by (simp add: line_of_Cons arg_text_def)
    have "cmdline_loop len (P @ k @ [61] @ v @ 32 # line_of kvs @ 0 # R) args p (length P + d) (length P) val
      = cmdline_loop len (?Q @ 0 # x # r @ 0 # R) (args[p := ?x]) p (length ?Q) (length P) ?v"
      using loop_token [OF ok _ d p, of 32 P len "line_of kvs @ 0 # R" val] len xr by (simp add: add.assoc)
    also have "\<dots> = cmdline_loop len (?Q @ 0 # x # r @ 0 # R) (args[p := ?x]) (p + 1) (length ?Q + 2) (length ?Q + 1) ?v"
      using loop_blank [of p "args[p := ?x]" ?Q len x "r @ 0 # R" "length P" ?v] p len xr(2) by simp
    also have "\<dots> = cmdline_loop len (?P @ line_of kvs @ 0 # R) (args[p := ?x]) (p + 1) (length ?P + 1) (length ?P) ?v"
      using xr by simp
    finally have step: "cmdline_loop len (P @ line_of (kv # kvs) @ 0 # R) args p (length P + d) (length P) val
      = cmdline_loop len (?P @ line_of kvs @ 0 # R) (args[p := ?x]) (p + 1) (length ?P + 1) (length ?P) ?v" unfolding line .
    have "p + 1 + length kvs \<le> length (args[p := ?x])" using Cons.prems(4) by simp
    from Cons.IH [OF all False _ this len, of 1 ?v] obtain a args' where
      r: "cmdline_loop len (?P @ line_of kvs @ 0 # R) (args[p := ?x]) (p + 1) (length ?P + 1) (length ?P) ?v = Some (a, args', p + 1 + length kvs - 1)"
        "take (length ?P) a = ?P" "length args' = length (args[p := ?x])" "\<forall>q < p + 1. args' ! q = args[p := ?x] ! q"
        "\<forall>j < length kvs. holds_arg a (args' ! (p + 1 + j)) (kvs ! j)" by auto
    have t: "take (length P) a = P" using arg_cong [OF r(2), of "take (length P)"] by (simp add: min_def)
    have "holds_arg a (args' ! p) (k, v)" using holds_token [OF ok r(2)] r(4) p by simp
    then have "holds_arg a (args' ! (p + j)) ((kv # kvs) ! j)" if "j < length (kv # kvs)" for j
      using r(5) that kv by (cases j) auto
    then show ?thesis using step r t by auto
  qed
qed

lemma find_value_ok:
  assumes "\<forall>j < length kvs. holds_arg (cl_str st) (cl_args st ! (i + j)) (kvs ! j)" and "i + length kvs \<le> length (cl_args st)"
  shows "map_option (map_option (str_at (cl_str st))) (find_value st key i (length kvs)) = Some (map_of kvs key)"
  using assms
proof (induction kvs arbitrary: i)
  case Nil
  then show ?case by simp
next
  case (Cons kv kvs)
  have "holds_arg (cl_str st) (cl_args st ! i) kv" using Cons.prems(1) by (metis add.right_neutral length_Cons nth_Cons_0 zero_less_Suc)
  moreover have "map_option (map_option (str_at (cl_str st))) (find_value st key (i + 1) (length kvs)) = Some (map_of kvs key)"
  proof (rule Cons.IH)
    show "\<forall>j < length kvs. holds_arg (cl_str st) (cl_args st ! (i + 1 + j)) (kvs ! j)"
      using Cons.prems(1) by (metis Suc_less_eq add.assoc length_Cons nth_Cons_Suc plus_1_eq_Suc)
  qed (use Cons.prems(2) in simp)
  ultimately show ?case using Cons.prems(2) by (cases kv) (auto simp: holds_arg_def)
qed

lemma line_of_no_zero: "\<forall>kv \<in> set kvs. arg_ok kv \<Longrightarrow> 0 \<notin> set (line_of kvs)"
  by (induction kvs rule: line_of.induct) (auto simp: arg_text_def arg_ok_def word_ok_def)

definition cmdline_start :: "cmdline_state \<Rightarrow> bool" where
  "cmdline_start st \<longleftrightarrow> cl_str st = replicate CMDLINE_MAX 0 \<and> length (cl_args st) = CMDLINE_MAX_ARGS"

lemma parse_cmdline_ok:
  assumes st: "cmdline_start st" and ok: "\<forall>kv \<in> set kvs. arg_ok kv" and ne: "kvs \<noteq> []" and n: "length kvs \<le> 50"
    and len: "length (line_of kvs) < 1024"
  shows "\<exists>st'. parse_cmdline (line_of kvs) st = Some (length kvs - 1, st')
    \<and> (\<forall>key. map_option (map_option (str_at (cl_str st'))) (cmdline_get_value key st') = Some (map_of kvs key))"
proof -
  let ?l = "line_of kvs" and ?R = "replicate (1023 - length (line_of kvs)) (0 :: byte)"
  have a: "?l @ drop (length ?l) (cl_str st) = ?l @ 0 # ?R"
    using st len by (simp add: cmdline_start_def replicate_Suc [symmetric] Suc_diff_le [symmetric] del: replicate_Suc)
  from line_of_start [OF ok ne] obtain x r where xr: "?l = x # r" "x \<noteq> 32" by blast
  have sc: "scan_while (\<lambda>c. c = 32) (?l @ 0 # ?R) 0 = Some 0"
    using scan_while_app [of "[]" 0 "[]" "\<lambda>c. c = 32" x "r @ 0 # ?R"] xr by simp
  have sl: "str_at (?l @ 0 # ?R) 0 = ?l" using str_at_app [OF line_of_no_zero [OF ok], of "[]" ?R] by simp
  have l: "length (cl_args st) = 50" using st by (simp add: cmdline_start_def)
  from loop_line [OF ok ne, of 0 0 "cl_args st" "length ?l" "[]" ?R 0] n l obtain b args' where
    r: "cmdline_loop (length ?l) (?l @ 0 # ?R) (cl_args st) 0 0 0 0 = Some (b, args', length kvs - 1)"
      "length args' = 50" "\<forall>j < length kvs. holds_arg b (args' ! j) (kvs ! j)" by auto
  let ?st = "\<lparr>cl_args = args', cl_str = b, cl_argc = length kvs - 1\<rparr>"
  have "parse_cmdline ?l st = Some (length kvs - 1, ?st)"
    using st len sc sl r(1) unfolding parse_cmdline_def a Let_def by (simp add: cmdline_start_def)
  moreover have "cl_argc ?st + 1 = length kvs" using ne by (cases kvs) auto
  then have "map_option (map_option (str_at (cl_str ?st))) (cmdline_get_value key ?st) = Some (map_of kvs key)" for key
    unfolding cmdline_get_value_def using find_value_ok [of kvs ?st 0 key] r(2,3) n by simp
  ultimately show ?thesis by blast
qed

text \<open>C19: Parsing the command line and asking for an argument: for a line of up to 50 arguments \<^verbatim>\<open>key=value\<close> separated by
  blanks, the value that \<open>cmdline_get_value\<close> returns for a key is the one of the first argument with that key, and
  it returns \<open>NULL\<close> for every other key. The number of arguments that \<open>parse_cmdline\<close> reports is one too small.\<close>
theorem cmdline_lookup:
  assumes "cmdline_start st" and "\<forall>kv \<in> set kvs. arg_ok kv" and "kvs \<noteq> []" and "length kvs \<le> 50"
    and "length (line_of kvs) < 1024"
  shows "\<exists>st'. parse_cmdline (line_of kvs) st = Some (length kvs - 1, st')
    \<and> (\<forall>key. map_option (map_option (str_at (cl_str st'))) (cmdline_get_value key st') = Some (map_of kvs key))"
  using parse_cmdline_ok [OF assms] .

definition empty_cmdline :: cmdline_state where
  "empty_cmdline = \<lparr>cl_args = replicate 50 \<lparr>ca_key = None, ca_value = None\<rparr>, cl_str = replicate 1024 0, cl_argc = 0\<rparr>"

lemma empty_cmdline_start: "cmdline_start empty_cmdline"
  by (simp add: cmdline_start_def empty_cmdline_def)

definition demo_args :: "(byte list \<times> byte list) list" where
  "demo_args = [([114, 111, 111, 116], [51, 58, 49]), ([105], [47, 105])]"

lemma demo_args_ok:
  "\<forall>kv \<in> set demo_args. arg_ok kv" "demo_args \<noteq> []" "length demo_args = 2" "length (line_of demo_args) < 1024"
  "map_of demo_args [105] = Some [47, 105]"
  by (simp_all add: demo_args_def arg_ok_def word_ok_def arg_text_def)

theorem cmdline_lookup_witness:
  "\<exists>st'. parse_cmdline (line_of demo_args) empty_cmdline = Some (1, st')
    \<and> map_option (map_option (str_at (cl_str st'))) (cmdline_get_value [105] st') = Some (Some [47, 105])"
proof -
  from cmdline_lookup [OF empty_cmdline_start demo_args_ok(1,2) _ demo_args_ok(4)] demo_args_ok(3) obtain st'
    where "parse_cmdline (line_of demo_args) empty_cmdline = Some (1, st')"
      "\<forall>key. map_option (map_option (str_at (cl_str st'))) (cmdline_get_value key st') = Some (map_of demo_args key)" by auto
  then show ?thesis using demo_args_ok(5) by metis
qed

section \<open>Finding the root device\<close>

definition digits :: "byte list \<Rightarrow> bool" where
  "digits s \<longleftrightarrow> (\<forall>c \<in> set s. digit_char c)"

lemma decimal_bound: "digits s \<Longrightarrow> decimal s < 10 ^ length s"
  by (induction s rule: rev_induct) (auto simp: digits_def digit_char_def)

lemma cstr_list_mem: "0 \<notin> set s \<Longrightarrow> cstr (list_mem (P @ s @ 0 # R)) (length P + 1) s"
  by (auto simp: cstr_iff list_mem_def nth_append)

lemma atoi_list_mem:
  assumes "digits s" and "length s \<le> 9"
  shows "atoi (list_mem (P @ s @ 0 # R)) (length P + 1) = Some (int (decimal s))"
proof -
  have "0 \<notin> set s" using assms(1) by (auto simp: digits_def digit_char_def)
  moreover have "(10 :: nat) ^ length s \<le> 10 ^ 9" using assms(2) by (intro power_increasing) auto
  then have "decimal s < 2147483648" using decimal_bound [OF assms(1)] by simp
  ultimately show ?thesis
    using atoi_digits [OF cstr_list_mem] assms(1) by (simp add: digits_def sint_of_nat_u32)
qed

lemma find_colon_ok:
  "58 \<notin> set s \<Longrightarrow> i = length P \<Longrightarrow> length s < n \<Longrightarrow> find_colon (P @ s @ 58 # R) i n = Some (i + length s)"
proof (induction s arbitrary: P i n)
  case Nil
  then obtain m where "n = Suc m" by (cases n) auto
  then show ?case using Nil by simp
next
  case (Cons x s)
  then obtain m where "n = Suc m" by (cases n) auto
  then show ?case using Cons.prems Cons.IH [of "i + 1" "P @ [x]" m] by (simp add: nth_append)
qed

lemma parse_root_ok:
  assumes "digits ma" and "digits mi" and "length ma + length mi < 9" and "length old = 10"
  shows "parse_root old (ma @ [58] @ mi) = Some (Ok (int (decimal ma), int (decimal mi)))"
proof -
  let ?R = "drop (length ma + length mi + 2) old"
  have "58 \<notin> set ma" using assms(1) by (auto simp: digits_def digit_char_def)
  then have c: "find_colon (ma @ 58 # mi @ 0 # ?R) 0 (length (ma @ [58] @ mi)) = Some (length ma)"
    using find_colon_ok [of ma 0 "[]" "length (ma @ [58] @ mi)" "mi @ 0 # ?R"] by simp
  have u: "(ma @ 58 # mi @ 0 # ?R)[length ma := 0] = ma @ 0 # mi @ 0 # ?R" by (simp add: list_update_append)
  have "atoi (list_mem (ma @ 0 # mi @ 0 # ?R)) 1 = Some (int (decimal ma))"
    using atoi_list_mem [of ma "[]" "mi @ 0 # ?R"] assms by simp
  moreover have "atoi (list_mem (ma @ 0 # mi @ 0 # ?R)) (length ma + 2) = Some (int (decimal mi))"
    using atoi_list_mem [of mi "ma @ [0]" ?R] assms by simp
  ultimately show ?thesis using assms(3,4) c u by (simp add: parse_root_def Let_def)
qed

text \<open>From the command line to the root device: when the first argument \<^verbatim>\<open>root\<close> of a well-formed line is a pair of
  decimal numbers with a colon between them, of at most nine characters, the kernel mounts the device with these
  two numbers.\<close>
theorem root_device_from_cmdline:
  assumes "cmdline_start st" and "\<forall>kv \<in> set kvs. arg_ok kv" and "kvs \<noteq> []" and "length kvs \<le> 50"
    and "length (line_of kvs) < 1024" and "map_of kvs [114, 111, 111, 116] = Some (ma @ [58] @ mi)"
    and "digits ma" and "digits mi" and "length ma + length mi < 9" and "length old = 10"
  shows "\<exists>n st'. parse_cmdline (line_of kvs) st = Some (n, st')
    \<and> root_device old st' = Some (Ok (int (decimal ma), int (decimal mi)))"
proof -
  from parse_cmdline_ok [OF assms(1-5)] obtain st' where st': "parse_cmdline (line_of kvs) st = Some (length kvs - 1, st')"
    "map_option (map_option (str_at (cl_str st'))) (cmdline_get_value [114, 111, 111, 116] st') = Some (Some (ma @ [58] @ mi))"
    using assms(6) by metis
  then obtain p where "cmdline_get_value [114, 111, 111, 116] st' = Some (Some p)" "str_at (cl_str st') p = ma @ [58] @ mi" by auto
  then have "root_device old st' = Some (Ok (int (decimal ma), int (decimal mi)))"
    using parse_root_ok [OF assms(7-10)] by (simp add: root_device_def)
  then show ?thesis using st'(1) by blast
qed

theorem root_device_from_cmdline_witness:
  "\<exists>n st'. parse_cmdline (line_of demo_args) empty_cmdline = Some (n, st') \<and> root_device (replicate 10 7) st' = Some (Ok (3, 1))"
proof -
  have "map_of demo_args [114, 111, 111, 116] = Some ([51] @ [58] @ [49])" by (simp add: demo_args_def)
  from root_device_from_cmdline [OF empty_cmdline_start demo_args_ok(1,2) _ demo_args_ok(4) this, of "replicate 10 7"] demo_args_ok(3)
  show ?thesis by (simp add: digits_def digit_char_def decimal_def)
qed

end
