(* ===== verification/Irq.thy ===== *)
theory Irq
  imports Sched Port_Io
begin

text \<open>
  Interrupt requests: the handler queues of \<^verbatim>\<open>arch/x86/kernel/irq.c\<close>, the two interrupt controllers of
  \<^verbatim>\<open>arch/x86/kernel/i8259A.c\<close> and the interval timer of \<^verbatim>\<open>arch/x86/kernel/i82C54.c\<close>. A handler is code of
  a driver, reached through a function pointer: \<open>call\<close> is the effect of calling it with the handler's number
  and the saved registers on the rest of the system. The queues meet \<open>ptr_list\<close>, so the facts about
  registration and dispatch rest on that interface.
\<close>

section \<open>Model\<close>

abbreviation (input) N_IRQ :: nat where "N_IRQ \<equiv> 16"
abbreviation (input) MAX_IRQH_NAME :: nat where "MAX_IRQH_NAME \<equiv> 256"
abbreviation (input) SA_SHIRQ :: u16 where "SA_SHIRQ \<equiv> 1"

record irq_handler =
  ih_id :: u32
  ih_name :: "byte list"
  ih_handler :: ptr

record irq_queue =
  iq_irqnum :: byte
  iq_flags :: u16
  iq_queue :: ptr

record irq_state =
  ir_list :: "nat \<Rightarrow> irq_queue"
  ir_nodes :: lheap
  ir_handlers :: "ptr \<rightharpoonup> irq_handler"

definition init_IRQ :: "irq_state \<Rightarrow> irq_state" where
  "init_IRQ st = st\<lparr>ir_list := (\<lambda>i. if i < N_IRQ
     then \<lparr>iq_irqnum = of_nat i, iq_flags = SA_SHIRQ, iq_queue = snd llist_create\<rparr> else ir_list st i)\<rparr>"

text \<open>\<^verbatim>\<open>foreach(queue->queue, tmp)\<close>: an element that is \<open>NULL\<close> is passed over.\<close>

partial_function (option) irq_loop ::
  "(ptr \<Rightarrow> u32 \<Rightarrow> pt_regs \<times> 's \<Rightarrow> (pt_regs \<times> 's) option) \<Rightarrow> irq_state \<Rightarrow> ptr \<Rightarrow> pt_regs \<times> 's \<Rightarrow> (pt_regs \<times> 's) option" where
  "irq_loop call st tmp s =
     (if tmp \<noteq> NULL then do {
        n \<leftarrow> ir_nodes st tmp;
        s1 \<leftarrow> (if ll_element n \<noteq> NULL then do {
                 handler \<leftarrow> ir_handlers st (ll_element n);
                 call (ih_handler handler) (ih_id handler) s
               } else Some s);
        irq_loop call st (ll_next n) s1
      } else Some s)"

definition do_irq ::
  "'h machine \<Rightarrow> (ptr \<Rightarrow> u32 \<Rightarrow> pt_regs \<times> 'x \<times> 'h \<Rightarrow> (pt_regs \<times> 'x \<times> 'h) option) \<Rightarrow> irq_state \<Rightarrow>
    u32 \<Rightarrow> pt_regs \<times> 'x \<times> 'h \<Rightarrow> (pt_regs \<times> 'x \<times> 'h) option" where
  "do_irq m call st irqnum s =
     (if unat irqnum < N_IRQ then do {
        (regs, x, h) \<leftarrow> irq_loop call st (iq_queue (ir_list st (unat irqnum))) s;
        let h1 = (if irqnum > 7 then outb m 0x20 0xA0 h else h);
        Some (regs, x, outb m 0x20 0x20 h1)
      } else Some s)"

text \<open>The copy of the name into memory with contents \<open>old\<close>; \<open>name\<close> is the string without its terminator.\<close>

definition irq_name :: "byte list \<Rightarrow> byte list \<Rightarrow> byte list" where
  "irq_name old name =
     (if length name < MAX_IRQH_NAME then name @ drop (length name) old else take MAX_IRQH_NAME name)"

partial_function (option) queue_tail :: "lheap \<Rightarrow> ptr \<Rightarrow> llist option" where
  "queue_tail h tmp = do {
     n \<leftarrow> h tmp;
     if ll_next n \<noteq> NULL then queue_tail h (ll_next n) else Some n
   }"

text \<open>\<open>newh\<close> and \<open>node\<close> are the results of the two allocations, \<open>old\<close> the contents of the first.\<close>

definition install_irq :: "ptr \<Rightarrow> irq_handler \<Rightarrow> ptr \<Rightarrow> nat \<Rightarrow> ptr \<Rightarrow> byte list \<Rightarrow> irq_state \<Rightarrow> (int \<times> irq_state) option" where
  "install_irq newh old node irq handler name st =
     (if newh = NULL then Some (-1, st)
      else let queue = ir_list st irq;
               h0 = old\<lparr>ih_name := irq_name (ih_name old) name, ih_handler := handler\<rparr> in do {
        gen \<leftarrow> (if iq_queue queue = NULL then Some (Some 1)
                else do {
                  n \<leftarrow> queue_tail (ir_nodes st) (iq_queue queue);
                  if ll_element n \<noteq> NULL then do {
                    htmp \<leftarrow> ir_handlers st (ll_element n);
                    Some (Some (ih_id htmp + 1))
                  } else Some None
                });
        case gen of
          None \<Rightarrow> Some (-1, st\<lparr>ir_handlers := (ir_handlers st)(newh \<mapsto> h0)\<rparr>)
        | Some i \<Rightarrow> do {
            (r, q, nodes) \<leftarrow> llist_add (ir_nodes st) (iq_queue queue) newh node;
            Some (1, st\<lparr>ir_list := (ir_list st)(irq := queue\<lparr>iq_queue := q\<rparr>), ir_nodes := nodes,
              ir_handlers := (ir_handlers st)(newh \<mapsto> h0\<lparr>ih_id := i\<rparr>)\<rparr>)
          }
      })"

definition request_irq :: "ptr \<Rightarrow> irq_handler \<Rightarrow> ptr \<Rightarrow> u16 \<Rightarrow> ptr \<Rightarrow> u16 \<Rightarrow> byte list \<Rightarrow> irq_state \<Rightarrow> (int \<times> irq_state) option" where
  "request_irq newh old node irq handler flags name st =
     (if unat irq < N_IRQ then
        let queue = ir_list st (unat irq) in
        if flags AND SA_SHIRQ \<noteq> 0 then
          if iq_flags queue AND SA_SHIRQ = 0 then Some (-1, st)
          else install_irq newh old node (unat irq) handler name st
        else if iq_queue queue \<noteq> NULL then Some (-1, st)
        else install_irq newh old node (unat irq) handler name
          (st\<lparr>ir_list := (ir_list st)(unat irq := queue\<lparr>iq_flags := iq_flags queue AND NOT SA_SHIRQ\<rparr>)\<rparr>)
      else Some (-1, st))"

section \<open>Interrupt controllers and interval timer\<close>

abbreviation (input) PIC_MASTER_CMD :: u16 where "PIC_MASTER_CMD \<equiv> 0x20"
abbreviation (input) PIC_MASTER_DATA :: u16 where "PIC_MASTER_DATA \<equiv> 0x21"
abbreviation (input) PIC_SLAVE_CMD :: u16 where "PIC_SLAVE_CMD \<equiv> 0xA0"
abbreviation (input) PIC_SLAVE_DATA :: u16 where "PIC_SLAVE_DATA \<equiv> 0xA1"

definition init_PIC :: "'h machine \<Rightarrow> 'h \<Rightarrow> 'h" where
  "init_PIC m h0 =
     (let h1 = outb m 0xFB PIC_MASTER_DATA h0;
          h2 = outb m 0xFF PIC_SLAVE_DATA h1;
          h3 = outb m (0x10 OR 0x01) PIC_MASTER_CMD h2;
          h4 = outb m (0x10 OR 0x01) PIC_SLAVE_CMD h3;
          h5 = outb m 0x20 PIC_MASTER_DATA h4;
          h6 = outb m 0x28 PIC_SLAVE_DATA h5;
          h7 = outb m 0x04 PIC_MASTER_DATA h6;
          h8 = outb m 0x02 PIC_SLAVE_DATA h7;
          h9 = outb m (0x01 OR 0x02) PIC_MASTER_DATA h8
      in outb m (0x01 OR 0x02) PIC_MASTER_DATA h9)"

definition get_picmask :: "'h machine \<Rightarrow> byte \<Rightarrow> 'h \<Rightarrow> byte \<times> 'h" where
  "get_picmask m pic h =
     (if ucast pic \<noteq> PIC_MASTER_DATA \<and> ucast pic \<noteq> PIC_SLAVE_DATA then (0, h) else inb m (ucast pic) h)"

definition set_picmask :: "'h machine \<Rightarrow> byte \<Rightarrow> byte \<Rightarrow> 'h \<Rightarrow> 'h" where
  "set_picmask m msk pic h =
     (if ucast pic = PIC_MASTER_DATA \<or> ucast pic = PIC_SLAVE_DATA then outb m msk (ucast pic) h else h)"

text \<open>\<open>PIT_DIVIDER\<close> is the input frequency of the timer divided by the tick rate.\<close>

definition PIT_DIVIDER :: u32 where
  "PIT_DIVIDER = 1193182 div HZ"

definition init_PIT :: "'h machine \<Rightarrow> 'h \<Rightarrow> 'h" where
  "init_PIT m h0 =
     (let h1 = outb m (0x00 OR 0x30 OR 0x04 OR 0x00) 0x43 h0;
          h2 = outb m (ucast (PIT_DIVIDER AND 0xFF)) 0x40 h1
      in outb m (ucast (drop_bit 8 PIT_DIVIDER AND 0xFF)) 0x40 h2)"

section \<open>Registration\<close>

text \<open>The contract of the module: a line is either shareable or not and has a sequence of handlers.\<close>

type_synonym irq_lines = "nat \<Rightarrow> bool \<times> irq_handler list"

definition new_handler :: "irq_handler \<Rightarrow> ptr \<Rightarrow> byte list \<Rightarrow> nat \<Rightarrow> irq_handler" where
  "new_handler old handler name n = old\<lparr>ih_name := irq_name (ih_name old) name, ih_handler := handler, ih_id := of_nat n\<rparr>"

definition request_spec :: "ptr \<Rightarrow> irq_handler \<Rightarrow> u16 \<Rightarrow> ptr \<Rightarrow> u16 \<Rightarrow> byte list \<Rightarrow> irq_lines \<Rightarrow> int \<times> irq_lines" where
  "request_spec newh old irq handler flags name lines =
     (let i = unat irq; shared = (flags AND SA_SHIRQ \<noteq> 0); hs = snd (lines i) in
      if i \<ge> N_IRQ then (-1, lines)
      else if shared \<and> \<not> fst (lines i) \<or> \<not> shared \<and> hs \<noteq> [] then (-1, lines)
      else if newh = NULL then (-1, lines(i := (shared, hs)))
      else (1, lines(i := (shared, hs @ [new_handler old handler name (length hs + 1)]))))"

definition line_rep :: "irq_state \<Rightarrow> nat \<Rightarrow> (ptr \<times> ptr) list \<Rightarrow> bool \<times> irq_handler list \<Rightarrow> bool" where
  "line_rep st i ns l \<longleftrightarrow> is_llist (ir_nodes st) (iq_queue (ir_list st i)) ns
     \<and> (iq_flags (ir_list st i) AND SA_SHIRQ \<noteq> 0) = fst l
     \<and> list_all2 (\<lambda>n h. snd n \<noteq> NULL \<and> ir_handlers st (snd n) = Some h) ns (snd l)"

definition irq_rep :: "irq_state \<Rightarrow> irq_lines \<Rightarrow> bool" where
  "irq_rep st lines \<longleftrightarrow> (\<exists>ns. (\<forall>i < N_IRQ. line_rep st i (ns i) (lines i))
     \<and> (\<forall>i < N_IRQ. \<forall>j < N_IRQ. i \<noteq> j \<longrightarrow> fst ` set (ns i) \<inter> fst ` set (ns j) = {}))"

definition lines_ok :: "irq_lines \<Rightarrow> bool" where
  "lines_ok lines \<longleftrightarrow> (\<forall>i < N_IRQ. map ih_id (snd (lines i)) = map of_nat [1..<length (snd (lines i)) + 1]
     \<and> (\<not> fst (lines i) \<longrightarrow> length (snd (lines i)) \<le> 1))"

lemma irq_rep_init: "irq_rep (init_IRQ st) (\<lambda>_. (True, []))"
  unfolding irq_rep_def
  by (rule exI [of _ "\<lambda>_. []"]) (simp add: line_rep_def init_IRQ_def llist_create_def sll.rep_empty)

lemma lines_ok_init: "lines_ok (\<lambda>_. (True, []))"
  by (simp add: lines_ok_def)

lemma request_spec_ok: "lines_ok lines \<Longrightarrow> lines_ok (snd (request_spec newh old irq handler flags name lines))"
  by (auto simp: lines_ok_def request_spec_def new_handler_def Let_def Suc_le_eq)

lemma queue_tail_ok:
  "lseg h p ns NULL \<Longrightarrow> ns \<noteq> [] \<Longrightarrow> \<exists>n. queue_tail h p = Some n \<and> ll_element n = snd (last ns)"
proof (induction ns arbitrary: p)
  case Nil
  then show ?case by simp
next
  case (Cons x ns)
  then obtain a e n where x: "x = (a, e)" "p = a" "h a = Some n" "ll_element n = e" "lseg h (ll_next n) ns NULL"
    by (cases x) (auto split: option.splits)
  show ?case
  proof (cases ns)
    case Nil
    then show ?thesis using x by (subst queue_tail.simps) simp
  next
    case (Cons y zs)
    then have "ll_next n \<noteq> NULL" using x(5) by (cases y) auto
    then show ?thesis using x Cons.IH [OF x(5)] Cons by (subst queue_tail.simps) simp
  qed
qed

lemma line_rep_empty: "line_rep st i ns l \<Longrightarrow> iq_queue (ir_list st i) = NULL \<longleftrightarrow> snd l = []"
  by (cases ns) (auto simp: line_rep_def is_llist_def list_all2_Cons1)

lemma install_irq_fails: "install_irq NULL old node i handler name st = Some (-1, st)"
  by (simp add: install_irq_def)

lemma generated_id:
  assumes "line_rep st i ns l" and ids: "map ih_id (snd l) = map of_nat [1..<length (snd l) + 1]" and "snd l \<noteq> []"
  shows "\<exists>n hl. queue_tail (ir_nodes st) (iq_queue (ir_list st i)) = Some n \<and> ll_element n \<noteq> NULL
    \<and> ir_handlers st (ll_element n) = Some hl \<and> ih_id hl = of_nat (length (snd l))"
proof -
  have l2: "list_all2 (\<lambda>n h. snd n \<noteq> NULL \<and> ir_handlers st (snd n) = Some h) ns (snd l)"
    and seg: "lseg (ir_nodes st) (iq_queue (ir_list st i)) ns NULL"
    using assms(1) by (auto simp: line_rep_def is_llist_def)
  have ns: "ns \<noteq> []" using l2 assms(3) by auto
  let ?k = "length (snd l) - 1"
  have len: "length ns = length (snd l)" using l2 by (rule list_all2_lengthD)
  have k: "?k < length (snd l)" using assms(3) by simp
  have e: "snd (ns ! ?k) \<noteq> NULL" "ir_handlers st (snd (ns ! ?k)) = Some (snd l ! ?k)"
    using list_all2_nthD2 [OF l2 k] by auto
  have "ih_id (snd l ! ?k) = map ih_id (snd l) ! ?k" using k by simp
  also have "\<dots> = of_nat (length (snd l))" unfolding ids using k by (simp del: upt_Suc)
  finally have "ih_id (snd l ! ?k) = of_nat (length (snd l))" .
  moreover obtain n where "queue_tail (ir_nodes st) (iq_queue (ir_list st i)) = Some n" "ll_element n = snd (last ns)"
    using queue_tail_ok [OF seg ns] by blast
  ultimately show ?thesis using e ns len by (auto simp: last_conv_nth)
qed

lemma line_rep_append:
  assumes rep: "line_rep st i ns l" and isl: "is_llist nodes q (ns @ [(node, newh)])"
    and new: "newh \<noteq> NULL" "newh \<notin> dom (ir_handlers st)"
  shows "line_rep (st\<lparr>ir_list := (ir_list st)(i := (ir_list st i)\<lparr>iq_queue := q\<rparr>), ir_nodes := nodes,
      ir_handlers := (ir_handlers st)(newh \<mapsto> h)\<rparr>) i (ns @ [(node, newh)]) (fst l, snd l @ [h])"
proof -
  have "list_all2 (\<lambda>n k. snd n \<noteq> NULL \<and> ((ir_handlers st)(newh \<mapsto> h)) (snd n) = Some k) ns (snd l)"
    by (rule list_all2_mono [of "\<lambda>n k. snd n \<noteq> NULL \<and> ir_handlers st (snd n) = Some k"])
      (use rep new in \<open>auto simp: line_rep_def\<close>)
  then show ?thesis using rep isl new by (simp add: line_rep_def list_all2_appendI)
qed

lemma line_rep_other:
  assumes rep: "line_rep st j ns l" and ne: "j \<noteq> i" and isl: "is_llist nodes (iq_queue (ir_list st j)) ns"
    and new: "newh \<notin> dom (ir_handlers st)"
  shows "line_rep (st\<lparr>ir_list := (ir_list st)(i := x), ir_nodes := nodes,
      ir_handlers := (ir_handlers st)(newh \<mapsto> h)\<rparr>) j ns l"
proof -
  have "list_all2 (\<lambda>n k. snd n \<noteq> NULL \<and> ((ir_handlers st)(newh \<mapsto> h)) (snd n) = Some k) ns (snd l)"
    by (rule list_all2_mono [of "\<lambda>n k. snd n \<noteq> NULL \<and> ir_handlers st (snd n) = Some k"])
      (use rep new in \<open>auto simp: line_rep_def\<close>)
  then show ?thesis using rep isl ne by (simp add: line_rep_def)
qed

lemma install_irq_ok:
  assumes rep: "irq_rep st lines" and i: "i < N_IRQ"
    and ids: "map ih_id (snd (lines i)) = map of_nat [1..<length (snd (lines i)) + 1]"
    and newh: "newh \<noteq> NULL" "newh \<notin> dom (ir_handlers st)" and node: "node \<noteq> NULL" "node \<notin> dom (ir_nodes st)"
  shows "\<exists>st'. install_irq newh old node i handler name st = Some (1, st')
    \<and> irq_rep st' (lines(i := (fst (lines i), snd (lines i) @ [new_handler old handler name (length (snd (lines i)) + 1)])))
    \<and> dom (ir_handlers st') = insert newh (dom (ir_handlers st)) \<and> dom (ir_nodes st') = insert node (dom (ir_nodes st))"
proof -
  from rep [unfolded irq_rep_def] obtain ns where l': "\<forall>j < N_IRQ. line_rep st j (ns j) (lines j)"
    and dj': "\<forall>j < N_IRQ. \<forall>k < N_IRQ. j \<noteq> k \<longrightarrow> fst ` set (ns j) \<inter> fst ` set (ns k) = {}" by (elim exE conjE)
  have l: "line_rep st j (ns j) (lines j)" if "j < N_IRQ" for j using l' that by simp
  have dj: "fst ` set (ns j) \<inter> fst ` set (ns k) = {}" if "j < N_IRQ" "k < N_IRQ" "j \<noteq> k" for j k using dj' that by simp
  let ?q = "iq_queue (ir_list st i)" and ?h = "new_handler old handler name (length (snd (lines i)) + 1)"
  have isl: "is_llist (ir_nodes st) (iq_queue (ir_list st j)) (ns j)" if "j < N_IRQ" for j
    using l [OF that] by (simp add: line_rep_def)
  from sll.add_ok [OF isl [OF i] node, of newh] obtain q nodes
    where a: "llist_add (ir_nodes st) ?q newh node = Some (1, q, nodes)" "is_llist nodes q (ns i @ [(node, newh)])"
      "dom nodes = insert node (dom (ir_nodes st))" by blast
  have frame: "is_llist nodes (iq_queue (ir_list st j)) (ns j)" if "j < N_IRQ" "j \<noteq> i" for j
    by (rule sll.add_frame [OF isl [OF i] node a(1) isl [OF that(1)] dj [OF that(1) i that(2)]])
  let ?st' = "st\<lparr>ir_list := (ir_list st)(i := (ir_list st i)\<lparr>iq_queue := q\<rparr>), ir_nodes := nodes,
    ir_handlers := (ir_handlers st)(newh \<mapsto> ?h)\<rparr>"
  have inst: "install_irq newh old node i handler name st = Some (1, ?st')"
  proof (cases "snd (lines i) = []")
    case True
    then show ?thesis using line_rep_empty [OF l [OF i]] a(1) newh
      by (simp add: install_irq_def new_handler_def Let_def)
  next
    case False
    from generated_id [OF l [OF i] ids False] obtain n hl where
      "queue_tail (ir_nodes st) ?q = Some n" "ll_element n \<noteq> NULL"
      "ir_handlers st (ll_element n) = Some hl" "ih_id hl = of_nat (length (snd (lines i)))" by blast
    then show ?thesis using line_rep_empty [OF l [OF i]] a(1) newh False
      by (simp add: install_irq_def new_handler_def Let_def add.commute)
  qed
  have fresh: "node \<notin> fst ` set (ns j)" if "j < N_IRQ" for j
    using sll.rep_live [OF isl [OF that]] node(2) by blast
  have "irq_rep ?st' (lines(i := (fst (lines i), snd (lines i) @ [?h])))"
    unfolding irq_rep_def
  proof (rule exI [of _ "ns(i := ns i @ [(node, newh)])"], intro conjI allI impI)
    fix j assume "j < N_IRQ"
    then show "line_rep ?st' j ((ns(i := ns i @ [(node, newh)])) j) ((lines(i := (fst (lines i), snd (lines i) @ [?h]))) j)"
      using line_rep_append [OF l [OF i] a(2) newh] line_rep_other [OF l _ frame newh(2)] by auto
  next
    fix j k assume "j < N_IRQ" "k < N_IRQ" "j \<noteq> k"
    then show "fst ` set ((ns(i := ns i @ [(node, newh)])) j) \<inter> fst ` set ((ns(i := ns i @ [(node, newh)])) k) = {}"
      using dj [of j k] fresh [of j] fresh [of k] by auto
  qed
  then show ?thesis using inst a(3) by auto
qed

lemma irq_rep_flags:
  assumes "irq_rep st lines" and "i < N_IRQ" and "(f AND SA_SHIRQ \<noteq> 0) = b"
  shows "irq_rep (st\<lparr>ir_list := (ir_list st)(i := (ir_list st i)\<lparr>iq_flags := f\<rparr>)\<rparr>) (lines(i := (b, snd (lines i))))"
proof -
  from assms(1) [unfolded irq_rep_def] obtain ns where l: "\<forall>j < N_IRQ. line_rep st j (ns j) (lines j)"
    and dj: "\<forall>j < N_IRQ. \<forall>k < N_IRQ. j \<noteq> k \<longrightarrow> fst ` set (ns j) \<inter> fst ` set (ns k) = {}" by (elim exE conjE)
  show ?thesis unfolding irq_rep_def
    by (rule exI [of _ ns], intro conjI dj) (use l assms in \<open>simp add: line_rep_def\<close>)
qed

lemma irq_repD:
  "irq_rep st lines \<Longrightarrow> i < N_IRQ \<Longrightarrow>
    (iq_flags (ir_list st i) AND SA_SHIRQ \<noteq> 0) = fst (lines i) \<and> (iq_queue (ir_list st i) = NULL) = (snd (lines i) = [])"
  unfolding irq_rep_def using line_rep_empty [of st i _ "lines i"] by (auto simp: line_rep_def)

lemma and_not_self: "(f AND NOT b) AND b = (0 :: u16)"
  by (rule bit_word_eqI) (auto simp: bit_simps)

lemma request_irq_refines:
  assumes rep: "irq_rep st lines" and ok: "lines_ok lines"
    and newh: "newh \<notin> dom (ir_handlers st)" and node: "node \<noteq> NULL" "node \<notin> dom (ir_nodes st)"
  shows "\<exists>st'. request_irq newh old node irq handler flags name st
      = Some (fst (request_spec newh old irq handler flags name lines), st')
    \<and> irq_rep st' (snd (request_spec newh old irq handler flags name lines))
    \<and> dom (ir_handlers st') \<subseteq> dom (ir_handlers st) \<union> ({newh} - {NULL}) \<and> dom (ir_nodes st') \<subseteq> insert node (dom (ir_nodes st))"
proof (cases "unat irq < N_IRQ")
  case False
  then show ?thesis using rep by (auto simp: request_irq_def request_spec_def Let_def)
next
  case i: True
  let ?i = "unat irq"
  note D = irq_repD [OF rep i]
  have ids: "map ih_id (snd (lines ?i)) = map of_nat [1..<length (snd (lines ?i)) + 1]"
    using ok i by (simp add: lines_ok_def)
  show ?thesis
  proof (cases "flags AND SA_SHIRQ = 0")
    case shared: False
    show ?thesis
    proof (cases "fst (lines ?i) \<and> newh \<noteq> NULL")
      case True
      with install_irq_ok [OF rep i ids _ newh node, of old handler name] D shared i show ?thesis
        by (auto simp: request_irq_def request_spec_def Let_def)
    next
      case False
      then show ?thesis using D shared rep i fun_upd_triv [of lines ?i]
        by (cases "lines ?i") (auto simp: request_irq_def request_spec_def Let_def install_irq_fails)
    qed
  next
    case exclusive: True
    let ?st = "st\<lparr>ir_list := (ir_list st)(?i := (ir_list st ?i)\<lparr>iq_flags := iq_flags (ir_list st ?i) AND NOT SA_SHIRQ\<rparr>)\<rparr>"
    let ?lines = "lines(?i := (False, snd (lines ?i)))"
    have rep': "irq_rep ?st ?lines" using irq_rep_flags [OF rep i] and_not_self by blast
    show ?thesis
    proof (cases "snd (lines ?i) = [] \<and> newh \<noteq> NULL")
      case True
      with install_irq_ok [OF rep' i _ _ _ node(1), of newh old handler name] ids newh node D exclusive i show ?thesis
        by (auto simp: request_irq_def request_spec_def Let_def)
    next
      case False
      then show ?thesis using D exclusive rep rep' i
        by (auto simp: request_irq_def request_spec_def Let_def install_irq_fails)
    qed
  qed
qed

section \<open>Dispatch\<close>

text \<open>Calling a sequence of handlers, one after the other.\<close>

fun run_handlers :: "(ptr \<Rightarrow> u32 \<Rightarrow> 's \<Rightarrow> 's option) \<Rightarrow> irq_handler list \<Rightarrow> 's \<Rightarrow> 's option" where
  "run_handlers call [] s = Some s"
| "run_handlers call (h # hs) s = do { s1 \<leftarrow> call (ih_handler h) (ih_id h) s; run_handlers call hs s1 }"

definition send_eoi :: "'h machine \<Rightarrow> u32 \<Rightarrow> 'h \<Rightarrow> 'h" where
  "send_eoi m irqnum h = outb m 0x20 PIC_MASTER_CMD (if irqnum > 7 then outb m 0x20 PIC_SLAVE_CMD h else h)"

lemma irq_loop_ok:
  "lseg (ir_nodes st) p ns NULL \<Longrightarrow> list_all2 (\<lambda>n h. snd n \<noteq> NULL \<and> ir_handlers st (snd n) = Some h) ns hs
    \<Longrightarrow> irq_loop call st p s = run_handlers call hs s"
proof (induction ns arbitrary: p hs s)
  case Nil
  then show ?case by (subst irq_loop.simps) simp
next
  case (Cons x ns)
  from Cons.prems obtain a e n h hs' where x: "x = (a, e)" "p = a" "a \<noteq> NULL" "ir_nodes st a = Some n" "ll_element n = e"
    "lseg (ir_nodes st) (ll_next n) ns NULL" "hs = h # hs'" "e \<noteq> NULL" "ir_handlers st e = Some h"
    and l2: "list_all2 (\<lambda>n h. snd n \<noteq> NULL \<and> ir_handlers st (snd n) = Some h) ns hs'"
    by (cases x) (auto simp: list_all2_Cons1 split: option.splits)
  have "irq_loop call st (ll_next n) = run_handlers call hs'" using Cons.IH [OF x(6) l2] by (rule ext)
  then show ?case using x by (subst irq_loop.simps) simp
qed

lemma do_irq_ok:
  assumes "irq_rep st lines" and "unat irqnum < N_IRQ"
  shows "do_irq m call st irqnum s
    = map_option (\<lambda>(regs, x, h). (regs, x, send_eoi m irqnum h)) (run_handlers call (snd (lines (unat irqnum))) s)"
proof -
  obtain ns where "line_rep st (unat irqnum) ns (lines (unat irqnum))"
    using assms unfolding irq_rep_def by blast
  then have "irq_loop call st (iq_queue (ir_list st (unat irqnum))) s = run_handlers call (snd (lines (unat irqnum))) s"
    by (intro irq_loop_ok) (auto simp: line_rep_def is_llist_def)
  then show ?thesis using assms(2)
    by (cases "run_handlers call (snd (lines (unat irqnum))) s") (auto simp: do_irq_def send_eoi_def Let_def)
qed

text \<open>A sequence of requests with the memory that each of them gets.\<close>

record irq_req =
  rq_newh :: ptr
  rq_old :: irq_handler
  rq_node :: ptr
  rq_irq :: u16
  rq_handler :: ptr
  rq_flags :: u16
  rq_name :: "byte list"

fun request_all :: "irq_req list \<Rightarrow> irq_state \<Rightarrow> (int list \<times> irq_state) option" where
  "request_all [] st = Some ([], st)"
| "request_all (r # rs) st = do {
     (v, st1) \<leftarrow> request_irq (rq_newh r) (rq_old r) (rq_node r) (rq_irq r) (rq_handler r) (rq_flags r) (rq_name r) st;
     (vs, st2) \<leftarrow> request_all rs st1;
     Some (v # vs, st2)
   }"

fun spec_all :: "irq_req list \<Rightarrow> irq_lines \<Rightarrow> int list \<times> irq_lines" where
  "spec_all [] lines = ([], lines)"
| "spec_all (r # rs) lines =
     (let (v, lines1) = request_spec (rq_newh r) (rq_old r) (rq_irq r) (rq_handler r) (rq_flags r) (rq_name r) lines;
          (vs, lines2) = spec_all rs lines1
      in (v # vs, lines2))"

definition fresh_reqs :: "irq_req list \<Rightarrow> irq_state \<Rightarrow> bool" where
  "fresh_reqs rs st \<longleftrightarrow> NULL \<notin> dom (ir_handlers st) \<and> NULL \<notin> rq_node ` set rs
     \<and> distinct (filter (\<lambda>p. p \<noteq> NULL) (map rq_newh rs)) \<and> rq_newh ` set rs \<inter> dom (ir_handlers st) = {}
     \<and> distinct (map rq_node rs) \<and> rq_node ` set rs \<inter> dom (ir_nodes st) = {}"

lemma fresh_step: "A \<inter> D = {} \<Longrightarrow> (p \<noteq> NULL \<Longrightarrow> p \<notin> A) \<Longrightarrow> D' \<subseteq> D \<union> ({p} - {NULL}) \<Longrightarrow> A \<inter> D' = {}"
  by auto

lemma request_all_refines:
  "irq_rep st lines \<Longrightarrow> lines_ok lines \<Longrightarrow> fresh_reqs rs st
    \<Longrightarrow> \<exists>st'. request_all rs st = Some (fst (spec_all rs lines), st') \<and> irq_rep st' (snd (spec_all rs lines))
      \<and> lines_ok (snd (spec_all rs lines))"
proof (induction rs arbitrary: st lines)
  case Nil
  then show ?case by simp
next
  case (Cons r rs)
  let ?s = "request_spec (rq_newh r) (rq_old r) (rq_irq r) (rq_handler r) (rq_flags r) (rq_name r) lines"
  have "rq_newh r \<notin> dom (ir_handlers st)" "rq_node r \<noteq> NULL" "rq_node r \<notin> dom (ir_nodes st)"
    using Cons.prems(3) by (auto simp: fresh_reqs_def)
  from request_irq_refines [OF Cons.prems(1,2) this] obtain st1
    where 1: "request_irq (rq_newh r) (rq_old r) (rq_node r) (rq_irq r) (rq_handler r) (rq_flags r) (rq_name r) st = Some (fst ?s, st1)"
      "irq_rep st1 (snd ?s)" and d: "dom (ir_handlers st1) \<subseteq> dom (ir_handlers st) \<union> ({rq_newh r} - {NULL})"
      "dom (ir_nodes st1) \<subseteq> insert (rq_node r) (dom (ir_nodes st))" by blast
  note f = Cons.prems(3) [unfolded fresh_reqs_def]
  have n: "rq_newh r \<notin> rq_newh ` set rs" if "rq_newh r \<noteq> NULL" using f that by auto
  have "rq_newh ` set rs \<inter> dom (ir_handlers st) = {}" using f by auto
  then have "rq_newh ` set rs \<inter> dom (ir_handlers st1) = {}" using n d(1) by (rule fresh_step)
  moreover have "rq_node ` set rs \<inter> insert (rq_node r) (dom (ir_nodes st)) = {}" using f by auto
  then have "rq_node ` set rs \<inter> dom (ir_nodes st1) = {}" using d(2) by blast
  moreover have "NULL \<notin> dom (ir_handlers st1)" using d(1) f by (auto dest!: subsetD [OF d(1)])
  moreover have "NULL \<notin> rq_node ` set rs" "distinct (map rq_node rs)" "distinct (filter (\<lambda>p. p \<noteq> NULL) (map rq_newh rs))"
    using f by (auto split: if_splits)
  ultimately have "fresh_reqs rs st1" unfolding fresh_reqs_def by simp
  from Cons.IH [OF 1(2) request_spec_ok [OF Cons.prems(2)] this] 1(1) show ?case
    by (auto simp: case_prod_beta Let_def)
qed

text \<open>C10: After \<open>init_IRQ\<close> and any sequence of requests, every request returns what the sharing rule says (one for a
  handler that was installed), and an interrupt on a line calls exactly the handlers installed for that line, in
  the order of their registration and with their numbers, before the interrupt controllers are acknowledged.\<close>
theorem do_irq_runs_registered:
  assumes "fresh_reqs rs (init_IRQ st)"
  shows "\<exists>st'. request_all rs (init_IRQ st) = Some (fst (spec_all rs (\<lambda>_. (True, []))), st')
    \<and> (\<forall>irqnum s. do_irq m call st' irqnum s = (if unat irqnum < 16
        then map_option (\<lambda>(regs, x, h). (regs, x, send_eoi m irqnum h))
          (run_handlers call (snd (snd (spec_all rs (\<lambda>_. (True, []))) (unat irqnum))) s)
        else Some s))"
proof -
  from request_all_refines [OF irq_rep_init lines_ok_init assms] obtain st'
    where "request_all rs (init_IRQ st) = Some (fst (spec_all rs (\<lambda>_. (True, []))), st')"
      "irq_rep st' (snd (spec_all rs (\<lambda>_. (True, []))))" by blast
  then show ?thesis using do_irq_ok by (auto simp: do_irq_def)
qed

text \<open>C29: A line that was requested without sharing has one handler at most, and the handlers of every line are
  numbered from one: this holds after any sequence of requests, accepted or not.\<close>
theorem request_irq_keeps_exclusive:
  assumes "irq_rep st lines" and "lines_ok lines" and "fresh_reqs rs st"
  shows "\<exists>vs st' lines'. request_all rs st = Some (vs, st') \<and> irq_rep st' lines'
    \<and> (\<forall>i < 16. map ih_id (snd (lines' i)) = map of_nat [1..<length (snd (lines' i)) + 1]
      \<and> (iq_flags (ir_list st' i) AND 1 = 0 \<longrightarrow> length (snd (lines' i)) \<le> 1))"
proof -
  from request_all_refines [OF assms] obtain st' where r: "request_all rs st = Some (fst (spec_all rs lines), st')"
    "irq_rep st' (snd (spec_all rs lines))" "lines_ok (snd (spec_all rs lines))" by blast
  show ?thesis
    by (rule exI [of _ "fst (spec_all rs lines)"], rule exI [of _ st'], rule exI [of _ "snd (spec_all rs lines)"])
      (use r irq_repD [OF r(2)] in \<open>auto simp: lines_ok_def\<close>)
qed

definition demo_req :: "ptr \<Rightarrow> ptr \<Rightarrow> u16 \<Rightarrow> ptr \<Rightarrow> u16 \<Rightarrow> irq_req" where
  "demo_req newh node irq handler flags = \<lparr>rq_newh = newh, rq_old = \<lparr>ih_id = 0, ih_name = [], ih_handler = NULL\<rparr>,
     rq_node = node, rq_irq = irq, rq_handler = handler, rq_flags = flags, rq_name = [105]\<rparr>"

definition no_irqs :: irq_state where
  "no_irqs = \<lparr>ir_list = (\<lambda>_. \<lparr>iq_irqnum = 0, iq_flags = 0, iq_queue = NULL\<rparr>), ir_nodes = Map.empty, ir_handlers = Map.empty\<rparr>"

lemmas demo_simps = demo_req_def no_irqs_def init_IRQ_def fresh_reqs_def request_spec_def new_handler_def Let_def

abbreviation (input) demo_reqs :: "irq_req list" where
  "demo_reqs \<equiv> [demo_req 8 16 14 500 1, demo_req 24 32 14 600 0, demo_req 40 48 14 700 1]"

lemma demo_spec:
  "fresh_reqs demo_reqs (init_IRQ no_irqs)"
  "fst (spec_all demo_reqs (\<lambda>_. (True, []))) = [1, -1, 1]"
  "map (\<lambda>h. (ih_handler h, ih_id h)) (snd (snd (spec_all demo_reqs (\<lambda>_. (True, []))) 14)) = [(500, 1), (700, 2)]"
  by (simp_all add: demo_simps)

lemma unat_numeral_14: "unat (14 :: u32) = 14"
  by simp

lemma run_two_handlers:
  "map (\<lambda>h. (ih_handler h, ih_id h)) hs = [(f, i), (g, j)] \<Longrightarrow> run_handlers call hs s = do { s1 \<leftarrow> call f i s; call g j s1 }"
  by (cases "call f i s"; cases "call g j (the (call f i s))") (auto simp: map_eq_Cons_conv)

theorem do_irq_runs_registered_witness:
  "\<forall>(m :: 'h machine) (call :: ptr \<Rightarrow> u32 \<Rightarrow> pt_regs \<times> 'x \<times> 'h \<Rightarrow> (pt_regs \<times> 'x \<times> 'h) option) s. \<exists>st'. request_all demo_reqs (init_IRQ no_irqs) = Some ([1, -1, 1], st')
    \<and> do_irq m call st' 14 s = map_option (\<lambda>(regs, x, h). (regs, x, outb m 0x20 0x20 (outb m 0x20 0xA0 h)))
        (do { s1 \<leftarrow> call 500 1 s; call 700 2 s1 })"
proof (intro allI)
  fix m :: "'h machine" and call :: "ptr \<Rightarrow> u32 \<Rightarrow> pt_regs \<times> 'x \<times> 'h \<Rightarrow> (pt_regs \<times> 'x \<times> 'h) option" and s
  have "run_handlers call (snd (snd (spec_all demo_reqs (\<lambda>_. (True, []))) 14)) s = do { s1 \<leftarrow> call 500 1 s; call 700 2 s1 }"
    by (rule run_two_handlers [OF demo_spec(3)])
  then have run: "run_handlers call (snd (snd (spec_all demo_reqs (\<lambda>_. (True, []))) (unat (14 :: u32)))) s
    = do { s1 \<leftarrow> call 500 1 s; call 700 2 s1 }" by (simp only: unat_numeral_14)
  obtain st' where st': "request_all demo_reqs (init_IRQ no_irqs) = Some ([1, -1, 1], st')"
    "do_irq m call st' 14 s = (if unat (14 :: u32) < 16 then map_option (\<lambda>(regs, x, h). (regs, x, send_eoi m 14 h))
      (run_handlers call (snd (snd (spec_all demo_reqs (\<lambda>_. (True, []))) (unat (14 :: u32)))) s) else Some s)"
    using do_irq_runs_registered [OF demo_spec(1), of m call] unfolding demo_spec(2) by blast
  have d: "do_irq m call st' 14 s = map_option (\<lambda>(regs, x, h). (regs, x, send_eoi m 14 h)) (do { s1 \<leftarrow> call 500 1 s; call 700 2 s1 })"
    using st'(2) unfolding run by simp
  show "\<exists>st'. request_all demo_reqs (init_IRQ no_irqs) = Some ([1, -1, 1], st')
    \<and> do_irq m call st' 14 s = map_option (\<lambda>(regs, x, h). (regs, x, outb m 0x20 0x20 (outb m 0x20 0xA0 h)))
        (do { s1 \<leftarrow> call 500 1 s; call 700 2 s1 })"
    by (rule exI [of _ st'], rule conjI [OF st'(1)]) (unfold d send_eoi_def, simp)
qed

theorem request_irq_keeps_exclusive_witness:
  "\<exists>vs st' lines'. request_all demo_reqs (init_IRQ no_irqs) = Some (vs, st') \<and> irq_rep st' lines'
    \<and> (iq_flags (ir_list st' 14) AND 1 = 0 \<longrightarrow> length (snd (lines' 14)) \<le> 1)"
  using request_irq_keeps_exclusive [OF irq_rep_init lines_ok_init demo_spec(1)] by force

section \<open>Initialisation sequences\<close>

lemma init_PIC_trace:
  "\<exists>h'. init_PIC (traced m) (h, []) = (h', [OutB 0xFB 0x21, OutB 0xFF 0xA1, OutB 0x11 0x20, OutB 0x11 0xA0,
     OutB 0x20 0x21, OutB 0x28 0xA1, OutB 0x04 0x21, OutB 0x02 0xA1, OutB 0x03 0x21, OutB 0x03 0x21])"
  by (simp add: init_PIC_def Let_def)

lemma init_PIT_trace:
  "\<exists>h'. init_PIT (traced m) (h, []) = (h', [OutB 0x34 0x43, OutB 164 0x40, OutB 18 0x40])"
  by (simp add: init_PIT_def PIT_DIVIDER_def Let_def)

end
