(* ===== verification/Boot.thy ===== *)
theory Boot
  imports Paging Irq
begin

text \<open>
  The first stage of the kernel, \<^verbatim>\<open>arch/x86/boot/karch.c\<close>: it copies the memory map of the boot loader for \<open>init_pg\<close> and
  sets up the interrupt hardware; and the busy waiting of \<^verbatim>\<open>kernel/delay.c\<close>. The data of the boot loader is read from
  the flat memory, addresses are 32-bit words.
\<close>

section \<open>Memory map\<close>

abbreviation (input) KERNEL_ADDR_OFFSET :: u32 where "KERNEL_ADDR_OFFSET \<equiv> 0xBFF00000"

definition VIRADDR :: "u32 \<Rightarrow> u32" where
  "VIRADDR x = x + KERNEL_ADDR_OFFSET"

definition read32 :: "mem \<Rightarrow> u32 \<Rightarrow> u32" where
  "read32 m a = bytes32 (m (unat a)) (m (unat (a + 1))) (m (unat (a + 2))) (m (unat (a + 3)))"

record multiboot_info =
  mb_flags :: u32
  mb_mem_lower :: u32
  mb_mem_upper :: u32
  mb_cmdline :: "byte list"
  mb_mmap_length :: u32
  mb_mmap_addr :: u32

record boot_info =
  bi_info :: karch_info
  bi_mem_lower :: u32
  bi_cmdline :: "byte list"

text \<open>One entry of the boot loader's map, after its size field.\<close>

definition read_region :: "mem \<Rightarrow> u32 \<Rightarrow> mmap_tentry" where
  "read_region m a = \<lparr>base_addr_low = read32 m (a + 4), base_addr_high = read32 m (a + 8), length_low = read32 m (a + 12),
     length_high = read32 m (a + 16), mtype = read32 m (a + 20)\<rparr>"

partial_function (option) mmap_loop :: "mem \<Rightarrow> u32 \<Rightarrow> u32 \<Rightarrow> nat \<Rightarrow> mmap_tentry list \<Rightarrow> (nat \<times> mmap_tentry list) option" where
  "mmap_loop m mmap stop i table =
     (if mmap < stop then
        if i < length table
        then mmap_loop m (mmap + read32 m mmap + 4) stop (i + 1) (table[i := read_region m mmap])
        else None
      else Some (i, table))"

text \<open>The data that \<open>karch\<close> collects before it enables paging. The inner \<open>None\<close> is the early return when the boot
  loader is unknown or gives no memory information. \<open>table\<close> and \<open>oldcmd\<close> are what the local structure holds before;
  the counter of entries is reduced by one and stored in a byte.\<close>

definition karch_collect :: "mem \<Rightarrow> u32 \<Rightarrow> multiboot_info \<Rightarrow> mmap_tentry list \<Rightarrow> byte list \<Rightarrow> boot_info option option" where
  "karch_collect m magic mboot_info table oldcmd =
     (if magic \<noteq> 0x2BADB002 then Some None
      else if mb_flags mboot_info AND 0x0001 = 0 then Some None
      else if mb_flags mboot_info AND 0x0040 = 0 then Some None
      else do {
        (i, tab) \<leftarrow> mmap_loop m (VIRADDR (mb_mmap_addr mboot_info))
                     (VIRADDR (mb_mmap_addr mboot_info + mb_mmap_length mboot_info)) 0 table;
        let mmap_size = (ucast (of_nat i - 1 :: u32) :: byte);
        let cmdline = mb_cmdline mboot_info;
        if mb_flags mboot_info AND 0x0004 \<noteq> 0 \<and> length oldcmd < length cmdline then None
        else Some (Some \<lparr>
          bi_info = \<lparr>mem_lower = mb_mem_lower mboot_info, mem_upper = mb_mem_upper mboot_info, mmap_table = tab, mmap_size = unat mmap_size\<rparr>,
          bi_mem_lower = mb_mem_lower mboot_info,
          bi_cmdline = (if mb_flags mboot_info AND 0x0004 \<noteq> 0 then cmdline @ drop (length cmdline) oldcmd else oldcmd[0 := 0])\<rparr>)
      })"

text \<open>The set-up of the interrupt hardware, in the order of the calls.\<close>

definition karch_interrupts :: "'h machine \<Rightarrow> irq_state \<times> 'h \<Rightarrow> irq_state \<times> 'h" where
  "karch_interrupts m s =
     (let h1 = init_PIC m (snd s);
          irqs = init_IRQ (fst s);
          h2 = init_PIT m h1;
          h3 = set_picmask m 0x00 0x21 h2
      in (irqs, set_picmask m 0x00 0xA1 h3))"

section \<open>Busy waiting\<close>

text \<open>\<open>tick\<close> is what happens to the machine during one turn of a loop.\<close>

definition time_after_eq :: "u32 \<Rightarrow> u32 \<Rightarrow> bool" where
  "time_after_eq a b = (sint (a - b) \<ge> 0)"

partial_function (option) calibrate_loop :: "'h machine \<Rightarrow> ('h \<Rightarrow> 'h) \<Rightarrow> u32 \<Rightarrow> u32 \<Rightarrow> 'h \<Rightarrow> (u32 \<times> 'h) option" where
  "calibrate_loop m tick timeout bogomips h =
     (if \<not> time_after_eq (jiffies m h) timeout then calibrate_loop m tick timeout (bogomips + 1) (tick h)
      else Some (bogomips, h))"

definition calibrate_delay :: "'h machine \<Rightarrow> ('h \<Rightarrow> 'h) \<Rightarrow> 'h \<Rightarrow> (u32 \<times> 'h) option" where
  "calibrate_delay m tick h = do {
     (n, h1) \<leftarrow> calibrate_loop m tick (jiffies m h + HZ div 10) 0 h;
     Some (n div 300000, h1)
   }"

fun spin :: "('h \<Rightarrow> 'h) \<Rightarrow> nat \<Rightarrow> 'h \<Rightarrow> 'h" where
  "spin tick 0 h = h"
| "spin tick (Suc steps) h = spin tick steps (tick h)"

definition udelay_loop :: "('h \<Rightarrow> 'h) \<Rightarrow> u32 \<Rightarrow> u32 \<Rightarrow> 'h \<Rightarrow> 'h" where
  "udelay_loop tick bogomips usecs h = spin tick (unat (usecs * bogomips)) h"

definition mdelay :: "('h \<Rightarrow> 'h) \<Rightarrow> u32 \<Rightarrow> u32 \<Rightarrow> 'h \<Rightarrow> 'h" where
  "mdelay tick bogomips msecs h = udelay_loop tick bogomips (msecs * 1000) h"

section \<open>The map that is passed on\<close>

text \<open>The boot loader's map from \<open>a\<close> to \<open>e\<close>: entries with a size field, one after the other.\<close>

fun map_at :: "mem \<Rightarrow> u32 \<Rightarrow> (u32 \<times> mmap_tentry) list \<Rightarrow> u32 \<Rightarrow> bool" where
  "map_at m a [] e = (a = e)"
| "map_at m a ((s, r) # rs) e =
     (read32 m a = s \<and> read_region m a = r \<and> a < a + s + 4 \<and> map_at m (a + s + 4) rs e)"

lemma map_at_le: "map_at m a rs e \<Longrightarrow> a \<le> e \<and> (rs \<noteq> [] \<longrightarrow> a < e)"
  by (induction m a rs e rule: map_at.induct) (auto intro: order.strict_trans2)

lemma mmap_loop_ok:
  "map_at m a rs e \<Longrightarrow> i + length rs \<le> length table \<Longrightarrow>
     mmap_loop m a e i table = Some (i + length rs, take i table @ map snd rs @ drop (i + length rs) table)"
proof (induction rs arbitrary: a i table)
  case Nil
  then show ?case by (subst mmap_loop.simps) simp
next
  case (Cons r rs)
  obtain s t where r: "r = (s, t)" by (cases r)
  have a: "read32 m a = s" "read_region m a = t" "map_at m (a + s + 4) rs e" "a < e"
    using Cons.prems(1) r map_at_le [OF Cons.prems(1)] by auto
  have "i < length table" using Cons.prems(2) by simp
  then have "mmap_loop m a e i table = mmap_loop m (a + s + 4) e (i + 1) (table[i := t])"
    using a by (subst mmap_loop.simps) simp
  also have "\<dots> = Some (i + 1 + length rs, take (i + 1) (table[i := t]) @ map snd rs @ drop (i + 1 + length rs) (table[i := t]))"
    using Cons.prems(2) a(3) by (intro Cons.IH) simp_all
  finally show ?case using \<open>i < length table\<close> r by (simp add: take_Suc_conv_app_nth)
qed

text \<open>C36: The memory map of the boot loader, of one up to 40 regions whatever the sizes of its entries are, is copied
  completely and in order, but the number that is passed on is one less: the last region is ignored by
  everything that follows.\<close>
theorem karch_copies_memory_map:
  assumes "map_at m (VIRADDR (mb_mmap_addr mb)) rs (VIRADDR (mb_mmap_addr mb + mb_mmap_length mb))"
    and "1 \<le> length rs" and "length rs \<le> 40" and "length table = 40" and "length (mb_cmdline mb) \<le> length oldcmd"
    and "mb_flags mb AND 1 \<noteq> 0" and "mb_flags mb AND 0x40 \<noteq> 0"
  shows "\<exists>bi. karch_collect m 0x2BADB002 mb table oldcmd = Some (Some bi)
    \<and> take (length rs) (mmap_table (bi_info bi)) = map snd rs \<and> length (mmap_table (bi_info bi)) = 40
    \<and> mmap_size (bi_info bi) = length rs - 1 \<and> mem_upper (bi_info bi) = mb_mem_upper mb"
proof -
  have l: "mmap_loop m (VIRADDR (mb_mmap_addr mb)) (VIRADDR (mb_mmap_addr mb + mb_mmap_length mb)) 0 table
    = Some (length rs, map snd rs @ drop (length rs) table)"
    using mmap_loop_ok [OF assms(1), of 0 table] assms(3,4) by simp
  obtain n where n: "length rs = Suc n" "n < 40" using assms(2,3) by (cases "length rs") auto
  have "unat (ucast (of_nat (length rs) - 1 :: u32) :: byte) = n"
    using n unat_of_nat_small_u32 [of n] by (simp add: unsigned_ucast_eq take_bit_nat_eq_self)
  then show ?thesis using l assms(3-7) n by (simp add: karch_collect_def Let_def)
qed

definition demo_mboot :: multiboot_info where
  "demo_mboot = \<lparr>mb_flags = 0x41, mb_mem_lower = 640, mb_mem_upper = 65536, mb_cmdline = [], mb_mmap_length = 48, mb_mmap_addr = 0x100000\<rparr>"

definition demo_map :: mem where
  "demo_map = (\<lambda>a. 0)(0xC0000000 := 20, 0xC0000014 := 1, 0xC0000018 := 20, 0xC000001E := 16, 0xC000002C := 2)"

definition demo_regions :: "(u32 \<times> mmap_tentry) list" where
  "demo_regions =
     [(20, \<lparr>base_addr_low = 0, base_addr_high = 0, length_low = 0, length_high = 0, mtype = 1\<rparr>),
      (20, \<lparr>base_addr_low = 0x100000, base_addr_high = 0, length_low = 0, length_high = 0, mtype = 2\<rparr>)]"

lemma demo_map_at:
  "map_at demo_map (VIRADDR (mb_mmap_addr demo_mboot)) demo_regions (VIRADDR (mb_mmap_addr demo_mboot + mb_mmap_length demo_mboot))"
  by (simp add: demo_mboot_def VIRADDR_def demo_regions_def read32_def read_region_def demo_map_def bytes32_def)

theorem karch_copies_memory_map_witness:
  "\<exists>bi. karch_collect demo_map 0x2BADB002 demo_mboot
      (replicate 40 \<lparr>base_addr_low = 0, base_addr_high = 0, length_low = 0, length_high = 0, mtype = 0\<rparr>) (replicate 1024 0) = Some (Some bi)
    \<and> take (length demo_regions) (mmap_table (bi_info bi)) = map snd demo_regions \<and> length (mmap_table (bi_info bi)) = 40
    \<and> mmap_size (bi_info bi) = length demo_regions - 1 \<and> mem_upper (bi_info bi) = mb_mem_upper demo_mboot"
  by (rule karch_copies_memory_map [OF demo_map_at]) (simp_all add: demo_regions_def demo_mboot_def)

section \<open>How long the loops wait\<close>

lemma spin_funpow: "spin tick n h = (tick ^^ n) h"
  by (induction n arbitrary: h) (simp_all add: funpow_swap1)

text \<open>The number of turns is the product of the calibrated rate and the time as long as that fits 32 bits; the wait of
  five seconds in the main loop of the kernel does not for a rate of 859 or more.\<close>

lemma mdelay_turns:
  assumes "unat msecs * 1000 * unat bogomips < 2 ^ 32"
  shows "mdelay tick bogomips msecs h = (tick ^^ (unat msecs * 1000 * unat bogomips)) h"
proof (cases "bogomips = 0")
  case True
  then show ?thesis by (simp add: mdelay_def udelay_loop_def)
next
  case False
  then have "1 \<le> unat bogomips" using unat_gt_0 [of bogomips] by linarith
  then have "unat msecs * 1000 * 1 \<le> unat msecs * 1000 * unat bogomips" by (intro mult_le_mono2)
  then have "unat msecs * 1000 < 2 ^ 32" using assms by linarith
  then have "unat (msecs * 1000) = unat msecs * 1000" by (simp add: unat_word_ariths)
  then show ?thesis using assms by (simp add: mdelay_def udelay_loop_def spin_funpow unat_word_ariths)
qed

lemma mdelay_wraps: "mdelay tick 859 5000 h = (tick ^^ 32704) h"
  by (simp add: mdelay_def udelay_loop_def spin_funpow)

text \<open>The calibration ends because the clock goes on; it counts the turns until 25 ticks have passed.\<close>

interpretation cal: polling "\<lambda>(n, h). calibrate_loop m tick t n h" "\<lambda>(n, h). time_after_eq (jiffies m h) t"
    "\<lambda>(n, h). (n + 1, tick h)" "\<lambda>s. s" for m :: "'h machine" and tick t
  by unfold_locales (auto simp: calibrate_loop.simps [of m tick t] split: prod.splits)

lemma calibrate_delay_returns:
  assumes "time_after_eq (jiffies m ((tick ^^ n) h)) (jiffies m h + HZ div 10)"
  shows "\<exists>k \<le> n. calibrate_delay m tick h = Some (of_nat k div 300000, (tick ^^ k) h)"
proof -
  let ?f = "\<lambda>(n :: u32, h). (n + 1, tick h)"
  have f: "(?f ^^ j) (0, h) = (of_nat j, (tick ^^ j) h)" for j by (induction j) (simp_all add: add.commute)
  from assms have "case (?f ^^ n) (0, h) of (n, h') \<Rightarrow> time_after_eq (jiffies m h') (jiffies m h + HZ div 10)"
    unfolding f by simp
  from cal.returns [where m = m and tick = tick and n = n, OF this] obtain k
    where "k \<le> n" "calibrate_loop m tick (jiffies m h + HZ div 10) 0 h = Some ((?f ^^ k) (0, h))" by auto
  then show ?thesis unfolding f by (auto simp: calibrate_delay_def)
qed

end
