(* ===== verification/Keyboard.thy ===== *)
theory Keyboard
  imports Irq
begin

text \<open>
  The keyboard controller driver, \<^verbatim>\<open>drivers/char/i8042.c\<close>: the buffer between the interrupt handler, which stores
  the character of each key that goes down, and the readers. The driver wakes readers through the scheduler's
  wait queue, so its state contains the scheduler's; \<open>sleep_on\<close>, which a reader of an empty buffer calls, is the
  argument \<open>sleep\<close> because what happens until it returns includes further interrupts of this driver. Reading the buffer
  outside its 1024 elements has no result. \<open>init_8042\<close>, which also prints, is in \<open>Second_Stage\<close>.
\<close>

section \<open>Model\<close>

abbreviation (input) KEYBOARD_BUFFER_SIZE :: nat where "KEYBOARD_BUFFER_SIZE \<equiv> 1024"
abbreviation (input) WAIT_KEYBOARD_KEY :: int where "WAIT_KEYBOARD_KEY \<equiv> 40"
abbreviation (input) STATUS_PORT :: u16 where "STATUS_PORT \<equiv> 0x64"
abbreviation (input) KBD_CMD_BUF :: u16 where "KBD_CMD_BUF \<equiv> 0x64"
abbreviation (input) KBD_OUT_BUF :: u16 where "KBD_OUT_BUF \<equiv> 0x60"

record 'h kbd =
  kb_buffer :: "byte list"
  kb_write :: nat
  kb_read :: nat
  kb_avail :: u32
  kb_sched :: sched
  kb_irq :: irq_state
  kb_hw :: 'h

text \<open>The table of 128 characters; the entries that the initialiser does not give are zero.\<close>

definition scancodes2ascii :: "byte list" where
  "scancodes2ascii =
     [0, 27, 49, 50, 51, 52, 53, 54, 55, 56,
      57, 48, 45, 61, 8,
      9,
      113, 119, 101, 114,
      116, 121, 117, 105, 111, 112, 91, 93, 10,
      1,
      97, 115, 100, 102, 103, 104, 106, 107, 108, 59,
      39, 96, 0,
      92, 122, 120, 99, 118, 98, 110,
      109, 44, 46, 47, 1,
      42,
      1,
      32,
      1,
      1,
      1, 1, 1, 1, 1, 1, 1, 1,
      1,
      1,
      1,
      1,
      1,
      1,
      45,
      1,
      1,
      1,
      43,
      1,
      1,
      1,
      1,
      1,
      1, 1, 92,
      1,
      1,
      1] @ replicate 38 0"

lemma length_scancodes2ascii [simp]: "length scancodes2ascii = 128"
  by (simp add: scancodes2ascii_def)

text \<open>The two waiting loops; the deadline is stored in a signed variable and compared as a difference, so that it
  is kept as a word.\<close>

partial_function (option) wait_8042 :: "'h machine \<Rightarrow> (byte \<Rightarrow> bool) \<Rightarrow> u32 \<Rightarrow> 'h \<Rightarrow> 'h option" where
  "wait_8042 m busy timeout h =
     (if \<not> time_after (jiffies m h) timeout then
        let (status, h1) = inb m STATUS_PORT h in
        if busy status then wait_8042 m busy timeout h1 else Some h1
      else Some h)"

definition wait_read_8042 :: "'h machine \<Rightarrow> 'h \<Rightarrow> 'h option" where
  "wait_read_8042 m h = wait_8042 m (\<lambda>status. status AND 0x01 = 0) (jiffies m h + HZ div 40) h"

definition wait_write_8042 :: "'h machine \<Rightarrow> 'h \<Rightarrow> 'h option" where
  "wait_write_8042 m h = wait_8042 m (\<lambda>status. status AND 0x02 \<noteq> 0) (jiffies m h + HZ div 40) h"

definition kbc_sendcomm :: "'h machine \<Rightarrow> byte \<Rightarrow> 'h \<Rightarrow> 'h option" where
  "kbc_sendcomm m command h = do {
     h1 \<leftarrow> wait_write_8042 m h;
     wait_read_8042 m (outb m command KBD_CMD_BUF h1)
   }"

definition kbc_read :: "'h machine \<Rightarrow> 'h \<Rightarrow> byte \<times> 'h" where
  "kbc_read m h = inb m KBD_OUT_BUF h"

definition read_scancode :: "'h machine \<Rightarrow> 'h \<Rightarrow> byte \<times> 'h" where
  "read_scancode m h = kbc_read m h"

definition keyboard_handler :: "'h machine \<Rightarrow> 'h kbd \<Rightarrow> 'h kbd option" where
  "keyboard_handler m st0 =
     (let (scancode, h) = read_scancode m (kb_hw st0); st = st0\<lparr>kb_hw := h\<rparr> in
      if scancode AND 0x80 = 0 then
        let pos = (if kb_write st \<ge> KEYBOARD_BUFFER_SIZE then 0 else kb_write st);
            st1 = st\<lparr>kb_buffer := (kb_buffer st)[pos := scancodes2ascii ! unat scancode],
                     kb_write := pos + 1, kb_avail := kb_avail st + 1\<rparr>
        in do {
          s \<leftarrow> wakeup WAIT_KEYBOARD_KEY (kb_sched st1);
          Some (st1\<lparr>kb_sched := s\<rparr>)
        }
      else Some st)"

definition kbc_read_from_buffer :: "(int \<Rightarrow> 'h kbd \<Rightarrow> 'h kbd option) \<Rightarrow> 'h kbd \<Rightarrow> (byte \<times> 'h kbd) option" where
  "kbc_read_from_buffer sleep st0 = do {
     st \<leftarrow> (if kb_avail st0 = 0 then sleep WAIT_KEYBOARD_KEY st0 else Some st0);
     if kb_read st < length (kb_buffer st) then
       let key = kb_buffer st ! kb_read st in
       if kb_read st \<ge> KEYBOARD_BUFFER_SIZE then Some (key, st\<lparr>kb_read := 0\<rparr>)
       else Some (key, st\<lparr>kb_read := kb_read st + 1, kb_avail := kb_avail st - 1\<rparr>)
     else None
   }"

section \<open>Waiting for the controller\<close>

definition poll :: "'h machine \<Rightarrow> 'h \<Rightarrow> 'h" where
  "poll m h = snd (inb m STATUS_PORT h)"

text \<open>Documented behaviour of the machine: the clock goes on while the status port is read.\<close>

definition ticking :: "'h machine \<Rightarrow> bool" where
  "ticking m \<longleftrightarrow> (\<forall>h. \<exists>n. time_after (jiffies m ((poll m ^^ n) h)) (jiffies m h + HZ div 40))"

interpretation kw: polling "wait_8042 m busy t" "\<lambda>h. time_after (jiffies m h) t \<or> \<not> busy (fst (inb m STATUS_PORT h))"
    "poll m" "\<lambda>h. if time_after (jiffies m h) t then h else poll m h" for m :: "'h machine" and busy t
  by unfold_locales (subst wait_8042.simps, auto simp: poll_def split: prod.splits)

lemma wait_8042_returns:
  assumes "time_after (jiffies m ((poll m ^^ n) h)) t"
  shows "\<exists>k. wait_8042 m busy t h = Some ((poll m ^^ k) h)"
proof -
  from assms have "time_after (jiffies m ((poll m ^^ n) h)) t \<or> \<not> busy (fst (inb m STATUS_PORT ((poll m ^^ n) h)))" ..
  from kw.returns [where m = m and n = n and s = h and t = t and busy = busy, OF this] obtain k where
    "wait_8042 m busy t h = Some (if time_after (jiffies m ((poll m ^^ k) h)) t then (poll m ^^ k) h else poll m ((poll m ^^ k) h))"
    by blast
  then have "wait_8042 m busy t h = Some ((poll m ^^ k) h) \<or> wait_8042 m busy t h = Some ((poll m ^^ Suc k) h)" by simp
  then show ?thesis by blast
qed

text \<open>Sending a command to the keyboard controller ends: whatever the controller answers, the two waiting loops
  are left after finitely many readings of the status port because of their deadlines, provided that the clock
  goes on. The command is written once, and nothing else is.\<close>
theorem kbc_sendcomm_returns:
  assumes "ticking m"
  shows "\<exists>j k. kbc_sendcomm m command h = Some ((poll m ^^ k) (outb m command 0x64 ((poll m ^^ j) h)))"
proof -
  have w: "\<exists>k. wait_8042 m busy (jiffies m g + HZ div 40) g = Some ((poll m ^^ k) g)" for busy g
    using assms wait_8042_returns unfolding ticking_def by meson
  from w [of "\<lambda>status. status AND 0x02 \<noteq> 0" h] obtain j where "wait_write_8042 m h = Some ((poll m ^^ j) h)"
    by (auto simp: wait_write_8042_def)
  moreover from w [of "\<lambda>status. status AND 0x01 = 0" "outb m command 0x64 ((poll m ^^ j) h)"] obtain k
    where "wait_read_8042 m (outb m command 0x64 ((poll m ^^ j) h)) = Some ((poll m ^^ k) (outb m command 0x64 ((poll m ^^ j) h)))"
    by (auto simp: wait_read_8042_def)
  ultimately show ?thesis by (auto simp: kbc_sendcomm_def)
qed

text \<open>A machine whose controller is never ready and whose clock advances with every access.\<close>

definition stuck_kbc :: "u32 machine" where
  "stuck_kbc = \<lparr>inb = (\<lambda>p h. (0x02, h + 1)), inw = (\<lambda>p h. (0, h)), outb = (\<lambda>v p h. h), outw = (\<lambda>v p h. h),
     jiffies = (\<lambda>h. h), udelay = (\<lambda>n h. h)\<rparr>"

lemma stuck_kbc_ticking: "ticking stuck_kbc"
proof -
  have "(poll stuck_kbc ^^ n) h = h + of_nat n" for n h
    by (induction n) (simp_all add: poll_def stuck_kbc_def add.assoc)
  then have "time_after (jiffies stuck_kbc ((poll stuck_kbc ^^ 7) h)) (jiffies stuck_kbc h + HZ div 40)" for h
    by (simp add: stuck_kbc_def time_after_def)
  then show ?thesis unfolding ticking_def by blast
qed

theorem kbc_sendcomm_returns_witness:
  "\<exists>j k. kbc_sendcomm stuck_kbc 0xAE 5 = Some ((poll stuck_kbc ^^ k) (outb stuck_kbc 0xAE 0x64 ((poll stuck_kbc ^^ j) 5)))"
  by (rule kbc_sendcomm_returns [OF stuck_kbc_ticking])

section \<open>The buffer as a queue\<close>

text \<open>What happens to the driver: an interrupt of the keyboard, or a read of a key.\<close>

datatype kb_op = Interrupt | ReadKey

fun kbd_run :: "'h machine \<Rightarrow> (int \<Rightarrow> 'h kbd \<Rightarrow> 'h kbd option) \<Rightarrow> kb_op list \<Rightarrow> 'h kbd \<Rightarrow> (byte list \<times> 'h kbd) option" where
  "kbd_run m sleep [] st = Some ([], st)"
| "kbd_run m sleep (Interrupt # ops) st = do { st1 \<leftarrow> keyboard_handler m st; kbd_run m sleep ops st1 }"
| "kbd_run m sleep (ReadKey # ops) st = do {
     (key, st1) \<leftarrow> kbc_read_from_buffer sleep st;
     (keys, st2) \<leftarrow> kbd_run m sleep ops st1;
     Some (key # keys, st2)
   }"

text \<open>The contract: a queue of characters. Taking from the empty queue is outside it.\<close>

fun fifo_run :: "'h machine \<Rightarrow> kb_op list \<Rightarrow> 'h \<Rightarrow> byte list \<Rightarrow> (byte list \<times> byte list \<times> 'h) option" where
  "fifo_run m [] h q = Some ([], q, h)"
| "fifo_run m (Interrupt # ops) h q =
     (let (sc, h1) = inb m KBD_OUT_BUF h in
      fifo_run m ops h1 (if sc < 0x80 then q @ [scancodes2ascii ! unat sc] else q))"
| "fifo_run m (ReadKey # ops) h q =
     (case q of [] \<Rightarrow> None
      | key # q1 \<Rightarrow> do { (keys, q2, h2) \<leftarrow> fifo_run m ops h q1; Some (key # keys, q2, h2) })"

definition waiters_ok :: "sched \<Rightarrow> (ptr \<times> ptr) list \<Rightarrow> bool" where
  "waiters_ok s ws \<longleftrightarrow> is_llist (sc_nodes s) (sc_queues s (nat WAIT_KEYBOARD_KEY)) ws
     \<and> fst ` set ws \<inter> snd ` set ws = {} \<and> (\<forall>p \<in> snd ` set ws. sc_tasks s p \<noteq> None)"

definition kbd_rep :: "'h kbd \<Rightarrow> byte list \<Rightarrow> bool" where
  "kbd_rep st q \<longleftrightarrow> length (kb_buffer st) = KEYBOARD_BUFFER_SIZE \<and> kb_write st \<le> KEYBOARD_BUFFER_SIZE
     \<and> kb_write st = kb_read st + length q \<and> kb_avail st = of_nat (length q)
     \<and> take (length q) (drop (kb_read st) (kb_buffer st)) = q \<and> (\<exists>ws. waiters_ok (kb_sched st) ws)"

lemma waiters_ok_wakeup:
  assumes "waiters_ok s ws"
  shows "\<exists>s'. wakeup WAIT_KEYBOARD_KEY s = Some s' \<and> waiters_ok s' ws"
  using wakeup_ok [of WAIT_KEYBOARD_KEY s ws] assms by (auto simp: waiters_ok_def make_ready_def)

lemma make_code: "(sc :: byte) AND 0x80 = 0 \<longleftrightarrow> sc < 0x80"
proof -
  have "sc AND 0x80 = 0 \<longleftrightarrow> \<not> bit sc 7"
    using and_exp_eq_0_iff_not_bit [of sc 7] by simp
  also have "\<dots> \<longleftrightarrow> unat sc < 2 ^ 7"
  proof -
    have "drop_bit 7 (unat sc) = unat sc div 128" "unat sc div 128 < 2" by (simp_all add: drop_bit_eq_div less_mult_imp_div_less)
    then show ?thesis
      using bit_iff_odd [of "unat sc" 7] by (auto simp: bit_unsigned_iff odd_iff_mod_2_eq_one elim!: less_2_cases)
  qed
  also have "\<dots> \<longleftrightarrow> sc < 0x80" by (simp add: word_less_nat_alt)
  finally show ?thesis .
qed

lemma keyboard_handler_ok:
  assumes rep: "kbd_rep st q" and i: "inb m KBD_OUT_BUF (kb_hw st) = (sc, h)"
    and room: "kb_write st < KEYBOARD_BUFFER_SIZE"
  shows "\<exists>st'. keyboard_handler m st = Some st' \<and> kbd_rep st' (if sc < 0x80 then q @ [scancodes2ascii ! unat sc] else q)
    \<and> kb_hw st' = h \<and> kb_read st' = kb_read st \<and> kb_write st' \<le> kb_write st + 1"
proof (cases "sc < 0x80")
  case False
  then show ?thesis using rep i
    by (auto simp: keyboard_handler_def read_scancode_def kbc_read_def make_code kbd_rep_def)
next
  case True
  from rep obtain ws where ws: "waiters_ok (kb_sched st) ws" by (auto simp: kbd_rep_def)
  from waiters_ok_wakeup [OF ws] obtain s' where s': "wakeup WAIT_KEYBOARD_KEY (kb_sched st) = Some s'" "waiters_ok s' ws"
    by blast
  have len: "length (kb_buffer st) = KEYBOARD_BUFFER_SIZE" "kb_read st + length q = kb_write st"
    "take (length q) (drop (kb_read st) (kb_buffer st)) = q" using rep by (auto simp: kbd_rep_def)
  let ?c = "scancodes2ascii ! unat sc"
  have "take (Suc (length q)) (drop (kb_read st) ((kb_buffer st)[kb_write st := ?c])) = q @ [?c]"
    using len room by (simp add: take_Suc_conv_app_nth drop_update_swap take_update_cancel flip: len(2))
  then show ?thesis using rep i True room s'
    by (auto simp: keyboard_handler_def read_scancode_def kbc_read_def make_code kbd_rep_def Let_def)
qed

lemma kbc_read_ok:
  assumes rep: "kbd_rep st (key # q)"
  shows "\<exists>st'. kbc_read_from_buffer sleep st = Some (key, st') \<and> kbd_rep st' q
    \<and> kb_hw st' = kb_hw st \<and> kb_read st' = kb_read st + 1 \<and> kb_write st' = kb_write st"
proof -
  have len: "length (kb_buffer st) = KEYBOARD_BUFFER_SIZE" "kb_read st < KEYBOARD_BUFFER_SIZE" "length q < KEYBOARD_BUFFER_SIZE"
    "take (Suc (length q)) (drop (kb_read st) (kb_buffer st)) = key # q" using rep by (auto simp: kbd_rep_def)
  then have d: "kb_buffer st ! kb_read st = key" "take (length q) (drop (Suc (kb_read st)) (kb_buffer st)) = q"
    by (simp_all add: Cons_nth_drop_Suc [symmetric])
  have av: "kb_avail st \<noteq> 0" "kb_avail st - 1 = of_nat (length q)"
    using rep len(3) unat_of_nat_small_u32 [of "Suc (length q)"] by (auto simp: kbd_rep_def)
  then show ?thesis using rep len d by (auto simp: kbc_read_from_buffer_def kbd_rep_def Let_def)
qed

text \<open>What the readers of the keyboard rely on: a source of characters hands out those that it holds, in their order.\<close>

fun take_all :: "('s \<Rightarrow> (byte \<times> 's) option) \<Rightarrow> nat \<Rightarrow> 's \<Rightarrow> (byte list \<times> 's) option" where
  "take_all take_char 0 s = Some ([], s)"
| "take_all take_char (Suc n) s = do { (c, s1) \<leftarrow> take_char s; (cs, s2) \<leftarrow> take_all take_char n s1; Some (c # cs, s2) }"

locale char_source =
  fixes holds :: "'s \<Rightarrow> byte list \<Rightarrow> bool"
    and take_char :: "'s \<Rightarrow> (byte \<times> 's) option"
  assumes take_ok: "holds s (c # q) \<Longrightarrow> \<exists>s'. take_char s = Some (c, s') \<and> holds s' q"
begin

lemma take_all_ok: "holds s (cs @ q) \<Longrightarrow> \<exists>s'. take_all take_char (length cs) s = Some (cs, s') \<and> holds s' q"
proof (induction cs arbitrary: s)
  case (Cons c cs)
  then obtain s1 where "take_char s = Some (c, s1)" "holds s1 (cs @ q)" using take_ok [of s c "cs @ q"] by auto
  then show ?case using Cons.IH [of s1] by auto
qed simp

end

interpretation kq: char_source kbd_rep "kbc_read_from_buffer sleep" for sleep :: "int \<Rightarrow> 'h kbd \<Rightarrow> 'h kbd option"
  using kbc_read_ok by unfold_locales blast

text \<open>Reading a whole sequence of keys.\<close>

lemma kbc_read_all:
  "kbd_rep st (cs @ q) \<Longrightarrow> \<exists>st'. take_all (kbc_read_from_buffer sleep) (length cs) st = Some (cs, st') \<and> kbd_rep st' q"
  by (rule kq.take_all_ok)

definition interrupts :: "kb_op list \<Rightarrow> nat" where
  "interrupts ops = length (filter (\<lambda>x. x = Interrupt) ops)"

definition reads :: "kb_op list \<Rightarrow> nat" where
  "reads ops = length (filter (\<lambda>x. x = ReadKey) ops)"

lemma kbd_run_ok:
  assumes "kbd_rep st q" and "kb_write st + interrupts ops \<le> KEYBOARD_BUFFER_SIZE"
    and "fifo_run m ops (kb_hw st) q = Some (keys, q', h')"
  shows "\<exists>st'. kbd_run m sleep ops st = Some (keys, st') \<and> kbd_rep st' q' \<and> kb_hw st' = h'
    \<and> kb_read st' = kb_read st + reads ops"
  using assms
proof (induction m ops "kb_hw st" q arbitrary: st keys rule: fifo_run.induct)
  case (1 m q)
  then show ?case by (simp add: reads_def)
next
  case (2 m ops q)
  obtain sc h where i: "inb m KBD_OUT_BUF (kb_hw st) = (sc, h)" by (cases "inb m KBD_OUT_BUF (kb_hw st)")
  have "kb_write st < KEYBOARD_BUFFER_SIZE" using 2(3) by (simp add: interrupts_def)
  from keyboard_handler_ok [OF 2(2) i this] obtain st1 where st1: "keyboard_handler m st = Some st1"
    "kbd_rep st1 (if sc < 0x80 then q @ [scancodes2ascii ! unat sc] else q)" "h = kb_hw st1"
    "kb_read st1 = kb_read st" "kb_write st1 \<le> kb_write st + 1" by blast
  have "kb_write st1 + interrupts ops \<le> KEYBOARD_BUFFER_SIZE" using 2(3) st1(5) by (simp add: interrupts_def)
  moreover have "fifo_run m ops (kb_hw st1) (if sc < 0x80 then q @ [scancodes2ascii ! unat sc] else q) = Some (keys, q', h')"
    using 2(4) i st1(3) by simp
  moreover have "(sc, kb_hw st1) = inb m KBD_OUT_BUF (kb_hw st)" using i st1(3) by simp
  ultimately show ?case using 2(1) [OF refl _ st1(2)] st1(1,4) by (simp add: reads_def)
next
  case (3 m ops q)
  from 3(4) obtain key q1 keys1 where q: "q = key # q1" "keys = key # keys1"
    and f: "fifo_run m ops (kb_hw st) q1 = Some (keys1, q', h')"
    by (auto split: list.splits simp: bind_eq_Some_conv)
  from kbc_read_ok [OF 3(2) [unfolded q(1)], of sleep] obtain st1 where st1: "kbc_read_from_buffer sleep st = Some (key, st1)"
    "kbd_rep st1 q1" "kb_hw st = kb_hw st1" "kb_read st1 = kb_read st + 1" "kb_write st1 = kb_write st" by auto
  have "kb_write st1 + interrupts ops \<le> KEYBOARD_BUFFER_SIZE" using 3(3) st1(5) by (simp add: interrupts_def)
  from 3(1) [OF q(1) st1(3,2) this] f st1 q(2) show ?case by (auto simp: reads_def)
qed

text \<open>C13: The buffer of the keyboard driver is a queue: starting from an empty buffer at its beginning, for every
  interleaving of up to 1024 keyboard interrupts with reads that each find a key, the reads return the characters
  of the keys that went down in the order in which they did, and the break codes leave no trace, whatever the
  controller answers and whichever tasks wait for a key.\<close>
theorem keyboard_buffer_is_fifo:
  assumes "kbd_rep st []" and "kb_write st = 0" and "interrupts ops \<le> 1024"
    and "fifo_run m ops (kb_hw st) [] = Some (keys, q, h)"
  shows "\<exists>st'. kbd_run m sleep ops st = Some (keys, st') \<and> kb_hw st' = h
    \<and> take (length q) (drop (kb_read st') (kb_buffer st')) = q \<and> kb_avail st' = of_nat (length q)"
  using kbd_run_ok [OF assms(1) _ assms(4), of sleep] assms(2,3) by (auto simp: kbd_rep_def)

text \<open>The ring does not close: after 1024 keys were typed and read, the next key that goes down is stored and
  counted, but the read that follows leaves the array, because the position is compared with the size of the
  buffer only after the element has been read.\<close>
theorem keyboard_read_leaves_buffer:
  assumes "kbd_rep st []" and "kb_write st = 0" and "interrupts ops = 1024" and "reads ops = 1024"
    and "fifo_run m ops (kb_hw st) [] = Some (keys, q, h)" and "fst (inb m 0x60 h) < 0x80"
  shows "\<exists>st' st''. kbd_run m sleep ops st = Some (keys, st') \<and> keyboard_handler m st' = Some st''
    \<and> kb_avail st'' = 1 \<and> kbc_read_from_buffer sleep st'' = None"
proof -
  from kbd_run_ok [OF assms(1) _ assms(5), of sleep] assms(2-4) obtain st'
    where r: "kbd_run m sleep ops st = Some (keys, st')" "kbd_rep st' q" "kb_hw st' = h" "kb_read st' = kb_read st + 1024" by auto
  then obtain ws where ws: "waiters_ok (kb_sched st') ws" by (auto simp: kbd_rep_def)
  from waiters_ok_wakeup [OF ws] obtain s' where s': "wakeup 40 (kb_sched st') = Some s'" by blast
  have 0: "kb_read st = 0" "q = []" "length (kb_buffer st') = 1024" "kb_avail st' = 0"
    using r assms(1,2) by (auto simp: kbd_rep_def)
  show ?thesis using r s' assms(6) 0
    by (cases "inb m 0x60 h")
      (auto simp: keyboard_handler_def read_scancode_def kbc_read_def make_code kbc_read_from_buffer_def Let_def)
qed

text \<open>A keyboard on which the key \<^verbatim>\<open>q\<close> is pressed again and again.\<close>

definition q_key :: "unit machine" where
  "q_key = \<lparr>inb = (\<lambda>p h. (16, h)), inw = (\<lambda>p h. (0, h)), outb = (\<lambda>v p h. h), outw = (\<lambda>v p h. h),
     jiffies = (\<lambda>h. 0), udelay = (\<lambda>n h. h)\<rparr>"

definition kbd_start :: "unit kbd" where
  "kbd_start = \<lparr>kb_buffer = replicate 1024 0, kb_write = 0, kb_read = 0, kb_avail = 0,
     kb_sched = demo_sched TASK_RUNNING TASK_STOPPED TASK_STOPPED, kb_irq = no_irqs, kb_hw = ()\<rparr>"

lemma kbd_start_rep: "kbd_rep kbd_start []"
  by (auto simp: kbd_rep_def kbd_start_def waiters_ok_def demo_sched_def is_llist_def intro: exI [of _ "[]"])

lemma kbd_start_fields: "kb_write kbd_start = 0" "kb_hw kbd_start = ()"
  by (simp_all add: kbd_start_def)

fun press_read :: "nat \<Rightarrow> kb_op list" where
  "press_read 0 = []"
| "press_read (Suc n) = Interrupt # ReadKey # press_read n"

lemma press_read_counts: "interrupts (press_read n) = n" "reads (press_read n) = n"
  by (induction n) (simp_all add: interrupts_def reads_def)

lemma press_read_fifo: "fifo_run q_key (press_read n) () [] = Some (replicate n 113, [], ())"
  by (induction n) (simp_all add: q_key_def scancodes2ascii_def)

theorem keyboard_buffer_is_fifo_witness:
  "\<exists>st'. kbd_run q_key (\<lambda>e. Some) (press_read 1000) kbd_start = Some (replicate 1000 113, st') \<and> kb_avail st' = 0"
  using keyboard_buffer_is_fifo [OF kbd_start_rep kbd_start_fields(1), of "press_read 1000" q_key "replicate 1000 113" "[]" "()" "\<lambda>e. Some"]
  unfolding press_read_counts press_read_fifo kbd_start_fields by auto

theorem keyboard_read_leaves_buffer_witness:
  "\<exists>st' st''. kbd_run q_key (\<lambda>e. Some) (press_read 1024) kbd_start = Some (replicate 1024 113, st')
    \<and> keyboard_handler q_key st' = Some st'' \<and> kb_avail st'' = 1 \<and> kbc_read_from_buffer (\<lambda>e. Some) st'' = None"
proof (rule keyboard_read_leaves_buffer [OF kbd_start_rep kbd_start_fields(1) press_read_counts])
  show "fifo_run q_key (press_read 1024) (kb_hw kbd_start) [] = Some (replicate 1024 113, [], ())"
    unfolding kbd_start_fields by (rule press_read_fifo)
qed (simp add: q_key_def)

end
