(* ===== verification/Console.thy ===== *)
theory Console
  imports Printf Keyboard "HOL-Library.Signed_Division"
begin

text \<open>
  The console: the text screen of \<^verbatim>\<open>arch/x86/boot/video.c\<close>, the serial line of \<^verbatim>\<open>drivers/tty/serial/serial.c\<close>,
  and the system calls that read and write it, \<^verbatim>\<open>kernel/write.c\<close> and \<^verbatim>\<open>kernel/read.c\<close>. The screen is part of
  the flat memory, so that a store beyond its last cell is visible as one. The cursor is kept in unsigned bytes.
\<close>

section \<open>Text screen\<close>

abbreviation (input) VIDEO_MEM_ADDR :: ptr where "VIDEO_MEM_ADDR \<equiv> 0xB8000"
abbreviation (input) VIDEO_MEM_VIRT_ADDR :: ptr where "VIDEO_MEM_VIRT_ADDR \<equiv> 0xBFFB8000"
abbreviation (input) VIDEO_COLS :: nat where "VIDEO_COLS \<equiv> 80"
abbreviation (input) VIDEO_ROWS :: nat where "VIDEO_ROWS \<equiv> 25"

record video =
  vd_mem :: mem
  vd_base :: ptr
  vd_px :: byte
  vd_py :: byte
  vd_attr :: byte

definition set_videomem :: "ptr \<Rightarrow> video \<Rightarrow> video" where
  "set_videomem addr st =
     st\<lparr>vd_base := (if addr = VIDEO_MEM_ADDR \<or> addr = VIDEO_MEM_VIRT_ADDR then addr else VIDEO_MEM_ADDR)\<rparr>"

fun clear_cells :: "mem \<Rightarrow> ptr \<Rightarrow> nat \<Rightarrow> mem" where
  "clear_cells m p 0 = m"
| "clear_cells m p (Suc n) = clear_cells (m(p := 32, p + 1 := 0)) (p + 2) n"

definition clrscr :: "video \<Rightarrow> video" where
  "clrscr st = st\<lparr>vd_mem := clear_cells (vd_mem st) (vd_base st) (VIDEO_COLS * VIDEO_ROWS)\<rparr>"

definition gotoxy :: "byte \<Rightarrow> byte \<Rightarrow> video \<Rightarrow> video" where
  "gotoxy x y st = (if x \<le> 80 \<and> y \<le> 25 then st\<lparr>vd_px := x, vd_py := y\<rparr> else st)"

definition setattr :: "byte \<Rightarrow> video \<Rightarrow> video" where
  "setattr attr st = st\<lparr>vd_attr := attr\<rparr>"

text \<open>One row is copied cell by cell from \<open>old\<close> to \<open>new\<close>; rows 1 to 25 are copied in this order.\<close>

fun copy_cells :: "mem \<Rightarrow> ptr \<Rightarrow> ptr \<Rightarrow> nat \<Rightarrow> mem" where
  "copy_cells m old new 0 = m"
| "copy_cells m old new (Suc n) = copy_cells (m(new := m old, new + 1 := m (old + 1))) (old + 2) (new + 2) n"

fun scroll_rows :: "mem \<Rightarrow> ptr \<Rightarrow> nat \<Rightarrow> nat \<Rightarrow> mem" where
  "scroll_rows m base i 0 = m"
| "scroll_rows m base i (Suc n) =
     scroll_rows (copy_cells m (base + i * VIDEO_COLS * 2) (base + (i - 1) * VIDEO_COLS * 2) VIDEO_COLS) base (i + 1) n"

definition scroll_screen :: "video \<Rightarrow> video" where
  "scroll_screen st = st\<lparr>vd_mem := scroll_rows (vd_mem st) (vd_base st) 1 VIDEO_ROWS\<rparr>"

definition writechar :: "byte \<Rightarrow> byte \<Rightarrow> video \<Rightarrow> video" where
  "writechar ch attr st =
     (let pos = (VIDEO_COLS * unat (vd_py st) + unat (vd_px st)) * 2;
          st1 = (if vd_px st \<ge> 80
                 then let st2 = st\<lparr>vd_px := 0, vd_py := vd_py st + 1\<rparr>
                      in if vd_py st2 \<ge> 25 then (scroll_screen st2)\<lparr>vd_py := 24\<rparr> else st2
                 else st\<lparr>vd_px := vd_px st + 1\<rparr>)
      in st1\<lparr>vd_mem := (vd_mem st1)(vd_base st1 + pos := ch, vd_base st1 + pos + 1 := attr)\<rparr>)"

definition writechar_xy :: "byte \<Rightarrow> byte \<Rightarrow> byte \<Rightarrow> byte \<Rightarrow> video \<Rightarrow> video" where
  "writechar_xy ch attr x y st = writechar ch attr (gotoxy x y st)"

definition kprint_char :: "byte \<Rightarrow> video \<Rightarrow> video" where
  "kprint_char c st =
     (if c = 10 then
        let st1 = (if vd_py st \<le> 25 then
                     let st2 = st\<lparr>vd_py := vd_py st + 1\<rparr>
                     in if vd_py st2 \<ge> 25 then (scroll_screen st2)\<lparr>vd_py := 24\<rparr> else st2
                   else st)
        in st1\<lparr>vd_px := 0\<rparr>
      else if c = 13 then if vd_px st > 0 then st\<lparr>vd_px := vd_px st - 1\<rparr> else st
      else if c = 8 then
        let st1 = (if vd_px st > 0 then st\<lparr>vd_px := vd_px st - 1\<rparr> else st);
            st2 = writechar 32 (vd_attr st1) st1
        in st2\<lparr>vd_px := vd_px st2 - 1\<rparr>
      else writechar c (vd_attr st) st)"

text \<open>The string is given up to its terminating zero.\<close>

fun kprint :: "byte list \<Rightarrow> video \<Rightarrow> video" where
  "kprint [] st = st"
| "kprint (c # cs) st = kprint cs (kprint_char c st)"

section \<open>Serial line\<close>

abbreviation (input) SERIAL_PORT_COM1 :: u16 where "SERIAL_PORT_COM1 \<equiv> 0x3F8"
abbreviation (input) SERIAL_IER :: u16 where "SERIAL_IER \<equiv> 1"
abbreviation (input) SERIAL_DLL :: u16 where "SERIAL_DLL \<equiv> 0"
abbreviation (input) SERIAL_DLM :: u16 where "SERIAL_DLM \<equiv> 1"
abbreviation (input) SERIAL_LCR :: u16 where "SERIAL_LCR \<equiv> 3"
abbreviation (input) SERIAL_MCR :: u16 where "SERIAL_MCR \<equiv> 4"
abbreviation (input) SERIAL_LSR :: u16 where "SERIAL_LSR \<equiv> 5"

record serial_interface =
  si_irq :: u32
  si_serial_port :: u16
  si_io_size :: u16
  si_baud :: u32
  si_stop :: u32
  si_bits :: u32
  si_parity :: int

definition serial_out :: "'h machine \<Rightarrow> serial_interface \<Rightarrow> u16 \<Rightarrow> byte \<Rightarrow> 'h \<Rightarrow> 'h" where
  "serial_out m interface addr val h = outb m val (si_serial_port interface + addr) h"

definition serial_in :: "'h machine \<Rightarrow> serial_interface \<Rightarrow> u16 \<Rightarrow> 'h \<Rightarrow> byte \<times> 'h" where
  "serial_in m interface addr h = inb m (si_serial_port interface + addr) h"

partial_function (option) serial_read :: "'h machine \<Rightarrow> serial_interface \<Rightarrow> 'h \<Rightarrow> (byte \<times> 'h) option" where
  "serial_read m interface h =
     (let (c, h1) = serial_in m interface SERIAL_LSR h
      in if c AND 0x1E \<noteq> 0 \<or> c AND 1 = 0 then serial_read m interface h1
         else Some (serial_in m interface SERIAL_DLL h1))"

partial_function (option) serial_write :: "'h machine \<Rightarrow> serial_interface \<Rightarrow> byte \<Rightarrow> 'h \<Rightarrow> 'h option" where
  "serial_write m interface c h =
     (let (s, h1) = serial_in m interface SERIAL_LSR h
      in if s AND 0x20 = 0 then serial_write m interface c h1
         else Some (serial_out m interface SERIAL_DLL c h1))"

text \<open>\<open>baud\<close> is a signed argument and the default rate a signed constant; a division by zero has no result.\<close>

definition serial_init :: "'h machine \<Rightarrow> serial_interface \<Rightarrow> int \<Rightarrow> 'h \<Rightarrow> (int \<times> serial_interface \<times> 'h) option" where
  "serial_init m interface0 baud h0 =
     (if baud = 0 then None
      else
        let i1 = interface0\<lparr>si_serial_port := SERIAL_PORT_COM1\<rparr>;
            h1 = serial_out m i1 SERIAL_MCR 0x0F h0;
            h2 = serial_out m i1 SERIAL_IER 0x00 h1;
            i2 = i1\<lparr>si_baud := of_int (115200 sdiv baud)\<rparr>;
            h3 = serial_out m i2 SERIAL_LCR 0x83 h2;
            h4 = serial_out m i2 SERIAL_DLL (ucast (si_baud i2 AND 0xFF)) h3;
            h5 = serial_out m i2 SERIAL_DLM 0x00 h4;
            h6 = serial_out m i2 SERIAL_LCR (0x03 OR 0x00 OR 0x00) h5
        in Some (0, i2, h6))"

text \<open>The sending loop of \<open>kprintf\<close>, on the characters with their line ends (see \<open>serial_text\<close>).\<close>

fun serial_send :: "'h machine \<Rightarrow> serial_interface \<Rightarrow> byte list \<Rightarrow> 'h \<Rightarrow> 'h option" where
  "serial_send m interface [] h = Some h"
| "serial_send m interface (c # cs) h = do { h1 \<leftarrow> serial_write m interface c h; serial_send m interface cs h1 }"

section \<open>Output and the system calls\<close>

text \<open>The drivers that the console is made of. \<^verbatim>\<open>console_over_serial\<close> is set once the serial line is initialised.\<close>

record 'h tty =
  tt_kbd :: "'h kbd"
  tt_video :: video
  tt_over_serial :: bool
  tt_serial :: serial_interface

definition kprintf_out :: "'h machine \<Rightarrow> byte list \<Rightarrow> arg list \<Rightarrow> 'h tty \<Rightarrow> (nat \<times> 'h tty) option" where
  "kprintf_out m format args st = do {
     (res, out) \<leftarrow> kprintf (tt_over_serial st) format args;
     case out of
       Inl text \<Rightarrow> do {
         h \<leftarrow> serial_send m (tt_serial st) text (kb_hw (tt_kbd st));
         Some (res, st\<lparr>tt_kbd := (tt_kbd st)\<lparr>kb_hw := h\<rparr>\<rparr>)
       }
     | Inr text \<Rightarrow> Some (res, st\<lparr>tt_video := kprint text (tt_video st)\<rparr>)
   }"

abbreviation (input) KERN_DEBUG :: "byte list" where "KERN_DEBUG \<equiv> [33, 52, 33]"

text \<open>\<open>old\<close> is what the local array of 256 bytes holds before the call. Printing an array without a zero leaves it
  and has no result. The buffer of the caller is in the same memory as the screen.\<close>

definition sys_write :: "'h machine \<Rightarrow> byte list \<Rightarrow> int \<Rightarrow> ptr \<Rightarrow> u32 \<Rightarrow> 'h tty \<Rightarrow> (u32 \<times> 'h tty) option" where
  "sys_write m old fd buf count st =
     (let tmp = map (vd_mem (tt_video st)) [buf..<buf + unat count];
          buffer = (if count < 256 then tmp @ [0] @ drop (unat count + 1) old else old)
      in if fd = 1 \<and> count > 0 then
           if 0 \<in> set buffer then do {
             (res, st1) \<leftarrow> kprintf_out m (KERN_DEBUG @ [37, 115]) [AStr (takeWhile (\<lambda>c. c \<noteq> 0) buffer)] st;
             Some (count, st1)
           } else None
         else Some (count, st))"

definition sys_read :: "'h machine \<Rightarrow> (int \<Rightarrow> 'h kbd \<Rightarrow> 'h kbd option) \<Rightarrow> int \<Rightarrow> ptr \<Rightarrow> u32 \<Rightarrow> 'h tty \<Rightarrow> (int \<times> 'h tty) option" where
  "sys_read m sleep fd buf count st =
     (if fd = 0 then do {
        (key, st1) \<leftarrow>
          (if tt_over_serial st then do {
             (key, h) \<leftarrow> serial_read m (tt_serial st) (kb_hw (tt_kbd st));
             Some (key, st\<lparr>tt_kbd := (tt_kbd st)\<lparr>kb_hw := h\<rparr>\<rparr>)
           } else do {
             (key, k) \<leftarrow> kbc_read_from_buffer sleep (tt_kbd st);
             Some (key, st\<lparr>tt_kbd := k\<rparr>)
           });
        let st2 = st1\<lparr>tt_video := (tt_video st1)\<lparr>vd_mem := (vd_mem (tt_video st1))(buf := key)\<rparr>\<rparr>;
        (res, st3) \<leftarrow> kprintf_out m (KERN_DEBUG @ [37, 99]) [AWord (ucast key)] st2;
        Some (1, st3)
      } else Some (0, st))"

text \<open>The calls that only report: \<^verbatim>\<open>sys_exit %d\<close> and \<^verbatim>\<open>%s -- %s -- %s\<close>; \<^verbatim>\<open>ENOSYS\<close> is one.\<close>

definition sys_exit :: "'h machine \<Rightarrow> u32 \<Rightarrow> 'h tty \<Rightarrow> (int \<times> 'h tty) option" where
  "sys_exit m status st = do {
     (res, st1) \<leftarrow> kprintf_out m (KERN_DEBUG @ [115, 121, 115, 95, 101, 120, 105, 116, 32, 37, 100, 10]) [AWord status] st;
     Some (-1, st1)
   }"

definition sys_execve :: "'h machine \<Rightarrow> byte list \<Rightarrow> byte list \<Rightarrow> byte list \<Rightarrow> 'h tty \<Rightarrow> (int \<times> 'h tty) option" where
  "sys_execve m filename argv0 envp0 st = do {
     (res, st1) \<leftarrow> kprintf_out m (KERN_DEBUG @ [37, 115, 32, 45, 45, 32, 37, 115, 32, 45, 45, 32, 37, 115, 10])
       [AStr filename, AStr argv0, AStr envp0] st;
     Some (-1, st1)
   }"

section \<open>What the screen shows\<close>

lemma copy_cells_eq:
  "new + 2 * n \<le> old \<Longrightarrow> copy_cells m old new n a = (if new \<le> a \<and> a < new + 2 * n then m (old + (a - new)) else m a)"
proof (induction n arbitrary: m old new)
  case 0
  then show ?case by auto
next
  case (Suc n)
  consider "a = new" | "a = new + 1" | "a < new \<or> new + 2 \<le> a" by linarith
  then show ?case using Suc by cases (auto intro!: arg_cong [of _ _ m])
qed

lemma scroll_rows_eq:
  "1 \<le> i \<Longrightarrow> scroll_rows m base i n a
     = (if base + (i - 1) * 160 \<le> a \<and> a < base + (i - 1 + n) * 160 then m (a + 160) else m a)"
proof (induction n arbitrary: m i)
  case 0
  then show ?case by auto
next
  case (Suc n)
  let ?m = "copy_cells m (base + i * VIDEO_COLS * 2) (base + (i - 1) * VIDEO_COLS * 2) VIDEO_COLS"
  obtain k where k: "i = Suc k" using Suc.prems by (cases i) auto
  have c: "?m x = (if base + k * 160 \<le> x \<and> x < base + k * 160 + 160 then m (x + 160) else m x)" for x
    using copy_cells_eq [of "base + (i - 1) * VIDEO_COLS * 2" VIDEO_COLS "base + i * VIDEO_COLS * 2" m x] k
    by (auto simp: algebra_simps)
  have "scroll_rows m base i (Suc n) a = (if base + i * 160 \<le> a \<and> a < base + (i + n) * 160 then ?m (a + 160) else ?m a)"
    using Suc.IH [of "i + 1" ?m] by simp
  then show ?case unfolding c using k by (auto simp: algebra_simps)
qed

lemma scroll_screen_mem:
  "vd_mem (scroll_screen st) a = (if vd_base st \<le> a \<and> a < vd_base st + 4000 then vd_mem st (a + 160) else vd_mem st a)"
  using scroll_rows_eq [of 1 "vd_mem st" "vd_base st" 25 a] by (simp add: scroll_screen_def)

lemma scroll_screen_fields [simp]:
  "vd_base (scroll_screen st) = vd_base st" "vd_px (scroll_screen st) = vd_px st" "vd_py (scroll_screen st) = vd_py st"
  "vd_attr (scroll_screen st) = vd_attr st"
  by (simp_all add: scroll_screen_def)

text \<open>The character and the attribute in row \<open>r\<close> and column \<open>c\<close>.\<close>

definition cell :: "video \<Rightarrow> nat \<Rightarrow> nat \<Rightarrow> byte \<times> byte" where
  "cell st r c = (vd_mem st (vd_base st + (80 * r + c) * 2), vd_mem st (vd_base st + (80 * r + c) * 2 + 1))"

text \<open>Scrolling moves every row of the screen up by one and changes nothing else; the last row shows what the memory
  behind the screen holds, it is not cleared.\<close>
theorem scroll_screen_moves_rows:
  "cell (scroll_screen st) r c = (if 80 * r + c < 2000 then cell st (r + 1) c else cell st r c)"
  by (auto simp: cell_def scroll_screen_mem algebra_simps)

definition cursor_ok :: "video \<Rightarrow> bool" where
  "cursor_ok st \<longleftrightarrow> vd_px st \<le> 80 \<and> vd_py st \<le> 24"

definition plain :: "byte list \<Rightarrow> bool" where
  "plain s \<longleftrightarrow> set s \<inter> {0, 8, 10, 13} = {}"

lemma byte_less_Suc: "(b :: byte) < 80 \<Longrightarrow> unat (b + 1) = unat b + 1 \<and> unat b < 80"
  by (simp add: word_less_nat_alt unat_word_ariths)

lemma writechar_row:
  "vd_px st < 80 \<Longrightarrow> writechar ch attr st = st\<lparr>vd_px := vd_px st + 1,
     vd_mem := (vd_mem st)(vd_base st + (80 * unat (vd_py st) + unat (vd_px st)) * 2 := ch,
       vd_base st + (80 * unat (vd_py st) + unat (vd_px st)) * 2 + 1 := attr)\<rparr>"
  by (simp add: writechar_def Let_def)

lemma cell_index:
  fixes r c y x :: nat
  assumes "c < 80" and "x < 80"
  shows "80 * r + c = 80 * y + x \<longleftrightarrow> r = y \<and> c = x"
proof
  assume e: "80 * r + c = 80 * y + x"
  have "r = (80 * r + c) div 80" "y = (80 * y + x) div 80" using assms by simp_all
  then show "r = y \<and> c = x" using e by simp
qed simp

lemma store_cell:
  fixes i j :: nat
  shows "(m(b + j * 2 := x, b + j * 2 + 1 := y)) (b + i * 2) = (if i = j then x else m (b + i * 2))"
    and "(m(b + j * 2 := x, b + j * 2 + 1 := y)) (b + i * 2 + 1) = (if i = j then y else m (b + i * 2 + 1))"
proof -
  have "i * 2 \<noteq> Suc (j * 2)" "Suc (i * 2) \<noteq> j * 2" by presburger+
  then show "(m(b + j * 2 := x, b + j * 2 + 1 := y)) (b + i * 2) = (if i = j then x else m (b + i * 2))"
    "(m(b + j * 2 := x, b + j * 2 + 1 := y)) (b + i * 2 + 1) = (if i = j then y else m (b + i * 2 + 1))" by simp_all
qed

lemma writechar_row_cell:
  assumes "vd_px st < 80" and "c < 80"
  shows "cell (writechar ch attr st) r c = (if r = unat (vd_py st) \<and> c = unat (vd_px st) then (ch, attr) else cell st r c)"
proof -
  have p: "unat (vd_px st) < 80" using assms(1) by (simp add: word_less_nat_alt)
  have m: "vd_mem (writechar ch attr st) = (vd_mem st)(vd_base st + (80 * unat (vd_py st) + unat (vd_px st)) * 2 := ch,
      vd_base st + (80 * unat (vd_py st) + unat (vd_px st)) * 2 + 1 := attr)" "vd_base (writechar ch attr st) = vd_base st"
    by (simp_all add: writechar_row [OF assms(1)])
  show ?thesis unfolding cell_def m store_cell cell_index [OF assms(2) p] by simp
qed

lemma kprint_plain_char: "plain [c] \<Longrightarrow> kprint_char c st = writechar c (vd_attr st) st"
  by (simp add: kprint_char_def plain_def)

lemma writechar_row_fields:
  "vd_px st < 80 \<Longrightarrow> unat (vd_px (writechar ch attr st)) = unat (vd_px st) + 1 \<and> vd_py (writechar ch attr st) = vd_py st
     \<and> vd_attr (writechar ch attr st) = vd_attr st \<and> vd_base (writechar ch attr st) = vd_base st"
  using byte_less_Suc [of "vd_px st"] by (simp add: writechar_row)

lemma kprint_row:
  assumes "plain s" and "unat (vd_px st) + length s \<le> 80"
  shows "unat (vd_px (kprint s st)) = unat (vd_px st) + length s \<and> vd_py (kprint s st) = vd_py st
    \<and> vd_attr (kprint s st) = vd_attr st \<and> vd_base (kprint s st) = vd_base st
    \<and> (\<forall>r. \<forall>c < 80. cell (kprint s st) r c = (if r = unat (vd_py st) \<and> unat (vd_px st) \<le> c \<and> c < unat (vd_px st) + length s
          then (s ! (c - unat (vd_px st)), vd_attr st) else cell st r c))"
  using assms
proof (induction s arbitrary: st)
  case Nil
  then show ?case by auto
next
  case (Cons x s)
  let ?st = "writechar x (vd_attr st) st"
  have px: "vd_px st < 80" using Cons.prems(2) by (simp add: word_less_nat_alt)
  note f = writechar_row_fields [OF px, of x "vd_attr st"]
  have k: "kprint (x # s) st = kprint s ?st" using Cons.prems(1) kprint_plain_char [of x st] by (simp add: plain_def)
  have IH: "unat (vd_px (kprint s ?st)) = unat (vd_px ?st) + length s \<and> vd_py (kprint s ?st) = vd_py ?st
    \<and> vd_attr (kprint s ?st) = vd_attr ?st \<and> vd_base (kprint s ?st) = vd_base ?st
    \<and> (\<forall>r. \<forall>c < 80. cell (kprint s ?st) r c = (if r = unat (vd_py ?st) \<and> unat (vd_px ?st) \<le> c \<and> c < unat (vd_px ?st) + length s
          then (s ! (c - unat (vd_px ?st)), vd_attr ?st) else cell ?st r c))"
    using Cons.prems f by (intro Cons.IH) (auto simp: plain_def)
  have "cell (kprint s ?st) r c = (if r = unat (vd_py st) \<and> unat (vd_px st) \<le> c \<and> c < unat (vd_px st) + length (x # s)
          then ((x # s) ! (c - unat (vd_px st)), vd_attr st) else cell st r c)" if c: "c < 80" for r c
    using IH f writechar_row_cell [OF px c, of x "vd_attr st" r] c by (auto simp: nth_Cons')
  then show ?case unfolding k using IH f by auto
qed

text \<open>Text without control characters that fits the rest of the line is shown in the cells from the cursor on, in
  the current attribute; the cursor ends after it and no other cell of any row changes.\<close>
theorem kprint_shows_text:
  assumes "plain s" and "unat (vd_px st) + length s \<le> 80"
  shows "unat (vd_px (kprint s st)) = unat (vd_px st) + length s \<and> vd_py (kprint s st) = vd_py st
    \<and> (\<forall>r. \<forall>c < 80. cell (kprint s st) r c = (if r = unat (vd_py st) \<and> unat (vd_px st) \<le> c \<and> c < unat (vd_px st) + length s
          then (s ! (c - unat (vd_px st)), vd_attr st) else cell st r c))"
  using kprint_row [OF assms] by blast

definition blank_screen :: video where
  "blank_screen = clrscr \<lparr>vd_mem = (\<lambda>a. 0), vd_base = 0xB8000, vd_px = 0, vd_py = 0, vd_attr = 7\<rparr>"

lemma blank_fields [simp]: "vd_px blank_screen = 0" "vd_py blank_screen = 0" "vd_attr blank_screen = 7" "vd_base blank_screen = 0xB8000"
  by (simp_all add: blank_screen_def clrscr_def)

theorem kprint_shows_text_witness:
  "cell (kprint [72, 105] blank_screen) 0 0 = (72, 7) \<and> cell (kprint [72, 105] blank_screen) 0 1 = (105, 7)
   \<and> cell (kprint [72, 105] blank_screen) 3 0 = cell blank_screen 3 0"
  using kprint_shows_text [of "[72, 105]" blank_screen] by (auto simp: plain_def)

lemma kprint_append: "kprint (s @ t) st = kprint t (kprint s st)"
  by (induction s arbitrary: st) auto

text \<open>A character is lost at every line end: the character that is printed when the line is full leaves no trace
  at all, because it is stored at the place of the first cell of the next line, where the following character
  goes as well.\<close>
theorem line_end_loses_character:
  assumes "plain s" and "unat (vd_px st) + length s = 80" and "vd_py st < 24" and "plain [a, b, c]"
  shows "kprint (s @ [a, b]) st = kprint (s @ [c, b]) st"
proof -
  let ?st = "kprint s st"
  have k: "unat (vd_px ?st) = 80" "vd_py ?st = vd_py st" using kprint_row [OF assms(1)] assms(2) by auto
  have px: "vd_px ?st = 80" using k(1) by (simp add: word_unat_eq_iff)
  have py: "\<not> 25 \<le> vd_py st + 1" "unat (vd_py st + 1) = unat (vd_py st) + 1"
    using assms(3) by (simp_all add: word_less_nat_alt word_le_nat_alt unat_word_ariths)
  have "kprint [x, b] ?st = ?st\<lparr>vd_px := 1, vd_py := vd_py st + 1,
      vd_mem := (vd_mem ?st)(vd_base ?st + (80 * unat (vd_py st) + 80) * 2 := b,
        vd_base ?st + (80 * unat (vd_py st) + 80) * 2 + 1 := vd_attr ?st)\<rparr>" if "plain [x]" for x
    using that assms(4) px py k(2) kprint_plain_char [of x] kprint_plain_char [of b]
    by (simp add: writechar_def Let_def plain_def fun_upd_twist) (auto simp: fun_eq_iff)
  then show ?thesis using assms(4) by (simp add: kprint_append plain_def)
qed

theorem line_end_loses_character_witness:
  "kprint (replicate 80 65 @ [66, 67]) blank_screen = kprint (replicate 80 65 @ [68, 67]) blank_screen"
  by (rule line_end_loses_character) (simp_all add: plain_def)

lemma byte_Suc_le: "(b :: byte) \<le> 24 \<Longrightarrow> b + 1 \<le> 25 \<and> (\<not> 25 \<le> b + 1 \<longrightarrow> b + 1 \<le> 24)"
  by (simp add: word_le_nat_alt unat_word_ariths)

lemma writechar_cursor:
  assumes "cursor_ok st"
  shows "cursor_ok (writechar ch attr st) \<and> vd_base (writechar ch attr st) = vd_base st
    \<and> (\<forall>a. a < vd_base st \<or> vd_base st + 4002 \<le> a \<longrightarrow> vd_mem (writechar ch attr st) a = vd_mem st a)"
proof (cases "vd_px st < 80")
  case True
  have "unat (vd_px st) \<le> 80" "unat (vd_py st) \<le> 24" using assms by (simp_all add: cursor_ok_def word_le_nat_alt)
  then show ?thesis using assms True byte_less_Suc [OF True]
    by (auto simp: writechar_row [OF True] cursor_ok_def word_le_nat_alt)
next
  case False
  have "unat (vd_px st) \<le> 80" "unat (vd_py st) \<le> 24" using assms by (simp_all add: cursor_ok_def word_le_nat_alt)
  then show ?thesis using assms False byte_Suc_le [of "vd_py st"]
    by (auto simp: writechar_def cursor_ok_def Let_def scroll_screen_mem)
qed

lemma kprint_char_cursor:
  assumes "cursor_ok st"
  shows "cursor_ok (kprint_char c st) \<and> vd_base (kprint_char c st) = vd_base st
    \<and> (\<forall>a. a < vd_base st \<or> vd_base st + 4002 \<le> a \<longrightarrow> vd_mem (kprint_char c st) a = vd_mem st a)"
proof -
  let ?st = "if vd_px st > 0 then st\<lparr>vd_px := vd_px st - 1\<rparr> else st"
  have bk: "vd_px st > 0 \<Longrightarrow> vd_px st - 1 < 80"
    using assms by (simp add: cursor_ok_def word_less_nat_alt word_le_nat_alt unat_word_ariths unat_sub_if') linarith
  then have ok: "cursor_ok ?st" "vd_px ?st < 80" using assms by (auto simp: cursor_ok_def not_less)
  have px: "vd_px (writechar x a ?st) - 1 = vd_px ?st" for x a by (simp add: writechar_row [OF ok(2)])
  have py: "vd_py st \<le> 25" "vd_py st \<le> 24" using assms by (auto simp: cursor_ok_def word_le_nat_alt)
  consider "c = 10" | "c = 13" | "c = 8" | "c \<noteq> 10" "c \<noteq> 13" "c \<noteq> 8" by blast
  then show ?thesis
  proof cases
    case 1
    then show ?thesis using assms byte_Suc_le [OF py(2)] py
      by (auto simp: kprint_char_def cursor_ok_def Let_def scroll_screen_mem)
  next
    case 2
    then show ?thesis using assms ok by (auto simp: kprint_char_def cursor_ok_def)
  next
    case 3
    have "cursor_ok ((writechar 32 (vd_attr ?st) ?st)\<lparr>vd_px := vd_px ?st\<rparr>)"
      using writechar_cursor [OF ok(1), of 32 "vd_attr ?st"] ok by (simp add: cursor_ok_def)
    moreover have "vd_base ?st = vd_base st" "vd_mem ?st = vd_mem st" by simp_all
    moreover have "kprint_char c st = (writechar 32 (vd_attr ?st) ?st)\<lparr>vd_px := vd_px ?st\<rparr>"
      unfolding kprint_char_def Let_def using 3 px by simp
    ultimately show ?thesis using writechar_cursor [OF ok(1), of 32 "vd_attr ?st"] by simp
  next
    case 4
    then show ?thesis using writechar_cursor [OF assms, of c "vd_attr st"] by (simp add: kprint_char_def)
  qed
qed

text \<open>C37: Whatever is printed, control characters included, the cursor stays within 81 columns and 25 rows, and memory is
  changed at most in the 4000 bytes of the screen and in the two bytes after them.\<close>
theorem kprint_stays_on_screen:
  assumes "cursor_ok st"
  shows "cursor_ok (kprint s st) \<and> (\<forall>a. a < vd_base st \<or> vd_base st + 4002 \<le> a \<longrightarrow> vd_mem (kprint s st) a = vd_mem st a)"
proof -
  have "cursor_ok (kprint s st) \<and> vd_base (kprint s st) = vd_base st
    \<and> (\<forall>a. a < vd_base st \<or> vd_base st + 4002 \<le> a \<longrightarrow> vd_mem (kprint s st) a = vd_mem st a)"
    using assms
  proof (induction s arbitrary: st)
    case (Cons c s)
    then show ?case using kprint_char_cursor [OF Cons.prems, of c] by simp
  qed simp
  then show ?thesis by blast
qed

theorem kprint_stays_on_screen_witness:
  "cursor_ok (kprint (replicate 3000 65) blank_screen) \<and> vd_mem (kprint (replicate 3000 65) blank_screen) 0xB8FA2 = vd_mem blank_screen 0xB8FA2"
proof -
  have "cursor_ok blank_screen" by (simp add: cursor_ok_def)
  from kprint_stays_on_screen [OF this, of "replicate 3000 65"] show ?thesis by simp
qed

text \<open>Printing a character and a backspace leaves a blank at the cursor and the cursor where it was.\<close>

lemma kprint_backspace:
  assumes "plain [c]" and "vd_px st < 80"
  shows "kprint [c, 8] st = (writechar 32 (vd_attr st) st)\<lparr>vd_px := vd_px st\<rparr>"
proof -
  have "vd_px st + 1 > 0" using byte_less_Suc [OF assms(2)] by (simp add: word_less_nat_alt)
  then show ?thesis using assms kprint_plain_char [OF assms(1)]
    by (simp add: kprint_char_def writechar_row Let_def)
qed

section \<open>Serial output\<close>

text \<open>Documented behaviour of the serial controller: its transmitter becomes empty after some readings of the status.\<close>

definition uart_ready :: "'h machine \<Rightarrow> u16 \<Rightarrow> bool" where
  "uart_ready m port \<longleftrightarrow>
     (\<forall>h. \<exists>n. fst (inb m (port + 5) (((\<lambda>h. snd (inb m (port + 5) h)) ^^ n) h)) AND 0x20 \<noteq> 0)"

abbreviation (input) status_poll :: "'h machine \<Rightarrow> serial_interface \<Rightarrow> 'h \<Rightarrow> 'h" where
  "status_poll m i \<equiv> \<lambda>h. snd (serial_in m i SERIAL_LSR h)"

interpretation sw: polling "serial_write m i c" "\<lambda>h. fst (serial_in m i SERIAL_LSR h) AND 0x20 \<noteq> 0" "status_poll m i"
    "\<lambda>h. serial_out m i SERIAL_DLL c (snd (serial_in m i SERIAL_LSR h))" for m :: "'h machine" and i c
  by unfold_locales (subst serial_write.simps, auto split: prod.splits)

interpretation sr: polling "serial_read m i"
    "\<lambda>h. fst (serial_in m i SERIAL_LSR h) AND 0x1E = 0 \<and> fst (serial_in m i SERIAL_LSR h) AND 1 \<noteq> 0" "status_poll m i"
    "\<lambda>h. serial_in m i SERIAL_DLL (snd (serial_in m i SERIAL_LSR h))" for m :: "'h machine" and i
  by unfold_locales (subst serial_read.simps, auto split: prod.splits)

text \<open>Reading a character: the data register is read as soon as the line status announces a character without an error.\<close>

lemma serial_read_returns:
  assumes "fst (serial_in m i SERIAL_LSR ((status_poll m i ^^ n) h)) AND 0x1E = 0 \<and> fst (serial_in m i SERIAL_LSR ((status_poll m i ^^ n) h)) AND 1 \<noteq> 0"
  shows "\<exists>k \<le> n. serial_read m i h = Some (serial_in m i SERIAL_DLL ((status_poll m i ^^ Suc k) h))"
  using sr.returns [where m = m and i = i and n = n and s = h, OF assms] by auto

lemma status_poll_traced:
  "(status_poll (traced m) i ^^ n) (h, tr) = (((\<lambda>h. snd (inb m (si_serial_port i + 5) h)) ^^ n) h, tr)"
  by (induction n) (simp_all add: serial_in_def)

lemma serial_write_returns:
  assumes "fst (inb m (si_serial_port i + 5) (((\<lambda>h. snd (inb m (si_serial_port i + 5) h)) ^^ n) h)) AND 0x20 \<noteq> 0"
  shows "\<exists>h'. serial_write (traced m) i c (h, tr) = Some (h', tr @ [OutB c (si_serial_port i)])"
proof -
  have "fst (serial_in (traced m) i SERIAL_LSR ((status_poll (traced m) i ^^ n) (h, tr))) AND 0x20 \<noteq> 0"
    unfolding status_poll_traced using assms by (simp add: serial_in_def)
  from sw.returns [where m = "traced m" and i = i and n = n and s = "(h, tr)", OF this, of c] obtain k where
    "serial_write (traced m) i c (h, tr)
      = Some (serial_out (traced m) i SERIAL_DLL c (snd (serial_in (traced m) i SERIAL_LSR ((status_poll (traced m) i ^^ k) (h, tr)))))"
    by blast
  then show ?thesis unfolding status_poll_traced by (simp add: serial_in_def serial_out_def)
qed

lemma serial_send_trace:
  assumes "uart_ready m (si_serial_port i)"
  shows "\<exists>h'. serial_send (traced m) i cs (h, tr) = Some (h', tr @ map (\<lambda>c. OutB c (si_serial_port i)) cs)"
proof (induction cs arbitrary: h tr)
  case Nil
  then show ?case by simp
next
  case (Cons c cs)
  obtain h1 where "serial_write (traced m) i c (h, tr) = Some (h1, tr @ [OutB c (si_serial_port i)])"
    using serial_write_returns assms unfolding uart_ready_def by metis
  then show ?case using Cons.IH [of h1 "tr @ [OutB c (si_serial_port i)]"] by auto
qed

section \<open>The system calls\<close>

lemma vsprintf_string: "vsprintf [37, 115] [AStr s] = Some (length s, s)"
  using vsprintf_loop_string [of "[]" 0 s "[]" "[]"] by (simp add: vsprintf_def)

lemma kprintf_string:
  assumes "0 \<notin> set s" and "length s < 1024"
  shows "kprintf serial (KERN_DEBUG @ [37, 115]) [AStr s] = Some (length s, if serial then Inl (serial_text s) else Inr s)"
proof -
  have "takeWhile (\<lambda>c. c \<noteq> 0) s = s" using assms(1) by (intro takeWhile_eq_all_conv [THEN iffD2]) auto
  then show ?thesis using assms(2) by (simp add: kprintf_def vsprintf_string del: takeWhile_eq_all_conv)
qed

lemma sys_write_text:
  assumes "count < 256" and "0 < count" and s: "s = map (vd_mem (tt_video st)) [buf..<buf + unat count]" "0 \<notin> set s"
  shows "sys_write m old 1 buf count st = map_option (\<lambda>(res, st'). (count, st')) (kprintf_out m (KERN_DEBUG @ [37, 115]) [AStr s] st)"
proof -
  have "takeWhile (\<lambda>c. c \<noteq> 0) (s @ [0] @ drop (unat count + 1) old) = s"
    using s(2) by (subst takeWhile_append2) auto
  then show ?thesis using assms(1,2) unfolding sys_write_def Let_def s(1) [symmetric]
    by (cases "kprintf_out m (KERN_DEBUG @ [37, 115]) [AStr s] st") auto
qed

text \<open>C18: Writing to the screen: a write of less than 256 characters of plain text to descriptor one, with room for them
  on the line, returns their number and shows exactly them at the cursor. They go through the formatted output
  of the kernel.\<close>
theorem sys_write_shows_text:
  assumes "s = map (vd_mem (tt_video st)) [buf..<buf + unat count]" and "count < 256" and "0 < count" and "plain s"
    and "\<not> tt_over_serial st" and "unat (vd_px (tt_video st)) + unat count \<le> 80"
  shows "\<exists>st'. sys_write m old 1 buf count st = Some (count, st')
    \<and> (\<forall>i < unat count. cell (tt_video st') (unat (vd_py (tt_video st))) (unat (vd_px (tt_video st)) + i) = (s ! i, vd_attr (tt_video st)))
    \<and> (\<forall>r. \<forall>c < 80. r \<noteq> unat (vd_py (tt_video st)) \<longrightarrow> cell (tt_video st') r c = cell (tt_video st) r c)"
proof -
  have z: "0 \<notin> set s" using assms(4) by (auto simp: plain_def)
  have len: "length s = unat count" using assms(1) by simp
  have k: "kprintf_out m (KERN_DEBUG @ [37, 115]) [AStr s] st = Some (length s, st\<lparr>tt_video := kprint s (tt_video st)\<rparr>)"
    using kprintf_string [OF z] len assms(2,5) by (simp add: kprintf_out_def word_less_nat_alt)
  then show ?thesis using sys_write_text [OF assms(2,3,1) z, of m old] kprint_row [OF assms(4), of "tt_video st"] len assms(6)
    by auto
qed

text \<open>Writing to the serial console: the characters are sent to the data port in order, each line feed after a
  carriage return, and nothing else is sent, whatever the controller answers while it is polled.\<close>
theorem sys_write_sends_text:
  assumes "s = map (vd_mem (tt_video st)) [buf..<buf + unat count]" and "count < 256" and "0 < count" and "0 \<notin> set s"
    and "tt_over_serial st" and "kb_hw (tt_kbd st) = (h, tr)" and "uart_ready m (si_serial_port (tt_serial st))"
  shows "\<exists>st' h'. sys_write (traced m) old 1 buf count st = Some (count, st') \<and> tt_video st' = tt_video st
    \<and> kb_hw (tt_kbd st') = (h', tr @ map (\<lambda>c. OutB c (si_serial_port (tt_serial st))) (concat (map (\<lambda>c. if c = 10 then [13, 10] else [c]) s)))"
proof -
  have len: "length s = unat count" using assms(1) by simp
  have t: "serial_text s = concat (map (\<lambda>c. if c = 10 then [13, 10] else [c]) s)" by (induction s) auto
  from serial_send_trace [OF assms(7), of "serial_text s" h tr] obtain h'
    where "serial_send (traced m) (tt_serial st) (serial_text s) (h, tr)
      = Some (h', tr @ map (\<lambda>c. OutB c (si_serial_port (tt_serial st))) (serial_text s))" by blast
  then have "kprintf_out (traced m) (KERN_DEBUG @ [37, 115]) [AStr s] st = Some (length s, st\<lparr>tt_kbd := (tt_kbd st)\<lparr>kb_hw :=
      (h', tr @ map (\<lambda>c. OutB c (si_serial_port (tt_serial st))) (serial_text s))\<rparr>\<rparr>)"
    using kprintf_string [OF assms(4)] len assms(2,5,6) by (simp add: kprintf_out_def word_less_nat_alt)
  then show ?thesis using sys_write_text [OF assms(2,3,1,4), of "traced m" old] t by auto
qed

text \<open>A write of 256 bytes or more does not print them: what is printed is whatever the uninitialised local array
  holds, independent of the caller's data, and the full count is returned.\<close>
theorem sys_write_long_ignores_data:
  assumes "count \<ge> 256" and "0 \<in> set old" and "length old = 256" and "\<not> tt_over_serial st"
  shows "sys_write m old 1 buf count st
    = Some (count, st\<lparr>tt_video := kprint (takeWhile (\<lambda>c. c \<noteq> 0) old) (tt_video st)\<rparr>)"
proof -
  let ?s = "takeWhile (\<lambda>c. c \<noteq> 0) old"
  have "length ?s < 1024" using assms(3) length_takeWhile_le [of "\<lambda>c. c \<noteq> 0" old] by linarith
  moreover have "0 \<notin> set ?s" by (auto dest: set_takeWhileD)
  ultimately have "kprintf_out m (KERN_DEBUG @ [37, 115]) [AStr ?s] st = Some (length ?s, st\<lparr>tt_video := kprint ?s (tt_video st)\<rparr>)"
    using kprintf_string assms(4) by (simp add: kprintf_out_def)
  moreover have "0 < count" using assms(1) by (simp add: word_less_nat_alt word_le_nat_alt)
  moreover have "\<not> count < 256" using assms(1) by simp
  ultimately show ?thesis using assms(2) by (simp add: sys_write_def)
qed

definition demo_tty :: "bool \<Rightarrow> (unit \<times> io_event list) tty" where
  "demo_tty serial = \<lparr>tt_kbd = \<lparr>kb_buffer = [], kb_write = 0, kb_read = 0, kb_avail = 0,
       kb_sched = demo_sched TASK_RUNNING TASK_STOPPED TASK_STOPPED, kb_irq = no_irqs, kb_hw = ((), [])\<rparr>,
     tt_video = \<lparr>vd_mem = (\<lambda>a. 0)(100 := 72, 101 := 10), vd_base = 0xB8000, vd_px = 3, vd_py = 2, vd_attr = 7\<rparr>,
     tt_over_serial = serial, tt_serial = \<lparr>si_irq = 0, si_serial_port = 0x3F8, si_io_size = 0, si_baud = 1, si_stop = 0,
       si_bits = 0, si_parity = 0\<rparr>\<rparr>"

definition idle_uart :: "unit machine" where
  "idle_uart = \<lparr>inb = (\<lambda>p h. (0x20, h)), inw = (\<lambda>p h. (0, h)), outb = (\<lambda>v p h. h), outw = (\<lambda>v p h. h),
     jiffies = (\<lambda>h. 0), udelay = (\<lambda>n h. h)\<rparr>"

lemma demo_buffer: "map (vd_mem (tt_video (demo_tty b))) [100..<100 + unat (2 :: u32)] = [72, 10]"
  by (simp add: demo_tty_def upt_rec)

theorem sys_write_shows_text_witness:
  "\<exists>st'. sys_write (traced idle_uart) [] 1 100 1 (demo_tty False) = Some (1, st') \<and> cell (tt_video st') 2 3 = (72, 7)"
  using sys_write_shows_text [of "[72]" "demo_tty False" 100 1 "traced idle_uart" "[]"]
  by (auto simp: demo_tty_def plain_def)

theorem sys_write_sends_text_witness:
  "\<exists>st' h'. sys_write (traced idle_uart) [] 1 100 2 (demo_tty True) = Some (2, st')
    \<and> kb_hw (tt_kbd st') = (h', [OutB 72 0x3F8, OutB 13 0x3F8, OutB 10 0x3F8])"
proof -
  have "uart_ready idle_uart 0x3F8" by (simp add: uart_ready_def idle_uart_def)
  then show ?thesis
    using sys_write_sends_text [of "[72, 10]" "demo_tty True" 100 2 "()" "[]" idle_uart "[]"] demo_buffer
    by (auto simp: demo_tty_def)
qed

theorem sys_write_long_ignores_data_witness:
  "sys_write (traced idle_uart) (88 # replicate 255 0) 1 100 300 (demo_tty False)
    = Some (300, (demo_tty False)\<lparr>tt_video := kprint [88] (tt_video (demo_tty False))\<rparr>)"
proof -
  have "takeWhile (\<lambda>c. c \<noteq> 0) (88 # replicate 255 0) = [88 :: byte]" by simp
  moreover have "\<not> tt_over_serial (demo_tty False)" by (simp add: demo_tty_def)
  ultimately show ?thesis
    using sys_write_long_ignores_data [of 300 "88 # replicate 255 0" "demo_tty False" "traced idle_uart" 100] by simp
qed

end
