(* ===== verification/Echo.thy ===== *)
theory Echo
  imports Console
begin

text \<open>
  The user program \<^verbatim>\<open>apps/echo\<close>: it reads keys with the system call \<open>sys_read\<close> and prints every completed line with
  \<open>sys_write\<close>, one character per call. Its character buffers have addresses in the flat memory (\<open>kbuf\<close> for the key
  and \<open>sbuf\<close> for the character that is written); the line being read is a list of 512 bytes. \<open>old\<close> is what the
  local array of \<open>sys_write\<close> holds. The program runs on the whole input path of the kernel: interrupt handler,
  keyboard buffer, system calls, formatted output and screen.
\<close>

section \<open>Model\<close>

definition poke :: "ptr \<Rightarrow> byte \<Rightarrow> video \<Rightarrow> video" where
  "poke a x v = v\<lparr>vd_mem := (vd_mem v)(a := x)\<rparr>"

definition user_putc :: "'h machine \<Rightarrow> byte list \<Rightarrow> ptr \<Rightarrow> byte \<Rightarrow> 'h tty \<Rightarrow> 'h tty option" where
  "user_putc m old sbuf c st = do {
     (res, st1) \<leftarrow> sys_write m old 1 sbuf 1 (st\<lparr>tt_video := poke sbuf c (tt_video st)\<rparr>);
     Some st1
   }"

fun user_puts :: "'h machine \<Rightarrow> byte list \<Rightarrow> ptr \<Rightarrow> byte list \<Rightarrow> 'h tty \<Rightarrow> 'h tty option" where
  "user_puts m old sbuf [] st = Some st"
| "user_puts m old sbuf (c # cs) st = do { st1 \<leftarrow> user_putc m old sbuf c st; user_puts m old sbuf cs st1 }"

text \<open>The program carries its own copies of \<open>numtostr\<close>, \<open>vsprintf\<close> and \<open>sprintf\<close> (\<^verbatim>\<open>apps/echo/printf.c\<close>) and of \<open>atoi\<close>
  (\<^verbatim>\<open>apps/echo/stdlib.c\<close>). Their text is that of the kernel's library, so that the definitions are shared.\<close>

definition user_atoi :: "mem \<Rightarrow> ptr \<Rightarrow> int option" where
  "user_atoi = atoi"

definition user_numtostr :: "byte list \<Rightarrow> byte \<Rightarrow> u32 \<Rightarrow> int \<Rightarrow> int \<Rightarrow> bool \<Rightarrow> byte list option" where
  "user_numtostr = numtostr"

definition user_vsprintf :: "byte list \<Rightarrow> arg list \<Rightarrow> (nat \<times> byte list) option" where
  "user_vsprintf = vsprintf"

definition user_sprintf :: "byte list \<Rightarrow> arg list \<Rightarrow> (nat \<times> byte list) option" where
  "user_sprintf = sprintf"

text \<open>The text is formatted into an array of 1024 bytes and written up to its first zero.\<close>

definition user_printf :: "'h machine \<Rightarrow> byte list \<Rightarrow> ptr \<Rightarrow> byte list \<Rightarrow> arg list \<Rightarrow> 'h tty \<Rightarrow> (nat \<times> 'h tty) option" where
  "user_printf m old sbuf format args st = do {
     (res, str) \<leftarrow> user_vsprintf format args;
     if res < 1024 then do {
       let cs = takeWhile (\<lambda>c. c \<noteq> 0) str;
       st1 \<leftarrow> user_puts m old sbuf cs st;
       Some (length cs, st1)
     } else None
   }"

record echo =
  ec_token :: "byte list"
  ec_p :: nat

abbreviation (input) echo_format :: "byte list" where "echo_format \<equiv> [69, 99, 104, 111, 58, 32, 37, 115, 10]"
abbreviation (input) prompt :: "byte list" where "prompt \<equiv> [62, 32]"

definition echo_key :: "'h machine \<Rightarrow> byte list \<Rightarrow> ptr \<Rightarrow> byte \<Rightarrow> echo \<times> 'h tty \<Rightarrow> (echo \<times> 'h tty) option" where
  "echo_key m old sbuf key s =
     (let (e, st) = s in
      if ec_p e < length (ec_token e) then
        if key = 13 \<or> key = 10 then do {
          let token = (ec_token e)[ec_p e := 0];
          (n1, st1) \<leftarrow> user_printf m old sbuf echo_format [AStr (takeWhile (\<lambda>c. c \<noteq> 0) token)] st;
          (n2, st2) \<leftarrow> user_printf m old sbuf prompt [] st1;
          Some (\<lparr>ec_token = token, ec_p = 0\<rparr>, st2)
        }
        else Some (\<lparr>ec_token = (ec_token e)[ec_p e := key], ec_p = ec_p e + 1\<rparr>, st)
      else None)"

text \<open>One turn of the endless loop.\<close>

definition echo_step ::
  "'h machine \<Rightarrow> (int \<Rightarrow> 'h kbd \<Rightarrow> 'h kbd option) \<Rightarrow> byte list \<Rightarrow> ptr \<Rightarrow> ptr \<Rightarrow> echo \<times> 'h tty \<Rightarrow> (echo \<times> 'h tty) option" where
  "echo_step m sleep old kbuf sbuf s = do {
     (n, st1) \<leftarrow> sys_read m sleep 0 kbuf 1 (snd s);
     if n > 0 then echo_key m old sbuf (vd_mem (tt_video st1) kbuf) (fst s, st1) else Some (fst s, st1)
   }"

fun echo_run ::
  "'h machine \<Rightarrow> (int \<Rightarrow> 'h kbd \<Rightarrow> 'h kbd option) \<Rightarrow> byte list \<Rightarrow> ptr \<Rightarrow> ptr \<Rightarrow> nat \<Rightarrow> echo \<times> 'h tty \<Rightarrow> (echo \<times> 'h tty) option" where
  "echo_run m sleep old kbuf sbuf 0 s = Some s"
| "echo_run m sleep old kbuf sbuf (Suc n) s = do {
     s1 \<leftarrow> echo_step m sleep old kbuf sbuf s;
     echo_run m sleep old kbuf sbuf n s1
   }"

text \<open>The program: the greeting, the first prompt and \<open>n\<close> turns of the loop. \<open>token\<close> is what the array of the line holds.\<close>

definition wmsg :: "byte list" where
  "wmsg = map (\<lambda>c. of_char c) ''Welcome to Echo program (written in C)!'' @ [10]"

definition echo_start :: "'h machine \<Rightarrow> byte list \<Rightarrow> ptr \<Rightarrow> byte list \<Rightarrow> 'h tty \<Rightarrow> (echo \<times> 'h tty) option" where
  "echo_start m old sbuf token st = do {
     (n1, st1) \<leftarrow> user_printf m old sbuf wmsg [] st;
     (n2, st2) \<leftarrow> user_printf m old sbuf prompt [] st1;
     Some (\<lparr>ec_token = token, ec_p = 0\<rparr>, st2)
   }"

definition echo_main ::
  "'h machine \<Rightarrow> (int \<Rightarrow> 'h kbd \<Rightarrow> 'h kbd option) \<Rightarrow> byte list \<Rightarrow> ptr \<Rightarrow> ptr \<Rightarrow> byte list \<Rightarrow> nat \<Rightarrow> 'h tty \<Rightarrow> (echo \<times> 'h tty) option" where
  "echo_main m sleep old kbuf sbuf token n st = do {
     s \<leftarrow> echo_start m old sbuf token st;
     echo_run m sleep old kbuf sbuf n s
   }"

section \<open>Memory beside the screen\<close>

definition off_screen :: "video \<Rightarrow> ptr \<Rightarrow> bool" where
  "off_screen v a \<longleftrightarrow> a < vd_base v \<or> vd_base v + 4160 \<le> a"

lemma poke_fields [simp]:
  "vd_base (poke a x v) = vd_base v" "vd_px (poke a x v) = vd_px v" "vd_py (poke a x v) = vd_py v" "vd_attr (poke a x v) = vd_attr v"
  "vd_mem (poke a x v) a = x"
  by (simp_all add: poke_def)

lemma poke_poke [simp]: "poke a x (poke a y v) = poke a x v"
  by (simp add: poke_def)

lemma poke_commute: "a \<noteq> b \<Longrightarrow> poke a x (poke b y v) = poke b y (poke a x v)"
  by (simp add: poke_def fun_upd_twist)

lemma poke_px: "(poke a x v)\<lparr>vd_px := p\<rparr> = poke a x (v\<lparr>vd_px := p\<rparr>)" "(poke a x v)\<lparr>vd_py := q\<rparr> = poke a x (v\<lparr>vd_py := q\<rparr>)"
  by (simp_all add: poke_def)

lemma cursor_ok_poke [simp]: "cursor_ok (poke a x v) = cursor_ok v"
  by (simp add: cursor_ok_def)

lemma scroll_poke:
  assumes "off_screen v a"
  shows "scroll_screen (poke a x v) = poke a x (scroll_screen v)"
proof -
  have "vd_mem (scroll_screen (poke a x v)) b = vd_mem (poke a x (scroll_screen v)) b" for b
    using assms unfolding scroll_screen_mem by (auto simp: poke_def scroll_screen_mem off_screen_def)
  then have "vd_mem (scroll_screen (poke a x v)) = vd_mem (poke a x (scroll_screen v))" by (rule ext)
  then show ?thesis by (simp add: poke_def scroll_screen_def)
qed

lemma writechar_poke:
  assumes "off_screen v a" and "cursor_ok v"
  shows "writechar c attr (poke a x v) = poke a x (writechar c attr v)"
proof -
  let ?pos = "(80 * unat (vd_py v) + unat (vd_px v)) * 2"
  have "unat (vd_px v) \<le> 80" "unat (vd_py v) \<le> 24" using assms(2) by (simp_all add: cursor_ok_def word_le_nat_alt)
  then have ne: "vd_base v + ?pos \<noteq> a" "Suc (vd_base v + ?pos) \<noteq> a" using assms(1) by (auto simp: off_screen_def)
  have st: "v'\<lparr>vd_mem := (vd_mem v')(p := c, q := attr)\<rparr> = poke q attr (poke p c v')" for v' p q by (simp add: poke_def)
  have off: "off_screen (v\<lparr>vd_px := p, vd_py := q\<rparr>) a" for p q using assms(1) by (simp add: off_screen_def)
  show ?thesis
  proof (cases "vd_px v < 80")
    case True
    then show ?thesis using ne by (simp add: writechar_row poke_def fun_upd_twist)
  next
    case False
    then show ?thesis using ne scroll_poke [OF off]
      by (simp add: writechar_def Let_def st poke_px poke_commute del: mult_Suc_right)
  qed
qed

lemma kprint_char_poke:
  assumes off: "off_screen v a" and ok: "cursor_ok v"
  shows "kprint_char c (poke a x v) = poke a x (kprint_char c v)"
proof -
  let ?v = "if vd_px v > 0 then v\<lparr>vd_px := vd_px v - 1\<rparr> else v"
  have off': "off_screen ?v a" "\<And>p. off_screen (v\<lparr>vd_py := p\<rparr>) a" using off by (simp_all add: off_screen_def)
  consider "c = 10" | "c = 13" | "c = 8" | "c \<noteq> 10" "c \<noteq> 13" "c \<noteq> 8" by blast
  then show ?thesis
  proof cases
    case 1
    then show ?thesis using scroll_poke [OF off'(2)] by (simp add: kprint_char_def Let_def poke_px)
  next
    case 2
    then show ?thesis by (simp add: kprint_char_def poke_px)
  next
    case 3
    have "vd_px v > 0 \<Longrightarrow> vd_px v - 1 \<le> 80" using ok
      by (simp add: cursor_ok_def word_less_nat_alt word_le_nat_alt unat_word_ariths unat_sub_if') linarith
    then have "cursor_ok ?v" using ok by (simp add: cursor_ok_def)
    note w = writechar_poke [OF off'(1) this, of 32 "vd_attr v" x]
    show ?thesis using 3 w by (cases "vd_px v > 0") (simp_all add: kprint_char_def Let_def poke_px)
  next
    case 4
    then show ?thesis using writechar_poke [OF off ok] by (simp add: kprint_char_def)
  qed
qed

lemma kprint_poke:
  "off_screen v a \<Longrightarrow> cursor_ok v \<Longrightarrow> kprint s (poke a x v) = poke a x (kprint s v)"
proof (induction s arbitrary: v)
  case Nil
  then show ?case by simp
next
  case (Cons c s)
  have "off_screen (kprint_char c v) a" "cursor_ok (kprint_char c v)"
    using Cons.prems kprint_char_cursor [OF Cons.prems(2), of c] by (simp_all add: off_screen_def)
  then show ?case using Cons kprint_char_poke [OF Cons.prems] by simp
qed

lemma kprint_keeps:
  assumes "cursor_ok v"
  shows "cursor_ok (kprint s v)" "vd_base (kprint s v) = vd_base v" "off_screen (kprint s v) a = off_screen v a"
proof -
  have "cursor_ok (kprint s v) \<and> vd_base (kprint s v) = vd_base v" using assms
  proof (induction s arbitrary: v)
    case (Cons c s)
    then show ?case using kprint_char_cursor [OF Cons.prems, of c] by simp
  qed simp
  then show "cursor_ok (kprint s v)" "vd_base (kprint s v) = vd_base v" "off_screen (kprint s v) a = off_screen v a"
    by (simp_all add: off_screen_def)
qed

section \<open>Writing\<close>

lemma user_putc_ok:
  assumes "c \<noteq> 0" and "\<not> tt_over_serial st"
  shows "user_putc m old sbuf c st = Some (st\<lparr>tt_video := kprint [c] (poke sbuf c (tt_video st))\<rparr>)"
proof -
  let ?st = "st\<lparr>tt_video := poke sbuf c (tt_video st)\<rparr>"
  have s: "[c] = map (vd_mem (tt_video ?st)) [sbuf..<sbuf + unat (1 :: u32)]" by simp
  have "sys_write m old 1 sbuf 1 ?st = map_option (\<lambda>(res, st'). (1, st')) (kprintf_out m (KERN_DEBUG @ [37, 115]) [AStr [c]] ?st)"
    using sys_write_text [OF _ _ s] assms(1) by simp
  also have "\<dots> = Some (1, ?st\<lparr>tt_video := kprint [c] (tt_video ?st)\<rparr>)"
    using kprintf_string [of "[c]" False] assms by (simp add: kprintf_out_def)
  finally show ?thesis by (simp add: user_putc_def)
qed

lemma user_puts_ok:
  assumes "0 \<notin> set cs" and "cs \<noteq> []" and "\<not> tt_over_serial st" and "cursor_ok (tt_video st)" and "off_screen (tt_video st) sbuf"
  shows "user_puts m old sbuf cs st = Some (st\<lparr>tt_video := poke sbuf (last cs) (kprint cs (tt_video st))\<rparr>)"
  using assms
proof (induction cs arbitrary: st)
  case Nil
  then show ?case by simp
next
  case (Cons c cs)
  let ?v = "tt_video st"
  let ?st = "st\<lparr>tt_video := poke sbuf c (kprint [c] ?v)\<rparr>"
  have p: "user_putc m old sbuf c st = Some ?st"
    using user_putc_ok [of c st m old sbuf] Cons.prems kprint_poke [of ?v sbuf "[c]" c] by simp
  show ?case
  proof (cases "cs = []")
    case True
    then show ?thesis using p by simp
  next
    case False
    have k: "cursor_ok (kprint [c] ?v)" "off_screen (kprint [c] ?v) sbuf"
      using kprint_keeps(1,3) [OF Cons.prems(4), of "[c]"] Cons.prems(5) by blast+
    have o: "off_screen (poke sbuf c (kprint [c] ?v)) sbuf" using k(2) by (simp add: off_screen_def)
    have "user_puts m old sbuf cs ?st = Some (?st\<lparr>tt_video := poke sbuf (last cs) (kprint cs (tt_video ?st))\<rparr>)"
      using Cons.prems False k(1) o by (intro Cons.IH) auto
    also have "kprint cs (tt_video ?st) = poke sbuf c (kprint cs (kprint [c] ?v))" using kprint_poke [OF k(2,1)] by simp
    finally show ?thesis using p False by simp
  qed
qed

lemma vsprintf_string_in_text:
  assumes "37 \<notin> set pre" and "37 \<notin> set post"
  shows "vsprintf (pre @ [37, 115] @ post) [AStr s] = Some (length (pre @ s @ post), pre @ s @ post)"
proof -
  have "vsprintf_loop (37 # 115 # post) 0 [AStr s] pre = vsprintf_loop post 0 [] (pre @ s)" by (rule vsprintf_loop_string)
  also have "\<dots> = Some (pre @ s @ post)" using vsprintf_literal [OF assms(2), of "[]" 0 "[]" "pre @ s"] by simp
  finally show ?thesis using vsprintf_literal [OF assms(1), of "[37, 115] @ post" 0 "[AStr s]" "[]"] by (simp add: vsprintf_def)
qed

lemma user_printf_ok:
  assumes "vsprintf fmt args = Some (length out, out)" and "length out < 1024"
    and "0 \<notin> set out" and "out \<noteq> []" and "\<not> tt_over_serial st" and "cursor_ok (tt_video st)" and "off_screen (tt_video st) sbuf"
  shows "user_printf m old sbuf fmt args st = Some (length out, st\<lparr>tt_video := poke sbuf (last out) (kprint out (tt_video st))\<rparr>)"
proof -
  have "takeWhile (\<lambda>c. c \<noteq> 0) out = out" using assms(3) by (intro takeWhile_eq_all_conv [THEN iffD2]) auto
  then show ?thesis using assms(1,2) user_puts_ok [OF assms(3-7)] by (simp add: user_printf_def user_vsprintf_def del: takeWhile_eq_all_conv)
qed

section \<open>Reading and the main loop\<close>

lemma kprintf_char: "key \<noteq> 0 \<Longrightarrow> kprintf False (KERN_DEBUG @ [37, 99]) [AWord (ucast (key :: byte))] = Some (1, Inr [key])"
proof -
  assume "key \<noteq> 0"
  have u: "ucast (ucast key :: u32) = key" by (rule bit_word_eqI) (simp add: bit_simps)
  have "vsprintf_loop (37 # [99]) 0 [AWord (ucast key)] [] = Some [key]"
    by (subst vsprintf_loop.simps) (simp add: parse_num_def is_dig_def parse_length_def convert_def word_arg_def u)
  then show ?thesis using \<open>key \<noteq> 0\<close> by (simp add: kprintf_def vsprintf_def)
qed

lemma sys_read_ok:
  assumes "kbd_rep (tt_kbd st) (key # q)" and "key \<noteq> 0" and "\<not> tt_over_serial st"
    and "cursor_ok (tt_video st)" and "off_screen (tt_video st) kbuf"
  shows "\<exists>k. sys_read m sleep 0 kbuf 1 st
      = Some (1, st\<lparr>tt_kbd := k, tt_video := poke kbuf key (kprint [key] (tt_video st))\<rparr>) \<and> kbd_rep k q"
proof -
  from kq.take_ok [OF assms(1), of sleep] obtain k
    where k: "kbc_read_from_buffer sleep (tt_kbd st) = Some (key, k)" "kbd_rep k q" by blast
  have "kprintf_out m (KERN_DEBUG @ [37, 99]) [AWord (ucast key)] (st\<lparr>tt_kbd := k, tt_video := poke kbuf key (tt_video st)\<rparr>)
    = Some (1, st\<lparr>tt_kbd := k, tt_video := poke kbuf key (kprint [key] (tt_video st))\<rparr>)"
    using kprintf_char [OF assms(2)] assms(3) kprint_poke [OF assms(5,4), of "[key]" key] by (simp add: kprintf_out_def)
  then show ?thesis using k assms(3) by (intro exI [of _ k]) (simp add: sys_read_def poke_def)
qed

definition ordinary :: "byte list \<Rightarrow> bool" where
  "ordinary ks \<longleftrightarrow> set ks \<inter> {0, 10, 13} = {}"

lemma echo_step_key:
  assumes "kbd_rep (tt_kbd st) (key # q)" and "ordinary [key]" and "\<not> tt_over_serial st"
    and "cursor_ok (tt_video st)" and "off_screen (tt_video st) kbuf" and "ec_p e < length (ec_token e)"
  shows "\<exists>k. echo_step m sleep old kbuf sbuf (e, st)
      = Some (\<lparr>ec_token = (ec_token e)[ec_p e := key], ec_p = ec_p e + 1\<rparr>,
          st\<lparr>tt_kbd := k, tt_video := poke kbuf key (kprint [key] (tt_video st))\<rparr>) \<and> kbd_rep k q"
  using sys_read_ok [OF assms(1) _ assms(3-5), of m sleep] assms(2,6) by (auto simp: ordinary_def echo_step_def echo_key_def)

text \<open>The keys of a line are collected and shown one after the other.\<close>

lemma echo_run_keys:
  assumes "kbd_rep (tt_kbd st) (ks @ q)" and "ordinary ks" and "\<not> tt_over_serial st" and "cursor_ok (tt_video st)"
    and "off_screen (tt_video st) kbuf" and "ec_p e + length ks < length (ec_token e)"
  shows "\<exists>k. echo_run m sleep old kbuf sbuf (length ks) (e, st)
      = Some (\<lparr>ec_token = take (ec_p e) (ec_token e) @ ks @ drop (ec_p e + length ks) (ec_token e), ec_p = ec_p e + length ks\<rparr>,
          st\<lparr>tt_kbd := k, tt_video := (if ks = [] then tt_video st else poke kbuf (last ks) (kprint ks (tt_video st)))\<rparr>) \<and> kbd_rep k q"
  using assms
proof (induction ks arbitrary: e st)
  case Nil
  have "e = \<lparr>ec_token = ec_token e, ec_p = ec_p e\<rparr>" by (cases e) simp
  then show ?case using Nil by (intro exI [of _ "tt_kbd st"]) simp
next
  case (Cons key ks)
  let ?v = "tt_video st"
  have "ec_p e < length (ec_token e)" using Cons.prems(6) by simp
  from echo_step_key [OF _ _ Cons.prems(3-5) this, of key "ks @ q" m sleep old sbuf] Cons.prems(1,2) obtain k
    where s: "echo_step m sleep old kbuf sbuf (e, st) = Some (\<lparr>ec_token = (ec_token e)[ec_p e := key], ec_p = ec_p e + 1\<rparr>,
          st\<lparr>tt_kbd := k, tt_video := poke kbuf key (kprint [key] ?v)\<rparr>)" "kbd_rep k (ks @ q)" by (auto simp: ordinary_def)
  let ?e = "\<lparr>ec_token = (ec_token e)[ec_p e := key], ec_p = ec_p e + 1\<rparr>" and ?st = "st\<lparr>tt_kbd := k, tt_video := poke kbuf key (kprint [key] ?v)\<rparr>"
  have kv: "cursor_ok (kprint [key] ?v)" "off_screen (kprint [key] ?v) kbuf"
    using kprint_keeps(1,3) [OF Cons.prems(4), of "[key]"] Cons.prems(5) by blast+
  have o: "off_screen (poke kbuf key (kprint [key] ?v)) kbuf" using kv(2) by (simp add: off_screen_def)
  have "\<exists>k. echo_run m sleep old kbuf sbuf (length ks) (?e, ?st)
      = Some (\<lparr>ec_token = take (ec_p ?e) (ec_token ?e) @ ks @ drop (ec_p ?e + length ks) (ec_token ?e), ec_p = ec_p ?e + length ks\<rparr>,
          ?st\<lparr>tt_kbd := k, tt_video := (if ks = [] then tt_video ?st else poke kbuf (last ks) (kprint ks (tt_video ?st)))\<rparr>) \<and> kbd_rep k q"
    using Cons.prems s(2) kv(1) o by (intro Cons.IH) (auto simp: ordinary_def)
  moreover have "take (Suc (ec_p e)) ((ec_token e)[ec_p e := key]) = take (ec_p e) (ec_token e) @ [key]"
    using Cons.prems(6) by (simp add: take_Suc_conv_app_nth)
  moreover have "kprint ks (poke kbuf key (kprint [key] ?v)) = poke kbuf key (kprint (key # ks) ?v)" using kprint_poke [OF kv(2,1)] by simp
  ultimately show ?case using s(1) Cons.prems(6) by auto
qed

lemma echo_step_enter:
  assumes rep: "kbd_rep (tt_kbd st) (10 # q)" and ser: "\<not> tt_over_serial st" and cur: "cursor_ok (tt_video st)"
    and kb: "off_screen (tt_video st) kbuf" and sb: "off_screen (tt_video st) sbuf" and ne: "kbuf \<noteq> sbuf"
    and tok: "ec_token e = ks @ R" "ec_p e = length ks" "R \<noteq> []" "0 \<notin> set ks" and len: "length ks < 512"
  shows "\<exists>k e'. echo_step m sleep old kbuf sbuf (e, st) = Some (e', st\<lparr>tt_kbd := k,
      tt_video := poke sbuf 32 (poke kbuf 10 (kprint ([10, 69, 99, 104, 111, 58, 32] @ ks @ [10, 62, 32]) (tt_video st)))\<rparr>)
    \<and> kbd_rep k q \<and> ec_p e' = 0 \<and> length (ec_token e') = length (ec_token e)"
proof -
  define E where "E = [69, 99, 104, 111, 58, 32] @ ks @ [10 :: byte]"
  define P :: "byte list" where "P = prompt"
  define v1 where "v1 = kprint [10] (tt_video st)"
  define v2 where "v2 = kprint E v1"
  define v3 where "v3 = kprint P v2"
  have v3: "v3 = kprint ([10, 69, 99, 104, 111, 58, 32] @ ks @ [10, 62, 32]) (tt_video st)"
    unfolding v3_def v2_def v1_def E_def P_def kprint_append [symmetric] by simp
  have 1: "cursor_ok v1" "off_screen v1 kbuf" "off_screen v1 sbuf"
    unfolding v1_def using kprint_keeps(1,3) [OF cur, of "[10]"] kb sb by blast+
  have 2: "cursor_ok v2" "off_screen v2 kbuf" "off_screen v2 sbuf"
    unfolding v2_def using kprint_keeps(1,3) [OF 1(1), of E] 1 by blast+
  have offp: "off_screen (poke a x w) b = off_screen w b" for a x w b by (simp add: off_screen_def)
  from sys_read_ok [OF rep _ ser cur kb, of m sleep] obtain k where
    r: "sys_read m sleep 0 kbuf 1 st = Some (1, st\<lparr>tt_kbd := k, tt_video := poke kbuf 10 v1\<rparr>)" "kbd_rep k q"
    unfolding v1_def by auto
  have vs: "vsprintf echo_format [AStr ks] = Some (length E, E)"
    using vsprintf_string_in_text [of "[69, 99, 104, 111, 58, 32]" "[10]" ks] by (simp add: E_def)
  have z: "length E < 1024" "0 \<notin> set E" "E \<noteq> []" and last: "last E = 10" using tok(4) len by (auto simp: E_def)
  let ?st1 = "st\<lparr>tt_kbd := k, tt_video := poke kbuf 10 v1\<rparr>"
  have u1: "user_printf m old sbuf echo_format [AStr ks] ?st1 = Some (length E, st\<lparr>tt_kbd := k, tt_video := poke sbuf 10 (poke kbuf 10 v2)\<rparr>)"
    using user_printf_ok [OF vs z, of ?st1 sbuf m old] ser 1 last kprint_poke [OF 1(2,1), of E 10, folded v2_def] by (simp add: offp)
  have vp: "vsprintf prompt [] = Some (length P, P)"
    using vsprintf_literal [of prompt "[]" 0 "[]" "[]"] by (simp add: vsprintf_def P_def)
  have zp: "length P < 1024" "0 \<notin> set P" "P \<noteq> []" and lastp: "last P = 32" "length P = 2" by (auto simp: P_def)
  let ?st2 = "st\<lparr>tt_kbd := k, tt_video := poke sbuf 10 (poke kbuf 10 v2)\<rparr>"
  have kp: "kprint P (poke sbuf 10 (poke kbuf 10 v2)) = poke sbuf 10 (poke kbuf 10 v3)"
    using kprint_poke [of "poke kbuf 10 v2" sbuf P 10] kprint_poke [OF 2(2,1), of P 10, folded v3_def] 2 by (simp add: offp)
  have u2: "user_printf m old sbuf prompt [] ?st2 = Some (2, st\<lparr>tt_kbd := k, tt_video := poke sbuf 32 (poke kbuf 10 v3)\<rparr>)"
    using user_printf_ok [OF vp zp, of ?st2 sbuf m old] ser 2 lastp kp by (simp add: offp)
  obtain x R' where R: "R = x # R'" using tok(3) by (cases R) auto
  have t: "takeWhile (\<lambda>c. c \<noteq> 0) ((ec_token e)[ec_p e := 0]) = ks"
    unfolding tok R using tok(4) by (simp add: list_update_append, subst takeWhile_append2) auto
  show ?thesis using r u1 u2 t tok(1-3) unfolding v3 [symmetric]
    by (intro exI [of _ k] exI [of _ "\<lparr>ec_token = (ec_token e)[ec_p e := 0], ec_p = 0\<rparr>"])
      (simp add: echo_step_def echo_key_def Let_def)
qed

lemma echo_run_append:
  "echo_run m sleep old kbuf sbuf (n + k) s = do { s1 \<leftarrow> echo_run m sleep old kbuf sbuf n s; echo_run m sleep old kbuf sbuf k s1 }"
proof (induction n arbitrary: s)
  case (Suc n)
  then show ?case by (cases "echo_step m sleep old kbuf sbuf s") simp_all
qed simp

lemma echo_run_Suc:
  "echo_run m sleep old kbuf sbuf (Suc n) s = do { s1 \<leftarrow> echo_run m sleep old kbuf sbuf n s; echo_step m sleep old kbuf sbuf s1 }"
proof -
  have "echo_run m sleep old kbuf sbuf 1 s1 = echo_step m sleep old kbuf sbuf s1" for s1
    by (cases "echo_step m sleep old kbuf sbuf s1") simp_all
  then show ?thesis using echo_run_append [of m sleep old kbuf sbuf n 1 s] by simp
qed

text \<open>The whole path from the keyboard to the screen: when the keys of a line (less than 512, none of them a line end)
  and the enter key wait in the keyboard buffer, the echo program reads exactly them; the screen afterwards is the
  one that results from printing the line as it is typed, the line end, the text \<^verbatim>\<open>Echo: \<close>, the line again, a line
  end and the prompt. Besides the screen only the program's two buffers change.\<close>
lemma echo_repeats_line:
  assumes rep: "kbd_rep (tt_kbd st) (ks @ 10 # q)" and ks: "ordinary ks" and len: "length ks < 512"
    and e: "ec_p e = 0" "length (ec_token e) = 512" and ser: "\<not> tt_over_serial st" and cur: "cursor_ok (tt_video st)"
    and kb: "off_screen (tt_video st) kbuf" and sb: "off_screen (tt_video st) sbuf" and ne: "kbuf \<noteq> sbuf"
  shows "\<exists>k e'. echo_run m sleep old kbuf sbuf (length ks + 1) (e, st) = Some (e', st\<lparr>tt_kbd := k,
      tt_video := poke sbuf 32 (poke kbuf 10 (kprint (ks @ [10, 69, 99, 104, 111, 58, 32] @ ks @ [10, 62, 32]) (tt_video st)))\<rparr>)
    \<and> kbd_rep k q \<and> ec_p e' = 0 \<and> length (ec_token e') = 512"
proof -
  let ?v = "if ks = [] then tt_video st else poke kbuf (last ks) (kprint ks (tt_video st))"
  from echo_run_keys [OF rep ks ser cur kb, of e m sleep old sbuf] e len obtain k where
    r: "echo_run m sleep old kbuf sbuf (length ks) (e, st) = Some (\<lparr>ec_token = ks @ drop (length ks) (ec_token e), ec_p = length ks\<rparr>,
        st\<lparr>tt_kbd := k, tt_video := ?v\<rparr>)" "kbd_rep k (10 # q)" by auto
  let ?st = "st\<lparr>tt_kbd := k, tt_video := ?v\<rparr>" and ?e = "\<lparr>ec_token = ks @ drop (length ks) (ec_token e), ec_p = length ks\<rparr>"
  have kv: "cursor_ok (kprint ks (tt_video st))" "off_screen (kprint ks (tt_video st)) kbuf" "off_screen (kprint ks (tt_video st)) sbuf"
    using kprint_keeps(1,3) [OF cur, of ks] kb sb by blast+
  have v: "cursor_ok (tt_video ?st)" "off_screen (tt_video ?st) kbuf" "off_screen (tt_video ?st) sbuf"
    using kv cur kb sb by (auto simp: off_screen_def)
  have z: "0 \<notin> set ks" using ks by (auto simp: ordinary_def)
  from echo_step_enter [OF _ _ v ne, of q ?e ks "drop (length ks) (ec_token e)" m sleep old] r(2) ser e len z obtain k' e' where
    s: "echo_step m sleep old kbuf sbuf (?e, ?st) = Some (e', ?st\<lparr>tt_kbd := k',
        tt_video := poke sbuf 32 (poke kbuf 10 (kprint ([10, 69, 99, 104, 111, 58, 32] @ ks @ [10, 62, 32]) ?v))\<rparr>)"
      "kbd_rep k' q" "ec_p e' = 0" "length (ec_token e') = 512" by auto
  have "poke kbuf 10 (kprint ([10, 69, 99, 104, 111, 58, 32] @ ks @ [10, 62, 32]) ?v)
      = poke kbuf 10 (kprint (ks @ [10, 69, 99, 104, 111, 58, 32] @ ks @ [10, 62, 32]) (tt_video st))"
    using kprint_poke [OF kv(2,1), of "[10, 69, 99, 104, 111, 58, 32] @ ks @ [10, 62, 32]"] unfolding kprint_append [of ks] by simp
  moreover have "echo_run m sleep old kbuf sbuf (Suc (length ks)) (e, st) = echo_step m sleep old kbuf sbuf (?e, ?st)"
    unfolding echo_run_Suc r(1) by simp
  ultimately show ?thesis using s by (auto simp del: echo_run.simps)
qed

text \<open>The word \<^verbatim>\<open>q\<close> and the enter key, typed on a machine with an empty screen.\<close>

definition typed_tty :: "unit tty" where
  "typed_tty = \<lparr>tt_kbd = kbd_start\<lparr>kb_buffer := [113, 10] @ replicate 1022 0, kb_write := 2, kb_avail := 2\<rparr>,
     tt_video = blank_screen, tt_over_serial = False, tt_serial = tt_serial (demo_tty False)\<rparr>"

lemma typed_rep: "kbd_rep (tt_kbd typed_tty) ([113] @ 10 # [])"
proof -
  have "length (replicate 1022 (0 :: byte)) = 1022" by (rule length_replicate)
  moreover obtain ws where "waiters_ok (kb_sched kbd_start) ws" using kbd_start_rep by (auto simp: kbd_rep_def)
  ultimately show ?thesis by (auto simp: kbd_rep_def typed_tty_def kbd_start_def)
qed

text \<open>What the program writes for a line, and a screen on which besides a text only the program's buffers have changed.\<close>

definition reply :: "byte list \<Rightarrow> byte list" where
  "reply ks = ks @ [10, 69, 99, 104, 111, 58, 32] @ ks @ [10, 62, 32]"

definition screen_shows :: "ptr \<Rightarrow> ptr \<Rightarrow> video \<Rightarrow> byte list \<Rightarrow> video \<Rightarrow> bool" where
  "screen_shows kbuf sbuf v t v' \<longleftrightarrow> (\<exists>x y. v' = poke sbuf x (poke kbuf y (kprint t v)))"

lemma poke_same: "poke a (vd_mem v a) v = v"
  by (simp add: poke_def)

lemma screen_shows_trans:
  assumes "screen_shows kbuf sbuf v t v1" "screen_shows kbuf sbuf v1 u v2" "cursor_ok v" "off_screen v kbuf" "off_screen v sbuf" "kbuf \<noteq> sbuf"
  shows "screen_shows kbuf sbuf v (t @ u) v2"
proof -
  obtain x y where v1: "v1 = poke sbuf x (poke kbuf y (kprint t v))" using assms(1) by (auto simp: screen_shows_def)
  have k: "cursor_ok (kprint t v)" "off_screen (kprint t v) kbuf" "off_screen (kprint t v) sbuf"
    using kprint_keeps(1,3) [OF assms(3), of t] assms(4,5) by blast+
  have o: "off_screen (poke kbuf y (kprint t v)) sbuf" using k(3) by (simp add: off_screen_def)
  have "kprint u v1 = poke sbuf x (poke kbuf y (kprint (t @ u) v))"
    unfolding v1 kprint_append using kprint_poke [OF o, of u x] kprint_poke [OF k(2,1), of u y] k(1) by simp
  then show ?thesis using assms(2,6) by (auto simp: screen_shows_def poke_commute)
qed

lemma echo_lines:
  assumes "kbd_rep (tt_kbd st) (concat (map (\<lambda>ks. ks @ [10]) ls) @ q)" "\<forall>ks \<in> set ls. ordinary ks \<and> length ks < 512"
    and "ec_p e = 0" "length (ec_token e) = 512" "\<not> tt_over_serial st" "cursor_ok (tt_video st)"
    and "off_screen (tt_video st) kbuf" "off_screen (tt_video st) sbuf" "kbuf \<noteq> sbuf"
  shows "\<exists>k v e'. echo_run m sleep old kbuf sbuf (\<Sum>ks\<leftarrow>ls. length ks + 1) (e, st) = Some (e', st\<lparr>tt_kbd := k, tt_video := v\<rparr>)
    \<and> kbd_rep k q \<and> screen_shows kbuf sbuf (tt_video st) (concat (map reply ls)) v"
  using assms
proof (induction ls arbitrary: e st)
  case Nil
  have "screen_shows kbuf sbuf (tt_video st) [] (tt_video st)"
    unfolding screen_shows_def by (rule exI [of _ "vd_mem (tt_video st) sbuf"], rule exI [of _ "vd_mem (tt_video st) kbuf"]) (simp add: poke_same)
  then show ?case using Nil by (intro exI [of _ "tt_kbd st"] exI [of _ "tt_video st"] exI [of _ e]) simp
next
  case (Cons ks ls)
  let ?v = "kprint (reply ks) (tt_video st)"
  from echo_repeats_line [of st ks "concat (map (\<lambda>ks. ks @ [10]) ls) @ q" e kbuf sbuf m sleep old] Cons.prems obtain k e1 where
    r: "echo_run m sleep old kbuf sbuf (length ks + 1) (e, st) = Some (e1, st\<lparr>tt_kbd := k, tt_video := poke sbuf 32 (poke kbuf 10 ?v)\<rparr>)"
      "kbd_rep k (concat (map (\<lambda>ks. ks @ [10]) ls) @ q)" "ec_p e1 = 0" "length (ec_token e1) = 512"
    by (auto simp: reply_def)
  let ?st = "st\<lparr>tt_kbd := k, tt_video := poke sbuf 32 (poke kbuf 10 ?v)\<rparr>"
  have v: "cursor_ok ?v" "off_screen ?v kbuf" "off_screen ?v sbuf" using kprint_keeps(1,3) [OF Cons.prems(6), of "reply ks"] Cons.prems(7,8) by blast+
  then have "cursor_ok (tt_video ?st)" "off_screen (tt_video ?st) kbuf" "off_screen (tt_video ?st) sbuf" by (simp_all add: off_screen_def)
  with Cons.IH [of ?st e1] r(2-4) Cons.prems obtain k' v' e' where
    i: "echo_run m sleep old kbuf sbuf (\<Sum>ks\<leftarrow>ls. length ks + 1) (e1, ?st) = Some (e', ?st\<lparr>tt_kbd := k', tt_video := v'\<rparr>)" "kbd_rep k' q"
      "screen_shows kbuf sbuf (tt_video ?st) (concat (map reply ls)) v'" by auto
  have "screen_shows kbuf sbuf (tt_video st) (reply ks) (tt_video ?st)" by (auto simp: screen_shows_def)
  moreover have "echo_run m sleep old kbuf sbuf (length ks + 1 + (\<Sum>ks\<leftarrow>ls. length ks + 1)) (e, st) = Some (e', st\<lparr>tt_kbd := k', tt_video := v'\<rparr>)"
    unfolding echo_run_append [of m sleep old kbuf sbuf "length ks + 1"] r(1) using i(1) by simp
  ultimately show ?case using screen_shows_trans [OF _ i(3) Cons.prems(6-9)] i(2)
    by (intro exI [of _ k'] exI [of _ v'] exI [of _ e']) (simp del: echo_run.simps)
qed

lemma user_printf_literal:
  assumes "37 \<notin> set s" "0 \<notin> set s" "s \<noteq> []" "length s < 1024" "\<not> tt_over_serial st" "cursor_ok (tt_video st)" "off_screen (tt_video st) sbuf"
  shows "user_printf m old sbuf s [] st = Some (length s, st\<lparr>tt_video := poke sbuf (last s) (kprint s (tt_video st))\<rparr>)"
proof (rule user_printf_ok)
  show "vsprintf s [] = Some (length s, s)" using vsprintf_literal [OF assms(1), of "[]" 0 "[]" "[]"] by (simp add: vsprintf_def)
qed (use assms in simp_all)

text \<open>C14: A session with the echo program, through every layer from the keyboard buffer to the screen: with any sequence of
  lines waiting in the keyboard buffer (each of less than 512 keys, none of them a line end), the program greets, reads
  exactly these lines, and the screen afterwards is the one that results from printing the greeting, the prompt, and for
  each line the line as it is typed, the text \<^verbatim>\<open>Echo: \<close>, the line again and the prompt. Besides the screen only the
  program's two buffers change.\<close>
theorem echo_session:
  assumes rep: "kbd_rep (tt_kbd st) (concat (map (\<lambda>ks. ks @ [10]) ls) @ q)" and ls: "\<forall>ks \<in> set ls. ordinary ks \<and> length ks < 512"
    and tok: "length token = 512" and ser: "\<not> tt_over_serial st" and cur: "cursor_ok (tt_video st)"
    and off: "off_screen (tt_video st) kbuf" "off_screen (tt_video st) sbuf" "kbuf \<noteq> sbuf"
  shows "\<exists>k v e'. echo_main m sleep old kbuf sbuf token (\<Sum>ks\<leftarrow>ls. length ks + 1) st = Some (e', st\<lparr>tt_kbd := k, tt_video := v\<rparr>)
    \<and> kbd_rep k q \<and> screen_shows kbuf sbuf (tt_video st) (wmsg @ prompt @ concat (map reply ls)) v"
proof -
  have w: "37 \<notin> set wmsg" "0 \<notin> set wmsg" "wmsg \<noteq> []" "length wmsg < 1024" by (simp_all add: wmsg_def)
  define v1 where "v1 = poke sbuf (last wmsg) (kprint wmsg (tt_video st))"
  define v2 where "v2 = poke sbuf 32 (kprint prompt v1)"
  have k1: "cursor_ok v1" "off_screen v1 kbuf" "off_screen v1 sbuf"
    using kprint_keeps(1,3) [OF cur, of wmsg] off unfolding v1_def by (simp_all add: off_screen_def)
  have k2: "cursor_ok v2" "off_screen v2 kbuf" "off_screen v2 sbuf"
    using kprint_keeps(1,3) [OF k1(1), of prompt] k1 unfolding v2_def by (simp_all add: off_screen_def)
  have s1: "user_printf m old sbuf wmsg [] st = Some (length wmsg, st\<lparr>tt_video := v1\<rparr>)"
    unfolding v1_def by (rule user_printf_literal [OF w ser cur off(2)])
  have s2: "user_printf m old sbuf prompt [] (st\<lparr>tt_video := v1\<rparr>) = Some (2, st\<lparr>tt_video := v2\<rparr>)"
    using user_printf_literal [of prompt "st\<lparr>tt_video := v1\<rparr>" sbuf m old] ser k1 by (simp add: v2_def)
  have "screen_shows kbuf sbuf (tt_video st) wmsg v1" "screen_shows kbuf sbuf v1 prompt v2"
    unfolding screen_shows_def v1_def v2_def by (metis poke_same)+
  note sh = screen_shows_trans [OF this cur off]
  from echo_lines [of "st\<lparr>tt_video := v2\<rparr>" ls q "\<lparr>ec_token = token, ec_p = 0\<rparr>" kbuf sbuf m sleep old] assms k2 obtain k v e' where
    "echo_run m sleep old kbuf sbuf (\<Sum>ks\<leftarrow>ls. length ks + 1) (\<lparr>ec_token = token, ec_p = 0\<rparr>, st\<lparr>tt_video := v2\<rparr>) = Some (e', st\<lparr>tt_kbd := k, tt_video := v\<rparr>)"
    "kbd_rep k q" "screen_shows kbuf sbuf v2 (concat (map reply ls)) v" by auto
  with screen_shows_trans [OF sh _ cur off, of "concat (map reply ls)" v] s1 s2 show ?thesis
    by (intro exI [of _ k] exI [of _ v] exI [of _ e']) (simp add: echo_main_def echo_start_def)
qed

theorem echo_session_witness:
  "\<exists>k v e'. echo_main q_key (\<lambda>e. Some) [] 100 200 (replicate 512 0) 2 typed_tty = Some (e', typed_tty\<lparr>tt_kbd := k, tt_video := v\<rparr>)
    \<and> kbd_rep k [] \<and> screen_shows 100 200 (tt_video typed_tty) (wmsg @ prompt @ concat (map reply [[113]])) v"
proof -
  have rep: "kbd_rep (tt_kbd typed_tty) (concat (map (\<lambda>ks. ks @ [10]) [[113]]) @ [])" using typed_rep by simp
  have n: "(\<Sum>ks\<leftarrow>[[113 :: byte]]. length ks + 1) = 2" by simp
  show ?thesis
    by (rule echo_session [OF rep, unfolded n]) (simp_all add: ordinary_def typed_tty_def cursor_ok_def off_screen_def)
qed

end
