(* ===== verification/X86.thy ===== *)
theory X86
  imports Sched Descriptors
begin

text \<open>
  The part of the processor that the assembly files \<^verbatim>\<open>arch/x86/task.S\<close>, \<^verbatim>\<open>arch/x86/isr.S\<close> and
  \<^verbatim>\<open>arch/x86/kernel/sys_enter.S\<close> use: registers, one constructor of \<open>instr\<close> per form of instruction in these
  files, and the transfers of control that change the privilege level (interrupt, \<^verbatim>\<open>iret\<close>) with the checks of the
  code selector against the segment table. Loads of data segment registers are not checked, memory is the flat
  kernel address space, and \<^verbatim>\<open>iret\<close> is the one of a processor without nested tasks and virtual 8086 mode.
\<close>

section \<open>Loads and stores\<close>

definition load16 :: "mem \<Rightarrow> ptr \<Rightarrow> u16" where
  "load16 m a = bytes16 (m a) (m (a + 1))"

definition load32 :: "mem \<Rightarrow> ptr \<Rightarrow> u32" where
  "load32 m a = bytes32 (m a) (m (a + 1)) (m (a + 2)) (m (a + 3))"

definition store16 :: "mem \<Rightarrow> ptr \<Rightarrow> u16 \<Rightarrow> mem" where
  "store16 m a w = store_bytes m a (byte_list16 w)"

definition store32 :: "mem \<Rightarrow> ptr \<Rightarrow> u32 \<Rightarrow> mem" where
  "store32 m a w = store_bytes m a (byte_list32 w)"

text \<open>Two ranges of addresses have nothing in common.\<close>

definition apart :: "ptr \<Rightarrow> nat \<Rightarrow> ptr \<Rightarrow> nat \<Rightarrow> bool" where
  "apart a n b k \<longleftrightarrow> a + n \<le> b \<or> b + k \<le> a"

section \<open>Registers and instructions\<close>

datatype reg = EAX | ECX | EDX | EBX | ESP | EBP | ESI | EDI

datatype seg = CS | DS | ES | FS | GS | SS

record cpu =
  cp_reg :: "reg \<Rightarrow> u32"
  cp_seg :: "seg \<Rightarrow> u16"
  cp_eip :: u32
  cp_eflags :: u32
  cp_cr3 :: u32
  cp_mem :: mem

text \<open>Operands in the order of the source: source first, a memory operand as displacement and base register.\<close>

datatype instr =
    Cli
  | Movl reg reg
  | Movl_imm u32 reg
  | Movl_load nat reg reg
  | Movl_store reg nat reg
  | Movl_load_abs ptr reg
  | Movl_store_abs reg ptr
  | Movw_imm u16 reg
  | Movw_load nat reg reg
  | Movw_store reg nat reg
  | Movw_seg reg seg
  | Movl_cr3 reg
  | Movl_to_cr3 reg
  | Pushl reg
  | Pushl_imm u32
  | Pushl_mem nat reg
  | Pushl_seg seg
  | Popl reg
  | Pushw reg
  | Pushw_mem nat reg
  | Pushw_seg seg
  | Popw reg
  | Popw_seg seg
  | Pushf
  | Pushal
  | Popal
  | Xchgl reg nat reg
  | Addl_imm u32 reg
  | Subl_imm u32 reg
  | Cmpl_imm u32 reg
  | Cmpw_imm u16 reg
  | Cmpw reg reg

definition reg16 :: "u32 \<Rightarrow> u16" where
  "reg16 w = ucast w"

definition set_reg16 :: "u16 \<Rightarrow> u32 \<Rightarrow> u32" where
  "set_reg16 v w = (w AND 0xFFFF0000) OR ucast v"

section \<open>Flags\<close>

definition with_status :: "bool \<Rightarrow> bool \<Rightarrow> bool \<Rightarrow> bool \<Rightarrow> bool \<Rightarrow> bool \<Rightarrow> u32 \<Rightarrow> u32" where
  "with_status cf pf af zf sf ovf fl =
     (fl AND NOT 0x8D5) OR (if cf then 0x1 else 0) OR (if pf then 0x4 else 0) OR (if af then 0x10 else 0)
     OR (if zf then 0x40 else 0) OR (if sf then 0x80 else 0) OR (if ovf then 0x800 else 0)"

definition parity8 :: "'a :: len word \<Rightarrow> bool" where
  "parity8 w = even (length (filter (bit w) [0..<8]))"

definition top_bit :: "'a :: len word \<Rightarrow> bool" where
  "top_bit w = bit w (LENGTH('a) - 1)"

definition sub_flags :: "'a :: len word \<Rightarrow> 'a word \<Rightarrow> u32 \<Rightarrow> u32" where
  "sub_flags a b = with_status (a < b) (parity8 (a - b)) (a AND 15 < b AND 15) (a = b) (top_bit (a - b))
     (top_bit a \<noteq> top_bit b \<and> top_bit (a - b) \<noteq> top_bit a)"

definition add_flags :: "'a :: len word \<Rightarrow> 'a word \<Rightarrow> u32 \<Rightarrow> u32" where
  "add_flags a b = with_status (a + b < a) (parity8 (a + b)) (15 < unat (a AND 15) + unat (b AND 15)) (a + b = 0) (top_bit (a + b))
     (top_bit a = top_bit b \<and> top_bit (a + b) \<noteq> top_bit a)"

definition carry :: "u32 \<Rightarrow> bool" where "carry fl = bit fl 0"
definition zero :: "u32 \<Rightarrow> bool" where "zero fl = bit fl 6"

section \<open>Execution\<close>

definition set_reg :: "reg \<Rightarrow> u32 \<Rightarrow> cpu \<Rightarrow> cpu" where
  "set_reg r w s = s\<lparr>cp_reg := (cp_reg s)(r := w)\<rparr>"

definition set_seg :: "seg \<Rightarrow> u16 \<Rightarrow> cpu \<Rightarrow> cpu" where
  "set_seg r w s = s\<lparr>cp_seg := (cp_seg s)(r := w)\<rparr>"

definition ea :: "nat \<Rightarrow> reg \<Rightarrow> cpu \<Rightarrow> ptr" where
  "ea d r s = unat (cp_reg s r + of_nat d)"

definition pushl :: "u32 \<Rightarrow> cpu \<Rightarrow> cpu" where
  "pushl w s = (let sp = cp_reg s ESP - 4 in s\<lparr>cp_reg := (cp_reg s)(ESP := sp), cp_mem := store32 (cp_mem s) (unat sp) w\<rparr>)"

definition pushw :: "u16 \<Rightarrow> cpu \<Rightarrow> cpu" where
  "pushw w s = (let sp = cp_reg s ESP - 2 in s\<lparr>cp_reg := (cp_reg s)(ESP := sp), cp_mem := store16 (cp_mem s) (unat sp) w\<rparr>)"

definition top32 :: "cpu \<Rightarrow> u32" where
  "top32 s = load32 (cp_mem s) (unat (cp_reg s ESP))"

definition top16 :: "cpu \<Rightarrow> u16" where
  "top16 s = load16 (cp_mem s) (unat (cp_reg s ESP))"

definition drop_stack :: "u32 \<Rightarrow> cpu \<Rightarrow> cpu" where
  "drop_stack n s = set_reg ESP (cp_reg s ESP + n) s"

definition popl :: "reg \<Rightarrow> cpu \<Rightarrow> cpu" where
  "popl r s = set_reg r (top32 s) (drop_stack 4 s)"

primrec exec :: "instr \<Rightarrow> cpu \<Rightarrow> cpu" where
  "exec Cli s = s\<lparr>cp_eflags := cp_eflags s AND NOT 0x200\<rparr>"
| "exec (Movl a b) s = set_reg b (cp_reg s a) s"
| "exec (Movl_imm w b) s = set_reg b w s"
| "exec (Movl_load d a b) s = set_reg b (load32 (cp_mem s) (ea d a s)) s"
| "exec (Movl_store a d b) s = s\<lparr>cp_mem := store32 (cp_mem s) (ea d b s) (cp_reg s a)\<rparr>"
| "exec (Movl_load_abs p b) s = set_reg b (load32 (cp_mem s) p) s"
| "exec (Movl_store_abs a p) s = s\<lparr>cp_mem := store32 (cp_mem s) p (cp_reg s a)\<rparr>"
| "exec (Movw_imm w b) s = set_reg b (set_reg16 w (cp_reg s b)) s"
| "exec (Movw_load d a b) s = set_reg b (set_reg16 (load16 (cp_mem s) (ea d a s)) (cp_reg s b)) s"
| "exec (Movw_store a d b) s = s\<lparr>cp_mem := store16 (cp_mem s) (ea d b s) (reg16 (cp_reg s a))\<rparr>"
| "exec (Movw_seg a g) s = set_seg g (reg16 (cp_reg s a)) s"
| "exec (Movl_cr3 b) s = set_reg b (cp_cr3 s) s"
| "exec (Movl_to_cr3 a) s = s\<lparr>cp_cr3 := cp_reg s a\<rparr>"
| "exec (Pushl a) s = pushl (cp_reg s a) s"
| "exec (Pushl_imm w) s = pushl w s"
| "exec (Pushl_mem d a) s = pushl (load32 (cp_mem s) (ea d a s)) s"
| "exec (Pushl_seg g) s = pushl (ucast (cp_seg s g)) s"
| "exec (Popl b) s = popl b s"
| "exec (Pushw a) s = pushw (reg16 (cp_reg s a)) s"
| "exec (Pushw_mem d a) s = pushw (load16 (cp_mem s) (ea d a s)) s"
| "exec (Pushw_seg g) s = pushw (cp_seg s g) s"
| "exec (Popw b) s = set_reg b (set_reg16 (top16 s) (cp_reg s b)) (drop_stack 2 s)"
| "exec (Popw_seg g) s = set_seg g (top16 s) (drop_stack 2 s)"
| "exec Pushf s = pushl (cp_eflags s) s"
| "exec Pushal s =
     (let r = cp_reg s in
      pushl (r EDI) (pushl (r ESI) (pushl (r EBP) (pushl (r ESP) (pushl (r EBX) (pushl (r EDX) (pushl (r ECX) (pushl (r EAX) s))))))))"
| "exec Popal s =
     popl EAX (popl ECX (popl EDX (popl EBX (drop_stack 4 (popl EBP (popl ESI (popl EDI s)))))))"
| "exec (Xchgl a d b) s =
     (let p = ea d b s in set_reg a (load32 (cp_mem s) p) (s\<lparr>cp_mem := store32 (cp_mem s) p (cp_reg s a)\<rparr>))"
| "exec (Addl_imm w b) s = set_reg b (cp_reg s b + w) (s\<lparr>cp_eflags := add_flags (cp_reg s b) w (cp_eflags s)\<rparr>)"
| "exec (Subl_imm w b) s = set_reg b (cp_reg s b - w) (s\<lparr>cp_eflags := sub_flags (cp_reg s b) w (cp_eflags s)\<rparr>)"
| "exec (Cmpl_imm w b) s = s\<lparr>cp_eflags := sub_flags (cp_reg s b) w (cp_eflags s)\<rparr>"
| "exec (Cmpw_imm w b) s = s\<lparr>cp_eflags := sub_flags (reg16 (cp_reg s b)) w (cp_eflags s)\<rparr>"
| "exec (Cmpw a b) s = s\<lparr>cp_eflags := sub_flags (reg16 (cp_reg s b)) (reg16 (cp_reg s a)) (cp_eflags s)\<rparr>"

fun run :: "instr list \<Rightarrow> cpu \<Rightarrow> cpu" where
  "run [] s = s"
| "run (i # is) s = run is (exec i s)"

text \<open>\<^verbatim>\<open>call\<close> of a routine at a label and \<^verbatim>\<open>ret\<close>.\<close>

definition call_near :: "u32 \<Rightarrow> cpu \<Rightarrow> cpu" where
  "call_near ra s = pushl ra s"

definition ret :: "cpu \<Rightarrow> cpu" where
  "ret s = (drop_stack 4 s)\<lparr>cp_eip := top32 s\<rparr>"

section \<open>Changes of the privilege level\<close>

definition rpl :: "u16 \<Rightarrow> u16" where
  "rpl sel = sel AND 3"

definition descriptor :: "(u32 \<times> u32) list \<Rightarrow> u16 \<Rightarrow> (u32 \<times> u32) option" where
  "descriptor gdt sel = (let i = unat (drop_bit 3 sel) in if i \<noteq> 0 \<and> \<not> bit sel 2 \<and> i < length gdt then Some (gdt ! i) else None)"

text \<open>A return may go to a present code segment whose privilege level is that of the selector and not higher than
  the current one.\<close>

definition code_selector :: "(u32 \<times> u32) list \<Rightarrow> u16 \<Rightarrow> u16 \<Rightarrow> bool" where
  "code_selector gdt cpl sel =
     (case descriptor gdt sel of None \<Rightarrow> False
      | Some d \<Rightarrow> desc_present d \<and> desc_type d AND 0x18 = 0x18 \<and> cpl \<le> rpl sel \<and> desc_dpl d = ucast (rpl sel))"

definition stack_selector :: "(u32 \<times> u32) list \<Rightarrow> u16 \<Rightarrow> u16 \<Rightarrow> bool" where
  "stack_selector gdt cpl sel =
     (case descriptor gdt sel of None \<Rightarrow> False
      | Some d \<Rightarrow> desc_present d \<and> desc_type d AND 0x1A = 0x12 \<and> rpl sel = cpl \<and> desc_dpl d = ucast cpl)"

text \<open>A return to a lower privilege level clears the data segment registers that it may not use.\<close>

definition outer_seg :: "(u32 \<times> u32) list \<Rightarrow> u16 \<Rightarrow> u16 \<Rightarrow> u16" where
  "outer_seg gdt cpl sel = (case descriptor gdt sel of None \<Rightarrow> 0 | Some d \<Rightarrow> if desc_dpl d < ucast cpl then 0 else sel)"

definition iret :: "(u32 \<times> u32) list \<Rightarrow> cpu \<Rightarrow> cpu option" where
  "iret gdt s =
     (let sp = cp_reg s ESP; m = cp_mem s; cpl = rpl (cp_seg s CS);
          cs = ucast (load32 m (unat (sp + 4)));
          s1 = s\<lparr>cp_eip := load32 m (unat sp), cp_seg := (cp_seg s)(CS := cs), cp_eflags := load32 m (unat (sp + 8))\<rparr>
      in
      if \<not> code_selector gdt cpl cs then None
      else if rpl cs = cpl then Some (set_reg ESP (sp + 12) s1)
      else
        let ss = ucast (load32 m (unat (sp + 16))); g = cp_seg s; new = rpl cs in
        if \<not> stack_selector gdt new ss then None
        else Some (set_reg ESP (load32 m (unat (sp + 12)))
          (s1\<lparr>cp_seg := g(CS := cs, SS := ss, DS := outer_seg gdt new (g DS), ES := outer_seg gdt new (g ES),
            FS := outer_seg gdt new (g FS), GS := outer_seg gdt new (g GS))\<rparr>)))"

text \<open>An interrupt through an interrupt gate of the kernel: \<open>esp0\<close> and \<open>ss0\<close> come from the task segment.\<close>

definition interrupt :: "u32 \<Rightarrow> u16 \<Rightarrow> u32 \<Rightarrow> u32 \<Rightarrow> cpu \<Rightarrow> cpu" where
  "interrupt esp0 ss0 handler next_eip s =
     (let s1 = (if rpl (cp_seg s CS) = 0 then s
                else pushl (cp_reg s ESP) (pushl (ucast (cp_seg s SS)) (set_seg SS ss0 (set_reg ESP esp0 s))));
          s2 = pushl next_eip (pushl (ucast (cp_seg s CS)) (pushl (cp_eflags s) s1))
      in set_seg CS 0x08 (s2\<lparr>cp_eip := handler, cp_eflags := cp_eflags s AND NOT 0x200\<rparr>))"

section \<open>Facts about memory\<close>

lemma store_bytes_hit: "a \<le> x \<Longrightarrow> x < a + length bs \<Longrightarrow> store_bytes m a bs x = bs ! (x - a)"
  by (simp add: store_bytes_def)

lemma store_bytes_miss: "x < a \<or> a + length bs \<le> x \<Longrightarrow> store_bytes m a bs x = m x"
  by (auto simp: store_bytes_def)

lemma load32_store32 [simp]: "load32 (store32 m a w) a = w"
  by (simp add: load32_def store32_def store_bytes_hit byte_list32_def bytes32_split)

lemma load16_store16 [simp]: "load16 (store16 m a w) a = w"
  by (simp add: load16_def store16_def store_bytes_hit byte_list16_def bytes16_split)

lemma store_bytes_apart:
  assumes "apart a n b (length bs)" "i < n"
  shows "store_bytes m b bs (a + i) = m (a + i)"
  using assms by (intro store_bytes_miss) (auto simp: apart_def)

lemma load_store_apart:
  "apart a 4 b 4 \<Longrightarrow> load32 (store32 m b w) a = load32 m a"
  "apart a 4 b 2 \<Longrightarrow> load32 (store16 m b v) a = load32 m a"
  "apart a 2 b 4 \<Longrightarrow> load16 (store32 m b w) a = load16 m a"
  "apart a 2 b 2 \<Longrightarrow> load16 (store16 m b v) a = load16 m a"
  using store_bytes_apart [of a 4 b "byte_list32 w" 0] store_bytes_apart [of a 4 b "byte_list32 w" 1]
    store_bytes_apart [of a 4 b "byte_list32 w" 2] store_bytes_apart [of a 4 b "byte_list32 w" 3]
    store_bytes_apart [of a 4 b "byte_list16 v" 0] store_bytes_apart [of a 4 b "byte_list16 v" 1]
    store_bytes_apart [of a 4 b "byte_list16 v" 2] store_bytes_apart [of a 4 b "byte_list16 v" 3]
    store_bytes_apart [of a 2 b "byte_list32 w" 0] store_bytes_apart [of a 2 b "byte_list32 w" 1]
    store_bytes_apart [of a 2 b "byte_list16 v" 0] store_bytes_apart [of a 2 b "byte_list16 v" 1]
  by (simp_all add: load32_def load16_def store32_def store16_def)

lemma apart_same:
  "i + n \<le> j \<or> j + k \<le> i \<Longrightarrow> apart (a + i) n (a + j) k" "n \<le> j \<Longrightarrow> apart a n (a + j) k" "k \<le> i \<Longrightarrow> apart (a + i) n a k"
  by (auto simp: apart_def)

text \<open>Parts of ranges that have nothing in common.\<close>

lemma apart_parts:
  assumes "apart a n b k"
  shows "n' \<le> n \<Longrightarrow> k' \<le> k \<Longrightarrow> apart a n' b k'" "n' \<le> n \<Longrightarrow> k' \<le> k \<Longrightarrow> apart b k' a n'"
    and "i + n' \<le> n \<Longrightarrow> k' \<le> k \<Longrightarrow> apart (a + i) n' b k'" "i + n' \<le> n \<Longrightarrow> k' \<le> k \<Longrightarrow> apart b k' (a + i) n'"
    and "n' \<le> n \<Longrightarrow> j + k' \<le> k \<Longrightarrow> apart a n' (b + j) k'" "n' \<le> n \<Longrightarrow> j + k' \<le> k \<Longrightarrow> apart (b + j) k' a n'"
    and "i + n' \<le> n \<Longrightarrow> j + k' \<le> k \<Longrightarrow> apart (a + i) n' (b + j) k'"
    and "i + n' \<le> n \<Longrightarrow> j + k' \<le> k \<Longrightarrow> apart (b + j) k' (a + i) n'"
  using assms by (auto simp: apart_def)

lemma apart_commute: "apart a n b k \<longleftrightarrow> apart b k a n"
  by (auto simp: apart_def)

lemma store_miss:
  "x < a \<or> a + 4 \<le> x \<Longrightarrow> store32 m a w x = m x"
  "x < a \<or> a + 2 \<le> x \<Longrightarrow> store16 m a v x = m x"
  by (simp_all add: store32_def store16_def store_bytes_miss)

lemma load_cong:
  "(\<And>i. i < 4 \<Longrightarrow> m (a + i) = m' (a + i)) \<Longrightarrow> load32 m a = load32 m' a"
  "(\<And>i. i < 2 \<Longrightarrow> m (a + i) = m' (a + i)) \<Longrightarrow> load16 m a = load16 m' a"
proof -
  assume "\<And>i. i < 4 \<Longrightarrow> m (a + i) = m' (a + i)"
  from this [of 0] this [of 1] this [of 2] this [of 3] show "load32 m a = load32 m' a" by (simp add: load32_def)
next
  assume "\<And>i. i < 2 \<Longrightarrow> m (a + i) = m' (a + i)"
  from this [of 0] this [of 1] show "load16 m a = load16 m' a" by (simp add: load16_def)
qed

text \<open>Reading a field out of bytes that were stored as a whole.\<close>

lemma load_bytes:
  "drop i bs = byte_list32 w @ cs \<Longrightarrow> load32 (store_bytes m a bs) (a + i) = w"
  "drop i bs = byte_list16 v @ cs \<Longrightarrow> load16 (store_bytes m a bs) (a + i) = v"
proof -
  assume d: "drop i bs = byte_list32 w @ cs"
  from arg_cong [OF d, of length] have "i + 4 \<le> length bs" by simp
  moreover have "bs ! (i + k) = (byte_list32 w @ cs) ! k" if "i + k < length bs" for k
    using that d by (metis nth_drop less_imp_le_nat add_leD1)
  note this [of 0] this [of 1] this [of 2] this [of 3]
  ultimately show "load32 (store_bytes m a bs) (a + i) = w"
    by (simp add: load32_def store_bytes_hit byte_list32_def bytes32_split)
next
  assume d: "drop i bs = byte_list16 v @ cs"
  from arg_cong [OF d, of length] have "i + 2 \<le> length bs" by simp
  moreover have "bs ! (i + k) = (byte_list16 v @ cs) ! k" if "i + k < length bs" for k
    using that d by (metis nth_drop less_imp_le_nat add_leD1)
  note this [of 0] this [of 1]
  ultimately show "load16 (store_bytes m a bs) (a + i) = v"
    by (simp add: load16_def store_bytes_hit byte_list16_def bytes16_split)
qed

section \<open>Facts about flags and registers\<close>

lemma bit_with_status:
  "bit (with_status cf pf af zf sf ovf fl) 0 = cf"
  "bit (with_status cf pf af zf sf ovf fl) 6 = zf"
  "bit (with_status cf pf af zf sf ovf fl) 9 = bit fl 9"
  by (auto simp: with_status_def bit_simps)

lemma flags_of_sub [simp]:
  "carry (sub_flags a b fl) \<longleftrightarrow> a < b"
  "zero (sub_flags a b fl) \<longleftrightarrow> a = b"
  "bit (sub_flags a b fl) 9 = bit fl 9"
  by (simp_all add: carry_def zero_def sub_flags_def bit_with_status)

lemma reg16_set [simp]: "reg16 (set_reg16 v w) = v"
proof (rule bit_word_eqI)
  fix n
  assume "n < LENGTH(16)"
  moreover have "\<not> bit (0xFFFF0000 :: u32) n" if "n < 16"
    using that by (auto simp: numeral_eq_Suc less_Suc_eq)
  ultimately show "bit (reg16 (set_reg16 v w)) n = bit v n"
    by (simp add: reg16_def set_reg16_def bit_simps)
qed

text \<open>Addresses relative to a base that is not at the top of the address space.\<close>

definition based :: "u32 \<Rightarrow> ptr \<Rightarrow> bool" where
  "based w b \<longleftrightarrow> unat w = b \<and> b + 512 \<le> 2 ^ 32"

lemma unat_plus_of_nat:
  assumes "unat (w :: u32) + n < 2 ^ 32"
  shows "unat (w + of_nat n) = unat w + n"
proof -
  have k: "unat (of_nat n :: u32) = n" using assms by (intro unat_of_nat_small_u32) simp
  then have "unat w + unat (of_nat n :: u32) < 2 ^ LENGTH(32)" using assms by simp
  then have "unat (w + of_nat n) = unat w + unat (of_nat n :: u32)" by (rule unat_add_lem [THEN iffD1])
  then show ?thesis by (simp only: k)
qed

lemma based_offset:
  assumes "based w b"
  shows "numeral k < (512 :: nat) \<Longrightarrow> unat (w + numeral k) = b + numeral k"
    and "numeral k < (512 :: nat) \<Longrightarrow> unat (numeral k + w) = b + numeral k"
    and "unat w = b"
proof -
  have b: "unat w = b" "b + 512 \<le> 2 ^ 32" using assms by (auto simp: based_def)
  show "unat (w + numeral k) = b + numeral k" if "numeral k < (512 :: nat)"
    using unat_plus_of_nat [of w "numeral k"] that b by (simp only: of_nat_numeral)
  then show "unat (numeral k + w) = b + numeral k" if "numeral k < (512 :: nat)"
    using that by (simp only: add.commute)
  show "unat w = b" by (rule b(1))
qed

text \<open>Symbolic execution of straight-line code.\<close>

lemmas exec_defs = set_reg_def set_seg_def ea_def pushl_def pushw_def top32_def top16_def drop_stack_def popl_def Let_def

lemmas sym_exec = exec_defs load_store_apart apart_same

end
