(* ===== verification/Task_Switch.thy ===== *)
theory Task_Switch
  imports X86
begin

text \<open>
  The low level part of a task switch, \<^verbatim>\<open>arch/x86/task.S\<close>: the routine that jumps to the first thread and the
  routine that saves the context of the running task on its stack and loads the context of another one. The
  instructions are those of the file in its order; the labels separate the groups below.
\<close>

section \<open>Code\<close>

abbreviation (input) USER_DS_RPL :: u16 where "USER_DS_RPL \<equiv> 0x23"
abbreviation (input) USER_CS_RPL :: u16 where "USER_CS_RPL \<equiv> 0x1B"

definition initial_task_code :: "instr list" where
  "initial_task_code =
     [Cli, Movl_load 4 ESP EAX, Movl_load 10 EAX EBX, Movl_load 48 EAX ECX, Movl_load 42 EAX EDX,
      Movl EBX ESP, Pushl ECX, Pushl_seg CS, Pushl EDX]"

definition initial_task :: "(u32 \<times> u32) list \<Rightarrow> cpu \<Rightarrow> cpu option" where
  "initial_task gdt s = iret gdt (run initial_task_code s)"

definition switch_enter :: "instr list" where
  "switch_enter =
     [Cli, Pushl EAX, Pushl EBX, Movl_load 12 ESP EAX, Movw_load 0 EAX EBX, Cmpw_imm USER_DS_RPL EBX,
      Movl_load 20 EAX EBX]"

definition switch_user :: "instr list" where
  "switch_user = [Pushl_imm 0x23, Pushl EBX, Pushl_imm 0x1B]"

definition switch_kernel :: "instr list" where
  "switch_kernel = [Pushl_imm 0x10, Pushl EBX, Pushl_imm 0x08]"

text \<open>From \<^verbatim>\<open>cs_cont\<close> to the switch of the stack; \<open>cur\<close> is the address of \<^verbatim>\<open>arch_tss_cur_task\<close>.\<close>

definition switch_frame :: "instr list" where
  "switch_frame =
     [Popl EBX, Subl_imm 4 ESP, Movl_load 20 ESP EAX, Movl_store EAX 0 ESP,
      Movw_load 16 ESP EAX, Movw_store EAX 20 ESP, Movl_load 12 ESP EAX, Movl_store EAX 16 ESP,
      Pushf, Popl EAX, Movl_store EAX 12 ESP, Popl EAX, Xchgl EAX 0 ESP]"

definition switch_save :: "ptr \<Rightarrow> instr list" where
  "switch_save cur =
     [Pushal, Movl_load 52 ESP EAX, Pushw_mem 0 EAX, Pushl EAX, Movl_cr3 EAX, Xchgl EAX 0 ESP,
      Movl_load_abs cur EAX, Movl_store ESP 10 EAX,
      Movw_load 8 EAX EBX, Movl_load 58 ESP EAX, Movw_load 8 EAX ECX, Cmpw EBX ECX, Movl_load 58 ESP EAX]"

definition switch_load :: "ptr \<Rightarrow> instr list" where
  "switch_load cur =
     [Movl_load 10 EAX ESP, Movl_store_abs EAX cur, Popl EAX, Movl_to_cr3 EAX, Popw EAX,
      Movw_seg EAX DS, Movw_seg EAX ES, Movw_seg EAX FS, Movw_seg EAX GS, Popal]"

definition switch_same :: "instr list" where
  "switch_same =
     [Pushl EAX, Movl_load 12 ESP EAX, Xchgl EAX 20 ESP, Movl_load 8 ESP EAX, Xchgl EAX 16 ESP,
      Movl_load 4 ESP EAX, Xchgl EAX 12 ESP, Popl EAX, Addl_imm 0x08 ESP]"

definition task_switch_out :: "ptr \<Rightarrow> cpu \<Rightarrow> cpu" where
  "task_switch_out cur s =
     (let s1 = run switch_enter s;
          s2 = run (if \<not> zero (cp_eflags s1) then switch_kernel else switch_user) s1
      in run (switch_save cur) (run switch_frame s2))"

definition task_switch_in :: "(u32 \<times> u32) list \<Rightarrow> ptr \<Rightarrow> cpu \<Rightarrow> cpu option" where
  "task_switch_in gdt cur s =
     (let s1 = run (switch_load cur) s
      in iret gdt (if \<not> zero (cp_eflags s1) then s1 else run switch_same s1))"

definition task_switch_to :: "(u32 \<times> u32) list \<Rightarrow> ptr \<Rightarrow> cpu \<Rightarrow> cpu option" where
  "task_switch_to gdt cur s = task_switch_in gdt cur (task_switch_out cur s)"

section \<open>Saving\<close>

text \<open>The call of the routine: the stack holds the return address and the argument, a task \<open>t\<close>; \<open>c\<close> is the task in
  \<^verbatim>\<open>arch_tss_cur_task\<close>. The stack, the two structures and the variable lie apart.\<close>

definition switch_call :: "ptr \<Rightarrow> cpu \<Rightarrow> u32 \<Rightarrow> ptr \<Rightarrow> u32 \<Rightarrow> ptr \<Rightarrow> u32 \<Rightarrow> ptr \<Rightarrow> bool" where
  "switch_call cur s w b t tk c ck \<longleftrightarrow>
     cp_reg s ESP = w + 128 \<and> based w b \<and> b + 1024 \<le> 2 ^ 32 \<and> load32 (cp_mem s) (b + 132) = t \<and> based t tk
     \<and> load32 (cp_mem s) cur = c \<and> based c ck
     \<and> apart tk 56 b 140 \<and> apart ck 56 b 140 \<and> apart cur 4 b 140 \<and> apart (tk + 8) 2 (ck + 10) 4"

lemma prefix_ok:
  assumes e: "cp_reg s ESP = w + 128" and w: "based w b"
    and a: "load32 (cp_mem s) (b + 132) = t" and t: "based t tk" and ap: "apart tk 56 b 140"
  shows "run switch_frame (run [Pushl_imm ds, Pushl EBX, Pushl_imm cs] (run switch_enter s)) =
    (let fl = sub_flags (112 + w) 4 (sub_flags (load16 (cp_mem s) tk) 35 (cp_eflags s AND NOT 0x200));
         m0 = store32 (cp_mem s) (b + 124) (cp_reg s EAX);
         m1 = store32 (store32 (store32 (store32 m0 (b + 120) (cp_reg s EBX)) (b + 116) ds)
                (b + 112) (load32 (cp_mem s) (tk + 20))) (b + 108) cs;
         m2 = store32 (store16 (store32 m1 (b + 108) (load32 (cp_mem s) (b + 128))) (b + 128) (load16 m0 (b + 124)))
                (b + 124) (cp_reg s EBX)
     in s\<lparr>cp_reg := (cp_reg s)(EBX := cs, ESP := 112 + w, EAX := load32 (cp_mem s) (tk + 20)), cp_eflags := fl,
          cp_mem := store32 (store32 (store32 m2 (b + 104) fl) (b + 120) fl) (b + 112) (load32 (cp_mem s) (b + 128))\<rparr>)"
  by (simp add: switch_enter_def switch_frame_def sym_exec e based_offset [OF w] based_offset [OF t] a apart_parts [OF ap])

lemma save_ok:
  assumes e: "cp_reg s ESP = 112 + w" and w: "based w b"
    and a: "load32 (cp_mem s) (b + 132) = t" and t: "based t tk" and ap: "apart tk 56 b 140"
    and c: "load32 (cp_mem s) cur = c" "based c ck" and cc: "apart cur 4 b 140" "apart ck 56 b 140"
    and ct: "apart (tk + 8) 2 (ck + 10) 4"
  shows "run (switch_save cur) s =
    (let r = cp_reg s;
         m1 = store32 (store32 (store32 (store32 (cp_mem s) (b + 108) (r EAX)) (b + 104) (r ECX)) (b + 100) (r EDX)) (b + 96) (r EBX);
         m2 = store32 (store32 (store32 (store32 m1 (b + 92) (112 + w)) (b + 88) (r EBP)) (b + 84) (r ESI)) (b + 80) (r EDI);
         m3 = store32 (store32 (store16 m2 (b + 78) (load16 (cp_mem s) tk)) (b + 74) t) (b + 74) (cp_cr3 s)
     in s\<lparr>cp_mem := store32 m3 (ck + 10) (74 + w),
          cp_eflags := sub_flags (load16 (cp_mem s) (tk + 8)) (load16 (cp_mem s) (ck + 8)) (cp_eflags s),
          cp_reg := r(ESP := 74 + w, EBX := set_reg16 (load16 (cp_mem s) (ck + 8)) (r EBX),
            ECX := set_reg16 (load16 (cp_mem s) (tk + 8)) (r ECX), EAX := t)\<rparr>)"
  by (simp add: switch_save_def sym_exec e based_offset [OF w] based_offset [OF t] based_offset [OF c(2)] a c
      apart_parts [OF ap] apart_parts [OF cc(1)] apart_parts [OF cc(2)] ct)

lemma out_ok:
  fixes ds cs :: u32
  assumes call: "switch_call cur s w b t tk c ck"
  defines "s' \<equiv> run (switch_save cur) (run switch_frame (run [Pushl_imm ds, Pushl EBX, Pushl_imm cs] (run switch_enter s)))"
  shows "cp_reg s' EAX = t" "cp_seg s' = cp_seg s" "cp_cr3 s' = cp_cr3 s"
    and "zero (cp_eflags s') \<longleftrightarrow> load16 (cp_mem s) (tk + 8) = load16 (cp_mem s) (ck + 8)"
    and "load32 (cp_mem s') (ck + 10) = 74 + w"
    and "load32 (cp_mem s') (b + 112) = load32 (cp_mem s) (b + 128)"
    and "load32 (cp_mem s') (b + 116) = ds"
    and "\<not> bit (load32 (cp_mem s') (b + 120)) 9"
    and "load32 (cp_mem s') (b + 74) = cp_cr3 s"
    and "load16 (cp_mem s') (b + 78) = load16 (cp_mem s) tk"
    and "load32 (cp_mem s') (b + 96) = cs"
    and "load32 (cp_mem s') (b + 108) = load32 (cp_mem s) (tk + 20)"
    and "x < b + 74 \<or> b + 132 \<le> x \<Longrightarrow> x < ck + 10 \<or> ck + 14 \<le> x \<Longrightarrow> cp_mem s' x = cp_mem s x"
proof -
  have call: "cp_reg s ESP = w + 128" "based w b" "load32 (cp_mem s) (b + 132) = t" "based t tk"
    "load32 (cp_mem s) cur = c" "based c ck" "apart tk 56 b 140" "apart ck 56 b 140" "apart cur 4 b 140" "apart (tk + 8) 2 (ck + 10) 4"
    using call by (simp_all add: switch_call_def)
  define s1 where "s1 = run switch_frame (run [Pushl_imm ds, Pushl EBX, Pushl_imm cs] (run switch_enter s))"
  note p = s1_def [unfolded prefix_ok [OF call(1-4,7)]]
  note parts = apart_parts [OF call(7)] apart_parts [OF call(8)] apart_parts [OF call(9)] call(10) load_store_apart apart_same
  note s' = s'_def [folded s1_def]
  have q: "s' = run (switch_save cur) s1" by (simp add: s')
  have m: "load32 (cp_mem s1) (b + 132) = t" "load32 (cp_mem s1) cur = c"
    by (simp_all add: p parts Let_def call)
  have e: "cp_reg s1 ESP = 112 + w" by (simp add: p Let_def)
  note q = q [unfolded save_ok [OF e call(2) m(1) call(4) call(7) m(2) call(6) call(9) call(8) call(10)]]
  show "cp_reg s' EAX = t" "cp_seg s' = cp_seg s" "cp_cr3 s' = cp_cr3 s" by (simp_all add: q p Let_def)
  show "zero (cp_eflags s') \<longleftrightarrow> load16 (cp_mem s) (tk + 8) = load16 (cp_mem s) (ck + 8)"
    by (simp add: q p Let_def parts)
  show "load32 (cp_mem s') (ck + 10) = 74 + w" by (simp add: q Let_def)
  show "load32 (cp_mem s') (b + 112) = load32 (cp_mem s) (b + 128)" "load32 (cp_mem s') (b + 116) = ds"
    "load32 (cp_mem s') (b + 74) = cp_cr3 s" "load16 (cp_mem s') (b + 78) = load16 (cp_mem s) tk"
    "load32 (cp_mem s') (b + 96) = cs" "load32 (cp_mem s') (b + 108) = load32 (cp_mem s) (tk + 20)"
    by (simp_all add: q p Let_def parts)
  show "\<not> bit (load32 (cp_mem s') (b + 120)) 9"
    by (simp add: q p Let_def parts bit_and_iff)
  assume x: "x < b + 74 \<or> b + 132 \<le> x" "x < ck + 10 \<or> ck + 14 \<le> x"
  have "store32 m (b + i) v x = m x" "store16 m (b + i) u x = m x" if "74 \<le> i" "i \<le> 128" for m i v u
    using x(1) that by (auto intro!: store_miss)
  moreover have "store32 m (ck + 10) v x = m x" for m v using x(2) by (auto intro!: store_miss)
  ultimately show "cp_mem s' x = cp_mem s x" by (simp add: q p Let_def)
qed

section \<open>Loading\<close>

lemma load_ok:
  assumes t: "cp_reg s EAX = t" "based t tk" and sp: "load32 (cp_mem s) (tk + 10) = v" "based v vb"
    and ap: "apart cur 4 vb 58"
  shows "run (switch_load cur) s =
    (let m = cp_mem s; d = load16 m (vb + 4)
     in s\<lparr>cp_mem := store32 m cur t, cp_cr3 := load32 m vb,
          cp_seg := (cp_seg s)(DS := d, ES := d, FS := d, GS := d),
          cp_reg := (cp_reg s)(EDI := load32 m (vb + 6), ESI := load32 m (vb + 10), EBP := load32 m (vb + 14),
            EBX := load32 m (vb + 22), EDX := load32 m (vb + 26), ECX := load32 m (vb + 30),
            ESP := 38 + v, EAX := load32 m (vb + 34))\<rparr>)"
  by (simp add: switch_load_def sym_exec t based_offset [OF t(2)] sp(1) based_offset [OF sp(2)] apart_parts [OF ap])

lemma same_ok:
  assumes e: "cp_reg s ESP = 38 + v" and v: "based v vb"
  shows "run switch_same s = s\<lparr>cp_mem := store32 (store32 (store32 (store32 (cp_mem s) (vb + 34) (cp_reg s EAX))
      (vb + 54) (load32 (cp_mem s) (vb + 46))) (vb + 50) (load32 (cp_mem s) (vb + 42))) (vb + 46) (load32 (cp_mem s) (vb + 38)),
    cp_eflags := add_flags (38 + v) 8 (cp_eflags s), cp_reg := (cp_reg s)(ESP := 46 + v)\<rparr>"
  by (simp add: switch_same_def sym_exec e based_offset [OF v])

text \<open>A context whose code selector is not one of a code segment cannot be entered.\<close>

lemma in_fault:
  assumes t: "cp_reg s EAX = t" "based t tk" and sp: "load32 (cp_mem s) (tk + 10) = v" "based v vb"
    and ap: "apart cur 4 vb 58" and cs: "\<not> code_selector gdt (rpl (cp_seg s CS)) (ucast (load32 (cp_mem s) (vb + 42)))"
  shows "task_switch_in gdt cur s = None"
  using cs by (simp add: task_switch_in_def load_ok [OF t sp ap] same_ok [OF _ sp(2)] iret_def Let_def based_offset [OF sp(2)]
      load_store_apart apart_same apart_parts [OF ap])

lemma in_same:
  assumes t: "cp_reg s EAX = t" "based t tk" and sp: "load32 (cp_mem s) (tk + 10) = v" "based v vb"
    and ap: "apart cur 4 vb 58" and z: "zero (cp_eflags s)"
    and cs: "code_selector gdt (rpl (cp_seg s CS)) (ucast (load32 (cp_mem s) (vb + 42)))"
      "rpl (ucast (load32 (cp_mem s) (vb + 42))) = rpl (cp_seg s CS)"
  shows "task_switch_in gdt cur s =
    (let m = cp_mem s; d = load16 m (vb + 4)
     in Some (s\<lparr>cp_mem := store32 (store32 (store32 (store32 (store32 m cur t) (vb + 34) (load32 m (vb + 34)))
            (vb + 54) (load32 m (vb + 46))) (vb + 50) (load32 m (vb + 42))) (vb + 46) (load32 m (vb + 38)),
          cp_cr3 := load32 m vb, cp_eip := load32 m (vb + 38), cp_eflags := load32 m (vb + 46),
          cp_seg := (cp_seg s)(DS := d, ES := d, FS := d, GS := d, CS := ucast (load32 m (vb + 42))),
          cp_reg := (cp_reg s)(EDI := load32 m (vb + 6), ESI := load32 m (vb + 10), EBP := load32 m (vb + 14),
            EBX := load32 m (vb + 22), EDX := load32 m (vb + 26), ECX := load32 m (vb + 30),
            EAX := load32 m (vb + 34), ESP := 58 + v)\<rparr>))"
  using cs z by (simp add: task_switch_in_def load_ok [OF t sp ap] same_ok [OF _ sp(2)] iret_def Let_def based_offset [OF sp(2)]
      load_store_apart apart_same apart_parts [OF ap] set_reg_def)

lemma in_intra:
  assumes t: "cp_reg s EAX = t" "based t tk" and sp: "load32 (cp_mem s) (tk + 10) = v" "based v vb"
    and ap: "apart cur 4 vb 58" and z: "\<not> zero (cp_eflags s)"
    and cs: "code_selector gdt (rpl (cp_seg s CS)) (ucast (load32 (cp_mem s) (vb + 42)))"
      "rpl (ucast (load32 (cp_mem s) (vb + 42))) \<noteq> rpl (cp_seg s CS)"
      "stack_selector gdt (rpl (ucast (load32 (cp_mem s) (vb + 42)))) (ucast (load32 (cp_mem s) (vb + 54)))"
  shows "task_switch_in gdt cur s =
    (let m = cp_mem s; cs = ucast (load32 m (vb + 42)); d = outer_seg gdt (rpl cs) (load16 m (vb + 4))
     in Some (s\<lparr>cp_mem := store32 m cur t,
          cp_cr3 := load32 m vb, cp_eip := load32 m (vb + 38), cp_eflags := load32 m (vb + 46),
          cp_seg := (cp_seg s)(CS := cs, SS := ucast (load32 m (vb + 54)), DS := d, ES := d, FS := d, GS := d),
          cp_reg := (cp_reg s)(EDI := load32 m (vb + 6), ESI := load32 m (vb + 10), EBP := load32 m (vb + 14),
            EBX := load32 m (vb + 22), EDX := load32 m (vb + 26), ECX := load32 m (vb + 30),
            EAX := load32 m (vb + 34), ESP := load32 m (vb + 50))\<rparr>))"
  using cs z by (simp add: task_switch_in_def load_ok [OF t sp ap] iret_def Let_def based_offset [OF sp(2)]
      load_store_apart apart_same apart_parts [OF ap] set_reg_def)

text \<open>The same privilege without the moves of \<open>switch_same\<close>: the words of the stack segment and pointer stay on the stack.\<close>

lemma in_shifted:
  assumes t: "cp_reg s EAX = t" "based t tk" and sp: "load32 (cp_mem s) (tk + 10) = v" "based v vb"
    and ap: "apart cur 4 vb 58" and z: "\<not> zero (cp_eflags s)"
    and cs: "code_selector gdt (rpl (cp_seg s CS)) (ucast (load32 (cp_mem s) (vb + 42)))"
      "rpl (ucast (load32 (cp_mem s) (vb + 42))) = rpl (cp_seg s CS)"
  shows "\<exists>s'. task_switch_in gdt cur s = Some s' \<and> cp_mem s' = store32 (cp_mem s) cur t \<and> cp_cr3 s' = load32 (cp_mem s) vb
    \<and> cp_eip s' = load32 (cp_mem s) (vb + 38) \<and> cp_eflags s' = load32 (cp_mem s) (vb + 46)
    \<and> cp_seg s' CS = ucast (load32 (cp_mem s) (vb + 42)) \<and> cp_reg s' ESP = 50 + v"
  using cs z by (simp add: task_switch_in_def load_ok [OF t sp ap] iret_def Let_def based_offset [OF sp(2)]
      load_store_apart apart_same apart_parts [OF ap] set_reg_def)

lemma gdt_selectors:
  "code_selector (fst (setup_GDT a)) 0 0x08" "code_selector (fst (setup_GDT a)) 0 0x1B"
  "\<not> code_selector (fst (setup_GDT a)) 0 0x10" "\<not> code_selector (fst (setup_GDT a)) 0 0x23"
  "stack_selector (fst (setup_GDT a)) 3 0x23" "outer_seg (fst (setup_GDT a)) 3 0x23 = 0x23"
  unfolding setup_GDT_def code_data_words
  by (simp_all add: code_selector_def stack_selector_def outer_seg_def descriptor_def rpl_def desc_present_def desc_type_def desc_dpl_def Let_def)

lemma task_switch_out_cases:
  "task_switch_out cur s = run (switch_save cur) (run switch_frame (run
     (if zero (cp_eflags (run switch_enter s)) then [Pushl_imm 0x23, Pushl EBX, Pushl_imm 0x1B]
      else [Pushl_imm 0x10, Pushl EBX, Pushl_imm 0x08]) (run switch_enter s)))"
  by (simp add: task_switch_out_def switch_user_def switch_kernel_def Let_def)

text \<open>What every switch leaves behind, for a user or a kernel task as the next one.\<close>

lemma switched_out:
  assumes call: "switch_call cur s w b t tk c ck"
  obtains ds cs where "(ds, cs) = (0x23, 0x1B) \<or> (ds, cs) = (0x10, 0x08)"
    and "task_switch_out cur s = run (switch_save cur) (run switch_frame (run [Pushl_imm ds, Pushl EBX, Pushl_imm cs] (run switch_enter s)))"
  by (cases "zero (cp_eflags (run switch_enter s))") (auto simp: task_switch_out_cases)

section \<open>Properties\<close>

text \<open>Bytes from \<open>a\<close> on are the same in two memories.\<close>

definition same_bytes :: "mem \<Rightarrow> mem \<Rightarrow> ptr \<Rightarrow> nat \<Rightarrow> bool" where
  "same_bytes m m' a n \<longleftrightarrow> (\<forall>i < n. m (a + i) = m' (a + i))"

lemma same_bytes_load:
  assumes "same_bytes m m' a n"
  shows "i + 4 \<le> n \<Longrightarrow> load32 m (a + i) = load32 m' (a + i)" "i + 2 \<le> n \<Longrightarrow> load16 m (a + i) = load16 m' (a + i)"
  using assms by (auto intro!: load_cong simp: same_bytes_def add.assoc)

text \<open>C21: A task that was switched out cannot be resumed: the context that \<open>task_switch_to\<close> leaves on its stack has the
  selector of a data segment in the place of the code segment, so that whenever a later switch loads this context the
  final \<^verbatim>\<open>iret\<close> raises a general protection fault.\<close>
theorem switched_out_task_faults:
  assumes call: "switch_call cur s w b t tk c ck"
    and later: "cp_reg s2 EAX = c" "rpl (cp_seg s2 CS) = 0"
      "same_bytes (cp_mem s2) (cp_mem (task_switch_out cur s)) (b + 74) 58"
      "same_bytes (cp_mem s2) (cp_mem (task_switch_out cur s)) (ck + 10) 4"
  shows "task_switch_in (fst (setup_GDT a)) cur s2 = None"
proof -
  obtain ds cs where d: "(ds, cs) = (0x23, 0x1B) \<or> (ds, cs) = (0x10, 0x08)"
    and o: "task_switch_out cur s = run (switch_save cur) (run switch_frame (run [Pushl_imm ds, Pushl EBX, Pushl_imm cs] (run switch_enter s)))"
    by (rule switched_out [OF call])
  note k = out_ok [OF call, where ds = ds and cs = cs, folded o]
  have call: "based w b" "based c ck" "apart cur 4 b 140" "b + 1024 \<le> 2 ^ 32"
    using call by (simp_all add: switch_call_def)
  have v: "load32 (cp_mem s2) (ck + 10) = 74 + w"
    using same_bytes_load(1) [OF later(4), of 0] k(5) by simp
  have cs: "load32 (cp_mem s2) (b + 74 + 42) = ds"
    using same_bytes_load(1) [OF later(3), of 42] k(7) by (simp add: add.assoc)
  have "based (74 + w) (b + 74)" using call(1,4) by (simp add: based_def based_offset(2) [OF call(1)])
  from in_fault [OF later(1) call(2) v this] show ?thesis
    using apart_parts(5) [OF call(3), of 4 74 58] d cs gdt_selectors(3,4) later(2) by auto
qed

definition demo_cpu :: cpu where
  "demo_cpu = \<lparr>cp_reg = (\<lambda>r. if r = ESP then 0x1080 else 0), cp_seg = (\<lambda>r. if r = CS then 0x08 else 0x10), cp_eip = 0,
     cp_eflags = 0x202, cp_cr3 = 0, cp_mem = store32 (store32 (\<lambda>_. 0) 0x1084 0x3000) 0x100 0x2000\<rparr>"

lemma demo_switch_call: "switch_call 0x100 demo_cpu 0x1000 0x1000 0x3000 0x3000 0x2000 0x2000"
  by (simp add: switch_call_def demo_cpu_def based_def apart_def load_store_apart)

theorem switched_out_task_faults_witness:
  "task_switch_in (fst (setup_GDT 0x5000)) 0x100
     (let s' = task_switch_out 0x100 demo_cpu in set_reg EAX 0x2000 (s'\<lparr>cp_seg := (\<lambda>_. 0x08)\<rparr>)) = None"
  by (rule switched_out_task_faults [OF demo_switch_call]) (simp_all add: set_reg_def same_bytes_def rpl_def Let_def)

text \<open>The memory at \<open>a\<close> holds the bytes \<open>bs\<close>.\<close>

definition holds :: "mem \<Rightarrow> ptr \<Rightarrow> byte list \<Rightarrow> bool" where
  "holds m a bs \<longleftrightarrow> (\<forall>i < length bs. m (a + i) = bs ! i)"

lemma holds_load:
  assumes "holds m a bs"
  shows "drop i bs = byte_list32 w @ cs \<Longrightarrow> load32 m (a + i) = w" "drop i bs = byte_list16 v @ cs \<Longrightarrow> load16 m (a + i) = v"
proof -
  have "store_bytes m a bs = m"
  proof
    fix x
    show "store_bytes m a bs x = m x"
      using assms [unfolded holds_def, rule_format, of "x - a"] by (cases "a \<le> x \<and> x < a + length bs") (auto simp: store_bytes_def)
  qed
  then show "drop i bs = byte_list32 w @ cs \<Longrightarrow> load32 m (a + i) = w" "drop i bs = byte_list16 v @ cs \<Longrightarrow> load16 m (a + i) = v"
    using load_bytes [of i bs _ _ m a] by auto
qed

text \<open>The packed structure of a task in memory, as the offsets of the assembly code see it.\<close>

definition tss_bytes :: "task \<Rightarrow> byte list" where
  "tss_bytes th = (let r = tk_regs th in
     byte_list16 (r_ss r) @ byte_list16 (r_gs r) @ byte_list16 (r_fs r) @ byte_list16 (r_es r) @ byte_list16 (r_ds r)
     @ byte_list32 (r_esp r) @ byte_list32 (r_edi r) @ byte_list32 (r_esi r) @ byte_list32 (r_ebp r) @ byte_list32 (r_ebx r)
     @ byte_list32 (r_edx r) @ byte_list32 (r_ecx r) @ byte_list32 (r_eax r) @ byte_list32 (r_eip r) @ byte_list16 (r_cs r)
     @ byte_list32 (r_eflags r) @ byte_list32 (tk_cr3 th))"

definition tss_at :: "mem \<Rightarrow> ptr \<Rightarrow> task \<Rightarrow> bool" where
  "tss_at m a th \<longleftrightarrow> holds m a (tss_bytes th)"

lemma tss_loads:
  assumes "tss_at m a th"
  shows "load16 m a = r_ss (tk_regs th)" "load16 m (a + 8) = r_ds (tk_regs th)" "load32 m (a + 10) = r_esp (tk_regs th)"
    "load32 m (a + 42) = r_eip (tk_regs th)" "load32 m (a + 48) = r_eflags (tk_regs th)"
  using assms holds_load(2) [of m a "tss_bytes th" 0]
  by (auto intro!: holds_load simp: tss_at_def tss_bytes_def Let_def)

lemma context_loads:
  assumes "holds m a (context_bytes th)"
  shows "load32 m a = tk_cr3 th" "load16 m (a + 4) = r_ds (tk_regs th)" "load32 m (a + 6) = r_edi (tk_regs th)"
    "load32 m (a + 10) = r_esi (tk_regs th)" "load32 m (a + 14) = r_ebp (tk_regs th)" "load32 m (a + 22) = r_ebx (tk_regs th)"
    "load32 m (a + 26) = r_edx (tk_regs th)" "load32 m (a + 30) = r_ecx (tk_regs th)" "load32 m (a + 34) = r_eax (tk_regs th)"
    "load32 m (a + 38) = r_eip (tk_regs th)" "load32 m (a + 42) = ucast (r_cs (tk_regs th))" "load32 m (a + 46) = r_eflags (tk_regs th)"
    "load32 m (a + 50) = r_esp (tk_regs th)" "load32 m (a + 54) = ucast (r_ss (tk_regs th))"
  using holds_load(1) [OF assms, of 0]
  by (auto intro!: holds_load [OF assms] simp: context_bytes_def Let_def)

text \<open>The next task \<open>th\<close> has its context at \<open>vb\<close>, apart from everything that the switch writes on the way.\<close>

definition next_task :: "ptr \<Rightarrow> cpu \<Rightarrow> ptr \<Rightarrow> ptr \<Rightarrow> ptr \<Rightarrow> task \<Rightarrow> ptr \<Rightarrow> bool" where
  "next_task cur s b tk ck th vb \<longleftrightarrow>
     tss_at (cp_mem s) tk th \<and> holds (cp_mem s) vb (context_bytes th) \<and> based (r_esp (tk_regs th)) vb
     \<and> apart tk 56 ck 56 \<and> apart vb 66 b 140 \<and> apart vb 66 ck 56 \<and> apart cur 4 vb 66"

lemma context_kept:
  assumes call: "switch_call cur s w b t tk c ck" and nx: "next_task cur s b tk ck th vb"
  defines "s' \<equiv> task_switch_out cur s"
  shows "cp_reg s' EAX = t" "load32 (cp_mem s') (tk + 10) = r_esp (tk_regs th)"
    and "holds (cp_mem s') vb (context_bytes th)"
    and "zero (cp_eflags s') \<longleftrightarrow> r_ds (tk_regs th) = load16 (cp_mem s) (ck + 8)"
    and "cp_seg s' = cp_seg s"
    and "x < b + 74 \<or> b + 132 \<le> x \<Longrightarrow> x < ck + 10 \<or> ck + 14 \<le> x \<Longrightarrow> cp_mem s' x = cp_mem s x"
proof -
  obtain ds cs where
    o: "task_switch_out cur s = run (switch_save cur) (run switch_frame (run [Pushl_imm ds, Pushl EBX, Pushl_imm cs] (run switch_enter s)))"
    by (rule switched_out [OF call])
  note k = out_ok [OF call, where ds = ds and cs = cs, folded o s'_def]
  have ap: "apart tk 56 b 140" using call by (simp add: switch_call_def)
  have nx: "tss_at (cp_mem s) tk th" "holds (cp_mem s) vb (context_bytes th)" "apart tk 56 ck 56" "apart vb 66 b 140" "apart vb 66 ck 56"
    using nx by (simp_all add: next_task_def)
  show "cp_reg s' EAX = t" "cp_seg s' = cp_seg s" by (rule k)+
  show "zero (cp_eflags s') \<longleftrightarrow> r_ds (tk_regs th) = load16 (cp_mem s) (ck + 8)"
    using k(4) tss_loads(2) [OF nx(1)] by simp
  show u: "x < b + 74 \<or> b + 132 \<le> x \<Longrightarrow> x < ck + 10 \<or> ck + 14 \<le> x \<Longrightarrow> cp_mem s' x = cp_mem s x" for x by (rule k)
  have "cp_mem s' (tk + 10 + i) = cp_mem s (tk + 10 + i)" if "i < 4" for i
    using that ap nx(3) by (intro u) (auto simp: apart_def)
  then have "load32 (cp_mem s') (tk + 10) = load32 (cp_mem s) (tk + 10)" by (rule load_cong)
  then show "load32 (cp_mem s') (tk + 10) = r_esp (tk_regs th)" using tss_loads(3) [OF nx(1)] by simp
  have "cp_mem s' (vb + i) = cp_mem s (vb + i)" if "i < 58" for i
    using that nx(4,5) by (intro u) (auto simp: apart_def)
  then show "holds (cp_mem s') vb (context_bytes th)" using nx(2) by (simp add: holds_def length_context_bytes)
qed

text \<open>The first switch from a kernel task to a new kernel thread: it runs at its start routine, in the kernel's segments
  and its own address space, with interrupts as in its flags, the registers of its context and a stack pointer just
  above the context, where the words prepared by the creator of the thread are untouched; the thread is the current one.\<close>

lemma task_switch_starts_thread:
  assumes call: "switch_call cur s w b t tk c ck" and nx: "next_task cur s b tk ck th vb"
    and kernel: "rpl (cp_seg s CS) = 0" "load16 (cp_mem s) (ck + 8) = KERNEL_DS"
    and th: "r_ds (tk_regs th) = KERNEL_DS" "r_cs (tk_regs th) = KERNEL_CS"
  shows "\<exists>s'. task_switch_to (fst (setup_GDT a)) cur s = Some s'
    \<and> cp_eip s' = r_eip (tk_regs th) \<and> cp_seg s' CS = KERNEL_CS \<and> cp_seg s' SS = cp_seg s SS
    \<and> (\<forall>g \<in> {DS, ES, FS, GS}. cp_seg s' g = KERNEL_DS)
    \<and> cp_reg s' ESP = r_esp (tk_regs th) + 58 \<and> cp_eflags s' = r_eflags (tk_regs th) \<and> cp_cr3 s' = tk_cr3 th
    \<and> cp_reg s' EAX = r_eax (tk_regs th) \<and> cp_reg s' EBP = r_ebp (tk_regs th)
    \<and> load32 (cp_mem s') cur = t
    \<and> load32 (cp_mem s') (vb + 58) = load32 (cp_mem s) (vb + 58) \<and> load32 (cp_mem s') (vb + 62) = load32 (cp_mem s) (vb + 62)"
proof -
  let ?s = "task_switch_out cur s"
  note k = context_kept [OF call nx]
  have nx: "based (r_esp (tk_regs th)) vb" "apart vb 66 b 140" "apart vb 66 ck 56" "apart cur 4 vb 66"
    using nx by (simp_all add: next_task_def)
  have t: "based t tk" using call by (simp add: switch_call_def)
  have ap: "apart cur 4 vb 58" using apart_parts(1) [OF nx(4)] by simp
  note c = context_loads [OF k(3)]
  have "load32 (cp_mem ?s) (vb + 58) = load32 (cp_mem s) (vb + 58)" "load32 (cp_mem ?s) (vb + 62) = load32 (cp_mem s) (vb + 62)"
    using nx(2,3) by (auto intro!: load_cong k(6) simp: apart_def)
  moreover have "code_selector (fst (setup_GDT a)) (rpl (cp_seg ?s CS)) (ucast (load32 (cp_mem ?s) (vb + 42)))"
    "rpl (ucast (load32 (cp_mem ?s) (vb + 42))) = rpl (cp_seg ?s CS)"
    using gdt_selectors(1) kernel(1) by (simp_all add: c th k(5) rpl_def)
  note i = in_same [OF k(1) t k(2) nx(1) ap _ this]
  moreover have "zero (cp_eflags ?s)" using k(4) th kernel by simp
  ultimately show ?thesis unfolding task_switch_to_def
    by (simp add: i th kernel c Let_def k(5) load_store_apart apart_same apart_parts [OF nx(4)] add.commute [of "r_esp (tk_regs th)" 58])
qed

text \<open>From a task whose data segment is another one, a user program's, the thread is entered with the words of its context
  for stack pointer and stack segment in the place of the prepared ones.\<close>

lemma task_switch_shifts_stack:
  assumes call: "switch_call cur s w b t tk c ck" and nx: "next_task cur s b tk ck th vb"
    and kernel: "rpl (cp_seg s CS) = 0" "load16 (cp_mem s) (ck + 8) \<noteq> KERNEL_DS"
    and th: "r_ds (tk_regs th) = KERNEL_DS" "r_cs (tk_regs th) = KERNEL_CS"
  shows "\<exists>s'. task_switch_to (fst (setup_GDT a)) cur s = Some s'
    \<and> cp_eip s' = r_eip (tk_regs th) \<and> cp_seg s' CS = KERNEL_CS \<and> cp_eflags s' = r_eflags (tk_regs th) \<and> cp_cr3 s' = tk_cr3 th
    \<and> load32 (cp_mem s') cur = t \<and> top32 s' = r_esp (tk_regs th) \<and> load32 (cp_mem s') (ea 4 ESP s') = ucast (r_ss (tk_regs th))"
proof -
  let ?s = "task_switch_out cur s"
  note k = context_kept [OF call nx]
  have nx: "based (r_esp (tk_regs th)) vb" "apart cur 4 vb 66" using nx by (simp_all add: next_task_def)
  have t: "based t tk" using call by (simp add: switch_call_def)
  have ap: "apart cur 4 vb 58" using apart_parts(1) [OF nx(2)] by simp
  note c = context_loads [OF k(3)]
  have "\<not> zero (cp_eflags ?s)" using k(4) th kernel by simp
  moreover have "code_selector (fst (setup_GDT a)) (rpl (cp_seg ?s CS)) (ucast (load32 (cp_mem ?s) (vb + 42)))"
    "rpl (ucast (load32 (cp_mem ?s) (vb + 42))) = rpl (cp_seg ?s CS)"
    using gdt_selectors(1) kernel(1) by (simp_all add: c th k(5) rpl_def)
  ultimately obtain s' where "task_switch_in (fst (setup_GDT a)) cur ?s = Some s'" "cp_mem s' = store32 (cp_mem ?s) cur t"
    "cp_cr3 s' = load32 (cp_mem ?s) vb" "cp_eip s' = load32 (cp_mem ?s) (vb + 38)" "cp_eflags s' = load32 (cp_mem ?s) (vb + 46)"
    "cp_seg s' CS = ucast (load32 (cp_mem ?s) (vb + 42))" "cp_reg s' ESP = 50 + r_esp (tk_regs th)"
    using in_shifted [OF k(1) t k(2) nx(1) ap] by blast
  then show ?thesis unfolding task_switch_to_def
    by (simp add: c th top32_def ea_def based_offset [OF nx(1)] add.assoc load_store_apart apart_same apart_parts [OF ap] apart_parts [OF nx(2)])
qed

lemma created_thread:
  assumes "kernel_thread_create kdir force_exit newth old new_kstack node priority start arg st = Some (newth, st')"
    and "newth \<noteq> NULL" "new_kstack \<noteq> NULL" "sc_tasks st' newth = Some th"
  shows "r_ds (tk_regs th) = KERNEL_DS" "r_cs (tk_regs th) = KERNEL_CS" "r_eflags (tk_regs th) = EFLAGS_IF" "tk_cr3 th = kdir"
    "r_ss (tk_regs th) = KERNEL_DS"
  using assms by (auto simp: kernel_thread_create_def setup_task_def setup_regs_def Let_def
      split: prod.splits Option.bind_splits)

text \<open>C20: From creation to the first instruction of a kernel thread. When the scheduler first switches to a thread made by
  \<open>kernel_thread_create\<close>, the processor runs the start routine in the kernel's code segment and address space with interrupts
  enabled. If the task that is left has the kernel's data segment, the routine finds on its stack the address of
  \<open>force_kthread_exit\<close> as the return address and above it the argument, so that it is called with the argument and ends in the
  exit routine. If the task is a user program, it does not: \<^verbatim>\<open>task_switch_to\<close> takes a difference of the two segments for a
  change of privilege, and the routine finds its own stack pointer as the return address and the selector 0x10 as argument.\<close>
theorem created_thread_runs:
  assumes q: "runq st ns i" and new: "newth \<noteq> NULL" "newth \<notin> dom (sc_tasks st)" and stk: "new_kstack \<noteq> NULL"
    and node: "node \<noteq> NULL" "node \<notin> dom (sc_ring st)"
    and create: "kernel_thread_create kdir force_exit newth old new_kstack node priority start arg st = Some (newth, st')"
      "sc_tasks st' newth = Some th"
    and call: "switch_call cur s w b t newth c ck"
    and mem: "same_bytes (cp_mem s) (sc_mem st') (tk_kstack th) 66" "tss_at (cp_mem s) newth th" "tk_kstack th + 512 \<le> 2 ^ 32"
    and place: "apart newth 56 ck 56" "apart (tk_kstack th) 66 b 140" "apart (tk_kstack th) 66 ck 56" "apart cur 4 (tk_kstack th) 66"
    and kernel: "rpl (cp_seg s CS) = 0"
  shows "\<exists>s'. task_switch_to (fst (setup_GDT a)) cur s = Some s'
    \<and> cp_eip s' = start \<and> cp_seg s' CS = KERNEL_CS \<and> cp_eflags s' = EFLAGS_IF \<and> cp_cr3 s' = kdir \<and> load32 (cp_mem s') cur = t
    \<and> (if load16 (cp_mem s) (ck + 8) = KERNEL_DS then top32 s' = force_exit \<and> load32 (cp_mem s') (ea 4 ESP s') = arg
       else top32 s' = of_nat (tk_kstack th) \<and> load32 (cp_mem s') (ea 4 ESP s') = 0x10)"
proof -
  from kernel_thread_create_appends [OF q new stk node, of kdir force_exit old priority start arg] create
  have th: "r_eip (tk_regs th) = start" "r_esp (tk_regs th) = of_nat (tk_kstack th)"
    "sc_mem st' = store_bytes (sc_mem st) (tk_kstack th) (context_bytes th @ byte_list32 force_exit @ byte_list32 arg)"
    by auto
  note r = created_thread [OF create(1) new(1) stk create(2)]
  let ?v = "tk_kstack th" and ?bs = "context_bytes th @ byte_list32 force_exit @ byte_list32 arg"
  have "holds (cp_mem s) ?v ?bs"
    using mem(1) by (simp add: same_bytes_def holds_def th(3) store_bytes_def length_context_bytes)
  then have top: "load32 (cp_mem s) (?v + 58) = force_exit" "load32 (cp_mem s) (?v + 62) = arg"
    and "holds (cp_mem s) ?v (context_bytes th)"
    by (auto simp: holds_def nth_append length_context_bytes intro!: holds_load(1) [where bs = ?bs])
  moreover have v: "based (r_esp (tk_regs th)) ?v" using mem(3) by (simp add: based_def th(2) unat_of_nat_small_u32)
  ultimately have "next_task cur s b newth ck th ?v" using mem(2) place by (simp add: next_task_def)
  note nx = this
  show ?thesis
  proof (cases "load16 (cp_mem s) (ck + 8) = KERNEL_DS")
    case True
    from task_switch_starts_thread [OF call nx kernel True r(1,2), of a] obtain s' where
      "task_switch_to (fst (setup_GDT a)) cur s = Some s'" "cp_eip s' = start" "cp_seg s' CS = KERNEL_CS"
      "cp_eflags s' = EFLAGS_IF" "cp_cr3 s' = kdir" "load32 (cp_mem s') cur = t"
      "load32 (cp_mem s') (?v + 58) = force_exit" "load32 (cp_mem s') (?v + 62) = arg" "cp_reg s' ESP = r_esp (tk_regs th) + 58"
      using th(1) r top by (auto simp: add.commute)
    then show ?thesis using True by (auto simp: top32_def ea_def based_offset [OF v] add.assoc)
  next
    case False
    from task_switch_shifts_stack [OF call nx kernel False r(1,2), of a] show ?thesis using False th(1,2) r by auto
  qed
qed

text \<open>A concrete switch: the running task at 0x2000, the new thread at 0x3000, its stack from 0x8000 on.\<close>

definition demo_switch :: "mem \<Rightarrow> task \<Rightarrow> cpu" where
  "demo_switch m th = demo_cpu\<lparr>cp_mem := store16 (store32 (store32 (store_bytes m 0x3000 (tss_bytes th)) 0x1084 0x3000) 0x100 0x2000)
     0x2008 KERNEL_DS\<rparr>"

lemma length_tss_bytes: "length (tss_bytes th) = 56"
  by (simp add: tss_bytes_def Let_def)

lemma demo_switch_ok:
  "switch_call 0x100 (demo_switch m th) 0x1000 0x1000 0x3000 0x3000 0x2000 0x2000" "tss_at (cp_mem (demo_switch m th)) 0x3000 th"
  "same_bytes (cp_mem (demo_switch m th)) m 0xBFBE 66" "load16 (cp_mem (demo_switch m th)) (0x2000 + 8) = KERNEL_DS"
  by (simp_all add: switch_call_def demo_switch_def demo_cpu_def based_def apart_def load_store_apart tss_at_def holds_def same_bytes_def
      store_miss store_bytes_def length_tss_bytes)

theorem created_thread_runs_witness:
  "\<exists>st' th s'. kernel_thread_create 0x9000 0x5000 0x3000 (demo_task 0 0) 0x8000 64 0 0x4000 7 (demo_sched 1 0 0) = Some (0x3000, st')
    \<and> sc_tasks st' 0x3000 = Some th \<and> task_switch_to (fst (setup_GDT 0x6000)) 0x100 (demo_switch (sc_mem st') th) = Some s'
    \<and> cp_eip s' = 0x4000 \<and> top32 s' = 0x5000 \<and> load32 (cp_mem s') (ea 4 ESP s') = 7"
proof -
  have f: "0x3000 \<notin> dom (sc_tasks (demo_sched 1 0 0))" "64 \<notin> dom (sc_ring (demo_sched 1 0 0))"
    using ring3_ok(2) by (simp_all add: demo_sched_def)
  from kernel_thread_create_appends [OF demo_sched_runq _ f(1) _ _ f(2), of "0x8000" "0x9000" "0x5000" "demo_task 0 0" 0 "0x4000" 7]
  obtain st' th where c: "kernel_thread_create 0x9000 0x5000 0x3000 (demo_task 0 0) 0x8000 64 0 0x4000 7 (demo_sched 1 0 0) = Some (0x3000, st')"
    "sc_tasks st' 0x3000 = Some th" "tk_kstack th = 0xBFBE" by auto
  have "rpl (cp_seg (demo_switch (sc_mem st') th) CS) = 0" by (simp add: demo_switch_def demo_cpu_def rpl_def)
  then show ?thesis
    using created_thread_runs [OF demo_sched_runq _ f(1) _ _ f(2) c(1,2) demo_switch_ok(1) [of "sc_mem st'"] _ demo_switch_ok(2), where a = "0x6000"]
      demo_switch_ok(3,4) c by (auto simp: apart_def)
qed

text \<open>The first switch to a user program leaves the kernel: code and stack segments are those of user programs, at the
  instruction and the stack pointer of the context.\<close>

lemma task_switch_enters_user:
  assumes call: "switch_call cur s w b t tk c ck" and nx: "next_task cur s b tk ck th vb"
    and kernel: "rpl (cp_seg s CS) = 0" "load16 (cp_mem s) (ck + 8) = KERNEL_DS"
    and th: "r_ds (tk_regs th) = USER_DS_RPL" "r_cs (tk_regs th) = USER_CS_RPL" "r_ss (tk_regs th) = USER_DS_RPL"
  shows "\<exists>s'. task_switch_to (fst (setup_GDT a)) cur s = Some s'
    \<and> cp_eip s' = r_eip (tk_regs th) \<and> cp_seg s' CS = USER_CS_RPL
    \<and> (\<forall>g \<in> {SS, DS, ES, FS, GS}. cp_seg s' g = USER_DS_RPL)
    \<and> cp_reg s' ESP = r_esp (tk_regs th) \<and> cp_eflags s' = r_eflags (tk_regs th) \<and> cp_cr3 s' = tk_cr3 th
    \<and> load32 (cp_mem s') cur = t"
proof -
  let ?s = "task_switch_out cur s"
  note k = context_kept [OF call nx]
  have nx: "based (r_esp (tk_regs th)) vb" "apart cur 4 vb 66" using nx by (simp_all add: next_task_def)
  have t: "based t tk" using call by (simp add: switch_call_def)
  have ap: "apart cur 4 vb 58" using apart_parts(1) [OF nx(2)] by simp
  note c = context_loads [OF k(3)]
  have "\<not> zero (cp_eflags ?s)" using k(4) th kernel by simp
  moreover have "code_selector (fst (setup_GDT a)) (rpl (cp_seg ?s CS)) (ucast (load32 (cp_mem ?s) (vb + 42)))"
    "rpl (ucast (load32 (cp_mem ?s) (vb + 42))) \<noteq> rpl (cp_seg ?s CS)"
    "stack_selector (fst (setup_GDT a)) (rpl (ucast (load32 (cp_mem ?s) (vb + 42)))) (ucast (load32 (cp_mem ?s) (vb + 54)))"
    using gdt_selectors(2,5) kernel(1) by (simp_all add: c th k(5) rpl_def)
  note i = in_intra [OF k(1) t k(2) nx(1) ap _ this]
  ultimately show ?thesis unfolding task_switch_to_def
    by (simp add: i th kernel c Let_def k(5) gdt_selectors(6) rpl_def)
qed

text \<open>The jump to the first thread: with the context of \<open>arch_init_scheduler\<close> the processor continues at the start
  routine on the stack that the context names, in the code segment that was in use, with the flags of the context.\<close>
theorem initial_task_starts:
  assumes sp: "cp_reg s ESP = w" "based w b" and t: "load32 (cp_mem s) (b + 4) = t" "based t tk" and th: "tss_at (cp_mem s) tk th"
    and new: "r_esp (tk_regs th) = v + 12" "based v vb" and cs: "cp_seg s CS = KERNEL_CS"
  shows "\<exists>s'. initial_task (fst (setup_GDT a)) s = Some s' \<and> cp_eip s' = r_eip (tk_regs th)
    \<and> cp_eflags s' = r_eflags (tk_regs th) \<and> cp_reg s' ESP = r_esp (tk_regs th) \<and> cp_seg s' = cp_seg s \<and> cp_cr3 s' = cp_cr3 s"
  using gdt_selectors(1) [of a] cs
  by (simp add: initial_task_def initial_task_code_def sym_exec based_offset [OF sp(2)] based_offset [OF t(2)] based_offset [OF new(2)]
      sp(1) t(1) tss_loads [OF th] new(1) iret_def rpl_def fun_upd_idem)

end
