(* ===== verification/Trap.thy ===== *)
theory Trap
  imports Task_Switch
begin

text \<open>
  The entry points of interrupts, exceptions and system calls: \<^verbatim>\<open>arch/x86/isr.S\<close> and
  \<^verbatim>\<open>arch/x86/kernel/sys_enter.S\<close>. The C functions they call are an argument \<open>code\<close>: what the function at an address
  does to the machine from its call to its return; \<open>ra\<close> is the address behind a \<^verbatim>\<open>call\<close>. A \<^verbatim>\<open>ret\<close> to another address
  than that one is a loss of control, \<open>None\<close>, like a fault of \<^verbatim>\<open>iret\<close>.
\<close>

section \<open>Code\<close>

definition check_enter :: "instr list" where
  "check_enter = [Pushl EAX, Movl_load 24 ESP EAX, Cmpl_imm 0x23 EAX]"

definition check_switch :: "instr list" where
  "check_switch =
     [Movl ESP EAX, Movl_load 20 EAX ESP, Pushl_imm 0x23, Pushl_mem 20 EAX, Pushl_mem 16 EAX, Pushl_mem 12 EAX,
      Pushl_mem 8 EAX, Pushl_mem 4 EAX, Pushl_mem 0 EAX]"

definition check_kernel_stack :: "cpu \<Rightarrow> cpu" where
  "check_kernel_stack s =
     (let s1 = run check_enter s;
          s2 = (if \<not> zero (cp_eflags s1) then s1 else run check_switch s1)
      in ret (run [Popl EAX] s2))"

definition check_kernel_stack_ec :: "cpu \<Rightarrow> cpu" where
  "check_kernel_stack_ec s = check_kernel_stack (run [Addl_imm 0x02 ESP] s)"

definition returned :: "u32 \<Rightarrow> cpu \<Rightarrow> cpu option" where
  "returned ra s = (if cp_eip s = ra then Some s else None)"

definition kernel_segments :: "instr list" where
  "kernel_segments = [Movw_imm 0x10 EDX, Movw_seg EDX DS, Movw_seg EDX FS, Movw_seg EDX GS, Movw_seg EDX ES]"

definition save_segments :: "instr list" where
  "save_segments = [Pushw_seg DS, Pushw_seg ES, Pushw_seg FS, Pushw_seg GS, Pushw_seg SS]"

definition no_error_save :: "instr list" where
  "no_error_save =
     [Xchgl EAX 0 ESP, Pushl ECX, Pushl EDX, Pushl EBX, Pushl EBP, Pushl ESI, Pushl EDI, Pushl ESP] @ save_segments
     @ kernel_segments"

definition error_save :: "instr list" where
  "error_save =
     [Xchgl EAX 4 ESP, Xchgl ECX 0 ESP, Pushl EDX, Pushl EBX, Pushl EBP, Pushl ESI, Pushl EDI, Pushl ESP] @ save_segments
     @ [Pushl EAX] @ kernel_segments"

definition restore_segments :: "instr list" where
  "restore_segments = [Popw_seg SS, Popw_seg GS, Popw_seg FS, Popw_seg ES, Popw_seg DS]"

definition restore_registers :: "instr list" where
  "restore_registers = [Popl ESP, Popl EDI, Popl ESI, Popl EBP, Popl EBX, Popl EDX, Popl ECX]"

definition no_error_code :: "(u32 \<times> u32) list \<Rightarrow> (u32 \<Rightarrow> cpu \<Rightarrow> cpu) \<Rightarrow> cpu \<Rightarrow> cpu option" where
  "no_error_code gdt code s =
     (let s1 = run no_error_save s;
          s2 = code (cp_reg s1 EAX) s1
      in iret gdt (run (restore_segments @ restore_registers @ [Popl EAX]) s2))"

definition error_code :: "(u32 \<times> u32) list \<Rightarrow> (u32 \<Rightarrow> cpu \<Rightarrow> cpu) \<Rightarrow> cpu \<Rightarrow> cpu option" where
  "error_code gdt code s =
     (let s1 = run error_save s;
          s2 = code (cp_reg s1 ECX) s1
      in iret gdt (run ([Popl EAX] @ restore_segments @ restore_registers @ [Popl EAX]) s2))"

text \<open>The routines of the table of interrupts; \<open>addr\<close> gives the addresses of the C functions.\<close>

datatype c_symbol = Ex nat | Do_irq

definition ex_no_error :: "(u32 \<times> u32) list \<Rightarrow> (u32 \<Rightarrow> cpu \<Rightarrow> cpu) \<Rightarrow> u32 \<Rightarrow> u32 \<Rightarrow> cpu \<Rightarrow> cpu option" where
  "ex_no_error gdt code ra f s = do {
     s1 \<leftarrow> returned ra (check_kernel_stack (call_near ra s));
     no_error_code gdt code (run [Pushl_imm f] s1)
   }"

definition ex_error :: "(u32 \<times> u32) list \<Rightarrow> (u32 \<Rightarrow> cpu \<Rightarrow> cpu) \<Rightarrow> u32 \<Rightarrow> u32 \<Rightarrow> cpu \<Rightarrow> cpu option" where
  "ex_error gdt code ra f s = do {
     s1 \<leftarrow> returned ra (check_kernel_stack_ec (call_near ra s));
     error_code gdt code (run [Pushl_imm f] s1)
   }"

definition isr_irq :: "(u32 \<times> u32) list \<Rightarrow> (u32 \<Rightarrow> cpu \<Rightarrow> cpu) \<Rightarrow> u32 \<Rightarrow> u32 \<Rightarrow> nat \<Rightarrow> cpu \<Rightarrow> cpu option" where
  "isr_irq gdt code ra do_irq n s = do {
     s1 \<leftarrow> returned ra (check_kernel_stack (call_near ra s));
     error_code gdt code (run [Pushl_imm (of_nat n), Pushl_imm do_irq] s1)
   }"

definition nullisr :: "(u32 \<times> u32) list \<Rightarrow> cpu \<Rightarrow> cpu option" where
  "nullisr gdt s = iret gdt s"

definition error_exceptions :: "nat list" where
  "error_exceptions = [8, 10, 11, 12, 13, 14, 17]"

definition sys_save :: "instr list" where
  "sys_save = [Pushl ECX, Pushl EDX, Pushl EBX, Pushl EBP, Pushl ESI, Pushl EDI, Pushl ESP] @ save_segments
     @ [Pushw EDX] @ kernel_segments @ [Popw EDX]"

definition sys_call :: "(u32 \<Rightarrow> cpu \<Rightarrow> cpu) \<Rightarrow> ptr \<Rightarrow> cpu \<Rightarrow> cpu" where
  "sys_call code syscall_table s =
     (let s1 = run [Pushl EDX, Pushl ECX, Pushl EBX] s;
          s2 = code (load32 (cp_mem s1) (unat (of_nat syscall_table + cp_reg s1 EAX * 4))) s1
      in run [Addl_imm (4 * 3) ESP] s2)"

definition sys_enter :: "(u32 \<times> u32) list \<Rightarrow> (u32 \<Rightarrow> cpu \<Rightarrow> cpu) \<Rightarrow> u32 \<Rightarrow> ptr \<Rightarrow> cpu \<Rightarrow> cpu option" where
  "sys_enter gdt code ra syscall_table s = do {
     s1 \<leftarrow> returned ra (check_kernel_stack (call_near ra s));
     let s2 = run (sys_save @ [Cmpl_imm 5 EAX]) s1;
     let s3 = (if \<not> carry (cp_eflags s2) then s2 else sys_call code syscall_table s2);
     iret gdt (run (restore_segments @ restore_registers) s3)
   }"

definition isr :: "(u32 \<times> u32) list \<Rightarrow> (u32 \<Rightarrow> cpu \<Rightarrow> cpu) \<Rightarrow> u32 \<Rightarrow> (c_symbol \<Rightarrow> u32) \<Rightarrow> ptr \<Rightarrow> isr_symbol \<Rightarrow> cpu \<Rightarrow> cpu option" where
  "isr gdt code ra addr syscall_table isym s =
     (case isym of
        Nullisr \<Rightarrow> nullisr gdt s
      | Exception v \<Rightarrow> (if v \<in> set error_exceptions then ex_error gdt code ra (addr (Ex v)) s else ex_no_error gdt code ra (addr (Ex v)) s)
      | Isr_irq n \<Rightarrow> isr_irq gdt code ra (addr Do_irq) n s
      | Sys_enter \<Rightarrow> sys_enter gdt code ra syscall_table s
      | No_isr \<Rightarrow> None)"

section \<open>The check of the stack\<close>

lemmas check_defs = check_kernel_stack_def check_enter_def check_switch_def ret_def call_near_def returned_def

text \<open>The saved frame of the processor starts at \<open>b + 128\<close>. A frame without a user stack segment is left alone.\<close>

lemma check_kernel:
  assumes e: "cp_reg s ESP = 128 + w" "based w b" and ss: "load32 (cp_mem s) (b + 144) \<noteq> 0x23"
  shows "returned ra (check_kernel_stack (call_near ra s)) =
    Some (s\<lparr>cp_mem := store32 (store32 (cp_mem s) (b + 124) ra) (b + 120) (cp_reg s EAX),
      cp_eflags := sub_flags (load32 (cp_mem s) (b + 144)) 0x23 (cp_eflags s), cp_eip := ra\<rparr>)"
  using ss by (simp add: check_defs sym_exec e(1) based_offset [OF e(2)] fun_upd_idem)

text \<open>A frame from user mode is copied to the stack of the user program.\<close>

lemma check_user:
  assumes e: "cp_reg s ESP = 128 + w" "based w b" and ss: "load32 (cp_mem s) (b + 144) = 0x23"
    and u: "load32 (cp_mem s) (b + 140) = 148 + u" "based u ub" and ap: "apart b 148 ub 148"
  shows "returned ra (check_kernel_stack (call_near ra s)) =
    (let m0 = cp_mem s;
         m1 = store32 (store32 (store32 (store32 m0 (b + 124) ra) (b + 120) (cp_reg s EAX)) (ub + 144) 0x23) (ub + 140) (148 + u);
         m2 = store32 (store32 (store32 m1 (ub + 136) (load32 m0 (b + 136))) (ub + 132) (load32 m0 (b + 132))) (ub + 128) (load32 m0 (b + 128))
     in Some (s\<lparr>cp_eflags := sub_flags 0x23 (0x23 :: u32) (cp_eflags s), cp_mem := store32 (store32 m2 (ub + 124) ra) (ub + 120) (cp_reg s EAX),
          cp_reg := (cp_reg s)(ESP := 128 + u), cp_eip := ra\<rparr>))"
  using ss by (simp add: check_defs sym_exec e(1) based_offset [OF e(2)] u(1) based_offset [OF u(2)] fun_upd_idem apart_parts [OF ap])

section \<open>Saving and restoring\<close>

text \<open>What the hardware has saved at \<open>a\<close> of an interrupted state \<open>s0\<close>, and the states that continue it.\<close>

definition frame_at :: "cpu \<Rightarrow> u32 \<Rightarrow> mem \<Rightarrow> ptr \<Rightarrow> bool" where
  "frame_at s0 ip m a \<longleftrightarrow>
     load32 m a = ip \<and> load32 m (a + 4) = ucast (cp_seg s0 CS) \<and> load32 m (a + 8) = cp_eflags s0
     \<and> (rpl (cp_seg s0 CS) \<noteq> 0 \<longrightarrow> load32 m (a + 12) = cp_reg s0 ESP \<and> load32 m (a + 16) = ucast (cp_seg s0 SS))"

definition resumed :: "cpu \<Rightarrow> u32 \<Rightarrow> cpu \<Rightarrow> bool" where
  "resumed s0 ip s \<longleftrightarrow> cp_reg s = cp_reg s0 \<and> cp_seg s = cp_seg s0 \<and> cp_eip s = ip \<and> cp_eflags s = cp_eflags s0"

text \<open>Kernel code runs in the kernel's code segment; user programs run in their segments.\<close>

definition mode_ok :: "cpu \<Rightarrow> bool" where
  "mode_ok s \<longleftrightarrow> cp_seg s CS = 0x08 \<or> cp_seg s CS = 0x1B \<and> (\<forall>g \<in> {SS, DS, ES, FS, GS}. cp_seg s g = 0x23)"

lemma seg_eqI: "\<forall>g \<in> {CS, DS, ES, FS, GS, SS}. f g = (h :: seg \<Rightarrow> 'a) g \<Longrightarrow> f = h"
  by (rule ext) (case_tac x, auto)

lemma reg_eqI: "\<forall>r \<in> {EAX, ECX, EDX, EBX, ESP, EBP, ESI, EDI}. f r = (h :: reg \<Rightarrow> 'a) r \<Longrightarrow> f = h"
  by (rule ext) (case_tac x, auto)

lemma iret_resumes:
  assumes e: "cp_reg s ESP = 128 + w" "based w b" and f: "frame_at s0 ip (cp_mem s) (b + 128)" and ok: "mode_ok s0"
    and cs: "cp_seg s CS = 0x08" and r: "\<forall>r. r \<noteq> ESP \<longrightarrow> cp_reg s r = cp_reg s0 r"
    and g: "\<forall>g \<in> {DS, ES, FS, GS}. cp_seg s g = cp_seg s0 g"
    and k: "cp_seg s0 CS = 0x08 \<Longrightarrow> cp_seg s SS = cp_seg s0 SS \<and> cp_reg s0 ESP = 140 + w"
  shows "\<exists>s'. iret (fst (setup_GDT a)) s = Some s' \<and> resumed s0 ip s' \<and> cp_mem s' = cp_mem s"
proof (cases "cp_seg s0 CS = 0x08")
  case True
  then show ?thesis using f k r g gdt_selectors(1) [of a]
    by (auto simp: iret_def Let_def e(1) based_offset [OF e(2)] frame_at_def add.assoc rpl_def cs resumed_def set_reg_def
        intro!: seg_eqI reg_eqI)
next
  case False
  then have "cp_seg s0 CS = 0x1B" "\<forall>g \<in> {SS, DS, ES, FS, GS}. cp_seg s0 g = 0x23" using ok by (auto simp: mode_ok_def)
  then show ?thesis using f r g gdt_selectors(2,5,6) [of a]
    by (auto simp: iret_def Let_def e(1) based_offset [OF e(2)] frame_at_def add.assoc rpl_def cs resumed_def set_reg_def
        intro!: seg_eqI reg_eqI)
qed

text \<open>A C function returns with the stack pointer of its call, in the same code segment, and leaves what lies above alone.\<close>

definition c_returns :: "(u32 \<Rightarrow> cpu \<Rightarrow> cpu) \<Rightarrow> u32 \<Rightarrow> cpu \<Rightarrow> nat \<Rightarrow> bool" where
  "c_returns code f s n \<longleftrightarrow>
     cp_reg (code f s) ESP = cp_reg s ESP \<and> cp_seg (code f s) CS = cp_seg s CS
     \<and> same_bytes (cp_mem (code f s)) (cp_mem s) (unat (cp_reg s ESP)) n"

lemma run_append: "run (is @ js) s = run js (run is s)"
  by (induction "is" arbitrary: s) auto

lemmas save_defs = save_segments_def kernel_segments_def restore_segments_def restore_registers_def

text \<open>The registers of \<open>s0\<close> as they are saved below \<open>b + 124\<close>.\<close>

definition saved_regs :: "cpu \<Rightarrow> u32 \<Rightarrow> mem \<Rightarrow> ptr \<Rightarrow> bool" where
  "saved_regs s0 w m b \<longleftrightarrow>
     load32 m (b + 120) = cp_reg s0 ECX \<and> load32 m (b + 116) = cp_reg s0 EDX \<and> load32 m (b + 112) = cp_reg s0 EBX
     \<and> load32 m (b + 108) = cp_reg s0 EBP \<and> load32 m (b + 104) = cp_reg s0 ESI \<and> load32 m (b + 100) = cp_reg s0 EDI
     \<and> load32 m (b + 96) = 100 + w \<and> load16 m (b + 94) = cp_seg s0 DS \<and> load16 m (b + 92) = cp_seg s0 ES
     \<and> load16 m (b + 90) = cp_seg s0 FS \<and> load16 m (b + 88) = cp_seg s0 GS \<and> load16 m (b + 86) = cp_seg s0 SS"

lemma saved_regs_kept:
  assumes "same_bytes m m' (b + 86) 38" "saved_regs s0 w m' b"
  shows "saved_regs s0 w m b"
proof -
  note l = same_bytes_load [OF assms(1)]
  show ?thesis using assms(2)
      l(1) [of 34] l(1) [of 30] l(1) [of 26] l(1) [of 22] l(1) [of 18] l(1) [of 14] l(1) [of 10] l(2) [of 8] l(2) [of 6] l(2) [of 4] l(2) [of 2] l(2) [of 0]
    by (simp add: saved_regs_def add.assoc add.commute [of 88])
qed

lemma no_error_save_ok:
  fixes f :: u32
  assumes e: "cp_reg s ESP = 128 + w" "based w b"
  defines "s' \<equiv> run no_error_save (run [Pushl_imm f] s)"
  shows "cp_reg s' EAX = f" "cp_reg s' ESP = 86 + w" "cp_seg s' CS = cp_seg s CS" "saved_regs s w (cp_mem s') b"
    and "load32 (cp_mem s') (b + 124) = cp_reg s EAX" "cp_seg s' DS = 0x10"
    and "128 \<le> i \<Longrightarrow> cp_mem s' (b + i) = cp_mem s (b + i)"
  unfolding s'_def
  by (simp_all add: no_error_save_def save_defs sym_exec e(1) based_offset [OF e(2)] saved_regs_def store_miss)

lemma error_save_ok:
  fixes n f :: u32
  assumes e: "cp_reg s ESP = 128 + w" "based w b"
  defines "s' \<equiv> run error_save (run [Pushl_imm n, Pushl_imm f] s)"
  shows "cp_reg s' ECX = f" "cp_reg s' ESP = 82 + w" "cp_seg s' CS = cp_seg s CS" "saved_regs s w (cp_mem s') b"
    and "load32 (cp_mem s') (b + 124) = cp_reg s EAX" "load32 (cp_mem s') (b + 82) = n"
    and "128 \<le> i \<Longrightarrow> cp_mem s' (b + i) = cp_mem s (b + i)"
  unfolding s'_def
  by (simp_all add: error_save_def save_defs sym_exec e(1) based_offset [OF e(2)] saved_regs_def store_miss)

lemma error_save_keeps:
  fixes n f :: u32
  assumes e: "cp_reg s ESP = 128 + w" "based w b" and z: "z < b \<or> b + 128 \<le> z"
  shows "cp_mem (run error_save (run [Pushl_imm n, Pushl_imm f] s)) z = cp_mem s z"
  using z by (elim disjE) (simp_all add: error_save_def save_defs sym_exec e(1) based_offset [OF e(2)] store_miss)

lemma restore_ok:
  assumes e: "cp_reg s ESP = 86 + w" "based w b" and m: "saved_regs s0 w (cp_mem s) b"
  shows "run (restore_segments @ restore_registers) s =
    s\<lparr>cp_reg := (cp_reg s)(EDI := cp_reg s0 EDI, ESI := cp_reg s0 ESI, EBP := cp_reg s0 EBP, EBX := cp_reg s0 EBX,
        EDX := cp_reg s0 EDX, ESP := 124 + w, ECX := cp_reg s0 ECX),
      cp_seg := (cp_seg s)(SS := cp_seg s0 SS, GS := cp_seg s0 GS, FS := cp_seg s0 FS, ES := cp_seg s0 ES, DS := cp_seg s0 DS)\<rparr>"
  by (simp add: save_defs sym_exec e(1) based_offset [OF e(2)] m [unfolded saved_regs_def])

section \<open>From the interruption to the handler\<close>

text \<open>An interruption at \<open>s0\<close>: in the kernel the frame goes to the current stack, in a user program to the stack of the
  task segment and from there to the user stack. \<open>no_user_word\<close> is about the test of \<^verbatim>\<open>check_kernel_stack\<close>: in the kernel the
  processor pushes no stack segment, and the word that the routine compares is one that the interrupted code has on its stack.\<close>

definition no_user_word :: "cpu \<Rightarrow> ptr \<Rightarrow> bool" where
  "no_user_word s0 b \<longleftrightarrow> (cp_seg s0 CS = 0x08 \<longrightarrow> load32 (cp_mem s0) (b + 144) \<noteq> 0x23)"

definition interruptible :: "u32 \<Rightarrow> cpu \<Rightarrow> u32 \<Rightarrow> ptr \<Rightarrow> u32 \<Rightarrow> ptr \<Rightarrow> bool" where
  "interruptible esp0 s0 w b v vb \<longleftrightarrow> mode_ok s0 \<and> based w b \<and> based v vb
     \<and> (if cp_seg s0 CS = 0x08 then v = w \<and> cp_reg s0 ESP = 140 + w
        else esp0 = 148 + w \<and> cp_reg s0 ESP = 148 + v \<and> apart b 148 vb 148)"

definition entered :: "cpu \<Rightarrow> u32 \<Rightarrow> u32 \<Rightarrow> ptr \<Rightarrow> cpu \<Rightarrow> bool" where
  "entered s0 ip v vb s \<longleftrightarrow> cp_reg s ESP = 128 + v \<and> frame_at s0 ip (cp_mem s) (vb + 128)
     \<and> (\<forall>r. r \<noteq> ESP \<longrightarrow> cp_reg s r = cp_reg s0 r) \<and> (\<forall>g \<in> {DS, ES, FS, GS}. cp_seg s g = cp_seg s0 g) \<and> cp_seg s CS = 0x08
     \<and> (cp_seg s0 CS = 0x08 \<longrightarrow> cp_seg s SS = cp_seg s0 SS \<and> cp_reg s0 ESP = 140 + v)"

text \<open>Memory outside of the parts of the two stacks that the entry uses.\<close>

definition off_stacks :: "ptr \<Rightarrow> ptr \<Rightarrow> ptr \<Rightarrow> bool" where
  "off_stacks b vb z \<longleftrightarrow> (z < b \<or> b + 148 \<le> z) \<and> (z < vb \<or> vb + 148 \<le> z)"

text \<open>Memory that the entry does not use, what the interrupted code has on its stack included.\<close>

definition untouched :: "cpu \<Rightarrow> ptr \<Rightarrow> ptr \<Rightarrow> ptr \<Rightarrow> bool" where
  "untouched s0 b vb z \<longleftrightarrow> (if cp_seg s0 CS = 0x08 then z < b \<or> b + 140 \<le> z else off_stacks b vb z)"

lemma off_untouched: "interruptible esp0 s0 w b v vb \<Longrightarrow> off_stacks b vb z \<Longrightarrow> untouched s0 b vb z"
  by (auto simp: untouched_def off_stacks_def)

lemma interrupt_entered:
  assumes "interruptible esp0 s0 w b v vb" "no_user_word s0 b"
  shows "\<exists>s. returned ra (check_kernel_stack (call_near ra (interrupt esp0 ss0 h ip s0))) = Some s \<and> entered s0 ip v vb s
    \<and> (\<forall>z. untouched s0 b vb z \<longrightarrow> cp_mem s z = cp_mem s0 z)"
proof (cases "cp_seg s0 CS = 0x08")
  case True
  then have i: "v = w" "cp_reg s0 ESP = 140 + w" "load32 (cp_mem s0) (b + 144) \<noteq> 0x23" "based w b" "based v vb"
    using assms by (auto simp: interruptible_def no_user_word_def)
  have vb: "vb = b" using i by (simp add: based_def)
  define s1 where "s1 = interrupt esp0 ss0 h ip s0"
  have s1: "cp_reg s1 ESP = 128 + w" "load32 (cp_mem s1) (b + 144) \<noteq> 0x23" "frame_at s0 ip (cp_mem s1) (b + 128)"
    "\<forall>r. r \<noteq> ESP \<longrightarrow> cp_reg s1 r = cp_reg s0 r" "cp_seg s1 = cp_seg s0"
    using True i(3) by (simp_all add: s1_def interrupt_def sym_exec rpl_def i(2) based_offset [OF i(4)] frame_at_def add.assoc fun_upd_idem)
  have m: "cp_mem s1 z = cp_mem s0 z" if "untouched s0 b vb z" for z
    using True that by (simp add: s1_def interrupt_def sym_exec rpl_def i(2) based_offset [OF i(4)] untouched_def) (auto simp: store_miss)
  show ?thesis unfolding s1_def [symmetric] check_kernel [OF s1(1) i(4) s1(2)]
    using s1 True i(1,2) m by (auto simp: entered_def frame_at_def vb load_store_apart apart_same add.assoc store_miss untouched_def)
next
  case False
  then have i: "esp0 = 148 + w" "cp_reg s0 ESP = 148 + v" "apart b 148 vb 148" "based w b" "based v vb"
    and m: "cp_seg s0 CS = 0x1B" "\<forall>g \<in> {SS, DS, ES, FS, GS}. cp_seg s0 g = 0x23"
    using assms(1) by (auto simp: interruptible_def mode_ok_def)
  define s1 where "s1 = interrupt esp0 ss0 h ip s0"
  have s1: "cp_reg s1 ESP = 128 + w" "load32 (cp_mem s1) (b + 144) = 0x23" "load32 (cp_mem s1) (b + 140) = 148 + v"
    "load32 (cp_mem s1) (b + 136) = cp_eflags s0" "load32 (cp_mem s1) (b + 132) = 0x1B" "load32 (cp_mem s1) (b + 128) = ip"
    "\<forall>r. r \<noteq> ESP \<longrightarrow> cp_reg s1 r = cp_reg s0 r" "\<forall>g \<in> {DS, ES, FS, GS}. cp_seg s1 g = cp_seg s0 g" "cp_seg s1 CS = 0x08"
    using m by (simp_all add: s1_def interrupt_def sym_exec rpl_def i(1,2) based_offset [OF i(4)])
  have k: "cp_mem s1 z = cp_mem s0 z" if "off_stacks b vb z" for z
    using m that by (simp add: s1_def interrupt_def sym_exec rpl_def i(1,2) based_offset [OF i(4)] off_stacks_def) (auto simp: store_miss)
  show ?thesis unfolding s1_def [symmetric] check_user [OF s1(1) i(4) s1(2,3) i(5,3)] Let_def s1(4-6)
    using s1(7-9) i(2) m k by (auto simp: entered_def frame_at_def rpl_def load_store_apart apart_same add.assoc store_miss untouched_def off_stacks_def)
qed

lemma frame_kept:
  assumes "\<And>i. i < 20 \<Longrightarrow> m (a + i) = m' (a + i)" "frame_at s0 ip m' a"
  shows "frame_at s0 ip m a"
proof -
  have "same_bytes m m' a 20" using assms(1) by (simp add: same_bytes_def)
  note l = same_bytes_load(1) [OF this]
  show ?thesis using assms(2) l [of 0] l [of 4] l [of 8] l [of 12] l [of 16] by (simp add: frame_at_def)
qed

text \<open>The end of both routines, when the handler has left the saved registers alone.\<close>

lemma restored:
  assumes en: "entered s0 ip v vb s" "based v vb" "mode_ok s0"
    and x: "saved_regs s v (cp_mem x) vb" "load32 (cp_mem x) (vb + 124) = cp_reg s EAX"
      "\<And>i. 128 \<le> i \<Longrightarrow> cp_mem x (vb + i) = cp_mem s (vb + i)"
    and y: "cp_reg y ESP = 86 + v" "cp_seg y CS = 0x08" and k: "\<And>i. i < 62 \<Longrightarrow> cp_mem y (vb + 86 + i) = cp_mem x (vb + 86 + i)"
  shows "\<exists>s'. iret (fst (setup_GDT a)) (run (restore_segments @ restore_registers @ [Popl EAX]) y) = Some s'
    \<and> resumed s0 ip s' \<and> cp_mem s' = cp_mem y"
proof -
  have sv: "saved_regs s v (cp_mem y) vb"
    by (rule saved_regs_kept [OF _ x(1)]) (use k in \<open>simp add: same_bytes_def\<close>)
  have ax: "load32 (cp_mem y) (vb + 124) = cp_reg s EAX"
    unfolding x(2) [symmetric] by (rule load_cong) (use k [of "38 + i" for i] in \<open>simp add: add.assoc\<close>)
  have fr: "frame_at s0 ip (cp_mem y) (vb + 128)"
  proof (rule frame_kept)
    show "frame_at s0 ip (cp_mem s) (vb + 128)" using en by (simp add: entered_def)
    show "cp_mem y (vb + 128 + i) = cp_mem s (vb + 128 + i)" if "i < 20" for i
      using k [of "42 + i"] x(3) [of "128 + i"] that by (simp add: add.assoc)
  qed
  let ?z = "run (restore_segments @ restore_registers @ [Popl EAX]) y"
  have z: "?z = popl EAX (run (restore_segments @ restore_registers) y)" by (simp add: run_append)
  note z = z [unfolded restore_ok [OF y(1) en(2) sv]]
  have "cp_mem ?z = cp_mem y" by (simp add: z exec_defs)
  moreover have "\<exists>s'. iret (fst (setup_GDT a)) ?z = Some s' \<and> resumed s0 ip s' \<and> cp_mem s' = cp_mem ?z"
  proof (rule iret_resumes [OF _ en(2) _ en(3)])
    show "cp_reg ?z ESP = 128 + v" "cp_seg ?z CS = 0x08" using y(2) by (simp_all add: z exec_defs)
    show "frame_at s0 ip (cp_mem ?z) (vb + 128)" using fr by (simp add: z exec_defs)
    have "cp_reg ?z r = cp_reg s r" if "r \<noteq> ESP" for r
      using that by (cases r) (simp_all add: z exec_defs ax based_offset [OF en(2)])
    then show "\<forall>r. r \<noteq> ESP \<longrightarrow> cp_reg ?z r = cp_reg s0 r" using en(1) by (simp add: entered_def)
    have "cp_seg ?z g = cp_seg s g" if "g \<noteq> CS" for g using that by (cases g) (simp_all add: z exec_defs)
    then show "\<forall>g \<in> {DS, ES, FS, GS}. cp_seg ?z g = cp_seg s0 g"
      "cp_seg s0 CS = 0x08 \<Longrightarrow> cp_seg ?z SS = cp_seg s0 SS \<and> cp_reg s0 ESP = 140 + v"
      using en(1) by (simp_all add: entered_def)
  qed
  ultimately show ?thesis by simp
qed

text \<open>C9: Interrupts are transparent, unless the kernel is interrupted with the user data selector 0x23 as the second word on its
  stack, which the routine takes for the sign of a user program. Whatever the handlers of an interrupt line do within the
  calling convention, the interrupted program, in the kernel or in user mode, continues at the next instruction with all
  its registers, segments, flags and its stack pointer. The handler routine is called with the number of the line, and finds
  the memory as the program had it, all of its stack included, but for the part below the stack pointer (and the part of
  the stack of the task segment) where the entry saves the registers; what it leaves there the program finds.\<close>
theorem isr_irq_transparent:
  assumes i: "interruptible esp0 s0 w b v vb" and nu: "cp_seg s0 CS = 0x08 \<Longrightarrow> load32 (cp_mem s0) (b + 144) \<noteq> 0x23"
    and code: "\<And>x. c_returns code do_irq x 66"
  shows "\<exists>x s'. isr_irq (fst (setup_GDT a)) code ra do_irq n (interrupt esp0 ss0 h ip s0) = Some s'
    \<and> resumed s0 ip s' \<and> top32 x = of_nat n \<and> cp_mem s' = cp_mem (code do_irq x)
    \<and> (\<forall>z. untouched s0 b vb z \<longrightarrow> cp_mem x z = cp_mem s0 z)"
proof -
  have "no_user_word s0 b" using nu by (simp add: no_user_word_def)
  from interrupt_entered [OF i this] obtain s
    where s: "returned ra (check_kernel_stack (call_near ra (interrupt esp0 ss0 h ip s0))) = Some s" and en: "entered s0 ip v vb s"
      and off: "\<And>z. untouched s0 b vb z \<Longrightarrow> cp_mem s z = cp_mem s0 z"
    by blast
  have v: "based v vb" "mode_ok s0" using i by (auto simp: interruptible_def)
  have e: "cp_reg s ESP = 128 + v" using en by (simp add: entered_def)
  define x where "x = run error_save (run [Pushl_imm (of_nat n), Pushl_imm do_irq] s)"
  note x = error_save_ok [OF e v(1), where n = "of_nat n" and f = do_irq, folded x_def]
  define y where "y = run [Popl EAX] (code do_irq x)"
  have c: "cp_reg (code do_irq x) ESP = 82 + v" "cp_seg (code do_irq x) CS = 0x08" "same_bytes (cp_mem (code do_irq x)) (cp_mem x) (vb + 82) 66"
    using code [of x] en x(2,3) by (simp_all add: c_returns_def based_offset [OF v(1)] entered_def)
  have y: "cp_reg y ESP = 86 + v" "cp_seg y CS = 0x08" "cp_mem y = cp_mem (code do_irq x)"
    by (simp_all add: y_def exec_defs c)
  have k: "cp_mem y (vb + 86 + i) = cp_mem x (vb + 86 + i)" if "i < 62" for i
    using c(3) [unfolded same_bytes_def, rule_format, of "4 + i"] that by (simp add: y(3) add.assoc)
  obtain s' where "iret (fst (setup_GDT a)) (run (restore_segments @ restore_registers @ [Popl EAX]) y) = Some s'"
    "resumed s0 ip s'" "cp_mem s' = cp_mem y"
    using restored [OF en v x(4,5,7) y(1,2) k] by blast
  moreover have "top32 x = of_nat n" by (simp add: top32_def x(2,6) based_offset [OF v(1)])
  moreover have "isr_irq (fst (setup_GDT a)) code ra do_irq n (interrupt esp0 ss0 h ip s0)
      = iret (fst (setup_GDT a)) (run (restore_segments @ restore_registers @ [Popl EAX]) y)"
    unfolding isr_irq_def s error_code_def Let_def Option.bind.bind_lunit x_def [symmetric] x(1) by (simp add: y_def run_append)
  moreover have "cp_mem x z = cp_mem s0 z" if "untouched s0 b vb z" for z
  proof -
    have "z < vb \<or> vb + 128 \<le> z" using that i by (auto simp: untouched_def off_stacks_def interruptible_def based_def split: if_splits)
    then show ?thesis using error_save_keeps [OF e v(1)] off [OF that] by (simp add: x_def)
  qed
  ultimately show ?thesis using y(3) by (metis (no_types, lifting))
qed

text \<open>Concrete states: a kernel thread and a user program, and a function that only sets its result.\<close>

definition kernel_state :: cpu where
  "kernel_state = \<lparr>cp_reg = (\<lambda>r. if r = ESP then 0x108C else 5), cp_seg = (\<lambda>g. if g = CS then 0x08 else 0x10), cp_eip = 0x100,
     cp_eflags = 0x202, cp_cr3 = 0, cp_mem = (\<lambda>_. 0)\<rparr>"

definition user_state :: "u32 \<Rightarrow> cpu" where
  "user_state n = \<lparr>cp_reg = (\<lambda>r. if r = ESP then 0x5094 else if r = EAX then n else 5),
     cp_seg = (\<lambda>g. if g = CS then 0x1B else 0x23), cp_eip = 0x100, cp_eflags = 0x202, cp_cr3 = 0, cp_mem = (\<lambda>_. 0)\<rparr>"

definition demo_code :: "u32 \<Rightarrow> cpu \<Rightarrow> cpu" where
  "demo_code f s = set_reg EAX 7 s"

lemma demo_states:
  "interruptible 0 kernel_state 0x1000 0x1000 0x1000 0x1000" "interruptible 0x1094 (user_state n) 0x1000 0x1000 0x5000 0x5000"
  "c_returns demo_code f x k" "no_user_word kernel_state b" "no_user_word (user_state n) b"
  by (simp_all add: no_user_word_def interruptible_def mode_ok_def kernel_state_def user_state_def based_def apart_def load32_def bytes32_def
      c_returns_def demo_code_def set_reg_def same_bytes_def)

theorem isr_irq_transparent_witness:
  "\<exists>x s'. isr_irq (fst (setup_GDT 0x6000)) demo_code 0x7000 0x7100 14 (interrupt 0 0x10 0x7200 0x100 kernel_state) = Some s'
    \<and> resumed kernel_state 0x100 s' \<and> top32 x = 14"
  using isr_irq_transparent [OF demo_states(1) _ demo_states(3), of "0x6000" "0x7000" "0x7100" 14 "0x10" "0x7200" "0x100"]
  by (auto simp: kernel_state_def load32_def bytes32_def)

text \<open>The same for the exceptions without an error code.\<close>

lemma ex_no_error_transparent:
  assumes i: "interruptible esp0 s0 w b v vb" and nu: "no_user_word s0 b" and code: "\<And>x. c_returns code f x 62"
  shows "\<exists>x s'. ex_no_error (fst (setup_GDT a)) code ra f (interrupt esp0 ss0 h ip s0) = Some s'
    \<and> resumed s0 ip s' \<and> cp_mem s' = cp_mem (code f x)"
proof -
  from interrupt_entered [OF i nu] obtain s
    where s: "returned ra (check_kernel_stack (call_near ra (interrupt esp0 ss0 h ip s0))) = Some s" and en: "entered s0 ip v vb s"
    by blast
  have v: "based v vb" "mode_ok s0" using i by (auto simp: interruptible_def)
  have e: "cp_reg s ESP = 128 + v" using en by (simp add: entered_def)
  define x where "x = run no_error_save (run [Pushl_imm f] s)"
  note x = no_error_save_ok [OF e v(1), where f = f, folded x_def]
  have c: "cp_reg (code f x) ESP = 86 + v" "cp_seg (code f x) CS = 0x08" "same_bytes (cp_mem (code f x)) (cp_mem x) (vb + 86) 62"
    using code [of x] en x(2,3) by (simp_all add: c_returns_def based_offset [OF v(1)] entered_def)
  have "cp_mem (code f x) (vb + 86 + i) = cp_mem x (vb + 86 + i)" if "i < 62" for i using c(3) that by (simp add: same_bytes_def)
  from restored [OF en v x(4,5,7) c(1,2) this, of a] show ?thesis
    unfolding ex_no_error_def s no_error_code_def Let_def Option.bind.bind_lunit x_def [symmetric] x(1) by blast
qed

section \<open>Exceptions with an error code\<close>

lemma load32_bytes:
  "m a = ucast (load32 m a)" "m (a + 1) = ucast (drop_bit 8 (load32 m a))"
  unfolding load32_def bytes32_def by (rule bit_word_eqI, auto simp: bit_simps dest: bit_imp_le_length)+

lemma bytes32_halves:
  "bytes32 (ucast (drop_bit 16 x)) (ucast (drop_bit 24 x)) (ucast y) (ucast (drop_bit 8 y)) = drop_bit 16 (x :: u32) OR push_bit 16 (y :: u32)"
proof (rule bit_word_eqI)
  fix n
  assume n: "n < LENGTH(32)"
  then consider "n < 8" | "8 \<le> n" "n < 16" | "16 \<le> n" "n < 24" | "24 \<le> n" "n < 32" by fastforce
  then show "bit (bytes32 (ucast (drop_bit 16 x)) (ucast (drop_bit 24 x)) (ucast y) (ucast (drop_bit 8 y))) n
      = bit (drop_bit 16 x OR push_bit 16 y) n"
    using n by cases (auto simp: bytes32_def bit_simps dest: bit_imp_le_length)
qed

lemma reg16_ucast: "reg16 (ucast v) = v"
  by (rule bit_word_eqI) (auto simp: reg16_def bit_simps)

lemma upper_half: "drop_bit 16 (drop_bit 16 (x :: u32) OR push_bit 16 y) = ucast (reg16 y)"
  by (rule bit_word_eqI) (auto simp: reg16_def bit_simps dest: bit_imp_le_length)

text \<open>C33: Every exception with an error code loses control: \<open>check_kernel_stack_ec\<close> moves the stack pointer by two bytes
  and not by the four of the error code, so that its \<^verbatim>\<open>ret\<close> takes an address made of the upper half of the return
  address and the lower half of the error code. Neither the handler nor the interrupted program is reached.\<close>
theorem ex_error_loses_control:
  assumes e: "cp_reg s ESP = 128 + w" "based w b" and ec: "load32 (cp_mem s) (b + 128) = err"
    and ss: "load32 (cp_mem s) (b + 146) \<noteq> 0x23" and ra: "reg16 err \<noteq> reg16 (drop_bit 16 ra)"
  shows "cp_eip (check_kernel_stack_ec (call_near ra s)) = drop_bit 16 ra OR push_bit 16 err
    \<and> ex_error gdt code ra f s = None"
proof -
  have "load32 (store32 (store32 (cp_mem s) (b + 124) ra) (b + 122) x) (b + 126) = drop_bit 16 ra OR push_bit 16 err" for x
    using load32_bytes [of "cp_mem s" "b + 128"] unfolding ec
    by (simp add: load32_def store32_def store_bytes_def byte_list32_def bytes32_halves add.commute [of 128])
  then have ip: "cp_eip (check_kernel_stack_ec (call_near ra s)) = drop_bit 16 ra OR push_bit 16 err"
    using ss by (simp add: check_kernel_stack_ec_def check_defs sym_exec e(1) based_offset [OF e(2)])
  moreover have "drop_bit 16 ra OR push_bit 16 err \<noteq> ra"
  proof
    assume "drop_bit 16 ra OR push_bit 16 err = ra"
    then have "drop_bit 16 ra = ucast (reg16 err)" using upper_half [of ra err] by simp
    then show False using ra by (simp add: reg16_ucast)
  qed
  ultimately show ?thesis by (simp add: ex_error_def returned_def)
qed

theorem ex_error_loses_control_witness:
  "ex_error (fst (setup_GDT 0x6000)) demo_code 0xC0107000 0xC0107100 (set_reg ESP 0x1080 kernel_state) = None"
  using ex_error_loses_control [of "set_reg ESP 0x1080 kernel_state" "0x1000" "0x1000" 0 "0xC0107000" "fst (setup_GDT 0x6000)" demo_code "0xC0107100"]
  by (simp add: kernel_state_def set_reg_def based_def load32_def bytes32_def reg16_def)

section \<open>System calls\<close>

lemma set_reg16_back: "set_reg16 (reg16 w) (set_reg16 u w) = w"
proof (rule bit_word_eqI)
  fix n
  assume "n < LENGTH(32)"
  moreover have "bit (0xFFFF0000 :: u32) n \<longleftrightarrow> 16 \<le> n" if "n < 32"
    using that by (auto simp: numeral_eq_Suc less_Suc_eq)
  ultimately show "bit (set_reg16 (reg16 w) (set_reg16 u w)) n = bit w n"
    by (auto simp: set_reg16_def reg16_def bit_simps dest: bit_imp_le_length)
qed

lemma sys_save_ok:
  assumes e: "cp_reg s ESP = 128 + w" "based w b"
  defines "s' \<equiv> run (sys_save @ [Cmpl_imm 5 EAX]) s"
  shows "cp_reg s' = (cp_reg s)(ESP := 90 + w)" "cp_seg s' CS = cp_seg s CS" "saved_regs s (4 + w) (cp_mem s') (b + 4)"
    and "carry (cp_eflags s') \<longleftrightarrow> cp_reg s EAX < 5"
    and "128 \<le> i \<Longrightarrow> cp_mem s' (b + i) = cp_mem s (b + i)"
    and "z < b \<or> b + 148 \<le> z \<Longrightarrow> cp_mem s' z = cp_mem s z"
  unfolding s'_def
  by (auto simp: sys_save_def save_defs sym_exec e(1) based_offset [OF e(2)] saved_regs_def store_miss add.assoc set_reg16_back fun_eq_iff)

lemma sys_restored:
  assumes en: "entered s0 ip v vb s" "based v vb" "based (4 + v) (vb + 4)" "mode_ok s0"
    and x: "saved_regs s (4 + v) (cp_mem x) (vb + 4)" "\<And>i. 128 \<le> i \<Longrightarrow> cp_mem x (vb + i) = cp_mem s (vb + i)"
    and y: "cp_reg y ESP = 90 + v" "cp_seg y CS = 0x08" and k: "\<And>i. i < 58 \<Longrightarrow> cp_mem y (vb + 90 + i) = cp_mem x (vb + 90 + i)"
  shows "\<exists>s'. iret (fst (setup_GDT a)) (run (restore_segments @ restore_registers) y) = Some s'
    \<and> resumed (set_reg EAX (cp_reg y EAX) s0) ip s' \<and> cp_mem s' = cp_mem y"
proof -
  have sv: "saved_regs s (4 + v) (cp_mem y) (vb + 4)"
    by (rule saved_regs_kept [OF _ x(1)]) (use k in \<open>simp add: same_bytes_def add.assoc\<close>)
  have fr: "frame_at s0 ip (cp_mem y) (vb + 128)"
  proof (rule frame_kept)
    show "frame_at s0 ip (cp_mem s) (vb + 128)" using en by (simp add: entered_def)
    show "cp_mem y (vb + 128 + i) = cp_mem s (vb + 128 + i)" if "i < 20" for i
      using k [of "38 + i"] x(2) [of "128 + i"] that by (simp add: add.assoc)
  qed
  let ?z = "run (restore_segments @ restore_registers) y" and ?s0 = "set_reg EAX (cp_reg y EAX) s0"
  have "cp_reg y ESP = 86 + (4 + v)" using y(1) by simp
  note z = restore_ok [OF this en(3) sv]
  have "cp_mem ?z = cp_mem y" by (simp add: z)
  moreover have "\<exists>s'. iret (fst (setup_GDT a)) ?z = Some s' \<and> resumed ?s0 ip s' \<and> cp_mem s' = cp_mem ?z"
  proof (rule iret_resumes [OF _ en(2)])
    show "mode_ok ?s0" using en(4) by (simp add: mode_ok_def set_reg_def)
    show "cp_reg ?z ESP = 128 + v" "cp_seg ?z CS = 0x08" using y(2) by (simp_all add: z)
    show "frame_at ?s0 ip (cp_mem ?z) (vb + 128)" using fr by (simp add: z frame_at_def set_reg_def)
    have "cp_reg ?z r = (if r = EAX then cp_reg y EAX else cp_reg s r)" if "r \<noteq> ESP" for r
      using that by (cases r) (simp_all add: z)
    then show "\<forall>r. r \<noteq> ESP \<longrightarrow> cp_reg ?z r = cp_reg ?s0 r" using en(1) by (simp add: entered_def set_reg_def)
    have "cp_seg ?z g = cp_seg s g" if "g \<noteq> CS" for g using that by (cases g) (simp_all add: z)
    then show "\<forall>g \<in> {DS, ES, FS, GS}. cp_seg ?z g = cp_seg ?s0 g"
      "cp_seg ?s0 CS = 0x08 \<Longrightarrow> cp_seg ?z SS = cp_seg ?s0 SS \<and> cp_reg ?s0 ESP = 140 + v"
      using en(1) by (simp_all add: entered_def set_reg_def)
  qed
  ultimately show ?thesis by simp
qed

text \<open>The call that the dispatcher makes: the three arguments lie on the stack and the function comes from the table.\<close>

definition sys_args :: "cpu \<Rightarrow> cpu \<Rightarrow> bool" where
  "sys_args s0 x \<longleftrightarrow> load32 (cp_mem x) (ea 0 ESP x) = cp_reg s0 EBX \<and> load32 (cp_mem x) (ea 4 ESP x) = cp_reg s0 ECX
     \<and> load32 (cp_mem x) (ea 8 ESP x) = cp_reg s0 EDX \<and> cp_reg x EAX = cp_reg s0 EAX"

lemma sys_call_ok:
  assumes e: "cp_reg s ESP = 90 + v" "based v vb" "cp_seg s CS = 0x08" and code: "\<And>f x. c_returns code f x 70"
    and r: "\<And>r. r \<noteq> ESP \<Longrightarrow> cp_reg s r = cp_reg s0 r"
  obtains x f where "f = load32 (cp_mem x) (unat (of_nat table + cp_reg s0 EAX * 4))" "sys_args s0 x" "cp_reg x ESP = 78 + v"
    "\<And>z. z < vb \<or> vb + 148 \<le> z \<Longrightarrow> cp_mem x z = cp_mem s z"
    "cp_reg (sys_call code table s) EAX = cp_reg (code f x) EAX" "cp_mem (sys_call code table s) = cp_mem (code f x)"
    "cp_reg (sys_call code table s) ESP = 90 + v" "cp_seg (sys_call code table s) CS = 0x08"
    "\<And>i. i < 58 \<Longrightarrow> cp_mem (sys_call code table s) (vb + 90 + i) = cp_mem s (vb + 90 + i)"
proof -
  define x where "x = run [Pushl EDX, Pushl ECX, Pushl EBX] s"
  define f where "f = load32 (cp_mem x) (unat (of_nat table + cp_reg x EAX * 4))"
  have x: "cp_reg x ESP = 78 + v" "cp_reg x EAX = cp_reg s0 EAX" "cp_seg x CS = 0x08" "sys_args s0 x"
    "\<And>i. i < 58 \<Longrightarrow> cp_mem x (vb + 90 + i) = cp_mem s (vb + 90 + i)"
    "\<And>z. z < vb \<or> vb + 148 \<le> z \<Longrightarrow> cp_mem x z = cp_mem s z"
    using r by (auto simp: x_def sym_exec e(1,3) based_offset [OF e(2)] sys_args_def store_miss)
  have c: "sys_call code table s = run [Addl_imm (4 * 3) ESP] (code f x)"
    by (simp only: sys_call_def Let_def x_def [symmetric] f_def [symmetric])
  have k: "cp_reg (code f x) ESP = 78 + v" "cp_seg (code f x) CS = 0x08" "same_bytes (cp_mem (code f x)) (cp_mem x) (vb + 78) 70"
    using code [of f x] x(1,3) by (simp_all add: c_returns_def based_offset [OF e(2)])
  have "cp_mem (code f x) (vb + 90 + i) = cp_mem x (vb + 90 + i)" if "i < 58" for i
    using k(3) [unfolded same_bytes_def, rule_format, of "12 + i"] that by (simp add: add.assoc)
  then show ?thesis using x k f_def by (intro that [of f x]) (simp_all add: c exec_defs)
qed

text \<open>The entry of the table that the dispatcher reads, with the table away from the stacks.\<close>

lemma table_entry:
  assumes "n < 5" "\<And>z. off_stacks b vb z \<Longrightarrow> m z = m' z" "\<And>j. j < 20 \<Longrightarrow> off_stacks b vb (table + j)" "table + 20 \<le> 2 ^ 32"
  shows "load32 m (unat (of_nat table + n * 4)) = load32 m' (table + 4 * unat (n :: u32))"
proof -
  have n: "unat n < 5" using assms(1) by (simp add: word_less_nat_alt)
  have a: "unat (of_nat table + n * 4) = table + 4 * unat n"
    using n assms(4) unfolding unat_word_ariths unat_of_nat by simp
  have "m (table + 4 * unat n + k) = m' (table + 4 * unat n + k)" if "k < 4" for k
    using assms(2) [OF assms(3) [of "4 * unat n + k"]] n that by (simp add: add.assoc)
  then show ?thesis unfolding a by (rule load_cong(1))
qed

text \<open>A system call from user mode or the kernel, with the table away from the stacks: with a number of the table in
  EAX the function whose address the table has at that index is called with EBX, ECX and EDX as its arguments, and the
  caller continues behind the instruction with the result in EAX and every other register, segment, flag and its stack
  pointer as before. A number outside the table changes nothing.\<close>
theorem sys_enter_dispatches:
  assumes i: "interruptible esp0 s0 w b v vb" "vb + 516 \<le> 2 ^ 32" and nu: "no_user_word s0 b" and code: "\<And>f x. c_returns code f x 70"
    and tab: "\<And>j. j < 20 \<Longrightarrow> off_stacks b vb (table + j)" "table + 20 \<le> 2 ^ 32"
    and f: "f = load32 (cp_mem s0) (table + 4 * unat (cp_reg s0 EAX))"
  shows "if cp_reg s0 EAX < 5
    then \<exists>x s'. sys_enter (fst (setup_GDT a)) code ra table (interrupt esp0 ss0 h ip s0) = Some s' \<and> sys_args s0 x
      \<and> cp_reg x ESP = 78 + v \<and> (\<forall>z. off_stacks b vb z \<longrightarrow> cp_mem x z = cp_mem s0 z)
      \<and> resumed (set_reg EAX (cp_reg (code f x) EAX) s0) ip s' \<and> cp_mem s' = cp_mem (code f x)
    else \<exists>s'. sys_enter (fst (setup_GDT a)) code ra table (interrupt esp0 ss0 h ip s0) = Some s' \<and> resumed s0 ip s'"
proof -
  from interrupt_entered [OF i(1) nu] obtain s
    where s: "returned ra (check_kernel_stack (call_near ra (interrupt esp0 ss0 h ip s0))) = Some s" and en: "entered s0 ip v vb s"
      and off: "\<forall>z. off_stacks b vb z \<longrightarrow> cp_mem s z = cp_mem s0 z"
    using off_untouched [OF i(1)] by blast
  have v: "based v vb" "mode_ok s0" using i by (auto simp: interruptible_def)
  have v4: "based (4 + v) (vb + 4)" using v(1) i(2) by (simp add: based_def based_offset(2) [OF v(1)])
  have e: "cp_reg s ESP = 128 + v" and r: "\<And>r. r \<noteq> ESP \<Longrightarrow> cp_reg s r = cp_reg s0 r" using en by (simp_all add: entered_def)
  define t where "t = run (sys_save @ [Cmpl_imm 5 EAX]) s"
  note t = sys_save_ok [OF e v(1), folded t_def]
  have ts: "cp_reg t ESP = 90 + v" "cp_seg t CS = 0x08" using t(1,2) en by (simp_all add: entered_def)
  have d: "sys_enter (fst (setup_GDT a)) code ra table (interrupt esp0 ss0 h ip s0)
      = iret (fst (setup_GDT a)) (run (restore_segments @ restore_registers) (if cp_reg s0 EAX < 5 then sys_call code table t else t))"
    unfolding sys_enter_def s Option.bind.bind_lunit Let_def t_def [symmetric] t(4) using r by simp
  note fin = sys_restored [OF en v(1) v4 v(2) t(3) t(5)]
  show ?thesis
  proof (cases "cp_reg s0 EAX < 5")
    case True
    have "cp_reg t r = cp_reg s0 r" if "r \<noteq> ESP" for r using that t(1) r by simp
    then obtain x g where x: "g = load32 (cp_mem x) (unat (of_nat table + cp_reg s0 EAX * 4))" "sys_args s0 x" "cp_reg x ESP = 78 + v"
      and mx: "\<And>z. z < vb \<or> vb + 148 \<le> z \<Longrightarrow> cp_mem x z = cp_mem t z"
      and c: "cp_reg (sys_call code table t) EAX = cp_reg (code g x) EAX" "cp_mem (sys_call code table t) = cp_mem (code g x)"
      "cp_reg (sys_call code table t) ESP = 90 + v" "cp_seg (sys_call code table t) CS = 0x08"
      "\<And>i. i < 58 \<Longrightarrow> cp_mem (sys_call code table t) (vb + 90 + i) = cp_mem t (vb + 90 + i)"
      using sys_call_ok [OF ts(1) v(1) ts(2) code, of s0 table] by metis
    have mo: "cp_mem x z = cp_mem s0 z" if "off_stacks b vb z" for z using that mx [of z] t(6) [of z] off by (simp add: off_stacks_def)
    have g: "g = f" unfolding x(1) f by (rule table_entry [OF True mo tab])
    from fin [OF _ c(3,4,5), of a] obtain s' where
      "iret (fst (setup_GDT a)) (run (restore_segments @ restore_registers) (sys_call code table t)) = Some s'"
      "resumed (set_reg EAX (cp_reg (code f x) EAX) s0) ip s'" "cp_mem s' = cp_mem (code f x)"
      unfolding c(1,2) g by auto
    with x(2,3) mo show ?thesis unfolding d if_P [OF True] by (intro exI [of _ x] exI [of _ s'] conjI) blast+
  next
    case False
    have "set_reg EAX (cp_reg t EAX) s0 = s0" using t(1) r by (simp add: set_reg_def fun_upd_idem)
    then show ?thesis unfolding d using False fin [OF _ ts] by auto
  qed
qed

theorem sys_enter_dispatches_witness:
  "\<exists>x s'. sys_enter (fst (setup_GDT 0x6000)) demo_code 0x7000 0x9000 (interrupt 0x1094 0x10 0x7200 0x100 (user_state 4)) = Some s'
    \<and> sys_args (user_state 4) x \<and> resumed (set_reg EAX (cp_reg (demo_code 0 x) EAX) (user_state 4)) 0x100 s'"
  using sys_enter_dispatches [OF demo_states(2) _ demo_states(5) demo_states(3), of "0x9000" 0 4 "0x6000" "0x7000" "0x10" "0x7200" "0x100"]
  by (auto simp: user_state_def off_stacks_def load32_def bytes32_def)

end
