(* ===== verification/Exceptions.thy ===== *)
theory Exceptions
  imports Console Trap
begin

text \<open>
  The handlers of processor exceptions, \<^verbatim>\<open>arch/x86/exceptions.c\<close>, the register dump \<^verbatim>\<open>arch/x86/dump_cpu.c\<close> and
  \<^verbatim>\<open>panic\<close> of \<^verbatim>\<open>kernel/kernel.c\<close>. A handler returns to the interrupted program or halts the processor, the two outcomes
  below; \<open>None\<close> is text that overflows a local buffer.
\<close>

section \<open>Model\<close>

datatype 'a outcome = Returned 'a | Halted 'a

definition text_of :: "string \<Rightarrow> byte list" where
  "text_of s = map of_char s"

abbreviation (input) KERN_CRIT :: "byte list" where "KERN_CRIT \<equiv> [33, 48, 33]"

definition kprintf_to :: "'h machine \<Rightarrow> byte list \<Rightarrow> arg list \<Rightarrow> 'h tty \<Rightarrow> 'h tty option" where
  "kprintf_to m format args st = map_option snd (kprintf_out m format args st)"

definition panic :: "'h machine \<Rightarrow> byte list \<Rightarrow> arg list \<Rightarrow> 'h tty \<Rightarrow> 'h tty outcome option" where
  "panic m format args st = do {
     (res, str) \<leftarrow> vsprintf format args;
     if res < MAX_KPRINTF_SIZE then do {
       st1 \<leftarrow> kprintf_to m (KERN_CRIT @ [10] @ text_of ''PANIC: %s'' @ [10]) [AStr (takeWhile (\<lambda>c. c \<noteq> 0) str)] st;
       Some (Halted st1)
     } else None
   }"

definition dump_cpu_regs :: "'h machine \<Rightarrow> pt_regs \<Rightarrow> 'h tty \<Rightarrow> 'h tty option" where
  "dump_cpu_regs m regs st = do {
     s1 \<leftarrow> kprintf_to m ([10] @ text_of ''DEBUG INFORMATION:'' @ [10]) [] st;
     s2 \<leftarrow> kprintf_to m (text_of ''EAX: %.9x    CS: %.5x'' @ [10]) [AWord (r_eax regs), AWord (ucast (r_cs regs))] s1;
     s3 \<leftarrow> kprintf_to m (text_of ''EBX: %.9x    DS: %.5x'' @ [10]) [AWord (r_ebx regs), AWord (ucast (r_ds regs))] s2;
     s4 \<leftarrow> kprintf_to m (text_of ''ECX: %.9x    ES: %.5x'' @ [10]) [AWord (r_ecx regs), AWord (ucast (r_es regs))] s3;
     s5 \<leftarrow> kprintf_to m (text_of ''EDX: %.9x    FS: %.5x'' @ [10]) [AWord (r_edx regs), AWord (ucast (r_fs regs))] s4;
     s6 \<leftarrow> kprintf_to m (text_of ''ESP: %.9x    GS: %.5x'' @ [10]) [AWord (r_esp regs), AWord (ucast (r_gs regs))] s5;
     s7 \<leftarrow> kprintf_to m (text_of ''EBP: %.9x    SS: %.5x'' @ [10]) [AWord (r_ebp regs), AWord (ucast (r_ss regs))] s6;
     s8 \<leftarrow> kprintf_to m (text_of ''ESI: %.9x'' @ [10]) [AWord (r_esi regs)] s7;
     s9 \<leftarrow> kprintf_to m (text_of ''EDI: %.9x'' @ [10]) [AWord (r_edi regs)] s8;
     kprintf_to m (text_of ''EFLAGS: %09x'' @ [10]) [AWord (r_eflags regs)] s9
   }"

text \<open>A handler that only reports, and one that panics.\<close>

definition report :: "'h machine \<Rightarrow> string \<Rightarrow> 'h tty \<Rightarrow> 'h tty outcome option" where
  "report m msg st = map_option Returned (kprintf_to m (text_of msg @ [10]) [] st)"

definition ex_div :: "'h machine \<Rightarrow> pt_regs \<Rightarrow> 'h tty \<Rightarrow> 'h tty outcome option" where
  "ex_div m regs st = do { s1 \<leftarrow> dump_cpu_regs m regs st; panic m (text_of ''Division by ZERO!'') [] s1 }"

definition ex_debug :: "'h machine \<Rightarrow> 'h tty \<Rightarrow> 'h tty outcome option" where "ex_debug m = report m ''EXCEP: DEBUG''"
definition ex_nmi :: "'h machine \<Rightarrow> 'h tty \<Rightarrow> 'h tty outcome option" where "ex_nmi m = report m ''EXCEP: NMI''"
definition ex_break :: "'h machine \<Rightarrow> 'h tty \<Rightarrow> 'h tty outcome option" where "ex_break m = report m ''EXCEP: BRK''"
definition ex_overflow :: "'h machine \<Rightarrow> 'h tty \<Rightarrow> 'h tty outcome option" where "ex_overflow m = report m ''EXCEP: OVERFLOW''"
definition ex_bounds :: "'h machine \<Rightarrow> 'h tty \<Rightarrow> 'h tty outcome option" where "ex_bounds m = report m ''EXCEP: BOUNDS''"
definition ex_inv_op :: "'h machine \<Rightarrow> 'h tty \<Rightarrow> 'h tty outcome option" where "ex_inv_op m = report m ''EXCEP: INVALID OP''"
definition ex_device :: "'h machine \<Rightarrow> 'h tty \<Rightarrow> 'h tty outcome option" where "ex_device m = report m ''EXCEP: DEVICE''"

definition ex_dfault :: "'h machine \<Rightarrow> u32 \<Rightarrow> 'h tty \<Rightarrow> 'h tty outcome option" where
  "ex_dfault m err st = panic m (text_of ''EXCEP: DEFAULT'' @ [10]) [] st"

definition ex_coproc :: "'h machine \<Rightarrow> 'h tty \<Rightarrow> 'h tty outcome option" where "ex_coproc m = report m ''EXCEP: COPROC''"

definition ex_inv_tss :: "'h machine \<Rightarrow> u32 \<Rightarrow> 'h tty \<Rightarrow> 'h tty outcome option" where
  "ex_inv_tss m err st = panic m (text_of ''EXCEP: INVALID TSS'' @ [10]) [] st"

definition ex_segnp :: "'h machine \<Rightarrow> u32 \<Rightarrow> 'h tty \<Rightarrow> 'h tty outcome option" where
  "ex_segnp m err st = panic m (text_of ''EXCEP: SEGNP'' @ [10]) [] st"

definition ex_stack :: "'h machine \<Rightarrow> u32 \<Rightarrow> 'h tty \<Rightarrow> 'h tty outcome option" where
  "ex_stack m err st = panic m (text_of ''EXCEP: STACK'' @ [10]) [] st"

definition ex_gp :: "'h machine \<Rightarrow> u32 \<Rightarrow> pt_regs \<Rightarrow> 'h tty \<Rightarrow> 'h tty outcome option" where
  "ex_gp m err regs st = do { s1 \<leftarrow> dump_cpu_regs m regs st; panic m (text_of ''GENERAL PROTECTION FAULT: code %d'') [AWord err] s1 }"

definition ex_pfault :: "'h machine \<Rightarrow> u32 \<Rightarrow> pt_regs \<Rightarrow> 'h tty \<Rightarrow> 'h tty outcome option" where
  "ex_pfault m err regs st = do { s1 \<leftarrow> dump_cpu_regs m regs st; panic m (text_of ''PAGE FAULT'') [] s1 }"

definition ex_floatp :: "'h machine \<Rightarrow> 'h tty \<Rightarrow> 'h tty outcome option" where "ex_floatp m = report m ''EXCEP: FLOATP''"

definition ex_align :: "'h machine \<Rightarrow> u32 \<Rightarrow> 'h tty \<Rightarrow> 'h tty outcome option" where
  "ex_align m err st = panic m (text_of ''EXCEP: ALIGN'' @ [10]) [] st"

definition ex_machine :: "'h machine \<Rightarrow> 'h tty \<Rightarrow> 'h tty outcome option" where "ex_machine m = report m ''EXCEP: MACHINE''"
definition ex_simd :: "'h machine \<Rightarrow> 'h tty \<Rightarrow> 'h tty outcome option" where "ex_simd m = report m ''EXCEP: SIMD''"

text \<open>The handlers by vector, with the error code and the saved registers.\<close>

definition exception_handler :: "'h machine \<Rightarrow> u32 \<Rightarrow> pt_regs \<Rightarrow> 'h tty \<Rightarrow> (nat \<times> 'h tty outcome option) list" where
  "exception_handler m err regs st =
     [(0, ex_div m regs st), (1, ex_debug m st), (2, ex_nmi m st), (3, ex_break m st), (4, ex_overflow m st), (5, ex_bounds m st),
      (6, ex_inv_op m st), (7, ex_device m st), (8, ex_dfault m err st), (9, ex_coproc m st), (10, ex_inv_tss m err st),
      (11, ex_segnp m err st), (12, ex_stack m err st), (13, ex_gp m err regs st), (14, ex_pfault m err regs st),
      (16, ex_floatp m st), (17, ex_align m err st), (18, ex_machine m st), (19, ex_simd m st)]"

section \<open>Text with numbers\<close>

lemma digit_loop_total:
  "2 \<le> base \<Longrightarrow> \<exists>ds. digit_loop base dv = Some ds \<and> ds \<noteq> [] \<and> (\<forall>k > 0. \<bar>dv\<bar> < base ^ k \<longrightarrow> length ds \<le> k)"
proof (induction base dv rule: digit_loop.induct)
  case (1 base dv)
  let ?q = "dv sdiv base"
  have q: "\<bar>?q\<bar> = \<bar>dv\<bar> div base"
  proof -
    have "0 \<le> \<bar>dv\<bar> div base" using 1(2) by (simp add: pos_imp_zdiv_nonneg_iff)
    then show ?thesis using 1(2) by (cases "dv = 0") (simp_all add: signed_divide_int_def abs_mult abs_sgn_eq)
  qed
  show ?case
  proof (cases "?q = 0")
    case True
    then show ?thesis using 1(2) by (subst digit_loop.simps) auto
  next
    case False
    then obtain ds where ds: "digit_loop base ?q = Some ds" and len: "\<And>k. 0 < k \<Longrightarrow> \<bar>?q\<bar> < base ^ k \<Longrightarrow> length ds \<le> k"
      using 1 by fastforce
    have "Suc (length ds) \<le> k" if k: "0 < k" "\<bar>dv\<bar> < base ^ k" for k
    proof -
      obtain j where j: "k = Suc j" using k(1) by (cases k) auto
      have "\<bar>dv\<bar> div base < base ^ j"
      proof (rule ccontr)
        assume "\<not> \<bar>dv\<bar> div base < base ^ j"
        then have "base * base ^ j \<le> base * (\<bar>dv\<bar> div base)" using 1(2) by (intro mult_left_mono) simp_all
        also have "\<dots> \<le> \<bar>dv\<bar>" using 1(2) mult_div_mod_eq [of base "\<bar>dv\<bar>"] pos_mod_sign [of base "\<bar>dv\<bar>"] by linarith
        finally show False using k(2) j by simp
      qed
      moreover have "0 < j"
      proof (rule gr0I)
        assume "j = 0"
        then show False using False q \<open>\<bar>dv\<bar> div base < base ^ j\<close> by (simp add: abs_le_zero_iff [symmetric] del: abs_le_zero_iff)
      qed
      ultimately show ?thesis using len [of j] q j by simp
    qed
    then show ?thesis using ds False 1(2) by (subst digit_loop.simps) (simp add: Let_def)
  qed
qed

lemma numtostr_total:
  assumes "2 \<le> base" and "0 \<le> prec" "prec \<le> 32"
  shows "\<exists>s. numtostr out flags w base prec sig = Some (out @ s) \<and> length s \<le> 66"
proof -
  define dv where "dv = (if sig then sint (if sint w < 0 then - w else w) else uint w)"
  have "\<bar>dv\<bar> < 2 ^ 32"
  proof (cases sig)
    case True
    have "\<bar>sint v\<bar> < 2 ^ 32" for v :: u32 using sint_greater_eq [of v] sint_less [of v] by simp
    then show ?thesis using True by (simp add: dv_def)
  next
    case False
    then have "\<bar>dv\<bar> = uint w" by (simp add: dv_def)
    then show ?thesis using uint_lt2p [of w] by simp
  qed
  also have "(2 :: int) ^ 32 \<le> base ^ 32" using assms(1) by (intro power_mono) simp_all
  finally obtain ds where ds: "digit_loop base dv = Some ds" "length ds \<le> 32" "ds \<noteq> []"
    using digit_loop_total [OF assms(1), of dv] by auto
  have "shift_len flags prec n \<le> 34" for n using assms(2,3) by (auto simp: shift_len_def)
  moreover have "length (pad_number flags prec c x) = length x + shift_len flags prec (length x)" for c x
    by (simp add: pad_number_def Let_def)
  ultimately have "length (pad_number flags prec c x) \<le> length x + 34" for c x by simp
  from this [of "sign_char flags (sint w) sig" "swap_loop ds (length ds - 1) 0 ((length ds - 1) div 2 + 1)"] show ?thesis
    using ds by (simp add: numtostr_def dv_def [symmetric] Let_def)
qed

text \<open>The conversion \<^verbatim>\<open>%.\<close>\<open>d\<close>\<^verbatim>\<open>x\<close> with one digit, and \<^verbatim>\<open>%09x\<close>.\<close>

lemma conv_hex:
  assumes "is_dig d" "d \<noteq> 48"
  shows "\<exists>s. length s \<le> 66 \<and> vsprintf_loop (37 # 46 # d # 120 # fmt) flags (AWord w # args) out = vsprintf_loop fmt flags args (out @ s)"
    and "\<exists>s. length s \<le> 66 \<and> vsprintf_loop (37 # 48 # d # 120 # fmt) flags (AWord w # args) out
      = vsprintf_loop fmt (SET_BIT flags FLAG_ZPAD) args (out @ s)"
    and "\<exists>s. length s \<le> 66 \<and> vsprintf_loop (37 # 48 # 46 # d # 120 # fmt) flags (AWord w # args) out
      = vsprintf_loop fmt (SET_BIT flags FLAG_ZPAD) args (out @ s)"
proof -
  have d: "digit_char d" using assms by (simp add: is_dig_def digit_char_def word_le_nat_alt)
  then have "decimal [d] \<le> 9" by (auto simp: decimal_def digit_char_def)
  then have a: "atoi (num_mem [d]) 1 = Some (int (decimal [d]))" "decimal [d] \<le> 9"
    using atoi_num_mem [of "[d]"] d by (simp_all add: sint_of_nat_u32)
  have ne: "d \<notin> {35, 45, 32, 43}" using assms(1) by (auto simp: is_dig_def)
  have p: "parse_num (46 # d # 120 # fmt) = ([d], 120 # fmt)" "parse_num (d # 120 # fmt) = ([d], 120 # fmt)"
    "parse_length (120 # fmt) = 120 # fmt"
    using assms by (simp_all add: parse_num_def is_dig_def parse_length_def)
  have n: "\<exists>s. numtostr out f w 16 (int (decimal [d])) True = Some (out @ s) \<and> length s \<le> 66" for f
    using numtostr_total [of 16 "int (decimal [d])"] a(2) by simp
  have "parse_flags (46 # d # 120 # fmt) flags = (flags, 46 # d # 120 # fmt)" by simp
  then have "vsprintf_loop (37 # 46 # d # 120 # fmt) flags (AWord w # args) out
      = do { o' \<leftarrow> numtostr out flags w 16 (int (decimal [d])) True; vsprintf_loop fmt flags args o' }"
    by (subst vsprintf_loop.simps) (simp add: p a(1) [unfolded One_nat_def] convert_def word_arg_def del: parse_flags.simps)
  then show "\<exists>s. length s \<le> 66 \<and> vsprintf_loop (37 # 46 # d # 120 # fmt) flags (AWord w # args) out = vsprintf_loop fmt flags args (out @ s)"
    using n [of flags] by auto
  have "parse_flags (48 # d # 120 # fmt) flags = (SET_BIT flags FLAG_ZPAD, d # 120 # fmt)" using assms(2) ne by simp
  then have "vsprintf_loop (37 # 48 # d # 120 # fmt) flags (AWord w # args) out
      = do { o' \<leftarrow> numtostr out (SET_BIT flags FLAG_ZPAD) w 16 (int (decimal [d])) True; vsprintf_loop fmt (SET_BIT flags FLAG_ZPAD) args o' }"
    by (subst vsprintf_loop.simps) (simp add: p a(1) [unfolded One_nat_def] convert_def word_arg_def del: parse_flags.simps)
  then show "\<exists>s. length s \<le> 66 \<and> vsprintf_loop (37 # 48 # d # 120 # fmt) flags (AWord w # args) out
      = vsprintf_loop fmt (SET_BIT flags FLAG_ZPAD) args (out @ s)"
    using n [of "SET_BIT flags FLAG_ZPAD"] by auto
  have "parse_flags (48 # 46 # d # 120 # fmt) flags = (SET_BIT flags FLAG_ZPAD, 46 # d # 120 # fmt)" by simp
  then have "vsprintf_loop (37 # 48 # 46 # d # 120 # fmt) flags (AWord w # args) out
      = do { o' \<leftarrow> numtostr out (SET_BIT flags FLAG_ZPAD) w 16 (int (decimal [d])) True; vsprintf_loop fmt (SET_BIT flags FLAG_ZPAD) args o' }"
    by (subst vsprintf_loop.simps) (simp add: p a(1) [unfolded One_nat_def] convert_def word_arg_def del: parse_flags.simps)
  then show "\<exists>s. length s \<le> 66 \<and> vsprintf_loop (37 # 48 # 46 # d # 120 # fmt) flags (AWord w # args) out
      = vsprintf_loop fmt (SET_BIT flags FLAG_ZPAD) args (out @ s)"
    using n [of "SET_BIT flags FLAG_ZPAD"] by auto
qed

text \<open>Output to the screen: whatever the text is, only the screen changes.\<close>

lemma shown:
  assumes "vsprintf_loop fmt 0 args [] = Some out" "length out < 1024" "\<not> tt_over_serial st" "fmt \<noteq> []" "hd fmt \<noteq> 33"
  shows "\<exists>t. kprintf_to m fmt args st = Some (st\<lparr>tt_video := kprint t (tt_video st)\<rparr>)"
  using assms by (auto simp: kprintf_to_def kprintf_out_def kprintf_def vsprintf_def)

lemma hex_line:
  assumes "37 \<notin> set pre" "37 \<notin> set mid" "37 \<notin> set post" "length pre + length mid + length post < 800" "pre \<noteq> []" "hd pre \<noteq> 33"
    "\<not> tt_over_serial st"
  shows "\<exists>t. kprintf_to m (pre @ [37, 46, 57, 120] @ mid @ [37, 46, 53, 120] @ post) [AWord v, AWord w] st
    = Some (st\<lparr>tt_video := kprint t (tt_video st)\<rparr>)"
    and "\<exists>t. kprintf_to m (pre @ [37, 46, 57, 120] @ post) [AWord v] st = Some (st\<lparr>tt_video := kprint t (tt_video st)\<rparr>)"
    and "\<exists>t. kprintf_to m (pre @ [37, 48, 57, 120] @ post) [AWord v] st = Some (st\<lparr>tt_video := kprint t (tt_video st)\<rparr>)"
proof -
  have d: "is_dig 57" "57 \<noteq> (48 :: byte)" "is_dig 53" "53 \<noteq> (48 :: byte)" by (simp_all add: is_dig_def)
  note l = vsprintf_literal
  obtain a where a: "length a \<le> 66" "vsprintf_loop (37 # 46 # 57 # 120 # mid @ [37, 46, 53, 120] @ post) 0 [AWord v, AWord w] pre
      = vsprintf_loop (mid @ [37, 46, 53, 120] @ post) 0 [AWord w] (pre @ a)"
    using conv_hex(1) [OF d(1,2), of "mid @ [37, 46, 53, 120] @ post" 0 v "[AWord w]" pre] by auto
  obtain b where b: "length b \<le> 66" "vsprintf_loop (37 # 46 # 53 # 120 # post) 0 [AWord w] (pre @ a @ mid)
      = vsprintf_loop post 0 [] (pre @ a @ mid @ b)"
    using conv_hex(1) [OF d(3,4), of post 0 w "[]" "pre @ a @ mid"] by auto
  have "vsprintf_loop (pre @ [37, 46, 57, 120] @ mid @ [37, 46, 53, 120] @ post) 0 [AWord v, AWord w] [] = Some (pre @ a @ mid @ b @ post)"
    using a(2) b(2) l [OF assms(1), of "[37, 46, 57, 120] @ mid @ [37, 46, 53, 120] @ post" 0 "[AWord v, AWord w]" "[]"]
      l [OF assms(2), of "[37, 46, 53, 120] @ post" 0 "[AWord w]" "pre @ a"] l [OF assms(3), of "[]" 0 "[]" "pre @ a @ mid @ b"] by simp
  then show "\<exists>t. kprintf_to m (pre @ [37, 46, 57, 120] @ mid @ [37, 46, 53, 120] @ post) [AWord v, AWord w] st
    = Some (st\<lparr>tt_video := kprint t (tt_video st)\<rparr>)"
    by (rule shown) (use assms a(1) b(1) in \<open>simp_all add: hd_append\<close>)
  obtain c where c: "length c \<le> 66" "vsprintf_loop (37 # 46 # 57 # 120 # post) 0 [AWord v] pre = vsprintf_loop post 0 [] (pre @ c)"
    using conv_hex(1) [OF d(1,2), of post 0 v "[]" pre] by auto
  have "vsprintf_loop (pre @ [37, 46, 57, 120] @ post) 0 [AWord v] [] = Some (pre @ c @ post)"
    using c(2) l [OF assms(1), of "[37, 46, 57, 120] @ post" 0 "[AWord v]" "[]"] l [OF assms(3), of "[]" 0 "[]" "pre @ c"] by simp
  then show "\<exists>t. kprintf_to m (pre @ [37, 46, 57, 120] @ post) [AWord v] st = Some (st\<lparr>tt_video := kprint t (tt_video st)\<rparr>)"
    by (rule shown) (use assms c(1) in \<open>simp_all add: hd_append\<close>)
  let ?f = "SET_BIT 0 FLAG_ZPAD"
  obtain e where e: "length e \<le> 66" "vsprintf_loop (37 # 48 # 57 # 120 # post) 0 [AWord v] pre = vsprintf_loop post ?f [] (pre @ e)"
    using conv_hex(2) [OF d(1,2), of post 0 v "[]" pre] by auto
  have "vsprintf_loop (pre @ [37, 48, 57, 120] @ post) 0 [AWord v] [] = Some (pre @ e @ post)"
    using e(2) l [OF assms(1), of "[37, 48, 57, 120] @ post" 0 "[AWord v]" "[]"] l [OF assms(3), of "[]" ?f "[]" "pre @ e"] by simp
  then show "\<exists>t. kprintf_to m (pre @ [37, 48, 57, 120] @ post) [AWord v] st = Some (st\<lparr>tt_video := kprint t (tt_video st)\<rparr>)"
    by (rule shown) (use assms e(1) in \<open>simp_all add: hd_append\<close>)
qed

section \<open>What the handlers do\<close>

text \<open>The computation only adds text to the screen.\<close>

definition prints :: "('h tty \<Rightarrow> 'h tty option) \<Rightarrow> bool" where
  "prints f \<longleftrightarrow> (\<forall>st. \<not> tt_over_serial st \<longrightarrow> (\<exists>t. f st = Some (st\<lparr>tt_video := kprint t (tt_video st)\<rparr>)))"

lemma prints_bind:
  assumes "prints f" "prints g"
  shows "prints (\<lambda>st. do { s1 \<leftarrow> f st; g s1 })"
  unfolding prints_def
proof (intro allI impI)
  fix st :: "'a tty"
  assume "\<not> tt_over_serial st"
  then obtain t where t: "f st = Some (st\<lparr>tt_video := kprint t (tt_video st)\<rparr>)" using assms(1) by (auto simp: prints_def)
  let ?st = "st\<lparr>tt_video := kprint t (tt_video st)\<rparr>"
  have "\<not> tt_over_serial ?st" using \<open>\<not> tt_over_serial st\<close> by simp
  then obtain u where "g ?st = Some (?st\<lparr>tt_video := kprint u (tt_video ?st)\<rparr>)" using assms(2) unfolding prints_def by blast
  then have "do { s1 \<leftarrow> f st; g s1 } = Some (st\<lparr>tt_video := kprint (t @ u) (tt_video st)\<rparr>)" using t by (simp add: kprint_append)
  then show "\<exists>t. do { s1 \<leftarrow> f st; g s1 } = Some (st\<lparr>tt_video := kprint t (tt_video st)\<rparr>)" by blast
qed

lemma prints_two:
  "prints (\<lambda>st. kprintf_to m [c1, c2, c3, 58, 32, 37, 46, 57, 120, 32, 32, 32, 32, d1, d2, 58, 32, 37, 46, 53, 120, 10] [AWord v, AWord w] st)"
  if "37 \<notin> {c1, c2, c3, d1, d2}" "c1 \<noteq> 33"
  using that hex_line(1) [of "[c1, c2, c3, 58, 32]" "[32, 32, 32, 32, d1, d2, 58, 32]" "[10]"] by (auto simp: prints_def)

lemma prints_one:
  "prints (\<lambda>st. kprintf_to m [c1, c2, c3, 58, 32, 37, 46, 57, 120, 10] [AWord v] st)" if "37 \<notin> {c1, c2, c3}" "c1 \<noteq> 33"
  using that hex_line(2) [of "[c1, c2, c3, 58, 32]" "[]" "[10]"] by (auto simp: prints_def)

lemma prints_flags:
  "prints (\<lambda>st. kprintf_to m [69, 70, 76, 65, 71, 83, 58, 32, 37, 48, 57, 120, 10] [AWord v] st)"
  using hex_line(3) [of "[69, 70, 76, 65, 71, 83, 58, 32]" "[]" "[10]"] by (auto simp: prints_def)

lemma takeWhile_nonzero: "0 \<notin> set s \<Longrightarrow> takeWhile (\<lambda>c. c \<noteq> 0) s = (s :: byte list)"
  by (intro takeWhile_eq_all_conv [THEN iffD2]) auto

lemma prints_plain:
  assumes "37 \<notin> set s" "0 \<notin> set s" "s \<noteq> []" "hd s \<noteq> 33" "length s < 1000" "\<not> tt_over_serial st"
  shows "kprintf_to m s [] st = Some (st\<lparr>tt_video := kprint s (tt_video st)\<rparr>)"
proof -
  have "vsprintf_loop s 0 [] [] = Some s" using vsprintf_literal [OF assms(1), of "[]" 0 "[]" "[]"] by simp
  then show ?thesis using assms(3-6) by (simp add: kprintf_to_def kprintf_out_def kprintf_def vsprintf_def takeWhile_nonzero [OF assms(2)])
qed

lemma dump_lines:
  "text_of ''EAX: %.9x    CS: %.5x'' @ [10] = [69, 65, 88, 58, 32, 37, 46, 57, 120, 32, 32, 32, 32, 67, 83, 58, 32, 37, 46, 53, 120, 10]"
  "text_of ''EBX: %.9x    DS: %.5x'' @ [10] = [69, 66, 88, 58, 32, 37, 46, 57, 120, 32, 32, 32, 32, 68, 83, 58, 32, 37, 46, 53, 120, 10]"
  "text_of ''ECX: %.9x    ES: %.5x'' @ [10] = [69, 67, 88, 58, 32, 37, 46, 57, 120, 32, 32, 32, 32, 69, 83, 58, 32, 37, 46, 53, 120, 10]"
  "text_of ''EDX: %.9x    FS: %.5x'' @ [10] = [69, 68, 88, 58, 32, 37, 46, 57, 120, 32, 32, 32, 32, 70, 83, 58, 32, 37, 46, 53, 120, 10]"
  "text_of ''ESP: %.9x    GS: %.5x'' @ [10] = [69, 83, 80, 58, 32, 37, 46, 57, 120, 32, 32, 32, 32, 71, 83, 58, 32, 37, 46, 53, 120, 10]"
  "text_of ''EBP: %.9x    SS: %.5x'' @ [10] = [69, 66, 80, 58, 32, 37, 46, 57, 120, 32, 32, 32, 32, 83, 83, 58, 32, 37, 46, 53, 120, 10]"
  "text_of ''ESI: %.9x'' @ [10] = [69, 83, 73, 58, 32, 37, 46, 57, 120, 10]" "text_of ''EDI: %.9x'' @ [10] = [69, 68, 73, 58, 32, 37, 46, 57, 120, 10]"
  "text_of ''EFLAGS: %09x'' @ [10] = [69, 70, 76, 65, 71, 83, 58, 32, 37, 48, 57, 120, 10]"
  by (simp_all add: text_of_def)

lemma dump_prints: "prints (dump_cpu_regs m regs)"
proof -
  have "prints (\<lambda>st. kprintf_to m ([10] @ text_of ''DEBUG INFORMATION:'' @ [10]) [] st)"
    unfolding prints_def by (intro allI impI exI, rule prints_plain) (simp_all add: text_of_def)
  then show ?thesis unfolding dump_cpu_regs_def dump_lines
    by (rule prints_bind, intro prints_bind prints_two prints_one prints_flags) simp_all
qed

text \<open>A panic message without conversions.\<close>

lemma vsprintf_around_string:
  assumes "37 \<notin> set pre" "37 \<notin> set post"
  shows "vsprintf_loop (pre @ [37, 115] @ post) 0 [AStr s] [] = Some (pre @ s @ post)"
  using vsprintf_literal [OF assms(1), of "[37, 115] @ post" 0 "[AStr s]" "[]"] vsprintf_loop_string [of post 0 s "[]" pre]
    vsprintf_literal [OF assms(2), of "[]" 0 "[]" "pre @ s"] by simp

definition panic_text :: "byte list \<Rightarrow> byte list" where
  "panic_text str = [10] @ text_of ''PANIC: '' @ str @ [10]"

lemma panic_prints:
  assumes "vsprintf_loop format 0 args [] = Some str" "0 \<notin> set str" "length str < 900" "\<not> tt_over_serial st"
  shows "panic m format args st = Some (Halted (st\<lparr>tt_video := kprint (panic_text str) (tt_video st)\<rparr>))"
proof -
  have "vsprintf_loop ([10] @ text_of ''PANIC: %s'' @ [10]) 0 [AStr str] [] = Some (panic_text str)"
    using vsprintf_around_string [of "[10, 80, 65, 78, 73, 67, 58, 32]" "[10]" str] by (simp add: panic_text_def text_of_def)
  moreover have z: "0 \<notin> set (panic_text str)" using assms(2) by (simp add: panic_text_def text_of_def)
  moreover have "length (panic_text str) < 1024" using assms(3) by (simp add: panic_text_def text_of_def)
  ultimately have "kprintf_to m (KERN_CRIT @ [10] @ text_of ''PANIC: %s'' @ [10]) [AStr str] st
      = Some (st\<lparr>tt_video := kprint (panic_text str) (tt_video st)\<rparr>)"
    using assms(4) by (simp add: kprintf_to_def kprintf_out_def kprintf_def vsprintf_def takeWhile_nonzero [OF z])
  then show ?thesis using assms(1,3) by (simp add: panic_def vsprintf_def takeWhile_nonzero [OF assms(2)])
qed

text \<open>The text of the message of each exception.\<close>

definition exception_text :: "nat \<Rightarrow> byte list \<Rightarrow> byte list" where
  "exception_text v num =
     (if v = 0 then panic_text (text_of ''Division by ZERO!'') else if v = 1 then text_of ''EXCEP: DEBUG'' @ [10]
      else if v = 2 then text_of ''EXCEP: NMI'' @ [10] else if v = 3 then text_of ''EXCEP: BRK'' @ [10]
      else if v = 4 then text_of ''EXCEP: OVERFLOW'' @ [10] else if v = 5 then text_of ''EXCEP: BOUNDS'' @ [10]
      else if v = 6 then text_of ''EXCEP: INVALID OP'' @ [10] else if v = 7 then text_of ''EXCEP: DEVICE'' @ [10]
      else if v = 8 then panic_text (text_of ''EXCEP: DEFAULT'' @ [10]) else if v = 9 then text_of ''EXCEP: COPROC'' @ [10]
      else if v = 10 then panic_text (text_of ''EXCEP: INVALID TSS'' @ [10]) else if v = 11 then panic_text (text_of ''EXCEP: SEGNP'' @ [10])
      else if v = 12 then panic_text (text_of ''EXCEP: STACK'' @ [10])
      else if v = 13 then panic_text (text_of ''GENERAL PROTECTION FAULT: code '' @ num) else if v = 14 then panic_text (text_of ''PAGE FAULT'')
      else if v = 16 then text_of ''EXCEP: FLOATP'' @ [10] else if v = 17 then panic_text (text_of ''EXCEP: ALIGN'' @ [10])
      else if v = 18 then text_of ''EXCEP: MACHINE'' @ [10] else text_of ''EXCEP: SIMD'' @ [10])"

lemma report_prints:
  assumes "37 \<notin> set (text_of s)" "0 \<notin> set (text_of s)" "s \<noteq> []" "hd (text_of s) \<noteq> 33" "length s < 900" "\<not> tt_over_serial st"
  shows "report m s st = Some (Returned (st\<lparr>tt_video := kprint (text_of s @ [10]) (tt_video st)\<rparr>))"
proof -
  have "text_of s \<noteq> []" "length (text_of s) = length s" using assms(3) by (simp_all add: text_of_def)
  then show ?thesis using assms prints_plain [of "text_of s @ [10]" st m] by (simp add: report_def)
qed

lemma panic_literal:
  assumes "37 \<notin> set s" "0 \<notin> set s" "length s < 900" "\<not> tt_over_serial st"
  shows "panic m s [] st = Some (Halted (st\<lparr>tt_video := kprint (panic_text s) (tt_video st)\<rparr>))"
  using assms vsprintf_literal [OF assms(1), of "[]" 0 "[]" "[]"] by (intro panic_prints) simp_all

definition fatal :: "nat \<Rightarrow> bool" where
  "fatal v \<longleftrightarrow> v \<in> {0, 8, 10, 11, 12, 13, 14, 17}"

lemma after_dump:
  assumes "\<not> tt_over_serial st" and "\<And>s. \<not> tt_over_serial s \<Longrightarrow> g s = Some (Halted (s\<lparr>tt_video := kprint u (tt_video s)\<rparr>))"
  shows "\<exists>t. do { s1 \<leftarrow> dump_cpu_regs m regs st; g s1 } = Some (Halted (st\<lparr>tt_video := kprint (t @ u) (tt_video st)\<rparr>))"
proof -
  obtain t where t: "dump_cpu_regs m regs st = Some (st\<lparr>tt_video := kprint t (tt_video st)\<rparr>)"
    using dump_prints [of m regs] assms(1) unfolding prints_def by blast
  then show ?thesis using assms(2) [of "st\<lparr>tt_video := kprint t (tt_video st)\<rparr>"] assms(1) by (auto simp: kprint_append)
qed

lemma gp_panic:
  assumes "err \<noteq> 0x80000000"
  shows "\<exists>num. int (decimal num) = \<bar>sint err\<bar> \<and> (\<forall>st. \<not> tt_over_serial st \<longrightarrow>
    panic m (text_of ''GENERAL PROTECTION FAULT: code %d'') [AWord err] st
      = Some (Halted (st\<lparr>tt_video := kprint (panic_text (text_of ''GENERAL PROTECTION FAULT: code '' @ num)) (tt_video st)\<rparr>)))"
proof -
  let ?p = "text_of ''GENERAL PROTECTION FAULT: code ''"
  have p: "37 \<notin> set ?p" "0 \<notin> set ?p" "length ?p = 31" by (simp_all add: text_of_def)
  have f: "text_of ''GENERAL PROTECTION FAULT: code %d'' = ?p @ [37, 100]" by (simp add: text_of_def)
  obtain num where n: "numtostr ?p 0 err 10 0 True = Some (?p @ num)" "\<forall>c \<in> set num. digit_char c" "int (decimal num) = \<bar>sint err\<bar>"
    "length num \<le> 10" using numtostr_plain [of True err ?p] assms by auto
  have "vsprintf_loop (?p @ [37, 100]) 0 [AWord err] [] = Some (?p @ num)"
    using vsprintf_literal [OF p(1), of "[37, 100]" 0 "[AWord err]" "[]"] vsprintf_loop_conversion [of 100 "[]" err "[]" ?p] n(1) by simp
  moreover have "0 \<notin> set num" using n(2) by (auto simp: digit_char_def)
  ultimately show ?thesis unfolding f using n p panic_prints [where m = m and format = "?p @ [37, 100]" and args = "[AWord err]" and str = "?p @ num"]
    by (intro exI [of _ num]) simp
qed

lemmas simple_handlers = ex_debug_def ex_nmi_def ex_break_def ex_overflow_def ex_bounds_def ex_inv_op_def ex_device_def ex_dfault_def
  ex_coproc_def ex_inv_tss_def ex_segnp_def ex_stack_def ex_floatp_def ex_align_def ex_machine_def ex_simd_def

lemma simple_handlers_report:
  assumes "\<not> tt_over_serial st"
  shows "list_all (\<lambda>(v, r). v \<in> {0, 13, 14} \<or>
    r = Some ((if fatal v then Halted else Returned) (st\<lparr>tt_video := kprint (exception_text v num) (tt_video st)\<rparr>)))
    (exception_handler m err regs st)"
  using assms unfolding exception_handler_def simple_handlers
  by (simp add: report_prints panic_literal fatal_def exception_text_def text_of_def)

text \<open>C32: Every exception handler comes to an end: the messages fit their buffers whatever the registers hold, they go to
  the screen, and nothing but the screen changes. The handlers of the faults halt the processor with a panic message,
  those for division, protection and page faults after a dump of the registers; the others report and return.\<close>
theorem exception_handlers_report:
  assumes "\<not> tt_over_serial st" "err \<noteq> 0x80000000" "(v, r) \<in> set (exception_handler m err regs st)"
  shows "\<exists>t num. int (decimal num) = \<bar>sint err\<bar> \<and> (v \<notin> {0, 13, 14} \<longrightarrow> t = [])
    \<and> r = Some ((if fatal v then Halted else Returned) (st\<lparr>tt_video := kprint (t @ exception_text v num) (tt_video st)\<rparr>))"
proof -
  obtain num where n: "int (decimal num) = \<bar>sint err\<bar>" "\<And>st. \<not> tt_over_serial st \<Longrightarrow>
      panic m (text_of ''GENERAL PROTECTION FAULT: code %d'') [AWord err] st
      = Some (Halted (st\<lparr>tt_video := kprint (panic_text (text_of ''GENERAL PROTECTION FAULT: code '' @ num)) (tt_video st)\<rparr>))"
    using gp_panic [OF assms(2), of m] by blast
  have p: "panic m (text_of ''Division by ZERO!'') [] s = Some (Halted (s\<lparr>tt_video := kprint (panic_text (text_of ''Division by ZERO!'')) (tt_video s)\<rparr>))"
    "panic m (text_of ''PAGE FAULT'') [] s = Some (Halted (s\<lparr>tt_video := kprint (panic_text (text_of ''PAGE FAULT'')) (tt_video s)\<rparr>))"
    if "\<not> tt_over_serial s" for s using that by (auto intro!: panic_literal simp: text_of_def)
  consider "v = 0" "r = ex_div m regs st" | "v = 13" "r = ex_gp m err regs st" | "v = 14" "r = ex_pfault m err regs st"
    | "v \<notin> {0, 13, 14}" "r = Some ((if fatal v then Halted else Returned) (st\<lparr>tt_video := kprint (exception_text v num) (tt_video st)\<rparr>))"
    using assms(3) simple_handlers_report [OF assms(1), of num m err regs] by (auto simp: exception_handler_def)
  then show ?thesis
  proof cases
    case 1
    then show ?thesis using after_dump [OF assms(1) p(1), of m regs] n(1) by (auto simp: ex_div_def fatal_def exception_text_def)
  next
    case 2
    then show ?thesis using after_dump [OF assms(1) n(2), of m regs] n(1) by (auto simp: ex_gp_def fatal_def exception_text_def)
  next
    case 3
    then show ?thesis using after_dump [OF assms(1) p(2), of m regs] n(1) by (auto simp: ex_pfault_def fatal_def exception_text_def)
  next
    case 4
    then show ?thesis using n(1) by auto
  qed
qed

theorem exception_handlers_report_witness:
  "\<exists>t num. int (decimal num) = 16 \<and> ex_gp (traced idle_uart) 16 zero_regs (demo_tty False)
    = Some (Halted ((demo_tty False)\<lparr>tt_video := kprint (t @ exception_text 13 num) (tt_video (demo_tty False))\<rparr>))"
  using exception_handlers_report [of "demo_tty False" 16 13 "ex_gp (traced idle_uart) 16 zero_regs (demo_tty False)" "traced idle_uart" zero_regs]
  by (auto simp: exception_handler_def fatal_def demo_tty_def)

text \<open>A register with the highest bit set, such as an address of the kernel, is shown as its absolute value.\<close>

lemma hex_shows_absolute_value: "sprintf (text_of ''%.9x'') [AWord 0xC0100000] = Some (9, text_of '' 3FF00000'')"
  by code_simp

end
