(* ===== verification/Ata_Init.thy ===== *)
theory Ata_Init
  imports Exceptions Ata
begin

text \<open>
  The disks at start: the rest of \<^verbatim>\<open>init_ata_generic\<close> of \<^verbatim>\<open>drivers/block/ata_generic.c\<close>, in which the interrupts and the
  two buses are registered and the partition tables are read, and \<^verbatim>\<open>print_partition_table\<close> of \<^verbatim>\<open>fs/partition.c\<close>. The
  partition tables are read with the driver's own synchronous operation, whose sleep ends with the interrupt of the
  controller.
\<close>

section \<open>Model\<close>

text \<open>The state of the components that the initialisation works on. Console and driver share the machine.\<close>

record 'h disks =
  dk_tty :: "'h tty"
  dk_ata :: "'h ata"
  dk_cache :: bcache

abbreviation (input) KERN_ERROR :: "byte list" where "KERN_ERROR \<equiv> [33, 49, 33]"
abbreviation (input) KERN_INFO :: "byte list" where "KERN_INFO \<equiv> [33, 51, 33]"
abbreviation (input) ATA_PRI_IRQ :: u16 where "ATA_PRI_IRQ \<equiv> 14"
abbreviation (input) ATA_SEC_IRQ :: u16 where "ATA_SEC_IRQ \<equiv> 15"

definition on_ata :: "('h ata \<Rightarrow> ('r \<times> 'h ata) option) \<Rightarrow> 'h disks \<Rightarrow> ('r \<times> 'h disks) option" where
  "on_ata f st = do {
     (r, a) \<leftarrow> f ((dk_ata st)\<lparr>at_hw := kb_hw (tt_kbd (dk_tty st))\<rparr>);
     Some (r, st\<lparr>dk_ata := a, dk_tty := (dk_tty st)\<lparr>tt_kbd := (tt_kbd (dk_tty st))\<lparr>kb_hw := at_hw a\<rparr>\<rparr>\<rparr>)
   }"

definition say :: "'h machine \<Rightarrow> byte list \<Rightarrow> arg list \<Rightarrow> 'h disks \<Rightarrow> 'h disks option" where
  "say m format args st = do { t \<leftarrow> kprintf_to m format args (dk_tty st); Some (st\<lparr>dk_tty := t\<rparr>) }"

text \<open>The partitions from \<open>i\<close> on, \<open>n\<close> of them.\<close>

fun print_partitions :: "'h machine \<Rightarrow> byte list \<Rightarrow> partition_st list \<Rightarrow> nat \<Rightarrow> nat \<Rightarrow> 'h tty \<Rightarrow> 'h tty option" where
  "print_partitions m devstr ps i 0 st = Some st"
| "print_partitions m devstr ps i (Suc n) st =
     (if i < length ps then do {
        st1 \<leftarrow> kprintf_to m (text_of ''%s%d '') [AStr devstr, AWord (pn_number (ps ! i))] st;
        print_partitions m devstr ps (i + 1) n st1
      } else None)"

definition print_partition_table :: "'h machine \<Rightarrow> part_table_st \<Rightarrow> byte list \<Rightarrow> 'h tty \<Rightarrow> 'h tty option" where
  "print_partition_table m ptable devstr st = print_partitions m devstr (pt_partitions ptable) 0 (unat (pt_size ptable)) st"

text \<open>\<^verbatim>\<open>sec.addr = addr; read_sync_block(major, device, &sec)\<close> of \<open>parse_mbr\<close> through the table of operations of the driver;
  \<open>sec\<close> is the address of the local buffer, \<open>bop\<close> and \<open>node\<close> the memory of the request.\<close>

definition sector_reader ::
  "'h machine \<Rightarrow> (int \<Rightarrow> 'h ata \<Rightarrow> 'h ata option) \<Rightarrow> ptr \<Rightarrow> ptr \<Rightarrow> ptr \<Rightarrow> int \<Rightarrow> int \<Rightarrow> u64 \<Rightarrow> 'h ata \<Rightarrow> (byte list \<times> 'h ata) option" where
  "sector_reader m sleep bop node sec major device addr st = do {
     bufs \<leftarrow> upd_at (at_bufs st) sec (\<lambda>b. b\<lparr>bh_addr := addr\<rparr>);
     (r, st1) \<leftarrow> read_sync_ata_sector m sleep bop node major device sec (st\<lparr>at_bufs := bufs\<rparr>);
     b \<leftarrow> at_bufs st1 sec;
     Some (bh_data b, st1)
   }"

text \<open>One bus: the driver structure at \<open>drv\<close> is filled and registered, and the partition table of the first disk is read.
  \<open>mem\<close> are the results of the allocations: queue, hash table, partition table and its elements with what they held.\<close>

definition register_bus ::
  "'h machine \<Rightarrow> (int \<Rightarrow> 'h ata \<Rightarrow> 'h ata option) \<Rightarrow> ptr \<times> ptr \<times> ptr \<Rightarrow> ptr \<times> ptr \<times> ptr \<times> ptr \<times> (nat \<Rightarrow> partition_st)
    \<Rightarrow> ptr \<Rightarrow> ptr \<Rightarrow> nat \<Rightarrow> int \<Rightarrow> int \<Rightarrow> byte list \<Rightarrow> byte list \<Rightarrow> 'h disks \<Rightarrow> 'h disks outcome option" where
  "register_bus m sleep rq mem drv ata_ops dev major devnum level name st =
     (case rq of (bop, node, sec) \<Rightarrow> case mem of (new_q, new_ht, new_pt, new_parts, old) \<Rightarrow>
      if dv_flags (at_devices (dk_ata st) dev) AND PRESENT \<noteq> 0 then do {
        d \<leftarrow> bc_drv (dk_cache st) drv;
        let d1 = d\<lparr>bd_major := major, bd_size := dv_sectors (at_devices (dk_ata st) dev), bd_dev_ops := ata_ops\<rparr>;
        (r, c) \<leftarrow> register_block_driver ((dk_cache st)\<lparr>bc_drv := (bc_drv (dk_cache st))(drv \<mapsto> d1)\<rparr>) drv new_q new_ht;
        let st1 = st\<lparr>dk_cache := c\<rparr>;
        if r < 0 then do {
          o1 \<leftarrow> panic m (text_of ''Could not register a driver for the bus!'') [] (dk_tty st1);
          (case o1 of Returned t \<Rightarrow> Some (Returned (st1\<lparr>dk_tty := t\<rparr>)) | Halted t \<Rightarrow> Some (Halted (st1\<lparr>dk_tty := t\<rparr>)))
        } else do {
          (p, st2) \<leftarrow> on_ata (parse_mbr (sector_reader m sleep bop node sec major devnum) new_pt new_parts old) st1;
          let st3 = st2\<lparr>dk_ata := (dk_ata st2)\<lparr>at_ptable := (at_ptable (dk_ata st2))(dev := p)\<rparr>\<rparr>;
          case p of
            None \<Rightarrow> map_option Returned
              (say m (level @ text_of ''No partitions found on disk %d:%d'' @ [10]) [AWord (of_int major), AWord (of_int devnum)] st3)
          | Some pt \<Rightarrow> do {
              st4 \<leftarrow> say m (text_of '' Found: '') [] st3;
              t \<leftarrow> print_partition_table m pt name (dk_tty st4);
              map_option Returned (say m [10] [] (st4\<lparr>dk_tty := t\<rparr>))
            }
        }
      } else Some (Returned st))"

definition request_ata_irq :: "'h machine \<Rightarrow> ptr \<times> irq_handler \<times> ptr \<Rightarrow> u16 \<Rightarrow> ptr \<Rightarrow> byte list \<Rightarrow> 'h disks \<Rightarrow> 'h disks option" where
  "request_ata_irq m mem irq handler name st =
     (case mem of (newh, old, node) \<Rightarrow> do {
        (r, ir) \<leftarrow> request_irq newh old node irq handler SA_SHIRQ name (kb_irq (tt_kbd (dk_tty st)));
        let st1 = st\<lparr>dk_tty := (dk_tty st)\<lparr>tt_kbd := (tt_kbd (dk_tty st))\<lparr>kb_irq := ir\<rparr>\<rparr>\<rparr>;
        if r < 0 then say m (KERN_ERROR @ text_of ''Error on register IRQ %d'' @ [10]) [AWord (ucast irq)] st1 else Some st1
      })"

text \<open>\<open>handler1\<close> and \<open>handler2\<close> are the addresses of the interrupt handlers, \<open>drv0\<close> and \<open>drv1\<close> those of \<^verbatim>\<open>ata_bus_drv\<close>.
  The messages about each device are left out, as in \<open>probe_device\<close>.\<close>

definition init_ata_generic where
  "init_ata_generic m sleep rq irq1 irq2 mem0 mem1 handler1 handler2 drv0 drv1 ata_ops st = do {
     st1 \<leftarrow> say m (KERN_INFO @ text_of ''Initializing generic ATA controller...'' @ [10]) [] st;
     (u, st2) \<leftarrow> on_ata (\<lambda>a. map_option (Pair ()) (init_ata_devices m a)) st1;
     st3 \<leftarrow> request_ata_irq m irq1 ATA_PRI_IRQ handler1 (text_of ''ata-primary'') st2;
     st4 \<leftarrow> request_ata_irq m irq2 ATA_SEC_IRQ handler2 (text_of ''ata-secondary'') st3;
     o1 \<leftarrow> register_bus m sleep rq mem0 drv0 ata_ops 0 DEVMAJOR_ATA_PRI DEVNUM_HDA KERN_ERROR (text_of ''hda'') st4;
     (case o1 of
        Halted st5 \<Rightarrow> Some (Halted st5)
      | Returned st5 \<Rightarrow>
          register_bus m sleep rq mem1 drv1 ata_ops 2 DEVMAJOR_ATA_SEC DEVNUM_HDC KERN_INFO (text_of ''hdb'') st5)
   }"

section \<open>Reading sectors at start\<close>

text \<open>Documented behaviour of the controller: after the commands for a sector of the first disk, the data port delivers the
  words of that sector.\<close>

definition delivers :: "'h machine \<Rightarrow> (u64 \<Rightarrow> byte list) \<Rightarrow> bool" where
  "delivers m disk \<longleftrightarrow> (\<forall>pt addr h r h'. read_hd_sector m pt DEVMAJOR_ATA_PRI DEVNUM_HDA addr h = Some (r, h') \<longrightarrow>
     (\<exists>ws h''. read_words m 0 256 h' = Some (ws, h'') \<and> word_bytes ws = disk addr))"

text \<open>The driver is idle, has memory for a request, and is woken by the interrupt of the controller.\<close>

definition ata_source ::
  "'h machine \<Rightarrow> (int \<Rightarrow> 'h ata \<Rightarrow> 'h ata option) \<Rightarrow> ptr \<Rightarrow> ptr \<Rightarrow> ptr \<Rightarrow> (u64 \<Rightarrow> byte list) \<Rightarrow> 'h ata \<Rightarrow> bool" where
  "ata_source m sleep bop node sec disk st \<longleftrightarrow>
     responsive m \<and> delivers m disk \<and> sleep WAIT_INT_IDE_PRI = ata_handler1 m
     \<and> at_discard_irq st 0 \<noteq> ATA_DISCARD_NEXT_IRQ \<and> at_queue st 0 = NULL \<and> at_bufs st sec \<noteq> None
     \<and> bop \<noteq> NULL \<and> at_bops st bop = None \<and> node \<noteq> NULL \<and> at_nodes st node = None"

lemma sector_reader_reads:
  assumes "ata_source m sleep bop node sec disk st"
  shows "\<exists>st'. sector_reader m sleep bop node sec DEVMAJOR_ATA_PRI DEVNUM_HDA a st = Some (disk a, st')
    \<and> ata_source m sleep bop node sec disk st' \<and> at_devices st' = at_devices st"
proof -
  note h = assms [unfolded ata_source_def]
  obtain b where b: "at_bufs st sec = Some b" using h by auto
  let ?st = "st\<lparr>at_bufs := (at_bufs st)(sec \<mapsto> b\<lparr>bh_addr := a\<rparr>)\<rparr>"
  have "read_target DEVMAJOR_ATA_PRI DEVNUM_HDA = Some (0, 0)" by (simp add: read_target_def)
  with h b read_sync_reads_sector [where m = m and sleep = sleep and st = ?st and buf = sec and b = "b\<lparr>bh_addr := a\<rparr>" and bop = bop and node = node and device = DEVNUM_HDA]
  obtain st' b' r h1 ws h' where
    r: "read_sync_ata_sector m sleep bop node DEVMAJOR_ATA_PRI DEVNUM_HDA sec ?st = Some (0, st')"
      "read_hd_sector m (at_ptable st) DEVMAJOR_ATA_PRI DEVNUM_HDA a (at_hw st) = Some (r, h1)"
      "read_words m 0 256 h1 = Some (ws, h')" "at_bufs st' sec = Some b'" "bh_data b' = word_bytes ws" "at_queue st' 0 = NULL"
      "at_bops st' = at_bops st" "dom (at_nodes st') = dom (at_nodes st)" "at_discard_irq st' 0 = at_discard_irq st 0"
      "at_devices st' = at_devices st"
    by (auto simp: read_newaddr_def)
  have "bh_data b' = disk a" using h r(2,3,5) unfolding delivers_def by fastforce
  moreover have "at_nodes st' node = None" using h r(8) by (metis domIff)
  ultimately show ?thesis using h r b by (auto simp: sector_reader_def ata_source_def)
qed

interpretation ata_disk: sector_source "sector_reader m sleep bop node sec DEVMAJOR_ATA_PRI DEVNUM_HDA" disk
    "\<lambda>st. ata_source m sleep bop node sec disk st \<and> at_devices st = devs"
  for m :: "'h machine" and sleep bop node sec disk devs
  by unfold_locales (use sector_reader_reads in fastforce)

lemma partition_line: "prints (\<lambda>st. kprintf_to m (text_of ''%s%d '') [AStr name, AWord w] st)" if "length name < 900"
proof -
  obtain s where s: "numtostr name 0 w 10 0 True = Some (name @ s)" "length s \<le> 66" using numtostr_total [of 10 0 name 0 w True] by auto
  have "vsprintf_loop [37, 115, 37, 100, 32] 0 [AStr name, AWord w] [] = Some (name @ s @ [32])"
    using s(1) vsprintf_loop_string [of "[37, 100, 32]" 0 name "[AWord w]" "[]"] vsprintf_loop_conversion [of 100 "[32]" w "[]" name]
      vsprintf_literal [of "[32]" "[]" 0 "[]" "name @ s"] by simp
  then show ?thesis unfolding prints_def using that s(2) by (auto intro!: shown simp: text_of_def)
qed

lemma print_partitions_prints:
  assumes "length name < 900" "i + n \<le> length ps"
  shows "prints (print_partitions m name ps i n)"
  using assms(2)
proof (induction n arbitrary: i)
  case 0
  have "\<exists>t. Some st = Some (st\<lparr>tt_video := kprint t (tt_video st)\<rparr>)" for st :: "'a tty"
    by (rule exI [of _ "[]"]) simp
  then show ?case by (simp add: prints_def)
next
  case (Suc n)
  have "prints (\<lambda>st. do { s1 \<leftarrow> kprintf_to m (text_of ''%s%d '') [AStr name, AWord (pn_number (ps ! i))] st; print_partitions m name ps (i + 1) n s1 })"
    using Suc by (intro prints_bind partition_line assms(1)) simp
  then show ?case using Suc.prems by simp
qed

lemma say_prints:
  assumes "prints (\<lambda>st. kprintf_to m fmt args st)" "\<not> tt_over_serial (dk_tty st)"
  shows "\<exists>v. say m fmt args st = Some (st\<lparr>dk_tty := (dk_tty st)\<lparr>tt_video := v\<rparr>\<rparr>)"
proof -
  obtain t where "kprintf_to m fmt args (dk_tty st) = Some ((dk_tty st)\<lparr>tt_video := kprint t (tt_video (dk_tty st))\<rparr>)"
    using assms unfolding prints_def by blast
  then show ?thesis by (auto simp: say_def)
qed

lemma prints_text:
  assumes "37 \<notin> set s" "0 \<notin> set s" "s \<noteq> []" "hd s \<noteq> 33" "length s < 1000"
  shows "prints (\<lambda>st. kprintf_to m s [] st)"
  using prints_plain [OF assms] by (auto simp: prints_def)

lemma register_driver_ok:
  assumes "drv \<noteq> NULL" "bc_drv st drv = Some d" "0 \<le> bd_major d" "nat (bd_major d) < length (bc_drivers st)"
    "bc_drivers st ! nat (bd_major d) = NULL" "new_q \<noteq> NULL" "new_ht \<noteq> NULL"
  shows "\<exists>st'. register_block_driver st drv new_q new_ht = Some (0, st') \<and> bc_drivers st' ! nat (bd_major d) = drv"
proof -
  obtain h cells where "create_hash_queue st (bd_size d) new_q new_ht = Some (new_q, st\<lparr>bc_blocks := h, bc_cells := cells,
      bc_queues := (bc_queues st)(new_q \<mapsto> \<lparr>hq_size = 0, hq_hashtable = NULL, hq_freelist_head = block_addr new_q 0\<rparr>)\<rparr>)"
    using create_hash_queue_ok [OF assms(6,7), of st "bd_size d"] by blast
  then show ?thesis using assms by (simp add: register_block_driver_def block_dev_driver_def Let_def)
qed

text \<open>One bus, on a disk whose chains of boot records end.\<close>

lemma register_bus_reads_table:
  assumes present: "dv_flags (at_devices (dk_ata st) 0) AND PRESENT \<noteq> 0"
    and drv: "bc_drv (dk_cache st) drv = Some d" "drv \<noteq> NULL" "3 < length (bc_drivers (dk_cache st))" "bc_drivers (dk_cache st) ! 3 = NULL"
    and src: "ata_source m sleep bop node sec disk (dk_ata st)" and screen: "\<not> tt_over_serial (dk_tty st)" "length name < 900"
    and sig: "disk 0 ! 510 = 0x55" "disk 0 ! 511 = 0xaa" and alloc: "new_pt \<noteq> NULL" "new_parts \<noteq> NULL" "new_q \<noteq> NULL" "new_ht \<noteq> NULL"
    and es: "map fst es = map (mbr_partition (disk 0)) [0..<4]" "\<forall>e\<in>set es. chain_ok disk e"
      "length (disk_partitions disk 0 es) < 2 ^ 32"
  shows "\<exists>st' pt. register_bus m sleep (bop, node, sec) (new_q, new_ht, new_pt, new_parts, old) drv ata_ops 0
        DEVMAJOR_ATA_PRI DEVNUM_HDA level name st = Some (Returned st')
    \<and> at_ptable (dk_ata st') 0 = Some pt \<and> pt_partitions pt = disk_partitions disk 0 es
    \<and> bc_drivers (dk_cache st') ! 3 = drv \<and> ata_source m sleep bop node sec disk (dk_ata st')
    \<and> at_devices (dk_ata st') = at_devices (dk_ata st)"
proof -
  let ?c = "(dk_cache st)\<lparr>bc_drv := (bc_drv (dk_cache st))(drv \<mapsto>
     d\<lparr>bd_major := DEVMAJOR_ATA_PRI, bd_size := dv_sectors (at_devices (dk_ata st) 0), bd_dev_ops := ata_ops\<rparr>)\<rparr>"
  obtain c where c: "register_block_driver ?c drv new_q new_ht = Some (0, c)" "bc_drivers c ! 3 = drv"
    using register_driver_ok [of drv ?c "d\<lparr>bd_major := DEVMAJOR_ATA_PRI, bd_size := dv_sectors (at_devices (dk_ata st) 0), bd_dev_ops := ata_ops\<rparr>" new_q new_ht]
      drv alloc(3,4) by auto
  let ?hw = "kb_hw (tt_kbd (dk_tty st))"
  have "ata_source m sleep bop node sec disk ((dk_ata st)\<lparr>at_hw := ?hw\<rparr>)
      \<and> at_devices ((dk_ata st)\<lparr>at_hw := ?hw\<rparr>) = at_devices (dk_ata st)" using src by (simp add: ata_source_def)
  from ata_disk.parse_mbr_ok [OF sig alloc(1,2) es this] obtain pt a where
    p: "parse_mbr (sector_reader m sleep bop node sec DEVMAJOR_ATA_PRI DEVNUM_HDA) new_pt new_parts old ((dk_ata st)\<lparr>at_hw := ?hw\<rparr>) = Some (Some pt, a)"
      "ata_source m sleep bop node sec disk a" "pt_partitions pt = disk_partitions disk 0 es" "unat (pt_size pt) = length (pt_partitions pt)"
      "at_devices a = at_devices (dk_ata st)"
    by blast
  define t where "t = (dk_tty st)\<lparr>tt_kbd := (tt_kbd (dk_tty st))\<lparr>kb_hw := at_hw a\<rparr>\<rparr>"
  let ?s3 = "st\<lparr>dk_cache := c, dk_tty := t, dk_ata := a\<lparr>at_ptable := (at_ptable a)(0 := Some pt)\<rparr>\<rparr>"
  have "\<not> tt_over_serial t" using screen by (simp add: t_def)
  obtain v where v: "say m (text_of '' Found: '') [] ?s3 = Some (?s3\<lparr>dk_tty := t\<lparr>tt_video := v\<rparr>\<rparr>)"
    using say_prints [OF prints_text, of "text_of '' Found: ''" ?s3 m] screen by (auto simp: text_of_def t_def)
  have "prints (print_partition_table m pt name)"
    unfolding print_partition_table_def using print_partitions_prints [OF screen(2), of 0 "unat (pt_size pt)" "pt_partitions pt" m] p(4) by simp
  then have "\<exists>w. print_partition_table m pt name (t\<lparr>tt_video := v\<rparr>) = Some (t\<lparr>tt_video := v\<rparr>\<lparr>tt_video := w\<rparr>)"
    using \<open>\<not> tt_over_serial t\<close> unfolding prints_def by (elim allE [of _ "t\<lparr>tt_video := v\<rparr>"]) auto
  then obtain w where w: "print_partition_table m pt name (t\<lparr>tt_video := v\<rparr>) = Some (t\<lparr>tt_video := w\<rparr>)" by auto
  obtain x where x: "say m [10] [] (?s3\<lparr>dk_tty := t\<lparr>tt_video := w\<rparr>\<rparr>) = Some (?s3\<lparr>dk_tty := t\<lparr>tt_video := x\<rparr>\<rparr>)"
    using say_prints [OF prints_text, of "[10]" "?s3\<lparr>dk_tty := t\<lparr>tt_video := w\<rparr>\<rparr>" m] screen by (auto simp: t_def)
  have "register_bus m sleep (bop, node, sec) (new_q, new_ht, new_pt, new_parts, old) drv ata_ops 0 DEVMAJOR_ATA_PRI DEVNUM_HDA level name st
      = Some (Returned (?s3\<lparr>dk_tty := t\<lparr>tt_video := x\<rparr>\<rparr>))"
    unfolding register_bus_def using present drv(1) c(1) p(1) v w x by (simp add: on_ata_def t_def Let_def)
  then show ?thesis using p(2,3,5) c(2) by (auto simp: ata_source_def)
qed

lemma level_message:
  assumes "vsprintf_loop fmt 0 args [] = Some out" "length out < 1024" "\<not> tt_over_serial st"
  shows "\<exists>v. kprintf_to m ([33, l, 33] @ fmt) args st = Some (st\<lparr>tt_video := v\<rparr>)"
  using assms by (auto simp: kprintf_to_def kprintf_out_def kprintf_def vsprintf_def)

lemma say_level:
  assumes "vsprintf_loop fmt 0 args [] = Some out" "length out < 1024" "\<not> tt_over_serial (dk_tty st)"
  shows "\<exists>v. say m ([33, l, 33] @ fmt) args st = Some (st\<lparr>dk_tty := (dk_tty st)\<lparr>tt_video := v\<rparr>\<rparr>)"
  using level_message [OF assms, of m l] by (auto simp: say_def)

lemma irq_error_message:
  assumes "\<not> tt_over_serial (dk_tty st)"
  shows "\<exists>v. say m (KERN_ERROR @ text_of ''Error on register IRQ %d'' @ [10]) [AWord w] st = Some (st\<lparr>dk_tty := (dk_tty st)\<lparr>tt_video := v\<rparr>\<rparr>)"
proof -
  let ?p = "text_of ''Error on register IRQ ''"
  obtain s where s: "numtostr ?p 0 w 10 0 True = Some (?p @ s)" "length s \<le> 66" using numtostr_total [of 10 0 ?p 0 w True] by auto
  have "vsprintf_loop (?p @ [37, 100, 10]) 0 [AWord w] [] = vsprintf_loop [37, 100, 10] 0 [AWord w] ?p"
    by (subst vsprintf_literal) (simp_all add: text_of_def)
  also have "\<dots> = vsprintf_loop [10] 0 [] (?p @ s)" using vsprintf_loop_conversion [of 100 "[10]" w "[]" ?p] s(1) by simp
  also have "\<dots> = Some (?p @ s @ [10])" using vsprintf_literal [of "[10]" "[]" 0 "[]" "?p @ s"] by simp
  finally show ?thesis using say_level [of "?p @ [37, 100, 10]" "[AWord w]" "?p @ s @ [10]" st m 49] s(2) assms
    by (simp add: text_of_def)
qed

lemma request_ata_irq_ok:
  assumes rep: "irq_rep (kb_irq (tt_kbd (dk_tty st))) lines" "lines_ok lines" and screen: "\<not> tt_over_serial (dk_tty st)"
    and mem: "newh \<notin> dom (ir_handlers (kb_irq (tt_kbd (dk_tty st))))" "node \<noteq> NULL" "node \<notin> dom (ir_nodes (kb_irq (tt_kbd (dk_tty st))))"
  shows "\<exists>ir v. request_ata_irq m (newh, old, node) irq handler name st
      = Some (st\<lparr>dk_tty := (dk_tty st)\<lparr>tt_kbd := (tt_kbd (dk_tty st))\<lparr>kb_irq := ir\<rparr>, tt_video := v\<rparr>\<rparr>)
    \<and> (\<exists>lines'. irq_rep ir lines' \<and> lines_ok lines')
    \<and> dom (ir_handlers ir) \<subseteq> dom (ir_handlers (kb_irq (tt_kbd (dk_tty st)))) \<union> ({newh} - {NULL})
    \<and> dom (ir_nodes ir) \<subseteq> insert node (dom (ir_nodes (kb_irq (tt_kbd (dk_tty st)))))"
proof -
  let ?ir = "kb_irq (tt_kbd (dk_tty st))"
  from request_irq_refines [OF rep mem, of old irq handler SA_SHIRQ name] request_spec_ok [OF rep(2), of newh old irq handler SA_SHIRQ name]
  obtain r ir lines' where r: "request_irq newh old node irq handler SA_SHIRQ name ?ir = Some (r, ir)" "irq_rep ir lines'" "lines_ok lines'"
    "dom (ir_handlers ir) \<subseteq> dom (ir_handlers ?ir) \<union> ({newh} - {NULL})" "dom (ir_nodes ir) \<subseteq> insert node (dom (ir_nodes ?ir))" by blast
  let ?st = "st\<lparr>dk_tty := (dk_tty st)\<lparr>tt_kbd := (tt_kbd (dk_tty st))\<lparr>kb_irq := ir\<rparr>\<rparr>\<rparr>"
  have "\<not> tt_over_serial (dk_tty ?st)" using screen by simp
  then obtain v where "say m (KERN_ERROR @ text_of ''Error on register IRQ %d'' @ [10]) [AWord (ucast irq)] ?st
      = Some (?st\<lparr>dk_tty := (dk_tty ?st)\<lparr>tt_video := v\<rparr>\<rparr>)" using irq_error_message by blast
  then have "\<exists>v. request_ata_irq m (newh, old, node) irq handler name st
      = Some (?st\<lparr>dk_tty := (dk_tty ?st)\<lparr>tt_video := v\<rparr>\<rparr>)"
    by (cases "r < 0") (auto simp: request_ata_irq_def r(1) Let_def intro: exI [of _ "tt_video (dk_tty st)"])
  then show ?thesis using r(2-5) by auto
qed

text \<open>What happens before the buses are registered: \<open>a\<close> is the driver after the probe.\<close>

lemma ata_handlers_installed:
  assumes probe: "init_ata_devices m ((dk_ata st)\<lparr>at_hw := kb_hw (tt_kbd (dk_tty st))\<rparr>) = Some a"
    and irq: "irq_rep (kb_irq (tt_kbd (dk_tty st))) lines" "lines_ok lines" "{newh1, newh2} \<inter> dom (ir_handlers (kb_irq (tt_kbd (dk_tty st)))) = {}"
      "{node1, node2} \<inter> dom (ir_nodes (kb_irq (tt_kbd (dk_tty st)))) = {}" "node1 \<noteq> NULL" "node2 \<noteq> NULL" "node1 \<noteq> node2" "newh1 \<noteq> newh2"
    and screen: "\<not> tt_over_serial (dk_tty st)"
  shows "\<exists>st4. dk_ata st4 = a \<and> dk_cache st4 = dk_cache st \<and> \<not> tt_over_serial (dk_tty st4) \<and> kb_sched (tt_kbd (dk_tty st4)) = kb_sched (tt_kbd (dk_tty st))
    \<and> init_ata_generic m sleep rq (newh1, old1, node1) (newh2, old2, node2) mem0 mem1 handler1 handler2 drv0 drv1 ata_ops st
      = do { o1 \<leftarrow> register_bus m sleep rq mem0 drv0 ata_ops 0 DEVMAJOR_ATA_PRI DEVNUM_HDA KERN_ERROR (text_of ''hda'') st4;
             (case o1 of
                Halted st5 \<Rightarrow> Some (Halted st5)
              | Returned st5 \<Rightarrow>
                  register_bus m sleep rq mem1 drv1 ata_ops 2 DEVMAJOR_ATA_SEC DEVNUM_HDC KERN_INFO (text_of ''hdb'') st5) }"
proof -
  obtain v1 where p1: "say m (KERN_INFO @ text_of ''Initializing generic ATA controller...'' @ [10]) [] st = Some (st\<lparr>dk_tty := (dk_tty st)\<lparr>tt_video := v1\<rparr>\<rparr>)"
    using say_level [OF vsprintf_literal [of "text_of ''Initializing generic ATA controller...'' @ [10]" "[]" 0 "[]" "[]", simplified], of st m 51] screen
    by (auto simp: text_of_def)
  let ?kb = "(tt_kbd (dk_tty st))\<lparr>kb_hw := at_hw a\<rparr>"
  define st2 where "st2 = st\<lparr>dk_ata := a, dk_tty := (dk_tty st)\<lparr>tt_video := v1, tt_kbd := ?kb\<rparr>\<rparr>"
  have p2: "on_ata (\<lambda>a. map_option (Pair ()) (init_ata_devices m a)) (st\<lparr>dk_tty := (dk_tty st)\<lparr>tt_video := v1\<rparr>\<rparr>) = Some ((), st2)"
    using probe by (simp add: on_ata_def st2_def)
  have ir: "kb_irq (tt_kbd (dk_tty st2)) = kb_irq (tt_kbd (dk_tty st))" "\<not> tt_over_serial (dk_tty st2)" using screen by (simp_all add: st2_def)
  obtain ir3 v3 lines3 where p3: "request_ata_irq m (newh1, old1, node1) ATA_PRI_IRQ handler1 (text_of ''ata-primary'') st2
      = Some (st2\<lparr>dk_tty := (dk_tty st2)\<lparr>tt_kbd := (tt_kbd (dk_tty st2))\<lparr>kb_irq := ir3\<rparr>, tt_video := v3\<rparr>\<rparr>)"
    "irq_rep ir3 lines3" "lines_ok lines3" "newh2 \<notin> dom (ir_handlers ir3)" "node2 \<notin> dom (ir_nodes ir3)"
    using request_ata_irq_ok [where st = st2 and newh = newh1 and node = node1 and m = m and lines = lines and old = old1 and irq = ATA_PRI_IRQ
        and handler = handler1 and name = "text_of ''ata-primary''"] irq ir by auto blast
  define st3 where "st3 = st2\<lparr>dk_tty := (dk_tty st2)\<lparr>tt_kbd := (tt_kbd (dk_tty st2))\<lparr>kb_irq := ir3\<rparr>, tt_video := v3\<rparr>\<rparr>"
  obtain ir4 v4 where p4: "request_ata_irq m (newh2, old2, node2) ATA_SEC_IRQ handler2 (text_of ''ata-secondary'') st3
      = Some (st3\<lparr>dk_tty := (dk_tty st3)\<lparr>tt_kbd := (tt_kbd (dk_tty st3))\<lparr>kb_irq := ir4\<rparr>, tt_video := v4\<rparr>\<rparr>)"
    using request_ata_irq_ok [where st = st3 and newh = newh2 and node = node2 and m = m and lines = lines3 and old = old2 and irq = ATA_SEC_IRQ
        and handler = handler2 and name = "text_of ''ata-secondary''"] p3(2-5) irq(6) ir(2) by (auto simp: st3_def)
  define st4 where "st4 = st3\<lparr>dk_tty := (dk_tty st3)\<lparr>tt_kbd := (tt_kbd (dk_tty st3))\<lparr>kb_irq := ir4\<rparr>, tt_video := v4\<rparr>\<rparr>"
  have "dk_ata st4 = a" "dk_cache st4 = dk_cache st" "\<not> tt_over_serial (dk_tty st4)" "kb_sched (tt_kbd (dk_tty st4)) = kb_sched (tt_kbd (dk_tty st))"
    using ir(2) by (simp_all add: st4_def st3_def) (simp_all add: st2_def)
  then show ?thesis
    unfolding init_ata_generic_def p1 p2 p3(1) st3_def [symmetric] p4 st4_def [symmetric] Option.bind.bind_lunit prod.case
    by (intro exI [of _ st4]) simp
qed

text \<open>C3: At start the kernel finds the partitions of its disk. The driver probes the buses, finds a disk as the first one of
  the primary bus and none on the secondary, installs its interrupt handlers and registers the bus. The controller
  delivers the sectors it is asked for, each one through the request queue and the interrupt handler, and the disk
  has a boot record and at most two logical partitions in an extended one. Then \<open>init_ata_generic\<close> returns, and the
  table kept for the disk lists its partitions in order as the format of the records defines them, with one deviation: as the start
  of a logical partition it has the sector of its boot record and not its first block. The driver is idle at the end.
  (From the third logical partition on the addresses of the records themselves would be wrong.)\<close>
theorem boot_reads_partition_table:
  assumes probe: "init_ata_devices m ((dk_ata st)\<lparr>at_hw := kb_hw (tt_kbd (dk_tty st))\<rparr>) = Some a"
      "dv_flags (at_devices a 0) AND PRESENT \<noteq> 0" "dv_flags (at_devices a 2) AND PRESENT = 0"
    and ctl: "responsive m" "delivers m disk" "sleep WAIT_INT_IDE_PRI = ata_handler1 m"
    and rq: "at_bufs (dk_ata st) sec \<noteq> None" "bop \<noteq> NULL" "at_bops (dk_ata st) bop = None" "node \<noteq> NULL" "at_nodes (dk_ata st) node = None"
    and irq: "irq_rep (kb_irq (tt_kbd (dk_tty st))) lines" "lines_ok lines" "{newh1, newh2} \<inter> dom (ir_handlers (kb_irq (tt_kbd (dk_tty st)))) = {}"
      "{node1, node2} \<inter> dom (ir_nodes (kb_irq (tt_kbd (dk_tty st)))) = {}" "node1 \<noteq> NULL" "node2 \<noteq> NULL" "node1 \<noteq> node2" "newh1 \<noteq> newh2"
    and drv: "bc_drv (dk_cache st) drv = Some d" "drv \<noteq> NULL" "3 < length (bc_drivers (dk_cache st))" "bc_drivers (dk_cache st) ! 3 = NULL"
    and screen: "\<not> tt_over_serial (dk_tty st)"
    and sig: "disk 0 ! 510 = 0x55" "disk 0 ! 511 = 0xaa" and alloc: "new_pt \<noteq> NULL" "new_parts \<noteq> NULL" "new_q \<noteq> NULL" "new_ht \<noteq> NULL"
    and es: "map fst es = map (mbr_partition (disk 0)) [0..<4]" "\<forall>e\<in>set es. format_ok disk e \<and> length (snd e) \<le> 2"
  shows "\<exists>st' pt. init_ata_generic m sleep (bop, node, sec) (newh1, old1, node1) (newh2, old2, node2) (new_q, new_ht, new_pt, new_parts, old)
        mem1 handler1 handler2 drv drv1 ata_ops st = Some (Returned st')
    \<and> at_ptable (dk_ata st') 0 = Some pt \<and> pt_partitions pt = map as_recorded (format_partitions disk 0 es)
    \<and> bc_drivers (dk_cache st') ! 3 = drv \<and> ata_source m sleep bop node sec disk (dk_ata st')"
proof -
  obtain st4 where s4: "dk_ata st4 = a" "dk_cache st4 = dk_cache st" "\<not> tt_over_serial (dk_tty st4)"
    and init: "init_ata_generic m sleep (bop, node, sec) (newh1, old1, node1) (newh2, old2, node2) (new_q, new_ht, new_pt, new_parts, old)
        mem1 handler1 handler2 drv drv1 ata_ops st
      = do { o1 \<leftarrow> register_bus m sleep (bop, node, sec) (new_q, new_ht, new_pt, new_parts, old) drv ata_ops 0 DEVMAJOR_ATA_PRI DEVNUM_HDA
               KERN_ERROR (text_of ''hda'') st4;
             (case o1 of
                Halted st5 \<Rightarrow> Some (Halted st5)
              | Returned st5 \<Rightarrow>
                  register_bus m sleep (bop, node, sec) mem1 drv1 ata_ops 2 DEVMAJOR_ATA_SEC DEVNUM_HDC KERN_INFO (text_of ''hdb'') st5) }"
    using ata_handlers_installed [OF probe(1) irq screen] by blast
  have "ata_source m sleep bop node sec disk (dk_ata st4)"
    using ctl rq probe(1) unfolding s4(1) by (auto simp: ata_source_def init_ata_devices_def llist_create_def bind_eq_Some_conv)
  note src = this
  have c: "\<forall>e\<in>set es. chain_ok disk e" using es(2) ext_chain_followed by blast
  have "length es = 4" using arg_cong [OF es(1), of length] by simp
  then have "length (disk_partitions disk 0 es) < 2 ^ 32"
    using length_format_partitions [of es disk 0] es(2) by (simp add: disk_partitions_recorded)
  note rb = register_bus_reads_table [where st = st4 and drv = drv and d = d, unfolded s4(1,2), OF probe(2) drv src [unfolded s4(1)] s4(3) _ sig alloc es(1) c this,
      where name = "text_of ''hda''" and level = KERN_ERROR and ata_ops = ata_ops and old = old]
  have "length (text_of ''hda'') < 900" by (simp add: text_of_def)
  from rb [OF this] obtain st5 pt where rb: "register_bus m sleep (bop, node, sec) (new_q, new_ht, new_pt, new_parts, old) drv ata_ops 0
        DEVMAJOR_ATA_PRI DEVNUM_HDA KERN_ERROR (text_of ''hda'') st4 = Some (Returned st5)"
    "at_ptable (dk_ata st5) 0 = Some pt" "pt_partitions pt = disk_partitions disk 0 es"
    "bc_drivers (dk_cache st5) ! 3 = drv" "ata_source m sleep bop node sec disk (dk_ata st5)" "at_devices (dk_ata st5) = at_devices a" by blast
  then have "register_bus m sleep (bop, node, sec) mem1 drv1 ata_ops 2 DEVMAJOR_ATA_SEC DEVNUM_HDC KERN_INFO (text_of ''hdb'') st5
      = Some (Returned st5)"
    using probe(3) by (cases mem1) (simp add: register_bus_def)
  then have "init_ata_generic m sleep (bop, node, sec) (newh1, old1, node1) (newh2, old2, node2) (new_q, new_ht, new_pt, new_parts, old)
        mem1 handler1 handler2 drv drv1 ata_ops st = Some (Returned st5)"
    by (simp add: init rb(1))
  then show ?thesis using rb(2-5) by (auto simp: disk_partitions_recorded)
qed

lemma init_ata_no_disks:
  assumes "init_ata_devices m ((dk_ata st)\<lparr>at_hw := kb_hw (tt_kbd (dk_tty st))\<rparr>) = Some a"
    "dv_flags (at_devices a 0) AND PRESENT = 0" "dv_flags (at_devices a 2) AND PRESENT = 0"
    "irq_rep (kb_irq (tt_kbd (dk_tty st))) lines" "lines_ok lines" "{newh1, newh2} \<inter> dom (ir_handlers (kb_irq (tt_kbd (dk_tty st)))) = {}"
    "{node1, node2} \<inter> dom (ir_nodes (kb_irq (tt_kbd (dk_tty st)))) = {}" "node1 \<noteq> NULL" "node2 \<noteq> NULL" "node1 \<noteq> node2" "newh1 \<noteq> newh2"
    "\<not> tt_over_serial (dk_tty st)"
  shows "\<exists>st'. init_ata_generic m sleep rq (newh1, old1, node1) (newh2, old2, node2) mem0 mem1 handler1 handler2 drv0 drv1 ata_ops st
      = Some (Returned st') \<and> \<not> tt_over_serial (dk_tty st') \<and> kb_sched (tt_kbd (dk_tty st')) = kb_sched (tt_kbd (dk_tty st))"
  using ata_handlers_installed [OF assms(1,4-12), of sleep rq old1 old2 mem0 mem1 handler1 handler2 drv0 drv1 ata_ops] assms(2,3)
  by (elim exE conjE) (simp add: register_bus_def split: prod.split)

text \<open>A controller whose first disk has the same boot record, with one partition, in every sector, and gives it as its
  identification, too. A command starts the transfer again. The secondary bus has no devices.\<close>

definition boot_words :: "u16 list" where
  "boot_words = replicate 49 0 @ [0x0200] @ replicate 173 0 @ [0, 0, 0x83, 0, 63, 0, 1000, 0] @ replicate 24 0 @ [0xAA55]"

definition boot_disk :: "nat machine" where
  "boot_disk = \<lparr>inb = (\<lambda>p h. (if p = 0x3F6 then 0x50 else 0, h)), inw = (\<lambda>p h. (boot_words ! h, h + 1)), outb = (\<lambda>v p h. if p = 0x1F7 then 0 else h),
     outw = (\<lambda>v p h. h), jiffies = (\<lambda>h. 0), udelay = (\<lambda>n h. h)\<rparr>"

lemma boot_disk_responsive: "responsive boot_disk"
proof (unfold responsive_def, intro allI exI)
  fix bus h
  show "fst (inb boot_disk (pio_ports bus REG_CMD) (polled boot_disk bus 0 h)) AND BSY_BIT = 0"
    by (simp add: polled_def boot_disk_def pio_ports_def)
qed

lemma boot_disk_wait: "wait_bus boot_disk bus h = Some h"
  unfolding wait_bus_def by (subst wait_loop.simps) (simp add: boot_disk_def pio_ports_def)

lemma boot_disk_words: "read_words boot_disk 0 n h = Some (map (\<lambda>i. boot_words ! (h + i)) [0..<n], h + n)"
proof (induction n arbitrary: h)
  case (Suc n)
  have "map (\<lambda>i. boot_words ! (h + i)) [0..<Suc n] = boot_words ! h # map (\<lambda>i. boot_words ! (Suc h + i)) [0..<n]"
    by (simp add: upt_conv_Cons map_Suc_upt [symmetric] comp_def del: upt_Suc)
  then show ?case using Suc [of "Suc h"] by (simp add: boot_disk_wait Let_def del: upt_Suc) (simp add: boot_disk_def)
qed simp

lemma boot_disk_delivers: "delivers boot_disk (\<lambda>a. word_bytes boot_words)"
proof -
  have w: "read_words boot_disk 0 256 0 = Some (boot_words, 256)"
  proof -
    have "length boot_words = 256" by (simp add: boot_words_def)
    then have "map (\<lambda>i. boot_words ! (0 + i)) [0..<256] = boot_words" using map_nth [of boot_words] by simp
    then show ?thesis by (simp only: boot_disk_words add_0)
  qed
  have "send_cmd boot_disk 0 v h = 0" for v h by (simp add: send_cmd_def boot_disk_def pio_ports_def)
  moreover have "cmd_failed boot_disk 0 h = (False, h)" for h by (simp add: cmd_failed_def boot_disk_def pio_ports_def)
  ultimately have "read_hd_sector boot_disk pt 3 0 a h = Some (0, 0)" for pt a h
    by (simp add: read_hd_sector_def read_target_def read_newaddr_def boot_disk_wait)
  then show ?thesis using w by (auto simp: delivers_def)
qed

definition demo_disks :: "nat disks" where
  "demo_disks = \<lparr>dk_tty = \<lparr>tt_kbd = \<lparr>kb_buffer = [], kb_write = 0, kb_read = 0, kb_avail = 0, kb_sched = demo_sched 1 0 0,
       kb_irq = init_IRQ no_irqs, kb_hw = 0\<rparr>, tt_video = blank_screen, tt_over_serial = False, tt_serial = tt_serial (demo_tty False)\<rparr>,
     dk_ata = \<lparr>at_hw = 0, at_queue = (\<lambda>i. NULL), at_nodes = Map.empty, at_bops = Map.empty, at_bufs = [1100 \<mapsto> zero_header],
       at_discard_irq = (\<lambda>i. 0), at_ptable = (\<lambda>i. None), at_devices = (\<lambda>i. no_device\<lparr>dv_flags := PRESENT\<rparr>), at_wakeups = []\<rparr>,
     dk_cache = cache3\<lparr>bc_drivers := replicate 256 NULL, bc_drv := [4000 \<mapsto> \<lparr>bd_major = 0, bd_size = 0, bd_buffer_queue = NULL,
       bd_inodes_hash_table = [], bd_dev_ops = NULL\<rparr>]\<rparr>\<rparr>"

lemma boot_disk_first: "\<exists>h. read_words boot_disk 0 256 0 = Some (boot_words, h)"
proof -
  have "length boot_words = 256" by (simp add: boot_words_def)
  then have "map (\<lambda>i. boot_words ! (0 + i)) [0..<256] = boot_words" using map_nth [of boot_words] by simp
  then show ?thesis by (simp only: boot_disk_words add_0) simp
qed

lemma boot_disk_found:
  assumes "i < 2"
  shows "\<exists>d' h'. probe_device boot_disk i d h = Some (d', h') \<and> dv_flags d' AND PRESENT \<noteq> 0"
proof -
  obtain h1 where "read_words boot_disk 0 256 0 = Some (boot_words, h1)" using boot_disk_first by blast
  moreover have "boot_words ! 0 = 0" "boot_words ! 49 = 0x0200" "slice 82 87 boot_words = replicate 6 0" "slice 49 50 boot_words = [0x0200, 0]"
    by code_simp+
  moreover have "send_cmd boot_disk 0 v h = 0" for v h by (simp add: send_cmd_def boot_disk_def pio_ports_def)
  moreover have "\<not> i \<ge> 2" using assms by simp
  moreover have "fst (inb boot_disk p h) = (if p = 0x3F6 then 0x50 else 0)" "snd (inb boot_disk p h) = h" for p h
    by (simp_all add: boot_disk_def)
  ultimately show ?thesis
    by (simp add: probe_device_def get_dev_info_def boot_disk_wait Let_def case_prod_beta) (simp add: pio_ports_def)
qed

lemma boot_disk_absent:
  assumes "2 \<le> i"
  shows "\<exists>h'. probe_device boot_disk i d h = Some (d\<lparr>dv_flags := 0\<rparr>, h')"
  using assms by (simp add: probe_device_def boot_disk_wait Let_def) (simp add: boot_disk_def pio_ports_def)

lemma boot_disk_probed:
  "\<exists>a. init_ata_devices boot_disk st = Some a \<and> dv_flags (at_devices a 0) AND PRESENT \<noteq> 0 \<and> dv_flags (at_devices a 2) AND PRESENT = 0"
proof -
  obtain d0 h0 where p0: "probe_device boot_disk 0 (at_devices st 0) (at_hw st) = Some (d0, h0)" "dv_flags d0 AND PRESENT \<noteq> 0"
    using boot_disk_found [of 0] by fastforce
  obtain d1 h1 where p1: "probe_device boot_disk 1 (at_devices st 1) h0 = Some (d1, h1)" using boot_disk_found [of 1] by fastforce
  obtain h2 where p2: "probe_device boot_disk 2 (at_devices st 2) h1 = Some ((at_devices st 2)\<lparr>dv_flags := 0\<rparr>, h2)"
    using boot_disk_absent [of 2] by blast
  obtain h3 where p3: "probe_device boot_disk 3 (at_devices st 3) h2 = Some ((at_devices st 3)\<lparr>dv_flags := 0\<rparr>, h3)"
    using boot_disk_absent [of 3] by fastforce
  have "probe_all boot_disk 0 (Suc (Suc (Suc (Suc 0)))) (at_devices st) (at_hw st)
      = Some ((at_devices st)(0 := d0, 1 := d1, 2 := (at_devices st 2)\<lparr>dv_flags := 0\<rparr>, 3 := (at_devices st 3)\<lparr>dv_flags := 0\<rparr>), h3)"
    using p0(1) p1 p2 p3 by (simp add: numeral_2_eq_2 numeral_3_eq_3)
  moreover have "4 = Suc (Suc (Suc (Suc 0)))" by simp
  ultimately show ?thesis using p0(2) unfolding init_ata_devices_def by (simp only: Option.bind.bind_lunit prod.case) simp
qed

theorem boot_reads_partition_table_witness:
  "\<exists>st' pt. init_ata_generic boot_disk (\<lambda>e. ata_handler1 boot_disk) (1300, 1200, 1100) (7000, \<lparr>ih_id = 0, ih_name = [], ih_handler = NULL\<rparr>, 7100)
      (7200, \<lparr>ih_id = 0, ih_name = [], ih_handler = NULL\<rparr>, 7300) (5000, 6000, 64, 128, \<lambda>k. mbr_entry (part_at [] 0) 0 k)
      (5100, 6100, 192, 256, \<lambda>k. mbr_entry (part_at [] 0) 0 k) 8000 8100 4000 4200 4100 demo_disks = Some (Returned st')
    \<and> at_ptable (dk_ata st') 0 = Some pt \<and> map pn_init (pt_partitions pt) = [63] \<and> bc_drivers (dk_cache st') ! 3 = 4000"
proof -
  let ?run = "init_ata_generic boot_disk (\<lambda>e. ata_handler1 boot_disk) (1300, 1200, 1100) (7000, \<lparr>ih_id = 0, ih_name = [], ih_handler = NULL\<rparr>, 7100)
      (7200, \<lparr>ih_id = 0, ih_name = [], ih_handler = NULL\<rparr>, 7300) (5000, 6000, 64, 128, \<lambda>k. mbr_entry (part_at [] 0) 0 k)
      (5100, 6100, 192, 256, \<lambda>k. mbr_entry (part_at [] 0) 0 k) 8000 8100 4000 4200 4100 demo_disks"
  let ?disk = "\<lambda>a. word_bytes boot_words" and ?es = "map (\<lambda>i. (mbr_partition (word_bytes boot_words) i, [])) [0..<4]"
  have s: "word_bytes boot_words ! 510 = 0x55" "word_bytes boot_words ! 511 = 0xaa" by code_simp+
  have c: "\<forall>e\<in>set ?es. format_ok ?disk e \<and> length (snd e) \<le> 2" by code_simp
  have p: "map pn_init (map as_recorded (format_partitions ?disk 0 ?es)) = [63]" by code_simp
  obtain a where a: "init_ata_devices boot_disk ((dk_ata demo_disks)\<lparr>at_hw := kb_hw (tt_kbd (dk_tty demo_disks))\<rparr>) = Some a"
    "dv_flags (at_devices a 0) AND PRESENT \<noteq> 0" "dv_flags (at_devices a 2) AND PRESENT = 0" using boot_disk_probed by blast
  have irq: "irq_rep (kb_irq (tt_kbd (dk_tty demo_disks))) (\<lambda>_. (True, []))" "dom (ir_handlers (kb_irq (tt_kbd (dk_tty demo_disks)))) = {}"
    "dom (ir_nodes (kb_irq (tt_kbd (dk_tty demo_disks)))) = {}"
    using irq_rep_init [of no_irqs] by (simp_all add: demo_disks_def) (simp_all add: init_IRQ_def no_irqs_def)
  have at: "at_bufs (dk_ata demo_disks) 1100 \<noteq> None" "at_bops (dk_ata demo_disks) 1300 = None" "at_nodes (dk_ata demo_disks) 1200 = None"
    and cache: "bc_drv (dk_cache demo_disks) 4000 \<noteq> None" "3 < length (bc_drivers (dk_cache demo_disks))" "bc_drivers (dk_cache demo_disks) ! 3 = NULL"
    and tty: "\<not> tt_over_serial (dk_tty demo_disks)"
    by (simp_all add: demo_disks_def)
  then obtain d where d: "bc_drv (dk_cache demo_disks) 4000 = Some d" by blast
  have n: "{7000, 7200} \<inter> dom (ir_handlers (kb_irq (tt_kbd (dk_tty demo_disks)))) = {}"
    "{7100, 7300} \<inter> dom (ir_nodes (kb_irq (tt_kbd (dk_tty demo_disks)))) = {}" using irq(2,3) by simp_all
  note boot = boot_reads_partition_table [OF a boot_disk_responsive boot_disk_delivers refl at(1) _ at(2) _ at(3) irq(1) lines_ok_init n _ _ _ _ d _
    cache(2,3) tty s _ _ _ _ _ c, where new_pt = 64 and new_parts = 128 and new_q = 5000 and new_ht = 6000]
  have "\<exists>st' pt. ?run = Some (Returned st') \<and> at_ptable (dk_ata st') 0 = Some pt
    \<and> pt_partitions pt = map as_recorded (format_partitions ?disk 0 ?es) \<and> bc_drivers (dk_cache st') ! 3 = 4000
    \<and> ata_source boot_disk (\<lambda>e. ata_handler1 boot_disk) 1300 1200 1100 ?disk (dk_ata st')"
    by (rule boot) (simp_all add: comp_def)
  then show ?thesis using p by metis
qed

end
