(* ===== verification/Exec_Init.thy ===== *)
theory Exec_Init
  imports Task_Switch Kmalloc
begin

text \<open>
  The creation of the first user process, \<^verbatim>\<open>_exec_init\<close> of \<^verbatim>\<open>kernel/fork.c\<close>. The kernel's page tables are the flat
  array of entries of the heap; the other page frames are arrays of words by physical address. The code reaches the
  new directory and the new table by mapping them at fixed virtual addresses, so that a store goes through the entry
  of the kernel's tables. Allocation results are arguments, as for the other operations on tasks.
\<close>

section \<open>Model\<close>

record vm =
  vm_entries :: "nat \<Rightarrow> u32"
  vm_phy :: "nat \<Rightarrow> u32"
  vm_frames :: "u32 \<Rightarrow> nat \<Rightarrow> u32"

record exec_state =
  ex_sched :: sched
  ex_pages :: page_stack
  ex_vm :: vm
  ex_regions :: "ptr \<rightharpoonup> mregion"
  ex_dirs :: "ptr \<rightharpoonup> pagedir"

abbreviation (input) IOPL_USER :: u32 where "IOPL_USER \<equiv> 0x3000"
abbreviation (input) init_eip :: u32 where "init_eip \<equiv> 0xC0000C"

text \<open>A store of a word at a virtual address of the kernel.\<close>

definition vwrite :: "nat \<Rightarrow> u32 \<Rightarrow> vm \<Rightarrow> vm option" where
  "vwrite va w vm =
     (let e = vm_entries vm (va div 4096) in
      if e AND PAGE_PRESENT \<noteq> 0
      then let f = e AND PAGE_MASK in
        Some (vm\<lparr>vm_frames := (vm_frames vm)(f := (vm_frames vm f)((va mod 4096) div 4 := w))\<rparr>)
      else None)"

text \<open>\<^verbatim>\<open>dtable[i] = kerneldir->tables_phy_addr[i] | PAGE_USER\<close>, with \<open>n\<close> rounds left.\<close>

fun fill_dtable :: "nat \<Rightarrow> nat \<Rightarrow> vm \<Rightarrow> vm option" where
  "fill_dtable i 0 vm = Some vm"
| "fill_dtable i (Suc n) vm = do {
     vm1 \<leftarrow> vwrite (0x1000000 + 4 * i) (vm_phy vm i OR PAGE_USER) vm;
     fill_dtable (i + 1) n vm1
   }"

fun fill_ptable :: "nat \<Rightarrow> nat \<Rightarrow> nat \<Rightarrow> nat \<Rightarrow> vm \<Rightarrow> vm option" where
  "fill_ptable i 0 index ffpage vm = Some vm"
| "fill_ptable i (Suc n) index ffpage vm = do {
     s \<leftarrow> slot index ffpage;
     vm1 \<leftarrow> vwrite (0xC00000 + 4 * i) (vm_entries vm s OR PAGE_USER) vm;
     if ffpage + 1 \<ge> TABLE_SIZE then fill_ptable (i + 1) n (index + 1) 0 vm1
     else fill_ptable (i + 1) n index (ffpage + 1) vm1
   }"

definition map_entry :: "nat \<Rightarrow> u32 \<Rightarrow> vm \<Rightarrow> vm" where
  "map_entry s page vm = vm\<lparr>vm_entries := (vm_entries vm)(s := MAKE_ENTRY page (PAGE_WRITABLE OR PAGE_PRESENT OR PAGE_USER))\<rparr>"

definition init_regs :: "task \<Rightarrow> task" where
  "init_regs t = t\<lparr>tk_regs := (tk_regs t)\<lparr>r_eip := init_eip, r_ds := USER_DS_RPL, r_fs := USER_DS_RPL, r_gs := USER_DS_RPL,
     r_ss := USER_DS_RPL, r_es := USER_DS_RPL, r_cs := USER_CS_RPL, r_eflags := EFLAGS_IF OR IOPL_USER,
     r_esp := of_nat (tk_kstack t) - 14 * 4 - 2\<rparr>\<rparr>"

definition image_pages :: "u32 \<Rightarrow> nat" where
  "image_pages size0 = (let n = unat size0 div 4096 in if unat size0 mod 4096 \<noteq> 0 then n + 1 else n)"

definition map_image :: "u32 \<Rightarrow> u32 \<Rightarrow> mregion \<Rightarrow> u32 \<Rightarrow> vm \<Rightarrow> vm option" where
  "map_image dtable_addr ptable_addr mem_area size0 vm = do {
     vm1 \<leftarrow> fill_dtable 0 TABLE_SIZE (map_entry (4 * TABLE_SIZE) dtable_addr vm);
     vm2 \<leftarrow> vwrite (0x1000000 + 4 * 3) (MAKE_ENTRY ptable_addr (PAGE_WRITABLE OR PAGE_PRESENT OR PAGE_USER)) vm1;
     let index = unat (drop_bit TABLE_SHIFT (mr_initial_addr mem_area));
     let ffpage = unat (mr_initial_addr mem_area - of_nat TABLE_SIZE * drop_bit TABLE_SHIFT (mr_initial_addr mem_area));
     fill_ptable 0 (image_pages size0) index ffpage (map_entry (3 * TABLE_SIZE) ptable_addr vm2)
   }"

text \<open>\<open>old\<close> is what the memory of the task held. The header of the heap region lies in front of the data.\<close>

definition exec_init ::
  "pagedir \<Rightarrow> ptr \<Rightarrow> task \<Rightarrow> ptr \<Rightarrow> ptr \<Rightarrow> ptr \<Rightarrow> ptr \<Rightarrow> u32 \<Rightarrow> exec_state \<Rightarrow> exec_state option" where
  "exec_init kerneldir newth old new_stack pg_pdir node init_data size0 st =
     (if newth = NULL \<or> new_stack = NULL \<or> pg_pdir = NULL then Some st
      else do {
        (pid, sc1) \<leftarrow> get_new_pid (ex_sched st);
        let t0 = init_regs (old\<lparr>tk_state := TASK_READY_TO_RUN, tk_priority := 0, tk_pid := pid, tk_stack_base := new_stack,
                    tk_return_code := 0, tk_wait_queue := 0, tk_kstack := new_stack + PROCESS_STACK_SIZE\<rparr>);
        let (ptable_addr, pages1) = alloc_page (ex_pages st) NORMAL_ZONE;
        let (dtable_addr, pages2) = alloc_page pages1 NORMAL_ZONE;
        mem_area \<leftarrow> ex_regions st (init_data - 12);
        vm \<leftarrow> map_image dtable_addr ptable_addr mem_area size0 (ex_vm st);
        let dir = \<lparr>pd_tables = pd_tables kerneldir, pd_tables_phy_addr = 0x1000000, pd_dir_phy_addr = dtable_addr,
                   pd_dir_entries = map (vm_frames vm dtable_addr) [0..<TABLE_SIZE]\<rparr>;
        let t1 = t0\<lparr>tk_cr3 := dtable_addr\<rparr>;
        let (sp, m) = push_context t1 (tk_kstack t1, sc_mem sc1);
        (r, head, ring) \<leftarrow> c_llist_add (sc_ring sc1) (sc_head sc1) newth node;
        Some (st\<lparr>ex_sched := sc1\<lparr>sc_tasks := (sc_tasks sc1)(newth \<mapsto> t1\<lparr>tk_kstack := sp\<rparr>), sc_mem := m, sc_head := head, sc_ring := ring\<rparr>,
                 ex_pages := pages2, ex_vm := vm, ex_dirs := (ex_dirs st)(pg_pdir \<mapsto> dir)\<rparr>)
      })"

section \<open>Address translation\<close>

text \<open>The translation that the processor makes in user mode with a directory, and the one of the kernel.\<close>

definition user_walk :: "vm \<Rightarrow> u32 \<Rightarrow> nat \<Rightarrow> u32 option" where
  "user_walk vm dir va =
     (let pde = vm_frames vm dir (va div 0x400000); pte = vm_frames vm (pde AND PAGE_MASK) ((va div 4096) mod 1024) in
      if pde AND 5 = 5 \<and> pte AND 5 = 5 then Some ((pte AND PAGE_MASK) + of_nat (va mod 4096)) else None)"

definition kernel_walk :: "vm \<Rightarrow> nat \<Rightarrow> u32 option" where
  "kernel_walk vm va =
     (let pte = vm_entries vm (va div 4096) in
      if pte AND PAGE_PRESENT \<noteq> 0 then Some ((pte AND PAGE_MASK) + of_nat (va mod 4096)) else None)"

section \<open>Filling the tables\<close>

lemma entry_flags:
  "MAKE_ENTRY p (PAGE_WRITABLE OR PAGE_PRESENT OR PAGE_USER) AND PAGE_MASK = p AND PAGE_MASK"
  "MAKE_ENTRY p (PAGE_WRITABLE OR PAGE_PRESENT OR PAGE_USER) AND 5 = 5"
  "MAKE_ENTRY p (PAGE_WRITABLE OR PAGE_PRESENT OR PAGE_USER) AND PAGE_PRESENT = PAGE_PRESENT"
  by (simp_all add: MAKE_ENTRY_def word_ao_dist and.assoc)

lemma user_flags:
  "(e OR PAGE_USER) AND PAGE_MASK = e AND PAGE_MASK"
  "(e OR PAGE_USER) AND 5 = 5 \<longleftrightarrow> e AND PAGE_PRESENT \<noteq> 0"
proof -
  show "(e OR PAGE_USER) AND PAGE_MASK = e AND PAGE_MASK" by (simp add: word_ao_dist)
  have b: "bit (5::u32) n \<longleftrightarrow> n = 0 \<or> n = 2" "bit (4::u32) n \<longleftrightarrow> n = 2" for n
    by (auto simp: bit_numeral_rec bit_1_iff split: nat.splits)
  have "(e OR PAGE_USER) AND 5 = 5 \<longleftrightarrow> (\<forall>n. bit ((e OR PAGE_USER) AND 5) n \<longleftrightarrow> bit (5::u32) n)"
    by (metis bit_word_eqI)
  also have "\<dots> \<longleftrightarrow> bit e 0" unfolding bit_and_iff bit_or_iff b by auto
  finally have "(e OR PAGE_USER) AND 5 = 5 \<longleftrightarrow> bit e 0" .
  then show "(e OR PAGE_USER) AND 5 = 5 \<longleftrightarrow> e AND PAGE_PRESENT \<noteq> 0"
    by (simp add: bit_0 and_one_eq odd_iff_mod_2_eq_one)
qed

text \<open>Stores through a present entry change one word of its frame.\<close>

lemma vwrite_ok:
  assumes "vm_entries vm p = MAKE_ENTRY f (PAGE_WRITABLE OR PAGE_PRESENT OR PAGE_USER)" "f AND PAGE_MASK = f" "i < 1024"
    "va = 4096 * p + 4 * i"
  shows "vwrite va w vm = Some (vm\<lparr>vm_frames := (vm_frames vm)(f := (vm_frames vm f)(i := w))\<rparr>)"
proof -
  have "va div 4096 = p" "va mod 4096 div 4 = i" using assms(3,4) by auto
  then show ?thesis using assms(1,2) by (simp add: vwrite_def entry_flags [simplified] Let_def)
qed

lemma no_range: "(i \<le> j \<and> j < i) = False" for i j :: nat
  by auto

lemma fill_dtable_ok:
  assumes "vm_entries vm 4096 = MAKE_ENTRY f (PAGE_WRITABLE OR PAGE_PRESENT OR PAGE_USER)" "f AND PAGE_MASK = f" "i + n \<le> 1024"
  shows "fill_dtable i n vm = Some (vm\<lparr>vm_frames := (vm_frames vm)
    (f := \<lambda>j. if i \<le> j \<and> j < i + n then vm_phy vm j OR PAGE_USER else vm_frames vm f j)\<rparr>)"
  using assms
proof (induction n arbitrary: i vm)
  case (Suc n)
  let ?vm = "vm\<lparr>vm_frames := (vm_frames vm)(f := (vm_frames vm f)(i := vm_phy vm i OR PAGE_USER))\<rparr>"
  have "vwrite (0x1000000 + 4 * i) (vm_phy vm i OR PAGE_USER) vm = Some ?vm"
    using Suc.prems by (intro vwrite_ok) auto
  with Suc.IH [of ?vm "i + 1"] Suc.prems show ?case by (auto simp: fun_eq_iff)
qed (simp add: no_range)

lemma fill_ptable_ok:
  assumes "vm_entries vm 3072 = MAKE_ENTRY f (PAGE_WRITABLE OR PAGE_PRESENT OR PAGE_USER)" "f AND PAGE_MASK = f" "i + n \<le> 1024"
    and "ffpage < 1024" "1024 * index + ffpage + n \<le> 1024 * 1024"
  shows "fill_ptable i n index ffpage vm = Some (vm\<lparr>vm_frames := (vm_frames vm)
    (f := \<lambda>j. if i \<le> j \<and> j < i + n then vm_entries vm (1024 * index + ffpage + (j - i)) OR PAGE_USER else vm_frames vm f j)\<rparr>)"
  using assms
proof (induction n arbitrary: i index ffpage vm)
  case (Suc n)
  let ?s = "1024 * index + ffpage"
  let ?vm = "vm\<lparr>vm_frames := (vm_frames vm)(f := (vm_frames vm f)(i := vm_entries vm ?s OR PAGE_USER))\<rparr>"
  have s: "slot index ffpage = Some ?s" using Suc.prems by (auto simp: slot_def)
  have w: "vwrite (0xC00000 + 4 * i) (vm_entries vm ?s OR PAGE_USER) vm = Some ?vm"
    using Suc.prems by (intro vwrite_ok) auto
  obtain k g where kg: "(if ffpage + 1 \<ge> 1024 then (index + 1, 0) else (index, ffpage + 1)) = (k, g)" by force
  then have g: "1024 * k + g = ?s + 1" "g < 1024" using Suc.prems(4) by (auto split: if_splits)
  have "fill_ptable i (Suc n) index ffpage vm = fill_ptable (i + 1) n k g ?vm" using s w kg by (auto split: if_splits)
  also have "\<dots> = Some (?vm\<lparr>vm_frames := (vm_frames ?vm)(f := \<lambda>j. if i + 1 \<le> j \<and> j < i + 1 + n
      then vm_entries ?vm (1024 * k + g + (j - (i + 1))) OR PAGE_USER else vm_frames ?vm f j)\<rparr>)"
    using Suc.prems g by (intro Suc.IH) auto
  finally show ?case unfolding g(1) by (auto simp: fun_eq_iff Suc_diff_Suc)
qed (simp add: no_range)

text \<open>The tables of the process: the directory holds the kernel's tables but for entry 3, which is the table of the
  image; the first entries of that table are those of the pages of the image in the kernel.\<close>

lemma map_image_ok:
  assumes frames: "d AND PAGE_MASK = d" "p AND PAGE_MASK = p" "d \<noteq> p"
    and n: "image_pages size0 \<le> 1024" "unat (mr_initial_addr r) + image_pages size0 \<le> 1024 * 1024"
  shows "map_image d p r size0 vm = Some (vm\<lparr>
    vm_entries := (vm_entries vm)(4096 := MAKE_ENTRY d (PAGE_WRITABLE OR PAGE_PRESENT OR PAGE_USER),
                                  3072 := MAKE_ENTRY p (PAGE_WRITABLE OR PAGE_PRESENT OR PAGE_USER)),
    vm_frames := (vm_frames vm)(
      d := (\<lambda>j. if j = 3 then MAKE_ENTRY p (PAGE_WRITABLE OR PAGE_PRESENT OR PAGE_USER)
                else if j < 1024 then vm_phy vm j OR PAGE_USER else vm_frames vm d j),
      p := (\<lambda>j. if j < image_pages size0
                then ((vm_entries vm)(4096 := MAKE_ENTRY d (PAGE_WRITABLE OR PAGE_PRESENT OR PAGE_USER),
                        3072 := MAKE_ENTRY p (PAGE_WRITABLE OR PAGE_PRESENT OR PAGE_USER))) (unat (mr_initial_addr r) + j) OR PAGE_USER
                else vm_frames vm p j))\<rparr>)"
proof -
  let ?e = "\<lambda>f. MAKE_ENTRY f (PAGE_WRITABLE OR PAGE_PRESENT OR PAGE_USER)"
  let ?a = "mr_initial_addr r" and ?i = "drop_bit TABLE_SHIFT (mr_initial_addr r)"
  have i: "unat ?i = unat ?a div 1024" by (simp add: drop_bit_eq_div unat_div)
  have m: "unat (of_nat TABLE_SIZE * ?i) = 1024 * (unat ?a div 1024)"
    using unsigned_less [of ?a, where ?'a = nat] times_div_less_eq_dividend [of 1024 "unat ?a"]
    by (simp add: unat_word_ariths(2) i [simplified] del: times_div_less_eq_dividend)
  then have "of_nat TABLE_SIZE * ?i \<le> ?a" by (simp add: word_le_nat_alt)
  then have f: "unat (?a - of_nat TABLE_SIZE * ?i) = unat ?a mod 1024"
    using m by (simp add: unat_sub minus_mult_div_eq_mod)
  define D where "D = (\<lambda>j. if j < 1024 then vm_phy vm j OR PAGE_USER else vm_frames vm d j)"
  define E1 where "E1 = (vm_entries vm)(4096 := ?e d)"
  define E2 where "E2 = E1(3072 := ?e p)"
  let ?vm1 = "vm\<lparr>vm_entries := E1\<rparr>"
  let ?vm2 = "?vm1\<lparr>vm_frames := (vm_frames vm)(d := D)\<rparr>"
  let ?vm3 = "?vm1\<lparr>vm_frames := (vm_frames vm)(d := D(3 := ?e p))\<rparr>"
  let ?vm4 = "?vm3\<lparr>vm_entries := E2\<rparr>"
  have "fill_dtable 0 TABLE_SIZE ?vm1 = Some ?vm2"
    using frames by (subst fill_dtable_ok [where f = d]) (simp_all add: D_def E1_def cong: if_cong)
  moreover have "vwrite (0x1000000 + 4 * 3) (?e p) ?vm2 = Some ?vm3"
    using frames by (subst vwrite_ok [where f = d and p = 4096 and i = 3]) (simp_all add: E1_def)
  moreover have "fill_ptable 0 (image_pages size0) (unat ?a div 1024) (unat ?a mod 1024) ?vm4
    = Some (?vm4\<lparr>vm_frames := (vm_frames ?vm4)(p := \<lambda>j. if j < image_pages size0 then E2 (unat ?a + j) OR PAGE_USER else vm_frames vm p j)\<rparr>)"
    using frames n by (subst fill_ptable_ok [where f = p]) (simp_all add: E2_def cong: if_cong)
  moreover have "map_entry (4 * TABLE_SIZE) d vm = ?vm1" "map_entry (3 * TABLE_SIZE) p ?vm3 = ?vm4"
    by (simp_all add: map_entry_def E1_def E2_def)
  ultimately have "map_image d p r size0 vm = Some (vm\<lparr>vm_entries := E2, vm_frames := (vm_frames vm)(d := D(3 := ?e p),
      p := \<lambda>j. if j < image_pages size0 then E2 (unat ?a + j) OR PAGE_USER else vm_frames vm p j)\<rparr>)"
    by (simp add: map_image_def i [simplified] f [simplified] Let_def)
  moreover have "D(3 := ?e p) = (\<lambda>j. if j = 3 then ?e p else if j < 1024 then vm_phy vm j OR PAGE_USER else vm_frames vm d j)"
    by (auto simp: D_def)
  ultimately show ?thesis unfolding E2_def E1_def by simp
qed

section \<open>The process\<close>

text \<open>What the code relies on when it makes the process: memory for it, a process identifier, two pages, and the region
  of the image inside the kernel's tables.\<close>

definition init_ready :: "exec_state \<Rightarrow> (ptr \<times> ptr) list \<Rightarrow> nat \<Rightarrow> ptr \<Rightarrow> ptr \<Rightarrow> u32 \<Rightarrow> u32 \<Rightarrow> ptr \<Rightarrow> mregion \<Rightarrow> u32 \<Rightarrow> bool" where
  "init_ready st ns i newth node p d init_data r size0 \<longleftrightarrow>
     runq (ex_sched st) ns i \<and> newth \<noteq> NULL \<and> newth \<notin> dom (sc_tasks (ex_sched st)) \<and> node \<noteq> NULL \<and> node \<notin> dom (sc_ring (ex_sched st))
     \<and> unat (sc_pid_top (ex_sched st)) < length (sc_pid_stack (ex_sched st))
     \<and> fst (alloc_pages (ex_pages st) NORMAL_ZONE 2) = [p, d] \<and> d AND PAGE_MASK = d \<and> p AND PAGE_MASK = p \<and> d \<noteq> p
     \<and> ex_regions st (init_data - 12) = Some r
     \<and> image_pages size0 \<le> 1024 \<and> unat (mr_initial_addr r) + image_pages size0 \<le> 1024 * 1024
     \<and> (\<forall>k < image_pages size0. unat (mr_initial_addr r) + k \<notin> {3072, 4096})"

lemma exec_init_ok:
  assumes ready: "init_ready st ns i newth node p d init_data r size0" and "new_stack \<noteq> NULL" "pg_pdir \<noteq> NULL"
  shows "\<exists>st' th. exec_init kdir newth old new_stack pg_pdir node init_data size0 st = Some st'
    \<and> runq (ex_sched st') (ns @ [(node, newth)]) i \<and> sc_tasks (ex_sched st') newth = Some th
    \<and> map_image d p r size0 (ex_vm st) = Some (ex_vm st')
    \<and> tk_state th = TASK_READY_TO_RUN \<and> tk_cr3 th = d \<and> tk_kstack th = new_stack + PROCESS_STACK_SIZE - 58
    \<and> tk_regs th = tk_regs (init_regs (old\<lparr>tk_kstack := new_stack + PROCESS_STACK_SIZE\<rparr>))
    \<and> r_esp (tk_regs th) = of_nat (tk_kstack th)
    \<and> sc_mem (ex_sched st') = store_bytes (sc_mem (ex_sched st)) (tk_kstack th) (context_bytes th)
    \<and> (\<exists>dir. ex_dirs st' pg_pdir = Some dir \<and> pd_dir_phy_addr dir = d \<and> pd_tables dir = pd_tables kdir)"
proof -
  let ?sc = "ex_sched st" and ?top = "new_stack + PROCESS_STACK_SIZE"
  note h = ready [unfolded init_ready_def]
  define pid where "pid = sc_pid_stack ?sc ! unat (sc_pid_top ?sc)"
  define t0 where "t0 = init_regs (old\<lparr>tk_state := TASK_READY_TO_RUN, tk_priority := 0, tk_pid := pid, tk_stack_base := new_stack,
                    tk_return_code := 0, tk_wait_queue := 0, tk_kstack := ?top\<rparr>)"
  define t1 where "t1 = t0\<lparr>tk_cr3 := d\<rparr>"
  have g: "get_new_pid ?sc = Some (pid, ?sc\<lparr>sc_pid_top := sc_pid_top ?sc - 1\<rparr>)" using h by (simp add: get_new_pid_def pid_def)
  obtain pages1 pages2 where a: "alloc_page (ex_pages st) NORMAL_ZONE = (p, pages1)" "alloc_page pages1 NORMAL_ZONE = (d, pages2)"
    using h by (auto simp: numeral_2_eq_2 Let_def split: prod.splits)
  obtain vm where m: "map_image d p r size0 (ex_vm st) = Some vm" using h map_image_ok [of d p size0 r] by blast
  have c: "push_context t1 (?top, sc_mem ?sc) = (?top - 58, store_bytes (sc_mem ?sc) (?top - 58) (context_bytes t1))"
    using push_context_store [of ?top t1 "sc_mem ?sc" "[]"] by (simp add: store_bytes_Nil)
  have q: "is_cllist (sc_ring ?sc) (sc_head ?sc) ns" "ns \<noteq> []" using h by (auto simp: runq_def)
  from c_llist_add_ok [OF q(1), of node newth] q(2) h obtain ring
    where l: "c_llist_add (sc_ring ?sc) (sc_head ?sc) newth node = Some (1, sc_head ?sc, ring)"
      "is_cllist ring (sc_head ?sc) (ns @ [(node, newth)])" by auto
  let ?st' = "st\<lparr>ex_sched := ?sc\<lparr>sc_tasks := (sc_tasks ?sc)(newth \<mapsto> t1\<lparr>tk_kstack := ?top - 58\<rparr>),
      sc_pid_top := sc_pid_top ?sc - 1, sc_mem := store_bytes (sc_mem ?sc) (?top - 58) (context_bytes t1), sc_ring := ring\<rparr>,
    ex_pages := pages2, ex_vm := vm, ex_dirs := (ex_dirs st)(pg_pdir \<mapsto> \<lparr>pd_tables = pd_tables kdir,
      pd_tables_phy_addr = 0x1000000, pd_dir_phy_addr = d, pd_dir_entries = map (vm_frames vm d) [0..<TABLE_SIZE]\<rparr>)\<rparr>"
  have k: "tk_kstack t0 = ?top" by (simp add: t0_def init_regs_def)
  have e: "exec_init kdir newth old new_stack pg_pdir node init_data size0 st = Some ?st'"
    unfolding exec_init_def using g a m c [folded k] l(1) h assms(2,3)
    by (simp add: k t0_def [symmetric] t1_def [symmetric] Let_def del: upt_rec_numeral)
  have "newth \<notin> snd ` set ns" using h by (auto simp: runq_def)
  then have "runq (ex_sched ?st') (ns @ [(node, newth)]) i" using h l(2) by (auto simp: runq_def nth_append)
  moreover have "context_bytes (t1\<lparr>tk_kstack := x\<rparr>) = context_bytes t1" for x by (simp add: context_bytes_def)
  moreover have "(of_nat ?top - 14 * 4 - 2 :: u32) = of_nat (?top - 58)" by (simp add: of_nat_diff)
  ultimately show ?thesis using e m by (intro exI [of _ ?st'] exI [of _ "t1\<lparr>tk_kstack := ?top - 58\<rparr>"])
      (simp add: t1_def t0_def init_regs_def)
qed

section \<open>Properties\<close>

lemma page_parts:
  fixes k :: nat obtains q t where "k = 4096 * q + t" "t < 4096"
  by (metis mod_less_divisor mult_div_mod_eq zero_less_numeral)

lemma user_walk_table:
  assumes "vm_frames vm d 3 = MAKE_ENTRY p (PAGE_WRITABLE OR PAGE_PRESENT OR PAGE_USER)" "p AND PAGE_MASK = p" "k < 0x400000"
  shows "user_walk vm d (0xC00000 + k) = (let e = vm_frames vm p (k div 4096) in
    if e AND 5 = 5 then Some ((e AND PAGE_MASK) + of_nat (k mod 4096)) else None)"
proof -
  obtain q t where k: "k = 4096 * q + t" "t < 4096" by (rule page_parts)
  then have "(0xC00000 + k) div 4096 = 3072 + q" by (intro div_nat_eqI) simp_all
  moreover from this k have "(0xC00000 + k) mod 4096 = t" by (simp only: modulo_nat_def) simp
  moreover have "q < 1024" "(0xC00000 + k) div 0x400000 = 3" "k div 4096 = q" "k mod 4096 = t"
    using assms(3) k by auto
  moreover from this have "(3072 + q) mod 1024 = q" by (intro mod_nat_eqI) simp_all
  ultimately show ?thesis using assms by (simp add: user_walk_def entry_flags [simplified] Let_def)
qed

lemma image_walk:
  assumes ready: "init_ready st ns i newth node p d init_data r size0" and alloc: "new_stack \<noteq> NULL" "pg_pdir \<noteq> NULL"
    and init: "init_data = 4096 * unat (mr_initial_addr r) + 12"
    and exec: "exec_init kdir newth old new_stack pg_pdir node init_data size0 st = Some st'" and k: "12 + k < 4096 * image_pages size0"
  shows "user_walk (ex_vm st') d (unat init_eip + k) = kernel_walk (ex_vm st) (init_data + k)"
proof -
  let ?vm = "ex_vm st" and ?a = "unat (mr_initial_addr r)"
  note h = ready [unfolded init_ready_def]
  from exec_init_ok [OF ready alloc, of kdir old] exec have "map_image d p r size0 ?vm = Some (ex_vm st')" by auto
  note m = map_image_ok [of d p size0 r ?vm, unfolded this]
  have n: "(12 + k) div 4096 < image_pages size0" "12 + k < 0x400000" using k h by (auto simp: less_mult_imp_div_less)
  then have f: "vm_frames (ex_vm st') p ((12 + k) div 4096) = vm_entries ?vm (?a + (12 + k) div 4096) OR PAGE_USER"
    "vm_frames (ex_vm st') d 3 = MAKE_ENTRY p (PAGE_WRITABLE OR PAGE_PRESENT OR PAGE_USER)"
    using m h by auto
  have "user_walk (ex_vm st') d (0xC00000 + (12 + k)) = kernel_walk ?vm (4096 * ?a + (12 + k))"
    using n h f by (subst user_walk_table [where p = p]) (simp_all add: kernel_walk_def user_flags [simplified] Let_def)
  then show ?thesis using init by (simp add: add.assoc)
qed

text \<open>A state in which an image of the given size lies from page 5 on, at physical page 0x500.\<close>

definition demo_exec :: exec_state where
  "demo_exec = \<lparr>ex_sched = (demo_sched 1 0 0)\<lparr>sc_pid_stack := [5], sc_pid_top := 0\<rparr>,
     ex_pages = \<lparr>stack_pages = [0x300000, 0x301000], stack_top = 0, stack_max_top = 2\<rparr>,
     ex_vm = \<lparr>vm_entries = (\<lambda>i. if i = 5 then 0x500003 else 0), vm_phy = (\<lambda>i. 3), vm_frames = (\<lambda>f i. 0)\<rparr>,
     ex_regions = [0x5000 \<mapsto> \<lparr>mr_initial_addr = 5, mr_size = 1\<rparr>], ex_dirs = Map.empty\<rparr>"

definition demo_dir :: pagedir where
  "demo_dir = \<lparr>pd_tables = [], pd_tables_phy_addr = 0, pd_dir_phy_addr = 0x9000, pd_dir_entries = []\<rparr>"

lemma demo_exec_ready:
  assumes "image_pages size0 = 1"
  shows "init_ready demo_exec ring3_nodes 0 0x3000 64 0x300000 0x301000 0x500C \<lparr>mr_initial_addr = 5, mr_size = 1\<rparr> size0"
proof -
  have "fst (alloc_pages (ex_pages demo_exec) NORMAL_ZONE (Suc (Suc 0))) = [0x300000, 0x301000]"
    by (simp add: demo_exec_def alloc_page_def)
  then have "fst (alloc_pages (ex_pages demo_exec) NORMAL_ZONE 2) = [0x300000, 0x301000]" by (simp only: numeral_2_eq_2)
  then show ?thesis using assms ring3_ok by (simp add: init_ready_def runq_def demo_exec_def demo_sched_def)
qed

text \<open>C15: The address space of the first process: with the memory, the pages and the region of the image in place,
  \<open>exec_init\<close> succeeds, and every byte of the pages that it counts for the image is found in user mode, through the new
  directory, at the physical address where the kernel has it: the first byte of the image at the start address.
  The other parts of the address space are those of the kernel.\<close>
theorem exec_init_maps_image:
  assumes ready: "init_ready st ns i newth node p d init_data r size0" and alloc: "new_stack \<noteq> NULL" "pg_pdir \<noteq> NULL"
    and init: "init_data = 4096 * unat (mr_initial_addr r) + 12"
  shows "\<exists>st'. exec_init kdir newth old new_stack pg_pdir node init_data size0 st = Some st'
    \<and> (\<forall>k. 12 + k < 4096 * image_pages size0 \<longrightarrow>
        user_walk (ex_vm st') d (unat init_eip + k) = kernel_walk (ex_vm st) (init_data + k))
    \<and> (\<forall>j < 1024. j \<noteq> 3 \<longrightarrow> vm_frames (ex_vm st') d j = vm_phy (ex_vm st) j OR PAGE_USER)"
proof -
  note h = ready [unfolded init_ready_def]
  from exec_init_ok [OF ready alloc] obtain st' where e: "exec_init kdir newth old new_stack pg_pdir node init_data size0 st = Some st'"
    "map_image d p r size0 (ex_vm st) = Some (ex_vm st')" by blast
  note m = map_image_ok [of d p size0 r "ex_vm st", unfolded e(2)]
  show ?thesis using e(1) m h image_walk [OF ready alloc init e(1)] by auto
qed

theorem exec_init_maps_image_witness:
  "\<exists>st'. exec_init demo_dir 0x3000 (demo_task 0 0) 0x8000 0x7000 64 0x500C 100 demo_exec = Some st'
    \<and> user_walk (ex_vm st') 0x301000 0xC0000C = Some 0x50000C \<and> vm_frames (ex_vm st') 0x301000 0 = 7"
proof -
  have "image_pages 100 = 1" by (simp add: image_pages_def)
  from exec_init_maps_image [OF demo_exec_ready [OF this], of "0x8000" "0x7000" demo_dir "demo_task 0 0"] this
  obtain st' where e: "exec_init demo_dir 0x3000 (demo_task 0 0) 0x8000 0x7000 64 0x500C 100 demo_exec = Some st'"
    "\<And>k. 12 + k < 4096 \<Longrightarrow> user_walk (ex_vm st') 0x301000 (unat init_eip + k) = kernel_walk (ex_vm demo_exec) (0x500C + k)"
    "\<And>j. j < 1024 \<Longrightarrow> j \<noteq> 3 \<Longrightarrow> vm_frames (ex_vm st') 0x301000 j = vm_phy (ex_vm demo_exec) j OR PAGE_USER" by auto
  from e(2) [of 0] e(3) [of 0] e(1) show ?thesis by (auto simp: kernel_walk_def demo_exec_def Let_def)
qed

text \<open>C34: The pages of the image are counted from its size alone, although it begins 12 bytes into its first page. When
  the size leaves less than 12 bytes of its last page free, the last byte of the image lies on a page behind the
  counted ones: it is translated by whatever the page of the table held before, and not at all if that was zero.\<close>
theorem init_image_tail_unmapped:
  assumes ready: "init_ready st ns i newth node p d init_data r size0" and alloc: "new_stack \<noteq> NULL" "pg_pdir \<noteq> NULL"
    and "0 < size0" "unat size0 mod 4096 = 0 \<or> 4084 < unat size0 mod 4096" "image_pages size0 < 1024"
    and "vm_frames (ex_vm st) p (image_pages size0) = 0"
  shows "\<exists>st'. exec_init kdir newth old new_stack pg_pdir node init_data size0 st = Some st'
    \<and> user_walk (ex_vm st') d (unat init_eip + (unat size0 - 1)) = None"
proof -
  let ?n = "image_pages size0" and ?k = "12 + (unat size0 - 1)"
  note h = ready [unfolded init_ready_def]
  from exec_init_ok [OF ready alloc] obtain st' where e: "exec_init kdir newth old new_stack pg_pdir node init_data size0 st = Some st'"
    "map_image d p r size0 (ex_vm st) = Some (ex_vm st')" by blast
  note m = map_image_ok [of d p size0 r "ex_vm st", unfolded e(2)]
  have "0 < unat size0" using assms(4) by (simp add: word_less_nat_alt)
  moreover obtain q t where s: "unat size0 = 4096 * q + t" "t < 4096" by (rule page_parts)
  moreover have "unat size0 div 4096 = q" "unat size0 mod 4096 = t" using s by auto
  moreover from this have "?n = q + (if t = 0 then 0 else 1)" by (simp add: image_pages_def)
  ultimately have k: "?k div 4096 = ?n" using assms(5) by (intro div_nat_eqI) (auto split: if_splits)
  then have "?k < 0x400000" using assms(6) by auto
  moreover have "vm_frames (ex_vm st') p (?k div 4096) = 0" unfolding k using m h assms(7) by auto
  moreover have "vm_frames (ex_vm st') d 3 = MAKE_ENTRY p (PAGE_WRITABLE OR PAGE_PRESENT OR PAGE_USER)" using m h by auto
  ultimately have "user_walk (ex_vm st') d (0xC00000 + ?k) = None"
    using h by (subst user_walk_table [where p = p]) (simp_all only: Let_def bit.conj_zero_left, simp_all)
  then show ?thesis using e(1) by (auto simp: add.assoc)
qed

theorem init_image_tail_unmapped_witness:
  "\<exists>st'. exec_init demo_dir 0x3000 (demo_task 0 0) 0x8000 0x7000 64 0x500C 4096 demo_exec = Some st'
    \<and> user_walk (ex_vm st') 0x301000 0xC0100B = None"
proof -
  have "image_pages 4096 = 1" by (simp add: image_pages_def)
  with init_image_tail_unmapped [OF demo_exec_ready [OF this], of "0x8000" "0x7000" demo_dir "demo_task 0 0"]
  show ?thesis by (auto simp: demo_exec_def)
qed

text \<open>C6: From the image to the first instruction of the first process. When the scheduler first switches from a kernel
  task to the process that \<open>exec_init\<close> made, the processor leaves the kernel: it runs in the segments of user programs
  with interrupts enabled, on the stack of the process and in its address space, and the byte at its instruction
  pointer is the first byte of the image.\<close>
theorem init_process_starts:
  assumes ready: "init_ready st ns i newth node p d init_data r size0" and alloc: "new_stack \<noteq> NULL" "pg_pdir \<noteq> NULL"
    and image: "init_data = 4096 * unat (mr_initial_addr r) + 12" "0 < image_pages size0"
    and exec: "exec_init kdir newth old new_stack pg_pdir node init_data size0 st = Some st'" "sc_tasks (ex_sched st') newth = Some th"
    and call: "switch_call cur s w b t newth c ck"
    and mem: "same_bytes (cp_mem s) (sc_mem (ex_sched st')) (tk_kstack th) 58" "tss_at (cp_mem s) newth th" "tk_kstack th + 512 \<le> 2 ^ 32"
    and place: "apart newth 56 ck 56" "apart (tk_kstack th) 66 b 140" "apart (tk_kstack th) 66 ck 56" "apart cur 4 (tk_kstack th) 66"
    and kernel: "rpl (cp_seg s CS) = 0" "load16 (cp_mem s) (ck + 8) = KERNEL_DS"
  shows "\<exists>s'. task_switch_to (fst (setup_GDT a)) cur s = Some s'
    \<and> cp_eip s' = init_eip \<and> cp_seg s' CS = USER_CS_RPL \<and> (\<forall>g \<in> {SS, DS, ES, FS, GS}. cp_seg s' g = USER_DS_RPL)
    \<and> cp_reg s' ESP = of_nat (tk_kstack th) \<and> cp_eflags s' = EFLAGS_IF OR IOPL_USER
    \<and> user_walk (ex_vm st') (cp_cr3 s') (unat (cp_eip s')) = kernel_walk (ex_vm st) init_data"
proof -
  from exec_init_ok [OF ready alloc, of kdir old] exec have th: "tk_cr3 th = d" "r_esp (tk_regs th) = of_nat (tk_kstack th)"
    "tk_regs th = tk_regs (init_regs (old\<lparr>tk_kstack := new_stack + PROCESS_STACK_SIZE\<rparr>))"
    "sc_mem (ex_sched st') = store_bytes (sc_mem (ex_sched st)) (tk_kstack th) (context_bytes th)" by auto
  have r: "r_ds (tk_regs th) = USER_DS_RPL" "r_cs (tk_regs th) = USER_CS_RPL" "r_ss (tk_regs th) = USER_DS_RPL"
    "r_eip (tk_regs th) = init_eip" "r_eflags (tk_regs th) = EFLAGS_IF OR IOPL_USER"
    unfolding th(3) by (simp_all add: init_regs_def)
  have "holds (cp_mem s) (tk_kstack th) (context_bytes th)"
    using mem(1) by (simp add: same_bytes_def holds_def th(4) store_bytes_def length_context_bytes)
  moreover have v: "based (r_esp (tk_regs th)) (tk_kstack th)" using mem(3) by (simp add: based_def th(2) unat_of_nat_small_u32)
  ultimately have "next_task cur s b newth ck th (tk_kstack th)" using mem(2) place by (simp add: next_task_def)
  from task_switch_enters_user [OF call this kernel r(1-3), of a] obtain s' where
    s': "task_switch_to (fst (setup_GDT a)) cur s = Some s'" "cp_eip s' = init_eip" "cp_seg s' CS = USER_CS_RPL"
    "\<forall>g \<in> {SS, DS, ES, FS, GS}. cp_seg s' g = USER_DS_RPL" "cp_reg s' ESP = of_nat (tk_kstack th)"
    "cp_eflags s' = EFLAGS_IF OR IOPL_USER" "cp_cr3 s' = d"
    using r th by auto
  from image_walk [OF ready alloc image(1) exec(1), of 0] image(2)
  have "user_walk (ex_vm st') d (unat init_eip) = kernel_walk (ex_vm st) init_data" by simp
  then show ?thesis using s' by auto
qed

theorem init_process_starts_witness:
  "\<exists>st' th s'. exec_init demo_dir 0x3000 (demo_task 0 0) 0x8000 0x7000 64 0x500C 100 demo_exec = Some st'
    \<and> sc_tasks (ex_sched st') 0x3000 = Some th
    \<and> task_switch_to (fst (setup_GDT 0x6000)) 0x100 (demo_switch (sc_mem (ex_sched st')) th) = Some s'
    \<and> cp_eip s' = init_eip \<and> cp_seg s' CS = USER_CS_RPL
    \<and> user_walk (ex_vm st') (cp_cr3 s') (unat (cp_eip s')) = Some 0x50000C"
proof -
  have n: "image_pages 100 = 1" by (simp add: image_pages_def)
  note ready = demo_exec_ready [OF n]
  from exec_init_ok [OF ready, of "0x8000" "0x7000" demo_dir "demo_task 0 0"] obtain st' th where
    e: "exec_init demo_dir 0x3000 (demo_task 0 0) 0x8000 0x7000 64 0x500C 100 demo_exec = Some st'"
      "sc_tasks (ex_sched st') 0x3000 = Some th" "tk_kstack th = 0xBFC6" by auto
  have k: "kernel_walk (ex_vm demo_exec) 0x500C = Some 0x50000C" by (simp add: kernel_walk_def demo_exec_def Let_def)
  have cs: "rpl (cp_seg (demo_switch (sc_mem (ex_sched st')) th) CS) = 0" by (simp add: demo_switch_def demo_cpu_def rpl_def)
  have m: "same_bytes (cp_mem (demo_switch (sc_mem (ex_sched st')) th)) (sc_mem (ex_sched st')) (tk_kstack th) 58"
    unfolding same_bytes_def e(3)
  proof (intro allI impI)
    fix i :: nat assume "i < 58"
    then show "cp_mem (demo_switch (sc_mem (ex_sched st')) th) (0xBFC6 + i) = sc_mem (ex_sched st') (0xBFC6 + i)"
      using demo_switch_ok(3) [of "sc_mem (ex_sched st')" th, unfolded same_bytes_def, rule_format, of "8 + i"] by simp
  qed
  show ?thesis
    using init_process_starts [OF ready _ _ _ _ e(1,2) demo_switch_ok(1) m demo_switch_ok(2) _ _ _ _ _ cs demo_switch_ok(4), of "0x6000"] e n k
    by (auto simp: apart_def)
qed

end
