(* ===== verification/First_Thread.thy ===== *)
theory First_Thread
  imports Task_Switch
begin

text \<open>
  The start of the scheduler: \<^verbatim>\<open>arch_init_scheduler\<close> of \<^verbatim>\<open>arch/x86/kernel/task.c\<close>, which makes the first kernel thread out of
  the running code and jumps to its start routine, and the idle thread of \<^verbatim>\<open>kernel/kernel.c\<close>.
\<close>

section \<open>Model\<close>

definition main_regs :: "u32 \<Rightarrow> u32 \<Rightarrow> task \<Rightarrow> task" where
  "main_regs start_routine eflags t = t\<lparr>tk_regs := (tk_regs t)\<lparr>r_eip := start_routine, r_ds := KERNEL_DS, r_fs := KERNEL_DS,
     r_gs := KERNEL_DS, r_ss := KERNEL_DS, r_es := KERNEL_DS, r_cs := KERNEL_CS, r_eflags := eflags OR EFLAGS_IF\<rparr>\<rparr>"

text \<open>\<open>newth\<close>, \<open>kstack\<close> and \<open>node\<close> are the results of the allocations, \<open>old\<close> is what the memory of the task held, \<open>eflags\<close> and
  \<open>esp\<close> are the values of the registers when the code reads them. The result is the task to jump to, \<open>NULL\<close> when the
  function returns instead.\<close>

definition arch_init_scheduler ::
  "u32 \<Rightarrow> ptr \<Rightarrow> task \<Rightarrow> ptr \<Rightarrow> ptr \<Rightarrow> u32 \<Rightarrow> u32 \<Rightarrow> u32 \<Rightarrow> tss \<Rightarrow> sched \<Rightarrow> (ptr \<times> tss \<times> sched) option" where
  "arch_init_scheduler kdir newth old kstack node start_routine eflags esp task_tss st =
     (if newth = NULL then Some (NULL, task_tss, st)
      else if kstack = NULL then Some (NULL, task_tss, st)
      else do {
        let task_tss1 = task_tss\<lparr>tss_esp0 := of_nat kstack + of_nat PROCESS_STACK_SIZE\<rparr>;
        let t = main_regs start_routine eflags (old\<lparr>tk_state := TASK_RUNNING, tk_priority := 0, tk_pid := KERNEL_PID,
                  tk_return_code := 0, tk_wait_queue := 0, tk_cr3 := kdir\<rparr>);
        (r, head, ring) \<leftarrow> c_llist_add (sc_ring st) (sc_head st) newth node;
        let t1 = t\<lparr>tk_regs := (tk_regs t)\<lparr>r_esp := esp\<rparr>, tk_kstack := unat esp\<rparr>;
        Some (newth, task_tss1, st\<lparr>sc_ring := ring, sc_head := head, sc_cur := head, sc_saved := newth,
                sc_tasks := (sc_tasks st)(newth \<mapsto> t1)\<rparr>)
      })"

text \<open>The loop of \<^verbatim>\<open>idle_thread\<close>: \<open>thread_done\<close> is looked at again and again, \<open>others\<close> is what happens in between.\<close>

partial_function (option) idle_loop :: "('s \<Rightarrow> int) \<Rightarrow> ('s \<Rightarrow> 's) \<Rightarrow> 's \<Rightarrow> 's option" where
  "idle_loop thread_done others s = (if thread_done s = 0 then idle_loop thread_done others (others s) else Some s)"

definition idle_thread :: "('s \<Rightarrow> int) \<Rightarrow> ('s \<Rightarrow> 's) \<Rightarrow> ('s \<Rightarrow> sched) \<Rightarrow> 's \<Rightarrow> sched option" where
  "idle_thread thread_done others sched_of s = do {
     s1 \<leftarrow> idle_loop thread_done others s;
     kernel_thread_exit 0 (sched_of s1)
   }"

section \<open>The first thread\<close>

lemma arch_init_scheduler_ok:
  assumes "sc_head st = NULL" and new: "newth \<noteq> NULL" "kstack \<noteq> NULL" "node \<noteq> NULL" "node \<notin> dom (sc_ring st)"
  shows "\<exists>st' th. arch_init_scheduler kdir newth old kstack node start eflags esp tss st
      = Some (newth, tss\<lparr>tss_esp0 := of_nat kstack + of_nat PROCESS_STACK_SIZE\<rparr>, st')
    \<and> runq st' [(node, newth)] 0 \<and> sc_tasks st' newth = Some th \<and> tk_state th = TASK_RUNNING
    \<and> r_eip (tk_regs th) = start \<and> r_esp (tk_regs th) = esp \<and> r_cs (tk_regs th) = KERNEL_CS
    \<and> r_eflags (tk_regs th) = eflags OR EFLAGS_IF \<and> tk_cr3 th = kdir"
proof -
  have "is_cllist (sc_ring st) (sc_head st) []" using assms(1) by (simp add: is_cllist_def)
  from c_llist_add_ok [OF this new(3,4), of newth] obtain l h where
    "c_llist_add (sc_ring st) (sc_head st) newth node = Some (1, l, h)" "is_cllist h l [(node, newth)]" by auto
  moreover from this have "l = node" by (auto simp: is_cllist_def)
  ultimately show ?thesis using new by (auto simp: arch_init_scheduler_def main_regs_def runq_def Let_def)
qed

text \<open>The kernel becomes a thread: on an empty list of tasks and with memory for the task, \<open>arch_init_scheduler\<close> makes a
  run queue of one running task and tells the processor its kernel stack; the jump to that task in the assembly
  routine continues at the start routine on the stack in use, in the kernel's code segment and with interrupts enabled.\<close>
theorem first_thread_starts:
  assumes empty: "sc_head st = NULL" and new: "newth \<noteq> NULL" "kstack \<noteq> NULL" "node \<noteq> NULL" "node \<notin> dom (sc_ring st)"
    and init: "arch_init_scheduler kdir newth old kstack node start eflags esp tss st = Some (t, tss', st')" "sc_tasks st' newth = Some th"
    and sp: "cp_reg s ESP = w" "based w b" and arg: "load32 (cp_mem s) (b + 4) = of_nat newth" "based (of_nat newth) newth"
    and mem: "tss_at (cp_mem s) newth th" and esp: "esp = v + 12" "based v vb" and cs: "cp_seg s CS = KERNEL_CS"
  shows "t = newth \<and> tss_esp0 tss' = of_nat kstack + 16384 \<and> runq st' [(node, newth)] 0
    \<and> (\<exists>s'. initial_task (fst (setup_GDT a)) s = Some s' \<and> cp_eip s' = start \<and> cp_reg s' ESP = esp
        \<and> cp_seg s' CS = KERNEL_CS \<and> bit (cp_eflags s') 9)"
proof -
  from arch_init_scheduler_ok [OF empty new, of kdir old start eflags esp tss] init
  have i: "t = newth" "tss_esp0 tss' = of_nat kstack + 16384" "runq st' [(node, newth)] 0"
    and th: "r_eip (tk_regs th) = start" "r_esp (tk_regs th) = esp" "r_eflags (tk_regs th) = eflags OR EFLAGS_IF" by auto
  have "r_esp (tk_regs th) = v + 12" using th(2) esp(1) by simp
  from initial_task_starts [OF sp arg mem this esp(2) cs, of a] obtain s' where
    "initial_task (fst (setup_GDT a)) s = Some s'" "cp_eip s' = start" "cp_eflags s' = eflags OR EFLAGS_IF" "cp_reg s' ESP = esp"
    "cp_seg s' = cp_seg s" using th by auto
  moreover have "bit (eflags OR EFLAGS_IF) 9" by (simp add: bit_or_iff)
  ultimately show ?thesis using i cs by simp
qed

theorem first_thread_starts_witness:
  "\<exists>tss' st' th s'. arch_init_scheduler 0x9000 0x3000 (demo_task 0 0) 0x8000 64 0x4000 2 0x700C (fst (snd (setup_GDT 0x6000)))
      ((demo_sched 1 0 0)\<lparr>sc_ring := Map.empty, sc_head := NULL, sc_tasks := Map.empty\<rparr>) = Some (0x3000, tss', st')
    \<and> sc_tasks st' 0x3000 = Some th \<and> initial_task (fst (setup_GDT 0x6000)) (demo_switch (\<lambda>_. 0) th) = Some s'
    \<and> cp_eip s' = 0x4000 \<and> bit (cp_eflags s') 9"
proof -
  let ?st = "(demo_sched 1 0 0)\<lparr>sc_ring := Map.empty, sc_head := NULL, sc_tasks := Map.empty\<rparr>"
  have e: "sc_head ?st = NULL" "64 \<notin> dom (sc_ring ?st)" by simp_all
  from arch_init_scheduler_ok [OF e(1) _ _ _ e(2), of "0x3000" "0x8000" "0x9000" "demo_task 0 0" "0x4000" 2 "0x700C" "fst (snd (setup_GDT 0x6000))"]
  obtain st' th where i: "arch_init_scheduler 0x9000 0x3000 (demo_task 0 0) 0x8000 64 0x4000 2 0x700C (fst (snd (setup_GDT 0x6000))) ?st
      = Some (0x3000, (fst (snd (setup_GDT 0x6000)))\<lparr>tss_esp0 := of_nat 0x8000 + of_nat 16384\<rparr>, st')" "sc_tasks st' 0x3000 = Some th" by auto
  have m: "cp_reg (demo_switch (\<lambda>_. 0) th) ESP = 0x1080" "load32 (cp_mem (demo_switch (\<lambda>_. 0) th)) (0x1080 + 4) = of_nat 0x3000"
    "cp_seg (demo_switch (\<lambda>_. 0) th) CS = KERNEL_CS"
    by (simp_all add: demo_switch_def demo_cpu_def load_store_apart apart_def)
  show ?thesis
    using first_thread_starts [OF e(1) _ _ _ e(2) i m(1) _ m(2) _ demo_switch_ok(2) _ _ m(3), where v = "0x7000" and vb = "0x7000" and a = "0x6000"] i
    by (auto simp: based_def)
qed

section \<open>The idle thread\<close>

text \<open>\<^verbatim>\<open>thread_done\<close> is never assigned, so that the idle thread never ends.\<close>

lemma idle_loop_needs_done:
  assumes run: "idle_loop thread_done others s = Some s'"
  shows "(\<forall>s. thread_done s = 0 \<longrightarrow> thread_done (others s) = 0) \<longrightarrow> thread_done s \<noteq> 0"
    (is "?P thread_done others s s'")
proof (rule idle_loop.raw_induct [where P = ?P, OF _ run])
  fix loop d nxt x y
  assume IH: "\<And>d nxt x y. loop d nxt x = Some y \<Longrightarrow> ?P d nxt x y"
    and body: "(if d x = 0 then loop d nxt (nxt x) else Some x) = Some y"
  show "?P d nxt x y" using IH [of d nxt "nxt x" y] body by (auto split: if_splits)
qed

lemma idle_thread_never_ends:
  assumes "thread_done s = 0" and "\<And>s. thread_done s = 0 \<Longrightarrow> thread_done (others s) = 0"
  shows "idle_thread thread_done others sched_of s = None"
  using idle_loop_needs_done [of thread_done others s] assms
  by (cases "idle_loop thread_done others s") (auto simp: idle_thread_def)

end
