(* ===== verification/Kernel_Main.thy ===== *)
theory Kernel_Main
  imports Ata_Init Exec_Init First_Thread Vfs Cmdline Boot
begin

text \<open>
  The second stage, \<^verbatim>\<open>kernel/kernel.c\<close>: the main kernel thread, which starts the services, reads the command line, mounts
  the root file system, loads the init program into memory and makes a process of it. The state puts together those of
  the components. The results of allocations, the addresses of functions and the operations reached through function
  pointers are fields of an environment.
\<close>

section \<open>State\<close>

record 'h kernel =
  kn_disks :: "'h disks"
  kn_cmdline :: cmdline_state
  kn_vfs :: vfs
  kn_pages :: page_stack
  kn_vm :: vm
  kn_regions :: "ptr \<rightharpoonup> mregion"
  kn_dirs :: "ptr \<rightharpoonup> pagedir"

text \<open>Scheduler and memory are parts of the state of the console.\<close>

abbreviation (input) kn_tty :: "'h kernel \<Rightarrow> 'h tty" where "kn_tty st \<equiv> dk_tty (kn_disks st)"
abbreviation (input) kn_sched :: "'h kernel \<Rightarrow> sched" where "kn_sched st \<equiv> kb_sched (tt_kbd (kn_tty st))"
abbreviation (input) kn_mem :: "'h kernel \<Rightarrow> mem" where "kn_mem st \<equiv> vd_mem (tt_video (kn_tty st))"

definition set_tty :: "'h tty \<Rightarrow> 'h kernel \<Rightarrow> 'h kernel" where
  "set_tty t st = st\<lparr>kn_disks := (kn_disks st)\<lparr>dk_tty := t\<rparr>\<rparr>"

definition set_sched :: "sched \<Rightarrow> 'h kernel \<Rightarrow> 'h kernel" where
  "set_sched sc st = set_tty ((kn_tty st)\<lparr>tt_kbd := (tt_kbd (kn_tty st))\<lparr>kb_sched := sc\<rparr>\<rparr>) st"

definition set_mem :: "mem \<Rightarrow> 'h kernel \<Rightarrow> 'h kernel" where
  "set_mem m st = set_tty ((kn_tty st)\<lparr>tt_video := (tt_video (kn_tty st))\<lparr>vd_mem := m\<rparr>\<rparr>) st"

record 'h main_env =
  me_m :: "'h machine"
  me_kerneldir :: pagedir
  me_force_exit :: u32
  me_idle :: u32
  me_idle_mem :: "ptr \<times> task \<times> ptr \<times> ptr"
  me_fs_mem :: "ptr \<times> ptr \<times> ptr \<times> (nat \<Rightarrow> vfs_inode) \<times> ptr"
  me_ata_sleep :: "int \<Rightarrow> 'h ata \<Rightarrow> 'h ata option"
  me_ata_rq :: "ptr \<times> ptr \<times> ptr"
  me_ata_irqs :: "(ptr \<times> irq_handler \<times> ptr) \<times> (ptr \<times> irq_handler \<times> ptr)"
  me_ata_mem :: "(ptr \<times> ptr \<times> ptr \<times> ptr \<times> (nat \<Rightarrow> partition_st)) \<times> (ptr \<times> ptr \<times> ptr \<times> ptr \<times> (nat \<Rightarrow> partition_st))"
  me_ata_handlers :: "ptr \<times> ptr"
  me_ata_drvs :: "ptr \<times> ptr"
  me_ata_ops :: ptr
  me_old_rdev :: "byte list"
  me_ops :: "ptr \<Rightarrow> vfs_sb_ops"
  me_types :: "ptr \<Rightarrow> vfs_fs_type"
  me_vfs_sleep :: "int \<Rightarrow> vfs \<Rightarrow> vfs option"
  me_root_sb :: ptr
  me_blocks :: ptr
  me_init_mem :: "ptr \<times> task \<times> ptr \<times> ptr \<times> ptr"

abbreviation (input) SERIAL_CONSOLE_BAUD :: int where "SERIAL_CONSOLE_BAUD \<equiv> 115200"

section \<open>The main thread\<close>

definition kn_print :: "'h main_env \<Rightarrow> byte list \<Rightarrow> arg list \<Rightarrow> 'h kernel \<Rightarrow> 'h kernel option" where
  "kn_print e format args st = do { t \<leftarrow> kprintf_to (me_m e) format args (kn_tty st); Some (set_tty t st) }"

definition kn_panic :: "'h main_env \<Rightarrow> byte list \<Rightarrow> 'h kernel \<Rightarrow> 'h kernel outcome option" where
  "kn_panic e msg st = do {
     r \<leftarrow> panic (me_m e) msg [] (kn_tty st);
     (case r of Returned t \<Rightarrow> Some (Returned (set_tty t st)) | Halted t \<Rightarrow> Some (Halted (set_tty t st)))
   }"

text \<open>The sequencing of steps that may halt the processor.\<close>

definition bind_outcome :: "'a outcome option \<Rightarrow> ('a \<Rightarrow> 'a outcome option) \<Rightarrow> 'a outcome option" where
  "bind_outcome r f = (case r of None \<Rightarrow> None | Some (Halted s) \<Rightarrow> Some (Halted s) | Some (Returned s) \<Rightarrow> f s)"

definition start_services :: "'h main_env \<Rightarrow> 'h kernel \<Rightarrow> 'h kernel outcome option" where
  "start_services e st =
     (case me_idle_mem e of (newth, old, kstack, node) \<Rightarrow> case me_fs_mem e of (inodes, htable, files, raw, ext2_fs_t) \<Rightarrow> do {
        (idle, sc) \<leftarrow> kernel_thread_create (pd_dir_phy_addr (me_kerneldir e)) (me_force_exit e) newth old kstack node 0 (me_idle e) 0 (kn_sched st);
        vfs \<leftarrow> register_all_fs_types (kn_vfs st) inodes htable files raw ext2_fs_t;
        let st1 = set_sched (init_pids sc) (st\<lparr>kn_vfs := vfs\<rparr>);
        r \<leftarrow> init_ata_generic (me_m e) (me_ata_sleep e) (me_ata_rq e) (fst (me_ata_irqs e)) (snd (me_ata_irqs e)) (fst (me_ata_mem e))
               (snd (me_ata_mem e)) (fst (me_ata_handlers e)) (snd (me_ata_handlers e)) (fst (me_ata_drvs e)) (snd (me_ata_drvs e))
               (me_ata_ops e) (kn_disks st1);
        (case r of Returned d \<Rightarrow> Some (Returned (st1\<lparr>kn_disks := d\<rparr>)) | Halted d \<Rightarrow> Some (Halted (st1\<lparr>kn_disks := d\<rparr>)))
      })"

definition read_cmdline :: "'h main_env \<Rightarrow> byte list \<Rightarrow> 'h kernel \<Rightarrow> 'h kernel outcome option" where
  "read_cmdline e cmdline st = do {
     st1 \<leftarrow> kn_print e (KERN_INFO @ text_of ''Kernel command line: %s'' @ [10]) [AStr cmdline] st;
     (n, cl) \<leftarrow> parse_cmdline cmdline (kn_cmdline st1);
     Some (Returned (st1\<lparr>kn_cmdline := cl\<rparr>))
   }"

text \<open>The value of an argument: the inner \<open>None\<close> is \<^verbatim>\<open>NULL\<close>.\<close>

definition cmd_value :: "string \<Rightarrow> cmdline_state \<Rightarrow> byte list option option" where
  "cmd_value key cl = map_option (map_option (str_at (cl_str cl))) (cmdline_get_value (text_of key) cl)"

definition setup_console :: "'h main_env \<Rightarrow> 'h kernel \<Rightarrow> 'h kernel outcome option" where
  "setup_console e st = do {
     v \<leftarrow> cmd_value ''console'' (kn_cmdline st);
     if v = Some (text_of ''ttyS0'') then do {
       (r, i, h) \<leftarrow> serial_init (me_m e) (tt_serial (kn_tty st)) SERIAL_CONSOLE_BAUD (kb_hw (tt_kbd (kn_tty st)));
       let st1 = set_tty ((kn_tty st)\<lparr>tt_serial := i, tt_kbd := (tt_kbd (kn_tty st))\<lparr>kb_hw := h\<rparr>\<rparr>) st;
       if r \<noteq> 0 then kn_panic e (text_of ''Failed to init serial driver!'') st1
       else map_option Returned (kn_print e (text_of ''Serial console initialized on ttyS0!'' @ [10]) []
              (set_tty ((kn_tty st1)\<lparr>tt_over_serial := True\<rparr>) st1))
     } else Some (Returned st)
   }"

definition mount_root :: "'h main_env \<Rightarrow> 'h kernel \<Rightarrow> 'h kernel outcome option" where
  "mount_root e st = do {
     dev \<leftarrow> root_device (me_old_rdev e) (kn_cmdline st);
     (case dev of
        Panic \<Rightarrow> kn_panic e (text_of ''Kernel command line root argument bad formated.'') st
      | Ok rootdev \<Rightarrow> do {
          (r, v) \<leftarrow> vfs_mount_root (me_ops e) (me_types e) (me_vfs_sleep e) (me_root_sb e) (kn_vfs st) rootdev;
          if r = 0 then kn_panic e (text_of ''VFS ERROR: Could not mount root file system.'') (st\<lparr>kn_vfs := v\<rparr>)
          else Some (Returned (st\<lparr>kn_vfs := v\<rparr>))
        })
   }"

text \<open>The number of blocks of the file, and the loop that copies them, with \<open>n\<close> of them left; \<open>pos\<close> is the position in the file
  and \<open>blocks\<close> the memory. A block that the file system cannot read would be copied from address 0.\<close>

definition file_blocks :: "u32 \<Rightarrow> u32 \<Rightarrow> u32 option" where
  "file_blocks size0 bs =
     (if bs = 0 then None else Some (if size0 mod bs \<noteq> 0 then size0 div bs + 1 else size0 div bs))"

fun load_blocks :: "(ptr \<Rightarrow> vfs_sb_ops) \<Rightarrow> vfs \<Rightarrow> ptr \<Rightarrow> ptr \<Rightarrow> u32 \<Rightarrow> nat \<Rightarrow> mem \<Rightarrow> mem option" where
  "load_blocks ops vfs arq blocks pos 0 m = Some m"
| "load_blocks ops vfs arq blocks pos (Suc n) m = do {
     bk \<leftarrow> vfs_bmap ops vfs arq pos;
     i \<leftarrow> vf_inodes vfs arq;
     s \<leftarrow> vf_sb vfs (vi_sb i);
     blk \<leftarrow> get_fs_block (ops (s_sb_op s)) (vi_sb i) (blk_number bk) vfs;
     bytes \<leftarrow> take_bytes blk 0 (unat (s_log_block_size s));
     load_blocks ops vfs arq blocks (pos + s_log_block_size s) n (store_bytes m (blocks + unat pos) bytes)
   }"

definition load_init :: "'h main_env \<Rightarrow> 'h kernel \<Rightarrow> (u32 \<times> 'h kernel) outcome option" where
  "load_init e st = do {
     v \<leftarrow> cmd_value ''init'' (kn_cmdline st);
     let path = (case v of None \<Rightarrow> text_of ''/sbin/init'' | Some p \<Rightarrow> p);
     st1 \<leftarrow> kn_print e (text_of ''Loading %s...'' @ [10]) [AStr path] st;
     (arq, vfs) \<leftarrow> vfs_namei (me_ops e) (me_vfs_sleep e) (kn_vfs st1) path;
     let st2 = st1\<lparr>kn_vfs := vfs\<rparr>;
     if arq = NULL then do {
       st3 \<leftarrow> kn_print e (KERN_DEBUG @ text_of ''%s: not found!'' @ [10]) [AStr path] st2;
       r \<leftarrow> kn_panic e (text_of ''init file not found!'' @ [10]) st3;
       (case r of Returned s \<Rightarrow> Some (Returned (0, s)) | Halted s \<Rightarrow> Some (Halted (0, s)))
     } else do {
       i \<leftarrow> vf_inodes vfs arq;
       s \<leftarrow> vf_sb vfs (vi_sb i);
       fblocks \<leftarrow> file_blocks (i_size i) (s_log_block_size s);
       m \<leftarrow> load_blocks (me_ops e) vfs arq (me_blocks e) 0 (unat fblocks) (kn_mem st2);
       Some (Returned (i_size i, set_mem m st2))
     }
   }"

definition run_init :: "'h main_env \<Rightarrow> u32 \<Rightarrow> 'h kernel \<Rightarrow> 'h kernel option" where
  "run_init e size0 st =
     (case me_init_mem e of (newth, old, new_stack, pg_pdir, node) \<Rightarrow> do {
        x \<leftarrow> exec_init (me_kerneldir e) newth old new_stack pg_pdir node (me_blocks e) size0
               \<lparr>ex_sched = kn_sched st, ex_pages = kn_pages st, ex_vm = kn_vm st, ex_regions = kn_regions st, ex_dirs = kn_dirs st\<rparr>;
        Some (set_sched (ex_sched x) (st\<lparr>kn_pages := ex_pages x, kn_vm := ex_vm x, kn_regions := ex_regions x, kn_dirs := ex_dirs x\<rparr>))
      })"

text \<open>Everything before the endless loop.\<close>

definition kernel_main_thread :: "'h main_env \<Rightarrow> byte list \<Rightarrow> 'h kernel \<Rightarrow> 'h kernel outcome option" where
  "kernel_main_thread e cmdline st =
     bind_outcome (bind_outcome (bind_outcome (bind_outcome (start_services e st)
       (read_cmdline e cmdline)) (setup_console e)) (mount_root e))
       (\<lambda>st1. case load_init e st1 of
          None \<Rightarrow> None
        | Some (Halted (n, s)) \<Rightarrow> Some (Halted s)
        | Some (Returned (n, s)) \<Rightarrow> map_option Returned (run_init e n s))"

text \<open>A round of the endless loop: five seconds of waiting and a message. \<open>tick\<close> is what happens to the machine meanwhile.\<close>

definition main_round :: "'h main_env \<Rightarrow> ('h \<Rightarrow> 'h) \<Rightarrow> u32 \<Rightarrow> 'h kernel \<Rightarrow> 'h kernel option" where
  "main_round e tick bogomips st =
     kn_print e (text_of ''Kernel thread: idle'' @ [10]) []
       (set_tty ((kn_tty st)\<lparr>tt_kbd := (tt_kbd (kn_tty st))\<lparr>kb_hw := mdelay tick bogomips 5000 (kb_hw (tt_kbd (kn_tty st)))\<rparr>\<rparr>) st)"

section \<open>Loading the program\<close>

lemma store_bytes_append: "store_bytes (store_bytes m a xs) (a + length xs) ys = store_bytes m a (xs @ ys)"
  by (rule ext) (auto simp: store_bytes_def nth_append)

text \<open>The blocks of the file that are reached directly from its inode, from block \<open>j\<close> on.\<close>

definition file_block :: "(ptr \<Rightarrow> vfs_sb_ops) \<Rightarrow> vfs \<Rightarrow> vfs_inode \<Rightarrow> vfs_superblock \<Rightarrow> (nat \<Rightarrow> byte list) \<Rightarrow> nat \<Rightarrow> bool" where
  "file_block ops vfs i s data j \<longleftrightarrow> j < 12 \<and> length (data j) = unat (s_log_block_size s)
     \<and> get_fs_block (ops (s_sb_op s)) (vi_sb i) (i_block i ! j) vfs = Some (data j)"

lemma load_blocks_ok:
  assumes f: "vf_inodes vfs arq = Some i" "vf_sb vfs (vi_sb i) = Some s" and bs: "unat (s_log_block_size s) = bs" "0 < bs"
    and "\<forall>j \<in> {p..<p + n}. file_block ops vfs i s data j" and "(p + n) * bs < 2 ^ 32"
  shows "load_blocks ops vfs arq blocks (of_nat (p * bs)) n m = Some (store_bytes m (blocks + p * bs) (concat (map data [p..<p + n])))"
  using assms(5,6)
proof (induction n arbitrary: p m)
  case 0
  then show ?case by (simp add: store_bytes_Nil)
next
  case (Suc n)
  have b: "file_block ops vfs i s data p" using Suc.prems by simp
  have "p * bs \<le> (p + Suc n) * bs" by (intro mult_le_mono1) simp
  then have u: "unat (of_nat (p * bs) :: u32) = p * bs" using Suc.prems(2) by (intro unat_of_nat_small_u32) simp
  have "0 < s_log_block_size s" using bs by (simp add: word_less_nat_alt)
  with vfs_bmap_blocks [OF f refl, of "of_nat (p * bs)" ops] b u bs obtain bk where
    bk: "vfs_bmap ops vfs arq (of_nat (p * bs)) = Some bk" "blk_number bk = i_block i ! p" by (auto simp: file_block_def)
  have pos: "(of_nat (p * bs) :: u32) + s_log_block_size s = of_nat ((p + 1) * bs)"
    by (simp add: bs(1) [symmetric] algebra_simps)
  have IH: "load_blocks ops vfs arq blocks (of_nat ((p + 1) * bs)) n m'
      = Some (store_bytes m' (blocks + (p + 1) * bs) (concat (map data [p + 1..<p + 1 + n])))" for m'
    using Suc.prems by (intro Suc.IH) auto
  have "load_blocks ops vfs arq blocks (of_nat (p * bs)) (Suc n) m
      = load_blocks ops vfs arq blocks (of_nat ((p + 1) * bs)) n (store_bytes m (blocks + p * bs) (data p))"
    using f bk b bs u pos by (simp add: file_block_def take_bytes_def add.commute del: of_nat_mult)
  also have "\<dots> = Some (store_bytes (store_bytes m (blocks + p * bs) (data p)) (blocks + p * bs + length (data p)) (concat (map data [p + 1..<p + 1 + n])))"
  proof -
    have "blocks + p * bs + length (data p) = blocks + (p + 1) * bs" using b bs(1) by (simp add: file_block_def)
    then show ?thesis by (simp only: IH)
  qed
  finally show ?case by (simp add: store_bytes_append upt_conv_Cons del: upt_Suc)
qed

lemma file_blocks_ok:
  assumes "unat bs = b" "0 < b"
  shows "\<exists>n. file_blocks size0 bs = Some n \<and> unat size0 \<le> unat n * b"
proof -
  have nz: "bs \<noteq> 0" using assms by auto
  have d: "unat (size0 div bs) = unat size0 div b" "unat (size0 mod bs) = unat size0 mod b"
    using assms(1) by (simp_all add: unat_div unat_mod)
  have dm: "unat size0 = unat size0 div b * b + unat size0 mod b" "unat size0 mod b < b" using assms(2) by simp_all
  show ?thesis
  proof (cases "size0 mod bs = 0")
    case True
    then have "unat size0 mod b = 0" using d(2) by simp
    then have "unat size0 = unat size0 div b * b" using dm(1) by simp
    then show ?thesis using True nz d(1) by (auto simp: file_blocks_def mult_le_mono1)
  next
    case False
    then have "unat size0 mod b \<noteq> 0" using d(2) by (metis unat_eq_0)
    then have "unat size0 div b < unat size0" if "b \<noteq> 1" using that assms(2) dm by (intro div_less_dividend) (auto intro: gr0I)
    moreover have "b = 1 \<Longrightarrow> unat size0 mod b = 0" by simp
    ultimately have "unat (size0 div bs) + 1 < 2 ^ 32"
      using \<open>unat size0 mod b \<noteq> 0\<close> d(1) unsigned_less [of size0, where ?'a = nat] by fastforce
    then have "unat (size0 div bs + 1) = unat size0 div b + 1" using d(1) by (simp add: unat_word_ariths(1))
    moreover have "unat size0 \<le> b + unat size0 div b * b" using dm by linarith
    ultimately show ?thesis using False nz by (auto simp: file_blocks_def)
  qed
qed

lemma loading_message:
  assumes "\<not> tt_over_serial st" "length fname < 900"
  shows "\<exists>v. kprintf_to m (text_of ''Loading %s...'' @ [10]) [AStr fname] st = Some (st\<lparr>tt_video := v\<rparr>)"
proof -
  have "vsprintf_loop (text_of ''Loading '' @ [37, 115] @ [46, 46, 46, 10]) 0 [AStr fname] [] = Some (text_of ''Loading '' @ fname @ [46, 46, 46, 10])"
    by (intro vsprintf_around_string) (simp_all add: text_of_def)
  then have "\<exists>t. kprintf_to m (text_of ''Loading '' @ [37, 115] @ [46, 46, 46, 10]) [AStr fname] st = Some (st\<lparr>tt_video := kprint t (tt_video st)\<rparr>)"
    by (rule shown) (use assms in \<open>simp_all add: text_of_def\<close>)
  then show ?thesis by (auto simp: text_of_def)
qed

lemma load_init_ok:
  assumes cmd: "cmd_value ''init'' (kn_cmdline st) = Some v" "fname = (case v of None \<Rightarrow> text_of ''/sbin/init'' | Some p \<Rightarrow> p)" "length fname < 900"
    and screen: "\<not> tt_over_serial (kn_tty st)"
    and namei: "vfs_namei (me_ops e) (me_vfs_sleep e) (kn_vfs st) fname = Some (arq, vfs)" "arq \<noteq> NULL"
    and inode: "vf_inodes vfs arq = Some i" "vf_sb vfs (vi_sb i) = Some s" "0 < s_log_block_size s"
      "file_blocks (i_size i) (s_log_block_size s) = Some n" "unat n * unat (s_log_block_size s) < 2 ^ 32"
      "\<forall>j < unat n. file_block (me_ops e) vfs i s data j"
  shows "\<exists>t m. load_init e st = Some (Returned (i_size i, set_mem m ((set_tty t st)\<lparr>kn_vfs := vfs\<rparr>)))
    \<and> tt_kbd t = tt_kbd (kn_tty st)
    \<and> (\<forall>k < unat n * unat (s_log_block_size s). m (me_blocks e + k) = concat (map data [0..<unat n]) ! k)"
proof -
  let ?b = "unat (s_log_block_size s)"
  obtain w where w: "kprintf_to (me_m e) (text_of ''Loading %s...'' @ [10]) [AStr fname] (kn_tty st) = Some ((kn_tty st)\<lparr>tt_video := w\<rparr>)"
    using loading_message [OF screen cmd(3)] by blast
  define st1 where "st1 = set_tty ((kn_tty st)\<lparr>tt_video := w\<rparr>) st"
  have p: "kn_print e (text_of ''Loading %s...'' @ [10]) [AStr fname] st = Some st1" using w by (simp add: kn_print_def st1_def)
  have "\<forall>j \<in> {0..<0 + unat n}. file_block (me_ops e) vfs i s data j" using inode(6) by simp
  from load_blocks_ok [OF inode(1,2) refl _ this] inode(3,5)
  have l: "load_blocks (me_ops e) vfs arq (me_blocks e) 0 (unat n) m = Some (store_bytes m (me_blocks e) (concat (map data [0..<unat n])))" for m
    by (simp add: word_less_nat_alt)
  have "length (concat (map data [0..<unat n])) = unat n * ?b"
  proof -
    have "map length (map data [0..<unat n]) = map (\<lambda>_. ?b) [0..<unat n]" using inode(6) by (simp add: file_block_def)
    then show ?thesis by (simp add: length_concat sum_list_triv del: map_map)
  qed
  moreover have "vfs_namei (me_ops e) (me_vfs_sleep e) (kn_vfs st1) fname = Some (arq, vfs)" using namei by (simp add: st1_def set_tty_def)
  ultimately have "load_init e st = Some (Returned (i_size i, set_mem (store_bytes (kn_mem st1) (me_blocks e) (concat (map data [0..<unat n]))) (st1\<lparr>kn_vfs := vfs\<rparr>)))"
    and "\<forall>k < unat n * ?b. store_bytes (kn_mem st1) (me_blocks e) (concat (map data [0..<unat n])) (me_blocks e + k) = concat (map data [0..<unat n]) ! k"
    unfolding load_init_def using cmd(1,2) p namei(2) inode(1,2,4) l by (simp_all add: store_bytes_hit)
  then show ?thesis by (intro exI [of _ "(kn_tty st)\<lparr>tt_video := w\<rparr>"] exI conjI) (auto simp: st1_def set_tty_def)
qed

section \<open>Properties\<close>

text \<open>The state that \<open>exec_init\<close> works on.\<close>

definition exec_of :: "'h kernel \<Rightarrow> exec_state" where
  "exec_of st = \<lparr>ex_sched = kn_sched st, ex_pages = kn_pages st, ex_vm = kn_vm st, ex_regions = kn_regions st, ex_dirs = kn_dirs st\<rparr>"

text \<open>The number of pages counted for the image is that of the file without the 12 bytes in front of it in the memory: the
  whole file lies on those pages only if its last page has room for them.\<close>

definition image_fits :: "u32 \<Rightarrow> bool" where
  "image_fits size0 \<longleftrightarrow> 0 < unat size0 mod 4096 \<and> unat size0 mod 4096 \<le> 4084"

lemma image_fits_pages: "image_fits size0 \<Longrightarrow> k < unat size0 \<Longrightarrow> 12 + k < 4096 * image_pages size0"
proof -
  assume f: "image_fits size0" "k < unat size0"
  have "image_pages size0 = unat size0 div 4096 + 1" using f(1) by (simp add: image_fits_def image_pages_def Let_def)
  moreover have "unat size0 \<le> 4096 * (unat size0 div 4096) + 4084"
    using f(1) mult_div_mod_eq [of 4096 "unat size0"] unfolding image_fits_def by linarith
  ultimately show ?thesis using f(2) by simp
qed

text \<open>C1: The init program from the file system to its address space. When the path of the command line, or the default,
  names a file of at most twelve blocks, the ones that its inode names directly, and there is memory for the process, then
  the main thread loads the file and makes the process. A byte of the file that lies on the pages that are counted for the
  image (every byte, if the last page has room for the header of 12 bytes) is the byte that the process finds, in
  user mode, at its place behind the start address: the kernel copied it to its memory, and both addresses lead to the
  same physical one. Otherwise the last bytes, at most 12, are not covered.\<close>
theorem init_program_in_place:
  assumes cmd: "cmd_value ''init'' (kn_cmdline st) = Some v" "fname = (case v of None \<Rightarrow> text_of ''/sbin/init'' | Some p \<Rightarrow> p)" "length fname < 900"
    and screen: "\<not> tt_over_serial (kn_tty st)"
    and namei: "vfs_namei (me_ops e) (me_vfs_sleep e) (kn_vfs st) fname = Some (arq, vfs)" "arq \<noteq> NULL"
    and inode: "vf_inodes vfs arq = Some i" "vf_sb vfs (vi_sb i) = Some s" "0 < s_log_block_size s"
      "file_blocks (i_size i) (s_log_block_size s) = Some n" "unat n * unat (s_log_block_size s) < 2 ^ 32"
      "\<forall>j < unat n. file_block (me_ops e) vfs i s data j"
    and proc: "me_init_mem e = (newth, old, new_stack, pg_pdir, node)" "new_stack \<noteq> NULL" "pg_pdir \<noteq> NULL"
      "init_ready (exec_of st) ns q newth node p d (me_blocks e) r (i_size i)" "me_blocks e = 4096 * unat (mr_initial_addr r) + 12"
  shows "\<exists>st1 st2. load_init e st = Some (Returned (i_size i, st1)) \<and> run_init e (i_size i) st1 = Some st2
    \<and> (\<forall>k < unat (i_size i). image_fits (i_size i) \<or> 12 + k < 4096 * image_pages (i_size i) \<longrightarrow>
        kn_mem st1 (me_blocks e + k) = concat (map data [0..<unat n]) ! k
        \<and> user_walk (kn_vm st2) d (unat init_eip + k) = kernel_walk (kn_vm st) (me_blocks e + k))
    \<and> runq (kn_sched st2) (ns @ [(node, newth)]) q"
proof -
  let ?b = "unat (s_log_block_size s)"
  from load_init_ok [OF cmd screen namei inode] obtain t m where
    l: "load_init e st = Some (Returned (i_size i, set_mem m ((set_tty t st)\<lparr>kn_vfs := vfs\<rparr>)))" "tt_kbd t = tt_kbd (kn_tty st)"
      "\<And>k. k < unat n * ?b \<Longrightarrow> m (me_blocks e + k) = concat (map data [0..<unat n]) ! k" by blast
  let ?st1 = "set_mem m ((set_tty t st)\<lparr>kn_vfs := vfs\<rparr>)"
  have e: "exec_of ?st1 = exec_of st" using l(2) by (simp add: exec_of_def set_mem_def set_tty_def)
  from exec_init_ok [OF proc(4,2,3), of "me_kerneldir e" old] obtain x where
    x: "exec_init (me_kerneldir e) newth old new_stack pg_pdir node (me_blocks e) (i_size i) (exec_of st) = Some x"
      "runq (ex_sched x) (ns @ [(node, newth)]) q" by blast
  have w: "user_walk (ex_vm x) d (unat init_eip + k) = kernel_walk (kn_vm st) (me_blocks e + k)" if "12 + k < 4096 * image_pages (i_size i)" for k
    using image_walk [OF proc(4,2,3,5) x(1) that] by (simp add: exec_of_def)
  define st2 where "st2 = set_sched (ex_sched x) (?st1\<lparr>kn_pages := ex_pages x, kn_vm := ex_vm x, kn_regions := ex_regions x, kn_dirs := ex_dirs x\<rparr>)"
  have r: "run_init e (i_size i) ?st1 = Some st2" using x(1) proc(1) e by (simp add: run_init_def exec_of_def [symmetric] st2_def)
  have "unat (i_size i) \<le> unat n * ?b" using file_blocks_ok [OF refl, of "s_log_block_size s" "i_size i"] inode(3,4) by (simp add: word_less_nat_alt)
  then have "kn_mem ?st1 (me_blocks e + k) = concat (map data [0..<unat n]) ! k" if "k < unat (i_size i)" for k
    using l(3) [of k] that by (simp add: set_mem_def set_tty_def)
  moreover have "kn_vm st2 = ex_vm x" "kn_sched st2 = ex_sched x"
    by (simp_all add: set_mem_def set_tty_def st2_def set_sched_def)
  moreover have "12 + k < 4096 * image_pages (i_size i)" if "k < unat (i_size i)" "image_fits (i_size i) \<or> 12 + k < 4096 * image_pages (i_size i)" for k
    using that image_fits_pages by blast
  ultimately have "\<forall>k < unat (i_size i). image_fits (i_size i) \<or> 12 + k < 4096 * image_pages (i_size i) \<longrightarrow>
      kn_mem ?st1 (me_blocks e + k) = concat (map data [0..<unat n]) ! k
      \<and> user_walk (kn_vm st2) d (unat init_eip + k) = kernel_walk (kn_vm st) (me_blocks e + k)"
    and "runq (kn_sched st2) (ns @ [(node, newth)]) q" using w x(2) by auto
  with l(1) r show ?thesis by blast
qed

lemma kn_panic_text:
  assumes "37 \<notin> set msg" "0 \<notin> set msg" "length msg < 900" "\<not> tt_over_serial (kn_tty st)"
  shows "kn_panic e msg st = Some (Halted (set_tty ((kn_tty st)\<lparr>tt_video := kprint (panic_text msg) (tt_video (kn_tty st))\<rparr>) st))"
  using panic_literal [OF assms(1-4), of "me_m e"] by (simp add: kn_panic_def)

text \<open>Scheduler, memory and address spaces are as before.\<close>

definition no_process :: "'h kernel \<Rightarrow> 'h kernel \<Rightarrow> bool" where
  "no_process st s \<longleftrightarrow> kn_sched s = kn_sched st \<and> kn_pages s = kn_pages st \<and> kn_vm s = kn_vm st \<and> kn_regions s = kn_regions st
     \<and> kn_dirs s = kn_dirs st"

lemma load_init_not_found:
  assumes "\<not> tt_over_serial (kn_tty st)" "cmd_value ''init'' (kn_cmdline st) = Some (Some fname)" "length fname < 900"
    "vfs_namei (me_ops e) (me_vfs_sleep e) (kn_vfs st) fname = Some (NULL, vfs)"
  shows "\<exists>w s. load_init e st = Some (Halted (0, s)) \<and> tt_video (kn_tty s) = kprint (panic_text (text_of ''init file not found!'' @ [10])) w
    \<and> no_process st s"
proof -
  obtain w where w: "kprintf_to (me_m e) (text_of ''Loading %s...'' @ [10]) [AStr fname] (kn_tty st) = Some ((kn_tty st)\<lparr>tt_video := w\<rparr>)"
    using loading_message [OF assms(1,3)] by blast
  let ?t = "(kn_tty st)\<lparr>tt_video := w\<rparr>"
  have f: "KERN_DEBUG @ text_of ''%s: not found!'' @ [10] = [33, 52, 33] @ [] @ [37, 115] @ [58, 32, 110, 111, 116, 32, 102, 111, 117, 110, 100, 33, 10]"
    by (simp add: text_of_def)
  have "vsprintf_loop ([] @ [37, 115] @ [58, 32, 110, 111, 116, 32, 102, 111, 117, 110, 100, 33, 10]) 0 [AStr fname] []
      = Some ([] @ fname @ [58, 32, 110, 111, 116, 32, 102, 111, 117, 110, 100, 33, 10])" by (intro vsprintf_around_string) simp_all
  from level_message [OF this, of ?t "me_m e" 52] assms(1,3) obtain u where
    u: "kprintf_to (me_m e) (KERN_DEBUG @ text_of ''%s: not found!'' @ [10]) [AStr fname] ?t = Some (?t\<lparr>tt_video := u\<rparr>)"
    unfolding f by auto
  define st2 where "st2 = (set_tty ?t st)\<lparr>kn_vfs := vfs\<rparr>"
  define st3 where "st3 = set_tty (?t\<lparr>tt_video := u\<rparr>) st2"
  have "kn_print e (text_of ''Loading %s...'' @ [10]) [AStr fname] st = Some (set_tty ?t st)" using w by (simp add: kn_print_def)
  moreover have "kn_vfs (set_tty ?t st) = kn_vfs st" by (simp add: set_tty_def)
  moreover have "kn_print e (KERN_DEBUG @ text_of ''%s: not found!'' @ [10]) [AStr fname] st2 = Some st3"
    using u by (simp add: kn_print_def st2_def st3_def set_tty_def)
  moreover have "kn_panic e (text_of ''init file not found!'' @ [10]) st3 = Some (Halted (set_tty ((kn_tty st3)\<lparr>tt_video :=
      kprint (panic_text (text_of ''init file not found!'' @ [10])) (tt_video (kn_tty st3))\<rparr>) st3))"
    using assms(1) by (intro kn_panic_text) (simp_all add: text_of_def st3_def set_tty_def st2_def)
  ultimately have "load_init e st = Some (Halted (0, set_tty ((kn_tty st3)\<lparr>tt_video :=
      kprint (panic_text (text_of ''init file not found!'' @ [10])) (tt_video (kn_tty st3))\<rparr>) st3))"
    using assms(2,4) by (simp add: load_init_def st2_def [symmetric])
  then show ?thesis by (auto simp: no_process_def st2_def st3_def set_tty_def)
qed

lemma mount_root_returns:
  assumes "mount_root e st = Some (Returned s)" "\<not> tt_over_serial (kn_tty st)"
  shows "\<exists>v. s = st\<lparr>kn_vfs := v\<rparr>"
proof -
  obtain b where b: "root_device (me_old_rdev e) (kn_cmdline st) = Some b" using assms(1) by (auto simp: mount_root_def bind_eq_Some_conv)
  show ?thesis
  proof (cases b)
    case (Ok dev)
    then show ?thesis using assms b by (auto simp: mount_root_def kn_panic_text text_of_def bind_eq_Some_conv split: if_splits)
  next
    case Panic
    then show ?thesis using assms b by (simp add: mount_root_def kn_panic_text text_of_def)
  qed
qed

text \<open>How the main thread ends after an error.\<close>

lemma main_thread_halts:
  assumes "bind_outcome (start_services e st0) (read_cmdline e cmdline) = Some (Returned st)"
  shows "setup_console e st = Some (Halted s) \<Longrightarrow> kernel_main_thread e cmdline st0 = Some (Halted s)"
    and "setup_console e st = Some (Returned st) \<Longrightarrow> mount_root e st = Some (Halted s) \<Longrightarrow> kernel_main_thread e cmdline st0 = Some (Halted s)"
    and "setup_console e st = Some (Returned st) \<Longrightarrow> mount_root e st = Some (Returned st1) \<Longrightarrow> load_init e st1 = Some (Halted (n, s))
      \<Longrightarrow> kernel_main_thread e cmdline st0 = Some (Halted s)"
  unfolding kernel_main_thread_def assms by (simp_all add: bind_outcome_def)

text \<open>A kernel whose command line is \<^verbatim>\<open>init=/\<close>, with a file of one block as the root of the file system and the memory of
  \<open>demo_exec\<close>.\<close>

definition one_block_ops :: vfs_sb_ops where
  "one_block_ops = \<lparr>get_inode = \<lambda>_ st. Some (0, st), get_fs_block = \<lambda>_ n _. if n = 100 then Some (replicate 1024 7) else None\<rparr>"

definition demo_env :: "nat main_env" where
  "demo_env = \<lparr>me_m = boot_disk, me_kerneldir = demo_dir, me_force_exit = 0x5000, me_idle = 0x4000, me_idle_mem = (NULL, demo_task 0 0, NULL, NULL),
     me_fs_mem = (NULL, NULL, NULL, \<lambda>_. demo_inode, NULL), me_ata_sleep = (\<lambda>e. ata_handler1 boot_disk), me_ata_rq = (1300, 1200, 1100),
     me_ata_irqs = ((NULL, \<lparr>ih_id = 0, ih_name = [], ih_handler = NULL\<rparr>, NULL), (NULL, \<lparr>ih_id = 0, ih_name = [], ih_handler = NULL\<rparr>, NULL)),
     me_ata_mem = ((NULL, NULL, NULL, NULL, \<lambda>k. mbr_entry (part_at [] 0) 0 k), (NULL, NULL, NULL, NULL, \<lambda>k. mbr_entry (part_at [] 0) 0 k)),
     me_ata_handlers = (NULL, NULL), me_ata_drvs = (NULL, NULL), me_ata_ops = NULL, me_old_rdev = replicate 10 0,
     me_ops = (\<lambda>_. one_block_ops), me_types = (\<lambda>_. \<lparr>check_fs_type = \<lambda>_ _. False, get_sb = \<lambda>_ _. None\<rparr>), me_vfs_sleep = (\<lambda>_ _. None),
     me_root_sb = 64, me_blocks = 0x500C, me_init_mem = (0x3000, demo_task 0 0, 0x8000, 0x7000, 64)\<rparr>"

definition demo_kernel :: "nat kernel" where
  "demo_kernel = \<lparr>kn_disks = demo_disks\<lparr>dk_tty := (dk_tty demo_disks)\<lparr>tt_kbd := (tt_kbd (dk_tty demo_disks))\<lparr>kb_sched := ex_sched demo_exec\<rparr>\<rparr>\<rparr>,
     kn_cmdline = \<lparr>cl_args = [\<lparr>ca_key = Some 0, ca_value = Some 5\<rparr>], cl_str = [105, 110, 105, 116, 0, 47, 0], cl_argc = 0\<rparr>,
     kn_vfs = demo_vfs\<lparr>vf_inodes := [16 \<mapsto> demo_inode], vf_sb := [64 \<mapsto> demo_sb]\<rparr>, kn_pages = ex_pages demo_exec, kn_vm = ex_vm demo_exec,
     kn_regions = ex_regions demo_exec, kn_dirs = ex_dirs demo_exec\<rparr>"

lemma demo_kernel_ok:
  "cmd_value ''init'' (kn_cmdline demo_kernel) = Some (Some [47])" "\<not> tt_over_serial (kn_tty demo_kernel)"
  "vfs_namei (me_ops demo_env) (me_vfs_sleep demo_env) (kn_vfs demo_kernel) [47] = Some (16, kn_vfs demo_kernel)"
  "exec_of demo_kernel = demo_exec" "vf_inodes (kn_vfs demo_kernel) 16 = Some demo_inode" "vf_sb (kn_vfs demo_kernel) (vi_sb demo_inode) = Some demo_sb"
  "file_blocks (i_size demo_inode) (s_log_block_size demo_sb) = Some 1"
  "\<forall>j < unat (1 :: u32). file_block (me_ops demo_env) (kn_vfs demo_kernel) demo_inode demo_sb (\<lambda>_. replicate 1024 7) j"
proof -
  show "vfs_namei (me_ops demo_env) (me_vfs_sleep demo_env) (kn_vfs demo_kernel) [47] = Some (16, kn_vfs demo_kernel)"
    unfolding vfs_namei_def by (simp add: path_at_def, subst namei_loop.simps) (simp add: path_at_def demo_kernel_def demo_vfs_def)
qed (simp_all add: cmd_value_def cmdline_get_value_def demo_kernel_def text_of_def str_at_def demo_disks_def exec_of_def demo_exec_def
    demo_inode_def demo_sb_def file_blocks_def file_block_def demo_env_def one_block_ops_def)

theorem init_program_in_place_witness:
  "\<exists>st1 st2. load_init demo_env demo_kernel = Some (Returned (1024, st1)) \<and> run_init demo_env 1024 st1 = Some st2
    \<and> kn_mem st1 (0x500C + 5) = 7 \<and> user_walk (kn_vm st2) 0x301000 0xC00011 = Some 0x500011"
proof -
  have n: "image_pages 1024 = 1" "i_size demo_inode = 1024" by (simp_all add: image_pages_def demo_inode_def)
  have e: "me_blocks demo_env = 0x500C" "me_init_mem demo_env = (0x3000, demo_task 0 0, 0x8000, 0x7000, 64)" "unat (s_log_block_size demo_sb) = 1024"
    by (simp_all add: demo_env_def demo_sb_def)
  have r: "init_ready (exec_of demo_kernel) ring3_nodes 0 0x3000 64 0x300000 0x301000 (me_blocks demo_env) \<lparr>mr_initial_addr = 5, mr_size = 1\<rparr> (i_size demo_inode)"
    using demo_exec_ready [OF n(1)] by (simp only: demo_kernel_ok(4) n(2) e(1))
  have "0 < s_log_block_size demo_sb" by (simp add: demo_sb_def)
  from init_program_in_place [OF demo_kernel_ok(1) refl _ demo_kernel_ok(2) _ _ demo_kernel_ok(5,6) this demo_kernel_ok(7) _ demo_kernel_ok(8) e(2) _ _ r]
  obtain st1 st2 where l: "load_init demo_env demo_kernel = Some (Returned (1024, st1))" "run_init demo_env 1024 st1 = Some st2"
    "\<And>k. k < 1024 \<Longrightarrow> kn_mem st1 (0x500C + k) = concat (map (\<lambda>_. replicate 1024 7) [0..<unat (1 :: u32)]) ! k
      \<and> user_walk (kn_vm st2) 0x301000 (unat init_eip + k) = kernel_walk (kn_vm demo_kernel) (0x500C + k)"
    using demo_kernel_ok(3) n e by (auto simp del: concat_map_singleton)
  have "kernel_walk (kn_vm demo_kernel) 0x5011 = Some 0x500011" by (simp add: kernel_walk_def demo_kernel_def demo_exec_def Let_def)
  then show ?thesis using l(1,2) l(3) [of 5] by auto
qed

text \<open>The errors of the main thread after its services are started, each with its message.\<close>

inductive boot_fails :: "'h main_env \<Rightarrow> 'h kernel \<Rightarrow> byte list \<Rightarrow> bool" for e st where
  serial: "\<lbrakk>cmd_value ''console'' (kn_cmdline st) = Some (Some (text_of ''ttyS0''));
      serial_init (me_m e) (tt_serial (kn_tty st)) SERIAL_CONSOLE_BAUD (kb_hw (tt_kbd (kn_tty st))) = Some (r, i, h); r \<noteq> 0\<rbrakk>
    \<Longrightarrow> boot_fails e st (text_of ''Failed to init serial driver!'')"
| bad_root: "\<lbrakk>cmd_value ''console'' (kn_cmdline st) = Some v; v \<noteq> Some (text_of ''ttyS0'');
      root_device (me_old_rdev e) (kn_cmdline st) = Some Panic\<rbrakk>
    \<Longrightarrow> boot_fails e st (text_of ''Kernel command line root argument bad formated.'')"
| not_mounted: "\<lbrakk>cmd_value ''console'' (kn_cmdline st) = Some v; v \<noteq> Some (text_of ''ttyS0'');
      root_device (me_old_rdev e) (kn_cmdline st) = Some (Ok dev);
      vfs_mount_root (me_ops e) (me_types e) (me_vfs_sleep e) (me_root_sb e) (kn_vfs st) dev = Some (0, vfs)\<rbrakk>
    \<Longrightarrow> boot_fails e st (text_of ''VFS ERROR: Could not mount root file system.'')"
| no_init: "\<lbrakk>cmd_value ''console'' (kn_cmdline st) = Some v; v \<noteq> Some (text_of ''ttyS0'');
      mount_root e st = Some (Returned st1); cmd_value ''init'' (kn_cmdline st) = Some (Some fname); length fname < 900;
      vfs_namei (me_ops e) (me_vfs_sleep e) (kn_vfs st1) fname = Some (NULL, vfs)\<rbrakk>
    \<Longrightarrow> boot_fails e st (text_of ''init file not found!'' @ [10])"


text \<open>A kernel without disks, with the command line \<^verbatim>\<open>root=x\<close>.\<close>

definition no_disk :: "nat machine" where
  "no_disk = boot_disk\<lparr>inb := (\<lambda>p h. (0, h))\<rparr>"

lemma no_disk_probe: "\<exists>h'. probe_device no_disk i d h = Some (d\<lparr>dv_flags := 0\<rparr>, h')"
proof -
  have "wait_bus no_disk b h = Some h" for b h unfolding wait_bus_def by (subst wait_loop.simps) (simp add: no_disk_def)
  then show ?thesis by (simp add: probe_device_def Let_def) (simp add: no_disk_def)
qed

lemma no_disk_probed:
  "\<exists>a. init_ata_devices no_disk st = Some a \<and> dv_flags (at_devices a 0) AND PRESENT = 0 \<and> dv_flags (at_devices a 2) AND PRESENT = 0"
proof -
  obtain h0 where p0: "probe_device no_disk 0 (at_devices st 0) (at_hw st) = Some ((at_devices st 0)\<lparr>dv_flags := 0\<rparr>, h0)" using no_disk_probe by blast
  obtain h1 where p1: "probe_device no_disk 1 (at_devices st 1) h0 = Some ((at_devices st 1)\<lparr>dv_flags := 0\<rparr>, h1)" using no_disk_probe by blast
  obtain h2 where p2: "probe_device no_disk 2 (at_devices st 2) h1 = Some ((at_devices st 2)\<lparr>dv_flags := 0\<rparr>, h2)" using no_disk_probe by blast
  obtain h3 where p3: "probe_device no_disk 3 (at_devices st 3) h2 = Some ((at_devices st 3)\<lparr>dv_flags := 0\<rparr>, h3)" using no_disk_probe by blast
  have "\<exists>ds. probe_all no_disk 0 (Suc (Suc (Suc (Suc 0)))) (at_devices st) (at_hw st) = Some (ds, h3) \<and> dv_flags (ds 0) = 0 \<and> dv_flags (ds 2) = 0"
    using p0 p1 p2 p3 by (simp add: numeral_2_eq_2 numeral_3_eq_3)
  moreover have "4 = Suc (Suc (Suc (Suc 0)))" by simp
  ultimately show ?thesis unfolding init_ata_devices_def by (elim exE conjE) (simp only: Option.bind.bind_lunit prod.case, simp)
qed

definition bad_env :: "nat main_env" where
  "bad_env = demo_env\<lparr>me_m := no_disk, me_fs_mem := (1000000, 2000000, 3000000, \<lambda>_. demo_inode, NULL),
     me_ata_irqs := ((7000, \<lparr>ih_id = 0, ih_name = [], ih_handler = NULL\<rparr>, 7100), (7200, \<lparr>ih_id = 0, ih_name = [], ih_handler = NULL\<rparr>, 7300))\<rparr>"


end
