(* ===== verification/Syscall.thy ===== *)
theory Syscall
  imports Trap
begin

text \<open>
  System calls from the user's side: the table of \<^verbatim>\<open>kernel/syscall.c\<close>, the stubs \<open>write\<close> and \<open>read\<close> of \<^verbatim>\<open>apps/echo/syscalls.c\<close>,
  the stub of \<^verbatim>\<open>apps/init_c/write.s\<close> and the program \<^verbatim>\<open>apps/init/init.s\<close>. The instruction \<^verbatim>\<open>int $0x85\<close> goes through the
  gate that \<open>setup_IDT\<close> has written to \<open>sys_enter\<close>. What the kernel holds is a record: the addresses of the entry points
  and of the functions of the table, what these functions do (\<open>kd_code\<close>), the address of the table and the stack of the
  task segment.
\<close>

section \<open>Model\<close>

datatype sys_fun = Sys_exit | Sys_fork | Sys_execve | Sys_read | Sys_write

definition syscall_table :: "sys_fun list" where
  "syscall_table = [Sys_exit, Sys_fork, Sys_execve, Sys_read, Sys_write]"

text \<open>The body of \<open>sys_fork\<close> is empty.\<close>

definition sys_fork :: "'s \<Rightarrow> 's" where
  "sys_fork s = s"

record kdata =
  kd_isr :: "isr_symbol \<Rightarrow> u32"
  kd_idt :: idt_table
  kd_tss :: u32
  kd_fun :: "sys_fun \<Rightarrow> u32"
  kd_code :: "u32 \<Rightarrow> cpu \<Rightarrow> cpu"
  kd_ra :: u32
  kd_table :: ptr
  kd_esp0 :: u32
  kd_ss0 :: u16

text \<open>\<^verbatim>\<open>int $0x85\<close>: the gate must be present and may not be more privileged than the program; \<open>ip\<close> is the next instruction.\<close>

definition int_85h :: "kdata \<Rightarrow> u32 \<Rightarrow> cpu \<Rightarrow> cpu option" where
  "int_85h k ip s =
     (let w = gate_words (fst (setup_IDT (kd_isr k) (kd_idt k)) 0x85) in
      if desc_present w \<and> rpl (cp_seg s CS) \<le> ucast (desc_dpl w) \<and> gate_offset w = kd_isr k Sys_enter
      then sys_enter (fst (setup_GDT (kd_tss k))) (kd_code k) (kd_ra k) (kd_table k)
        (interrupt (kd_esp0 k) (kd_ss0 k) (gate_offset w) ip s)
      else None)"

definition user_write :: "kdata \<Rightarrow> u32 \<Rightarrow> u32 \<Rightarrow> u32 \<Rightarrow> u32 \<Rightarrow> cpu \<Rightarrow> (u32 \<times> cpu) option" where
  "user_write k ip fd buf count s = do {
     s1 \<leftarrow> int_85h k ip (run [Movl_imm 4 EAX, Movl_imm fd EBX, Movl_imm buf ECX, Movl_imm count EDX] s);
     Some (cp_reg s1 EAX, s1)
   }"

definition user_read :: "kdata \<Rightarrow> u32 \<Rightarrow> u32 \<Rightarrow> u32 \<Rightarrow> u32 \<Rightarrow> cpu \<Rightarrow> (u32 \<times> cpu) option" where
  "user_read k ip fd buf count s = do {
     s1 \<leftarrow> int_85h k ip (run [Movl_imm 3 EAX, Movl_imm fd EBX, Movl_imm buf ECX, Movl_imm count EDX] s);
     Some (cp_reg s1 EAX, s1)
   }"

text \<open>The routine of \<^verbatim>\<open>write.s\<close>, from its first instruction, with the return address on the stack, to its return.\<close>

definition write_s :: "kdata \<Rightarrow> u32 \<Rightarrow> cpu \<Rightarrow> cpu option" where
  "write_s k ip s = do {
     s1 \<leftarrow> int_85h k ip (run [Popl EAX, Popl EBX, Popl ECX, Popl EDX, Pushl EAX, Movl_imm 0x04 EAX] s);
     Some (ret s1)
   }"

definition init_msg :: string where
  "init_msg = ''Hello world from Userspace!'' @ [CHR 0x0A]"

text \<open>\<open>_start\<close> of \<^verbatim>\<open>init.s\<close> up to its endless loop.\<close>

definition init_start :: "kdata \<Rightarrow> u32 \<Rightarrow> u32 \<Rightarrow> cpu \<Rightarrow> cpu option" where
  "init_start k ip msg s =
     int_85h k ip (run [Movl_imm 0x04 EAX, Movl_imm 0x01 EBX, Movl_imm msg ECX, Movl_imm 0x1D EDX] s)"

section \<open>The gate\<close>

lemma int_85h_enters:
  assumes "mode_ok s"
  shows "int_85h k ip s = sys_enter (fst (setup_GDT (kd_tss k))) (kd_code k) (kd_ra k) (kd_table k)
    (interrupt (kd_esp0 k) (kd_ss0 k) (kd_isr k Sys_enter) ip s)"
proof -
  have "rpl (cp_seg s CS) \<le> ucast (3 :: u32)" using assms by (auto simp: mode_ok_def rpl_def)
  then show ?thesis using setup_IDT_gates [of "0x85" "kd_isr k" "kd_idt k"] by (simp add: int_85h_def isr_address_def Let_def)
qed

section \<open>Calls from user programs\<close>

text \<open>A user program \<open>s\<close> under a kernel whose table lies away from the stacks and whose functions keep to the calling
  convention.\<close>

definition user_calls :: "kdata \<Rightarrow> cpu \<Rightarrow> u32 \<Rightarrow> ptr \<Rightarrow> u32 \<Rightarrow> ptr \<Rightarrow> bool" where
  "user_calls k s w b v vb \<longleftrightarrow> cp_seg s CS = 0x1B \<and> interruptible (kd_esp0 k) s w b v vb \<and> vb + 516 \<le> 2 ^ 32
     \<and> kd_table k + 20 \<le> 2 ^ 32 \<and> (\<forall>j < 20. off_stacks b vb (kd_table k + j))
     \<and> (\<forall>i < 5. load32 (cp_mem s) (kd_table k + 4 * i) = kd_fun k (syscall_table ! i))
     \<and> (\<forall>f x. c_returns (kd_code k) f x 70)"

definition call_args :: "u32 \<Rightarrow> u32 \<Rightarrow> u32 \<Rightarrow> cpu \<Rightarrow> bool" where
  "call_args a1 a2 a3 x \<longleftrightarrow> load32 (cp_mem x) (ea 0 ESP x) = a1 \<and> load32 (cp_mem x) (ea 4 ESP x) = a2 \<and> load32 (cp_mem x) (ea 8 ESP x) = a3"

lemma user_calls_regs:
  assumes "user_calls k s w b v vb" "cp_reg s' ESP = cp_reg s ESP" "cp_seg s' = cp_seg s" "cp_mem s' = cp_mem s"
  shows "user_calls k s' w b v vb"
  using assms by (auto simp: user_calls_def interruptible_def mode_ok_def)

lemma int_85h_calls:
  assumes u: "user_calls k s w b v vb" and n: "cp_reg s EAX = of_nat n" "n < 5"
  obtains x s' where "int_85h k ip s = Some s'" "call_args (cp_reg s EBX) (cp_reg s ECX) (cp_reg s EDX) x"
    "cp_reg x ESP = 78 + v" "\<And>z. off_stacks b vb z \<Longrightarrow> cp_mem x z = cp_mem s z"
    "resumed (set_reg EAX (cp_reg (kd_code k (kd_fun k (syscall_table ! n)) x) EAX) s) ip s'"
    "cp_mem s' = cp_mem (kd_code k (kd_fun k (syscall_table ! n)) x)"
proof -
  have i: "interruptible (kd_esp0 k) s w b v vb" "vb + 516 \<le> 2 ^ 32" "kd_table k + 20 \<le> 2 ^ 32"
    "\<And>j. j < 20 \<Longrightarrow> off_stacks b vb (kd_table k + j)" "\<And>f x. c_returns (kd_code k) f x 70"
    "load32 (cp_mem s) (kd_table k + 4 * n) = kd_fun k (syscall_table ! n)"
    using u n(2) by (simp_all add: user_calls_def)
  have e: "unat (cp_reg s EAX) = n" "cp_reg s EAX < 5" using n by (simp_all add: unat_of_nat word_less_nat_alt)
  have nu: "no_user_word s b" using u by (simp add: user_calls_def no_user_word_def)
  have "mode_ok s" using i(1) by (simp add: interruptible_def)
  note enters = int_85h_enters [OF this]
  show ?thesis
    using sys_enter_dispatches [OF i(1,2) nu i(5,4,3) refl, of "kd_tss k" "kd_ra k" "kd_ss0 k" "kd_isr k Sys_enter" ip]
    unfolding enters [symmetric] if_P [OF e(2)] e(1) i(6) by (auto simp: sys_args_def call_args_def intro: that)
qed

text \<open>The state \<open>s'\<close> in which a program that was in state \<open>s\<close> continues after the function \<open>f\<close> was called with three arguments.\<close>

definition called :: "kdata \<Rightarrow> sys_fun \<Rightarrow> u32 \<Rightarrow> u32 \<Rightarrow> u32 \<Rightarrow> u32 \<Rightarrow> cpu \<Rightarrow> cpu \<Rightarrow> bool" where
  "called k f ip a1 a2 a3 s s' \<longleftrightarrow> (\<exists>x. call_args a1 a2 a3 x \<and> cp_mem s' = cp_mem (kd_code k (kd_fun k f) x)
     \<and> cp_reg s' = (cp_reg s)(EAX := cp_reg (kd_code k (kd_fun k f) x) EAX, EBX := a1, ECX := a2, EDX := a3)
     \<and> cp_seg s' = cp_seg s \<and> cp_eflags s' = cp_eflags s \<and> cp_eip s' = ip)"

lemma stub_calls:
  assumes u: "user_calls k s w b v vb" and n: "n < 5"
  shows "\<exists>s'. int_85h k ip (run [Movl_imm (of_nat n) EAX, Movl_imm a1 EBX, Movl_imm a2 ECX, Movl_imm a3 EDX] s) = Some s'
    \<and> called k (syscall_table ! n) ip a1 a2 a3 s s'"
proof -
  let ?s = "run [Movl_imm (of_nat n) EAX, Movl_imm a1 EBX, Movl_imm a2 ECX, Movl_imm a3 EDX] s"
  have "user_calls k ?s w b v vb" by (rule user_calls_regs [OF u]) (simp_all add: set_reg_def)
  moreover have "cp_reg ?s EAX = of_nat n" by (simp add: set_reg_def)
  ultimately obtain x s' where "int_85h k ip ?s = Some s'" "call_args (cp_reg ?s EBX) (cp_reg ?s ECX) (cp_reg ?s EDX) x"
    "resumed (set_reg EAX (cp_reg (kd_code k (kd_fun k (syscall_table ! n)) x) EAX) ?s) ip s'"
    "cp_mem s' = cp_mem (kd_code k (kd_fun k (syscall_table ! n)) x)"
    using n by (rule int_85h_calls)
  then show ?thesis by (auto simp: called_def resumed_def set_reg_def fun_upd_twist)
qed

text \<open>C2: The system calls of a user program in C: \<open>write\<close> calls \<open>sys_write\<close> and \<open>read\<close> calls \<open>sys_read\<close> in the kernel with its
  three arguments, and returns what the function returned; the program continues behind the instruction in its own
  segments, with its stack pointer, its flags and the registers that are not operands unchanged.\<close>
theorem user_stubs_call_kernel:
  assumes "user_calls k s w b v vb"
  shows "(\<exists>s'. user_write k ip fd buf count s = Some (cp_reg s' EAX, s') \<and> called k Sys_write ip fd buf count s s')
    \<and> (\<exists>s'. user_read k ip fd buf count s = Some (cp_reg s' EAX, s') \<and> called k Sys_read ip fd buf count s s')"
  using stub_calls [OF assms, of 4 ip fd buf count] stub_calls [OF assms, of 3 ip fd buf count]
  by (auto simp: user_write_def user_read_def syscall_table_def)

definition demo_kdata :: kdata where
  "demo_kdata = \<lparr>kd_isr = (\<lambda>_. 0x7200), kd_idt = zero_idt, kd_tss = 0x6000, kd_fun = (\<lambda>_. 0), kd_code = demo_code, kd_ra = 0x7000,
     kd_table = 0x9000, kd_esp0 = 0x1094, kd_ss0 = 0x10\<rparr>"

lemma demo_user_calls: "user_calls demo_kdata (user_state n) 0x1000 0x1000 0x5000 0x5000"
  using demo_states(2,3) by (simp add: user_calls_def demo_kdata_def off_stacks_def load32_def bytes32_def user_state_def)

theorem user_stubs_call_kernel_witness:
  "\<exists>s'. user_write demo_kdata 0x100 1 0x8000 3 (user_state 0) = Some (7, s')"
  using user_stubs_call_kernel [OF demo_user_calls, of "0x100" 1 "0x8000" 3 0]
  by (auto simp: called_def demo_kdata_def demo_code_def set_reg_def)

text \<open>The first program of the system asks for one byte more than its message has.\<close>

lemma init_start_writes:
  assumes "user_calls k s w b v vb"
  shows "\<exists>s'. init_start k ip msg s = Some s' \<and> called k Sys_write ip 1 msg 29 s s'" "length init_msg = 28"
  using stub_calls [OF assms, of 4 ip 1 msg 29] by (simp_all add: init_start_def syscall_table_def init_msg_def)

section \<open>The stub in assembly\<close>

text \<open>C35: The stub of the second first program: \<open>sys_write\<close> is called with the three arguments of the caller and the result is
  returned in EAX to the return address, but the arguments are gone from the stack: the stack pointer is sixteen bytes
  above that of the call, where a C function leaves it four bytes above, so that the caller, which removes its
  arguments itself, loses twelve bytes of its own data.\<close>
theorem write_s_drops_arguments:
  assumes u: "user_calls k (set_reg ESP (cp_reg s ESP + 12) s) w b v vb" and code: "\<And>f x. c_returns (kd_code k) f x 74"
    and ap: "apart b 148 vb 152" "kd_table k + 20 \<le> vb \<or> vb + 152 \<le> kd_table k"
  shows "\<exists>x s'. write_s k ip s = Some s' \<and> cp_eip s' = top32 s \<and> cp_reg s' EAX = cp_reg (kd_code k (kd_fun k Sys_write) x) EAX
    \<and> call_args (load32 (cp_mem s) (ea 4 ESP s)) (load32 (cp_mem s) (ea 8 ESP s)) (load32 (cp_mem s) (ea 12 ESP s)) x
    \<and> cp_reg s' ESP = cp_reg s ESP + 16"
proof -
  define t where "t = run [Popl EAX, Popl EBX, Popl ECX, Popl EDX, Pushl EAX, Movl_imm 0x04 EAX] s"
  have v: "based v vb" and sp: "cp_reg s ESP = 136 + v" using u by (auto simp: user_calls_def interruptible_def set_reg_def)
  have s: "cp_reg t = (cp_reg s)(EAX := 4, EBX := load32 (cp_mem s) (ea 4 ESP s), ECX := load32 (cp_mem s) (ea 8 ESP s),
      EDX := load32 (cp_mem s) (ea 12 ESP s), ESP := 148 + v)"
    "cp_seg t = cp_seg s" "cp_mem t = store32 (cp_mem s) (vb + 148) (top32 s)"
    by (simp_all add: t_def exec_defs sp based_offset [OF v] fun_eq_iff)
  have "load32 (cp_mem t) (kd_table k + 4 * i) = load32 (cp_mem s) (kd_table k + 4 * i)" if "i < 5" for i
    unfolding s(3) by (rule load_store_apart(1)) (use that ap(2) in \<open>auto simp: apart_def\<close>)
  then have "user_calls k t w b v vb" using u
    by (auto simp: user_calls_def interruptible_def mode_ok_def s(1,2) set_reg_def)
  moreover have "cp_reg t EAX = of_nat 4" by (simp add: s(1))
  ultimately obtain x s1 where x: "int_85h k ip t = Some s1" "call_args (cp_reg t EBX) (cp_reg t ECX) (cp_reg t EDX) x"
    "cp_reg x ESP = 78 + v" "\<And>z. off_stacks b vb z \<Longrightarrow> cp_mem x z = cp_mem t z"
    "resumed (set_reg EAX (cp_reg (kd_code k (kd_fun k (syscall_table ! 4)) x) EAX) t) ip s1"
    "cp_mem s1 = cp_mem (kd_code k (kd_fun k (syscall_table ! 4)) x)"
    by (rule int_85h_calls [where ip = ip]) (simp, blast)
  have "cp_mem s1 (vb + 148 + i) = cp_mem t (vb + 148 + i)" if "i < 4" for i
  proof -
    have "cp_mem s1 (vb + 148 + i) = cp_mem x (vb + 148 + i)"
      using code [of "kd_fun k (syscall_table ! 4)" x] that
      unfolding x(6) c_returns_def same_bytes_def x(3)
      by (auto dest!: spec [of _ "70 + i"] simp: add.assoc based_offset [OF v])
    then show ?thesis using x(4) [of "vb + 148 + i"] ap(1) that by (auto simp: off_stacks_def apart_def)
  qed
  then have "load32 (cp_mem s1) (vb + 148) = load32 (cp_mem t) (vb + 148)" by (rule load_cong(1))
  moreover have "write_s k ip s = Some (ret s1)" by (simp add: write_s_def t_def [symmetric] x(1) del: run.simps)
  ultimately show ?thesis using x(2,5)
    by (auto simp: ret_def resumed_def s exec_defs sp based_offset [OF v] syscall_table_def)
qed

theorem write_s_drops_arguments_witness:
  "\<exists>s'. write_s demo_kdata 0x100 (set_reg ESP 0x5088 (user_state 0)) = Some s' \<and> cp_reg s' ESP = 0x5098 \<and> cp_reg s' EAX = 7"
proof -
  have s: "set_reg ESP (cp_reg (set_reg ESP 0x5088 (user_state 0)) ESP + 12) (set_reg ESP 0x5088 (user_state 0)) = user_state 0"
    by (simp add: set_reg_def user_state_def fun_upd_idem)
  show ?thesis
    using write_s_drops_arguments [of demo_kdata "set_reg ESP 0x5088 (user_state 0)" "0x1000" "0x1000" "0x5000" "0x5000" "0x100",
        unfolded s, OF demo_user_calls]
    by (auto simp: demo_kdata_def demo_states(3) apart_def demo_code_def set_reg_def)
qed

end
