(* ===== verification/Second_Stage.thy ===== *)
theory Second_Stage
  imports Kernel_Main Timer
begin

text \<open>
  The way from the data of the boot loader to the first kernel thread: the messages of the first stage (\<^verbatim>\<open>karch\<close> of
  \<^verbatim>\<open>arch/x86/boot/karch.c\<close>), which shows the memory map, and \<^verbatim>\<open>tempos_main\<close> of \<^verbatim>\<open>kernel/kernel.c\<close>, which starts timer, delay
  loop, keyboard, wait queues and scheduler. The components keep their own states; here they are put together. A
  scheduler that is started does not return: the result is the task that the processor jumps to.
\<close>

section \<open>Model\<close>

record 'h boot_state =
  bs_tty :: "'h tty"
  bs_timer :: timer
  bs_bogomips :: u32
  bs_kinfo :: boot_info
  bs_tss :: tss
  bs_idt :: idt_table

abbreviation (input) bs_kbd :: "'h boot_state \<Rightarrow> 'h kbd" where "bs_kbd st \<equiv> tt_kbd (bs_tty st)"

definition set_kbd :: "'h kbd \<Rightarrow> 'h boot_state \<Rightarrow> 'h boot_state" where
  "set_kbd kb st = st\<lparr>bs_tty := (bs_tty st)\<lparr>tt_kbd := kb\<rparr>\<rparr>"

text \<open>What the environment gives: the machine, what happens to it during a turn of the calibration loop, the results of the
  allocations, the addresses of the handlers and of the main function, and the registers that \<open>arch_init_scheduler\<close> reads.\<close>

record 'h start_env =
  se_m :: "'h machine"
  se_tick :: "'h \<Rightarrow> 'h"
  se_isr :: "isr_symbol \<Rightarrow> u32"
  se_timer_mem :: "ptr \<times> irq_handler \<times> ptr"
  se_timer_handler :: ptr
  se_kbd_mem :: "ptr \<times> irq_handler \<times> ptr"
  se_kbd_handler :: ptr
  se_main_mem :: "ptr \<times> task \<times> ptr \<times> ptr"
  se_main :: u32
  se_kdir :: u32
  se_eflags :: u32
  se_esp :: u32

abbreviation (input) TIMER_IRQ :: u16 where "TIMER_IRQ \<equiv> 0"
abbreviation (input) KBD_IRQ :: u16 where "KBD_IRQ \<equiv> 1"

definition bs_print :: "'h start_env \<Rightarrow> byte list \<Rightarrow> arg list \<Rightarrow> 'h boot_state \<Rightarrow> 'h boot_state option" where
  "bs_print e format args st = map_option (\<lambda>t. st\<lparr>bs_tty := t\<rparr>) (kprintf_to (se_m e) format args (bs_tty st))"

definition start_timer :: "'h start_env \<Rightarrow> 'h boot_state \<Rightarrow> 'h boot_state option" where
  "start_timer e st = do {
     let tm = init_timer ((bs_timer st)\<lparr>tm_sched := kb_sched (bs_kbd st)\<rparr>);
     st1 \<leftarrow> bs_print e (KERN_INFO @ text_of ''Initializing timer...'' @ [10]) []
              (set_kbd ((bs_kbd st)\<lparr>kb_sched := tm_sched tm\<rparr>) (st\<lparr>bs_timer := tm\<rparr>));
     (case se_timer_mem e of (newh, old, node) \<Rightarrow> do {
        (r, ir) \<leftarrow> request_irq newh old node TIMER_IRQ (se_timer_handler e) 0 (text_of ''PIT'') (kb_irq (bs_kbd st1));
        let st2 = set_kbd ((bs_kbd st1)\<lparr>kb_irq := ir\<rparr>) st1;
        if r < 0 then bs_print e (KERN_ERROR @ text_of ''Error on initialize PIT'' @ [10]) [] st2 else Some st2
      })
   }"

definition calibrate :: "'h start_env \<Rightarrow> 'h boot_state \<Rightarrow> 'h boot_state option" where
  "calibrate e st = do {
     st1 \<leftarrow> bs_print e (KERN_INFO @ text_of ''Calibrating loop delay...'') [] st;
     (b, h) \<leftarrow> calibrate_delay (se_m e) (se_tick e) (kb_hw (bs_kbd st1));
     bs_print e (KERN_INFO @ text_of ''%d BogoMIPS'' @ [10]) [AWord b] (set_kbd ((bs_kbd st1)\<lparr>kb_hw := h\<rparr>) (st1\<lparr>bs_bogomips := b\<rparr>))
   }"

definition init_8042 :: "'h start_env \<Rightarrow> 'h boot_state \<Rightarrow> 'h boot_state option" where
  "init_8042 e st = do {
     st1 \<leftarrow> bs_print e (KERN_INFO @ text_of ''Initializing i8042 keyboard controller...'' @ [10]) [] st;
     let kb1 = (bs_kbd st1)\<lparr>kb_write := 0, kb_read := 0\<rparr>;
     h1 \<leftarrow> kbc_sendcomm (se_m e) 0xAE (kb_hw kb1);
     (case se_kbd_mem e of (newh, old, node) \<Rightarrow> do {
        (r, ir) \<leftarrow> request_irq newh old node KBD_IRQ (se_kbd_handler e) 0 (text_of ''i8042'') (kb_irq kb1);
        let st2 = set_kbd (kb1\<lparr>kb_irq := ir, kb_hw := h1\<rparr>) st1;
        st3 \<leftarrow> (if r < 0 then bs_print e (KERN_ERROR @ text_of ''Error on initialize i8042'' @ [10]) [] st2 else Some st2);
        let (b, h2) = inb (se_m e) KBD_OUT_BUF (kb_hw (bs_kbd st3));
        Some (set_kbd ((bs_kbd st3)\<lparr>kb_hw := h2\<rparr>) st3)
      })
   }"

definition start_scheduler :: "'h start_env \<Rightarrow> 'h boot_state \<Rightarrow> (ptr \<times> 'h boot_state) option" where
  "start_scheduler e st =
     (case se_main_mem e of (newth, old, kstack, node) \<Rightarrow> do {
        (t, tss, sc) \<leftarrow> arch_init_scheduler (se_kdir e) newth old kstack node (se_main e) (se_eflags e) (se_esp e) (bs_tss st)
                         (init_scheduler (kb_sched (bs_kbd st)));
        Some (t, set_kbd ((bs_kbd st)\<lparr>kb_sched := sc\<rparr>) (st\<lparr>bs_tss := tss\<rparr>))
      })"

datatype 's start = Jumped ptr 's | Stopped 's

definition start_devices :: "'h start_env \<Rightarrow> 'h boot_state \<Rightarrow> 'h boot_state option" where
  "start_devices e st = do {
     st1 \<leftarrow> start_timer e st;
     st2 \<leftarrow> calibrate e st1;
     st3 \<leftarrow> init_8042 e st2;
     Some (set_kbd ((bs_kbd st3)\<lparr>kb_sched := init_wait_queues (kb_sched (bs_kbd st3))\<rparr>) st3)
   }"

definition tempos_main :: "'h start_env \<Rightarrow> boot_info \<Rightarrow> 'h boot_state \<Rightarrow> 'h boot_state start option" where
  "tempos_main e kinf st = do {
     st1 \<leftarrow> start_devices e (st\<lparr>bs_kinfo := kinf\<rparr>);
     (t, st2) \<leftarrow> start_scheduler e st1;
     if t \<noteq> NULL then Some (Jumped t st2)
     else do {
       r \<leftarrow> panic (se_m e) (text_of ''Error on initialize scheduler!'') [] (bs_tty st2);
       Some (Stopped (st2\<lparr>bs_tty := (case r of Returned t \<Rightarrow> t | Halted t \<Rightarrow> t)\<rparr>))
     }
   }"

text \<open>The memory map on the screen: \<open>n\<close> regions from number \<open>i\<close> on.\<close>

definition mtypes :: "byte list list" where
  "mtypes = [text_of ''Avaliable'', text_of ''Reserved'', text_of ''ACPI'', text_of ''ACPI NVS'', text_of ''Unknown'']"

definition region_type :: "mmap_tentry \<Rightarrow> byte list" where
  "region_type r = (let ty = mtype r - 1 in mtypes ! unat (if ty > 4 then 4 else ty))"

fun show_regions :: "'h start_env \<Rightarrow> mmap_tentry list \<Rightarrow> nat \<Rightarrow> nat \<Rightarrow> 'h boot_state \<Rightarrow> 'h boot_state option" where
  "show_regions e table i 0 st = Some st"
| "show_regions e table i (Suc n) st =
     (if i < length table then do {
        st1 \<leftarrow> bs_print e (KERN_INFO @ text_of ''%0.9x:%0.9x - %s'' @ [10])
                [AWord (base_addr_low (table ! i)), AWord (base_addr_low (table ! i) + length_low (table ! i)), AStr (region_type (table ! i))] st;
        show_regions e table (i + 1) n st1
      } else None)"

text \<open>The end of \<^verbatim>\<open>karch\<close>, from the set-up of the interrupts on.\<close>

definition karch_finish :: "'h start_env \<Rightarrow> boot_info \<Rightarrow> 'h boot_state \<Rightarrow> 'h boot_state start option" where
  "karch_finish e kinf st = do {
     let (irqs, h) = karch_interrupts (se_m e) (kb_irq (bs_kbd st), kb_hw (bs_kbd st));
     let st0 = set_kbd ((bs_kbd st)\<lparr>kb_irq := irqs, kb_hw := h\<rparr>) (st\<lparr>bs_idt := fst (setup_IDT (se_isr e) (bs_idt st))\<rparr>);
     st1 \<leftarrow> bs_print e (KERN_INFO @ text_of ''TempOS'' @ [10]) [] st0;
     st2 \<leftarrow> show_regions e (mmap_table (bi_info kinf)) 0 (mmap_size (bi_info kinf)) st1;
     st3 \<leftarrow> bs_print e (KERN_INFO @ text_of ''>> First stage done.'' @ [10]) [] st2;
     tempos_main e kinf st3
   }"

text \<open>The beginning of \<^verbatim>\<open>karch\<close> on the screen.\<close>

definition karch_screen :: "video \<Rightarrow> video" where
  "karch_screen v = setattr 0x07 (clrscr (set_videomem VIDEO_MEM_VIRT_ADDR v))"

section \<open>Messages\<close>

text \<open>A message of the kernel changes the screen only.\<close>

definition on_screen :: "video \<Rightarrow> 'h boot_state \<Rightarrow> 'h boot_state" where
  "on_screen v st = st\<lparr>bs_tty := (bs_tty st)\<lparr>tt_video := v\<rparr>\<rparr>"

lemma bs_print_level:
  assumes "vsprintf_loop fmt 0 args [] = Some out" "length out < 1024" "\<not> tt_over_serial (bs_tty st)"
  shows "\<exists>v. bs_print e ([33, l, 33] @ fmt) args st = Some (on_screen v st)"
  using level_message [OF assms, of "se_m e" l] by (auto simp: bs_print_def on_screen_def)

lemma bs_print_text:
  assumes "37 \<notin> set s" "length s < 1024" "\<not> tt_over_serial (bs_tty st)"
  shows "\<exists>v. bs_print e ([33, l, 33] @ s) [] st = Some (on_screen v st)"
  using vsprintf_literal [OF assms(1), of "[]" 0 "[]" "[]"] assms(2,3) by (intro bs_print_level) simp_all

lemma bogomips_message:
  assumes "\<not> tt_over_serial (bs_tty st)"
  shows "\<exists>v. bs_print e (KERN_INFO @ text_of ''%d BogoMIPS'' @ [10]) [AWord b] st = Some (on_screen v st)"
proof -
  let ?r = "[32, 66, 111, 103, 111, 77, 73, 80, 83, 10] :: byte list"
  obtain s where s: "numtostr [] 0 b 10 0 True = Some s" "length s \<le> 66" using numtostr_total [of 10 0 "[]" 0 b True] by auto
  have "vsprintf_loop (37 # 100 # ?r) 0 [AWord b] [] = vsprintf_loop ?r 0 [] s" using vsprintf_loop_conversion [of 100 ?r b "[]" "[]"] s(1) by simp
  also have "\<dots> = Some (s @ ?r)" using vsprintf_literal [of ?r "[]" 0 "[]" s] by simp
  finally show ?thesis using bs_print_level [of "37 # 100 # ?r" "[AWord b]" "s @ ?r" st e 51] s(2) assms by (simp add: text_of_def)
qed

lemma length_region_type: "length (region_type r) \<le> 9"
proof -
  define i where "i = unat (if mtype r - 1 > 4 then 4 else mtype r - 1)"
  have "i < 5" by (auto simp: i_def word_less_nat_alt not_less)
  moreover have "\<forall>s \<in> set mtypes. length s \<le> 9" "length mtypes = 5" by (simp_all add: mtypes_def text_of_def)
  ultimately show ?thesis by (simp add: region_type_def i_def [symmetric] Let_def)
qed

lemma region_message:
  assumes "length u \<le> 9" "\<not> tt_over_serial (bs_tty st)"
  shows "\<exists>v. bs_print e (KERN_INFO @ text_of ''%0.9x:%0.9x - %s'' @ [10]) [AWord a, AWord b, AStr u] st = Some (on_screen v st)"
proof -
  have d: "is_dig 57" "57 \<noteq> (48 :: byte)" by (simp_all add: is_dig_def)
  let ?f = "SET_BIT 0 FLAG_ZPAD" and ?r = "[32, 45, 32, 37, 115, 10] :: byte list"
  obtain x where x: "length x \<le> 66" "vsprintf_loop (37 # 48 # 46 # 57 # 120 # 58 # 37 # 48 # 46 # 57 # 120 # ?r) 0 [AWord a, AWord b, AStr u] []
      = vsprintf_loop (58 # 37 # 48 # 46 # 57 # 120 # ?r) ?f [AWord b, AStr u] ([] @ x)"
    using conv_hex(3) [OF d, of "58 # 37 # 48 # 46 # 57 # 120 # ?r" 0 a "[AWord b, AStr u]" "[]"] by blast
  obtain y where y: "length y \<le> 66" "vsprintf_loop (37 # 48 # 46 # 57 # 120 # ?r) ?f [AWord b, AStr u] (x @ [58])
      = vsprintf_loop ?r (SET_BIT ?f FLAG_ZPAD) [AStr u] ((x @ [58]) @ y)"
    using conv_hex(3) [OF d, of ?r ?f b "[AStr u]" "x @ [58]"] by blast
  have "vsprintf_loop (58 # 37 # 48 # 46 # 57 # 120 # ?r) ?f [AWord b, AStr u] x
      = vsprintf_loop (37 # 48 # 46 # 57 # 120 # ?r) ?f [AWord b, AStr u] (x @ [58])"
    using vsprintf_literal [of "[58]" "37 # 48 # 46 # 57 # 120 # ?r" ?f "[AWord b, AStr u]" x] by simp
  moreover have "vsprintf_loop ?r f [AStr u] out = Some (out @ [32, 45, 32] @ u @ [10])" for f out
    using vsprintf_literal [of "[32, 45, 32]" "[37, 115, 10]" f "[AStr u]" out] vsprintf_loop_string [of "[10]" f u "[]" "out @ [32, 45, 32]"]
      vsprintf_literal [of "[10]" "[]" f "[]" "out @ [32, 45, 32] @ u"] by simp
  ultimately have "vsprintf_loop (37 # 48 # 46 # 57 # 120 # 58 # 37 # 48 # 46 # 57 # 120 # ?r) 0 [AWord a, AWord b, AStr u] []
      = Some (x @ [58] @ y @ [32, 45, 32] @ u @ [10])" using x(2) y(2) by simp
  from bs_print_level [OF this, of st e 51] x(1) y(1) assms show ?thesis by (simp add: text_of_def)
qed

lemma on_screen_simps [simp]:
  "bs_kbd (on_screen v st) = bs_kbd st" "tt_over_serial (bs_tty (on_screen v st)) = tt_over_serial (bs_tty st)"
  "on_screen w (on_screen v st) = on_screen w st" "bs_timer (on_screen v st) = bs_timer st" "bs_tss (on_screen v st) = bs_tss st"
  "bs_kinfo (on_screen v st) = bs_kinfo st" "bs_idt (on_screen v st) = bs_idt st" "tt_video (bs_tty (on_screen v st)) = v"
  "bs_kbd (set_kbd kb st) = kb" "tt_over_serial (bs_tty (set_kbd kb st)) = tt_over_serial (bs_tty st)" "bs_timer (set_kbd kb st) = bs_timer st"
  "bs_tss (set_kbd kb st) = bs_tss st" "bs_kinfo (set_kbd kb st) = bs_kinfo st" "bs_idt (set_kbd kb st) = bs_idt st"
  "tt_video (bs_tty (set_kbd kb st)) = tt_video (bs_tty st)"
  by (simp_all add: on_screen_def set_kbd_def)

lemma show_regions_ok:
  assumes "i + n \<le> length table" "\<not> tt_over_serial (bs_tty st)"
  shows "\<exists>v. show_regions e table i n st = Some (on_screen v st)"
  using assms
proof (induction n arbitrary: i st)
  case 0
  have "st = on_screen (tt_video (bs_tty st)) st" by (simp add: on_screen_def)
  then show ?case by (metis show_regions.simps(1))
next
  case (Suc n)
  obtain v where "bs_print e (KERN_INFO @ text_of ''%0.9x:%0.9x - %s'' @ [10]) [AWord (base_addr_low (table ! i)),
      AWord (base_addr_low (table ! i) + length_low (table ! i)), AStr (region_type (table ! i))] st = Some (on_screen v st)"
    using region_message [OF length_region_type Suc.prems(2)] by blast
  moreover obtain w where "show_regions e table (i + 1) n (on_screen v st) = Some (on_screen w (on_screen v st))"
    using Suc.IH [of "i + 1" "on_screen v st"] Suc.prems by auto
  ultimately show ?case using Suc.prems(1) by auto
qed

section \<open>The devices\<close>

text \<open>An exclusive request for a line without handlers, with memory for the handler.\<close>

lemma exclusive_request:
  assumes rep: "irq_rep st lines" "lines_ok lines" and free: "unat irq < 16" "snd (lines (unat irq)) = []"
    and mem: "newh \<noteq> NULL" "newh \<notin> dom (ir_handlers st)" "node \<noteq> NULL" "node \<notin> dom (ir_nodes st)"
  shows "\<exists>st'. request_irq newh old node irq handler 0 name st = Some (1, st')
    \<and> irq_rep st' (lines(unat irq := (False, [new_handler old handler name 1])))
    \<and> lines_ok (lines(unat irq := (False, [new_handler old handler name 1])))
    \<and> dom (ir_handlers st') \<subseteq> insert newh (dom (ir_handlers st)) \<and> dom (ir_nodes st') \<subseteq> insert node (dom (ir_nodes st))"
proof -
  have spec: "request_spec newh old irq handler 0 name lines = (1, lines(unat irq := (False, [new_handler old handler name 1])))"
    using free mem(1) by (simp add: request_spec_def Let_def)
  from request_irq_refines [OF rep mem(2-4), of old irq handler 0 name] request_spec_ok [OF rep(2), of newh old irq handler 0 name] mem(1)
  show ?thesis unfolding spec by auto
qed

abbreviation (input) queued :: "ptr \<times> irq_handler \<times> ptr \<Rightarrow> ptr \<Rightarrow> byte list \<Rightarrow> bool \<times> irq_handler list" where
  "queued mem handler name \<equiv> (False, [new_handler (fst (snd mem)) handler name 1])"

lemma start_timer_ok:
  assumes mem: "se_timer_mem e = (newh, old, node)" "newh \<noteq> NULL" "newh \<notin> dom (ir_handlers (kb_irq (bs_kbd st)))"
      "node \<noteq> NULL" "node \<notin> dom (ir_nodes (kb_irq (bs_kbd st)))"
    and rep: "irq_rep (kb_irq (bs_kbd st)) lines" "lines_ok lines" "snd (lines 0) = []" and ser: "\<not> tt_over_serial (bs_tty st)"
  shows "\<exists>v ir. start_timer e st = Some (on_screen v (set_kbd ((bs_kbd st)\<lparr>kb_irq := ir, kb_sched := (kb_sched (bs_kbd st))\<lparr>sc_jiffies := 0\<rparr>\<rparr>)
      (st\<lparr>bs_timer := init_timer ((bs_timer st)\<lparr>tm_sched := kb_sched (bs_kbd st)\<rparr>)\<rparr>)))
    \<and> irq_rep ir (lines(0 := queued (se_timer_mem e) (se_timer_handler e) (text_of ''PIT'')))
    \<and> lines_ok (lines(0 := queued (se_timer_mem e) (se_timer_handler e) (text_of ''PIT'')))
    \<and> dom (ir_handlers ir) \<subseteq> insert newh (dom (ir_handlers (kb_irq (bs_kbd st)))) \<and> dom (ir_nodes ir) \<subseteq> insert node (dom (ir_nodes (kb_irq (bs_kbd st))))"
proof -
  let ?tm = "init_timer ((bs_timer st)\<lparr>tm_sched := kb_sched (bs_kbd st)\<rparr>)"
  let ?st = "set_kbd ((bs_kbd st)\<lparr>kb_sched := tm_sched ?tm\<rparr>) (st\<lparr>bs_timer := ?tm\<rparr>)"
  obtain v where v: "bs_print e (KERN_INFO @ text_of ''Initializing timer...'' @ [10]) [] ?st = Some (on_screen v ?st)"
    using bs_print_text [of "text_of ''Initializing timer...'' @ [10]" ?st e 51] ser by (auto simp: text_of_def set_kbd_def)
  from exclusive_request [OF rep(1,2), of 0 newh node old "se_timer_handler e" "text_of ''PIT''"] mem rep(3) obtain ir where
    r: "request_irq newh old node 0 (se_timer_handler e) 0 (text_of ''PIT'') (kb_irq (bs_kbd st)) = Some (1, ir)"
      "irq_rep ir (lines(0 := (False, [new_handler old (se_timer_handler e) (text_of ''PIT'') 1])))"
      "lines_ok (lines(0 := (False, [new_handler old (se_timer_handler e) (text_of ''PIT'') 1])))"
      "dom (ir_handlers ir) \<subseteq> insert newh (dom (ir_handlers (kb_irq (bs_kbd st))))" "dom (ir_nodes ir) \<subseteq> insert node (dom (ir_nodes (kb_irq (bs_kbd st))))"
    by auto
  have "tm_sched ?tm = (kb_sched (bs_kbd st))\<lparr>sc_jiffies := 0\<rparr>" by (simp add: init_timer_def)
  then have "start_timer e st = Some (on_screen v (set_kbd ((bs_kbd st)\<lparr>kb_irq := ir, kb_sched := (kb_sched (bs_kbd st))\<lparr>sc_jiffies := 0\<rparr>\<rparr>) (st\<lparr>bs_timer := ?tm\<rparr>)))"
    using v r(1) mem(1) by (simp add: start_timer_def Let_def) (simp add: set_kbd_def on_screen_def)
  with r show ?thesis using mem(1) by auto
qed

lemma calibrate_ok:
  assumes "\<And>h. \<exists>n. time_after_eq (jiffies (se_m e) ((se_tick e ^^ n) h)) (jiffies (se_m e) h + HZ div 10)" "\<not> tt_over_serial (bs_tty st)"
  shows "\<exists>v h b. calibrate e st = Some (on_screen v (set_kbd ((bs_kbd st)\<lparr>kb_hw := h\<rparr>) (st\<lparr>bs_bogomips := b\<rparr>)))"
proof -
  obtain v where v: "bs_print e (KERN_INFO @ text_of ''Calibrating loop delay...'') [] st = Some (on_screen v st)"
    using bs_print_text [of "text_of ''Calibrating loop delay...''" st e 51] assms(2) by (auto simp: text_of_def)
  obtain n where "time_after_eq (jiffies (se_m e) ((se_tick e ^^ n) (kb_hw (bs_kbd st)))) (jiffies (se_m e) (kb_hw (bs_kbd st)) + HZ div 10)"
    using assms(1) by blast
  from calibrate_delay_returns [OF this] obtain b h where c: "calibrate_delay (se_m e) (se_tick e) (kb_hw (bs_kbd st)) = Some (b, h)" by blast
  let ?st = "set_kbd ((bs_kbd st)\<lparr>kb_hw := h\<rparr>) ((on_screen v st)\<lparr>bs_bogomips := b\<rparr>)"
  have "\<not> tt_over_serial (bs_tty ?st)" using assms(2) by (simp add: set_kbd_def on_screen_def)
  from bogomips_message [OF this, of e b] obtain w where "bs_print e (KERN_INFO @ text_of ''%d BogoMIPS'' @ [10]) [AWord b] ?st = Some (on_screen w ?st)" by blast
  then have "calibrate e st = Some (on_screen w (set_kbd ((bs_kbd st)\<lparr>kb_hw := h\<rparr>) (st\<lparr>bs_bogomips := b\<rparr>)))"
    using v c by (simp add: calibrate_def) (simp add: set_kbd_def on_screen_def)
  then show ?thesis by blast
qed

lemma init_8042_ok:
  assumes mem: "se_kbd_mem e = (newh, old, node)" "newh \<noteq> NULL" "newh \<notin> dom (ir_handlers (kb_irq (bs_kbd st)))"
      "node \<noteq> NULL" "node \<notin> dom (ir_nodes (kb_irq (bs_kbd st)))"
    and rep: "irq_rep (kb_irq (bs_kbd st)) lines" "lines_ok lines" "snd (lines 1) = []" and tick: "ticking (se_m e)"
    and ser: "\<not> tt_over_serial (bs_tty st)"
  shows "\<exists>v h ir. init_8042 e st = Some (on_screen v (set_kbd ((bs_kbd st)\<lparr>kb_write := 0, kb_read := 0, kb_irq := ir, kb_hw := h\<rparr>) st))
    \<and> irq_rep ir (lines(1 := queued (se_kbd_mem e) (se_kbd_handler e) (text_of ''i8042'')))"
proof -
  obtain v where v: "bs_print e (KERN_INFO @ text_of ''Initializing i8042 keyboard controller...'' @ [10]) [] st = Some (on_screen v st)"
    using bs_print_text [of "text_of ''Initializing i8042 keyboard controller...'' @ [10]" st e 51] ser by (auto simp: text_of_def)
  obtain h where h: "kbc_sendcomm (se_m e) 0xAE (kb_hw (bs_kbd st)) = Some h" using kbc_sendcomm_returns [OF tick] by blast
  have "unat (1 :: u16) = 1" by simp
  with exclusive_request [OF rep(1,2), of 1 newh node old "se_kbd_handler e" "text_of ''i8042''"] mem rep(3) obtain ir where
    r: "request_irq newh old node 1 (se_kbd_handler e) 0 (text_of ''i8042'') (kb_irq (bs_kbd st)) = Some (1, ir)"
      "irq_rep ir (lines(1 := (False, [new_handler old (se_kbd_handler e) (text_of ''i8042'') 1])))"
    by auto
  obtain b g where "inb (se_m e) KBD_OUT_BUF h = (b, g)" by (cases "inb (se_m e) KBD_OUT_BUF h")
  with v h r mem(1) show ?thesis
    by (intro exI [of _ v] exI [of _ g] exI [of _ ir]) (simp add: init_8042_def Let_def, simp add: set_kbd_def on_screen_def)
qed

text \<open>What the start of the kernel relies on: the screen is the console, the clock goes on, also during the waiting loops of the
  keyboard driver, and the allocations for the two handlers give fresh memory.\<close>

definition start_ok :: "'h start_env \<Rightarrow> 'h boot_state \<Rightarrow> bool" where
  "start_ok e st \<longleftrightarrow> \<not> tt_over_serial (bs_tty st) \<and> ticking (se_m e)
     \<and> (\<forall>h. \<exists>n. time_after_eq (jiffies (se_m e) ((se_tick e ^^ n) h)) (jiffies (se_m e) h + HZ div 10))
     \<and> (case (se_timer_mem e, se_kbd_mem e) of ((h1, old1, n1), (h2, old2, n2)) \<Rightarrow>
          distinct [NULL, h1, h2] \<and> distinct [NULL, n1, n2]
          \<and> {h1, h2} \<inter> dom (ir_handlers (kb_irq (bs_kbd st))) = {} \<and> {n1, n2} \<inter> dom (ir_nodes (kb_irq (bs_kbd st))) = {})"

definition boot_lines :: "'h start_env \<Rightarrow> irq_lines" where
  "boot_lines e = (\<lambda>_. (True, []))(0 := queued (se_timer_mem e) (se_timer_handler e) (text_of ''PIT''),
     1 := queued (se_kbd_mem e) (se_kbd_handler e) (text_of ''i8042''))"

lemma start_devices_ok:
  assumes ok: "start_ok e st" and rep: "irq_rep (kb_irq (bs_kbd st)) (\<lambda>_. (True, []))"
  shows "\<exists>st'. start_devices e st = Some st' \<and> \<not> tt_over_serial (bs_tty st') \<and> irq_rep (kb_irq (bs_kbd st')) (boot_lines e)
    \<and> kb_sched (bs_kbd st') = init_wait_queues ((kb_sched (bs_kbd st))\<lparr>sc_jiffies := 0\<rparr>) \<and> tm_queue (bs_timer st') = NULL
    \<and> bs_kinfo st' = bs_kinfo st \<and> bs_tss st' = bs_tss st \<and> bs_idt st' = bs_idt st"
proof -
  obtain h1 old1 n1 where m1: "se_timer_mem e = (h1, old1, n1)" by (cases "se_timer_mem e")
  obtain h2 old2 n2 where m2: "se_kbd_mem e = (h2, old2, n2)" by (cases "se_kbd_mem e")
  have o: "\<not> tt_over_serial (bs_tty st)" "ticking (se_m e)"
    "\<And>h. \<exists>n. time_after_eq (jiffies (se_m e) ((se_tick e ^^ n) h)) (jiffies (se_m e) h + HZ div 10)"
    "h1 \<noteq> NULL" "h2 \<noteq> NULL" "h1 \<noteq> h2" "n1 \<noteq> NULL" "n2 \<noteq> NULL" "n1 \<noteq> n2"
    "h1 \<notin> dom (ir_handlers (kb_irq (bs_kbd st)))" "h2 \<notin> dom (ir_handlers (kb_irq (bs_kbd st)))"
    "n1 \<notin> dom (ir_nodes (kb_irq (bs_kbd st)))" "n2 \<notin> dom (ir_nodes (kb_irq (bs_kbd st)))"
    using ok by (simp_all add: start_ok_def m1 m2)
  from start_timer_ok [OF m1 o(4,10,7,12) rep lines_ok_init _ o(1)] obtain v ir where
    t: "start_timer e st = Some (on_screen v (set_kbd ((bs_kbd st)\<lparr>kb_irq := ir, kb_sched := (kb_sched (bs_kbd st))\<lparr>sc_jiffies := 0\<rparr>\<rparr>)
      (st\<lparr>bs_timer := init_timer ((bs_timer st)\<lparr>tm_sched := kb_sched (bs_kbd st)\<rparr>)\<rparr>)))"
      "irq_rep ir ((\<lambda>_. (True, []))(0 := queued (se_timer_mem e) (se_timer_handler e) (text_of ''PIT'')))"
      "lines_ok ((\<lambda>_. (True, []))(0 := queued (se_timer_mem e) (se_timer_handler e) (text_of ''PIT'')))"
      "dom (ir_handlers ir) \<subseteq> insert h1 (dom (ir_handlers (kb_irq (bs_kbd st))))" "dom (ir_nodes ir) \<subseteq> insert n1 (dom (ir_nodes (kb_irq (bs_kbd st))))"
    by auto
  define s1 where "s1 = on_screen v (set_kbd ((bs_kbd st)\<lparr>kb_irq := ir, kb_sched := (kb_sched (bs_kbd st))\<lparr>sc_jiffies := 0\<rparr>\<rparr>)
      (st\<lparr>bs_timer := init_timer ((bs_timer st)\<lparr>tm_sched := kb_sched (bs_kbd st)\<rparr>)\<rparr>))"
  have s1: "\<not> tt_over_serial (bs_tty s1)" "bs_kbd s1 = (bs_kbd st)\<lparr>kb_irq := ir, kb_sched := (kb_sched (bs_kbd st))\<lparr>sc_jiffies := 0\<rparr>\<rparr>"
    "tm_queue (bs_timer s1) = NULL" "bs_kinfo s1 = bs_kinfo st" "bs_tss s1 = bs_tss st" "bs_idt s1 = bs_idt st"
    using o(1) by (simp_all add: s1_def init_timer_def llist_create_def)
  from calibrate_ok [OF o(3) s1(1)] obtain w h b where
    c: "calibrate e s1 = Some (on_screen w (set_kbd ((bs_kbd s1)\<lparr>kb_hw := h\<rparr>) (s1\<lparr>bs_bogomips := b\<rparr>)))" by blast
  define s2 where "s2 = on_screen w (set_kbd ((bs_kbd s1)\<lparr>kb_hw := h\<rparr>) (s1\<lparr>bs_bogomips := b\<rparr>))"
  have s2: "\<not> tt_over_serial (bs_tty s2)" "kb_irq (bs_kbd s2) = ir" "kb_sched (bs_kbd s2) = (kb_sched (bs_kbd st))\<lparr>sc_jiffies := 0\<rparr>"
    "tm_queue (bs_timer s2) = NULL" "bs_kinfo s2 = bs_kinfo st" "bs_tss s2 = bs_tss st" "bs_idt s2 = bs_idt st"
    using s1 by (simp_all add: s2_def)
  have f: "h2 \<notin> dom (ir_handlers (kb_irq (bs_kbd s2)))" "n2 \<notin> dom (ir_nodes (kb_irq (bs_kbd s2)))" using t(4,5) o(6,9,11,13) s2(2) by auto
  from init_8042_ok [OF m2 o(5) f(1) o(8) f(2) _ t(3) _ o(2) s2(1)] t(2) s2(2) obtain u g ir' where
    k: "init_8042 e s2 = Some (on_screen u (set_kbd ((bs_kbd s2)\<lparr>kb_write := 0, kb_read := 0, kb_irq := ir', kb_hw := g\<rparr>) s2))" "irq_rep ir' (boot_lines e)"
    by (auto simp: boot_lines_def)
  show ?thesis using t(1) c k s2 by (simp add: start_devices_def s1_def [symmetric] s2_def [symmetric])
qed

text \<open>C11: From the interrupt hardware to the first thread: when the clock goes on and the handlers of timer and keyboard get
  fresh memory (\<open>start_ok\<close>), every waiting loop of the two stages ends and every message is printed. The lines of timer and keyboard then have exactly the handlers of their drivers and belong
  to them alone, no alarm and no sleeper is queued, the interrupt table is set up and the data of the boot loader are
  kept. With memory for the first task (and a fresh node for the ring) the processor is handed to it: it is the only and the running task of the ring
  and starts at the main function of the kernel; without, the kernel stops with a message.\<close>
theorem boot_reaches_main_thread:
  assumes ok: "start_ok e st" and map: "mmap_size (bi_info kinf) \<le> length (mmap_table (bi_info kinf))"
    and mem: "se_main_mem e = (newth, old, kstack, node)" "node \<noteq> NULL" "node \<notin> dom (sc_ring (kb_sched (bs_kbd st)))"
  shows "\<exists>st'. irq_rep (kb_irq (bs_kbd st')) (boot_lines e) \<and> tm_queue (bs_timer st') = NULL
    \<and> (\<forall>q < 256. sc_queues (kb_sched (bs_kbd st')) q = NULL) \<and> bs_kinfo st' = kinf \<and> bs_idt st' = fst (setup_IDT (se_isr e) (bs_idt st))
    \<and> (if newth = NULL \<or> kstack = NULL
       then karch_finish e kinf st = Some (Stopped st')
         \<and> (\<exists>w. tt_video (bs_tty st') = kprint (panic_text (text_of ''Error on initialize scheduler!'')) w)
       else karch_finish e kinf st = Some (Jumped newth st') \<and> runq (kb_sched (bs_kbd st')) [(node, newth)] 0
         \<and> (\<exists>th. sc_tasks (kb_sched (bs_kbd st')) newth = Some th \<and> tk_state th = TASK_RUNNING \<and> r_eip (tk_regs th) = se_main e))"
proof -
  let ?k = "karch_interrupts (se_m e) (kb_irq (bs_kbd st), kb_hw (bs_kbd st))"
  define s0 where "s0 = set_kbd ((bs_kbd st)\<lparr>kb_irq := fst ?k, kb_hw := snd ?k\<rparr>) (st\<lparr>bs_idt := fst (setup_IDT (se_isr e) (bs_idt st))\<rparr>)"
  have irq: "fst ?k = init_IRQ (kb_irq (bs_kbd st))" by (simp add: karch_interrupts_def Let_def)
  have ser: "\<not> tt_over_serial (bs_tty st)" using ok by (simp add: start_ok_def)
  obtain v1 where v1: "bs_print e (KERN_INFO @ text_of ''TempOS'' @ [10]) [] s0 = Some (on_screen v1 s0)"
    using bs_print_text [of "text_of ''TempOS'' @ [10]" s0 e 51] ser by (auto simp: text_of_def s0_def set_kbd_def)
  obtain v2 where v2: "show_regions e (mmap_table (bi_info kinf)) 0 (mmap_size (bi_info kinf)) (on_screen v1 s0) = Some (on_screen v2 s0)"
    using show_regions_ok [of 0 "mmap_size (bi_info kinf)" "mmap_table (bi_info kinf)" "on_screen v1 s0" e] map ser by (auto simp: s0_def set_kbd_def)
  obtain v3 where v3: "bs_print e (KERN_INFO @ text_of ''>> First stage done.'' @ [10]) [] (on_screen v2 s0) = Some (on_screen v3 s0)"
    using bs_print_text [of "text_of ''>> First stage done.'' @ [10]" "on_screen v2 s0" e 51] ser by (auto simp: text_of_def s0_def set_kbd_def)
  let ?s = "(on_screen v3 s0)\<lparr>bs_kinfo := kinf\<rparr>"
  have k: "karch_finish e kinf st = tempos_main e kinf (on_screen v3 s0)"
    using v1 v2 v3 by (simp add: karch_finish_def s0_def case_prod_beta Let_def)
  have s: "bs_kbd ?s = (bs_kbd st)\<lparr>kb_irq := init_IRQ (kb_irq (bs_kbd st)), kb_hw := snd ?k\<rparr>" "\<not> tt_over_serial (bs_tty ?s)"
    "bs_idt ?s = fst (setup_IDT (se_isr e) (bs_idt st))"
    using ser irq by (simp_all add: on_screen_def s0_def set_kbd_def)
  have "start_ok e ?s" using ok s by (simp add: start_ok_def init_IRQ_def case_prod_beta)
  from start_devices_ok [OF this] irq_rep_init s(1) obtain s4 where
    d: "start_devices e ?s = Some s4" "\<not> tt_over_serial (bs_tty s4)" "irq_rep (kb_irq (bs_kbd s4)) (boot_lines e)"
      "kb_sched (bs_kbd s4) = init_wait_queues ((kb_sched (bs_kbd st))\<lparr>sc_jiffies := 0\<rparr>)" "tm_queue (bs_timer s4) = NULL"
      "bs_kinfo s4 = kinf" "bs_idt s4 = fst (setup_IDT (se_isr e) (bs_idt st))" using s(3) by auto
  let ?sc = "init_scheduler (kb_sched (bs_kbd s4))"
  have sc: "sc_head ?sc = NULL" "node \<notin> dom (sc_ring ?sc)" "\<forall>q < 256. sc_queues ?sc q = NULL"
    using mem(3) d(4) by (simp_all add: init_scheduler_def init_wait_queues_def c_llist_create_def llist_create_def)
  show ?thesis
  proof (cases "newth = NULL \<or> kstack = NULL")
    case True
    then have "start_scheduler e s4 = Some (NULL, set_kbd ((bs_kbd s4)\<lparr>kb_sched := ?sc\<rparr>) s4)"
      using mem(1) by (auto simp: start_scheduler_def arch_init_scheduler_def)
    moreover define st' where "st' = on_screen (kprint (panic_text (text_of ''Error on initialize scheduler!''))
        (tt_video (bs_tty s4))) (set_kbd ((bs_kbd s4)\<lparr>kb_sched := ?sc\<rparr>) s4)"
    ultimately have "karch_finish e kinf st = Some (Stopped st')"
      using d(1,2) panic_literal [of "text_of ''Error on initialize scheduler!''" "bs_tty (set_kbd ((bs_kbd s4)\<lparr>kb_sched := ?sc\<rparr>) s4)" "se_m e"]
      by (simp add: k tempos_main_def text_of_def) (simp add: on_screen_def)
    moreover have "\<exists>w. tt_video (bs_tty st') = kprint (panic_text (text_of ''Error on initialize scheduler!'')) w" unfolding st'_def by auto
    moreover have "kb_irq (bs_kbd st') = kb_irq (bs_kbd s4)" "kb_sched (bs_kbd st') = ?sc" "bs_timer st' = bs_timer s4" "bs_kinfo st' = bs_kinfo s4" "bs_idt st' = bs_idt s4"
      by (simp_all add: st'_def)
    ultimately show ?thesis using d sc(3) True by (intro exI [of _ st']) simp
  next
    case False
    from arch_init_scheduler_ok [OF sc(1) _ _ mem(2) sc(2), of newth kstack "se_kdir e" old "se_main e" "se_eflags e" "se_esp e" "bs_tss s4"] False
    obtain sc' th where a: "arch_init_scheduler (se_kdir e) newth old kstack node (se_main e) (se_eflags e) (se_esp e) (bs_tss s4) ?sc
        = Some (newth, (bs_tss s4)\<lparr>tss_esp0 := of_nat kstack + of_nat PROCESS_STACK_SIZE\<rparr>, sc')" "runq sc' [(node, newth)] 0" "sc_tasks sc' newth = Some th"
      "tk_state th = TASK_RUNNING" "r_eip (tk_regs th) = se_main e" by auto
    have q: "sc_queues sc' = sc_queues ?sc" using a(1) False by (auto simp: arch_init_scheduler_def Let_def bind_eq_Some_conv)
    let ?st = "set_kbd ((bs_kbd s4)\<lparr>kb_sched := sc'\<rparr>) (s4\<lparr>bs_tss := (bs_tss s4)\<lparr>tss_esp0 := of_nat kstack + of_nat PROCESS_STACK_SIZE\<rparr>\<rparr>)"
    have "karch_finish e kinf st = Some (Jumped newth ?st)" using a(1) d(1) mem(1) False by (simp add: k tempos_main_def start_scheduler_def)
    then show ?thesis using a(2-5) d sc(3) q False by (intro exI [of _ ?st]) simp
  qed
qed

definition demo_start :: "u32 start_env" where
  "demo_start = \<lparr>se_m = stuck_kbc, se_tick = (\<lambda>h. h + 1), se_isr = (\<lambda>_. 0), se_timer_mem = (8, \<lparr>ih_id = 0, ih_name = [], ih_handler = NULL\<rparr>, 16),
     se_timer_handler = 500, se_kbd_mem = (24, \<lparr>ih_id = 0, ih_name = [], ih_handler = NULL\<rparr>, 32), se_kbd_handler = 600,
     se_main_mem = (0x3000, demo_task 0 0, 0x8000, 64), se_main = 0x4000, se_kdir = 0x9000, se_eflags = 2, se_esp = 0x700C\<rparr>"

definition demo_boot :: "u32 boot_state" where
  "demo_boot = \<lparr>bs_tty = \<lparr>tt_kbd = \<lparr>kb_buffer = [], kb_write = 0, kb_read = 0, kb_avail = 0,
       kb_sched = (demo_sched 1 0 0)\<lparr>sc_ring := Map.empty\<rparr>, kb_irq = no_irqs, kb_hw = 0\<rparr>, tt_video = blank_screen, tt_over_serial = False,
       tt_serial = tt_serial (demo_tty False)\<rparr>,
     bs_timer = \<lparr>tm_sched = demo_sched 1 0 0, tm_queue = NULL, tm_nodes = Map.empty, tm_alarms = Map.empty\<rparr>, bs_bogomips = 0,
     bs_kinfo = \<lparr>bi_info = \<lparr>mem_lower = 0, mem_upper = 0, mmap_table = [], mmap_size = 0\<rparr>, bi_mem_lower = 0, bi_cmdline = []\<rparr>,
     bs_tss = fst (snd (setup_GDT 0x6000)), bs_idt = zero_idt\<rparr>"

lemma demo_start_ok: "start_ok demo_start demo_boot"
proof -
  have "((\<lambda>h. h + 1) ^^ n) h = h + of_nat n" for n and h :: u32 by (induction n) (simp_all add: add.assoc)
  then have "time_after_eq (jiffies stuck_kbc (((\<lambda>h. h + 1) ^^ 25) h)) (jiffies stuck_kbc h + HZ div 10)" for h
    by (simp add: time_after_eq_def stuck_kbc_def)
  then show ?thesis using stuck_kbc_ticking
    by (auto simp: start_ok_def demo_start_def demo_boot_def no_irqs_def)
qed

theorem boot_reaches_main_thread_witness:
  "\<exists>st' th. karch_finish demo_start \<lparr>bi_info = \<lparr>mem_lower = 640, mem_upper = 65536, mmap_table = map snd demo_regions, mmap_size = 1\<rparr>,
      bi_mem_lower = 640, bi_cmdline = []\<rparr> demo_boot = Some (Jumped 0x3000 st')
    \<and> sc_tasks (kb_sched (bs_kbd st')) 0x3000 = Some th \<and> r_eip (tk_regs th) = 0x4000"
proof -
  have m: "se_main_mem demo_start = (0x3000, demo_task 0 0, 0x8000, 64)" "se_main demo_start = 0x4000" by (simp_all add: demo_start_def)
  show ?thesis
    using boot_reaches_main_thread [OF demo_start_ok _ m(1), where kinf = "\<lparr>bi_info = \<lparr>mem_lower = 640, mem_upper = 65536,
        mmap_table = map snd demo_regions, mmap_size = 1\<rparr>, bi_mem_lower = 640, bi_cmdline = []\<rparr>"] m(2)
    by (auto simp: demo_regions_def demo_boot_def)
qed

end
