(* ===== verification/Sched_Types.thy ===== *)
theory Sched_Types
  imports Exec_Init First_Thread
begin

text \<open>
  The types of the scheduler's store. C casts the elements of its lists: \<^verbatim>\<open>GET_TASK\<close> takes an element of the ring of tasks, and
  \<^verbatim>\<open>wakeup\<close> one of a wait queue, for a pointer to a task. Here it is shown that these casts are right: every element of a
  node of the ring or of a wait queue is the address of a task, and every operation of the kernel keeps it so, whatever
  other tasks do while one sleeps.
\<close>

section \<open>Typing of the stores\<close>

text \<open>The ring is well formed, has no nodes but its own, names no task twice and only tasks of \<open>S\<close>.\<close>

definition ring_typed :: "ptr set \<Rightarrow> cheap \<Rightarrow> ptr \<Rightarrow> bool" where
  "ring_typed S h l \<longleftrightarrow> (\<exists>ns. is_cllist h l ns \<and> dom h = fst ` set ns \<and> distinct (map snd ns) \<and> snd ` set ns \<subseteq> S)"

definition nodes_in :: "ptr set \<Rightarrow> lheap \<Rightarrow> bool" where
  "nodes_in S h \<longleftrightarrow> (\<forall>a n. h a = Some n \<longrightarrow> ll_element n \<in> S)"

definition sched_typed :: "sched \<Rightarrow> bool" where
  "sched_typed st \<longleftrightarrow> ring_typed (dom (sc_tasks st)) (sc_ring st) (sc_head st) \<and> nodes_in (dom (sc_tasks st)) (sc_nodes st)"

lemma in_mono:
  "ring_typed S h l \<Longrightarrow> S \<subseteq> T \<Longrightarrow> ring_typed T h l" "nodes_in S m \<Longrightarrow> S \<subseteq> T \<Longrightarrow> nodes_in T m"
  unfolding ring_typed_def nodes_in_def by (meson subset_trans, blast)

lemma dseg_elements: "dseg h pv p ns nx lp \<Longrightarrow> (a, e) \<in> set ns \<Longrightarrow> \<exists>n. h a = Some n \<and> cl_element n = e"
  by (induction ns arbitrary: pv p) (auto split: option.splits)

lemma ring_typed_element:
  assumes "ring_typed S h l" "h a = Some n"
  shows "cl_element n \<in> S"
proof -
  obtain ns where ns: "is_cllist h l ns" "dom h = fst ` set ns" "snd ` set ns \<subseteq> S" using assms(1) by (auto simp: ring_typed_def)
  then obtain e where e: "(a, e) \<in> set ns" using assms(2) by force
  then have "ns \<noteq> []" by auto
  then have "dseg h (fst (last ns)) l ns l (fst (last ns))" using ns(1) by (simp add: is_cllist_def)
  then show ?thesis using dseg_elements e assms(2) ns(3) by fastforce
qed

lemma ring_typed_add:
  assumes "ring_typed S h l" "e \<notin> S" "node \<noteq> NULL \<longrightarrow> node \<notin> dom h" "c_llist_add h l e node = Some (r, l', h')"
  shows "ring_typed (insert e S) h' l'"
proof (cases "node = NULL")
  case True
  then have "h' = h" "l' = l" using assms(4) by (simp_all add: c_llist_add_def)
  then show ?thesis using in_mono(1) [OF assms(1) subset_insertI] by simp
next
  case False
  obtain ns where ns: "is_cllist h l ns" "dom h = fst ` set ns" "distinct (map snd ns)" "snd ` set ns \<subseteq> S"
    using assms(1) by (auto simp: ring_typed_def)
  from c_llist_add_ok [OF ns(1) False, of e] assms(3,4) False
  have "is_cllist h' l' (ns @ [(node, e)])" "dom h' = insert node (dom h)" by auto
  then show ?thesis unfolding ring_typed_def using ns assms(2) by (intro exI [of _ "ns @ [(node, e)]"]) auto
qed

text \<open>A task that is taken out of the ring is in no node of it, as long as it was not the only one.\<close>

lemma remove_node_drops:
  assumes "distinct (map snd ns)"
  shows "snd ` set (remove_node e ns) = snd ` set ns - {e}" "set (remove_node e ns) \<subseteq> set ns" "distinct (map snd (remove_node e ns))"
proof -
  have "snd ` set (remove_node e ns) = snd ` set ns - {e} \<and> set (remove_node e ns) \<subseteq> set ns \<and> distinct (map snd (remove_node e ns))"
  proof (cases "e \<in> snd ` set ns")
    case True
    then obtain a where "(a, e) \<in> set ns" by force
    then obtain xs ys where ns: "ns = xs @ (a, e) # ys" by (auto dest: split_list)
    then have "e \<notin> snd ` set xs" using assms by auto
    then have "remove_node e ns = xs @ ys" using ns by (simp add: remove_node_split)
    then show ?thesis using assms ns by auto
  next
    case False
    then show ?thesis using assms by (simp add: remove_node_notin)
  qed
  then show "snd ` set (remove_node e ns) = snd ` set ns - {e}" "set (remove_node e ns) \<subseteq> set ns" "distinct (map snd (remove_node e ns))" by blast+
qed

lemma ring_typed_remove:
  assumes "ring_typed S h l" "c_llist_remove h l e = Some (r, l', h')" "h' \<noteq> Map.empty"
  shows "ring_typed (S - {e}) h' l'"
proof -
  obtain ns where ns: "is_cllist h l ns" "dom h = fst ` set ns" "distinct (map snd ns)" "snd ` set ns \<subseteq> S"
    using assms(1) by (auto simp: ring_typed_def)
  have "2 \<le> length ns \<or> e \<notin> snd ` set ns"
  proof (rule ccontr)
    assume "\<not> ?thesis"
    then obtain a where "ns = [(a, e)]" by (cases ns) (auto simp: Suc_le_eq)
    then obtain n where "l = a" "a \<noteq> NULL" "h a = Some n" "cl_element n = e" "cl_prev n = a" "cl_next n = a" "dom h = {a}"
      using is_cllist_Cons [of h l a e "[]"] ns(1,2) by auto
    then have "h' = (h(a := None))" using assms(2)
      by (auto simp: c_llist_remove_def c_llist_unlink_def set_prev_def set_next_def kfree_cnode_def)
    moreover have "h x = None" if "x \<noteq> a" for x using \<open>dom h = {a}\<close> that by blast
    ultimately have "h' x = None" for x by simp
    then have "h' = Map.empty" by (rule ext)
    with assms(3) show False by simp
  qed
  from c_llist_remove_ok [OF ns(1) this] assms(2) have rm: "is_cllist h' l' (remove_node e ns)"
    "dom h' = dom h - (fst ` set ns - fst ` set (remove_node e ns))" by auto
  note d = remove_node_drops [OF ns(3), of e]
  have "dom h' = fst ` set (remove_node e ns)" using rm(2) ns(2) d(2) by auto
  then show ?thesis unfolding ring_typed_def using rm(1) d(1,3) ns(4) by (intro exI [of _ "remove_node e ns"]) auto
qed

lemma nodes_in_add: "nodes_in S h \<Longrightarrow> e \<in> S \<Longrightarrow> llist_add h l e new = Some (r, l', h') \<Longrightarrow> nodes_in S h'"
  by (auto simp: llist_add_def Let_def nodes_in_def bind_eq_Some_conv split: if_splits)

lemma nodes_in_remove: "nodes_in S h \<Longrightarrow> llist_remove h l e = Some (r, l', h') \<Longrightarrow> nodes_in S h'"
  by (auto simp: llist_remove_def llist_unlink_def kfree_node_def nodes_in_def bind_eq_Some_conv split: if_splits option.splits)

lemma dom_upd_at: "upd_at h a f = Some h' \<Longrightarrow> dom h' = dom h \<and> a \<in> dom h"
  by (auto simp: upd_at_def split: option.splits if_splits)

lemma dom_set_state: "set_state ts t s = Some ts' \<Longrightarrow> dom ts' = dom ts"
  unfolding set_state_def using dom_upd_at by blast

section \<open>Operations\<close>

text \<open>An operation that leaves the nodes alone and keeps the tasks.\<close>

definition same_shape :: "sched \<Rightarrow> sched \<Rightarrow> bool" where
  "same_shape st st' \<longleftrightarrow> sc_ring st' = sc_ring st \<and> sc_head st' = sc_head st \<and> sc_nodes st' = sc_nodes st
     \<and> dom (sc_tasks st') = dom (sc_tasks st)"

lemma same_shape_refl [simp]: "same_shape st st"
  by (simp add: same_shape_def)

lemma typed_same_shape: "same_shape st st' \<Longrightarrow> sched_typed st \<Longrightarrow> sched_typed st'"
  by (simp add: same_shape_def sched_typed_def)

lemma switch_to_shape: "switch_to t st = Some st' \<Longrightarrow> same_shape st st'"
  by (auto simp: switch_to_def bind_eq_Some_conv split: if_splits dest!: dom_set_state) (simp_all add: same_shape_def)

lemma schedule_loop_shape:
  assumes run: "schedule_loop head tmp st = Some st'"
  shows "same_shape st st'" (is "?P head tmp st st'")
proof (rule schedule_loop.raw_induct [where P = ?P, OF _ run])
  fix loop head tmp st st'
  assume IH: "\<And>h t s s'. loop h t s = Some s' \<Longrightarrow> ?P h t s s'"
    and body: "do { n \<leftarrow> sc_ring st tmp; let tmp = cl_next n; p \<leftarrow> GET_TASK (sc_ring st) tmp; c_task \<leftarrow> sc_tasks st p;
      if tk_state c_task = TASK_RUNNING \<or> tk_state c_task = TASK_READY_TO_RUN then switch_to tmp st
      else if tmp = head then loop head tmp st else Some st } = Some st'"
  show "?P head tmp st st'" using body switch_to_shape IH
    by (auto simp: bind_eq_Some_conv Let_def split: if_splits)
qed

lemma schedule_shape: "schedule st = Some st' \<Longrightarrow> same_shape st st'"
  by (auto simp: schedule_def split: if_splits dest: schedule_loop_shape)

lemma do_schedule_shape: "do_schedule st = Some st' \<Longrightarrow> same_shape st st'"
  by (auto simp: do_schedule_def split: if_splits dest!: schedule_shape) (simp_all add: same_shape_def)

lemma wakeup_loop_typed:
  assumes run: "wakeup_loop ts nodes queue tmp = Some r"
  shows "\<forall>S. nodes_in S nodes \<longrightarrow> nodes_in S (snd r) \<and> dom (fst r) = dom ts" (is "?P ts nodes queue tmp r")
proof (rule wakeup_loop.raw_induct [where P = ?P, OF _ run])
  fix loop ts nodes queue tmp r
  assume IH: "\<And>ts nodes queue tmp r. loop ts nodes queue tmp = Some r \<Longrightarrow> ?P ts nodes queue tmp r"
    and body: "(if tmp \<noteq> NULL then do { n \<leftarrow> nodes tmp; ts1 \<leftarrow> set_state ts (ll_element n) TASK_READY_TO_RUN;
      (r, queue', nodes') \<leftarrow> llist_remove nodes queue tmp; n' \<leftarrow> nodes' tmp; loop ts1 nodes' queue' (ll_next n') } else Some (ts, nodes)) = Some r"
  show "?P ts nodes queue tmp r" using body
    by (clarsimp simp: bind_eq_Some_conv split: if_splits dest!: IH dom_set_state) (meson nodes_in_remove)+
qed

lemma wakeup_typed: "wakeup a st = Some st' \<Longrightarrow> sched_typed st \<Longrightarrow> sched_typed st'"
  by (auto simp: wakeup_def Let_def bind_eq_Some_conv sched_typed_def split: if_splits dest!: wakeup_loop_typed)

text \<open>The memory that an operation gets for a task and for its node in the ring is not in use.\<close>

definition fresh_mem :: "ptr \<Rightarrow> ptr \<Rightarrow> sched \<Rightarrow> bool" where
  "fresh_mem newth node st \<longleftrightarrow> (newth \<noteq> NULL \<longrightarrow> newth \<notin> dom (sc_tasks st)) \<and> (node \<noteq> NULL \<longrightarrow> node \<notin> dom (sc_ring st))"

text \<open>A new task that is put into the ring.\<close>

lemma typed_new_task:
  assumes "sched_typed st" "fresh_mem newth node st" "newth \<noteq> NULL" "c_llist_add (sc_ring st) (sc_head st) newth node = Some (r, l', ring)"
    and "sc_ring st' = ring" "sc_head st' = l'" "sc_nodes st' = sc_nodes st" "sc_tasks st' = (sc_tasks st)(newth \<mapsto> t)"
  shows "sched_typed st'"
proof -
  have "ring_typed (insert newth (dom (sc_tasks st))) ring l'"
    using ring_typed_add [OF _ _ _ assms(4)] assms(1-3) by (simp add: sched_typed_def fresh_mem_def)
  moreover have "nodes_in (insert newth (dom (sc_tasks st))) (sc_nodes st)"
    using assms(1) in_mono(2) [OF _ subset_insertI] by (simp add: sched_typed_def)
  ultimately show ?thesis using assms(5-8) by (simp add: sched_typed_def)
qed

lemma setup_task_same:
  assumes "setup_task kdir t start st = Some st'" "t \<noteq> NULL"
  shows "sc_ring st' = sc_ring st \<and> sc_head st' = sc_head st \<and> sc_nodes st' = sc_nodes st \<and> (\<exists>x. sc_tasks st' = (sc_tasks st)(t \<mapsto> x))"
  using assms by (auto simp: setup_task_def Let_def bind_eq_Some_conv case_prod_beta)

lemma create_typed:
  assumes c: "kernel_thread_create kdir fx newth old ks node pr start arg st = Some (r, st')" and ty: "sched_typed st"
    and fr: "fresh_mem newth node st"
  shows "sched_typed st'"
proof (cases "newth = NULL \<or> ks = NULL")
  case True
  then show ?thesis using c ty unfolding kernel_thread_create_def by (cases "newth = NULL") simp_all
next
  case False
  then obtain t m st1 l ring q where
    s: "setup_task kdir newth start (st\<lparr>sc_tasks := (sc_tasks st)(newth \<mapsto> t), sc_mem := m\<rparr>) = Some st1"
      "c_llist_add (sc_ring st1) (sc_head st1) newth node = Some (q, l, ring)" "st' = st1\<lparr>sc_head := l, sc_ring := ring\<rparr>"
    using c by (auto simp: kernel_thread_create_def Let_def bind_eq_Some_conv case_prod_beta)
  from setup_task_same [OF s(1)] False obtain x where
    x: "sc_ring st1 = sc_ring st" "sc_head st1 = sc_head st" "sc_nodes st1 = sc_nodes st" "sc_tasks st1 = (sc_tasks st)(newth \<mapsto> x)" by auto
  show ?thesis by (rule typed_new_task [OF ty fr _ s(2) [unfolded x(1,2)]]) (use False in \<open>simp_all add: s(3) x\<close>)
qed

lemma get_new_pid_same: "get_new_pid st = Some (p, st') \<Longrightarrow> sc_ring st' = sc_ring st \<and> sc_nodes st' = sc_nodes st \<and> sc_tasks st' = sc_tasks st \<and> sc_head st' = sc_head st"
  by (auto simp: get_new_pid_def split: if_splits)

lemma typed_pid: "get_new_pid st = Some (p, st') \<Longrightarrow> sched_typed st \<Longrightarrow> sched_typed st'"
  by (auto dest: get_new_pid_same simp: sched_typed_def)

lemma typed_more_tasks:
  "sched_typed st \<Longrightarrow> sc_ring st' = sc_ring st \<Longrightarrow> sc_head st' = sc_head st \<Longrightarrow> sc_nodes st' = sc_nodes st \<Longrightarrow> sc_tasks st' = (sc_tasks st)(newth \<mapsto> t) \<Longrightarrow> sched_typed st'"
  unfolding sched_typed_def using in_mono by (metis dom_fun_upd option.distinct(1) subset_insertI)

lemma fork_typed:
  assumes f: "fork newth stack node thread st = Some (r, st')" and ty: "sched_typed st" and fr: "fresh_mem newth node st"
  shows "sched_typed st'"
proof (cases "newth = NULL \<or> stack = NULL")
  case True
  then show ?thesis using f ty unfolding fork_def by (cases "newth = NULL") simp_all
next
  case False
  from False f obtain t0 where t0: "sc_tasks st thread = Some t0" by (cases "sc_tasks st thread") (simp_all add: fork_def)
  from False f obtain p st1 where pid: "get_new_pid st = Some (p, st1)" by (cases "get_new_pid st") (auto simp: fork_def t0)
  define k where "k = stack + unat (of_nat (tk_stack_base t0) + of_nat PROCESS_STACK_SIZE - r_esp (tk_regs t0) :: u32)"
  define t where "t = t0\<lparr>tk_pid := p, tk_stack_base := stack, tk_kstack := k, tk_regs := (tk_regs t0)\<lparr>r_esp := of_nat k\<rparr>\<rparr>"
  define m where "m = copy_mem (sc_mem st1) stack (tk_stack_base t0) PROCESS_STACK_SIZE"
  define st2 where "st2 = st1\<lparr>sc_tasks := (sc_tasks st1)(newth \<mapsto> t), sc_mem := m\<rparr>"
  have "do { q \<leftarrow> GET_TASK (sc_ring st2) (sc_cur st2); c \<leftarrow> sc_tasks st2 q;
      if tk_pid c = p then Some (0, st2)
      else do { (r, l, ring) \<leftarrow> c_llist_add (sc_ring st2) (sc_head st2) newth node;
        Some (p, st2\<lparr>sc_head := l, sc_ring := ring\<rparr>) } } = Some (r, st')"
    using f False unfolding st2_def t_def m_def k_def by (simp only: fork_def t0 pid Let_def bind.bind_lunit prod.case de_Morgan_disj if_False simp_thms)
  then have c: "st' = st1\<lparr>sc_tasks := (sc_tasks st1)(newth \<mapsto> t), sc_mem := m\<rparr> \<or>
      (\<exists>q l ring. c_llist_add (sc_ring st1) (sc_head st1) newth node = Some (q, l, ring)
        \<and> st' = st1\<lparr>sc_tasks := (sc_tasks st1)(newth \<mapsto> t), sc_mem := m, sc_head := l, sc_ring := ring\<rparr>)"
    by (auto simp: st2_def bind_eq_Some_conv split: if_splits)
  note ty1 = typed_pid [OF pid ty]
  have fr1: "fresh_mem newth node st1" using fr get_new_pid_same [OF pid] by (simp add: fresh_mem_def)
  from c show ?thesis
  proof (elim disjE exE conjE)
    assume "st' = st1\<lparr>sc_tasks := (sc_tasks st1)(newth \<mapsto> t), sc_mem := m\<rparr>"
    then show ?thesis using typed_more_tasks [OF ty1, of st' newth t] by simp
  next
    fix q l ring
    assume "c_llist_add (sc_ring st1) (sc_head st1) newth node = Some (q, l, ring)"
      "st' = st1\<lparr>sc_tasks := (sc_tasks st1)(newth \<mapsto> t), sc_mem := m, sc_head := l, sc_ring := ring\<rparr>"
    then show ?thesis using typed_new_task [OF ty1 fr1, of q l ring st' t] False by simp
  qed
qed

lemma exec_init_typed:
  assumes x: "exec_init kdir newth old stack dir node img size0 x = Some x'" and ty: "sched_typed (ex_sched x)"
    and fr: "fresh_mem newth node (ex_sched x)"
  shows "sched_typed (ex_sched x')"
proof (cases "newth = NULL \<or> stack = NULL \<or> dir = NULL")
  case True
  then show ?thesis using x ty unfolding exec_init_def by simp
next
  case False
  then obtain p sc1 t m q l ring where pid: "get_new_pid (ex_sched x) = Some (p, sc1)"
    and c: "c_llist_add (sc_ring sc1) (sc_head sc1) newth node = Some (q, l, ring)"
      "ex_sched x' = sc1\<lparr>sc_tasks := (sc_tasks sc1)(newth \<mapsto> t), sc_mem := m, sc_head := l, sc_ring := ring\<rparr>"
    using x by (auto simp: exec_init_def Let_def bind_eq_Some_conv case_prod_beta)
  have "fresh_mem newth node sc1" using fr get_new_pid_same [OF pid] by (simp add: fresh_mem_def)
  from typed_new_task [OF typed_pid [OF pid ty] this _ c(1)] show ?thesis using False by (simp add: c(2))
qed

lemma arch_init_scheduler_typed:
  assumes "arch_init_scheduler kdir newth old kstack node start fl esp tss st = Some (t, tss', st')" "sched_typed st" "fresh_mem newth node st"
  shows "sched_typed st'"
proof (cases "newth = NULL \<or> kstack = NULL")
  case True
  then show ?thesis using assms unfolding arch_init_scheduler_def by (cases "newth = NULL") simp_all
next
  case False
  then obtain x q l ring where c: "c_llist_add (sc_ring st) (sc_head st) newth node = Some (q, l, ring)"
      "st' = st\<lparr>sc_ring := ring, sc_head := l, sc_cur := l, sc_saved := newth, sc_tasks := (sc_tasks st)(newth \<mapsto> x)\<rparr>"
    using assms(1) by (auto simp: arch_init_scheduler_def Let_def bind_eq_Some_conv)
  from typed_new_task [OF assms(2,3) _ c(1)] show ?thesis using False by (simp add: c(2))
qed

lemma exit_typed: "kernel_thread_exit c st = Some st' \<Longrightarrow> sched_typed st \<Longrightarrow> sched_typed st'"
proof -
  assume "kernel_thread_exit c st = Some st'" "sched_typed st"
  then obtain a ts st1 where "upd_at (sc_tasks st) a (\<lambda>t. t\<lparr>tk_state := TASK_ZOMBIE, tk_return_code := c\<rparr>) = Some ts"
    "wakeup WAIT_KERNEL_THREAD (st\<lparr>sc_tasks := ts\<rparr>) = Some st1" "schedule st1 = Some st'"
    by (auto simp: kernel_thread_exit_def bind_eq_Some_conv)
  moreover from this(1) have "same_shape st (st\<lparr>sc_tasks := ts\<rparr>)" using dom_upd_at by (fastforce simp: same_shape_def)
  ultimately show "sched_typed st'" using \<open>sched_typed st\<close> typed_same_shape wakeup_typed schedule_shape by blast
qed

lemma sleep_on_typed:
  assumes "sleep_on others node a st = Some st'" "sched_typed st" and others: "\<And>s s'. others s = Some s' \<Longrightarrow> sched_typed s \<Longrightarrow> sched_typed s'"
  shows "sched_typed st'"
proof (cases "a < 0 \<or> a \<ge> WAIT_ADDRESS_SIZE")
  case True
  then show ?thesis using assms(1,2) by (auto simp: sleep_on_def bind_eq_Some_conv)
next
  case False
  with assms(1) obtain c ts r q nodes st2 st3 r' q' nodes' where
    s: "set_state (sc_tasks st) c TASK_STOPPED = Some ts" "llist_add (sc_nodes st) (sc_queues st (nat a)) c node = Some (r, q, nodes)"
      "schedule (st\<lparr>sc_tasks := ts, sc_queues := (sc_queues st)(nat a := q), sc_nodes := nodes\<rparr>) = Some st2" "others st2 = Some st3"
      "llist_remove (sc_nodes st3) (sc_queues st3 (nat a)) c = Some (r', q', nodes')"
      "st' = st3\<lparr>sc_queues := (sc_queues st3)(nat a := q'), sc_nodes := nodes'\<rparr>"
    by (auto simp: sleep_on_def bind_eq_Some_conv Let_def)
  have d: "dom ts = dom (sc_tasks st)" "c \<in> dom (sc_tasks st)" using s(1) dom_upd_at unfolding set_state_def by blast+
  have "nodes_in (dom (sc_tasks st)) nodes" using nodes_in_add [OF _ d(2) s(2)] assms(2) by (simp add: sched_typed_def)
  then have "sched_typed (st\<lparr>sc_tasks := ts, sc_queues := (sc_queues st)(nat a := q), sc_nodes := nodes\<rparr>)"
    using assms(2) d(1) by (simp add: sched_typed_def)
  then have "sched_typed st3" using typed_same_shape [OF schedule_shape [OF s(3)]] others [OF s(4)] by blast
  then show ?thesis using nodes_in_remove [OF _ s(5)] by (simp add: s(6) sched_typed_def)
qed

lemma wait_zombie_typed:
  assumes run: "wait_zombie slp th st = Some st'" and slp: "\<And>s s'. slp s = Some s' \<Longrightarrow> sched_typed s \<Longrightarrow> sched_typed s'"
  shows "sched_typed st \<longrightarrow> sched_typed st'"
proof -
  have "(\<forall>s s'. slp s = Some s' \<longrightarrow> sched_typed s \<longrightarrow> sched_typed s') \<longrightarrow> sched_typed st \<longrightarrow> sched_typed st'" (is "?P slp th st st'")
  proof (rule wait_zombie.raw_induct [where P = ?P, OF _ run])
    fix loop slp th st st'
    assume IH: "\<And>slp th s s'. loop slp th s = Some s' \<Longrightarrow> ?P slp th s s'"
      and body: "do { t \<leftarrow> sc_tasks st th; if tk_state t \<noteq> TASK_ZOMBIE then do { st1 \<leftarrow> slp st; loop slp th st1 } else Some st } = Some st'"
    show "?P slp th st st'" using body IH by (auto simp: bind_eq_Some_conv split: if_splits)
  qed
  then show ?thesis using slp by blast
qed

text \<open>The task that is taken out is freed. It has left the wait queues before, and the ring does not become empty: the caller
  is in it.\<close>

definition no_sleeper :: "ptr \<Rightarrow> sched \<Rightarrow> bool" where
  "no_sleeper th st \<longleftrightarrow> (\<forall>a n. sc_nodes st a = Some n \<longrightarrow> ll_element n \<noteq> th)"

lemma wait_typed:
  assumes w: "kernel_thread_wait slp th st = Some (c, st')" and ty: "sched_typed st" and free: "th = NULL \<or> no_sleeper th st' \<and> sc_ring st' \<noteq> Map.empty"
    and slp: "\<And>s s'. slp s = Some s' \<Longrightarrow> sched_typed s \<Longrightarrow> sched_typed s'"
  shows "sched_typed st'"
proof (cases "th = NULL")
  case True
  then show ?thesis using w ty by (simp add: kernel_thread_wait_def)
next
  case False
  with w obtain st1 r l ring where z: "wait_zombie slp th st = Some st1"
    "c_llist_remove (sc_ring st1) (sc_head st1) th = Some (r, l, ring)"
    "st' = st1\<lparr>sc_head := l, sc_ring := ring, sc_tasks := (sc_tasks st1)(th := None)\<rparr>"
    by (auto simp: kernel_thread_wait_def bind_eq_Some_conv)
  have ty1: "sched_typed st1" using wait_zombie_typed [OF z(1)] slp ty by blast
  then have "ring_typed (dom (sc_tasks st1) - {th}) ring l"
    using ring_typed_remove [OF _ z(2)] free False by (simp add: sched_typed_def z(3))
  moreover have "nodes_in (dom (sc_tasks st1) - {th}) (sc_nodes st1)"
    using ty1 free False unfolding sched_typed_def nodes_in_def no_sleeper_def by (auto simp: z(3))
  ultimately show ?thesis by (simp add: sched_typed_def z(3))
qed

section \<open>Runs of the kernel\<close>

text \<open>
  What the kernel does with the scheduler's state: its operations in any order. While a task sleeps or waits for a thread,
  the other tasks run; the argument \<open>others\<close> of \<^const>\<open>sleep_on\<close> and \<open>slp\<close> of \<^const>\<open>kernel_thread_wait\<close> are such runs themselves.
  Memory for tasks and nodes is fresh. A task that is freed after a wait must not be named by a node of a wait queue any more, and
  must not be the only one of the ring (the caller is another one).
\<close>

inductive kernel_run :: "sched \<Rightarrow> sched \<Rightarrow> bool" where
  run_nothing: "kernel_run st st"
| run_then: "kernel_run st st1 \<Longrightarrow> kernel_run st1 st2 \<Longrightarrow> kernel_run st st2"
| run_first: "arch_init_scheduler kdir newth old kstack node start fl esp tss st = Some (t, tss', st') \<Longrightarrow> fresh_mem newth node st \<Longrightarrow> kernel_run st st'"
| run_create: "kernel_thread_create kdir fx newth old ks node pr start arg st = Some (r, st') \<Longrightarrow> fresh_mem newth node st \<Longrightarrow> kernel_run st st'"
| run_fork: "fork newth stack node thread st = Some (p, st') \<Longrightarrow> fresh_mem newth node st \<Longrightarrow> kernel_run st st'"
| run_exec: "exec_init kdir newth old stack dir node img size0 x = Some x' \<Longrightarrow> fresh_mem newth node (ex_sched x) \<Longrightarrow> kernel_run (ex_sched x) (ex_sched x')"
| run_schedule: "schedule st = Some st' \<Longrightarrow> kernel_run st st'"
| run_do_schedule: "do_schedule st = Some st' \<Longrightarrow> kernel_run st st'"
| run_wakeup: "wakeup a st = Some st' \<Longrightarrow> kernel_run st st'"
| run_exit: "kernel_thread_exit c st = Some st' \<Longrightarrow> kernel_run st st'"
| run_sleep: "sleep_on others node a st = Some st' \<Longrightarrow> (\<forall>s s'. others s = Some s' \<longrightarrow> kernel_run s s') \<Longrightarrow> kernel_run st st'"
| run_wait: "kernel_thread_wait slp th st = Some (c, st') \<Longrightarrow> (\<forall>s s'. slp s = Some s' \<longrightarrow> kernel_run s s') \<Longrightarrow>
    th = NULL \<or> no_sleeper th st' \<and> sc_ring st' \<noteq> Map.empty \<Longrightarrow> kernel_run st st'"

lemma kernel_run_typed: "kernel_run st st' \<Longrightarrow> sched_typed st \<Longrightarrow> sched_typed st'"
proof (induction rule: kernel_run.induct)
  case (run_sleep others node a st st')
  then show ?case using sleep_on_typed [OF run_sleep(1)] by blast
next
  case (run_wait slp th st c st')
  then show ?case using wait_typed [OF run_wait(1)] by blast
qed (blast intro: arch_init_scheduler_typed create_typed fork_typed exec_init_typed wakeup_typed exit_typed
  typed_same_shape [OF schedule_shape] typed_same_shape [OF do_schedule_shape])+

lemma initial_typed: "sc_ring st = Map.empty \<Longrightarrow> sc_head st = NULL \<Longrightarrow> sc_nodes st = Map.empty \<Longrightarrow> sched_typed st"
  by (simp add: sched_typed_def ring_typed_def nodes_in_def is_cllist_def)

text \<open>C12: The casts of the scheduler are right. Whatever the kernel does after the start, when no list has a node -- it makes the
  first thread, creates threads, forks, starts programs, schedules, puts tasks to sleep and wakes them, ends threads and waits
  for them, with other tasks running in between --, the ring of tasks is well formed, has no nodes but its own and names no task
  twice, what \<open>GET_TASK\<close> reads from a node of it is the address of a task that is not freed, and so is the element of every node
  of a wait queue, which \<open>wakeup\<close> takes for one. The premises of \<open>kernel_run\<close>: allocations give fresh memory, and
  a thread that was waited for, and is freed, is in no wait queue and not the only task.\<close>
theorem sched_store_typed:
  assumes "kernel_run st st'" and "sc_ring st = Map.empty" and "sc_head st = NULL" and "sc_nodes st = Map.empty"
  shows "(\<exists>ns. is_cllist (sc_ring st') (sc_head st') ns \<and> dom (sc_ring st') = fst ` set ns \<and> distinct (map snd ns))
    \<and> (GET_TASK (sc_ring st') a = Some t \<and> a \<noteq> NULL \<longrightarrow> sc_tasks st' t \<noteq> None) \<and> (sc_nodes st' b = Some n \<longrightarrow> sc_tasks st' (ll_element n) \<noteq> None)"
proof -
  have ty: "sched_typed st'" by (rule kernel_run_typed [OF assms(1) initial_typed [OF assms(2-4)]])
  then have "cl_element m \<in> dom (sc_tasks st')" if "sc_ring st' a = Some m" for m
    using ring_typed_element [of "dom (sc_tasks st')" "sc_ring st'" "sc_head st'" a m] that by (simp only: sched_typed_def)
  then show ?thesis using ty by (auto simp: sched_typed_def ring_typed_def nodes_in_def GET_TASK_def bind_eq_Some_conv)
qed

theorem sched_store_typed_witness:
  "\<exists>st'. kernel_run ((demo_sched 1 0 0)\<lparr>sc_ring := Map.empty, sc_head := NULL, sc_tasks := Map.empty\<rparr>) st'
    \<and> GET_TASK (sc_ring st') 80 = Some 0x5000 \<and> sc_tasks st' 0x5000 \<noteq> None"
proof -
  let ?st = "(demo_sched 1 0 0)\<lparr>sc_ring := Map.empty, sc_head := NULL, sc_tasks := Map.empty\<rparr>"
  have e: "sc_head ?st = NULL" "64 \<notin> dom (sc_ring ?st)" "sc_ring ?st = Map.empty" "sc_nodes ?st = Map.empty" "sc_tasks ?st = Map.empty"
    by (simp_all add: demo_sched_def)
  obtain t1 tss1 st1 where i: "arch_init_scheduler 0x9000 0x3000 (demo_task 0 0) 0x8000 64 0x4000 2 0x700C (fst (snd (setup_GDT 0x6000))) ?st
      = Some (t1, tss1, st1)" "sc_ring st1 = [64 \<mapsto> \<lparr>cl_element = 0x3000, cl_prev = 64, cl_next = 64\<rparr>]" "sc_head st1 = 64" "dom (sc_tasks st1) = {0x3000}"
    by (simp add: e(5) arch_init_scheduler_def c_llist_add_def Let_def)
  obtain p st2 where c: "kernel_thread_create 0x9000 0x7000 0x5000 (demo_task 0 0) 0x20000 80 0 0x4000 7 st1 = Some (p, st2)"
    "GET_TASK (sc_ring st2) 80 = Some 0x5000"
    by (simp add: i kernel_thread_create_def setup_task_def GET_TASK_def c_llist_add_def set_next_def set_prev_def Let_def case_prod_beta)
  have "fresh_mem 0x3000 64 ?st" "fresh_mem 0x5000 80 st1" using e(3,5) i(2,4) by (simp_all add: fresh_mem_def)
  then have "kernel_run ?st st2" using run_then [OF run_first [OF i(1)] run_create [OF c(1)]] by blast
  then show ?thesis using sched_store_typed [OF _ e(3,1,4), of st2 80 "0x5000"] c(2) by auto
qed

end
