(* ===== verification/Spec2Isabelle.thy ===== *)
theory Spec2Isabelle
  imports Linked_List Circular_List C_String Buffer_Cache Kmalloc Paging Vfs
    Semaphore Ext2 Partition Ata Timer Descriptors Cmdline Boot Echo Kernel_Main Syscall
    Second_Stage Sched_Types
begin

text \<open>
  \<^bold>\<open>TempOS: a verification library for the kernel under\<close> \<^verbatim>\<open>src/kernel\<close>.

  TempOS is a small educational kernel for the x86. Its first stage (\<^verbatim>\<open>arch/x86/boot/karch.c\<close>) collects the data of the
  boot loader, sets up paging and the interrupt hardware and enters the second stage (\<^verbatim>\<open>kernel/kernel.c\<close>), which
  starts timer, keyboard, scheduler, disk driver and file system, mounts the root device named on the command line
  and loads the first program. Interrupts drive the rest: the timer tick runs alarms and the scheduler, the disk
  interrupt completes requests of the buffer cache, the keyboard interrupt fills a buffer that programs read with
  a system call.

  \<^bold>\<open>Conventions.\<close>
  \<^item> Machine integers are words of their width, C \<^verbatim>\<open>int\<close> results are integers; pointers are natural numbers with
    \<open>NULL\<close> zero. The objects of one C structure live in a typed store (a partial map from addresses to records);
    raw bytes live in one flat memory.
  \<^item> A result of type \<open>option\<close> is \<open>None\<close> when the code does not return normally: it follows a dangling or null
    pointer, leaves an array, or loops for ever. Loops whose end depends on data are
    \<^theory_text>\<open>partial_function (option)\<close>; there is no fuel anywhere, and where a theorem says that code returns, it says
    that the result is \<open>Some\<close>. Errors that the code reports are ordinary values (\<open>-1\<close>, \<open>0\<close>, \<open>NULL\<close>, \<open>Panic\<close>).
  \<^item> What \<open>kmalloc\<close> returned, and the old contents of that memory and of local arrays, are arguments; so a theorem
    covers every allocation and its failure.
  \<^item> The devices are an argument, too: a \<open>machine\<close> (theory \<open>Port_Io\<close>) answers the I/O instructions over an arbitrary
    state. What the drivers rely on (the controller is ready at some time, the clock goes on) is a named predicate
    (\<open>responsive\<close>, \<open>ticking\<close>, \<open>uart_ready\<close>), and \<open>traced\<close> records what is sent to the ports.
  \<^item> \<open>sleep_on\<close> in the drivers and the file system is an argument, because it stands for everything that happens until
    the sleeper runs again; the scheduler's own \<open>sleep_on\<close> and \<open>wakeup\<close> are modelled in \<open>Sched\<close>. Calls of \<open>wakeup\<close> in the
    buffer cache and the disk driver are recorded as events; those of the keyboard driver run the modelled one.
  \<^item> Function pointers are addresses, and the effect of a call through one is an argument (interrupt handlers, alarms,
    operations of a file system or a block driver).
  \<^item> Assembly is data: theory \<open>X86\<close> has a datatype of the instructions that the kernel uses and runs a list of them on a
    record of registers, segments, flags and memory; gates, \<^verbatim>\<open>iret\<close> and privilege changes follow the descriptor tables that
    \<open>Descriptors\<close> builds. A C function that assembly calls is the argument \<open>code\<close>, which keeps to the calling convention
    (\<open>c_returns\<close>).

  \<^bold>\<open>Interfaces.\<close> Five groups of locales say what one part relies on in another, and each is interpreted on the model:
  \<open>ptr_seq\<close> and \<open>ptr_list\<close> (pointer lists; \<^verbatim>\<open>linkedl.c\<close>, \<^verbatim>\<open>clinkedl.c\<close>; used by interrupt queues, wait queues, timer, disk
  queues), \<open>ring_links\<close> (doubly linked rings; free lists of buffers and of inodes), \<open>polling\<close> (waiting loops; keyboard
  controller, serial line, calibration), \<open>char_source\<close> (the keyboard buffer as its readers see it) and \<open>sector_source\<close> (a
  disk as the partition tables see it; the disk driver with its request queue and interrupt).

  \<^bold>\<open>Theories, in the order of the layers.\<close>
  \<^item> \<open>Prelude\<close>, \<open>List_Interface\<close>, \<open>Free_Ring\<close>, \<open>Port_Io\<close>: types, generic lemmas, the locales above.
  \<^item> \<open>Linked_List\<close>, \<open>Circular_List\<close>, \<open>C_String\<close> (\<^verbatim>\<open>lib/linkedl.c\<close>, \<^verbatim>\<open>lib/clinkedl.c\<close>, \<^verbatim>\<open>lib/ctype.c\<close>, \<^verbatim>\<open>lib/string.c\<close>, \<^verbatim>\<open>lib/stdlib.c\<close>): the lists
    refine sequences of elements; string functions agree with their mathematical meaning on terminated strings.
  \<^item> \<open>Printf\<close> (\<^verbatim>\<open>lib/printf.c\<close>): numbers are printed as decimal numerals that \<open>atoi\<close> reads back, up to the sign.
  \<^item> \<open>Semaphore\<close> (\<^verbatim>\<open>lib/semaphore.c\<close>): what the mutex operations count under interleaving.
  \<^item> \<open>Page_Stack\<close>, \<open>Paging\<close>, \<open>Kmalloc\<close> (\<^verbatim>\<open>arch/x86/mm/mm.c\<close>, \<^verbatim>\<open>kernel/mm\<close>): the page stack holds
    the free pages of the memory map and none of the kernel; no page has two holders while no more are taken than were
    found; the heap finds the first run of free pages and marks it.
  \<^item> \<open>Boot\<close> (\<^verbatim>\<open>arch/x86/boot/karch.c\<close>, \<^verbatim>\<open>kernel/delay.c\<close>), \<open>Descriptors\<close> (\<^verbatim>\<open>arch/x86/gdt.c\<close>, \<^verbatim>\<open>idt.c\<close>), \<open>Cmdline\<close> (\<^verbatim>\<open>kernel/cmdline.c\<close>
    and the root argument of \<^verbatim>\<open>kernel/kernel.c\<close>): the memory map that is passed on, the descriptor tables as the
    processor decodes them, the arguments that are found on the command line.
  \<^item> \<open>Sched\<close>, \<open>Timer\<close> (\<^verbatim>\<open>kernel/sched.c\<close>, \<^verbatim>\<open>wait.c\<close>, \<^verbatim>\<open>thread.c\<close>, \<^verbatim>\<open>fork.c\<close>, \<^verbatim>\<open>timer.c\<close>, \<^verbatim>\<open>arch/x86/kernel/task.c\<close>): round robin, waking up,
    the life of a kernel thread, process numbers, alarms and the wrapping clock.
  \<^item> \<open>Sched_Types\<close>: the operations on tasks as one inductive relation of what the kernel can do; in every state it reaches, the
    ring is well formed and the elements of ring and wait queues are addresses of tasks that are not freed.
  \<^item> \<open>X86\<close>, \<open>Task_Switch\<close>, \<open>First_Thread\<close> (\<^verbatim>\<open>arch/x86/task.S\<close>, \<^verbatim>\<open>arch_init_scheduler\<close> of \<^verbatim>\<open>arch/x86/kernel/task.c\<close>): the processor; a
    thread that was created starts at its routine when it is switched to (with its argument only if the task that is
    left is not a user program), and so does the first one.
  \<^item> \<open>Trap\<close>, \<open>Exceptions\<close>, \<open>Syscall\<close> (\<^verbatim>\<open>arch/x86/isr.S\<close>, \<^verbatim>\<open>arch/x86/kernel/sys_enter.S\<close>, \<^verbatim>\<open>arch/x86/exceptions.c\<close>, \<^verbatim>\<open>dump_cpu.c\<close>, \<^verbatim>\<open>kernel/syscall.c\<close>,
    the stubs of \<^verbatim>\<open>src/apps\<close>): interrupts are transparent to the interrupted program (but for one value on the stack of
    the kernel, which is taken for the sign of a user program), exception handlers report and halt, a call of a user program reaches the function of the table and returns its result.
  \<^item> \<open>Irq\<close> (\<^verbatim>\<open>arch/x86/kernel/irq.c\<close>, \<^verbatim>\<open>i8259A.c\<close>, \<^verbatim>\<open>i82C54.c\<close>): an abstract table of lines (shareable or not, a list of handlers)
    that registration and dispatch refine.
  \<^item> \<open>Buffer_Cache\<close> (\<^verbatim>\<open>fs/bhash.c\<close>, \<^verbatim>\<open>fs/devices.c\<close>), \<open>Ata\<close> (\<^verbatim>\<open>drivers/block/ata_generic.c\<close>), \<open>Partition\<close> (\<^verbatim>\<open>fs/partition.c\<close>): hash
    queues and free list as sequences, least recently used replacement; the commands that reach the controller and
    the completion of requests by its interrupt; the partitions that the format of the boot records defines and what
    becomes of them in the kernel's table. \<open>Ata_Init\<close> is the start of the driver, which reads the
    partition table of a disk through all of them.
  \<^item> \<open>Vfs\<close>, \<open>Ext2\<close> (\<^verbatim>\<open>fs/vfs.c\<close>, \<^verbatim>\<open>fs/namei.c\<close>, \<^verbatim>\<open>fs/mount.c\<close>, \<^verbatim>\<open>fs/ext2/ext2.c\<close>): inodes, directories, path names, block numbers of
    a file, and where an inode is on the disk.
  \<^item> \<open>Keyboard\<close> (\<^verbatim>\<open>drivers/char/i8042.c\<close>), \<open>Console\<close> (\<^verbatim>\<open>arch/x86/boot/video.c\<close>, \<^verbatim>\<open>drivers/tty/serial/serial.c\<close>, the system calls
    \<^verbatim>\<open>kernel/read.c\<close>, \<^verbatim>\<open>write.c\<close>, \<^verbatim>\<open>exit.c\<close>, \<^verbatim>\<open>execve.c\<close>), \<open>Echo\<close> (\<^verbatim>\<open>apps/echo\<close>): the keyboard buffer refines a queue, printing
    keeps to the screen, and in a session of the program the greeting, the prompts and the echo of every typed line
    appear, through all layers from the interrupt to the screen.
  \<^item> \<open>Second_Stage\<close>, \<open>Kernel_Main\<close>, \<open>Exec_Init\<close> (\<^verbatim>\<open>karch.c\<close>, \<^verbatim>\<open>kernel/kernel.c\<close>, \<^verbatim>\<open>_exec_init\<close> of \<^verbatim>\<open>kernel/fork.c\<close>): the start of the system
    as a composition of the parts. The kernel reaches its main thread; the main thread mounts the root device and loads
    the file of the first program, or halts with a message and has started nothing; the program's address space maps the file, and the first switch
    to it enters user mode at its entry point.

  \<^bold>\<open>Deviations of the code\<close> that modelling showed are stated next to the operations; where a theorem states one, its
  text says so (for example that the keyboard ring does not close, that a line end loses a character on the screen,
  that the last memory region is not counted, or that a task can fail to sleep).

  \<^bold>\<open>Not modelled.\<close> \<^verbatim>\<open>boot.S\<close>, which runs before any state of the kernel exists. The single instructions of \<^verbatim>\<open>io.c\<close>, \<open>load_gdt\<close>, \<open>load_idt\<close> and
  \<open>halt_cpu\<close>, and \<open>dump_cpu\<close>, which is never called: inline assembly that is known by its effect only; the instructions of \<^verbatim>\<open>atomic.c\<close> are in \<open>Semaphore\<close>.
  \<open>register_ext2\<close>, which fills tables of function pointers (the functions are arguments). \<open>force_kthread_exit\<close>, \<open>thread1\<close> and \<open>main\<close> of \<^verbatim>\<open>apps/init_c\<close>,
  which are single calls of modelled functions or unused, and code in comments. The messages of the disk driver about each disk. \<^verbatim>\<open>binfmt_elf32.c\<close> has no code, and the
  headers \<^verbatim>\<open>elf.h\<close> and \<^verbatim>\<open>elf32.h\<close> are declarations that nothing uses. The build system.
\<close>

end
